(* ===== verification/Prelude.thy ===== *)
theory Prelude
  imports Complex_Main "HOL-Library.AList" "HOL-Library.Word"
begin

text \<open>
  Shared vocabulary of the development: the JavaScript values the broker handles, the parts of
  the language's standard library its sources use (\<open>Number\<close>, \<open>String\<close>, \<open>Map\<close>, \<open>split\<close>,
  \<open>trim\<close>, \<open>toLowerCase\<close>, \<open>JSON\<close>), and the lemmas on association lists and lists that
  the component theories share.

  Conventions.
  \<^item> A JavaScript \<open>Map\<close> or plain object is an association list in insertion order with distinct
    keys (\<open>jset\<close> keeps the position of an existing key and appends a new one, as \<open>Map.set\<close> does).
  \<^item> A number is an exact rational, an infinity or NaN: rounding of doubles is not modelled.
  \<^item> Strings are lists of 8-bit characters (code units up to 255).
  \<^item> The clock (\<open>Date.now()\<close>) and the random source are arguments of the operations that read them.
\<close>

named_theorems js_simps "rewrite rules for JavaScript values and maps"

section \<open>Numbers and values\<close>

datatype jsnum = Fin rat | PosInf | NegInf | NaN

datatype jsval =
    JUndef
  | JNull
  | JBool bool
  | JNum jsnum
  | JStr string
  | JArr "jsval list"
  | JObj "(string \<times> jsval) list"

text \<open>The relational operators: false as soon as one side is NaN.\<close>

fun num_lt :: "jsnum \<Rightarrow> jsnum \<Rightarrow> bool" where
  "num_lt (Fin a) (Fin b) = (a < b)"
| "num_lt (Fin a) PosInf = True"
| "num_lt NegInf (Fin b) = True"
| "num_lt NegInf PosInf = True"
| "num_lt _ _ = False"

fun num_le :: "jsnum \<Rightarrow> jsnum \<Rightarrow> bool" where
  "num_le NaN _ = False"
| "num_le _ NaN = False"
| "num_le a b = (num_lt a b \<or> a = b)"

fun is_finite :: "jsnum \<Rightarrow> bool" where
  "is_finite (Fin _) = True"
| "is_finite _ = False"

fun fin_val :: "jsnum \<Rightarrow> rat" where
  "fin_val (Fin r) = r"
| "fin_val _ = 0"

fun truthy :: "jsval \<Rightarrow> bool" where
  "truthy JUndef = False"
| "truthy JNull = False"
| "truthy (JBool b) = b"
| "truthy (JNum n) = (n \<noteq> Fin 0 \<and> n \<noteq> NaN)"
| "truthy (JStr s) = (s \<noteq> [])"
| "truthy (JArr _) = True"
| "truthy (JObj _) = True"

definition nullish :: "jsval \<Rightarrow> bool" where
  "nullish v \<longleftrightarrow> v = JUndef \<or> v = JNull"

text \<open>\<open>a || b\<close> and its chains: the first truthy operand, else the last one.\<close>

definition js_or :: "jsval \<Rightarrow> jsval \<Rightarrow> jsval" where
  "js_or a b = (if truthy a then a else b)"

fun is_str :: "jsval \<Rightarrow> bool" where
  "is_str (JStr _) = True"
| "is_str _ = False"

fun is_num :: "jsval \<Rightarrow> bool" where
  "is_num (JNum _) = True"
| "is_num _ = False"

fun is_bool :: "jsval \<Rightarrow> bool" where
  "is_bool (JBool _) = True"
| "is_bool _ = False"

fun is_array :: "jsval \<Rightarrow> bool" where
  "is_array (JArr _) = True"
| "is_array _ = False"

text \<open>\<open>v && typeof v === 'object' && !Array.isArray(v)\<close>.\<close>

fun is_plain_obj :: "jsval \<Rightarrow> bool" where
  "is_plain_obj (JObj _) = True"
| "is_plain_obj _ = False"

text \<open>Property read on a value that is not null or undefined; an absent property is undefined.\<close>

fun obj_get :: "jsval \<Rightarrow> string \<Rightarrow> jsval" where
  "obj_get (JObj kvs) k = (case map_of kvs k of None \<Rightarrow> JUndef | Some v \<Rightarrow> v)"
| "obj_get _ k = JUndef"

text \<open>The members of every object literal: \<open>o[k]\<close> is not undefined for them, and \<open>k in o\<close> holds.\<close>

definition object_members :: "string list" where
  "object_members = [''constructor'', ''__proto__'', ''hasOwnProperty'', ''isPrototypeOf'', ''propertyIsEnumerable'',
     ''toString'', ''toLocaleString'', ''valueOf'', ''__defineGetter__'', ''__defineSetter__'', ''__lookupGetter__'', ''__lookupSetter__'']"

fun obj_fields :: "jsval \<Rightarrow> (string \<times> jsval) list" where
  "obj_fields (JObj kvs) = kvs"
| "obj_fields _ = []"

section \<open>Strings\<close>

definition is_space :: "char \<Rightarrow> bool" where
  "is_space c \<longleftrightarrow> (let n = (of_char c :: nat) in n = 32 \<or> (9 \<le> n \<and> n \<le> 13) \<or> n = 160)"

definition is_digit :: "char \<Rightarrow> bool" where
  "is_digit c \<longleftrightarrow> (let n = (of_char c :: nat) in 48 \<le> n \<and> n \<le> 57)"

definition lower_char :: "char \<Rightarrow> char" where
  "lower_char c = (let n = (of_char c :: nat)
     in if (65 \<le> n \<and> n \<le> 90) \<or> (192 \<le> n \<and> n \<le> 222 \<and> n \<noteq> 215) then char_of (n + 32) else c)"

definition upper_char :: "char \<Rightarrow> char" where
  "upper_char c = (let n = (of_char c :: nat)
     in if 97 \<le> n \<and> n \<le> 122 then char_of (n - 32) else c)"

definition to_lower :: "string \<Rightarrow> string" where
  "to_lower = map lower_char"

definition to_upper :: "string \<Rightarrow> string" where
  "to_upper = map upper_char"

definition trim :: "string \<Rightarrow> string" where
  "trim s = rev (dropWhile is_space (rev (dropWhile is_space s)))"

text \<open>\<open>s.split(c)\<close> for a one-character separator: never empty.\<close>

fun split_on :: "char \<Rightarrow> string \<Rightarrow> string list" where
  "split_on c [] = [[]]"
| "split_on c (x # xs) =
     (if x = c then [] # split_on c xs
      else (case split_on c xs of [] \<Rightarrow> [[x]] | p # ps \<Rightarrow> (x # p) # ps))"

fun join_with :: "string \<Rightarrow> string list \<Rightarrow> string" where
  "join_with sep [] = []"
| "join_with sep [s] = s"
| "join_with sep (s # ss) = s @ sep @ join_with sep ss"

text \<open>\<open>s.indexOf(p) === 0\<close>.\<close>

fun starts_with :: "string \<Rightarrow> string \<Rightarrow> bool" where
  "starts_with [] s = True"
| "starts_with (p # ps) [] = False"
| "starts_with (p # ps) (c # cs) = (p = c \<and> starts_with ps cs)"

lemma starts_with_iff: "starts_with p s \<longleftrightarrow> take (length p) s = p"
  by (induction p s rule: starts_with.induct) auto

lemma split_on_nonempty [simp]: "split_on c s \<noteq> []"
  by (induction s) (auto split: list.splits)

lemma join_split_on: "join_with [c] (split_on c s) = s"
proof (induction s)
  case (Cons x xs)
  obtain p ps where sp: "split_on c xs = p # ps"
    by (cases "split_on c xs") auto
  with Cons.IH show ?case
    by (cases ps) auto
qed simp

lemma split_on_no_sep: "p \<in> set (split_on c s) \<Longrightarrow> c \<notin> set p"
  by (induction s arbitrary: p) (auto split: list.splits if_splits)

lemma split_on_append_sep:
  "c \<notin> set a \<Longrightarrow> split_on c (a @ c # b) = a # split_on c b"
  by (induction a) auto

lemma split_on_single: "c \<notin> set a \<Longrightarrow> split_on c a = [a]"
  by (induction a) auto

lemma split_join_with:
  "ps \<noteq> [] \<Longrightarrow> (\<And>p. p \<in> set ps \<Longrightarrow> c \<notin> set p) \<Longrightarrow> split_on c (join_with [c] ps) = ps"
  by (induction "[c]" ps rule: join_with.induct)
    (auto simp: split_on_append_sep split_on_single)

section \<open>Conversions\<close>

fun show_nat :: "nat \<Rightarrow> string" where
  "show_nat n = (if n < 10 then [char_of (48 + n)] else show_nat (n div 10) @ [char_of (48 + n mod 10)])"

declare show_nat.simps [simp del]

lemma show_nat_nonempty [simp]: "show_nat n \<noteq> []"
  by (subst show_nat.simps) simp

definition digit_val :: "char \<Rightarrow> nat" where
  "digit_val c = of_char c - 48"

definition read_dec :: "string \<Rightarrow> nat" where
  "read_dec = foldl (\<lambda>acc c. 10 * acc + digit_val c) 0"

lemma read_dec_snoc: "read_dec (s @ [c]) = 10 * read_dec s + digit_val c"
  by (simp add: read_dec_def)

lemma read_dec_show_nat: "read_dec (show_nat n) = n"
proof (induction n rule: show_nat.induct)
  case (1 n)
  show ?case
  proof (cases "n < 10")
    case True
    then show ?thesis
      by (subst show_nat.simps) (simp add: read_dec_def digit_val_def)
  next
    case False
    with 1 have "read_dec (show_nat (n div 10)) = n div 10" by simp
    with False show ?thesis
      by (subst show_nat.simps) (simp only: read_dec_snoc if_False, simp add: digit_val_def)
  qed
qed

lemma show_nat_digits: "c \<in> set (show_nat n) \<Longrightarrow> is_digit c"
proof (induction n rule: show_nat.induct)
  case (1 n)
  then show ?case
    by (subst (asm) (2) show_nat.simps) (auto simp: is_digit_def split: if_splits)
qed

text \<open>
  \<open>String(n)\<close> on a finite number: the decimal expansion, cut after twenty fractional digits
  (exponent notation for very large or very small magnitudes is not modelled).
\<close>

fun frac_digits :: "nat \<Rightarrow> rat \<Rightarrow> string" where
  "frac_digits 0 r = []"
| "frac_digits (Suc k) r =
     (if r = 0 then [] else char_of (48 + nat \<lfloor>10 * r\<rfloor>) # frac_digits k (10 * r - of_int \<lfloor>10 * r\<rfloor>))"

definition show_rat :: "rat \<Rightarrow> string" where
  "show_rat r =
     (let a = \<bar>r\<bar>; i = \<lfloor>a\<rfloor>; f = a - of_int i
      in (if r < 0 then ''-'' else []) @ show_nat (nat i) @ (if f = 0 then [] else ''.'' @ frac_digits 20 f))"

fun show_num :: "jsnum \<Rightarrow> string" where
  "show_num (Fin r) = show_rat r"
| "show_num PosInf = ''Infinity''"
| "show_num NegInf = ''-Infinity''"
| "show_num NaN = ''NaN''"

text \<open>\<open>String(v)\<close>; an array joins its elements with commas, null and undefined elements as empty.\<close>

fun to_string :: "jsval \<Rightarrow> string" where
  "to_string JUndef = ''undefined''"
| "to_string JNull = ''null''"
| "to_string (JBool b) = (if b then ''true'' else ''false'')"
| "to_string (JNum n) = show_num n"
| "to_string (JStr s) = s"
| "to_string (JArr vs) = join_with '','' (map (\<lambda>v. if nullish v then [] else to_string v) vs)"
| "to_string (JObj _) = ''[object Object]''"

text \<open>
  \<open>Number(s)\<close> on a string: surrounding white space is dropped, the empty string is 0, then a
  binary, octal or hexadecimal literal, or a signed decimal with optional fraction and exponent.
\<close>

definition all_digits :: "string \<Rightarrow> bool" where
  "all_digits s \<longleftrightarrow> s \<noteq> [] \<and> list_all is_digit s"

definition radix_digit :: "char \<Rightarrow> nat" where
  "radix_digit c = (let n = (of_char (lower_char c) :: nat)
     in if 48 \<le> n \<and> n \<le> 57 then n - 48 else if 97 \<le> n \<and> n \<le> 122 then n - 87 else 99)"

definition read_radix :: "nat \<Rightarrow> string \<Rightarrow> jsnum" where
  "read_radix b s = (if s \<noteq> [] \<and> list_all (\<lambda>c. radix_digit c < b) s
     then Fin (of_nat (foldl (\<lambda>acc c. b * acc + radix_digit c) 0 s)) else NaN)"

definition read_exponent :: "string \<Rightarrow> rat option" where
  "read_exponent s = (case s of
       [] \<Rightarrow> Some 1
     | c # r \<Rightarrow> if lower_char c \<noteq> CHR ''e'' then None
         else if all_digits r then Some (10 ^ read_dec r)
         else (case r of
             [] \<Rightarrow> None
           | d # r' \<Rightarrow> if \<not> all_digits r' then None
               else if d = CHR ''+'' then Some (10 ^ read_dec r')
               else if d = CHR ''-'' then Some (1 / 10 ^ read_dec r') else None))"

definition read_unsigned :: "string \<Rightarrow> jsnum" where
  "read_unsigned s =
     (if s = ''Infinity'' then PosInf
      else let ip = takeWhile is_digit s; r = dropWhile is_digit s;
               has_dot = (r \<noteq> [] \<and> hd r = CHR ''.'');
               fp = (if has_dot then takeWhile is_digit (tl r) else []);
               rest = (if has_dot then dropWhile is_digit (tl r) else r)
           in if ip = [] \<and> fp = [] then NaN
              else (case read_exponent rest of
                  None \<Rightarrow> NaN
                | Some e \<Rightarrow> Fin (of_nat (read_dec (ip @ fp)) / 10 ^ length fp * e)))"

fun num_neg :: "jsnum \<Rightarrow> jsnum" where
  "num_neg (Fin r) = Fin (- r)"
| "num_neg PosInf = NegInf"
| "num_neg NegInf = PosInf"
| "num_neg NaN = NaN"

definition string_to_number :: "string \<Rightarrow> jsnum" where
  "string_to_number s0 = (let s = trim s0 in
     case s of
       [] \<Rightarrow> Fin 0
     | c # r \<Rightarrow>
         if c = CHR ''+'' then read_unsigned r
         else if c = CHR ''-'' then num_neg (read_unsigned r)
         else if c = CHR ''0'' \<and> r \<noteq> [] \<and> lower_char (hd r) = CHR ''x'' then read_radix 16 (tl r)
         else if c = CHR ''0'' \<and> r \<noteq> [] \<and> lower_char (hd r) = CHR ''o'' then read_radix 8 (tl r)
         else if c = CHR ''0'' \<and> r \<noteq> [] \<and> lower_char (hd r) = CHR ''b'' then read_radix 2 (tl r)
         else read_unsigned s)"

text \<open>\<open>parseInt(s, 10)\<close>\<close>

definition parse_int :: "string \<Rightarrow> jsnum" where
  "parse_int s0 =
     (let s = dropWhile is_space s0;
          neg = (s \<noteq> [] \<and> hd s = CHR ''-'');
          r = (if s \<noteq> [] \<and> (hd s = CHR ''-'' \<or> hd s = CHR ''+'') then tl s else s);
          ds = takeWhile is_digit r
      in if ds = [] then NaN else Fin (if neg then - of_nat (read_dec ds) else of_nat (read_dec ds)))"

fun to_number :: "jsval \<Rightarrow> jsnum" where
  "to_number JUndef = NaN"
| "to_number JNull = Fin 0"
| "to_number (JBool b) = Fin (if b then 1 else 0)"
| "to_number (JNum n) = n"
| "to_number (JStr s) = string_to_number s"
| "to_number (JArr vs) = string_to_number (to_string (JArr vs))"
| "to_number (JObj _) = NaN"

text \<open>\<open>Number(v) || d\<close>: NaN and 0 fall back to the default.\<close>

definition number_or :: "jsval \<Rightarrow> rat \<Rightarrow> jsnum" where
  "number_or v d = (let n = to_number v in if n = NaN \<or> n = Fin 0 then Fin d else n)"

section \<open>JSON documents\<close>

text \<open>
  JSON text is modelled by its abstract syntax. \<open>JSON.stringify\<close> gives no text for undefined,
  drops undefined members of objects, writes null for undefined elements of arrays and for
  numbers that are not finite; \<open>JSON.parse\<close> inverts it.
\<close>

datatype json =
    NullJ
  | BoolJ bool
  | NumJ rat
  | StrJ string
  | ArrJ "json list"
  | ObjJ "(string \<times> json) list"

fun json_member :: "string \<Rightarrow> json option \<Rightarrow> (string \<times> json) list" where
  "json_member k None = []"
| "json_member k (Some j) = [(k, j)]"

fun json_stringify :: "jsval \<Rightarrow> json option" where
  "json_stringify JUndef = None"
| "json_stringify JNull = Some NullJ"
| "json_stringify (JBool b) = Some (BoolJ b)"
| "json_stringify (JNum n) = Some (case n of Fin r \<Rightarrow> NumJ r | _ \<Rightarrow> NullJ)"
| "json_stringify (JStr s) = Some (StrJ s)"
| "json_stringify (JArr vs) =
     Some (ArrJ (map (\<lambda>v. case json_stringify v of None \<Rightarrow> NullJ | Some j \<Rightarrow> j) vs))"
| "json_stringify (JObj kvs) =
     Some (ObjJ (concat (map (\<lambda>kv. json_member (fst kv) (json_stringify (snd kv))) kvs)))"

fun json_parse :: "json \<Rightarrow> jsval" where
  "json_parse NullJ = JNull"
| "json_parse (BoolJ b) = JBool b"
| "json_parse (NumJ r) = JNum (Fin r)"
| "json_parse (StrJ s) = JStr s"
| "json_parse (ArrJ js) = JArr (map json_parse js)"
| "json_parse (ObjJ kjs) = JObj (map (\<lambda>kj. (fst kj, json_parse (snd kj))) kjs)"

text \<open>Values that JSON represents exactly.\<close>

fun json_clean :: "jsval \<Rightarrow> bool" where
  "json_clean JUndef = False"
| "json_clean (JNum n) = is_finite n"
| "json_clean (JArr vs) = list_all json_clean vs"
| "json_clean (JObj kvs) = list_all (\<lambda>kv. json_clean (snd kv)) kvs"
| "json_clean _ = True"

lemma json_stringify_parse [simp]: "json_stringify (json_parse j) = Some j"
proof (induction j)
  case (ArrJ js)
  then show ?case by (simp add: map_idI)
next
  case (ObjJ kjs)
  have "concat (map (\<lambda>kj. json_member (fst kj) (json_stringify (json_parse (snd kj)))) kjs)
      = concat (map (\<lambda>kj. [kj]) kjs)"
    by (rule arg_cong [where f = concat], rule map_cong) (auto simp: ObjJ)
  then show ?case by (simp add: comp_def)
qed simp_all

lemma json_roundtrip:
  "json_clean v \<Longrightarrow> \<exists>j. json_stringify v = Some j \<and> json_parse j = v"
proof (induction v)
  case (JNum n)
  then show ?case by (cases n) auto
next
  case (JArr vs)
  then have "map (\<lambda>v. json_parse (case json_stringify v of None \<Rightarrow> NullJ | Some j \<Rightarrow> j)) vs = vs"
    by (intro map_idI) (fastforce simp: list_all_iff)
  then show ?case by (simp add: comp_def)
next
  case (JObj kvs)
  have "map (\<lambda>kj. (fst kj, json_parse (snd kj))) 
      (concat (map (\<lambda>kv. json_member (fst kv) (json_stringify (snd kv))) kvs)) = kvs"
    using JObj
  proof (induction kvs)
    case (Cons kv kvs)
    have "snd kv \<in> Basic_BNFs.snds kv" by (cases kv) simp
    with Cons.prems obtain j where "json_stringify (snd kv) = Some j" "json_parse j = snd kv"
      by fastforce
    with Cons show ?case by force
  qed simp
  then show ?case by simp
qed auto

text \<open>The text \<open>JSON.stringify\<close> writes for a document.\<close>

definition json_escape :: "char \<Rightarrow> string" where
  "json_escape c = (let n = (of_char c :: nat) in
     if n = 34 then [char_of (92 :: nat), char_of (34 :: nat)]
     else if n = 92 then [char_of (92 :: nat), char_of (92 :: nat)]
     else if n = 8 then [char_of (92 :: nat), CHR ''b'']
     else if n = 12 then [char_of (92 :: nat), CHR ''f'']
     else if n = 10 then [char_of (92 :: nat), CHR ''n'']
     else if n = 13 then [char_of (92 :: nat), CHR ''r'']
     else if n = 9 then [char_of (92 :: nat), CHR ''t'']
     else if n < 32 then char_of (92 :: nat) # ''u00'' @ (if n < 16 then ''0'' else ''1'')
         @ [char_of (if n mod 16 < 10 then 48 + n mod 16 else 87 + n mod 16)]
     else [c])"

definition json_quote :: "string \<Rightarrow> string" where
  "json_quote s = char_of (34 :: nat) # concat (map json_escape s) @ [char_of (34 :: nat)]"

fun json_text :: "json \<Rightarrow> string" where
  "json_text NullJ = ''null''"
| "json_text (BoolJ b) = (if b then ''true'' else ''false'')"
| "json_text (NumJ r) = show_rat r"
| "json_text (StrJ s) = json_quote s"
| "json_text (ArrJ js) = ''['' @ join_with '','' (map json_text js) @ '']''"
| "json_text (ObjJ kjs) = ''{'' @ join_with '','' (map (\<lambda>kj. json_quote (fst kj) @ '':'' @ json_text (snd kj)) kjs) @ ''}''"

text \<open>\<open>Buffer.byteLength(s, 'utf8')\<close>\<close>

definition byte_length :: "string \<Rightarrow> nat" where
  "byte_length s = sum_list (map (\<lambda>c. if (of_char c :: nat) < 128 then 1 else 2) s)"

section \<open>Maps as association lists\<close>

type_synonym ('k, 'v) jsmap = "('k \<times> 'v) list"

abbreviation jget :: "('k, 'v) jsmap \<Rightarrow> 'k \<Rightarrow> 'v option" where
  "jget m k \<equiv> map_of m k"

abbreviation jset :: "'k \<Rightarrow> 'v \<Rightarrow> ('k, 'v) jsmap \<Rightarrow> ('k, 'v) jsmap" where
  "jset k v m \<equiv> AList.update k v m"

abbreviation jdel :: "'k \<Rightarrow> ('k, 'v) jsmap \<Rightarrow> ('k, 'v) jsmap" where
  "jdel k m \<equiv> AList.delete k m"

definition wf_map :: "('k, 'v) jsmap \<Rightarrow> bool" where
  "wf_map m \<longleftrightarrow> distinct (map fst m)"

lemma wf_map_Nil [simp, intro]: "wf_map []"
  by (simp add: wf_map_def)

lemma wf_map_jset [simp, intro]: "wf_map m \<Longrightarrow> wf_map (jset k v m)"
  unfolding wf_map_def by (rule distinct_update)

lemma wf_map_jdel [simp, intro]: "wf_map m \<Longrightarrow> wf_map (jdel k m)"
  unfolding wf_map_def by (rule distinct_delete)

lemma wf_map_filter [simp, intro]: "wf_map m \<Longrightarrow> wf_map (filter P m)"
  unfolding wf_map_def by (rule distinct_map_filter)

lemma jget_jset [simp, js_simps]: "jget (jset k v m) k' = (if k' = k then Some v else jget m k')"
  by (simp add: update_conv')

lemma jget_jdel [simp, js_simps]: "jget (jdel k m) k' = (if k' = k then None else jget m k')"
  by (simp add: delete_conv')

lemma jget_filter [js_simps]:
  "wf_map m \<Longrightarrow> jget (filter P m) k =
     (case jget m k of None \<Rightarrow> None | Some v \<Rightarrow> if P (k, v) then Some v else None)"
proof (induction m)
  case (Cons a m)
  then have ih: "jget (filter P m) k =
      (case jget m k of None \<Rightarrow> None | Some v \<Rightarrow> if P (k, v) then Some v else None)"
    and fresh: "fst a \<notin> fst ` set m"
    by (auto simp: wf_map_def)
  then have "k = fst a \<Longrightarrow> jget m k = None"
    by (simp add: map_of_eq_None_iff)
  with ih show ?case by (cases a) auto
qed simp

lemma jset_keys: "fst ` set (jset k v m) = insert k (fst ` set m)"
  by (simp add: dom_update)

lemma set_jset_subset: "set (jset k v m) \<subseteq> insert (k, v) (set m)"
  by (induction m) auto

lemma jset_fresh: "k \<notin> fst ` set m \<Longrightarrow> jset k v m = m @ [(k, v)]"
  by (induction m) auto

lemma set_jdel: "set (jdel k m) = {p \<in> set m. fst p \<noteq> k}"
  by (auto simp: AList.delete_eq)

lemma jdel_keys: "fst ` set (jdel k m) = fst ` set m - {k}"
  by (auto simp: set_jdel)

lemma jget_in_keys: "jget m k = Some v \<Longrightarrow> k \<in> fst ` set m"
  by (force dest: map_of_SomeD)

lemma wf_map_in: "wf_map m \<Longrightarrow> (k, v) \<in> set m \<longleftrightarrow> jget m k = Some v"
  unfolding wf_map_def by (simp add: map_of_eq_Some_iff)

lemma wf_map_card: "wf_map m \<Longrightarrow> length m = card (fst ` set m)"
  unfolding wf_map_def by (metis distinct_card length_map list.set_map)

lemma length_jset: "length (jset k v m) = (case jget m k of None \<Rightarrow> Suc (length m) | Some _ \<Rightarrow> length m)"
  by (induction m) (auto split: option.splits)

lemma length_jdel_le: "length (jdel k m) \<le> length m"
  by (rule length_delete_le)

lemma length_jdel_less: "jget m k \<noteq> None \<Longrightarrow> length (jdel k m) < length m"
proof -
  assume "jget m k \<noteq> None"
  then have "k \<in> fst ` set m" by (simp add: map_of_eq_None_iff)
  then have "\<exists>p \<in> set m. \<not> (case p of (k', v) \<Rightarrow> k \<noteq> k')" by auto
  then show ?thesis
    unfolding AList.delete_eq by (metis length_filter_less)
qed

section \<open>Optional strings\<close>

text \<open>
  A parameter that the callers pass as a string or leave undefined or null is a
  \<open>string option\<close>; the empty string is falsy.
\<close>

fun str_truthy :: "string option \<Rightarrow> bool" where
  "str_truthy None = False"
| "str_truthy (Some s) = (s \<noteq> [])"

definition opt_or :: "string option \<Rightarrow> string option \<Rightarrow> string option" where
  "opt_or a b = (if str_truthy a then a else b)"

text \<open>\<open>String(a || d)\<close>.\<close>

definition str_or :: "string option \<Rightarrow> string \<Rightarrow> string" where
  "str_or a d = (case a of None \<Rightarrow> d | Some s \<Rightarrow> if s = [] then d else s)"

lemma str_or_Some [simp]: "s \<noteq> [] \<Longrightarrow> str_or (Some s) d = s"
  by (simp add: str_or_def)

lemma str_or_None [simp]: "str_or None d = d"
  by (simp add: str_or_def)

section \<open>Lists\<close>

lemma filter_eq_self_iff: "filter P xs = xs \<longleftrightarrow> (\<forall>x \<in> set xs. P x)"
  by (metis filter_True filter_id_conv)

lemma sorted_wrt_filter_intro: "sorted_wrt R xs \<Longrightarrow> sorted_wrt R (filter P xs)"
  by (rule sorted_wrt_filter)

end
