(* ===== verification/Store_Spec.thy ===== *)
theory Store_Spec
  imports Prelude
begin

text \<open>
  The durable-message store contract (the Store interface that \<open>lib/storage/index.js\<close> hands to
  the broker): the message and entry types, the time-to-live rule that the three backends share
  word for word, and the locale \<open>durable_store\<close> with the laws a backend promises and the
  facts the broker's delivery path needs. The memory and SQLite backends interpret it.
\<close>

section \<open>Messages and entries\<close>

text \<open>The argument of \<open>enqueue\<close>: absent fields are \<open>None\<close> or undefined.\<close>

record message =
  m_id :: "string option"
  m_consumer :: "string option"
  m_consumer_id :: "string option"
  m_payload :: jsval
  m_message :: jsval
  m_producer :: "string option"
  m_ttl :: jsval

record entry =
  e_id :: string
  e_realm :: string
  e_event :: string
  e_consumer :: "string option"
  e_payload :: jsval
  e_producer :: "string option"
  e_created_at :: int
  e_expires_at :: "rat option"

record dlq_entry = entry +
  d_reason :: "string option"
  d_at :: int

text \<open>\<open>message.payload !== undefined ? message.payload : message.message\<close>\<close>

definition message_payload :: "message \<Rightarrow> jsval" where
  "message_payload m = (if m_payload m \<noteq> JUndef then m_payload m else m_message m)"

text \<open>\<open>message.consumer || message.consumer_id\<close>\<close>

definition message_consumer :: "message \<Rightarrow> string option" where
  "message_consumer m = opt_or (opt_or (m_consumer m) (m_consumer_id m)) None"

text \<open>
  \<open>default_ttl\<close>, else \<open>defaultTtl\<close>, else one day, converted with \<open>Number\<close>
  (the first lines of each backend's constructor).
\<close>

definition default_ttl_of :: "jsval \<Rightarrow> jsval \<Rightarrow> jsnum" where
  "default_ttl_of snake camel =
     (let t = (if snake = JUndef then camel else snake)
      in to_number (if t = JUndef then JNum (Fin (24 * 60 * 60)) else t))"

text \<open>
  \<open>_expiresAt\<close>: the message's ttl, else the default; a non-finite or negative ttl never
  expires.
\<close>

definition expires_at :: "jsnum \<Rightarrow> int \<Rightarrow> jsval \<Rightarrow> rat option" where
  "expires_at default_ttl now ttl =
     (let n = (if nullish ttl then default_ttl else to_number ttl)
      in case n of Fin t \<Rightarrow> if t < 0 then None else Some (of_int now + t * 1000) | _ \<Rightarrow> None)"

text \<open>An entry survives a purge at time \<open>now\<close> when it has no expiry or a later one.\<close>

definition unexpired :: "int \<Rightarrow> 'a entry_scheme \<Rightarrow> bool" where
  "unexpired now x \<longleftrightarrow> (case e_expires_at x of None \<Rightarrow> True | Some t \<Rightarrow> t > of_int now)"

type_synonym mailbox = "string \<times> string \<times> string"

text \<open>The address a consumer dequeues from.\<close>

definition entry_box :: "'a entry_scheme \<Rightarrow> mailbox" where
  "entry_box x = (e_realm x, e_event x, str_or (e_consumer x) [])"

definition box_of :: "string option \<Rightarrow> string option \<Rightarrow> string option \<Rightarrow> mailbox" where
  "box_of r e c = (str_or r ''default'', str_or e [], str_or c [])"

lemma str_or_empty: "str_or (Some x) [] = x"
  by (simp add: str_or_def)

datatype store_error = DuplicateId | Unbindable

text \<open>A message for the concrete instances.\<close>

definition sample_message :: message where
  "sample_message = \<lparr>m_id = Some ''m1'', m_consumer = Some ''alice'', m_consumer_id = None,
     m_payload = JStr ''hi'', m_message = JUndef, m_producer = Some ''bob'', m_ttl = JNum (Fin 60)\<rparr>"

section \<open>Runs\<close>

text \<open>The broker's calls to a store as data, and a sequence of them with the answers.\<close>

datatype store_op =
    OpEnqueue int string "string option" "string option" message
  | OpDequeue int "string option" "string option" "string option"
  | OpAck string
  | OpDeadLetter int string "string option"

datatype store_out =
    OutEnqueued "store_error + string"
  | OutEntries "entry list"
  | OutAcked
  | OutDead "string option"

fun op_new_id :: "store_op \<Rightarrow> string option" where
  "op_new_id (OpEnqueue now gen r e m) = Some (str_or (m_id m) gen)"
| "op_new_id _ = None"

fun op_clock_ok :: "store_op \<Rightarrow> bool" where
  "op_clock_ok (OpEnqueue now gen r e m) = (0 < now)"
| "op_clock_ok _ = True"

fun store_step ::
  "(int \<Rightarrow> string \<Rightarrow> string option \<Rightarrow> string option \<Rightarrow> message \<Rightarrow> 's \<Rightarrow> (store_error + string) \<times> 's) \<Rightarrow>
   (int \<Rightarrow> string option \<Rightarrow> string option \<Rightarrow> string option \<Rightarrow> 's \<Rightarrow> entry list \<times> 's) \<Rightarrow>
   (string \<Rightarrow> 's \<Rightarrow> 's) \<Rightarrow> (int \<Rightarrow> string \<Rightarrow> string option \<Rightarrow> 's \<Rightarrow> string option \<times> 's) \<Rightarrow>
   store_op \<Rightarrow> 's \<Rightarrow> store_out \<times> 's" where
  "store_step enq deq ak dl (OpEnqueue now gen r e m) s = map_prod OutEnqueued id (enq now gen r e m s)"
| "store_step enq deq ak dl (OpDequeue now r e c) s = map_prod OutEntries id (deq now r e c s)"
| "store_step enq deq ak dl (OpAck i) s = (OutAcked, ak i s)"
| "store_step enq deq ak dl (OpDeadLetter now i why) s = map_prod OutDead id (dl now i why s)"

fun store_run ::
  "(store_op \<Rightarrow> 's \<Rightarrow> store_out \<times> 's) \<Rightarrow> store_op list \<Rightarrow> 's \<Rightarrow> store_out list \<times> 's" where
  "store_run step [] s = ([], s)"
| "store_run step (p # ps) s =
     (let (out, s') = step p s; (outs, s'') = store_run step ps s' in (out # outs, s''))"

fun delivered_ids :: "store_out \<Rightarrow> string set" where
  "delivered_ids (OutEntries xs) = e_id ` set xs"
| "delivered_ids _ = {}"

section \<open>The contract\<close>

locale durable_store =
  fixes invar :: "'s \<Rightarrow> bool"
    and queue :: "'s \<Rightarrow> entry list"
    and dead :: "'s \<Rightarrow> dlq_entry list"
    and stored :: "jsval \<Rightarrow> jsval"
    and expiry :: "'s \<Rightarrow> int \<Rightarrow> message \<Rightarrow> rat option"
    and enqueue :: "int \<Rightarrow> string \<Rightarrow> string option \<Rightarrow> string option \<Rightarrow> message \<Rightarrow> 's
                      \<Rightarrow> (store_error + string) \<times> 's"
    and dequeue :: "int \<Rightarrow> string option \<Rightarrow> string option \<Rightarrow> string option \<Rightarrow> 's \<Rightarrow> entry list \<times> 's"
    and ack :: "string \<Rightarrow> 's \<Rightarrow> 's"
    and deadLetter :: "int \<Rightarrow> string \<Rightarrow> string option \<Rightarrow> 's \<Rightarrow> string option \<times> 's"
  assumes enqueue_ok:
      "invar s \<Longrightarrow> 0 < now \<Longrightarrow> enqueue now gen r e m s = (Inr i, s') \<Longrightarrow>
       \<exists>x. queue s' = filter (unexpired now) (queue s) @ [x] \<and> e_id x = i
         \<and> entry_box x = box_of r e (message_consumer m) \<and> e_payload x = stored (message_payload m)
         \<and> e_id x = str_or (m_id m) gen \<and> e_expires_at x = expiry s now m"
    and enqueue_fail:
      "invar s \<Longrightarrow> 0 < now \<Longrightarrow> enqueue now gen r e m s = (Inl err, s') \<Longrightarrow>
       queue s' = filter (unexpired now) (queue s)"
    and enqueue_dead: "invar s \<Longrightarrow> dead (snd (enqueue now gen r e m s)) = dead s"
    and dequeue_result:
      "invar s \<Longrightarrow> fst (dequeue now r e c s) =
         filter (\<lambda>x. entry_box x = box_of r e c) (filter (unexpired now) (queue s))"
    and dequeue_queue:
      "invar s \<Longrightarrow> queue (snd (dequeue now r e c s)) = filter (unexpired now) (queue s)"
    and dequeue_dead: "invar s \<Longrightarrow> dead (snd (dequeue now r e c s)) = dead s"
    and ack_queue: "invar s \<Longrightarrow> queue (ack i s) = filter (\<lambda>x. e_id x \<noteq> i) (queue s)"
    and ack_dead: "invar s \<Longrightarrow> dead (ack i s) = dead s"
    and deadLetter_queue:
      "invar s \<Longrightarrow> queue (snd (deadLetter now i why s)) = filter (\<lambda>x. e_id x \<noteq> i) (queue s)"
    and deadLetter_found:
      "invar s \<Longrightarrow> (fst (deadLetter now i why s) = Some i) = (\<exists>x \<in> set (queue s). e_id x = i)"
    and deadLetter_dead:
      "invar s \<Longrightarrow> x \<in> set (queue s) \<Longrightarrow> e_id x = i \<Longrightarrow>
       \<exists>d \<in> set (dead (snd (deadLetter now i why s))). e_id d = i \<and> d_at d = now \<and>
          (\<exists>y \<in> set (queue s). e_id y = i \<and> entry.truncate d = y)"
    and invar_enqueue: "invar s \<Longrightarrow> 0 < now \<Longrightarrow> invar (snd (enqueue now gen r e m s))"
    and invar_dequeue: "invar s \<Longrightarrow> invar (snd (dequeue now r e c s))"
    and invar_ack: "invar s \<Longrightarrow> invar (ack i s)"
    and invar_deadLetter: "invar s \<Longrightarrow> invar (snd (deadLetter now i why s))"
begin

lemmas invars = invar_enqueue invar_dequeue invar_ack invar_deadLetter

lemmas store_laws = dequeue_result dequeue_queue ack_queue deadLetter_queue

text \<open>
  A message that is gone (acknowledged, dead-lettered, expired) stays gone over any run, until a
  message with its id is enqueued again.
\<close>

abbreviation step :: "store_op \<Rightarrow> 's \<Rightarrow> store_out \<times> 's" where
  "step \<equiv> store_step enqueue dequeue ack deadLetter"

lemma step_absent:
  assumes "invar s" "i \<notin> e_id ` set (queue s)" "op_new_id p \<noteq> Some i" "op_clock_ok p"
  shows "invar (snd (step p s)) \<and> i \<notin> e_id ` set (queue (snd (step p s))) \<and> i \<notin> delivered_ids (fst (step p s))"
proof (cases p)
  case (OpEnqueue now gen r e m)
  obtain res s' where eq: "enqueue now gen r e m s = (res, s')" by fastforce
  have inv': "invar s'" using invar_enqueue [of s now gen r e m] assms OpEnqueue eq by simp
  show ?thesis
  proof (cases res)
    case (Inl err)
    with eq enqueue_fail [of s now gen r e m err s'] assms OpEnqueue inv' show ?thesis by auto
  next
    case (Inr j)
    with eq enqueue_ok [of s now gen r e m j s'] assms OpEnqueue inv' show ?thesis by auto
  qed
qed (use assms in \<open>auto simp: store_laws invars\<close>)

lemma run_absent:
  "invar s \<Longrightarrow> i \<notin> e_id ` set (queue s) \<Longrightarrow> \<forall>p \<in> set ps. op_new_id p \<noteq> Some i \<and> op_clock_ok p \<Longrightarrow>
   \<forall>out \<in> set (fst (store_run step ps s)). i \<notin> delivered_ids out"
proof (induction ps arbitrary: s)
  case (Cons p ps)
  have "invar (snd (step p s)) \<and> i \<notin> e_id ` set (queue (snd (step p s))) \<and> i \<notin> delivered_ids (fst (step p s))"
    using Cons.prems by (intro step_absent) auto
  with Cons show ?case by (auto simp: Let_def split_beta)
qed simp

lemma settled_absent:
  "invar s \<Longrightarrow> s' = ack i s \<or> s' = snd (deadLetter now i why s) \<Longrightarrow>
   invar s' \<and> i \<notin> e_id ` set (queue s')"
  by (auto simp: store_laws invars)

text \<open>Dequeueing does not consume: at the same instant it gives the same answer again.\<close>

lemma dequeue_again:
  "invar s \<Longrightarrow> fst (dequeue now r e c (snd (dequeue now r e c s))) = fst (dequeue now r e c s)"
  by (simp add: store_laws invars)

text \<open>
  A stored message is the last one its consumer dequeues, after what was waiting, and no other
  mailbox sees it.
\<close>

lemma enqueue_then_dequeue:
  assumes inv: "invar s" and pos: "0 < now" and enq: "enqueue now gen r e m s = (Inr i, s')"
    and live: "case expiry s now m of None \<Rightarrow> True | Some e \<Rightarrow> of_int t < e"
    and later: "now \<le> t"
  shows "\<exists>x. fst (dequeue t r e (message_consumer m) s')
      = fst (dequeue t r e (message_consumer m) s) @ [x] \<and> e_id x = i
        \<and> e_payload x = stored (message_payload m)"
proof -
  from enqueue_ok [OF inv pos enq] obtain x where
    q: "queue s' = filter (unexpired now) (queue s) @ [x]" and idx: "e_id x = i"
    and box: "entry_box x = box_of r e (message_consumer m)"
    and pay: "e_payload x = stored (message_payload m)" and ex: "e_expires_at x = expiry s now m"
    by blast
  from live ex have lx: "unexpired t x" by (simp add: unexpired_def split: option.splits)
  have mono: "unexpired t y \<Longrightarrow> unexpired now y" for y :: entry
    using later by (auto simp: unexpired_def split: option.splits)
  have inv': "invar s'" using invar_enqueue [OF inv pos] enq by (metis snd_conv)
  have "filter (unexpired t) (filter (unexpired now) (queue s)) = filter (unexpired t) (queue s)"
    by (auto simp: intro!: filter_cong dest: mono)
  with q lx box show ?thesis
    using idx pay by (simp add: dequeue_result [OF inv] dequeue_result [OF inv'])
qed

lemma enqueue_other_mailbox:
  assumes inv: "invar s" and pos: "0 < now" and enq: "enqueue now gen r e m s = (Inr i, s')"
    and other: "box_of r' e' c' \<noteq> box_of r e (message_consumer m)" and later: "now \<le> t"
  shows "fst (dequeue t r' e' c' s') = fst (dequeue t r' e' c' s)"
proof -
  from enqueue_ok [OF inv pos enq] obtain x where
    q: "queue s' = filter (unexpired now) (queue s) @ [x]"
    and box: "entry_box x = box_of r e (message_consumer m)"
    by blast
  have mono: "unexpired t y \<Longrightarrow> unexpired now y" for y :: entry
    using later by (auto simp: unexpired_def split: option.splits)
  have inv': "invar s'" using invar_enqueue [OF inv pos] enq by (metis snd_conv)
  have "filter (unexpired t) (filter (unexpired now) (queue s)) = filter (unexpired t) (queue s)"
    by (auto simp: intro!: filter_cong dest: mono)
  with q box other show ?thesis
    by (simp add: dequeue_result [OF inv] dequeue_result [OF inv'])
qed

end

text \<open>A store that can also report how many messages wait in a realm or a mailbox (\<open>countQueued\<close>).\<close>

locale counting_store =
  durable_store invar queue dead stored expiry enqueue dequeue ack deadLetter
  for invar :: "'s \<Rightarrow> bool" and queue dead stored expiry enqueue dequeue ack deadLetter +
  fixes countQueued :: "int \<Rightarrow> string option \<Rightarrow> string option \<Rightarrow> string option \<Rightarrow> 's \<Rightarrow> nat \<times> 's"
  assumes count_result:
      "invar s \<Longrightarrow> fst (countQueued now r None None s) =
         length (filter (\<lambda>x. fst (entry_box x) = str_or r ''default'') (filter (unexpired now) (queue s)))"
    and count_box:
      "invar s \<Longrightarrow> fst (countQueued now r (Some ev) (Some cn) s) =
         length (filter (\<lambda>x. entry_box x = box_of r (Some ev) (Some cn)) (filter (unexpired now) (queue s)))"
    and count_queue: "invar s \<Longrightarrow> queue (snd (countQueued now r e c s)) = filter (unexpired now) (queue s)"
    and count_dead: "invar s \<Longrightarrow> dead (snd (countQueued now r e c s)) = dead s"
    and invar_count: "invar s \<Longrightarrow> invar (snd (countQueued now r e c s))"

end
