(* ===== verification/Memory_Store.thy ===== *)
theory Memory_Store
  imports Store_Spec
begin

text \<open>
  \<open>lib/storage/memory.js\<close>: the in-process durable store. The store record has the three fields
  of the constructor; each prototype method is one definition with the clock (and, where the code
  draws a random id, the drawn id) as arguments. A promise that resolves at once is its value.
\<close>

record memory_store =
  defaultTtl :: jsnum
  messages :: "entry list"
  dlq :: "dlq_entry list"

definition memory_new :: "jsval \<Rightarrow> jsval \<Rightarrow> memory_store" where
  "memory_new snake camel = \<lparr>defaultTtl = default_ttl_of snake camel, messages = [], dlq = []\<rparr>"

definition memory_expiresAt :: "int \<Rightarrow> message \<Rightarrow> memory_store \<Rightarrow> rat option" where
  "memory_expiresAt now m s = expires_at (defaultTtl s) now (m_ttl m)"

text \<open>\<open>!entry.expires_at || entry.expires_at > now\<close>: null and 0 are both falsy.\<close>

definition memory_keeps :: "int \<Rightarrow> entry \<Rightarrow> bool" where
  "memory_keeps now x \<longleftrightarrow>
     (case e_expires_at x of None \<Rightarrow> True | Some t \<Rightarrow> t = 0 \<or> t > of_int now)"

definition memory_purgeExpired :: "int \<Rightarrow> memory_store \<Rightarrow> memory_store" where
  "memory_purgeExpired now s = s\<lparr>messages := filter (memory_keeps now) (messages s)\<rparr>"

definition memory_enqueue ::
  "int \<Rightarrow> string \<Rightarrow> string option \<Rightarrow> string option \<Rightarrow> message \<Rightarrow> memory_store
     \<Rightarrow> (store_error + string) \<times> memory_store" where
  "memory_enqueue now gen realm event m s0 =
     (let s = memory_purgeExpired now s0;
          i = str_or (m_id m) gen;
          x = \<lparr>e_id = i, e_realm = str_or realm ''default'', e_event = str_or event [],
               e_consumer = message_consumer m, e_payload = message_payload m,
               e_producer = opt_or (m_producer m) None, e_created_at = now,
               e_expires_at = memory_expiresAt now m s\<rparr>
      in (Inr i, s\<lparr>messages := messages s @ [x]\<rparr>))"

definition memory_dequeue ::
  "int \<Rightarrow> string option \<Rightarrow> string option \<Rightarrow> string option \<Rightarrow> memory_store
     \<Rightarrow> entry list \<times> memory_store" where
  "memory_dequeue now realm event consumer s0 =
     (let s = memory_purgeExpired now s0;
          r = str_or realm ''default''; e = str_or event []; c = str_or consumer []
      in (filter (\<lambda>x. e_realm x = r \<and> e_event x = e \<and> str_or (e_consumer x) [] = c) (messages s), s))"

definition memory_ack :: "string \<Rightarrow> memory_store \<Rightarrow> memory_store" where
  "memory_ack msgId s = s\<lparr>messages := filter (\<lambda>x. e_id x \<noteq> msgId) (messages s)\<rparr>"

text \<open>
  The filter callback assigns \<open>found\<close> at every match, so the last match is the one kept.
\<close>

definition last_with_id :: "string \<Rightarrow> entry list \<Rightarrow> entry option" where
  "last_with_id i xs = (case filter (\<lambda>x. e_id x = i) xs of [] \<Rightarrow> None | ys \<Rightarrow> Some (last ys))"

definition memory_deadLetter ::
  "int \<Rightarrow> string \<Rightarrow> string option \<Rightarrow> memory_store \<Rightarrow> string option \<times> memory_store" where
  "memory_deadLetter now msgId reason s =
     (let found = last_with_id msgId (messages s);
          s' = s\<lparr>messages := filter (\<lambda>x. e_id x \<noteq> msgId) (messages s)\<rparr>
      in case found of
           None \<Rightarrow> (None, s')
         | Some x \<Rightarrow> (Some (e_id x),
             s'\<lparr>dlq := dlq s' @ [entry.extend x \<lparr>d_reason = opt_or reason None, d_at = now\<rparr>]\<rparr>))"

text \<open>A missing realm, and the empty string, list every realm.\<close>

definition memory_listDlq :: "string option \<Rightarrow> memory_store \<Rightarrow> dlq_entry list" where
  "memory_listDlq realm s =
     filter (\<lambda>x. \<not> str_truthy realm \<or> Some (e_realm x) = realm) (dlq s)"

definition memory_discardDlq :: "string \<Rightarrow> memory_store \<Rightarrow> memory_store" where
  "memory_discardDlq msgId s = s\<lparr>dlq := filter (\<lambda>x. e_id x \<noteq> msgId) (dlq s)\<rparr>"

definition memory_countQueued ::
  "int \<Rightarrow> string option \<Rightarrow> string option \<Rightarrow> string option \<Rightarrow> memory_store \<Rightarrow> nat \<times> memory_store" where
  "memory_countQueued now realm event consumer s0 =
     (let s = memory_purgeExpired now s0
      in (length (filter (\<lambda>x. e_realm x = str_or realm ''default''
             \<and> (event = None \<or> event = Some (e_event x))
             \<and> (consumer = None \<or> consumer = Some (str_or (e_consumer x) []))) (messages s)), s))"

definition memory_purgeRealm :: "string option \<Rightarrow> memory_store \<Rightarrow> nat \<times> memory_store" where
  "memory_purgeRealm realm s =
     (let r = str_or realm [];
          before = length (messages s) + length (dlq s);
          s' = s\<lparr>messages := filter (\<lambda>x. e_realm x \<noteq> r) (messages s),
                 dlq := filter (\<lambda>x. e_realm x \<noteq> r) (dlq s)\<rparr>
      in (before - length (messages s') - length (dlq s'), s'))"

section \<open>Invariant and contract\<close>

text \<open>
  No stored expiry is 0, so the falsy test of \<open>_purgeExpired\<close> is the plain comparison. It holds
  while the clock is positive.
\<close>

definition memory_invar :: "memory_store \<Rightarrow> bool" where
  "memory_invar s \<longleftrightarrow> (\<forall>x \<in> set (messages s). e_expires_at x \<noteq> Some 0)"

lemma memory_new_invar: "memory_invar (memory_new snake camel)"
  by (simp add: memory_invar_def memory_new_def)

lemma memory_keeps_unexpired:
  "memory_invar s \<Longrightarrow> filter (memory_keeps now) (messages s) = filter (unexpired now) (messages s)"
  by (rule filter_cong)
    (auto simp: memory_invar_def memory_keeps_def unexpired_def split: option.splits)

lemma expires_at_pos: "0 < now \<Longrightarrow> expires_at d now ttl \<noteq> Some 0"
proof -
  assume pos: "0 < now"
  have "of_int now + t * 1000 \<noteq> (0 :: rat)" if "\<not> t < 0" for t :: rat
  proof -
    have "(0 :: rat) < of_int now" using pos by simp
    with that show ?thesis by linarith
  qed
  then show ?thesis
    by (auto simp: expires_at_def Let_def split: jsnum.splits)
qed

lemma last_with_id_Some: "last_with_id i xs = Some x \<Longrightarrow> x \<in> set xs \<and> e_id x = i"
proof -
  assume a: "last_with_id i xs = Some x"
  then have "filter (\<lambda>x. e_id x = i) xs \<noteq> []" "x = last (filter (\<lambda>x. e_id x = i) xs)"
    by (auto simp: last_with_id_def split: list.splits)
  then have "x \<in> set (filter (\<lambda>x. e_id x = i) xs)" by (metis last_in_set)
  then show ?thesis by simp
qed

lemma last_with_id_None: "last_with_id i xs = None \<longleftrightarrow> (\<forall>x \<in> set xs. e_id x \<noteq> i)"
proof -
  have "last_with_id i xs = None \<longleftrightarrow> filter (\<lambda>x. e_id x = i) xs = []"
    by (simp add: last_with_id_def split: list.split)
  then show ?thesis by (simp add: filter_empty_conv)
qed

lemma truncate_extend_entry [simp]: "entry.truncate (entry.extend x m) = x"
  by (cases x) (simp add: entry.truncate_def entry.extend_def)

lemma e_id_extend [simp]: "e_id (entry.extend x m) = e_id x"
  by (simp add: entry.extend_def)

lemma d_at_extend [simp]: "d_at (entry.extend x \<lparr>d_reason = r, d_at = t\<rparr>) = t"
  by (simp add: entry.extend_def)

lemmas memory_defs = memory_purgeExpired_def memory_enqueue_def memory_dequeue_def memory_ack_def
  memory_expiresAt_def Let_def

lemma memory_deadLetter_messages [simp]:
  "messages (snd (memory_deadLetter now i why s)) = filter (\<lambda>x. e_id x \<noteq> i) (messages s)"
  by (simp add: memory_deadLetter_def Let_def split: option.split)

lemma memory_deadLetter_result [simp]:
  "fst (memory_deadLetter now i why s) = map_option e_id (last_with_id i (messages s))"
  by (simp add: memory_deadLetter_def Let_def split: option.split)

lemma memory_deadLetter_dead:
  assumes "x \<in> set (messages s)" "e_id x = i"
  shows "\<exists>d \<in> set (dlq (snd (memory_deadLetter now i why s))). e_id d = i \<and> d_at d = now \<and>
          (\<exists>y \<in> set (messages s). e_id y = i \<and> entry.truncate d = y)"
proof -
  from assms obtain y where y: "last_with_id i (messages s) = Some y"
    by (cases "last_with_id i (messages s)") (auto simp: last_with_id_None)
  with last_with_id_Some [OF y] show ?thesis
    by (auto simp: memory_deadLetter_def Let_def)
qed

interpretation mem: durable_store memory_invar messages dlq "\<lambda>v. v"
  "\<lambda>s now m. memory_expiresAt now m s" memory_enqueue memory_dequeue memory_ack memory_deadLetter
proof unfold_locales
  fix s now gen r e m i s'
  assume inv: "memory_invar s" and eq: "memory_enqueue now gen r e m s = (Inr i, s')"
  then show "\<exists>x. messages s' = filter (unexpired now) (messages s) @ [x] \<and> e_id x = i
         \<and> entry_box x = box_of r e (message_consumer m) \<and> e_payload x = message_payload m
         \<and> e_id x = str_or (m_id m) gen \<and> e_expires_at x = memory_expiresAt now m s"
    by (auto simp: memory_defs memory_keeps_unexpired entry_box_def box_of_def)
next
  fix s now gen r e m err s'
  assume "memory_enqueue now gen r e m s = (Inl err, s')"
  then show "messages s' = filter (unexpired now) (messages s)"
    by (simp add: memory_defs)
next
  fix s :: memory_store and now r e c assume "memory_invar s"
  then show "fst (memory_dequeue now r e c s) =
      filter (\<lambda>x. entry_box x = box_of r e c) (filter (unexpired now) (messages s))"
    by (simp add: memory_defs memory_keeps_unexpired entry_box_def box_of_def)
next
  fix s :: memory_store and now r e c assume "memory_invar s"
  then show "messages (snd (memory_dequeue now r e c s)) = filter (unexpired now) (messages s)"
    by (simp add: memory_defs memory_keeps_unexpired)
next
  fix s :: memory_store and now i why
  show "(fst (memory_deadLetter now i why s) = Some i) = (\<exists>x \<in> set (messages s). e_id x = i)"
    by (cases "last_with_id i (messages s)")
      (auto simp: last_with_id_None dest: last_with_id_Some)
next
  fix s :: memory_store and now :: int and gen r e m assume "memory_invar s" and "0 < now"
  then show "memory_invar (snd (memory_enqueue now gen r e m s))"
    by (auto simp: memory_defs memory_invar_def expires_at_pos)
next
  fix s :: memory_store and x i now why
  assume "x \<in> set (messages s)" and "e_id x = i"
  then show "\<exists>d \<in> set (dlq (snd (memory_deadLetter now i why s))). e_id d = i \<and> d_at d = now \<and>
          (\<exists>y \<in> set (messages s). e_id y = i \<and> entry.truncate d = y)"
    by (rule memory_deadLetter_dead)
qed (auto simp: memory_defs memory_invar_def)

interpretation mem: counting_store memory_invar messages dlq "\<lambda>v. v"
  "\<lambda>s now m. memory_expiresAt now m s" memory_enqueue memory_dequeue memory_ack memory_deadLetter memory_countQueued
  by unfold_locales
    (auto simp: memory_countQueued_def memory_purgeExpired_def memory_keeps_unexpired entry_box_def box_of_def str_or_empty Let_def memory_invar_def
      intro!: arg_cong [where f = length] filter_cong)

section \<open>Properties\<close>

text \<open>
  C1. Nothing is lost: a message stored at \<open>now\<close> is, at any later time before its expiry, the
  last element its consumer dequeues, after everything that was already waiting, with its payload
  unchanged.
\<close>

theorem memory_delivers:
  assumes inv: "memory_invar s" and pos: "0 < now" and later: "now \<le> t"
    and live: "case memory_expiresAt now m s of None \<Rightarrow> True | Some e \<Rightarrow> of_int t < e"
  shows "\<exists>x. fst (memory_dequeue t r e (message_consumer m) (snd (memory_enqueue now gen r e m s)))
      = fst (memory_dequeue t r e (message_consumer m) s) @ [x]
        \<and> fst (memory_enqueue now gen r e m s) = Inr (e_id x) \<and> e_payload x = message_payload m"
proof -
  obtain i s' where enq: "memory_enqueue now gen r e m s = (Inr i, s')"
    by (simp add: memory_enqueue_def Let_def)
  show ?thesis using mem.enqueue_then_dequeue [OF inv pos enq live later] enq by auto
qed

theorem memory_delivers_witness:
  "\<exists>x. fst (memory_dequeue 2000 (Some ''r'') (Some ''e'') (message_consumer sample_message)
         (snd (memory_enqueue 1000 ''g'' (Some ''r'') (Some ''e'') sample_message (memory_new JUndef JUndef))))
      = fst (memory_dequeue 2000 (Some ''r'') (Some ''e'') (message_consumer sample_message) (memory_new JUndef JUndef)) @ [x]
        \<and> fst (memory_enqueue 1000 ''g'' (Some ''r'') (Some ''e'') sample_message (memory_new JUndef JUndef)) = Inr (e_id x)
        \<and> e_payload x = message_payload sample_message"
proof (rule memory_delivers)
  show "memory_invar (memory_new JUndef JUndef)" by (rule memory_new_invar)
  show "case memory_expiresAt 1000 sample_message (memory_new JUndef JUndef) of None \<Rightarrow> True | Some e \<Rightarrow> of_int 2000 < e"
    by code_simp
qed simp_all

text \<open>
  Mailboxes are isolated: storing a message changes nothing in what a consumer with another
  realm, event or name dequeues, now or later.
\<close>

theorem memory_isolates:
  assumes inv: "memory_invar s" and pos: "0 < now" and later: "now \<le> t"
    and other: "box_of r' e' c' \<noteq> box_of r e (message_consumer m)"
  shows "fst (memory_dequeue t r' e' c' (snd (memory_enqueue now gen r e m s))) = fst (memory_dequeue t r' e' c' s)"
proof -
  obtain i s' where enq: "memory_enqueue now gen r e m s = (Inr i, s')"
    by (simp add: memory_enqueue_def Let_def)
  show ?thesis using mem.enqueue_other_mailbox [OF inv pos enq other later] enq by simp
qed

theorem memory_isolates_witness:
  "fst (memory_dequeue 2000 (Some ''r2'') (Some ''e'') (Some ''alice'')
     (snd (memory_enqueue 1000 ''g'' (Some ''r'') (Some ''e'') sample_message (memory_new JUndef JUndef))))
   = fst (memory_dequeue 2000 (Some ''r2'') (Some ''e'') (Some ''alice'') (memory_new JUndef JUndef))"
proof (rule memory_isolates)
  show "memory_invar (memory_new JUndef JUndef)" by (rule memory_new_invar)
  show "box_of (Some ''r2'') (Some ''e'') (Some ''alice'') \<noteq> box_of (Some ''r'') (Some ''e'') (message_consumer sample_message)"
    by code_simp
qed simp_all

text \<open>
  A settled message is never delivered again: once it is acknowledged or dead-lettered, no
  dequeue of any later sequence of store operations returns its id, unless a message with that id
  is enqueued again; and a dead-lettered one is kept, as it was, on the dead-letter queue.
\<close>

theorem memory_settled:
  assumes inv: "memory_invar s" and fresh: "\<forall>p \<in> set ps. op_new_id p \<noteq> Some i \<and> op_clock_ok p"
    and s': "s' = memory_ack i s \<or> s' = snd (memory_deadLetter now i why s)"
  shows "(\<forall>out \<in> set (fst (store_run (store_step memory_enqueue memory_dequeue memory_ack memory_deadLetter) ps s')).
            i \<notin> delivered_ids out)
    \<and> (i \<in> e_id ` set (messages s) \<longrightarrow>
        (\<exists>d \<in> set (memory_listDlq None (snd (memory_deadLetter now i why s))).
           e_id d = i \<and> d_at d = now \<and> entry.truncate d \<in> set (messages s)))"
proof
  have "memory_invar s' \<and> i \<notin> e_id ` set (messages s')"
    by (rule mem.settled_absent [OF inv s'])
  then show "\<forall>out \<in> set (fst (store_run (store_step memory_enqueue memory_dequeue memory_ack memory_deadLetter) ps s')).
      i \<notin> delivered_ids out"
    using mem.run_absent fresh by blast
  show "i \<in> e_id ` set (messages s) \<longrightarrow>
        (\<exists>d \<in> set (memory_listDlq None (snd (memory_deadLetter now i why s))).
           e_id d = i \<and> d_at d = now \<and> entry.truncate d \<in> set (messages s))"
    using memory_deadLetter_dead [of _ s i now why] by (auto simp: memory_listDlq_def)
qed

theorem memory_settled_witness:
  "let s = snd (memory_enqueue 1000 ''g'' (Some ''r'') (Some ''e'') sample_message (memory_new JUndef JUndef));
       ps = [OpDequeue 2000 (Some ''r'') (Some ''e'') (Some ''alice'')]
   in (\<forall>out \<in> set (fst (store_run (store_step memory_enqueue memory_dequeue memory_ack memory_deadLetter) ps
          (memory_ack ''m1'' s))). ''m1'' \<notin> delivered_ids out)
    \<and> (\<exists>d \<in> set (memory_listDlq None (snd (memory_deadLetter 1500 ''m1'' (Some ''max'') s))).
           e_id d = ''m1'' \<and> d_at d = 1500 \<and> entry.truncate d \<in> set (messages s))"
proof -
  let ?s = "snd (memory_enqueue 1000 ''g'' (Some ''r'') (Some ''e'') sample_message (memory_new JUndef JUndef))"
  have inv: "memory_invar ?s" by (intro mem.invar_enqueue memory_new_invar) simp
  have "''m1'' \<in> e_id ` set (messages ?s)"
    by (simp add: memory_defs sample_message_def memory_new_def str_or_def)
  then show ?thesis
    using memory_settled [OF inv, of "[OpDequeue 2000 (Some ''r'') (Some ''e'') (Some ''alice'')]"
        "''m1''" "memory_ack ''m1'' ?s" 1500 "Some ''max''"]
    by (simp only: Let_def) simp
qed

end
