(* ===== verification/Sqlite_Store.thy ===== *)
theory Sqlite_Store
  imports Store_Spec
begin

text \<open>
  \<open>lib/storage/sqlite.js\<close>: the durable store over \<open>node:sqlite\<close>. A table is the list of
  its rows in rowid order (a new row gets the largest rowid, so it is appended; \<open>INSERT OR
  REPLACE\<close> removes the conflicting row and appends the new one). \<open>id\<close> is the primary key of
  both tables: inserting a second row with the same id raises, and so does binding undefined,
  which is what \<open>JSON.stringify\<close> gives for a message without a payload.
\<close>

record sq_row =
  r_id :: string
  r_realm :: string
  r_event :: string
  r_consumer :: string
  r_payload :: json
  r_producer :: "string option"
  r_created_at :: int
  r_expires_at :: "rat option"

record sq_dlq_row = sq_row +
  r_reason :: "string option"
  r_dead_lettered_at :: int

record sqlite_store =
  sq_defaultTtl :: jsnum
  sq_messages :: "sq_row list"
  sq_dlq :: "sq_dlq_row list"

definition sqlite_new :: "jsval \<Rightarrow> jsval \<Rightarrow> sqlite_store" where
  "sqlite_new snake camel = \<lparr>sq_defaultTtl = default_ttl_of snake camel, sq_messages = [], sq_dlq = []\<rparr>"

definition sqlite_expiresAt :: "int \<Rightarrow> message \<Rightarrow> sqlite_store \<Rightarrow> rat option" where
  "sqlite_expiresAt now m s = expires_at (sq_defaultTtl s) now (m_ttl m)"

text \<open>\<open>DELETE FROM messages WHERE expires_at IS NOT NULL AND expires_at <= ?\<close>\<close>

definition row_expired :: "int \<Rightarrow> sq_row \<Rightarrow> bool" where
  "row_expired now x \<longleftrightarrow> (case r_expires_at x of None \<Rightarrow> False | Some t \<Rightarrow> t \<le> of_int now)"

definition sqlite_purgeExpired :: "int \<Rightarrow> sqlite_store \<Rightarrow> sqlite_store" where
  "sqlite_purgeExpired now s =
     s\<lparr>sq_messages := filter (\<lambda>x. \<not> row_expired now x) (sq_messages s)\<rparr>"

definition sqlite_enqueue ::
  "int \<Rightarrow> string \<Rightarrow> string option \<Rightarrow> string option \<Rightarrow> message \<Rightarrow> sqlite_store
     \<Rightarrow> (store_error + string) \<times> sqlite_store" where
  "sqlite_enqueue now gen realm event m s0 =
     (let s = sqlite_purgeExpired now s0; i = str_or (m_id m) gen
      in case json_stringify (message_payload m) of
           None \<Rightarrow> (Inl Unbindable, s)
         | Some p \<Rightarrow>
             if \<exists>x \<in> set (sq_messages s). r_id x = i then (Inl DuplicateId, s)
             else (Inr i, s\<lparr>sq_messages := sq_messages s @
               [\<lparr>r_id = i, r_realm = str_or realm ''default'', r_event = str_or event [],
                 r_consumer = str_or (message_consumer m) [], r_payload = p,
                 r_producer = opt_or (m_producer m) None, r_created_at = now,
                 r_expires_at = sqlite_expiresAt now m s\<rparr>]\<rparr>))"

text \<open>The object a row is returned as, with the payload parsed.\<close>

definition row_entry :: "'a sq_row_scheme \<Rightarrow> entry" where
  "row_entry x = \<lparr>e_id = r_id x, e_realm = r_realm x, e_event = r_event x,
     e_consumer = Some (r_consumer x), e_payload = json_parse (r_payload x),
     e_producer = r_producer x, e_created_at = r_created_at x, e_expires_at = r_expires_at x\<rparr>"

definition dlq_row_entry :: "sq_dlq_row \<Rightarrow> dlq_entry" where
  "dlq_row_entry x = entry.extend (row_entry x) \<lparr>d_reason = r_reason x, d_at = r_dead_lettered_at x\<rparr>"

definition sqlite_dequeue ::
  "int \<Rightarrow> string option \<Rightarrow> string option \<Rightarrow> string option \<Rightarrow> sqlite_store
     \<Rightarrow> entry list \<times> sqlite_store" where
  "sqlite_dequeue now realm event consumer s0 =
     (let s = sqlite_purgeExpired now s0
      in (map row_entry (filter (\<lambda>x. r_realm x = str_or realm ''default''
            \<and> r_event x = str_or event [] \<and> r_consumer x = str_or consumer []) (sq_messages s)), s))"

definition sqlite_ack :: "string \<Rightarrow> sqlite_store \<Rightarrow> sqlite_store" where
  "sqlite_ack msgId s = s\<lparr>sq_messages := filter (\<lambda>x. r_id x \<noteq> msgId) (sq_messages s)\<rparr>"

text \<open>\<open>INSERT OR REPLACE INTO dlq\<close>\<close>

definition dlq_replace :: "sq_dlq_row \<Rightarrow> sq_dlq_row list \<Rightarrow> sq_dlq_row list" where
  "dlq_replace x xs = filter (\<lambda>y. r_id y \<noteq> r_id x) xs @ [x]"

definition sqlite_deadLetter ::
  "int \<Rightarrow> string \<Rightarrow> string option \<Rightarrow> sqlite_store \<Rightarrow> string option \<times> sqlite_store" where
  "sqlite_deadLetter now msgId reason s =
     (case find (\<lambda>x. r_id x = msgId) (sq_messages s) of
        None \<Rightarrow> (None, s)
      | Some row \<Rightarrow> (Some (r_id row),
          s\<lparr>sq_dlq := dlq_replace (sq_row.extend row
               \<lparr>r_reason = opt_or reason None, r_dead_lettered_at = now\<rparr>) (sq_dlq s),
            sq_messages := filter (\<lambda>x. r_id x \<noteq> msgId) (sq_messages s)\<rparr>))"

definition sqlite_listDlq :: "string option \<Rightarrow> sqlite_store \<Rightarrow> dlq_entry list" where
  "sqlite_listDlq realm s =
     map dlq_row_entry (filter (\<lambda>x. realm = None \<or> realm = Some (r_realm x)) (sq_dlq s))"

definition sqlite_discardDlq :: "string \<Rightarrow> sqlite_store \<Rightarrow> sqlite_store" where
  "sqlite_discardDlq msgId s = s\<lparr>sq_dlq := filter (\<lambda>x. r_id x \<noteq> msgId) (sq_dlq s)\<rparr>"

definition sqlite_countQueued ::
  "int \<Rightarrow> string option \<Rightarrow> string option \<Rightarrow> string option \<Rightarrow> sqlite_store \<Rightarrow> nat \<times> sqlite_store" where
  "sqlite_countQueued now realm event consumer s0 =
     (let s = sqlite_purgeExpired now s0
      in (length (filter (\<lambda>x. r_realm x = str_or realm ''default''
             \<and> (event = None \<or> event = Some (r_event x))
             \<and> (consumer = None \<or> consumer = Some (r_consumer x))) (sq_messages s)), s))"

text \<open>The number of deleted rows of both tables.\<close>

definition sqlite_purgeRealm :: "string option \<Rightarrow> sqlite_store \<Rightarrow> nat \<times> sqlite_store" where
  "sqlite_purgeRealm realm s =
     (let r = str_or realm []
      in (length (filter (\<lambda>x. r_realm x = r) (sq_messages s)) + length (filter (\<lambda>x. r_realm x = r) (sq_dlq s)),
          s\<lparr>sq_messages := filter (\<lambda>x. r_realm x \<noteq> r) (sq_messages s),
            sq_dlq := filter (\<lambda>x. r_realm x \<noteq> r) (sq_dlq s)\<rparr>))"

section \<open>Invariant and contract\<close>

text \<open>The primary keys.\<close>

definition sqlite_invar :: "sqlite_store \<Rightarrow> bool" where
  "sqlite_invar s \<longleftrightarrow> distinct (map r_id (sq_messages s)) \<and> distinct (map r_id (sq_dlq s))"

definition sqlite_queue :: "sqlite_store \<Rightarrow> entry list" where
  "sqlite_queue s = map row_entry (sq_messages s)"

definition sqlite_dead :: "sqlite_store \<Rightarrow> dlq_entry list" where
  "sqlite_dead s = map dlq_row_entry (sq_dlq s)"

text \<open>What comes back for a stored payload: the text written, parsed.\<close>

definition json_stored :: "jsval \<Rightarrow> jsval" where
  "json_stored v = (case json_stringify v of None \<Rightarrow> JUndef | Some j \<Rightarrow> json_parse j)"

lemma json_stored_clean: "json_clean v \<Longrightarrow> json_stored v = v"
  using json_roundtrip [of v] by (auto simp: json_stored_def)

lemma sqlite_new_invar: "sqlite_invar (sqlite_new snake camel)"
  by (simp add: sqlite_invar_def sqlite_new_def)

lemma row_entry_simps [simp]:
  "e_id (row_entry x) = r_id x" "e_realm (row_entry x) = r_realm x" "e_event (row_entry x) = r_event x"
  "e_consumer (row_entry x) = Some (r_consumer x)" "e_expires_at (row_entry x) = r_expires_at x"
  "e_payload (row_entry x) = json_parse (r_payload x)"
  by (simp_all add: row_entry_def)

lemma row_expired_iff: "\<not> row_expired now x \<longleftrightarrow> unexpired now (row_entry x)"
  by (auto simp: row_expired_def unexpired_def split: option.splits)

lemma row_box_iff:
  "entry_box (row_entry x) = box_of r e c \<longleftrightarrow>
     r_realm x = str_or r ''default'' \<and> r_event x = str_or e [] \<and> r_consumer x = str_or c []"
  by (auto simp: entry_box_def box_of_def str_or_def)

lemma sqlite_purge_queue:
  "map row_entry (sq_messages (sqlite_purgeExpired now s)) = filter (unexpired now) (sqlite_queue s)"
  by (simp add: sqlite_purgeExpired_def sqlite_queue_def filter_map comp_def row_expired_iff)

lemma sqlite_purge_simps [simp]:
  "sq_dlq (sqlite_purgeExpired now s) = sq_dlq s"
  "sq_defaultTtl (sqlite_purgeExpired now s) = sq_defaultTtl s"
  "sqlite_invar s \<Longrightarrow> sqlite_invar (sqlite_purgeExpired now s)"
  by (auto simp: sqlite_purgeExpired_def sqlite_invar_def intro: distinct_map_filter)

lemma row_entry_extend [simp]: "row_entry (sq_row.extend x m) = row_entry x"
  by (simp add: row_entry_def sq_row.extend_def)

lemma sqlite_deadLetter_queue:
  "sqlite_queue (snd (sqlite_deadLetter now i why s)) = filter (\<lambda>x. e_id x \<noteq> i) (sqlite_queue s)"
  by (auto simp: sqlite_deadLetter_def sqlite_queue_def filter_map comp_def filter_id_conv find_None_iff
      intro!: arg_cong [where f = "map row_entry"] sym [OF filter_True] split: option.split)

lemma sqlite_find_id:
  "x \<in> set (sq_messages s) \<Longrightarrow> \<exists>y. find (\<lambda>y. r_id y = r_id x) (sq_messages s) = Some y
     \<and> y \<in> set (sq_messages s) \<and> r_id y = r_id x"
  by (cases "find (\<lambda>y. r_id y = r_id x) (sq_messages s)")
    (auto simp: find_None_iff find_Some_iff)

lemma sqlite_deadLetter_dead:
  assumes "x \<in> set (sqlite_queue s)" "e_id x = i"
  shows "\<exists>d \<in> set (sqlite_dead (snd (sqlite_deadLetter now i why s))). e_id d = i \<and> d_at d = now \<and>
          (\<exists>y \<in> set (sqlite_queue s). e_id y = i \<and> entry.truncate d = y)"
proof -
  from assms obtain r where "r \<in> set (sq_messages s)" "r_id r = i"
    by (auto simp: sqlite_queue_def)
  with sqlite_find_id [of r s] obtain y where
    y: "find (\<lambda>y. r_id y = i) (sq_messages s) = Some y" "y \<in> set (sq_messages s)" "r_id y = i"
    by auto
  then show ?thesis
    by (auto simp: sqlite_deadLetter_def sqlite_dead_def sqlite_queue_def dlq_replace_def
        dlq_row_entry_def entry.extend_def entry.truncate_def sq_row.extend_def row_entry_def)
qed

lemma sqlite_enqueue_cases:
  "sqlite_enqueue now gen r e m s = (Inr i, s') \<Longrightarrow>
   \<exists>p. json_stringify (message_payload m) = Some p \<and> i = str_or (m_id m) gen
     \<and> i \<notin> r_id ` set (sq_messages (sqlite_purgeExpired now s))
     \<and> s' = (sqlite_purgeExpired now s)\<lparr>sq_messages := sq_messages (sqlite_purgeExpired now s) @
               [\<lparr>r_id = i, r_realm = str_or r ''default'', r_event = str_or e [],
                 r_consumer = str_or (message_consumer m) [], r_payload = p,
                 r_producer = opt_or (m_producer m) None, r_created_at = now,
                 r_expires_at = sqlite_expiresAt now m (sqlite_purgeExpired now s)\<rparr>]\<rparr>"
  by (auto simp: sqlite_enqueue_def Let_def split: option.splits if_splits)

lemma sqlite_enqueue_fail_state:
  "sqlite_enqueue now gen r e m s = (Inl err, s') \<Longrightarrow> s' = sqlite_purgeExpired now s"
  by (auto simp: sqlite_enqueue_def Let_def split: option.splits if_splits)

lemma sqlite_enqueue_invar:
  assumes "sqlite_invar s" shows "sqlite_invar (snd (sqlite_enqueue now gen r e m s))"
proof (cases "sqlite_enqueue now gen r e m s")
  case (Pair res s')
  show ?thesis
  proof (cases res)
    case (Inl err)
    with Pair have "s' = sqlite_purgeExpired now s" by (simp add: sqlite_enqueue_fail_state)
    with Pair assms show ?thesis by simp
  next
    case (Inr i)
    with Pair have "sqlite_enqueue now gen r e m s = (Inr i, s')" by simp
    from sqlite_enqueue_cases [OF this] Pair sqlite_purge_simps(3) [OF assms, of now]
    show ?thesis by (auto simp: sqlite_invar_def)
  qed
qed

interpretation sql: durable_store sqlite_invar sqlite_queue sqlite_dead json_stored
  "\<lambda>s now m. sqlite_expiresAt now m s" sqlite_enqueue sqlite_dequeue sqlite_ack sqlite_deadLetter
proof unfold_locales
  fix s now gen r e m i s'
  assume "sqlite_enqueue now gen r e m s = (Inr i, s')"
  then obtain p where "json_stringify (message_payload m) = Some p" "i = str_or (m_id m) gen"
    "s' = (sqlite_purgeExpired now s)\<lparr>sq_messages := sq_messages (sqlite_purgeExpired now s) @
               [\<lparr>r_id = i, r_realm = str_or r ''default'', r_event = str_or e [],
                 r_consumer = str_or (message_consumer m) [], r_payload = p,
                 r_producer = opt_or (m_producer m) None, r_created_at = now,
                 r_expires_at = sqlite_expiresAt now m (sqlite_purgeExpired now s)\<rparr>]\<rparr>"
    using sqlite_enqueue_cases by blast
  then show "\<exists>x. sqlite_queue s' = filter (unexpired now) (sqlite_queue s) @ [x] \<and> e_id x = i
         \<and> entry_box x = box_of r e (message_consumer m) \<and> e_payload x = json_stored (message_payload m)
         \<and> e_id x = str_or (m_id m) gen \<and> e_expires_at x = sqlite_expiresAt now m s"
    by (simp add: sqlite_expiresAt_def sqlite_queue_def [of "_\<lparr>sq_messages := _\<rparr>"] sqlite_purge_queue
        entry_box_def box_of_def json_stored_def str_or_def)
next
  fix s now gen r e m err s'
  assume "sqlite_enqueue now gen r e m s = (Inl err, s')"
  then have "s' = sqlite_purgeExpired now s" by (rule sqlite_enqueue_fail_state)
  then show "sqlite_queue s' = filter (unexpired now) (sqlite_queue s)"
    by (simp add: sqlite_purge_queue [symmetric] sqlite_queue_def [of "sqlite_purgeExpired now s"])
next
  fix s now gen r e m
  show "sqlite_dead (snd (sqlite_enqueue now gen r e m s)) = sqlite_dead s"
    by (auto simp: sqlite_enqueue_def sqlite_dead_def Let_def split: option.split)
next
  fix s now r e c
  show "fst (sqlite_dequeue now r e c s) =
      filter (\<lambda>x. entry_box x = box_of r e c) (filter (unexpired now) (sqlite_queue s))"
    by (simp add: sqlite_dequeue_def Let_def sqlite_purge_queue [symmetric] filter_map comp_def row_box_iff)
next
  fix s now r e c
  show "sqlite_queue (snd (sqlite_dequeue now r e c s)) = filter (unexpired now) (sqlite_queue s)"
    by (simp add: sqlite_dequeue_def Let_def sqlite_purge_queue [symmetric]
        sqlite_queue_def [of "sqlite_purgeExpired now s"])
next
  fix s now i why
  show "(fst (sqlite_deadLetter now i why s) = Some i) = (\<exists>x \<in> set (sqlite_queue s). e_id x = i)"
    by (auto simp: sqlite_deadLetter_def sqlite_queue_def find_None_iff find_Some_iff split: option.split)
next
  fix s :: sqlite_store and x i now why
  assume "x \<in> set (sqlite_queue s)" and "e_id x = i"
  then show "\<exists>d \<in> set (sqlite_dead (snd (sqlite_deadLetter now i why s))). e_id d = i \<and> d_at d = now \<and>
          (\<exists>y \<in> set (sqlite_queue s). e_id y = i \<and> entry.truncate d = y)"
    by (rule sqlite_deadLetter_dead)
next
  fix s now gen r e m assume "sqlite_invar s"
  then show "sqlite_invar (snd (sqlite_enqueue now gen r e m s))"
    by (rule sqlite_enqueue_invar)
next
  fix s now i why assume "sqlite_invar s"
  then show "sqlite_invar (snd (sqlite_deadLetter now i why s))"
    by (auto simp: sqlite_deadLetter_def sqlite_invar_def dlq_replace_def distinct_map_filter
        split: option.split)
qed (auto simp: sqlite_dequeue_def sqlite_ack_def sqlite_queue_def sqlite_dead_def Let_def filter_map
     comp_def sqlite_deadLetter_queue [unfolded sqlite_queue_def] sqlite_invar_def distinct_map_filter
     sqlite_purgeExpired_def)

interpretation sql: counting_store sqlite_invar sqlite_queue sqlite_dead json_stored
  "\<lambda>s now m. sqlite_expiresAt now m s" sqlite_enqueue sqlite_dequeue sqlite_ack sqlite_deadLetter sqlite_countQueued
proof unfold_locales
  fix s now r
  show "fst (sqlite_countQueued now r None None s) =
      length (filter (\<lambda>x. fst (entry_box x) = str_or r ''default'') (filter (unexpired now) (sqlite_queue s)))"
    by (simp add: sqlite_countQueued_def Let_def sqlite_purge_queue [symmetric] filter_map comp_def entry_box_def)
  fix ev cn
  show "fst (sqlite_countQueued now r (Some ev) (Some cn) s) =
      length (filter (\<lambda>x. entry_box x = box_of r (Some ev) (Some cn)) (filter (unexpired now) (sqlite_queue s)))"
    by (auto simp: sqlite_countQueued_def Let_def sqlite_purge_queue [symmetric] filter_map comp_def entry_box_def box_of_def str_or_empty
        sqlite_queue_def [of "sqlite_purgeExpired now s"] intro!: arg_cong [where f = length] filter_cong)
next
  fix s now r e c
  show "sqlite_queue (snd (sqlite_countQueued now r e c s)) = filter (unexpired now) (sqlite_queue s)"
    by (simp add: sqlite_countQueued_def Let_def sqlite_purge_queue [symmetric] sqlite_queue_def [of "sqlite_purgeExpired now s"])
qed (auto simp: sqlite_countQueued_def Let_def sqlite_dead_def)

section \<open>Properties\<close>

lemma sqlite_enqueue_succeeds:
  assumes "json_stringify (message_payload m) \<noteq> None"
    and "str_or (m_id m) gen \<notin> r_id ` set (sq_messages (sqlite_purgeExpired now s))"
  shows "fst (sqlite_enqueue now gen r e m s) = Inr (str_or (m_id m) gen)"
  using assms by (auto simp: sqlite_enqueue_def Let_def image_def) metis

text \<open>
  C2. Nothing is lost in the SQLite store either: a message whose payload JSON can represent and
  whose id is not in the table is stored, survives the write as JSON text unchanged, and is the
  last element its consumer dequeues at any time before its expiry.
\<close>

theorem sqlite_delivers:
  assumes inv: "sqlite_invar s" and pos: "0 < now" and later: "now \<le> t"
    and clean: "json_clean (message_payload m)"
    and fresh: "str_or (m_id m) gen \<notin> r_id ` set (sq_messages (sqlite_purgeExpired now s))"
    and live: "case sqlite_expiresAt now m s of None \<Rightarrow> True | Some e \<Rightarrow> of_int t < e"
  shows "\<exists>x. fst (sqlite_dequeue t r e (message_consumer m) (snd (sqlite_enqueue now gen r e m s)))
      = fst (sqlite_dequeue t r e (message_consumer m) s) @ [x]
        \<and> fst (sqlite_enqueue now gen r e m s) = Inr (e_id x) \<and> e_payload x = message_payload m"
proof -
  from json_roundtrip [OF clean] have "json_stringify (message_payload m) \<noteq> None" by auto
  from sqlite_enqueue_succeeds [OF this fresh, of r e] obtain i s' where
    enq: "sqlite_enqueue now gen r e m s = (Inr i, s')"
    by (cases "sqlite_enqueue now gen r e m s") auto
  show ?thesis
    using sql.enqueue_then_dequeue [OF inv pos enq live later] enq json_stored_clean [OF clean] by auto
qed

theorem sqlite_delivers_witness:
  "\<exists>x. fst (sqlite_dequeue 2000 (Some ''r'') (Some ''e'') (message_consumer sample_message)
         (snd (sqlite_enqueue 1000 ''g'' (Some ''r'') (Some ''e'') sample_message (sqlite_new JUndef JUndef))))
      = fst (sqlite_dequeue 2000 (Some ''r'') (Some ''e'') (message_consumer sample_message) (sqlite_new JUndef JUndef)) @ [x]
        \<and> fst (sqlite_enqueue 1000 ''g'' (Some ''r'') (Some ''e'') sample_message (sqlite_new JUndef JUndef)) = Inr (e_id x)
        \<and> e_payload x = message_payload sample_message"
proof (rule sqlite_delivers)
  show "sqlite_invar (sqlite_new JUndef JUndef)" by (rule sqlite_new_invar)
  show "json_clean (message_payload sample_message)" by code_simp
  show "str_or (m_id sample_message) ''g'' \<notin> r_id ` set (sq_messages (sqlite_purgeExpired 1000 (sqlite_new JUndef JUndef)))"
    by (simp add: sqlite_new_def sqlite_purgeExpired_def)
  show "case sqlite_expiresAt 1000 sample_message (sqlite_new JUndef JUndef) of None \<Rightarrow> True | Some e \<Rightarrow> of_int 2000 < e"
    by code_simp
qed simp_all

text \<open>
  Every failure of the SQLite enqueue: it raises exactly when the message has no payload to
  bind or its id is held by a row that has not expired; a failed call keeps every row that has not
  expired and both primary keys, and the first of two messages with one id is the one that stays.
\<close>

theorem sqlite_enqueue_errors:
  assumes inv: "sqlite_invar s"
  shows "(fst (sqlite_enqueue now gen r e m s) = Inl Unbindable \<longleftrightarrow> json_stringify (message_payload m) = None)
    \<and> (fst (sqlite_enqueue now gen r e m s) = Inl DuplicateId \<longleftrightarrow>
         json_stringify (message_payload m) \<noteq> None
         \<and> (\<exists>x \<in> set (sq_messages s). r_id x = str_or (m_id m) gen \<and> \<not> row_expired now x))
    \<and> (\<forall>x \<in> set (sq_messages s). \<not> row_expired now x \<longrightarrow> x \<in> set (sq_messages (snd (sqlite_enqueue now gen r e m s))))
    \<and> sqlite_invar (snd (sqlite_enqueue now gen r e m s))"
  using sqlite_enqueue_invar [OF inv, of now gen r e m]
  by (auto simp: sqlite_enqueue_def Let_def sqlite_purgeExpired_def split: option.split)

theorem sqlite_enqueue_errors_witness:
  "let s = snd (sqlite_enqueue 1000 ''g'' (Some ''r'') (Some ''e'') sample_message (sqlite_new JUndef JUndef))
   in fst (sqlite_enqueue 1001 ''g'' (Some ''r'') (Some ''e'') sample_message s) = Inl DuplicateId
     \<and> sqlite_invar (snd (sqlite_enqueue 1001 ''g'' (Some ''r'') (Some ''e'') sample_message s))"
proof -
  let ?s = "snd (sqlite_enqueue 1000 ''g'' (Some ''r'') (Some ''e'') sample_message (sqlite_new JUndef JUndef))"
  have inv: "sqlite_invar ?s" by (intro sqlite_enqueue_invar sqlite_new_invar)
  have "json_stringify (message_payload sample_message) \<noteq> None
      \<and> (\<exists>x \<in> set (sq_messages ?s). r_id x = str_or (m_id sample_message) ''g'' \<and> \<not> row_expired 1001 x)"
    by code_simp
  with sqlite_enqueue_errors [OF inv, of 1001 "''g''" "Some ''r''" "Some ''e''" sample_message]
  show ?thesis by (simp only: Let_def) blast
qed

text \<open>
  A message that the SQLite store has acknowledged or dead-lettered is never delivered again by
  any later sequence of operations that does not enqueue its id anew, and a dead-lettered message
  is on the dead-letter queue exactly once, with its reason and time.
\<close>

theorem sqlite_settled:
  assumes inv: "sqlite_invar s" and fresh: "\<forall>p \<in> set ps. op_new_id p \<noteq> Some i \<and> op_clock_ok p"
    and s': "s' = sqlite_ack i s \<or> s' = snd (sqlite_deadLetter now i why s)"
  shows "(\<forall>out \<in> set (fst (store_run (store_step sqlite_enqueue sqlite_dequeue sqlite_ack sqlite_deadLetter) ps s')).
            i \<notin> delivered_ids out)
    \<and> (i \<in> r_id ` set (sq_messages s) \<longrightarrow>
        (\<exists>d. filter (\<lambda>d. e_id d = i) (sqlite_listDlq None (snd (sqlite_deadLetter now i why s))) = [d]
           \<and> d_at d = now \<and> d_reason d = opt_or why None \<and> entry.truncate d \<in> set (sqlite_queue s)))"
proof
  have "sqlite_invar s' \<and> i \<notin> e_id ` set (sqlite_queue s')"
    by (rule sql.settled_absent [OF inv s'])
  then show "\<forall>out \<in> set (fst (store_run (store_step sqlite_enqueue sqlite_dequeue sqlite_ack sqlite_deadLetter) ps s')).
      i \<notin> delivered_ids out"
    using sql.run_absent fresh by blast
  show "i \<in> r_id ` set (sq_messages s) \<longrightarrow>
        (\<exists>d. filter (\<lambda>d. e_id d = i) (sqlite_listDlq None (snd (sqlite_deadLetter now i why s))) = [d]
           \<and> d_at d = now \<and> d_reason d = opt_or why None \<and> entry.truncate d \<in> set (sqlite_queue s))"
  proof
    assume "i \<in> r_id ` set (sq_messages s)"
    with sqlite_find_id [of _ s] obtain y where
      "find (\<lambda>y. r_id y = i) (sq_messages s) = Some y" "y \<in> set (sq_messages s)" "r_id y = i"
      by auto
    then show "\<exists>d. filter (\<lambda>d. e_id d = i) (sqlite_listDlq None (snd (sqlite_deadLetter now i why s))) = [d]
           \<and> d_at d = now \<and> d_reason d = opt_or why None \<and> entry.truncate d \<in> set (sqlite_queue s)"
      by (auto simp: sqlite_deadLetter_def sqlite_listDlq_def sqlite_queue_def dlq_replace_def filter_map
          dlq_row_entry_def entry.extend_def entry.truncate_def sq_row.extend_def row_entry_def comp_def)
  qed
qed

theorem sqlite_settled_witness:
  "let s = snd (sqlite_enqueue 1000 ''g'' (Some ''r'') (Some ''e'') sample_message (sqlite_new JUndef JUndef))
   in \<exists>d. filter (\<lambda>d. e_id d = ''m1'') (sqlite_listDlq None (snd (sqlite_deadLetter 1500 ''m1'' (Some ''max'') s))) = [d]
           \<and> d_at d = 1500 \<and> d_reason d = opt_or (Some ''max'') None \<and> entry.truncate d \<in> set (sqlite_queue s)"
proof -
  let ?s = "snd (sqlite_enqueue 1000 ''g'' (Some ''r'') (Some ''e'') sample_message (sqlite_new JUndef JUndef))"
  have inv: "sqlite_invar ?s" by (intro sqlite_enqueue_invar sqlite_new_invar)
  have "''m1'' \<in> r_id ` set (sq_messages ?s)" by code_simp
  then show ?thesis
    using sqlite_settled [OF inv, of "[]" "''m1''" "sqlite_ack ''m1'' ?s" 1500 "Some ''max''"]
    by (simp only: Let_def) simp
qed

end
