(* ===== verification/Store_Equiv.thy ===== *)
theory Store_Equiv
  imports Memory_Store Sqlite_Store
begin

text \<open>
  The two in-process backends are interchangeable: over any sequence of broker calls with fresh
  message ids and payloads that JSON represents, the memory store and the SQLite store give the
  same answers. The proof is a simulation; the only difference it has to absorb is that SQLite
  writes a missing consumer as the empty string.
\<close>

definition norm_consumer :: "'a entry_scheme \<Rightarrow> 'a entry_scheme" where
  "norm_consumer x = x\<lparr>e_consumer := Some (str_or (e_consumer x) [])\<rparr>"

fun norm_out :: "store_out \<Rightarrow> store_out" where
  "norm_out (OutEntries xs) = OutEntries (map norm_consumer xs)"
| "norm_out out = out"

definition stores_agree :: "memory_store \<Rightarrow> sqlite_store \<Rightarrow> bool" where
  "stores_agree s q \<longleftrightarrow> memory_invar s \<and> sqlite_invar q \<and> defaultTtl s = sq_defaultTtl q
     \<and> map norm_consumer (messages s) = sqlite_queue q"

fun op_clean :: "store_op \<Rightarrow> bool" where
  "op_clean (OpEnqueue now gen r e m) = json_clean (message_payload m)"
| "op_clean _ = True"

text \<open>The ids a sequence of calls enqueues.\<close>

definition new_ids :: "store_op list \<Rightarrow> string list" where
  "new_ids ps = List.map_filter op_new_id ps"

abbreviation memory_step :: "store_op \<Rightarrow> memory_store \<Rightarrow> store_out \<times> memory_store" where
  "memory_step \<equiv> store_step memory_enqueue memory_dequeue memory_ack memory_deadLetter"

abbreviation sqlite_step :: "store_op \<Rightarrow> sqlite_store \<Rightarrow> store_out \<times> sqlite_store" where
  "sqlite_step \<equiv> store_step sqlite_enqueue sqlite_dequeue sqlite_ack sqlite_deadLetter"

lemma norm_consumer_simps [simp]:
  "e_id (norm_consumer x) = e_id x" "entry_box (norm_consumer x) = entry_box x"
  "unexpired now (norm_consumer x) = unexpired now x"
  by (auto simp: norm_consumer_def entry_box_def unexpired_def str_or_def)

lemma norm_filter:
  "map norm_consumer xs = ys \<Longrightarrow> (\<And>x. P (norm_consumer x) = P x) \<Longrightarrow>
   map norm_consumer (filter P xs) = filter P ys"
  by (auto simp: filter_map comp_def)

lemma agree_ids:
  assumes "stores_agree s q" shows "e_id ` set (messages s) = r_id ` set (sq_messages q)"
proof -
  from assms have "e_id ` set (map norm_consumer (messages s)) = e_id ` set (sqlite_queue q)"
    by (simp add: stores_agree_def)
  then show ?thesis by (simp add: sqlite_queue_def image_image)
qed

lemma agree_enqueue:
  assumes ag: "stores_agree s q" and clean: "json_clean (message_payload m)" and pos: "0 < now"
    and fresh: "str_or (m_id m) gen \<notin> e_id ` set (messages s)"
  shows "fst (memory_enqueue now gen r e m s) = fst (sqlite_enqueue now gen r e m q)
    \<and> stores_agree (snd (memory_enqueue now gen r e m s)) (snd (sqlite_enqueue now gen r e m q))"
proof -
  from ag have invs: "memory_invar s" "sqlite_invar q" and ttl: "defaultTtl s = sq_defaultTtl q"
    and sim: "map norm_consumer (messages s) = sqlite_queue q"
    by (auto simp: stores_agree_def)
  have purge: "map norm_consumer (filter (unexpired now) (messages s))
      = map row_entry (sq_messages (sqlite_purgeExpired now q))"
    using sim by (simp add: norm_filter sqlite_purge_queue)
  from json_roundtrip [OF clean] obtain p where p: "json_stringify (message_payload m) = Some p"
    "json_parse p = message_payload m" by blast
  have "set (sq_messages (sqlite_purgeExpired now q)) \<subseteq> set (sq_messages q)"
    by (auto simp: sqlite_purgeExpired_def)
  with fresh agree_ids [OF ag] have "\<not> (\<exists>x \<in> set (sq_messages (sqlite_purgeExpired now q)). r_id x = str_or (m_id m) gen)"
    by force
  with p purge ttl show ?thesis
    using sql.invar_enqueue [OF invs(2) pos, of gen r e m] mem.invar_enqueue [OF invs(1) pos, of gen r e m]
    by (simp add: stores_agree_def memory_defs memory_keeps_unexpired [OF invs(1)] sqlite_enqueue_def
        sqlite_queue_def norm_consumer_def row_entry_def sqlite_expiresAt_def)
qed

lemma agree_dequeue:
  assumes ag: "stores_agree s q"
  shows "map norm_consumer (fst (memory_dequeue now r e c s)) = fst (sqlite_dequeue now r e c q)
    \<and> stores_agree (snd (memory_dequeue now r e c s)) (snd (sqlite_dequeue now r e c q))"
proof -
  from ag have invs: "memory_invar s" "sqlite_invar q" and ttl: "defaultTtl s = sq_defaultTtl q"
    and sim: "map norm_consumer (messages s) = sqlite_queue q"
    by (auto simp: stores_agree_def)
  from sim ttl show ?thesis
    by (simp add: stores_agree_def mem.store_laws [OF invs(1)] sql.store_laws [OF invs(2)]
        mem.invars [OF invs(1)] sql.invars [OF invs(2)] norm_filter)
      (simp add: memory_dequeue_def sqlite_dequeue_def memory_purgeExpired_def Let_def)
qed

lemma agree_ack: "stores_agree s q \<Longrightarrow> stores_agree (memory_ack i s) (sqlite_ack i q)"
  by (simp add: stores_agree_def mem.store_laws sql.store_laws mem.invars sql.invars norm_filter)
    (simp add: memory_ack_def sqlite_ack_def)

lemma agree_deadLetter:
  assumes ag: "stores_agree s q"
  shows "fst (memory_deadLetter now i why s) = fst (sqlite_deadLetter now i why q)
    \<and> stores_agree (snd (memory_deadLetter now i why s)) (snd (sqlite_deadLetter now i why q))"
proof
  from ag have invs: "memory_invar s" "sqlite_invar q" and ttl: "defaultTtl s = sq_defaultTtl q"
    and sim: "map norm_consumer (messages s) = sqlite_queue q"
    by (auto simp: stores_agree_def)
  have range: "fst (memory_deadLetter now i why s) \<in> {None, Some i}"
    "fst (sqlite_deadLetter now i why q) \<in> {None, Some i}"
    by (cases "last_with_id i (messages s)"; simp add: last_with_id_Some)
      (auto simp: sqlite_deadLetter_def find_Some_iff split: option.split)
  have "(fst (memory_deadLetter now i why s) = Some i) = (fst (sqlite_deadLetter now i why q) = Some i)"
    unfolding mem.deadLetter_found [OF invs(1)] sql.deadLetter_found [OF invs(2)]
    using agree_ids [OF ag] by (auto simp: sqlite_queue_def set_eq_iff image_iff) metis+
  with range show "fst (memory_deadLetter now i why s) = fst (sqlite_deadLetter now i why q)"
    by (simp del: memory_deadLetter_result) metis
  from sim ttl show "stores_agree (snd (memory_deadLetter now i why s)) (snd (sqlite_deadLetter now i why q))"
    by (simp add: stores_agree_def mem.store_laws [OF invs(1)] sql.store_laws [OF invs(2)]
        mem.invars [OF invs(1)] sql.invars [OF invs(2)] norm_filter del: memory_deadLetter_messages)
      (simp add: memory_deadLetter_def sqlite_deadLetter_def Let_def split: option.split)
qed

lemma agree_step:
  assumes ag: "stores_agree s q" and ok: "op_clean p" "op_clock_ok p"
    and fresh: "\<And>i. op_new_id p = Some i \<Longrightarrow> i \<notin> e_id ` set (messages s)"
  shows "norm_out (fst (memory_step p s)) = fst (sqlite_step p q)
    \<and> stores_agree (snd (memory_step p s)) (snd (sqlite_step p q))
    \<and> e_id ` set (messages (snd (memory_step p s))) \<subseteq> e_id ` set (messages s) \<union> set_option (op_new_id p)"
proof (cases p)
  case (OpEnqueue now gen r e m)
  with agree_enqueue [OF ag, of m now gen r e] ok fresh show ?thesis
    by (auto simp: memory_defs)
next
  case (OpDequeue now r e c)
  with agree_dequeue [OF ag, of now r e c] show ?thesis by (auto simp: memory_defs)
next
  case (OpAck i)
  with agree_ack [OF ag, of i] show ?thesis by (auto simp: memory_defs)
next
  case (OpDeadLetter now i why)
  with agree_deadLetter [OF ag, of now i why] show ?thesis by auto
qed

lemma agree_run:
  "stores_agree s q \<Longrightarrow> list_all op_clean ps \<Longrightarrow> list_all op_clock_ok ps \<Longrightarrow> distinct (new_ids ps) \<Longrightarrow>
   set (new_ids ps) \<inter> e_id ` set (messages s) = {} \<Longrightarrow>
   map norm_out (fst (store_run memory_step ps s)) = fst (store_run sqlite_step ps q)"
proof (induction ps arbitrary: s q)
  case (Cons p ps)
  have ids: "new_ids (p # ps) = (case op_new_id p of None \<Rightarrow> [] | Some i \<Rightarrow> [i]) @ new_ids ps"
    by (simp add: new_ids_def map_filter_simps split: option.split)
  have st: "norm_out (fst (memory_step p s)) = fst (sqlite_step p q)
    \<and> stores_agree (snd (memory_step p s)) (snd (sqlite_step p q))
    \<and> e_id ` set (messages (snd (memory_step p s))) \<subseteq> e_id ` set (messages s) \<union> set_option (op_new_id p)"
    using Cons.prems ids by (intro agree_step) (auto split: option.splits)
  with Cons.prems ids have "set (new_ids ps) \<inter> e_id ` set (messages (snd (memory_step p s))) = {}"
    by (cases "op_new_id p") (simp, blast, simp, blast)
  with Cons.IH [of "snd (memory_step p s)" "snd (sqlite_step p q)"] Cons.prems ids st show ?case
    by (simp add: Let_def split_beta)
qed simp

lemma new_stores_agree: "stores_agree (memory_new snake camel) (sqlite_new snake camel)"
  using memory_new_invar sqlite_new_invar
  by (simp add: stores_agree_def) (simp add: memory_new_def sqlite_new_def sqlite_queue_def)



end
