(* ===== verification/Store_Factory.thy ===== *)
theory Store_Factory
  imports Prelude
begin

text \<open>
  \<open>lib/storage/index.js\<close>: which durable store the broker gets. The constructors of the SQLite
  and Redis backends may throw (a missing module, an unusable file), and the Redis probe may fail:
  both are functions of the options in the record \<open>store_env\<close>, returning the error if there is one.
  A store is represented by the backend chosen and the options it was built with.
\<close>

datatype 'c storage_choice =
    SName string
  | STrue
  | SStore 'c
  | SFactory "jsval \<Rightarrow> 'c"

datatype 'c built_store =
    BuiltMemory jsval
  | BuiltSqlite jsval
  | BuiltRedis jsval
  | BuiltCustom 'c

datatype create_error = Unsupported string | CtorFailed string

record 'c store_options =
  o_storage :: "'c storage_choice option"
  o_store :: "'c storage_choice option"
  o_storage_options :: jsval
  o_storageOptions :: jsval

record store_env =
  sqlite_ctor :: "jsval \<Rightarrow> string option"
  redis_ctor :: "jsval \<Rightarrow> string option"
  redis_probe :: "jsval \<Rightarrow> jsnum \<Rightarrow> string option"

text \<open>\<open>options.storage || options.store || 'memory'\<close>: an empty name is falsy.\<close>

fun choice_truthy :: "'c storage_choice option \<Rightarrow> bool" where
  "choice_truthy None = False"
| "choice_truthy (Some (SName s)) = (s \<noteq> [])"
| "choice_truthy (Some _) = True"

definition chosen_storage :: "'c store_options \<Rightarrow> 'c storage_choice" where
  "chosen_storage o1 = (if choice_truthy (o_storage o1) then the (o_storage o1)
     else if choice_truthy (o_store o1) then the (o_store o1) else SName ''memory'')"

definition chosen_options :: "'c store_options \<Rightarrow> jsval" where
  "chosen_options o1 = js_or (js_or (o_storage_options o1) (o_storageOptions o1)) (JObj [])"

definition build_backend ::
  "store_env \<Rightarrow> string \<Rightarrow> jsval \<Rightarrow> create_error + 'c built_store" where
  "build_backend env name opts =
     (if name = ''memory'' then Inr (BuiltMemory opts)
      else if name = ''sqlite'' then
        (case sqlite_ctor env opts of None \<Rightarrow> Inr (BuiltSqlite opts) | Some e \<Rightarrow> Inl (CtorFailed e))
      else if name = ''redis'' then
        (case redis_ctor env opts of None \<Rightarrow> Inr (BuiltRedis opts) | Some e \<Rightarrow> Inl (CtorFailed e))
      else Inl (Unsupported name))"

definition createStore :: "store_env \<Rightarrow> 'c store_options \<Rightarrow> create_error + 'c built_store" where
  "createStore env o1 = (let opts = chosen_options o1 in
     case chosen_storage o1 of
       SStore c \<Rightarrow> Inr (BuiltCustom c)
     | STrue \<Rightarrow> Inr (BuiltMemory opts)
     | SFactory f \<Rightarrow> Inr (BuiltCustom (f opts))
     | SName n \<Rightarrow> build_backend env n opts)"

text \<open>
  The fallback keeps the ttl settings of the Redis options and maps \<open>fallback_filename\<close> (or one
  of its spellings) to the SQLite file name.
\<close>

definition fallbackOptions :: "jsval \<Rightarrow> jsval" where
  "fallbackOptions so =
     (let file = js_or (obj_get so ''fallback_filename'') (js_or (obj_get so ''fallbackFilename'')
                   (js_or (obj_get so ''fallback_path'') (obj_get so ''fallbackPath'')))
      in JObj ((if obj_get so ''default_ttl'' \<noteq> JUndef then [(''default_ttl'', obj_get so ''default_ttl'')] else [])
         @ (if obj_get so ''defaultTtl'' \<noteq> JUndef then [(''defaultTtl'', obj_get so ''defaultTtl'')] else [])
         @ (if truthy file then [(''filename'', file)] else [])))"

record 'c store_outcome =
  so_store :: "'c built_store"
  so_backend :: string
  so_fellBack :: bool
  so_error :: "string option"

definition buildFallback ::
  "store_env \<Rightarrow> jsval \<Rightarrow> string \<Rightarrow> create_error + 'c store_outcome" where
  "buildFallback env so err =
     (let b0 = to_lower (to_string (js_or (obj_get so ''fallback'') (JStr ''sqlite'')));
          backend = (if b0 = ''redis'' then ''sqlite'' else b0)
      in case createStore env \<lparr>o_storage = Some (SName backend), o_store = None,
                o_storage_options = fallbackOptions so, o_storageOptions = JUndef\<rparr> of
           Inl e \<Rightarrow> Inl e
         | Inr st \<Rightarrow> Inr \<lparr>so_store = st, so_backend = backend, so_fellBack = True, so_error = Some err\<rparr>)"

definition probe_ms :: "jsval \<Rightarrow> jsnum" where
  "probe_ms so = number_or (js_or (obj_get so ''probe_timeout'') (obj_get so ''probeTimeout'')) 5000"

definition createStoreAsync ::
  "store_env \<Rightarrow> 'c store_options \<Rightarrow> create_error + 'c store_outcome" where
  "createStoreAsync env o1 =
     (let so = chosen_options o1 in
      if (case chosen_storage o1 of SName n \<Rightarrow> n = ''redis'' | _ \<Rightarrow> False) \<and> truthy (obj_get so ''fallback'')
      then (case redis_ctor env so of
              Some e \<Rightarrow> buildFallback env so e
            | None \<Rightarrow> (case redis_probe env so (probe_ms so) of
                None \<Rightarrow> Inr \<lparr>so_store = BuiltRedis so, so_backend = ''redis'', so_fellBack = False, so_error = None\<rparr>
              | Some e \<Rightarrow> buildFallback env so e))
      else (case createStore env o1 of
              Inl e \<Rightarrow> Inl e
            | Inr st \<Rightarrow> Inr \<lparr>so_store = st,
                so_backend = (case chosen_storage o1 of SName n \<Rightarrow> n | _ \<Rightarrow> ''custom''),
                so_fellBack = False, so_error = None\<rparr>))"

section \<open>Properties of the selection\<close>

lemma createStore_named:
  "name \<noteq> [] \<Longrightarrow> createStore env \<lparr>o_storage = Some (SName name), o_store = None,
     o_storage_options = opts, o_storageOptions = JUndef\<rparr>
   = build_backend env name (js_or opts (JObj []))"
  by (cases "truthy opts")
    (simp_all add: createStore_def chosen_storage_def chosen_options_def js_or_def)

text \<open>The fallback never chooses Redis again.\<close>

lemma buildFallback_not_redis:
  "buildFallback env so err = Inr out \<Longrightarrow> so_backend out \<noteq> ''redis'' \<and> so_fellBack out
     \<and> so_error out = Some err \<and> (\<forall>opts. so_store out \<noteq> BuiltRedis opts)"
  by (auto simp: buildFallback_def Let_def createStore_def chosen_storage_def build_backend_def
      split: sum.splits if_splits option.splits)

lemma to_lower_sqlite: "to_lower ''sqlite'' = ''sqlite''"
  by (simp add: to_lower_def lower_char_def)

lemma buildFallback_sqlite:
  assumes "obj_get so ''fallback'' = JStr ''sqlite''"
    and "sqlite_ctor env (fallbackOptions so) = None"
  shows "buildFallback env so err = Inr \<lparr>so_store = BuiltSqlite (fallbackOptions so),
    so_backend = ''sqlite'', so_fellBack = True, so_error = Some err\<rparr>"
proof -
  have t: "js_or (fallbackOptions so) (JObj []) = fallbackOptions so"
    by (simp add: fallbackOptions_def js_or_def Let_def)
  show ?thesis
    using assms t
    by (simp add: buildFallback_def Let_def js_or_def [of "JStr _"] to_lower_sqlite createStore_named
        build_backend_def)
qed

text \<open>
  A broker configured for Redis with a fallback always gets a store when the fallback can be
  built: Redis itself when it is constructed and answers the probe, else the SQLite store opened
  with the mapped file name and ttl settings, reported as a fallback together with the cause.
\<close>

theorem createStoreAsync_redis_fallback:
  assumes redis: "chosen_storage o1 = SName ''redis''"
    and fb: "obj_get (chosen_options o1) ''fallback'' = JStr ''sqlite''"
    and sq: "sqlite_ctor env (fallbackOptions (chosen_options o1)) = None"
  shows "\<exists>out. createStoreAsync env o1 = Inr out \<and>
    (case (case redis_ctor env (chosen_options o1) of
             None \<Rightarrow> redis_probe env (chosen_options o1) (probe_ms (chosen_options o1)) | Some e \<Rightarrow> Some e) of
       None \<Rightarrow> so_store out = BuiltRedis (chosen_options o1) \<and> \<not> so_fellBack out
     | Some e \<Rightarrow> so_store out = BuiltSqlite (fallbackOptions (chosen_options o1)) \<and> so_backend out = ''sqlite''
                 \<and> so_fellBack out \<and> so_error out = Some e)"
  using redis fb
  by (auto simp: createStoreAsync_def Let_def buildFallback_sqlite [OF fb sq] split: option.split)

theorem createStoreAsync_redis_fallback_witness:
  "let o1 = \<lparr>o_storage = Some (SName ''redis''), o_store = None,
              o_storage_options = JObj [(''fallback'', JStr ''sqlite'')], o_storageOptions = JUndef\<rparr> :: unit store_options;
       env = \<lparr>sqlite_ctor = (\<lambda>_. None), redis_ctor = (\<lambda>_. None), redis_probe = (\<lambda>_ _. Some ''timeout'')\<rparr>
   in \<exists>out. createStoreAsync env o1 = Inr out \<and> so_backend out = ''sqlite'' \<and> so_fellBack out \<and> so_error out = Some ''timeout''"
proof -
  let ?o = "\<lparr>o_storage = Some (SName ''redis''), o_store = None,
              o_storage_options = JObj [(''fallback'', JStr ''sqlite'')], o_storageOptions = JUndef\<rparr> :: unit store_options"
  let ?env = "\<lparr>sqlite_ctor = (\<lambda>_. None), redis_ctor = (\<lambda>_. None), redis_probe = (\<lambda>_ _. Some ''timeout'')\<rparr>"
  have "chosen_storage ?o = SName ''redis''" "obj_get (chosen_options ?o) ''fallback'' = JStr ''sqlite''"
    by (simp_all add: chosen_storage_def chosen_options_def js_or_def)
  from createStoreAsync_redis_fallback [OF this, of ?env] show ?thesis by (auto simp: Let_def)
qed

end
