(* ===== verification/One_Shot.thy ===== *)
theory One_Shot
  imports Prelude
begin

text \<open>
  The contract of a one-shot capability store: redeeming a ticket removes it, and nothing but
  issuing adds one. The broker has several such stores (attachment tickets, remote-session
  tickets, stream tickets); each interprets the locale \<open>one_shot\<close>, and the facts that a
  ticket is accepted at most once over any sequence of redemptions are proved here once.
\<close>

text \<open>The verdicts of a sequence of redemption attempts.\<close>

fun run_redeems :: "('r \<Rightarrow> 's \<Rightarrow> bool \<times> 's) \<Rightarrow> 'r list \<Rightarrow> 's \<Rightarrow> ('r \<times> bool) list" where
  "run_redeems redeem [] s = []"
| "run_redeems redeem (q # qs) s = (q, fst (redeem q s)) # run_redeems redeem qs (snd (redeem q s))"

text \<open>How many attempts with ticket \<open>k\<close> succeeded.\<close>

definition successes :: "('r \<Rightarrow> 'k) \<Rightarrow> 'k \<Rightarrow> ('r \<times> bool) list \<Rightarrow> nat" where
  "successes tkt k vs = length (filter (\<lambda>(q, ok). ok \<and> tkt q = k) vs)"

lemma successes_simps [simp]:
  "successes tkt k [] = 0"
  "successes tkt k ((q, ok) # vs) = (if ok \<and> tkt q = k then Suc (successes tkt k vs) else successes tkt k vs)"
  by (simp_all add: successes_def)

locale one_shot =
  fixes outstanding :: "'s \<Rightarrow> 'k set"
    and redeem :: "'r \<Rightarrow> 's \<Rightarrow> bool \<times> 's"
    and tkt :: "'r \<Rightarrow> 'k"
  assumes redeem_subset: "outstanding (snd (redeem q s)) \<subseteq> outstanding s"
    and redeem_held: "fst (redeem q s) \<Longrightarrow> tkt q \<in> outstanding s"
    and redeem_consumes: "fst (redeem q s) \<Longrightarrow> tkt q \<notin> outstanding (snd (redeem q s))"
begin

lemma unheld_never_succeeds: "k \<notin> outstanding s \<Longrightarrow> successes tkt k (run_redeems redeem qs s) = 0"
proof (induction qs arbitrary: s)
  case (Cons q qs)
  then have "k \<notin> outstanding (snd (redeem q s))" using redeem_subset by blast
  with Cons redeem_held show ?case by auto
qed simp

lemma at_most_once: "successes tkt k (run_redeems redeem qs s) \<le> 1"
proof (induction qs arbitrary: s)
  case (Cons q qs)
  show ?case
  proof (cases "fst (redeem q s) \<and> tkt q = k")
    case True
    then have "k \<notin> outstanding (snd (redeem q s))" using redeem_consumes by blast
    with True show ?thesis by (simp add: unheld_never_succeeds)
  next
    case False
    with Cons.IH show ?thesis by auto
  qed
qed simp

end

end
