(* ===== verification/Chat_Tickets.thy ===== *)
theory Chat_Tickets
  imports One_Shot
begin

text \<open>
  \<open>lib/chat-ticket-store.js\<close>: one-shot attachment tickets, kept hashed. \<open>H\<close> is the hash that
  \<open>hashPublishToken\<close> of \<open>lib/notify-auth.js\<close> computes (SHA-256 in hex); the raw ticket that
  \<open>generatePublishToken\<close> draws is an argument of \<open>chat_issue\<close>. A thrown error keeps the
  effects that happened before it.
\<close>

record chat_entry =
  ce_op :: string
  ce_ref :: "string option"
  ce_session :: string
  ce_exp :: int

record chat_window =
  cw_count :: nat
  cw_start :: int

record chat_store =
  ttlMs :: int
  uploadCapPerWindow :: nat
  windowMs :: int
  maxTickets :: nat
  tickets :: "(string, chat_entry) jsmap"
  sessions :: "(string, chat_window) jsmap"

definition DEFAULT_TTL_MS :: int where "DEFAULT_TTL_MS = 120 * 1000"
definition HARD_TTL_CAP_MS :: int where "HARD_TTL_CAP_MS = 900 * 1000"
definition DEFAULT_UPLOAD_CAP :: nat where "DEFAULT_UPLOAD_CAP = 60"
definition DEFAULT_WINDOW_MS :: int where "DEFAULT_WINDOW_MS = 60 * 60 * 1000"
definition DEFAULT_MAX_TICKETS :: nat where "DEFAULT_MAX_TICKETS = 100000"

datatype ticket_error =
  Missing_session | Invalid_op | Missing_ref | Unexpected_ref | Cap_exceeded | Store_full

text \<open>An option that is absent or 0 takes its default.\<close>

definition int_or :: "int option \<Rightarrow> int \<Rightarrow> int" where
  "int_or a d = (case a of None \<Rightarrow> d | Some n \<Rightarrow> if n = 0 then d else n)"

definition nat_or :: "nat option \<Rightarrow> nat \<Rightarrow> nat" where
  "nat_or a d = (case a of None \<Rightarrow> d | Some n \<Rightarrow> if n = 0 then d else n)"

definition chat_new :: "int option \<Rightarrow> nat option \<Rightarrow> int option \<Rightarrow> nat option \<Rightarrow> chat_store" where
  "chat_new ttl cap window mx =
     \<lparr>ttlMs = min (max 1 (int_or ttl DEFAULT_TTL_MS)) HARD_TTL_CAP_MS,
      uploadCapPerWindow = nat_or cap DEFAULT_UPLOAD_CAP,
      windowMs = int_or window DEFAULT_WINDOW_MS,
      maxTickets = nat_or mx DEFAULT_MAX_TICKETS,
      tickets = [], sessions = []\<rparr>"

definition chat_sweep :: "int \<Rightarrow> chat_store \<Rightarrow> chat_store" where
  "chat_sweep now s = s\<lparr>tickets := filter (\<lambda>(h, e). \<not> now > ce_exp e) (tickets s)\<rparr>"

text \<open>The session window an upload counts in: the stored one, or a fresh one when it has elapsed.\<close>

definition upload_window :: "int \<Rightarrow> string \<Rightarrow> chat_store \<Rightarrow> chat_window" where
  "upload_window now session s =
     (case jget (sessions s) session of
        None \<Rightarrow> \<lparr>cw_count = 0, cw_start = now\<rparr>
      | Some w \<Rightarrow> if now - cw_start w \<ge> windowMs s then \<lparr>cw_count = 0, cw_start = now\<rparr> else w)"

text \<open>The upload cap step: refuse, or count the upload (the caller may still fail afterwards).\<close>

definition chat_count_upload :: "int \<Rightarrow> string \<Rightarrow> chat_store \<Rightarrow> chat_store option" where
  "chat_count_upload now session s =
     (let w = upload_window now session s
      in if cw_count w \<ge> uploadCapPerWindow s then None
         else Some (s\<lparr>sessions := jset session (w\<lparr>cw_count := cw_count w + 1\<rparr>) (sessions s)\<rparr>))"

definition chat_store_ticket ::
  "(string \<Rightarrow> string) \<Rightarrow> int \<Rightarrow> string \<Rightarrow> string \<Rightarrow> string \<Rightarrow> string option \<Rightarrow> chat_store
     \<Rightarrow> (ticket_error + string) \<times> chat_store" where
  "chat_store_ticket H now raw session op ref s0 =
     (let s = (if length (tickets s0) \<ge> maxTickets s0 then chat_sweep now s0 else s0)
      in if length (tickets s0) \<ge> maxTickets s0 \<and> length (tickets s) \<ge> maxTickets s
         then (Inl Store_full, s)
         else (Inr raw, s\<lparr>tickets := jset (H raw)
                 \<lparr>ce_op = op, ce_ref = ref, ce_session = session, ce_exp = now + ttlMs s\<rparr> (tickets s)\<rparr>))"

definition chat_issue ::
  "(string \<Rightarrow> string) \<Rightarrow> int \<Rightarrow> string \<Rightarrow> jsval \<Rightarrow> jsval \<Rightarrow> jsval \<Rightarrow> chat_store
     \<Rightarrow> (ticket_error + string) \<times> chat_store" where
  "chat_issue H now raw session op ref s =
     (if \<not> (is_str session \<and> truthy session) then (Inl Missing_session, s)
      else if op \<noteq> JStr ''upload'' \<and> op \<noteq> JStr ''download'' then (Inl Invalid_op, s)
      else if op = JStr ''download'' \<and> \<not> (is_str ref \<and> truthy ref) then (Inl Missing_ref, s)
      else if op = JStr ''upload'' \<and> \<not> nullish ref then (Inl Unexpected_ref, s)
      else if op = JStr ''upload'' then
        (case chat_count_upload now (to_string session) s of
           None \<Rightarrow> (Inl Cap_exceeded, s)
         | Some s' \<Rightarrow> chat_store_ticket H now raw (to_string session) ''upload'' None s')
      else chat_store_ticket H now raw (to_string session) ''download'' (Some (to_string ref)) s)"

definition chat_verify ::
  "(string \<Rightarrow> string) \<Rightarrow> int \<Rightarrow> jsval \<Rightarrow> jsval \<Rightarrow> jsval \<Rightarrow> chat_store \<Rightarrow> bool \<times> chat_store" where
  "chat_verify H now ticket op ref s0 =
     (let s = chat_sweep now s0 in
      if \<not> (is_str ticket \<and> truthy ticket) then (False, s)
      else let h = H (to_string ticket) in
        case jget (tickets s) h of
          None \<Rightarrow> (False, s)
        | Some e \<Rightarrow>
            if now > ce_exp e then (False, s\<lparr>tickets := jdel h (tickets s)\<rparr>)
            else if JStr (ce_op e) \<noteq> op then (False, s)
            else if op = JStr ''download'' \<and> (case ce_ref e of None \<Rightarrow> JNull | Some r \<Rightarrow> JStr r) \<noteq> ref then (False, s)
            else (True, s\<lparr>tickets := jdel h (tickets s)\<rparr>))"

definition chat_size :: "int option \<Rightarrow> chat_store \<Rightarrow> nat \<times> chat_store" where
  "chat_size now s0 = (let s = (case now of None \<Rightarrow> s0 | Some t \<Rightarrow> chat_sweep t s0)
     in (length (tickets s), s))"

section \<open>Invariant\<close>

definition chat_invar :: "chat_store \<Rightarrow> bool" where
  "chat_invar s \<longleftrightarrow> wf_map (tickets s) \<and> 1 \<le> ttlMs s \<and> ttlMs s \<le> HARD_TTL_CAP_MS
     \<and> 1 \<le> maxTickets s \<and> length (tickets s) \<le> maxTickets s
     \<and> (\<forall>k w. jget (sessions s) k = Some w \<longrightarrow> cw_count w \<le> uploadCapPerWindow s)"

lemma chat_new_invar: "chat_invar (chat_new ttl cap window mx)"
  by (auto simp: chat_invar_def chat_new_def HARD_TTL_CAP_MS_def DEFAULT_TTL_MS_def nat_or_def
      DEFAULT_MAX_TICKETS_def split: option.splits)

lemma chat_sweep_simps [simp]:
  "ttlMs (chat_sweep now s) = ttlMs s" "maxTickets (chat_sweep now s) = maxTickets s"
  "sessions (chat_sweep now s) = sessions s" "uploadCapPerWindow (chat_sweep now s) = uploadCapPerWindow s"
  "windowMs (chat_sweep now s) = windowMs s"
  by (simp_all add: chat_sweep_def)

lemma chat_sweep_get:
  "wf_map (tickets s) \<Longrightarrow> jget (tickets (chat_sweep now s)) h =
     (case jget (tickets s) h of None \<Rightarrow> None | Some e \<Rightarrow> if now \<le> ce_exp e then Some e else None)"
  by (auto simp: chat_sweep_def jget_filter split: option.splits)

lemma chat_sweep_length: "length (tickets (chat_sweep now s)) \<le> length (tickets s)"
  by (simp add: chat_sweep_def)

lemma chat_sweep_invar [simp]: "chat_invar s \<Longrightarrow> chat_invar (chat_sweep now s)"
  using chat_sweep_length [of now s] by (auto simp: chat_invar_def) (simp add: chat_sweep_def)

lemma chat_store_ticket_invar:
  assumes "chat_invar s"
  shows "chat_invar (snd (chat_store_ticket H now raw session op ref s))"
  using assms chat_sweep_invar [OF assms, of now]
  by (auto simp: chat_store_ticket_def Let_def chat_invar_def length_jset split: option.split)

lemma chat_count_upload_invar:
  "chat_invar s \<Longrightarrow> chat_count_upload now session s = Some s' \<Longrightarrow> chat_invar s'"
  by (auto simp: chat_count_upload_def chat_invar_def Let_def split: if_splits)

lemma chat_issue_invar: "chat_invar s \<Longrightarrow> chat_invar (snd (chat_issue H now raw session op ref s))"
  by (auto simp: chat_issue_def intro: chat_store_ticket_invar chat_count_upload_invar split: option.split)

lemma chat_verify_invar:
  assumes "chat_invar s" shows "chat_invar (snd (chat_verify H now ticket op ref s))"
proof -
  have "chat_invar (s'\<lparr>tickets := jdel h (tickets s')\<rparr>)" if "chat_invar s'" for h s'
    using that length_jdel_le [of h "tickets s'"] by (auto simp: chat_invar_def)
  with assms show ?thesis by (auto simp: chat_verify_def Let_def split: option.split)
qed

section \<open>One-shot redemption\<close>

type_synonym chat_attempt = "int \<times> jsval \<times> jsval \<times> jsval"

definition chat_redeem :: "(string \<Rightarrow> string) \<Rightarrow> chat_attempt \<Rightarrow> chat_store \<Rightarrow> bool \<times> chat_store" where
  "chat_redeem H q s = (case q of (now, ticket, op, ref) \<Rightarrow> chat_verify H now ticket op ref s)"

definition attempt_hash :: "(string \<Rightarrow> string) \<Rightarrow> chat_attempt \<Rightarrow> string" where
  "attempt_hash H q = (case q of (now, ticket, op, ref) \<Rightarrow> H (to_string ticket))"

lemma chat_sweep_subset: "set (tickets (chat_sweep now s)) \<subseteq> set (tickets s)"
  by (auto simp: chat_sweep_def)

lemma chat_verify_True:
  assumes "chat_verify H now ticket op ref s = (True, s')"
  shows "\<exists>e. jget (tickets (chat_sweep now s)) (H (to_string ticket)) = Some e \<and> now \<le> ce_exp e
    \<and> JStr (ce_op e) = op \<and> s' = (chat_sweep now s)\<lparr>tickets := jdel (H (to_string ticket)) (tickets (chat_sweep now s))\<rparr>"
  using assms by (auto simp: chat_verify_def Let_def split: option.splits if_splits)

interpretation chat: one_shot "\<lambda>s. fst ` set (tickets s)" "chat_redeem H" "attempt_hash H"
  for H :: "string \<Rightarrow> string"
proof unfold_locales
  fix q :: chat_attempt and s
  show "fst ` set (tickets (snd (chat_redeem H q s))) \<subseteq> fst ` set (tickets s)"
    using chat_sweep_subset [of _ s]
    by (cases q) (auto simp: chat_redeem_def chat_verify_def Let_def jdel_keys split: option.split)
next
  fix q :: chat_attempt and s
  assume ok: "fst (chat_redeem H q s)"
  obtain now ticket op ref where q: "q = (now, ticket, op, ref)" by (cases q)
  with ok obtain s' where v: "chat_verify H now ticket op ref s = (True, s')"
    by (cases "chat_verify H now ticket op ref s") (auto simp: chat_redeem_def)
  from chat_verify_True [OF v] have "H (to_string ticket) \<in> fst ` set (tickets (chat_sweep now s))"
    by (auto intro: jget_in_keys)
  then show "attempt_hash H q \<in> fst ` set (tickets s)"
    using chat_sweep_subset [of now s] by (auto simp: attempt_hash_def q)
  from chat_verify_True [OF v] show "attempt_hash H q \<notin> fst ` set (tickets (snd (chat_redeem H q s)))"
    by (auto simp: attempt_hash_def chat_redeem_def q v set_jdel)
qed

section \<open>Failed probes\<close>

lemma chat_verify_False:
  assumes "wf_map (tickets s)" and "\<not> fst (chat_verify H now ticket op ref s)"
  shows "snd (chat_verify H now ticket op ref s) = chat_sweep now s"
proof (cases "jget (tickets (chat_sweep now s)) (H (to_string ticket))")
  case None
  then show ?thesis by (simp add: chat_verify_def Let_def)
next
  case (Some e)
  then have live: "\<not> now > ce_exp e" using assms(1) by (auto simp: chat_sweep_get split: option.splits if_splits)
  show ?thesis using assms(2) unfolding chat_verify_def Let_def Some option.case if_not_P [OF live] by (auto split: if_split_asm)
qed

lemma chat_sweep_sweep: "t1 \<le> t2 \<Longrightarrow> chat_sweep t2 (chat_sweep t1 s) = chat_sweep t2 s"
proof -
  assume "t1 \<le> t2"
  then have "filter (\<lambda>(h, e). \<not> t2 > ce_exp e) (filter (\<lambda>(h, e). \<not> t1 > ce_exp e) ts)
      = filter (\<lambda>(h, e). \<not> t2 > ce_exp e) ts" for ts :: "(string \<times> chat_entry) list"
    by (auto simp: filter_filter intro!: filter_cong)
  then show ?thesis by (simp add: chat_sweep_def)
qed

lemma chat_verify_sweep:
  "t1 \<le> t2 \<Longrightarrow> chat_verify H t2 ticket op ref (chat_sweep t1 s) = chat_verify H t2 ticket op ref s"
  by (simp add: chat_verify_def chat_sweep_sweep)

section \<open>The upload cap\<close>

type_synonym chat_request = "int \<times> string \<times> jsval \<times> jsval \<times> jsval"

text \<open>How many upload tickets a session obtains in a sequence of requests.\<close>

fun uploads_issued :: "(string \<Rightarrow> string) \<Rightarrow> string \<Rightarrow> chat_request list \<Rightarrow> chat_store \<Rightarrow> nat" where
  "uploads_issued H sess [] s = 0"
| "uploads_issued H sess ((now, raw, session, op, ref) # qs) s =
     (let (res, s') = chat_issue H now raw session op ref s
      in (if (\<exists>t. res = Inr t) \<and> session = JStr sess \<and> op = JStr ''upload'' then 1 else 0)
         + uploads_issued H sess qs s')"

definition upload_count :: "string \<Rightarrow> chat_store \<Rightarrow> nat" where
  "upload_count sess s = (case jget (sessions s) sess of None \<Rightarrow> 0 | Some w \<Rightarrow> cw_count w)"

definition window_from :: "int \<Rightarrow> string \<Rightarrow> chat_store \<Rightarrow> bool" where
  "window_from t0 sess s \<longleftrightarrow> (\<forall>w. jget (sessions s) sess = Some w \<longrightarrow> t0 \<le> cw_start w)"

lemma chat_store_ticket_simps [simp]:
  "sessions (snd (chat_store_ticket H now raw session op ref s)) = sessions s"
  "windowMs (snd (chat_store_ticket H now raw session op ref s)) = windowMs s"
  "uploadCapPerWindow (snd (chat_store_ticket H now raw session op ref s)) = uploadCapPerWindow s"
  by (simp_all add: chat_store_ticket_def Let_def)

lemma to_string_str: "is_str v \<Longrightarrow> (to_string v = x) = (v = JStr x)"
  by (cases v) auto

lemma upload_window_same:
  assumes "window_from t0 sess s" "t0 \<le> now" "now < t0 + windowMs s"
  shows "cw_count (upload_window now sess s) = upload_count sess s \<and> t0 \<le> cw_start (upload_window now sess s)"
  using assms by (auto simp: upload_window_def upload_count_def window_from_def split: option.splits)

lemma chat_issue_step:
  assumes win: "window_from t0 sess s" "t0 \<le> now" "now < t0 + windowMs s"
    and cap: "upload_count sess s \<le> uploadCapPerWindow s"
    and iss: "chat_issue H now raw session op ref s = (res, s')"
  shows "window_from t0 sess s' \<and> windowMs s' = windowMs s \<and> uploadCapPerWindow s' = uploadCapPerWindow s
    \<and> upload_count sess s' \<le> uploadCapPerWindow s
    \<and> (if (\<exists>t. res = Inr t) \<and> session = JStr sess \<and> op = JStr ''upload'' then 1 else 0) + upload_count sess s
       \<le> upload_count sess s'"
proof (cases "is_str session \<and> truthy session \<and> op = JStr ''upload'' \<and> nullish ref")
  case False
  then have "s' = s \<or> (\<exists>r. s' = snd (chat_store_ticket H now raw (to_string session) ''download'' r s))"
    and "\<not> ((\<exists>t. res = Inr t) \<and> op = JStr ''upload'')"
    using iss by (auto simp: chat_issue_def split: if_splits option.splits dest: sym [of _ s'])
      (metis snd_conv)+
  with win cap show ?thesis by (auto simp: upload_count_def window_from_def)
next
  case up: True
  show ?thesis
  proof (cases "chat_count_upload now (to_string session) s")
    case None
    with up iss have "s' = s" "res = Inl Cap_exceeded" by (auto simp: chat_issue_def)
    with win cap show ?thesis by simp
  next
    case (Some s1)
    with up iss have s': "s' = snd (chat_store_ticket H now raw (to_string session) ''upload'' None s1)"
      by (auto simp: chat_issue_def)
    let ?w = "upload_window now (to_string session) s"
    from Some have s1: "s1 = s\<lparr>sessions := jset (to_string session) (?w\<lparr>cw_count := cw_count ?w + 1\<rparr>) (sessions s)\<rparr>"
      and lt: "cw_count ?w < uploadCapPerWindow s"
      by (auto simp: chat_count_upload_def Let_def split: if_splits)
    show ?thesis
    proof (cases "to_string session = sess")
      case True
      with upload_window_same [OF win] lt show ?thesis
        by (auto simp: s' s1 upload_count_def window_from_def)
    next
      case False
      with up have "session \<noteq> JStr sess" by auto
      with False win cap show ?thesis by (auto simp: s' s1 upload_count_def window_from_def)
    qed
  qed
qed

lemma uploads_issued_bound:
  "\<forall>q \<in> set qs. t0 \<le> fst q \<and> fst q < t0 + windowMs s \<Longrightarrow> window_from t0 sess s \<Longrightarrow>
   upload_count sess s \<le> uploadCapPerWindow s \<Longrightarrow>
   uploads_issued H sess qs s + upload_count sess s \<le> uploadCapPerWindow s"
proof (induction qs arbitrary: s)
  case (Cons q qs)
  obtain now raw session op ref where q: "q = (now, raw, session, op, ref)" by (cases q) auto
  obtain res s' where iss: "chat_issue H now raw session op ref s = (res, s')" by fastforce
  from Cons.prems q chat_issue_step [OF _ _ _ _ iss, of t0 sess]
  have st: "window_from t0 sess s'" "windowMs s' = windowMs s" "uploadCapPerWindow s' = uploadCapPerWindow s"
    "upload_count sess s' \<le> uploadCapPerWindow s"
    "(if (\<exists>t. res = Inr t) \<and> session = JStr sess \<and> op = JStr ''upload'' then 1 else 0) + upload_count sess s
       \<le> upload_count sess s'"
    by auto
  have "uploads_issued H sess qs s' + upload_count sess s' \<le> uploadCapPerWindow s'"
    using Cons.prems st by (intro Cons.IH) auto
  with st show ?case by (simp add: q iss)
qed simp

section \<open>Properties\<close>

lemma chat_issue_stores:
  assumes "chat_issue H now raw session op ref s = (Inr tk, s')"
  shows "tk = raw \<and> jget (tickets s') (H raw) = Some \<lparr>ce_op = to_string op,
     ce_ref = (if op = JStr ''download'' then Some (to_string ref) else None),
     ce_session = to_string session, ce_exp = now + ttlMs s\<rparr>
     \<and> (op = JStr ''upload'' \<or> op = JStr ''download'' \<and> is_str ref)"
  using assms
  by (auto simp: chat_issue_def chat_store_ticket_def chat_count_upload_def Let_def
      split: if_splits option.splits)

text \<open>
  C4. A ticket is one-shot: whatever the sequence of redemption attempts (times, tickets,
  operations, references) and whatever the hash, at most one attempt with a given ticket succeeds.
\<close>

theorem chat_ticket_once:
  "successes (attempt_hash H) k (run_redeems (chat_redeem H) qs s) \<le> 1"
  by (rule chat.at_most_once)

text \<open>
  A ticket works for what it was issued for, and only while it lives: redeeming it with its own
  operation and reference succeeds up to its expiry and is refused afterwards.
\<close>

theorem chat_issue_verify:
  assumes inv: "chat_invar s" and raw: "raw \<noteq> []"
    and iss: "chat_issue H now raw session op ref s = (Inr tk, s')"
  shows "fst (chat_verify H t (JStr tk) op ref s') \<longleftrightarrow> t \<le> now + ttlMs s"
proof -
  from chat_issue_invar [OF inv, of H now raw session op ref] iss have "wf_map (tickets s')"
    by (simp add: chat_invar_def)
  with chat_issue_stores [OF iss] raw show ?thesis
    by (cases ref) (auto simp: chat_verify_def Let_def chat_sweep_get)
qed

theorem chat_issue_verify_witness:
  "fst (chat_verify id 1000 (JStr ''tk'') (JStr ''download'') (JStr ''ref'')
      (snd (chat_issue id 0 ''tk'' (JStr ''s'') (JStr ''download'') (JStr ''ref'') (chat_new None (Some 3) None (Some 2)))))
    \<longleftrightarrow> (1000 :: int) \<le> 0 + ttlMs (chat_new None (Some 3) None (Some 2))"
proof (rule chat_issue_verify [where session = "JStr ''s''" and H = id])
  show "chat_invar (chat_new None (Some 3) None (Some 2))" by (rule chat_new_invar)
  show "chat_issue id 0 ''tk'' (JStr ''s'') (JStr ''download'') (JStr ''ref'') (chat_new None (Some 3) None (Some 2))
    = (Inr ''tk'', snd (chat_issue id 0 ''tk'' (JStr ''s'') (JStr ''download'') (JStr ''ref'') (chat_new None (Some 3) None (Some 2))))"
    by (simp add: chat_new_def chat_issue_def chat_store_ticket_def chat_count_upload_def chat_verify_def chat_sweep_def
        upload_window_def nat_or_def int_or_def nullish_def DEFAULT_TTL_MS_def HARD_TTL_CAP_MS_def Let_def)
qed simp

text \<open>
  A failed probe costs its owner nothing: after an attempt that was refused, every later
  redemption has the outcome it would have had without the attempt.
\<close>

theorem chat_probe_harmless:
  assumes inv: "chat_invar s" and later: "t1 \<le> t2"
    and refused: "\<not> fst (chat_verify H t1 ticket op ref s)"
  shows "chat_verify H t2 ticket' op' ref' (snd (chat_verify H t1 ticket op ref s)) = chat_verify H t2 ticket' op' ref' s"
  using chat_verify_False [OF _ refused] chat_verify_sweep [OF later] inv
  by (simp add: chat_invar_def)

theorem chat_probe_harmless_witness:
  "let s = snd (chat_issue id 0 ''tk'' (JStr ''s'') (JStr ''upload'') JNull (chat_new None (Some 3) None (Some 2))) in
   chat_verify id 2 (JStr ''tk'') (JStr ''upload'') JNull
     (snd (chat_verify id 1 (JStr ''tk'') (JStr ''download'') JNull s))
   = chat_verify id 2 (JStr ''tk'') (JStr ''upload'') JNull s"
  unfolding Let_def
proof (rule chat_probe_harmless)
  show "chat_invar (snd (chat_issue id 0 ''tk'' (JStr ''s'') (JStr ''upload'') JNull (chat_new None (Some 3) None (Some 2))))"
    by (intro chat_issue_invar chat_new_invar)
  show "\<not> fst (chat_verify id 1 (JStr ''tk'') (JStr ''download'') JNull
     (snd (chat_issue id 0 ''tk'' (JStr ''s'') (JStr ''upload'') JNull (chat_new None (Some 3) None (Some 2)))))"
    by (simp add: chat_new_def chat_issue_def chat_store_ticket_def chat_count_upload_def chat_verify_def chat_sweep_def
        upload_window_def nat_or_def int_or_def nullish_def DEFAULT_TTL_MS_def HARD_TTL_CAP_MS_def Let_def)
qed simp

text \<open>
  The upload cap holds: within one window length, a session obtains at most
  \<open>uploadCapPerWindow\<close> upload tickets, whatever other sessions and downloads are interleaved.
\<close>

theorem chat_upload_cap:
  assumes "\<forall>q \<in> set qs. t0 \<le> fst q \<and> fst q < t0 + windowMs (chat_new ttl cap window mx)"
  shows "uploads_issued H sess qs (chat_new ttl cap window mx) \<le> uploadCapPerWindow (chat_new ttl cap window mx)"
proof -
  have "uploads_issued H sess qs (chat_new ttl cap window mx) + upload_count sess (chat_new ttl cap window mx)
      \<le> uploadCapPerWindow (chat_new ttl cap window mx)"
    using assms by (intro uploads_issued_bound) (simp_all add: window_from_def upload_count_def chat_new_def)
  then show ?thesis by simp
qed

theorem chat_upload_cap_witness:
  "uploads_issued id ''s'' [(5, ''a'', JStr ''s'', JStr ''upload'', JUndef), (6, ''b'', JStr ''s'', JStr ''upload'', JUndef)]
     (chat_new None (Some 1) None None) \<le> uploadCapPerWindow (chat_new None (Some 1) None None)"
  by (rule chat_upload_cap [where ?t0.0 = 0]) (simp add: chat_new_def int_or_def DEFAULT_WINDOW_MS_def)

end
