(* ===== verification/Replay_Guard.thy ===== *)
theory Replay_Guard
  imports Prelude
begin

text \<open>
  The contract of a replay guard: a store of nonces that accepts a nonce at most once within a
  window. The broker has two (\<open>NonceCache\<close> for manager proofs, \<open>NonceSeen\<close> for private-topic
  proofs); both interpret the locale \<open>replay_guard\<close>, where the separation of two acceptances of
  one nonce is proved once, over any run of attempts.
\<close>

fun run_guard :: "(int \<Rightarrow> 'k \<Rightarrow> 's \<Rightarrow> bool \<times> 's) \<Rightarrow> (int \<times> 'k) list \<Rightarrow> 's \<Rightarrow> (int \<times> 'k \<times> bool) list" where
  "run_guard guard [] s = []"
| "run_guard guard ((t, k) # qs) s =
     (let (ok, s') = guard t k s in (t, k, ok) # run_guard guard qs s')"

text \<open>The times at which nonce \<open>k\<close> was accepted.\<close>

definition accepted_at :: "'k \<Rightarrow> (int \<times> 'k \<times> bool) list \<Rightarrow> int list" where
  "accepted_at k vs = map fst (filter (\<lambda>(t, k', ok). ok \<and> k' = k) vs)"

lemma accepted_at_simps [simp]:
  "accepted_at k [] = []"
  "accepted_at k ((t, k', ok) # vs) = (if ok \<and> k' = k then t # accepted_at k vs else accepted_at k vs)"
  by (simp_all add: accepted_at_def)

lemma run_guard_map_fst: "set (map fst (run_guard g qs s)) = set (map fst qs)"
proof (induction qs arbitrary: s)
  case (Cons q qs)
  then show ?case by (cases q, cases "g (fst q) (snd q) s") simp
qed simp

lemma accepted_at_subset: "set (accepted_at k (run_guard g qs s)) \<subseteq> fst ` set qs"
  using run_guard_map_fst [of g qs s] by (auto simp: accepted_at_def)

locale replay_guard =
  fixes guard :: "int \<Rightarrow> 'k \<Rightarrow> 's \<Rightarrow> bool \<times> 's"
    and recorded :: "'s \<Rightarrow> 'k \<Rightarrow> int option"
    and window :: "'s \<Rightarrow> int"
    and invar :: "'s \<Rightarrow> bool"
  assumes guard_records: "invar s \<Longrightarrow> fst (guard t k s) \<Longrightarrow> recorded (snd (guard t k s)) k = Some t"
    and guard_refuses:
      "invar s \<Longrightarrow> recorded s k = Some t0 \<Longrightarrow> t - t0 < window s \<Longrightarrow> \<not> fst (guard t k s)"
    and guard_frame:
      "invar s \<Longrightarrow> recorded s k = Some t0 \<Longrightarrow> t - t0 < window s \<Longrightarrow>
       recorded (snd (guard t k' s)) k = Some t0"
    and guard_invar: "invar s \<Longrightarrow> invar (snd (guard t k s)) \<and> window (snd (guard t k s)) = window s"
begin

lemma refused_in_window:
  "invar s \<Longrightarrow> recorded s k = Some t0 \<Longrightarrow> t \<in> set (accepted_at k (run_guard guard qs s)) \<Longrightarrow>
   sorted (map fst qs) \<Longrightarrow> t - t0 \<ge> window s"
proof (induction qs arbitrary: s)
  case (Cons q qs)
  obtain t1 k1 where q: "q = (t1, k1)" by (cases q)
  obtain ok s' where g: "guard t1 k1 s = (ok, s')" by fastforce
  from guard_invar [OF Cons.prems(1), of t1 k1] g have inv': "invar s'" "window s' = window s" by auto
  have t: "t1 \<le> t"
    using Cons.prems(3,4) accepted_at_subset [of k guard qs s'] q g by (auto split: if_splits)
  show ?case
  proof (cases "t1 - t0 < window s")
    case True
    from guard_frame [OF Cons.prems(1,2) True, of k1] g have rec: "recorded s' k = Some t0" by simp
    have "\<not> (ok \<and> k1 = k)" using guard_refuses [OF Cons.prems(1,2) True] g by auto
    then have "t \<in> set (accepted_at k (run_guard guard qs s'))"
      using Cons.prems(3) q g by (auto split: if_splits)
    with Cons.IH [OF inv'(1) rec] Cons.prems(4) q inv'(2) show ?thesis by simp
  next
    case False
    with t show ?thesis by simp
  qed
qed simp

text \<open>Two acceptances of the same nonce are at least a window apart.\<close>

lemma accepted_apart:
  "invar s \<Longrightarrow> sorted (map fst qs) \<Longrightarrow>
   sorted_wrt (\<lambda>t t'. t' - t \<ge> window s) (accepted_at k (run_guard guard qs s))"
proof (induction qs arbitrary: s)
  case (Cons q qs)
  obtain t1 k1 where q: "q = (t1, k1)" by (cases q)
  obtain ok s' where g: "guard t1 k1 s = (ok, s')" by fastforce
  from guard_invar [OF Cons.prems(1), of t1 k1] g have inv': "invar s'" "window s' = window s" by auto
  from Cons.IH [OF inv'(1)] Cons.prems(2) inv'(2)
  have ih: "sorted_wrt (\<lambda>t t'. t' - t \<ge> window s) (accepted_at k (run_guard guard qs s'))"
    by simp
  have "\<forall>t \<in> set (accepted_at k (run_guard guard qs s')). t - t1 \<ge> window s" if "ok" "k1 = k"
    using guard_records [OF Cons.prems(1), of t1 k] that g inv' Cons.prems(2)
    by (auto dest: refused_in_window [OF inv'(1)])
  with ih show ?case by (simp add: q g)
qed simp

end

end
