(* ===== verification/Nonces.thy ===== *)
theory Nonces
  imports Replay_Guard
begin

text \<open>
  \<open>lib/nonce-cache.js\<close> (the replay cache of signed manager proofs, with the proof checks of
  \<open>lib/server.js\<close> that use it) and \<open>lib/notify-auth.js\<close> (self-signed proofs for private topics and
  their replay set). Signature verification, key import, hashing and \<open>stableStringify\<close> are
  parameters; the clock is an argument.
\<close>

section \<open>NonceCache\<close>

record nonce_cache =
  maxAgeMs :: int
  retainMs :: int
  nc_entries :: "(string, int) jsmap"
  lastPrune :: int
  pruneEveryMs :: int

definition nonce_cache_new :: "int option \<Rightarrow> int \<Rightarrow> nonce_cache" where
  "nonce_cache_new age now =
     (let m = (case age of None \<Rightarrow> 5 * 60 * 1000 | Some a \<Rightarrow> if a = 0 then 5 * 60 * 1000 else a)
      in \<lparr>maxAgeMs = m, retainMs = 2 * m, nc_entries = [], lastPrune = now,
          pruneEveryMs = min (30 * 1000) (max 1 ((2 * m) div 4))\<rparr>)"

definition nc_prune :: "int \<Rightarrow> nonce_cache \<Rightarrow> nonce_cache" where
  "nc_prune now c = c\<lparr>lastPrune := now,
     nc_entries := filter (\<lambda>(k, ins). \<not> ins \<le> now - retainMs c) (nc_entries c)\<rparr>"

definition nc_maybePrune :: "int \<Rightarrow> nonce_cache \<Rightarrow> nonce_cache" where
  "nc_maybePrune now c = (if now - lastPrune c \<ge> pruneEveryMs c then nc_prune now c else c)"

definition nc_has :: "int \<Rightarrow> string \<Rightarrow> nonce_cache \<Rightarrow> bool \<times> nonce_cache" where
  "nc_has now nonce c0 = (let c = nc_maybePrune now c0
     in (case jget (nc_entries c) nonce of None \<Rightarrow> False | Some ins \<Rightarrow> ins > now - retainMs c, c))"

definition nc_add :: "int \<Rightarrow> string \<Rightarrow> nonce_cache \<Rightarrow> nonce_cache" where
  "nc_add now nonce c0 = (let c = nc_maybePrune now c0
     in c\<lparr>nc_entries := jset nonce now (nc_entries c)\<rparr>)"

definition nc_size :: "int \<Rightarrow> nonce_cache \<Rightarrow> nat \<times> nonce_cache" where
  "nc_size now c0 = (let c = nc_prune now c0 in (length (nc_entries c), c))"

section \<open>Manager proofs\<close>

text \<open>A manager proof as the broker sees it; \<open>mp_nonce\<close> is the nonce, empty when missing.\<close>

record manager_proof =
  mp_timestamp :: int
  mp_nonce :: string
  mp_signature :: string

datatype proof_verdict = ProofOk | ProofMissing | ProofReplayed | ProofInvalid

definition validateManagerProofEnvelope ::
  "int \<Rightarrow> manager_proof option \<Rightarrow> nonce_cache \<Rightarrow> proof_verdict \<times> nonce_cache" where
  "validateManagerProofEnvelope now pf c =
     (case pf of
        None \<Rightarrow> (ProofMissing, c)
      | Some p \<Rightarrow> if mp_nonce p = [] then (ProofMissing, c)
          else let (used, c') = nc_has now (mp_nonce p) c
               in (if used then ProofReplayed else ProofOk, c'))"

text \<open>\<open>vap secret action body proof now\<close> stands for \<open>adminSignature.verifyAdminProof\<close>.\<close>

definition verifyProofWithSecrets ::
  "(string \<Rightarrow> string \<Rightarrow> jsval \<Rightarrow> manager_proof \<Rightarrow> int \<Rightarrow> bool) \<Rightarrow> string list \<Rightarrow> string \<Rightarrow> jsval
     \<Rightarrow> manager_proof \<Rightarrow> int \<Rightarrow> bool" where
  "verifyProofWithSecrets vap secrets action body p now =
     list_ex (\<lambda>s. s \<noteq> [] \<and> vap s action (js_or body (JObj [])) p now) secrets"

definition markManagerProofUsed :: "int \<Rightarrow> manager_proof \<Rightarrow> nonce_cache \<Rightarrow> nonce_cache" where
  "markManagerProofUsed now p c = nc_add now (mp_nonce p) c"

definition verifyGlobalManagerProof ::
  "(string \<Rightarrow> string \<Rightarrow> jsval \<Rightarrow> manager_proof \<Rightarrow> int \<Rightarrow> bool) \<Rightarrow> string list \<Rightarrow> int \<Rightarrow> string \<Rightarrow> jsval
     \<Rightarrow> manager_proof option \<Rightarrow> nonce_cache \<Rightarrow> proof_verdict \<times> nonce_cache" where
  "verifyGlobalManagerProof vap admins now action body pf c0 =
     (let (v, c) = validateManagerProofEnvelope now pf c0 in
      if v \<noteq> ProofOk then (v, c)
      else (case pf of
          None \<Rightarrow> (ProofMissing, c)
        | Some p \<Rightarrow> if verifyProofWithSecrets vap admins action body p now
            then (ProofOk, markManagerProofUsed now p c) else (ProofInvalid, c)))"

section \<open>Private-topic proofs\<close>

definition SIGNATURE_MAX_AGE_MS :: int where "SIGNATURE_MAX_AGE_MS = 60 * 1000"

text \<open>\<open>/^(_|system:)/\<close>\<close>

definition isReservedTopic :: "jsval \<Rightarrow> bool" where
  "isReservedTopic topic \<longleftrightarrow>
     (case topic of JStr t \<Rightarrow> starts_with ''_'' t \<or> starts_with ''system:'' t | _ \<Rightarrow> False)"

definition signatureBase :: "(jsval \<Rightarrow> string) \<Rightarrow> jsval \<Rightarrow> jsval \<Rightarrow> jsval \<Rightarrow> jsval \<Rightarrow> string" where
  "signatureBase stringify action body timestamp nonce =
     join_with [char_of (10 :: nat)]
       [to_string (js_or action (JStr [])), to_string (js_or timestamp (JStr [])),
        to_string (js_or nonce (JStr [])), stringify (js_or body (JObj []))]"

record topic_proof =
  tp_timestamp :: jsval
  tp_nonce :: jsval
  tp_signature :: jsval

text \<open>
  \<open>importKey\<close> gives \<open>None\<close> for bytes that are no key; \<open>sigCheck key base signature\<close> gives \<open>None\<close>
  when the crypto library throws.
\<close>

definition verifyProof ::
  "(jsval \<Rightarrow> string) \<Rightarrow> (string \<Rightarrow> 'key option) \<Rightarrow> ('key \<Rightarrow> string \<Rightarrow> string \<Rightarrow> bool option) \<Rightarrow> int
     \<Rightarrow> string \<Rightarrow> jsval \<Rightarrow> jsval \<Rightarrow> topic_proof option \<Rightarrow> bool" where
  "verifyProof stringify importKey sigCheck now pubkey action body pf =
     (case pf of
        None \<Rightarrow> False
      | Some p \<Rightarrow>
          if tp_timestamp p = JUndef \<or> \<not> truthy (tp_nonce p) \<or> \<not> truthy (tp_signature p) then False
          else (case to_number (tp_timestamp p) of
              Fin ts \<Rightarrow>
                if \<bar>of_int now - ts\<bar> > of_int SIGNATURE_MAX_AGE_MS then False
                else (case importKey pubkey of
                    None \<Rightarrow> False
                  | Some k \<Rightarrow> (case sigCheck k
                        (signatureBase stringify action (js_or body (JObj [])) (JNum (Fin ts)) (tp_nonce p))
                        (to_string (tp_signature p)) of None \<Rightarrow> False | Some ok \<Rightarrow> ok))
            | _ \<Rightarrow> False))"

section \<open>NonceSeen\<close>

record nonce_seen =
  ns_ttlMs :: int
  ns_seen :: "(string, int) jsmap"

definition nonce_seen_new :: "int option \<Rightarrow> nonce_seen" where
  "nonce_seen_new ttl = \<lparr>ns_ttlMs = (case ttl of None \<Rightarrow> SIGNATURE_MAX_AGE_MS
      | Some t \<Rightarrow> if t = 0 then SIGNATURE_MAX_AGE_MS else t), ns_seen = []\<rparr>"

definition ns_sweep :: "int \<Rightarrow> nonce_seen \<Rightarrow> nonce_seen" where
  "ns_sweep now c = (if length (ns_seen c) < 5000 then c
     else c\<lparr>ns_seen := filter (\<lambda>(k, e). \<not> e < now) (ns_seen c)\<rparr>)"

definition nonce_key :: "string \<Rightarrow> string \<Rightarrow> string" where
  "nonce_key topic nonce = topic @ '' '' @ nonce"

definition checkAndRecord :: "int \<Rightarrow> string \<Rightarrow> string \<Rightarrow> nonce_seen \<Rightarrow> bool \<times> nonce_seen" where
  "checkAndRecord now topic nonce c0 =
     (let c = ns_sweep now c0; key = nonce_key topic nonce in
      if (case jget (ns_seen c) key of None \<Rightarrow> False | Some e \<Rightarrow> e \<ge> now) then (False, c)
      else (True, c\<lparr>ns_seen := jset key (now + ns_ttlMs c) (ns_seen c)\<rparr>))"

text \<open>
  \<open>notifyProofRejected\<close> of \<open>lib/server.js\<close>: true when the topic is claimed and the proof fails;
  \<open>claim\<close> is the key of the claim, if there is one.
\<close>

definition notifyProofRejected ::
  "(jsval \<Rightarrow> string) \<Rightarrow> (string \<Rightarrow> 'key option) \<Rightarrow> ('key \<Rightarrow> string \<Rightarrow> string \<Rightarrow> bool option) \<Rightarrow> int
     \<Rightarrow> string option \<Rightarrow> jsval \<Rightarrow> string \<Rightarrow> jsval \<Rightarrow> topic_proof \<Rightarrow> nonce_seen \<Rightarrow> bool \<times> nonce_seen" where
  "notifyProofRejected stringify importKey sigCheck now claim action topic body p c =
     (case claim of
        None \<Rightarrow> (False, c)
      | Some pubkey \<Rightarrow>
          if \<not> verifyProof stringify importKey sigCheck now pubkey action body (Some p) then (True, c)
          else let (fresh, c') = checkAndRecord now topic (to_string (tp_nonce p)) c
               in (\<not> fresh, c'))"

section \<open>Publish tokens\<close>

text \<open>\<open>H\<close> is SHA-256 over the token, in hex.\<close>

definition hashPublishToken :: "(string \<Rightarrow> string) \<Rightarrow> jsval \<Rightarrow> string" where
  "hashPublishToken H token = H (to_string token)"

text \<open>\<open>Buffer.from(s, 'hex')\<close>: pairs of hex digits up to the first that is none.\<close>

fun hex_bytes :: "string \<Rightarrow> nat list" where
  "hex_bytes (a # b # r) =
     (if radix_digit a < 16 \<and> radix_digit b < 16 then (16 * radix_digit a + radix_digit b) # hex_bytes r else [])"
| "hex_bytes _ = []"

definition publishTokenMatches :: "(string \<Rightarrow> string) \<Rightarrow> jsval \<Rightarrow> string option \<Rightarrow> bool" where
  "publishTokenMatches H token hash \<longleftrightarrow> hex_bytes (hashPublishToken H token) = hex_bytes (str_or hash [])"

section \<open>Manager proofs are single-use\<close>

type_synonym manager_attempt = "string \<times> jsval \<times> manager_proof"

definition manager_guard ::
  "(string \<Rightarrow> string \<Rightarrow> jsval \<Rightarrow> manager_proof \<Rightarrow> int \<Rightarrow> bool) \<Rightarrow> string list \<Rightarrow> int \<Rightarrow> manager_attempt
     \<Rightarrow> nonce_cache \<Rightarrow> bool \<times> nonce_cache" where
  "manager_guard vap admins t k c =
     (case k of (action, body, p) \<Rightarrow>
        let (v, c') = verifyGlobalManagerProof vap admins t action body (Some p) c in (v = ProofOk, c'))"

definition nc_invar :: "nonce_cache \<Rightarrow> bool" where
  "nc_invar c \<longleftrightarrow> wf_map (nc_entries c) \<and> retainMs c = 2 * maxAgeMs c \<and> 0 < maxAgeMs c"

lemma nonce_cache_new_invar: "0 < a \<Longrightarrow> nc_invar (nonce_cache_new (Some a) now)"
  by (simp add: nc_invar_def nonce_cache_new_def Let_def)

lemma nc_maybePrune_simps [simp]:
  "retainMs (nc_maybePrune t c) = retainMs c" "maxAgeMs (nc_maybePrune t c) = maxAgeMs c"
  "wf_map (nc_entries c) \<Longrightarrow> wf_map (nc_entries (nc_maybePrune t c))"
  by (simp_all add: nc_maybePrune_def nc_prune_def)

lemma nc_maybePrune_get:
  "wf_map (nc_entries c) \<Longrightarrow> jget (nc_entries c) k = Some t0 \<Longrightarrow> t - t0 < retainMs c \<Longrightarrow>
   jget (nc_entries (nc_maybePrune t c)) k = Some t0"
  by (simp add: nc_maybePrune_def nc_prune_def jget_filter)

lemma nc_has_simps:
  "snd (nc_has t k c) = nc_maybePrune t c"
  "wf_map (nc_entries c) \<Longrightarrow> jget (nc_entries c) k = Some t0 \<Longrightarrow> t - t0 < retainMs c \<Longrightarrow> fst (nc_has t k c)"
  by (auto simp: nc_has_def Let_def nc_maybePrune_get)

lemma verifyGlobal_cases:
  "verifyGlobalManagerProof vap admins t action body (Some p) c =
     (if mp_nonce p = [] then (ProofMissing, c)
      else if fst (nc_has t (mp_nonce p) c) then (ProofReplayed, nc_maybePrune t c)
      else if verifyProofWithSecrets vap admins action body p t
      then (ProofOk, nc_add t (mp_nonce p) (nc_maybePrune t c)) else (ProofInvalid, nc_maybePrune t c))"
  by (simp add: verifyGlobalManagerProof_def validateManagerProofEnvelope_def markManagerProofUsed_def
      split_beta nc_has_simps(1) Let_def)

interpretation mgr: replay_guard "manager_guard vap admins" "\<lambda>c k. jget (nc_entries c) (mp_nonce (snd (snd k)))"
    retainMs nc_invar
  for vap :: "string \<Rightarrow> string \<Rightarrow> jsval \<Rightarrow> manager_proof \<Rightarrow> int \<Rightarrow> bool" and admins :: "string list"
proof unfold_locales
  fix s t and k :: manager_attempt
  assume "fst (manager_guard vap admins t k s)"
  then show "jget (nc_entries (snd (manager_guard vap admins t k s))) (mp_nonce (snd (snd k))) = Some t"
    by (cases k) (auto simp: manager_guard_def verifyGlobal_cases nc_add_def Let_def split: if_splits)
next
  fix s t t0 and k :: manager_attempt
  assume "nc_invar s" "jget (nc_entries s) (mp_nonce (snd (snd k))) = Some t0" "t - t0 < retainMs s"
  then show "\<not> fst (manager_guard vap admins t k s)"
    using nc_has_simps(2) [of s "mp_nonce (snd (snd k))" t0 t]
    by (cases k) (auto simp: manager_guard_def verifyGlobal_cases nc_invar_def)
next
  fix s t t0 and k k' :: manager_attempt
  assume inv: "nc_invar s" and rec: "jget (nc_entries s) (mp_nonce (snd (snd k))) = Some t0"
    and w: "t - t0 < retainMs s"
  have wf: "wf_map (nc_entries s)" using inv by (simp add: nc_invar_def)
  have keep: "jget (nc_entries (nc_maybePrune t s)) (mp_nonce (snd (snd k))) = Some t0"
    by (rule nc_maybePrune_get [OF wf rec w])
  have keep2: "jget (nc_entries (nc_maybePrune t (nc_maybePrune t s))) (mp_nonce (snd (snd k))) = Some t0"
    by (rule nc_maybePrune_get) (use keep wf w in simp_all)
  show "jget (nc_entries (snd (manager_guard vap admins t k' s))) (mp_nonce (snd (snd k))) = Some t0"
    using rec keep keep2 nc_has_simps(2) [OF wf rec w]
    by (cases k') (auto simp: manager_guard_def verifyGlobal_cases nc_add_def Let_def)
next
  fix s t and k :: manager_attempt
  assume "nc_invar s"
  then show "nc_invar (snd (manager_guard vap admins t k s)) \<and> retainMs (snd (manager_guard vap admins t k s)) = retainMs s"
    by (cases k) (auto simp: manager_guard_def verifyGlobal_cases nc_add_def nc_invar_def Let_def)
qed

lemma manager_guard_accepts:
  "fst (manager_guard vap admins t (a, b, p) c) \<Longrightarrow> verifyProofWithSecrets vap admins a b p t"
  by (auto simp: manager_guard_def verifyGlobal_cases split: if_splits)

lemma manager_accepted_verified:
  "t \<in> set (accepted_at (a, b, p) (run_guard (manager_guard vap admins) qs c)) \<Longrightarrow>
   verifyProofWithSecrets vap admins a b p t"
proof (induction qs arbitrary: c)
  case (Cons q qs)
  obtain t1 k1 where q: "q = (t1, k1)" by (cases q)
  obtain ok c' where g: "manager_guard vap admins t1 k1 c = (ok, c')" by fastforce
  from Cons q g show ?case
    using manager_guard_accepts [of vap admins t1 a b p c] by (auto split: if_splits)
qed simp

text \<open>
  A signed manager proof is accepted at most once, over any interleaving of attempts in time
  order, given that \<open>verifyAdminProof\<close> refuses a proof whose timestamp is more than \<open>maxAgeMs\<close> away:
  the cache outlives the acceptance window. The one instant left out is the very first millisecond
  of the window.
\<close>

theorem manager_proof_once:
  assumes inv: "nc_invar c" and ord: "sorted (map fst qs)"
    and fresh: "\<And>s a b q now. vap s a b q now \<Longrightarrow> \<bar>now - mp_timestamp q\<bar> \<le> maxAgeMs c"
    and edge: "\<forall>q \<in> set qs. fst q \<noteq> mp_timestamp p - maxAgeMs c"
  shows "length (accepted_at (a, b, p) (run_guard (manager_guard vap admins) qs c)) \<le> 1"
proof (rule ccontr)
  let ?ts = "accepted_at (a, b, p) (run_guard (manager_guard vap admins) qs c)"
  assume "\<not> length ?ts \<le> 1"
  then obtain t1 t2 rest where ts: "?ts = t1 # t2 # rest"
    by (cases ?ts; cases "tl ?ts") auto
  from mgr.accepted_apart [OF inv ord, of "(a, b, p)" vap admins] ts have apart: "t2 - t1 \<ge> 2 * maxAgeMs c"
    using inv by (simp add: nc_invar_def)
  have win: "\<bar>t - mp_timestamp p\<bar> \<le> maxAgeMs c" if "t \<in> {t1, t2}" for t
    using manager_accepted_verified [of t a b p vap admins qs c] ts that fresh
    by (auto simp: verifyProofWithSecrets_def list_ex_iff)
  have "t1 \<in> fst ` set qs"
    using accepted_at_subset [of "(a, b, p)" "manager_guard vap admins" qs c] ts by simp
  with edge have "t1 \<noteq> mp_timestamp p - maxAgeMs c" by auto
  with win [of t1] win [of t2] apart show False by (auto simp: abs_le_iff)
qed

theorem manager_proof_once_witness:
  "length (accepted_at (''clear'', JNull, \<lparr>mp_timestamp = 1000, mp_nonce = ''n'', mp_signature = ''x''\<rparr>)
     (run_guard (manager_guard (\<lambda>s a b p now. \<bar>now - mp_timestamp p\<bar> \<le> 5) [''secret''])
       [(1000, (''clear'', JNull, \<lparr>mp_timestamp = 1000, mp_nonce = ''n'', mp_signature = ''x''\<rparr>)),
        (1005, (''clear'', JNull, \<lparr>mp_timestamp = 1000, mp_nonce = ''n'', mp_signature = ''x''\<rparr>))]
       (nonce_cache_new (Some 5) 0))) \<le> 1"
proof (rule manager_proof_once)
  show "nc_invar (nonce_cache_new (Some 5) 0)" by (rule nonce_cache_new_invar) simp
  show "\<bar>now - mp_timestamp q\<bar> \<le> maxAgeMs (nonce_cache_new (Some 5) 0)"
    if "\<bar>now - mp_timestamp q\<bar> \<le> 5" for q :: manager_proof and now
    using that by (simp add: nonce_cache_new_def Let_def)
qed (simp_all add: nonce_cache_new_def Let_def)

text \<open>
  The boundary that the previous property leaves out is real: a proof accepted at the first
  instant of its window is accepted again at the last one, because the cache already counts a nonce
  of age exactly \<open>2 * maxAgeMs\<close> as forgotten while the proof is still fresh.
\<close>

theorem manager_proof_boundary_replay:
  "accepted_at (''clear'', JNull, \<lparr>mp_timestamp = 400000, mp_nonce = ''n'', mp_signature = ''x''\<rparr>)
     (run_guard (manager_guard (\<lambda>s a b p now. \<bar>now - mp_timestamp p\<bar> \<le> 300000) [''secret''])
       [(100000, (''clear'', JNull, \<lparr>mp_timestamp = 400000, mp_nonce = ''n'', mp_signature = ''x''\<rparr>)),
        (700000, (''clear'', JNull, \<lparr>mp_timestamp = 400000, mp_nonce = ''n'', mp_signature = ''x''\<rparr>))]
       (nonce_cache_new None 0)) = [100000, 700000]"
  by code_simp

section \<open>Private-topic proofs and replay\<close>

definition seen_guard :: "int \<Rightarrow> string \<times> string \<Rightarrow> nonce_seen \<Rightarrow> bool \<times> nonce_seen" where
  "seen_guard t k c = checkAndRecord t (fst k) (snd k) c"

definition ns_invar :: "nonce_seen \<Rightarrow> bool" where
  "ns_invar c \<longleftrightarrow> wf_map (ns_seen c)"

lemma ns_sweep_simps [simp]:
  "ns_ttlMs (ns_sweep t c) = ns_ttlMs c" "wf_map (ns_seen c) \<Longrightarrow> wf_map (ns_seen (ns_sweep t c))"
  by (simp_all add: ns_sweep_def)

lemma ns_sweep_get:
  "wf_map (ns_seen c) \<Longrightarrow> jget (ns_seen (ns_sweep t c)) k =
     (case jget (ns_seen c) k of None \<Rightarrow> None
      | Some e \<Rightarrow> if e < t \<and> length (ns_seen c) \<ge> 5000 then None else Some e)"
  by (auto simp: ns_sweep_def jget_filter split: option.splits)

text \<open>A nonce is refused exactly when it is recorded and not past its expiry; sweeping never matters.\<close>

lemma checkAndRecord_result:
  assumes "wf_map (ns_seen c)"
  shows "fst (checkAndRecord t topic nonce c) \<longleftrightarrow>
    (case jget (ns_seen c) (nonce_key topic nonce) of None \<Rightarrow> True | Some e \<Rightarrow> e < t)"
  using assms by (auto simp: checkAndRecord_def Let_def ns_sweep_get split: option.splits)

interpretation seen: replay_guard seen_guard
    "\<lambda>c k. map_option (\<lambda>e. e - ns_ttlMs c) (jget (ns_seen c) (nonce_key (fst k) (snd k)))"
    "\<lambda>c. ns_ttlMs c + 1" ns_invar
proof unfold_locales
  fix s t and k :: "string \<times> string"
  assume "fst (seen_guard t k s)"
  then show "map_option (\<lambda>e. e - ns_ttlMs (snd (seen_guard t k s)))
      (jget (ns_seen (snd (seen_guard t k s))) (nonce_key (fst k) (snd k))) = Some t"
    by (simp add: seen_guard_def checkAndRecord_def Let_def split: if_splits)
next
  fix s t t0 and k :: "string \<times> string"
  assume "ns_invar s" "map_option (\<lambda>e. e - ns_ttlMs s) (jget (ns_seen s) (nonce_key (fst k) (snd k))) = Some t0"
    "t - t0 < ns_ttlMs s + 1"
  then show "\<not> fst (seen_guard t k s)"
    by (auto simp: seen_guard_def checkAndRecord_result ns_invar_def)
next
  fix s t t0 and k k' :: "string \<times> string"
  assume a: "ns_invar s" "map_option (\<lambda>e. e - ns_ttlMs s) (jget (ns_seen s) (nonce_key (fst k) (snd k))) = Some t0"
    "t - t0 < ns_ttlMs s + 1"
  then have sw: "jget (ns_seen (ns_sweep t s)) (nonce_key (fst k) (snd k)) = Some (t0 + ns_ttlMs s)"
    by (auto simp: ns_sweep_get ns_invar_def)
  with a show "map_option (\<lambda>e. e - ns_ttlMs (snd (seen_guard t k' s)))
      (jget (ns_seen (snd (seen_guard t k' s))) (nonce_key (fst k) (snd k))) = Some t0"
    by (auto simp: seen_guard_def checkAndRecord_def Let_def)
next
  fix s t and k :: "string \<times> string"
  assume "ns_invar s"
  then show "ns_invar (snd (seen_guard t k s)) \<and> ns_ttlMs (snd (seen_guard t k s)) + 1 = ns_ttlMs s + 1"
    by (auto simp: seen_guard_def checkAndRecord_def ns_invar_def Let_def)
qed

text \<open>
  Within its retention time, a (topic, nonce) pair is accepted once: over any run of calls in
  time order, two acceptances of one pair are more than \<open>ttlMs\<close> apart, however many other nonces
  are recorded or swept in between.
\<close>

theorem notify_nonce_apart:
  assumes "ns_invar c" "sorted (map fst qs)"
  shows "sorted_wrt (\<lambda>t t'. t' - t > ns_ttlMs c) (accepted_at k (run_guard seen_guard qs c))"
  using seen.accepted_apart [OF assms, of k] by (simp add: add1_zle_eq)

theorem notify_nonce_apart_witness:
  "sorted_wrt (\<lambda>t t'. t' - t > ns_ttlMs (nonce_seen_new None))
     (accepted_at (''t'', ''n'') (run_guard seen_guard [(5, (''t'', ''n'')), (60000, (''t'', ''n''))] (nonce_seen_new None)))"
  by (rule notify_nonce_apart) (simp_all add: ns_invar_def nonce_seen_new_def)

text \<open>
  Topics do not interfere: as every validated topic is free of blanks, recording a nonce for one
  topic never changes the verdict on another topic or another nonce.
\<close>

theorem notify_nonce_independent:
  assumes wf: "ns_invar c" and "CHR '' '' \<notin> set topic" "CHR '' '' \<notin> set topic'"
    and diff: "(topic, nonce) \<noteq> (topic', nonce')" and later: "t \<le> now"
  shows "fst (checkAndRecord now topic' nonce' (snd (checkAndRecord t topic nonce c)))
    = fst (checkAndRecord now topic' nonce' c)"
proof -
  have key: "nonce_key topic nonce \<noteq> nonce_key topic' nonce'"
  proof
    assume "nonce_key topic nonce = nonce_key topic' nonce'"
    then have "takeWhile (\<lambda>x. x \<noteq> CHR '' '') (topic @ '' '' @ nonce) = takeWhile (\<lambda>x. x \<noteq> CHR '' '') (topic' @ '' '' @ nonce')"
      by (simp add: nonce_key_def)
    moreover have "takeWhile (\<lambda>x. x \<noteq> CHR '' '') (u @ '' '' @ v) = u" if "CHR '' '' \<notin> set u" for u v
      using that by (induction u) auto
    ultimately have "topic = topic'" using assms(2,3) by simp
    with diff \<open>nonce_key topic nonce = nonce_key topic' nonce'\<close> show False by (simp add: nonce_key_def)
  qed
  have wf': "wf_map (ns_seen (snd (checkAndRecord t topic nonce c)))"
    using wf by (simp add: checkAndRecord_def ns_invar_def Let_def)
  show ?thesis
    unfolding checkAndRecord_result [OF wf'] checkAndRecord_result [OF wf [unfolded ns_invar_def]]
    using key later wf by (auto simp: checkAndRecord_def ns_invar_def ns_sweep_get Let_def split: option.splits)
qed

theorem notify_nonce_independent_witness:
  "fst (checkAndRecord 6 ''b'' ''n'' (snd (checkAndRecord 5 ''a'' ''n'' (nonce_seen_new None))))
    = fst (checkAndRecord 6 ''b'' ''n'' (nonce_seen_new None))"
  by (rule notify_nonce_independent) (simp_all add: ns_invar_def nonce_seen_new_def)

text \<open>
  A private-topic proof can be replayed: proofs are fresh for sixty seconds on either side of
  their timestamp, two minutes in all, but nonces are kept for sixty seconds only. A proof stamped
  sixty seconds ahead is accepted, and accepted again just over sixty seconds later.
\<close>

theorem notify_proof_replayed:
  "let p = \<lparr>tp_timestamp = JNum (Fin 160000), tp_nonce = JStr ''n'', tp_signature = JStr ''sig''\<rparr>;
       gate = (\<lambda>now. notifyProofRejected (\<lambda>_. []) Some (\<lambda>_ _ _. Some True) now (Some ''key'') (JStr ''json'') ''topic''
                  (JObj [(''topic'', JStr ''topic'')]) p);
       (r1, c1) = gate 100000 (nonce_seen_new None);
       (r2, c2) = gate 130000 c1;
       (r3, c3) = gate 160001 c2
   in (r1, r2, r3) = (False, True, False)"
  by code_simp

end
