(* ===== verification/Push_Payload.thy ===== *)
theory Push_Payload
  imports Prelude
begin

text \<open>
  What \<open>lib/push.js\<close> puts on the wire: the contentless wake payload and its guard, the normalised
  alert copy of a realm, the APNs request frame, the Notify payload, and the verdicts on FCM and
  APNs responses.
\<close>

section \<open>Wake payloads\<close>

definition FORBIDDEN_WAKE_KEYS :: "string list" where
  "FORBIDDEN_WAKE_KEYS = [''sender'', ''from'', ''content'', ''blob'', ''msg_id'', ''msgId'', ''message'',
     ''payload'', ''to'', ''identity'', ''realm'', ''uak'']"

definition WAKE_ALERT_MAX_TEXT :: nat where "WAKE_ALERT_MAX_TEXT = 128"
definition WAKE_ALERT_MAX_ID :: nat where "WAKE_ALERT_MAX_ID = 64"
definition WAKE_ALERT_MAX_EXTRA :: nat where "WAKE_ALERT_MAX_EXTRA = 8"
definition WAKE_ALERT_DEFAULT_TITLE :: string where "WAKE_ALERT_DEFAULT_TITLE = ''New message''"

text \<open>The key that leaks, or the payload.\<close>

definition assertContentless :: "jsval \<Rightarrow> string + jsval" where
  "assertContentless payload = (let obj = js_or payload (JObj []) in
     case find (\<lambda>k. k \<in> set FORBIDDEN_WAKE_KEYS) (map fst (obj_fields obj)) of
       Some k \<Rightarrow> Inl k
     | None \<Rightarrow> Inr obj)"

definition wake_fields :: "jsval \<Rightarrow> (string \<times> jsval) list" where
  "wake_fields kind = [(''type'', JStr ''wake''), (''v'', JNum (Fin 1))]
     @ (if kind = JStr ''alert'' then [(''kind'', JStr ''alert'')] else [])"

definition buildWakePayload :: "jsval \<Rightarrow> string + jsval" where
  "buildWakePayload kind = assertContentless (JObj (wake_fields kind))"

section \<open>Alert copy\<close>

record wake_alert =
  wa_title :: string
  wa_body :: string
  wa_collapse_id :: string
  wa_thread_id :: string
  wa_extra :: "(string, string) jsmap"

definition clip :: "jsval \<Rightarrow> nat \<Rightarrow> string" where
  "clip v n = (if nullish v then [] else take n (to_string v))"

definition first_nonempty :: "string list \<Rightarrow> string" where
  "first_nonempty ss = (case find (\<lambda>s. s \<noteq> []) ss of Some s \<Rightarrow> s | None \<Rightarrow> [])"

definition extra_ok :: "string \<Rightarrow> jsval \<Rightarrow> bool" where
  "extra_ok k v \<longleftrightarrow> k \<noteq> ''aps'' \<and> k \<noteq> ''type'' \<and> k \<noteq> ''kind'' \<and> k \<notin> set FORBIDDEN_WAKE_KEYS
     \<and> (is_str v \<or> is_num v \<or> is_bool v)"

fun put_extras :: "(string \<times> jsval) list \<Rightarrow> (string, string) jsmap \<Rightarrow> (string, string) jsmap" where
  "put_extras [] out = out"
| "put_extras ((k, v) # kvs) out =
     put_extras kvs (if extra_ok k v then jset (take WAKE_ALERT_MAX_ID k) (clip v WAKE_ALERT_MAX_ID) out else out)"

definition normalizeWakeAlert :: "jsval \<Rightarrow> jsval \<Rightarrow> wake_alert" where
  "normalizeWakeAlert alert0 realm =
     (let alert = (if is_plain_obj alert0 then alert0 else JObj []);
          realmId = clip realm WAKE_ALERT_MAX_ID;
          extra = (if is_plain_obj (obj_get alert ''extra'') then obj_get alert ''extra'' else JObj [])
      in \<lparr>wa_title = first_nonempty [clip (obj_get alert ''title'') WAKE_ALERT_MAX_TEXT, WAKE_ALERT_DEFAULT_TITLE],
          wa_body = clip (obj_get alert ''body'') WAKE_ALERT_MAX_TEXT,
          wa_collapse_id = first_nonempty [clip (obj_get alert ''collapse_id'') WAKE_ALERT_MAX_ID, realmId, ''wake''],
          wa_thread_id = first_nonempty [clip (obj_get alert ''thread_id'') WAKE_ALERT_MAX_ID, realmId, ''wake''],
          wa_extra = put_extras (take WAKE_ALERT_MAX_EXTRA (obj_fields extra)) []\<rparr>)"

text \<open>The normalised record as the JavaScript object it is.\<close>

definition alert_obj :: "wake_alert \<Rightarrow> jsval" where
  "alert_obj a = JObj [(''title'', JStr (wa_title a)), (''body'', JStr (wa_body a)),
     (''collapse_id'', JStr (wa_collapse_id a)), (''thread_id'', JStr (wa_thread_id a)),
     (''extra'', JObj (map (\<lambda>(k, v). (k, JStr v)) (wa_extra a)))]"

section \<open>The APNs frame\<close>

record apns_frame =
  af_body :: jsval
  af_pushType :: string
  af_priority :: string
  af_expiration :: string
  af_collapseId :: "string option"

text \<open>\<open>obj[k] = v\<close> on a plain object.\<close>

definition obj_set :: "string \<Rightarrow> jsval \<Rightarrow> (string \<times> jsval) list \<Rightarrow> (string \<times> jsval) list" where
  "obj_set k v o1 = jset k v o1"

definition opt_member :: "string \<Rightarrow> jsval \<Rightarrow> (string \<times> jsval) list" where
  "opt_member k v = (if truthy v then [(k, JStr (to_string v))] else [])"

definition alert_frame :: "jsval \<Rightarrow> apns_frame" where
  "alert_frame alert =
     (let a = normalizeWakeAlert alert JNull;
          apsAlert = JObj ([(''title'', JStr (wa_title a))]
             @ (if wa_body a \<noteq> [] then [(''body'', JStr (wa_body a))] else []));
          frameObj = [(''aps'', JObj [(''alert'', apsAlert), (''sound'', JStr ''default''),
               (''mutable-content'', JNum (Fin 1)), (''content-available'', JNum (Fin 1)),
               (''thread-id'', JStr (wa_thread_id a))]),
             (''type'', JStr ''wake''), (''kind'', JStr ''alert'')]
      in \<lparr>af_body = JObj (fold (\<lambda>(k, v) o1. obj_set k (JStr v) o1) (wa_extra a) frameObj),
          af_pushType = ''alert'', af_priority = ''10'', af_expiration = ''0'',
          af_collapseId = Some (wa_collapse_id a)\<rparr>)"

definition background_frame :: apns_frame where
  "background_frame = \<lparr>af_body = JObj [(''aps'', JObj [(''content-available'', JNum (Fin 1))])],
     af_pushType = ''background'', af_priority = ''5'', af_expiration = ''0'', af_collapseId = None\<rparr>"

definition buildApnsFrame :: "jsval \<Rightarrow> jsval \<Rightarrow> apns_frame" where
  "buildApnsFrame payload0 alert =
     (let payload = js_or payload0 (JObj []); get = obj_get payload in
      if get ''type'' = JStr ''wake'' \<and> get ''kind'' = JStr ''alert'' then alert_frame alert
      else if \<not> (get ''wake'' \<noteq> JStr ''1'' \<and> get ''message'' \<noteq> JUndef) then background_frame
      else \<lparr>af_body = JObj ([(''aps'', JObj [(''alert'', JObj [
               (''title'', JStr (to_string (js_or (js_or (get ''title'') (get ''topic'')) (JStr [])))),
               (''body'', JStr (to_string (js_or (get ''message'') (JStr []))))]),
             (''sound'', JStr ''default''), (''mutable-content'', JNum (Fin 1))])]
          @ opt_member ''topic'' (get ''topic'') @ opt_member ''id'' (get ''id'')
          @ opt_member ''priority'' (get ''priority'') @ opt_member ''tags'' (get ''tags'')
          @ opt_member ''click'' (get ''click'') @ opt_member ''time'' (get ''time'')),
          af_pushType = ''alert'', af_priority = ''10'', af_expiration = ''0'', af_collapseId = None\<rparr>)"

section \<open>Notify payloads\<close>

definition NOTIFY_PUSH_MSG_MAX :: nat where "NOTIFY_PUSH_MSG_MAX = 1024"
definition NOTIFY_PUSH_TOTAL_MAX :: nat where "NOTIFY_PUSH_TOTAL_MAX = 3500"

text \<open>\<open>v && v.length\<close> for a value that is an array or a string.\<close>

fun has_length :: "jsval \<Rightarrow> bool" where
  "has_length (JArr vs) = (vs \<noteq> [])"
| "has_length (JStr s) = (s \<noteq> [])"
| "has_length v = (truthy v \<and> truthy (obj_get v ''length''))"

definition clipped_member :: "string \<Rightarrow> jsval \<Rightarrow> nat \<Rightarrow> (string \<times> string) list" where
  "clipped_member k v n = (if truthy v then [(k, take n (to_string v))] else [])"

definition plain_member :: "string \<Rightarrow> jsval \<Rightarrow> (string \<times> string) list" where
  "plain_member k v = (if truthy v then [(k, to_string v)] else [])"

text \<open>
  \<open>None\<close> is the TypeError of calling \<open>join\<close> on tags that have a length but are no array; every value
  of a payload is a string.
\<close>

definition buildNotifyPayload :: "jsval \<Rightarrow> string \<Rightarrow> (string \<times> string) list option" where
  "buildNotifyPayload msg0 mode =
     (let msg = js_or msg0 (JObj []); get = obj_get msg;
          base = [(''type'', ''notify''), (''v'', ''1''), (''topic'', to_string (js_or (get ''topic'') (JStr [])))]
            @ plain_member ''id'' (get ''id'')
      in if mode = ''content'' then
           (if has_length (get ''tags'') \<and> \<not> is_array (get ''tags'') then None
            else Some (base
              @ [(''message'', if nullish (get ''message'') then [] else take NOTIFY_PUSH_MSG_MAX (to_string (get ''message'')))]
              @ plain_member ''time'' (get ''time'')
              @ clipped_member ''title'' (get ''title'') 256
              @ plain_member ''priority'' (get ''priority'')
              @ (if has_length (get ''tags'') then [(''tags'', take 256 (to_string (get ''tags'')))] else [])
              @ clipped_member ''click'' (get ''click'') 512
              @ (if has_length (get ''actions'')
                 then [(''actions'', case json_stringify (get ''actions'') of None \<Rightarrow> [] | Some j \<Rightarrow> json_text j)] else [])))
         else Some (base @ [(''wake'', ''1'')]))"

definition payload_obj :: "(string \<times> string) list \<Rightarrow> jsval" where
  "payload_obj p = JObj (map (\<lambda>(k, v). (k, JStr v)) p)"

definition payload_bytes :: "(string \<times> string) list \<Rightarrow> nat" where
  "payload_bytes p = (case json_stringify (payload_obj p) of None \<Rightarrow> 0 | Some j \<Rightarrow> byte_length (json_text j))"

text \<open>The payload \<open>deliverNotifyPush\<close> sends: an oversized content payload with actions becomes a wake.\<close>

definition notify_push_payload :: "jsval \<Rightarrow> string \<Rightarrow> (string \<times> string) list option" where
  "notify_push_payload msg mode =
     (case buildNotifyPayload msg mode of
        None \<Rightarrow> None
      | Some p \<Rightarrow> if mode = ''content'' \<and> truthy msg \<and> has_length (obj_get msg ''actions'')
                    \<and> payload_bytes p > NOTIFY_PUSH_TOTAL_MAX
                 then buildNotifyPayload msg ''wake'' else Some p)"

section \<open>Provider verdicts\<close>

datatype send_result = SendOk | SendGone | SendAuth "string option" bool | SendFail

text \<open>\<open>parseFcmError\<close> on the parsed body: \<open>None\<close> is a body that is no JSON.\<close>

definition fcm_detail_code :: "jsval \<Rightarrow> jsval" where
  "fcm_detail_code details =
     (case details of
        JArr ds \<Rightarrow> (case find (\<lambda>d. truthy d \<and> truthy (obj_get d ''errorCode'')) ds of
            Some d \<Rightarrow> obj_get d ''errorCode'' | None \<Rightarrow> JNull)
      | _ \<Rightarrow> JNull)"

definition parseFcmError :: "jsval option \<Rightarrow> jsval \<times> jsval" where
  "parseFcmError body =
     (case body of
        None \<Rightarrow> (JNull, JNull)
      | Some p \<Rightarrow> (let err = (if truthy p then obj_get p ''error'' else p) in
          if \<not> truthy err then (JNull, JNull)
          else (js_or (obj_get err ''status'') JNull, fcm_detail_code (obj_get err ''details''))))"

definition classifyFcmResponse :: "nat \<Rightarrow> jsval option \<Rightarrow> send_result" where
  "classifyFcmResponse status body =
     (if 200 \<le> status \<and> status < 300 then SendOk
      else if status = 401 \<or> status = 403 then SendAuth None False
      else let (st, code) = parseFcmError body in
        if status = 404 then SendGone
        else if code = JStr ''UNREGISTERED'' then SendGone
        else if status = 400 \<and> (st = JStr ''INVALID_ARGUMENT'' \<or> code = JStr ''INVALID_ARGUMENT'' \<or> code = JStr ''UNREGISTERED'')
        then SendGone
        else SendFail)"

definition parseApnsReason :: "jsval option \<Rightarrow> jsval" where
  "parseApnsReason body =
     (case body of None \<Rightarrow> JNull
      | Some p \<Rightarrow> js_or (if truthy p then obj_get p ''reason'' else p) JNull)"

text \<open>\<open>status\<close> is \<open>None\<close> when the stream closed without a response.\<close>

definition classifyApnsResponse :: "nat option \<Rightarrow> jsval option \<Rightarrow> send_result" where
  "classifyApnsResponse status body =
     (case status of
        None \<Rightarrow> SendFail
      | Some st \<Rightarrow>
          if 200 \<le> st \<and> st < 300 then SendOk
          else let reason = parseApnsReason body in
            if st = 403 then SendAuth (if truthy reason then Some (to_string reason) else None)
                               (reason = JStr ''ExpiredProviderToken'')
            else if st = 410 then SendGone
            else if st = 400 \<and> (reason = JStr ''BadDeviceToken'' \<or> reason = JStr ''DeviceTokenNotForTopic'')
            then SendGone
            else SendFail)"

section \<open>Normalised alerts\<close>

lemma forbidden_short: "k \<in> set FORBIDDEN_WAKE_KEYS \<Longrightarrow> length k \<le> 8"
  by (auto simp: FORBIDDEN_WAKE_KEYS_def)

lemma first_nonempty_simps [simp]:
  "first_nonempty [] = []" "first_nonempty (s # ss) = (if s = [] then first_nonempty ss else s)"
  by (simp_all add: first_nonempty_def)

lemma clip_str [simp]: "clip (JStr s) n = take n s"
  by (simp add: clip_def nullish_def)

lemma extra_ok_take: "extra_ok k v \<Longrightarrow> is_str w \<Longrightarrow> extra_ok (take WAKE_ALERT_MAX_ID k) w"
proof -
  assume ok: "extra_ok k v" and w: "is_str w"
  show ?thesis
  proof (cases "length k \<le> 64")
    case True
    with ok w show ?thesis by (simp add: extra_ok_def WAKE_ALERT_MAX_ID_def)
  next
    case False
    then have len: "length (take WAKE_ALERT_MAX_ID k) = 64" by (simp add: WAKE_ALERT_MAX_ID_def)
    have "take WAKE_ALERT_MAX_ID k \<notin> set FORBIDDEN_WAKE_KEYS"
      using forbidden_short len by fastforce
    moreover have "take WAKE_ALERT_MAX_ID k \<notin> {''aps'', ''type'', ''kind''}" using len by (auto simp del: length_take)
    ultimately show ?thesis using w by (simp add: extra_ok_def)
  qed
qed

text \<open>What the extras of a normalised alert look like.\<close>

definition extras_ok :: "(string, string) jsmap \<Rightarrow> bool" where
  "extras_ok m \<longleftrightarrow> wf_map m \<and> length m \<le> WAKE_ALERT_MAX_EXTRA
     \<and> (\<forall>(k, v) \<in> set m. extra_ok k (JStr v) \<and> length k \<le> WAKE_ALERT_MAX_ID \<and> length v \<le> WAKE_ALERT_MAX_ID)"

lemma put_extras_set:
  "(k, v) \<in> set (put_extras kvs out) \<Longrightarrow> (k, v) \<in> set out \<or>
     (extra_ok k (JStr v) \<and> length k \<le> WAKE_ALERT_MAX_ID \<and> length v \<le> WAKE_ALERT_MAX_ID)"
proof (induction kvs out rule: put_extras.induct)
  case (2 k0 v0 kvs out)
  with set_jset_subset [of "take WAKE_ALERT_MAX_ID k0" "clip v0 WAKE_ALERT_MAX_ID" out] show ?case
    by (fastforce simp: clip_def extra_ok_take split: if_splits)
qed simp

lemma put_extras_wf: "wf_map out \<Longrightarrow> wf_map (put_extras kvs out)"
  by (induction kvs out rule: put_extras.induct) auto

lemma put_extras_length: "length (put_extras kvs out) \<le> length out + length kvs"
proof (induction kvs out rule: put_extras.induct)
  case (2 k v kvs out)
  have "length (jset k1 v1 out) \<le> Suc (length out)" for k1 :: string and v1
    by (simp add: length_jset split: option.split)
  with 2 show ?case by (auto intro: order_trans)
qed simp

lemma normalize_extras_ok: "extras_ok (wa_extra (normalizeWakeAlert alert realm))"
proof -
  have "extras_ok (put_extras (take WAKE_ALERT_MAX_EXTRA kvs) [])" for kvs
    using put_extras_length [of "take WAKE_ALERT_MAX_EXTRA kvs" "[]"] put_extras_set [of _ _ "take WAKE_ALERT_MAX_EXTRA kvs" "[]"]
    by (auto simp: extras_ok_def put_extras_wf)
  then show ?thesis by (simp add: normalizeWakeAlert_def Let_def)
qed

lemma put_extras_id:
  "wf_map (out @ m) \<Longrightarrow> \<forall>(k, v) \<in> set m. extra_ok k (JStr v) \<and> length k \<le> WAKE_ALERT_MAX_ID \<and> length v \<le> WAKE_ALERT_MAX_ID \<Longrightarrow>
   put_extras (map (\<lambda>(k, v). (k, JStr v)) m) out = out @ m"
proof (induction m arbitrary: out)
  case (Cons kv m)
  obtain k v where kv: "kv = (k, v)" by (cases kv)
  from Cons.prems(1) kv have "k \<notin> fst ` set out" by (auto simp: wf_map_def)
  then have "jset k v out = out @ [(k, v)]" by (rule jset_fresh)
  with Cons.IH [of "out @ [(k, v)]"] Cons.prems kv show ?case by simp
qed simp

text \<open>
  Normalising alert copy bounds every field, and is idempotent whatever realm it is repeated
  with: the frame builder, which normalises again without the realm, changes nothing.
\<close>

theorem normalizeWakeAlert_idem:
  "let a = normalizeWakeAlert alert realm in
   length (wa_title a) \<le> 128 \<and> wa_title a \<noteq> [] \<and> length (wa_body a) \<le> 128
   \<and> wa_collapse_id a \<noteq> [] \<and> length (wa_collapse_id a) \<le> 64 \<and> length (wa_thread_id a) \<le> 64
   \<and> length (wa_extra a) \<le> 8 \<and> normalizeWakeAlert (alert_obj a) realm' = a"
proof -
  define a where "a = normalizeWakeAlert alert realm"
  have clip_le: "length (clip v n) \<le> n" for v n by (simp add: clip_def)
  have bounds: "length (wa_title a) \<le> 128" "wa_title a \<noteq> []" "length (wa_body a) \<le> 128"
    "wa_collapse_id a \<noteq> []" "length (wa_collapse_id a) \<le> 64" "length (wa_thread_id a) \<le> 64" "wa_thread_id a \<noteq> []"
    using clip_le [of _ 128] clip_le [of _ 64]
    by (auto simp: a_def normalizeWakeAlert_def Let_def WAKE_ALERT_MAX_TEXT_def WAKE_ALERT_MAX_ID_def
        WAKE_ALERT_DEFAULT_TITLE_def)
  have ex: "extras_ok (wa_extra a)" unfolding a_def by (rule normalize_extras_ok)
  then have len: "length (wa_extra a) \<le> 8" by (simp add: extras_ok_def WAKE_ALERT_MAX_EXTRA_def)
  have "put_extras (map (\<lambda>(k, v). (k, JStr v)) (wa_extra a)) [] = wa_extra a"
    using ex put_extras_id [of "[]" "wa_extra a"] by (simp add: extras_ok_def)
  with len bounds have "normalizeWakeAlert (alert_obj a) realm' = a"
    by (cases a) (simp add: normalizeWakeAlert_def alert_obj_def Let_def WAKE_ALERT_MAX_TEXT_def
        WAKE_ALERT_MAX_ID_def WAKE_ALERT_MAX_EXTRA_def)
  with len bounds show ?thesis unfolding a_def [symmetric] Let_def by blast
qed

section \<open>Contentlessness\<close>

lemma fold_obj_set_get:
  "k \<notin> fst ` set kvs \<Longrightarrow> jget (fold (\<lambda>(k, v) o1. obj_set k (JStr v) o1) kvs o0) k = jget o0 k"
  by (induction kvs arbitrary: o0) (auto simp: obj_set_def)

lemma fold_obj_set_keys:
  "fst ` set (fold (\<lambda>(k, v) o1. obj_set k (JStr v) o1) kvs o0) = fst ` set o0 \<union> fst ` set kvs"
  by (induction kvs arbitrary: o0) (simp_all add: obj_set_def jset_keys split_beta)

text \<open>
  A sealed wake says nothing about the message: building it never fails, none of its keys is in
  the forbidden set, and the APNs frame made from it (silent or alert, with any realm copy) has no
  forbidden key either; the realm's extra markers cannot replace \<open>aps\<close>, \<open>type\<close> or \<open>kind\<close>.
\<close>

theorem wake_contentless:
  "\<exists>p. buildWakePayload kind = Inr p \<and> fst ` set (obj_fields p) \<inter> set FORBIDDEN_WAKE_KEYS = {}
     \<and> fst ` set (obj_fields (af_body (buildApnsFrame p alert))) \<inter> set FORBIDDEN_WAKE_KEYS = {}
     \<and> (kind = JStr ''alert'' \<longrightarrow> obj_get (af_body (buildApnsFrame p alert)) ''type'' = JStr ''wake''
          \<and> obj_get (af_body (buildApnsFrame p alert)) ''kind'' = JStr ''alert'')"
proof -
  let ?p = "JObj (wake_fields kind)" and ?a = "normalizeWakeAlert alert JNull"
  have b: "buildWakePayload kind = Inr ?p"
    by (simp add: buildWakePayload_def assertContentless_def js_or_def wake_fields_def FORBIDDEN_WAKE_KEYS_def)
  have keys: "fst ` set (obj_fields ?p) \<inter> set FORBIDDEN_WAKE_KEYS = {}"
    by (auto simp: wake_fields_def FORBIDDEN_WAKE_KEYS_def)
  have ex: "\<forall>k \<in> fst ` set (wa_extra ?a). k \<notin> set FORBIDDEN_WAKE_KEYS \<and> k \<noteq> ''type'' \<and> k \<noteq> ''kind''"
    using normalize_extras_ok [of alert JNull] by (auto simp: extras_ok_def extra_ok_def)
  show ?thesis
  proof (cases "kind = JStr ''alert''")
    case True
    then have f: "buildApnsFrame ?p alert = alert_frame alert"
      by (simp add: buildApnsFrame_def wake_fields_def js_or_def Let_def)
    have nk: "''type'' \<notin> fst ` set (wa_extra ?a)" "''kind'' \<notin> fst ` set (wa_extra ?a)" using ex by blast+
    have base: "{''aps'', ''type'', ''kind''} \<inter> set FORBIDDEN_WAKE_KEYS = {}"
      by (simp add: FORBIDDEN_WAKE_KEYS_def)
    have "fst ` set (obj_fields (af_body (alert_frame alert))) \<inter> set FORBIDDEN_WAKE_KEYS = {}"
      using ex base by (auto simp: alert_frame_def Let_def fold_obj_set_keys)
    moreover have "obj_get (af_body (alert_frame alert)) ''type'' = JStr ''wake''"
      "obj_get (af_body (alert_frame alert)) ''kind'' = JStr ''alert''"
      by (simp_all add: alert_frame_def Let_def fold_obj_set_get [OF nk(1)] fold_obj_set_get [OF nk(2)])
    ultimately show ?thesis using b keys f by auto
  next
    case False
    then have "buildApnsFrame ?p alert = background_frame"
      by (simp add: buildApnsFrame_def wake_fields_def js_or_def Let_def)
    with b keys False show ?thesis by (auto simp: background_frame_def FORBIDDEN_WAKE_KEYS_def)
  qed
qed

theorem wake_contentless_witness:
  "\<exists>p. buildWakePayload (JStr ''alert'') = Inr p
     \<and> obj_get (af_body (buildApnsFrame p (JObj [(''title'', JStr ''Ping'')]))) ''kind'' = JStr ''alert''"
  using wake_contentless [of "JStr ''alert''" "JObj [(''title'', JStr ''Ping'')]"] by blast

section \<open>Notify payloads and verdicts\<close>

lemma buildNotifyPayload_wake:
  "mode \<noteq> ''content'' \<Longrightarrow> buildNotifyPayload msg mode = buildNotifyPayload msg ''wake''"
  by (simp add: buildNotifyPayload_def Let_def)

lemma plain_member_keys: "fst ` set (plain_member k v) \<subseteq> {k}"
  by (auto simp: plain_member_def)

lemma buildNotifyPayload_wake_keys:
  "\<exists>p. buildNotifyPayload msg ''wake'' = Some p \<and> fst ` set p \<subseteq> {''type'', ''v'', ''topic'', ''id'', ''wake''}
     \<and> (''wake'', ''1'') \<in> set p"
  using plain_member_keys by (auto simp: buildNotifyPayload_def Let_def plain_member_def)

text \<open>
  A Notify push never carries broken buttons: what is sent is the content payload unchanged with
  all its actions within the size budget, or a contentless wake with no message, title or actions.
  A publish that did not opt in to content is always such a wake.
\<close>

theorem notify_push_budget:
  assumes sent: "notify_push_payload msg mode = Some p"
  shows "(mode = ''content'' \<and> buildNotifyPayload msg mode = Some p
            \<and> (truthy msg \<and> has_length (obj_get msg ''actions'') \<longrightarrow> payload_bytes p \<le> NOTIFY_PUSH_TOTAL_MAX))
    \<or> ((''wake'', ''1'') \<in> set p \<and> fst ` set p \<subseteq> {''type'', ''v'', ''topic'', ''id'', ''wake''})"
proof -
  obtain w where w: "buildNotifyPayload msg ''wake'' = Some w" "(''wake'', ''1'') \<in> set w"
    "fst ` set w \<subseteq> {''type'', ''v'', ''topic'', ''id'', ''wake''}"
    using buildNotifyPayload_wake_keys [of msg] by blast
  show ?thesis
  proof (cases "mode = ''content''")
    case True
    with sent w show ?thesis
      by (auto simp: notify_push_payload_def not_less split: option.splits if_split_asm)
  next
    case False
    with sent w buildNotifyPayload_wake [OF False, of msg] show ?thesis
      by (simp add: notify_push_payload_def)
  qed
qed

theorem notify_push_budget_witness:
  "(''wake'' = ''content'' \<and> buildNotifyPayload (JObj [(''topic'', JStr ''t''), (''message'', JStr ''secret'')]) ''wake''
       = Some [(''type'', ''notify''), (''v'', ''1''), (''topic'', ''t''), (''wake'', ''1'')]
     \<and> (truthy (JObj [(''topic'', JStr ''t''), (''message'', JStr ''secret'')])
          \<and> has_length (obj_get (JObj [(''topic'', JStr ''t''), (''message'', JStr ''secret'')]) ''actions'')
          \<longrightarrow> payload_bytes [(''type'', ''notify''), (''v'', ''1''), (''topic'', ''t''), (''wake'', ''1'')] \<le> NOTIFY_PUSH_TOTAL_MAX))
   \<or> ((''wake'', ''1'') \<in> set [(''type'', ''notify''), (''v'', ''1''), (''topic'', ''t''), (''wake'', ''1'')]
     \<and> fst ` set [(''type'', ''notify''), (''v'', ''1''), (''topic'', ''t''), (''wake'', ''1'')]
        \<subseteq> {''type'', ''v'', ''topic'', ''id'', ''wake''})"
  by (rule notify_push_budget)
    (simp add: notify_push_payload_def buildNotifyPayload_def js_or_def plain_member_def Let_def)

text \<open>
  A device token is only dropped on a verdict about the device: a credential failure of the
  broker (401 and 403 from FCM, 403 from APNs), throttling or a server error without an explicit
  device verdict never marks an endpoint as gone.
\<close>

theorem provider_verdicts:
  "(classifyFcmResponse st body = SendGone \<longrightarrow> st \<noteq> 401 \<and> st \<noteq> 403 \<and>
      (st = 404 \<or> snd (parseFcmError body) = JStr ''UNREGISTERED''
       \<or> st = 400 \<and> JStr ''INVALID_ARGUMENT'' \<in> {fst (parseFcmError body), snd (parseFcmError body)}))
   \<and> (classifyApnsResponse ast body = SendGone \<longrightarrow> ast = Some 410
       \<or> ast = Some 400 \<and> parseApnsReason body \<in> {JStr ''BadDeviceToken'', JStr ''DeviceTokenNotForTopic''})
   \<and> (classifyFcmResponse st body = SendOk \<longleftrightarrow> 200 \<le> st \<and> st < 300)
   \<and> (classifyApnsResponse ast body = SendOk \<longleftrightarrow> (\<exists>n. ast = Some n \<and> 200 \<le> n \<and> n < 300))"
  by (auto simp: classifyFcmResponse_def classifyApnsResponse_def Let_def split_beta split: if_split_asm option.splits)

theorem provider_verdicts_witness:
  "(classifyFcmResponse 403 None = SendGone \<longrightarrow> (403 :: nat) \<noteq> 401 \<and> (403 :: nat) \<noteq> 403 \<and>
      ((403 :: nat) = 404 \<or> snd (parseFcmError None) = JStr ''UNREGISTERED''
       \<or> (403 :: nat) = 400 \<and> JStr ''INVALID_ARGUMENT'' \<in> {fst (parseFcmError None), snd (parseFcmError None)}))
   \<and> classifyApnsResponse (Some 200) None = SendOk"
  using provider_verdicts [of 403 None "Some 200"] by simp

text \<open>
  FCM answers that the documentation of the transport calls dead are retained: a 410, even with
  \<open>error.status\<close> \<open>UNREGISTERED\<close>, is classified as transient, because only the detail error code and
  the status 404 are looked at.
\<close>

theorem fcm_gone_retained:
  "classifyFcmResponse 410 (Some (JObj [(''error'', JObj [(''status'', JStr ''UNREGISTERED'')])])) = SendFail
   \<and> classifyFcmResponse 410 (Some (JObj [])) = SendFail"
  by (simp add: classifyFcmResponse_def parseFcmError_def fcm_detail_code_def js_or_def Let_def)

end
