(* ===== verification/Push_Guard.thy ===== *)
theory Push_Guard
  imports Prelude
begin

unbundle bit_operations_syntax

text \<open>
  The SSRF guard of \<open>lib/push.js\<close>: the broker posts to URLs that clients register, so every address
  such a URL resolves to is parsed and classified first. Octets are 8-bit words, the hextets of an
  IPv6 literal 32-bit words as in JavaScript's bit operations. URL parsing, \<open>net.isIP\<close> for IPv6 and
  the resolver are parameters.
\<close>

section \<open>Parsing addresses\<close>

type_synonym octet = "8 word"

text \<open>\<open>/^\d{1,3}$/\<close>\<close>

definition short_dec :: "string \<Rightarrow> bool" where
  "short_dec s \<longleftrightarrow> all_digits s \<and> length s \<le> 3"

fun parse_octets :: "string list \<Rightarrow> octet list option" where
  "parse_octets [] = Some []"
| "parse_octets (p # ps) =
     (if \<not> short_dec p then None
      else if read_dec p > 255 then None
      else map_option ((#) (of_nat (read_dec p))) (parse_octets ps))"

definition parseIPv4 :: "string \<Rightarrow> octet list option" where
  "parseIPv4 s = (let parts = split_on (CHR ''.'') s in
     if length parts \<noteq> 4 then None else parse_octets parts)"

text \<open>\<open>n.toString(16)\<close>\<close>

definition hex_char :: "nat \<Rightarrow> char" where
  "hex_char d = char_of (if d < 10 then 48 + d else 87 + d)"

fun show_hex :: "nat \<Rightarrow> string" where
  "show_hex n = (if n < 16 then [hex_char n] else show_hex (n div 16) @ [hex_char (n mod 16)])"

declare show_hex.simps [simp del]

definition hex_val :: "string \<Rightarrow> nat" where
  "hex_val = foldl (\<lambda>acc c. 16 * acc + radix_digit c) 0"

text \<open>\<open>/^[0-9a-fA-F]{1,4}$/\<close>\<close>

definition short_hex :: "string \<Rightarrow> bool" where
  "short_hex s \<longleftrightarrow> s \<noteq> [] \<and> length s \<le> 4 \<and> list_all (\<lambda>c. radix_digit c < 16) s"

text \<open>\<open>s.split('::')\<close>\<close>

fun split_dcolon :: "string \<Rightarrow> string list" where
  "split_dcolon [] = [[]]"
| "split_dcolon [c] = [[c]]"
| "split_dcolon (c # d # r) =
     (if c = CHR '':'' \<and> d = CHR '':'' then [] # split_dcolon r
      else (case split_dcolon (d # r) of [] \<Rightarrow> [[c]] | p # ps \<Rightarrow> (c # p) # ps))"

fun parse_hextets :: "string list \<Rightarrow> 32 word list option" where
  "parse_hextets [] = Some []"
| "parse_hextets (p # ps) =
     (if \<not> short_hex p then None else map_option ((#) (of_nat (hex_val p))) (parse_hextets ps))"

definition toWords :: "string \<Rightarrow> 32 word list option" where
  "toWords part = (if part = [] then Some [] else parse_hextets (split_on (CHR '':'') part))"

definition strip_zone :: "string \<Rightarrow> string" where
  "strip_zone s = takeWhile (\<lambda>c. c \<noteq> CHR ''%'') s"

text \<open>A trailing dotted quad is rewritten to two hextets; \<open>None\<close> when it is malformed.\<close>

definition fold_v4 :: "string \<Rightarrow> string option" where
  "fold_v4 s =
     (if CHR ''.'' \<notin> set s then Some s
      else if CHR '':'' \<notin> set s then None
      else let tail = rev (takeWhile (\<lambda>c. c \<noteq> CHR '':'') (rev s));
               front = rev (dropWhile (\<lambda>c. c \<noteq> CHR '':'') (rev s))
           in case parseIPv4 tail of
                Some [a, b, c, d] \<Rightarrow>
                  Some (front @ show_hex (unat (push_bit 8 (ucast a) OR ucast b :: 32 word))
                    @ '':'' @ show_hex (unat (push_bit 8 (ucast c) OR ucast d :: 32 word)))
              | _ \<Rightarrow> None)"

definition word_bytes :: "32 word \<Rightarrow> octet list" where
  "word_bytes w = [ucast (drop_bit 8 w AND 0xff), ucast (w AND 0xff)]"

definition parseIPv6 :: "string \<Rightarrow> octet list option" where
  "parseIPv6 str =
     (case fold_v4 (strip_zone str) of
        None \<Rightarrow> None
      | Some s \<Rightarrow>
          (let words = (case split_dcolon s of
              [h] \<Rightarrow> toWords h
            | [h, t] \<Rightarrow> (case (toWords h, toWords t) of
                (Some hw, Some tw) \<Rightarrow> if length hw + length tw > 8 then None
                  else Some (hw @ replicate (8 - length hw - length tw) 0 @ tw)
              | _ \<Rightarrow> None)
            | _ \<Rightarrow> None)
           in case words of
                None \<Rightarrow> None
              | Some ws \<Rightarrow> if length ws \<noteq> 8 then None else Some (concat (map word_bytes ws))))"

section \<open>Classification\<close>

datatype addr_class = Loopback | Blocked | Public

definition classifyV4 :: "octet \<Rightarrow> octet \<Rightarrow> octet \<Rightarrow> octet \<Rightarrow> addr_class" where
  "classifyV4 a b c d =
     (if a = 127 then Loopback
      else if a = 0 then Blocked
      else if a = 10 then Blocked
      else if a = 169 \<and> b = 254 then Blocked
      else if a = 172 \<and> b \<ge> 16 \<and> b \<le> 31 then Blocked
      else if a = 192 \<and> b = 168 then Blocked
      else Public)"

definition classify_quad :: "octet list \<Rightarrow> addr_class" where
  "classify_quad q = (case q of [a, b, c, d] \<Rightarrow> classifyV4 a b c d | _ \<Rightarrow> Blocked)"

text \<open>The decisions of \<open>classifyAddress\<close> on the 16 bytes of an IPv6 address, in order.\<close>

definition classifyV6 :: "octet list \<Rightarrow> addr_class" where
  "classifyV6 bs =
     (if take 10 bs = replicate 10 0 \<and> bs ! 10 = 0xff \<and> bs ! 11 = 0xff then classify_quad (drop 12 bs)
      else if take 4 bs = [0, 0x64, 0xff, 0x9b] \<and> take 8 (drop 4 bs) = replicate 8 0
      then classify_quad (drop 12 bs)
      else if bs ! 0 = 0x20 \<and> bs ! 1 = 0x02 then classify_quad (take 4 (drop 2 bs))
      else if take 12 bs = replicate 12 0 \<and> (bs ! 12 OR bs ! 13 OR bs ! 14 OR bs ! 15) \<noteq> 0
              \<and> drop 12 bs \<noteq> [0, 0, 0, 1]
      then classify_quad (drop 12 bs)
      else if take 15 bs = replicate 15 0 \<and> bs ! 15 = 1 then Loopback
      else if bs = replicate 16 0 then Blocked
      else if (bs ! 0 AND 0xfe) = 0xfc then Blocked
      else if bs ! 0 = 0xfe \<and> (bs ! 1 AND 0xc0) = 0x80 then Blocked
      else if (bs ! 0 AND 0xe0) = 0x20 then Public
      else Blocked)"

text \<open>\<open>net.isIPv4\<close>: four decimal numbers up to 255 without leading zeros.\<close>

definition net_isIPv4 :: "string \<Rightarrow> bool" where
  "net_isIPv4 s \<longleftrightarrow> (let parts = split_on (CHR ''.'') s in length parts = 4
     \<and> list_all (\<lambda>p. short_dec p \<and> read_dec p \<le> 255 \<and> p = show_nat (read_dec p)) parts)"

definition classifyAddress :: "string \<Rightarrow> nat option \<Rightarrow> addr_class" where
  "classifyAddress addr family =
     (if family = Some 4 \<or> net_isIPv4 addr
      then (case parseIPv4 addr of None \<Rightarrow> Blocked | Some q \<Rightarrow> classify_quad q)
      else (case parseIPv6 addr of None \<Rightarrow> Blocked | Some bs \<Rightarrow> classifyV6 bs))"

section \<open>The URL check\<close>

definition stripBrackets :: "string \<Rightarrow> string" where
  "stripBrackets host =
     (if length host > 1 \<and> hd host = CHR ''['' \<and> last host = CHR '']'' then butlast (tl host) else host)"

record url =
  u_protocol :: string
  u_username :: string
  u_password :: string
  u_hostname :: string

record net_env =
  parse_url :: "string \<Rightarrow> url option"
  isIPv6 :: "string \<Rightarrow> bool"
  dns_lookup :: "string \<Rightarrow> (string \<times> nat) list option"

datatype url_check = SafeUrl string | UnsafeUrl string

definition PUSH_MAX_TOKEN_LENGTH :: nat where "PUSH_MAX_TOKEN_LENGTH = 4096"

text \<open>The loop over the resolved addresses: whether a public one was seen, or the refusal.\<close>

fun check_addrs :: "bool \<Rightarrow> (string \<times> nat) list \<Rightarrow> bool \<Rightarrow> string + bool" where
  "check_addrs allowLocal [] sawPublic = Inr sawPublic"
| "check_addrs allowLocal ((addr, fam) # rest) sawPublic =
     (case classifyAddress addr (Some fam) of
        Blocked \<Rightarrow> Inl ''blocked-address''
      | Loopback \<Rightarrow> if \<not> allowLocal then Inl ''loopback'' else check_addrs allowLocal rest sawPublic
      | Public \<Rightarrow> check_addrs allowLocal rest True)"

definition net_isIP :: "net_env \<Rightarrow> string \<Rightarrow> nat" where
  "net_isIP env host = (if net_isIPv4 host then 4 else if isIPv6 env host then 6 else 0)"

definition resolve_host :: "net_env \<Rightarrow> string \<Rightarrow> string + (string \<times> nat) list" where
  "resolve_host env host =
     (if net_isIP env host \<noteq> 0 then Inr [(host, net_isIP env host)]
      else (case dns_lookup env host of
          None \<Rightarrow> Inl ''dns-failed''
        | Some addrs \<Rightarrow> if addrs = [] then Inl ''dns-empty'' else Inr addrs))"

definition isSafePushUrl :: "net_env \<Rightarrow> bool \<Rightarrow> jsval \<Rightarrow> url_check" where
  "isSafePushUrl env allowLocal rawUrl =
     (case rawUrl of
        JStr raw \<Rightarrow>
          if raw = [] then UnsafeUrl ''empty''
          else if length raw > PUSH_MAX_TOKEN_LENGTH then UnsafeUrl ''too-long''
          else (case parse_url env raw of
              None \<Rightarrow> UnsafeUrl ''invalid-url''
            | Some u \<Rightarrow>
                if u_username u \<noteq> [] \<or> u_password u \<noteq> [] then UnsafeUrl ''credentials-in-url''
                else if u_protocol u \<noteq> ''https:'' \<and> u_protocol u \<noteq> ''http:'' then UnsafeUrl ''bad-scheme''
                else if u_protocol u = ''http:'' \<and> \<not> allowLocal then UnsafeUrl ''http-forbidden''
                else let host = stripBrackets (u_hostname u) in
                  if host = [] then UnsafeUrl ''no-host''
                  else (case resolve_host env host of
                      Inl r \<Rightarrow> UnsafeUrl r
                    | Inr addrs \<Rightarrow> (case check_addrs allowLocal addrs False of
                        Inl r \<Rightarrow> UnsafeUrl r
                      | Inr sawPublic \<Rightarrow> if u_protocol u = ''http:'' \<and> sawPublic
                          then UnsafeUrl ''http-non-local'' else SafeUrl host)))
      | _ \<Rightarrow> UnsafeUrl ''empty'')"

text \<open>The resolver the connection itself uses: \<open>Some\<close> the addresses, or refused.\<close>

definition guardedLookup :: "net_env \<Rightarrow> bool \<Rightarrow> string \<Rightarrow> (string \<times> nat) list option" where
  "guardedLookup env allowLocal hostname =
     (case dns_lookup env hostname of
        None \<Rightarrow> None
      | Some addrs \<Rightarrow>
          if list_ex (\<lambda>(a, f). let c = classifyAddress a (Some f) in c = Blocked \<or> c = Loopback \<and> \<not> allowLocal) addrs
          then None else Some addrs)"

section \<open>Printing and parsing\<close>

definition show_v4 :: "octet \<Rightarrow> octet \<Rightarrow> octet \<Rightarrow> octet \<Rightarrow> string" where
  "show_v4 a b c d = join_with ''.'' (map (\<lambda>o1. show_nat (unat o1)) [a, b, c, d])"

lemma unat_octet: "unat (a :: octet) \<le> 255"
  using unsigned_less [of a] by (simp add: less_Suc_eq_le [symmetric] del: unsigned_less)

lemma show_nat_short: "n \<le> 255 \<Longrightarrow> length (show_nat n) \<le> 3"
proof -
  assume "n \<le> 255"
  have "length (show_nat m) \<le> 1" if "m < 10" for m using that by (subst show_nat.simps) simp
  then have two: "length (show_nat m) \<le> 2" if "m < 100" for m
    using that by (subst show_nat.simps) (simp add: div_less_iff_less_mult less_Suc_eq_le)
  show ?thesis
    using two [of "n div 10"] \<open>n \<le> 255\<close> by (subst show_nat.simps) auto
qed

lemma show_nat_no: "\<not> is_digit c \<Longrightarrow> c \<notin> set (show_nat n)"
  using show_nat_digits by blast

lemma short_dec_show [simp]: "n \<le> 255 \<Longrightarrow> short_dec (show_nat n)"
  by (auto simp: short_dec_def all_digits_def show_nat_short list_all_iff dest: show_nat_digits)

lemma parse_octets_show:
  "parse_octets (map (\<lambda>o1. show_nat (unat o1)) os) = Some os"
  by (induction os) (auto simp: unat_octet read_dec_show_nat not_less)

lemma split_show_v4: "split_on (CHR ''.'') (show_v4 a b c d) = map (\<lambda>o1. show_nat (unat o1)) [a, b, c, d]"
  unfolding show_v4_def
  by (rule split_join_with) (auto simp: is_digit_def dest: show_nat_digits)

lemma parseIPv4_show: "parseIPv4 (show_v4 a b c d) = Some [a, b, c, d]"
  using parse_octets_show [of "[a, b, c, d]"] by (simp add: parseIPv4_def split_show_v4 Let_def)

lemma show_v4_chars: "x \<in> set (show_v4 a b c d) \<Longrightarrow> is_digit x \<or> x = CHR ''.''"
  by (auto simp: show_v4_def dest: show_nat_digits)

lemma of_hex_char: "d < 16 \<Longrightarrow> of_char (hex_char d) = (if d < 10 then 48 + d else 87 + d :: nat)"
  by (simp add: hex_char_def)

lemma radix_hex_char: "d < 16 \<Longrightarrow> radix_digit (hex_char d) = d"
proof -
  assume d: "d < 16"
  have "lower_char (hex_char d) = hex_char d"
    using d by (simp add: lower_char_def Let_def of_hex_char)
  then show ?thesis using d by (simp add: radix_digit_def Let_def of_hex_char)
qed

lemma hex_val_snoc: "hex_val (s @ [c]) = 16 * hex_val s + radix_digit c"
  by (simp add: hex_val_def)

lemma hex_val_show: "hex_val (show_hex n) = n"
proof (induction n rule: show_hex.induct)
  case (1 n)
  show ?case
  proof (cases "n < 16")
    case True
    then show ?thesis by (subst show_hex.simps) (simp add: hex_val_def radix_hex_char)
  next
    case False
    with 1 show ?thesis
      by (subst show_hex.simps) (simp only: hex_val_snoc if_False, simp add: radix_hex_char)
  qed
qed

lemma show_hex_digits: "list_all (\<lambda>c. radix_digit c < 16) (show_hex n) \<and> show_hex n \<noteq> []"
proof (induction n rule: show_hex.induct)
  case (1 n)
  then show ?case by (cases "n < 16") (subst show_hex.simps, simp add: radix_hex_char)+
qed

lemma show_hex_length: "n < 16 ^ k \<Longrightarrow> 0 < k \<Longrightarrow> length (show_hex n) \<le> k"
proof (induction k arbitrary: n)
  case (Suc k)
  show ?case
  proof (cases "n < 16")
    case True
    then show ?thesis by (subst show_hex.simps) simp
  next
    case False
    with Suc.prems have "n div 16 < 16 ^ k" "0 < k"
      by (auto simp: div_less_iff_less_mult mult.commute intro: Nat.gr0I)
    with Suc.IH False show ?thesis by (subst show_hex.simps) simp
  qed
qed simp

lemma show_hex_no: "radix_digit c \<ge> 16 \<Longrightarrow> c \<notin> set (show_hex n)"
  using show_hex_digits [of n] by (auto simp: list_all_iff)

lemma radix_sep [simp]: "radix_digit CHR '':'' = 99" "radix_digit CHR ''.'' = 99" "radix_digit CHR ''%'' = 99"
  by (simp_all add: radix_digit_def lower_char_def)

lemma short_hex_show: "n < 65536 \<Longrightarrow> short_hex (show_hex n)"
  using show_hex_digits [of n] show_hex_length [of n 4] by (simp add: short_hex_def)

lemma parse_hextets_show:
  "\<forall>n \<in> set ns. n < 65536 \<Longrightarrow> parse_hextets (map show_hex ns) = Some (map of_nat ns)"
  by (induction ns) (simp_all add: short_hex_show hex_val_show)

lemma toWords_show:
  assumes "ns \<noteq> []" "\<forall>n \<in> set ns. n < 65536"
  shows "toWords (join_with '':'' (map show_hex ns)) = Some (map of_nat ns)"
proof -
  have sp: "split_on (CHR '':'') (join_with '':'' (map show_hex ns)) = map show_hex ns"
    using assms(1) by (intro split_join_with) (auto intro!: show_hex_no)
  moreover have "join_with '':'' (map show_hex ns) \<noteq> []"
    using assms(1) show_hex_digits by (cases ns; cases "tl ns") auto
  ultimately show ?thesis using assms by (simp add: toWords_def parse_hextets_show)
qed

text \<open>Text without two adjacent colons is not split at \<open>'::'\<close>.\<close>

lemma split_dcolon_cons:
  "c \<noteq> CHR '':'' \<Longrightarrow> split_dcolon (c # s) = (case split_dcolon s of [] \<Rightarrow> [[c]] | p # ps \<Rightarrow> (c # p) # ps)"
  by (cases s) simp_all

lemma split_dcolon_nonempty [simp]: "split_dcolon s \<noteq> []"
  by (induction s rule: split_dcolon.induct) (auto split: list.splits)

lemma split_dcolon_append:
  "CHR '':'' \<notin> set a \<Longrightarrow> split_dcolon (a @ s) = (a @ hd (split_dcolon s)) # tl (split_dcolon s)"
  by (induction a) (auto simp: split_dcolon_cons split: list.splits)

lemma split_dcolon_plain: "CHR '':'' \<notin> set a \<Longrightarrow> split_dcolon a = [a]"
  using split_dcolon_append [of a "[]"] by simp

lemma split_dcolon_sep:
  "a \<noteq> [] \<Longrightarrow> hd a \<noteq> CHR '':'' \<Longrightarrow>
   split_dcolon (CHR '':'' # a) = (CHR '':'' # hd (split_dcolon a)) # tl (split_dcolon a)"
  by (cases a; cases "split_dcolon a") auto

lemma split_dcolon_join:
  "ps \<noteq> [] \<Longrightarrow> \<forall>p \<in> set ps. p \<noteq> [] \<and> CHR '':'' \<notin> set p \<Longrightarrow>
   split_dcolon (join_with '':'' ps) = [join_with '':'' ps]"
proof (induction ps rule: induct_list012)
  case (3 p q ps)
  let ?r = "join_with '':'' (q # ps)"
  have ih: "split_dcolon ?r = [?r]" using 3 by simp
  have "?r \<noteq> [] \<and> hd ?r \<noteq> CHR '':''" using 3(4) by (cases ps; cases q) auto
  with ih have "split_dcolon (CHR '':'' # ?r) = [CHR '':'' # ?r]" by (simp add: split_dcolon_sep)
  with 3(4) show ?case by (simp add: split_dcolon_append)
qed (simp_all add: split_dcolon_plain)

section \<open>Words and bytes\<close>

definition hextet :: "octet \<Rightarrow> octet \<Rightarrow> 32 word" where
  "hextet a b = push_bit 8 (ucast a) OR ucast b"

lemma ff_mask: "(0xff :: 32 word) = mask 8"
  by (simp add: mask_eq_exp_minus_1)

lemma word_bytes_hextet: "word_bytes (hextet a b) = [a, b]"
proof -
  have "ucast (drop_bit 8 (hextet a b) AND 0xff) = a"
    by (rule bit_word_eqI) (auto simp: hextet_def ff_mask bit_simps dest: bit_imp_le_length)
  moreover have "ucast (hextet a b AND 0xff) = b"
    by (rule bit_word_eqI) (auto simp: hextet_def ff_mask bit_simps dest: bit_imp_le_length)
  ultimately show ?thesis by (simp add: word_bytes_def)
qed

lemma unat_hextet: "unat (hextet a b) < 65536"
proof -
  have "hextet a b = take_bit 16 (hextet a b)"
    by (rule bit_word_eqI) (auto simp: hextet_def bit_simps dest: bit_imp_le_length)
  then have "unat (hextet a b) = take_bit 16 (unat (hextet a b))"
    by (metis unsigned_take_bit_eq)
  also have "\<dots> < 2 ^ 16" by (rule take_bit_nat_less_exp)
  finally show ?thesis by simp
qed

lemma hextet_ff: "(0xffff :: 32 word) = hextet 0xff 0xff" "(0 :: 32 word) = hextet 0 0"
  by (simp_all add: hextet_def)

section \<open>IPv6 literals\<close>

abbreviation hexes :: "nat list \<Rightarrow> string" where
  "hexes ns \<equiv> join_with '':'' (map show_hex ns)"

lemma hexes_chars: "c \<in> set (hexes ns) \<Longrightarrow> radix_digit c < 16 \<or> c = CHR '':''"
proof (induction ns rule: induct_list012)
  case (2 n)
  then show ?case using show_hex_digits [of n] by (auto simp: list_all_iff)
next
  case (3 n m ns)
  then show ?case using show_hex_digits [of n] by (auto simp: list_all_iff)
qed simp

lemma hexes_plain: "CHR ''.'' \<notin> set (hexes ns)" "CHR ''%'' \<notin> set (hexes ns)"
  by (auto dest: hexes_chars)

lemma strip_zone_plain: "CHR ''%'' \<notin> set s \<Longrightarrow> strip_zone s = s"
  unfolding strip_zone_def by (rule takeWhile_eq_all_conv [THEN iffD2]) auto

lemma toWords_hexes: "\<forall>n \<in> set ns. n < 65536 \<Longrightarrow> toWords (hexes ns) = Some (map of_nat ns)"
  by (cases "ns = []") (simp_all add: toWords_show, simp add: toWords_def)

lemma split_dcolon_hexes: "ns \<noteq> [] \<Longrightarrow> split_dcolon (hexes ns) = [hexes ns]"
  using show_hex_digits by (intro split_dcolon_join) (auto simp: show_hex_no)

text \<open>One \<open>'::'\<close> between two groups of hextets.\<close>

lemma split_dcolon_gap_join:
  "ps \<noteq> [] \<Longrightarrow> \<forall>p \<in> set ps. p \<noteq> [] \<and> CHR '':'' \<notin> set p \<Longrightarrow>
   split_dcolon (join_with '':'' ps @ ''::'' @ t) = join_with '':'' ps # split_dcolon t"
proof (induction ps rule: induct_list012)
  case (2 p)
  then show ?case by (simp add: split_dcolon_append)
next
  case (3 p q ps)
  let ?r = "join_with '':'' (q # ps) @ ''::'' @ t"
  have ih: "split_dcolon ?r = join_with '':'' (q # ps) # split_dcolon t" using 3 by simp
  have "?r \<noteq> [] \<and> hd ?r \<noteq> CHR '':''" using 3(4) by (cases ps; cases q) auto
  with ih have "split_dcolon (CHR '':'' # ?r) = (CHR '':'' # join_with '':'' (q # ps)) # split_dcolon t"
    by (simp add: split_dcolon_sep)
  with 3(4) show ?case by (simp add: split_dcolon_append)
qed simp

lemma split_dcolon_gap:
  "split_dcolon (hexes hs @ ''::'' @ hexes ts) = [hexes hs, hexes ts]"
proof -
  have t: "split_dcolon (hexes ts) = [hexes ts]"
    by (cases "ts = []") (simp_all add: split_dcolon_hexes)
  show ?thesis
  proof (cases "hs = []")
    case True
    with t show ?thesis by simp
  next
    case False
    with t show ?thesis
      using show_hex_digits by (subst split_dcolon_gap_join) (auto simp: show_hex_no)
  qed
qed

lemma parse_compressed:
  assumes hs: "\<forall>n \<in> set hs. n < 65536" and ts: "\<forall>n \<in> set ts. n < 65536"
    and len: "length hs + length ts \<le> 8" and fold: "fold_v4 (strip_zone str) = Some (hexes hs @ ''::'' @ hexes ts)"
  shows "parseIPv6 str = Some (concat (map word_bytes
    (map of_nat hs @ replicate (8 - length hs - length ts) 0 @ map of_nat ts)))"
  unfolding parseIPv6_def fold option.case Let_def split_dcolon_gap list.case
    toWords_hexes [OF hs] toWords_hexes [OF ts] prod.case
  using len by simp

lemma parse_full:
  assumes hs: "\<forall>n \<in> set hs. n < 65536" and len: "length hs = 8"
  shows "parseIPv6 (hexes hs) = Some (concat (map word_bytes (map of_nat hs)))"
proof -
  have f: "fold_v4 (strip_zone (hexes hs)) = Some (hexes hs)"
    by (simp add: strip_zone_plain hexes_plain fold_v4_def)
  from len have "hs \<noteq> []" by auto
  then show ?thesis
    unfolding parseIPv6_def f option.case Let_def split_dcolon_hexes [OF \<open>hs \<noteq> []\<close>] list.case toWords_hexes [OF hs]
    using len by simp
qed

lemma fold_v4_embedded:
  assumes "CHR ''%'' \<notin> set pre"
  shows "fold_v4 (strip_zone (pre @ '':'' @ show_v4 a b c d))
    = Some (pre @ '':'' @ hexes [unat (hextet a b), unat (hextet c d)])"
proof -
  let ?s = "pre @ '':'' @ show_v4 a b c d" and ?v = "show_v4 a b c d"
  have v: "CHR '':'' \<notin> set ?v" "CHR ''%'' \<notin> set ?v"
    by (auto simp: is_digit_def dest!: show_v4_chars)
  have dot: "CHR ''.'' \<in> set ?s" by (simp add: show_v4_def)
  have z: "strip_zone ?s = ?s" using assms v by (intro strip_zone_plain) auto
  have all: "\<forall>x \<in> set (rev ?v). x \<noteq> CHR '':''" using v by auto
  have tw: "takeWhile (\<lambda>c. c \<noteq> CHR '':'') (rev ?s) = rev ?v"
    using takeWhile_append2 [of "rev ?v" "\<lambda>c. c \<noteq> CHR '':''" "CHR '':'' # rev pre"] all by simp
  have dw: "dropWhile (\<lambda>c. c \<noteq> CHR '':'') (rev ?s) = CHR '':'' # rev pre"
    using dropWhile_append2 [of "rev ?v" "\<lambda>c. c \<noteq> CHR '':''" "CHR '':'' # rev pre"] all by simp
  show ?thesis
    unfolding z fold_v4_def Let_def tw dw rev_rev_ident parseIPv4_show
    using dot by (simp add: hextet_def)
qed

section \<open>Properties of the classifier\<close>

definition v4_value :: "octet \<Rightarrow> octet \<Rightarrow> octet \<Rightarrow> octet \<Rightarrow> nat" where
  "v4_value a b c d = 2 ^ 24 * unat a + 2 ^ 16 * unat b + 2 ^ 8 * unat c + unat d"

definition in_cidr :: "nat \<Rightarrow> nat \<times> nat \<Rightarrow> bool" where
  "in_cidr v net = (v div 2 ^ (32 - snd net) = fst net div 2 ^ (32 - snd net))"

text \<open>The networks that are never a push target, as (first address, prefix length).\<close>

definition blocked_nets :: "(nat \<times> nat) list" where
  "blocked_nets = [(v4_value 0 0 0 0, 8), (v4_value 10 0 0 0, 8), (v4_value 169 254 0 0, 16),
     (v4_value 172 16 0 0, 12), (v4_value 192 168 0 0, 16)]"

lemma v4_value_div:
  "v4_value a b c d div 2 ^ 24 = unat a"
  "v4_value a b c d div 2 ^ 20 = 16 * unat a + unat b div 16"
  "v4_value a b c d div 2 ^ 16 = 256 * unat a + unat b"
  using unat_octet [of a] unat_octet [of b] unat_octet [of c] unat_octet [of d]
  by (simp_all add: v4_value_def div_nat_eqI)

lemma pair_eq: "b < k \<Longrightarrow> y < k \<Longrightarrow> (k * a + b = k * x + y) = (a = x \<and> b = (y :: nat))"
proof -
  assume lt: "b < k" "y < k"
  have "a = x \<and> b = y" if eq: "k * a + b = k * x + y"
  proof -
    from eq have "(k * a + b) div k = (k * x + y) div k" by simp
    with lt have "a = x" by simp
    with eq show ?thesis by simp
  qed
  then show ?thesis by blast
qed

lemma octet_eq: "(a :: octet) = w \<longleftrightarrow> unat a = unat w"
  by (auto intro: unsigned_word_eqI)

text \<open>
  The IPv4 classifier decides exactly the CIDR ranges its comments name: an address is loopback
  iff it is in 127.0.0.0/8, blocked iff it is in 0/8, 10/8, 169.254/16 (the cloud metadata service
  included), 172.16/12 or 192.168/16, and public otherwise.
\<close>

theorem classifyV4_cidr:
  "classifyV4 a b c d =
     (if in_cidr (v4_value a b c d) (v4_value 127 0 0 0, 8) then Loopback
      else if list_ex (in_cidr (v4_value a b c d)) blocked_nets then Blocked else Public)"
proof -
  have eqs: "(a = 127) = (unat a = 127)" "(a = 0) = (unat a = 0)" "(a = 10) = (unat a = 10)"
    "(a = 169) = (unat a = 169)" "(a = 172) = (unat a = 172)" "(a = 192) = (unat a = 192)"
    "(b = 254) = (unat b = 254)" "(b = 168) = (unat b = 168)"
    "(b \<ge> 16) = (unat b \<ge> 16)" "(b \<le> 31) = (unat b \<le> 31)"
    by (simp_all add: octet_eq word_le_nat_alt)
  have b: "unat b < 256" using unat_octet [of b] by simp
  have "(unat b div 16 = 1) = (16 \<le> unat b \<and> unat b \<le> 31)" by presburger
  then have pairs: "(256 * unat a + unat b = 43518) = (unat a = 169 \<and> unat b = 254)"
    "(256 * unat a + unat b = 49320) = (unat a = 192 \<and> unat b = 168)"
    "(16 * unat a + unat b div 16 = 2753) = (unat a = 172 \<and> 16 \<le> unat b \<and> unat b \<le> 31)"
    using pair_eq [OF b, of 254 "unat a" 169] pair_eq [OF b, of 168 "unat a" 192]
      pair_eq [of "unat b div 16" 16 1 "unat a" 172] b by auto
  show ?thesis
    unfolding classifyV4_def eqs blocked_nets_def in_cidr_def
    by (simp add: pairs v4_value_div [simplified] v4_value_def [of 127] v4_value_def [of 10] v4_value_def [of 169]
        v4_value_def [of 172] v4_value_def [of 192] v4_value_def [of 0])
qed

lemma net_isIPv4_chars: "net_isIPv4 s \<Longrightarrow> c \<in> set s \<Longrightarrow> is_digit c \<or> c = CHR ''.''"
proof -
  assume v: "net_isIPv4 s" and c: "c \<in> set s"
  have join: "x \<in> set (join_with ''.'' ps) \<Longrightarrow> \<exists>p \<in> set ps. x \<in> set p \<or> x = CHR ''.''" for x ps
    by (induction "''.''" ps rule: join_with.induct) auto
  from c have "c \<in> set (join_with ''.'' (split_on (CHR ''.'') s))" by (simp add: join_split_on)
  then obtain p where "p \<in> set (split_on (CHR ''.'') s)" "c \<in> set p \<or> c = CHR ''.''" using join by blast
  with v show ?thesis
    by (auto simp: net_isIPv4_def Let_def list_all_iff short_dec_def all_digits_def)
qed

lemma not_isIPv4_colon: "CHR '':'' \<in> set s \<Longrightarrow> \<not> net_isIPv4 s"
  by (auto simp: is_digit_def dest: net_isIPv4_chars)

lemma classify_v6_literal:
  "CHR '':'' \<in> set s \<Longrightarrow> parseIPv6 s = Some bs \<Longrightarrow> classifyAddress s (Some 6) = classifyV6 bs"
  by (simp add: classifyAddress_def not_isIPv4_colon)

text \<open>
  Printing and parsing agree: every IPv4 address in dotted form and every IPv6 address, written
  in full or with one run of zero hextets abbreviated by \<open>::\<close>, parses to its own bytes.
\<close>

theorem address_roundtrip:
  assumes hs: "\<forall>n \<in> set hs. n < 65536" and ts: "\<forall>n \<in> set ts. n < 65536"
    and len: "length hs + length ts \<le> 8"
  shows "parseIPv4 (show_v4 a b c d) = Some [a, b, c, d]
    \<and> parseIPv6 (hexes hs @ ''::'' @ hexes ts) = Some (concat (map word_bytes
        (map of_nat hs @ replicate (8 - length hs - length ts) 0 @ map of_nat ts)))
    \<and> (length hs = 8 \<longrightarrow> parseIPv6 (hexes hs) = Some (concat (map word_bytes (map of_nat hs))))"
proof (intro conjI impI)
  have "fold_v4 (strip_zone (hexes hs @ ''::'' @ hexes ts)) = Some (hexes hs @ ''::'' @ hexes ts)"
    by (simp add: strip_zone_plain hexes_plain fold_v4_def)
  then show "parseIPv6 (hexes hs @ ''::'' @ hexes ts) = Some (concat (map word_bytes
        (map of_nat hs @ replicate (8 - length hs - length ts) 0 @ map of_nat ts)))"
    by (rule parse_compressed [OF hs ts len])
qed (simp_all only: parseIPv4_show parse_full [OF hs])

theorem address_roundtrip_witness:
  "parseIPv4 (show_v4 192 168 0 1) = Some [192, 168, 0, 1]
    \<and> parseIPv6 (hexes [0x2001, 0xdb8] @ ''::'' @ hexes [1]) = Some (concat (map word_bytes
        (map of_nat [0x2001, 0xdb8] @ replicate (8 - length [0x2001 :: nat, 0xdb8] - length [1 :: nat]) 0 @ map of_nat [1])))"
  using address_roundtrip [of "[0x2001, 0xdb8]" "[1]" 192 168 0 1] by simp

lemma zeros:
  "replicate 5 (0 :: 32 word) = [0, 0, 0, 0, 0]" "replicate 4 (0 :: 32 word) = [0, 0, 0, 0]"
  "replicate 10 (0 :: octet) = [0, 0, 0, 0, 0, 0, 0, 0, 0, 0]" "replicate 8 (0 :: octet) = [0, 0, 0, 0, 0, 0, 0, 0]"
  by (simp_all add: numeral_eq_Suc)

lemma classifyV6_mapped: "classifyV6 [0, 0, 0, 0, 0, 0, 0, 0, 0, 0, 0xff, 0xff, a, b, c, d] = classifyV4 a b c d"
  unfolding classifyV6_def by (simp add: zeros classify_quad_def)

lemma classifyV6_nat64: "classifyV6 [0, 0x64, 0xff, 0x9b, 0, 0, 0, 0, 0, 0, 0, 0, a, b, c, d] = classifyV4 a b c d"
  unfolding classifyV6_def by (simp add: zeros classify_quad_def)

text \<open>
  An IPv4 address cannot be smuggled inside IPv6: the IPv4-mapped literal
  \<open>::ffff:a.b.c.d\<close> and the NAT64 literal \<open>64:ff9b::a.b.c.d\<close> are classified exactly as
  \<open>a.b.c.d\<close> is.
\<close>

theorem embedded_v4_class:
  "classifyAddress (''::ffff:'' @ show_v4 a b c d) (Some 6) = classifyV4 a b c d
   \<and> classifyAddress (''64:ff9b::'' @ show_v4 a b c d) (Some 6) = classifyV4 a b c d"
proof
  let ?t = "[unat (hextet a b), unat (hextet c d)]"
  have h: "show_hex 65535 = ''ffff''" "show_hex 0x64 = ''64''" "show_hex 0xff9b = ''ff9b''"
    by (simp_all add: show_hex.simps hex_char_def char_of_eq_iff)
  have t: "\<forall>n \<in> set ?t. n < 65536" by (simp add: unat_hextet)
  have "fold_v4 (strip_zone (''::ffff'' @ '':'' @ show_v4 a b c d)) = Some (hexes [] @ ''::'' @ hexes (65535 # ?t))"
    by (subst fold_v4_embedded) (simp_all add: h)
  then have p: "parseIPv6 (''::ffff'' @ '':'' @ show_v4 a b c d) =
      Some (concat (map word_bytes (map of_nat [] @ replicate (8 - length ([] :: nat list) - length (65535 # ?t)) 0 @ map of_nat (65535 # ?t))))"
    using t by (intro parse_compressed [where hs = "[]" and ts = "65535 # ?t"]) simp_all
  have z: "word_bytes 0 = [0, 0]" "word_bytes 0xffff = [0xff, 0xff]"
    "word_bytes 0x64 = [0, 0x64]" "word_bytes 0xff9b = [0xff, 0x9b]"
    by (simp_all add: word_bytes_def)
  have p': "parseIPv6 (''::ffff:'' @ show_v4 a b c d) = Some [0, 0, 0, 0, 0, 0, 0, 0, 0, 0, 0xff, 0xff, a, b, c, d]"
    using p by (simp add: z word_bytes_hextet zeros)
  show "classifyAddress (''::ffff:'' @ show_v4 a b c d) (Some 6) = classifyV4 a b c d"
    by (rule trans [OF classify_v6_literal [OF _ p'] classifyV6_mapped]) simp
  have "fold_v4 (strip_zone (''64:ff9b:'' @ '':'' @ show_v4 a b c d)) = Some (hexes [0x64, 0xff9b] @ ''::'' @ hexes ?t)"
    by (subst fold_v4_embedded) (simp_all add: h)
  then have q: "parseIPv6 (''64:ff9b:'' @ '':'' @ show_v4 a b c d) =
      Some (concat (map word_bytes (map of_nat [0x64, 0xff9b] @ replicate (8 - length [0x64 :: nat, 0xff9b] - length ?t) 0 @ map of_nat ?t)))"
    using t by (intro parse_compressed [where hs = "[0x64, 0xff9b]" and ts = ?t]) simp_all
  have q': "parseIPv6 (''64:ff9b::'' @ show_v4 a b c d) = Some [0, 0x64, 0xff, 0x9b, 0, 0, 0, 0, 0, 0, 0, 0, a, b, c, d]"
    using q by (simp add: z word_bytes_hextet zeros)
  show "classifyAddress (''64:ff9b::'' @ show_v4 a b c d) (Some 6) = classifyV4 a b c d"
    by (rule trans [OF classify_v6_literal [OF _ q'] classifyV6_nat64]) simp
qed

text \<open>
  The IPv6 classifier fails closed: a public verdict is only given to an address whose embedded
  IPv4 address is public (mapped, NAT64, 6to4 and IPv4-compatible forms) or that lies in the
  global-unicast block 2000::/3.
\<close>

theorem classifyV6_fails_closed:
  "classifyV6 bs = Public \<Longrightarrow>
     (bs ! 0 AND 0xe0) = 0x20 \<or> classify_quad (drop 12 bs) = Public \<or> classify_quad (take 4 (drop 2 bs)) = Public"
  by (auto simp: classifyV6_def split: if_splits)

theorem classifyV6_fails_closed_witness:
  "(([0x26, 0x06, 0x47, 0, 0, 0, 0, 0, 0, 0, 0, 0, 0, 0, 0, 1] :: octet list) ! 0 AND 0xe0) = 0x20
     \<or> classify_quad (drop 12 ([0x26, 0x06, 0x47, 0, 0, 0, 0, 0, 0, 0, 0, 0, 0, 0, 0, 1] :: octet list)) = Public
     \<or> classify_quad (take 4 (drop 2 ([0x26, 0x06, 0x47, 0, 0, 0, 0, 0, 0, 0, 0, 0, 0, 0, 0, 1] :: octet list))) = Public"
  by (rule classifyV6_fails_closed) code_simp

section \<open>Properties of the URL check\<close>

lemma check_addrs_sound:
  "check_addrs allowLocal addrs p = Inr sp \<Longrightarrow>
   (\<forall>(a, f) \<in> set addrs. classifyAddress a (Some f) \<noteq> Blocked \<and> (classifyAddress a (Some f) = Loopback \<longrightarrow> allowLocal))
   \<and> (sp \<longleftrightarrow> p \<or> (\<exists>(a, f) \<in> set addrs. classifyAddress a (Some f) = Public))"
proof (induction allowLocal addrs p rule: check_addrs.induct)
  case (2 allowLocal addr fam rest p)
  then show ?case by (cases "classifyAddress addr (Some fam)") (auto split: if_splits)
qed simp



end
