(* ===== verification/Push_Transport.thy ===== *)
theory Push_Transport
  imports Push_Payload Push_Guard
begin

text \<open>
  The push transports of \<open>lib/push.js\<close> and their configuration. The network, the signing of JWTs and
  the file system are parameters (the record \<open>push_net\<close> and the function \<open>fs\<close>); a promise that
  rejects is \<open>None\<close>. Sends are modelled one at a time: the sharing of an in-flight token request by
  concurrent sends and the pool of HTTP/2 sessions are not modelled. A warning that the rate limit
  lets through is appended to the transport's list of warnings.
\<close>

record send_req =
  sr_transport :: string
  sr_token :: string
  sr_app_id :: jsval
  sr_env :: jsval
  sr_payload :: jsval
  sr_alert :: jsval

record push_net =
  sign_jwt :: "string \<Rightarrow> jsval \<Rightarrow> jsval \<Rightarrow> string option"
  http_post :: "string \<Rightarrow> string option \<Rightarrow> jsval \<Rightarrow> (nat \<times> jsval option) option"
  apns_post :: "string \<Rightarrow> string \<Rightarrow> string \<Rightarrow> string \<Rightarrow> apns_frame \<Rightarrow> (nat option \<times> jsval option) option"

definition PUSH_FAIL_LOG_WINDOW_MS :: int where "PUSH_FAIL_LOG_WINDOW_MS = 60 * 1000"

text \<open>The default payload; building it cannot fail.\<close>

definition payload_or_wake :: "jsval \<Rightarrow> jsval" where
  "payload_or_wake p = (if truthy p then p else (case buildWakePayload JUndef of Inr w \<Rightarrow> w | Inl _ \<Rightarrow> JObj []))"

section \<open>The null transport\<close>

record null_transport =
  nt_sent :: "send_req list"
  nt_gone :: "string set"

definition null_new :: null_transport where
  "null_new = \<lparr>nt_sent = [], nt_gone = {}\<rparr>"

definition null_markGone :: "string \<Rightarrow> null_transport \<Rightarrow> null_transport" where
  "null_markGone token T = T\<lparr>nt_gone := insert token (nt_gone T)\<rparr>"

definition null_send :: "send_req \<Rightarrow> null_transport \<Rightarrow> send_result \<times> null_transport" where
  "null_send q T = (if sr_token q \<in> nt_gone T then (SendGone, T) else (SendOk, T\<lparr>nt_sent := nt_sent T @ [q]\<rparr>))"

section \<open>UnifiedPush\<close>

datatype unified_result = UpOk | UpGone | UpUnsafe | UpFail

definition unified_status :: "nat option \<Rightarrow> unified_result" where
  "unified_status st =
     (case st of None \<Rightarrow> UpFail
      | Some s \<Rightarrow> if 200 \<le> s \<and> s < 300 then UpOk else if s = 404 \<or> s = 410 then UpGone else UpFail)"

text \<open>
  \<open>connect addrs url body\<close> stands for the HTTP exchange over a socket to one of the addresses the
  guarded resolver returned; a literal address needs no resolution.
\<close>

definition unified_post ::
  "net_env \<Rightarrow> bool \<Rightarrow> ((string \<times> nat) list \<Rightarrow> url \<Rightarrow> jsval \<Rightarrow> nat option) \<Rightarrow> string \<Rightarrow> jsval \<Rightarrow> unified_result" where
  "unified_post env allowLocal connect raw payload =
     (case parse_url env raw of
        None \<Rightarrow> UpFail
      | Some u \<Rightarrow> (let host = stripBrackets (u_hostname u) in
          if net_isIP env host \<noteq> 0 then unified_status (connect [(host, net_isIP env host)] u payload)
          else (case guardedLookup env allowLocal host of
              None \<Rightarrow> UpFail
            | Some addrs \<Rightarrow> unified_status (connect addrs u payload))))"

definition unified_send ::
  "net_env \<Rightarrow> net_env \<Rightarrow> bool \<Rightarrow> ((string \<times> nat) list \<Rightarrow> url \<Rightarrow> jsval \<Rightarrow> nat option) \<Rightarrow> send_req \<Rightarrow> unified_result" where
  "unified_send env later allowLocal connect q =
     (case isSafePushUrl env allowLocal (JStr (sr_token q)) of
        UnsafeUrl _ \<Rightarrow> UpUnsafe
      | SafeUrl _ \<Rightarrow> unified_post later allowLocal connect (sr_token q) (payload_or_wake (sr_payload q)))"

section \<open>FCM\<close>

record fcm_project =
  fp_email :: string
  fp_key :: string
  fp_project_id :: string
  fp_tokenUrl :: string
  fp_token :: "(string \<times> rat) option"

record fcm_transport =
  fcm_default :: "fcm_project option"
  fcm_projects :: "(string, fcm_project) jsmap"
  fcm_baseUrl :: string
  fcm_lastAuthWarnMs :: int
  fcm_lastNoProjectWarnMs :: int
  fcm_warnings :: "string list"

datatype push_error =
    Sa_incomplete | Sa_no_project_id | Sa_unreadable string | Sa_wrong_type string
  | Fcm_unconfigured | Projects_not_json | Projects_entry string
  | Apns_missing "string list" | Apns_topics_not_json | Apns_bad_env string | Apns_key_unreadable | Apns_key_invalid
  | Unknown_transport string

definition makeFcmProject :: "jsval \<Rightarrow> push_error + fcm_project" where
  "makeFcmProject sa =
     (if \<not> truthy sa \<or> \<not> truthy (obj_get sa ''client_email'') \<or> \<not> truthy (obj_get sa ''private_key'')
      then Inl Sa_incomplete
      else if \<not> truthy (obj_get sa ''project_id'') then Inl Sa_no_project_id
      else Inr \<lparr>fp_email = to_string (obj_get sa ''client_email''), fp_key = to_string (obj_get sa ''private_key''),
                fp_project_id = to_string (obj_get sa ''project_id''),
                fp_tokenUrl = to_string (js_or (obj_get sa ''token_uri'') (JStr ''https://oauth2.googleapis.com/token'')),
                fp_token = None\<rparr>)"

fun makeFcmProjects :: "(string \<times> jsval) list \<Rightarrow> push_error + (string, fcm_project) jsmap" where
  "makeFcmProjects [] = Inr []"
| "makeFcmProjects ((app, sa) # rest) =
     (case makeFcmProject sa of
        Inl e \<Rightarrow> Inl e
      | Inr p \<Rightarrow> (case makeFcmProjects rest of Inl e \<Rightarrow> Inl e | Inr ps \<Rightarrow> Inr ((app, p) # ps)))"

definition fcm_new :: "jsval \<Rightarrow> jsval \<Rightarrow> push_error + fcm_transport" where
  "fcm_new serviceAccount projects =
     (case (if truthy serviceAccount then map_sum id Some (makeFcmProject serviceAccount) else Inr None) of
        Inl e \<Rightarrow> Inl e
      | Inr d \<Rightarrow> (case makeFcmProjects (if truthy projects then obj_fields projects else []) of
          Inl e \<Rightarrow> Inl e
        | Inr ps \<Rightarrow> if d = None \<and> ps = [] then Inl Sa_incomplete
            else Inr \<lparr>fcm_default = d, fcm_projects = ps, fcm_baseUrl = ''https://fcm.googleapis.com'',
                      fcm_lastAuthWarnMs = 0, fcm_lastNoProjectWarnMs = 0, fcm_warnings = []\<rparr>))"

text \<open>Which project serves an app id: its own slot when mapped, else the default one.\<close>

datatype fcm_slot = AppSlot string | DefaultSlot

definition fcm_slot_for :: "jsval \<Rightarrow> fcm_transport \<Rightarrow> fcm_slot" where
  "fcm_slot_for app T = (if truthy app \<and> jget (fcm_projects T) (to_string app) \<noteq> None
     then AppSlot (to_string app) else DefaultSlot)"

fun fcm_get :: "fcm_slot \<Rightarrow> fcm_transport \<Rightarrow> fcm_project option" where
  "fcm_get (AppSlot a) T = jget (fcm_projects T) a"
| "fcm_get DefaultSlot T = fcm_default T"

fun fcm_put :: "fcm_slot \<Rightarrow> fcm_project \<Rightarrow> fcm_transport \<Rightarrow> fcm_transport" where
  "fcm_put (AppSlot a) p T = T\<lparr>fcm_projects := jset a p (fcm_projects T)\<rparr>"
| "fcm_put DefaultSlot p T = T\<lparr>fcm_default := Some p\<rparr>"

definition fcm_projectFor :: "jsval \<Rightarrow> fcm_transport \<Rightarrow> fcm_project option" where
  "fcm_projectFor app T = fcm_get (fcm_slot_for app T) T"

definition FCM_TOKEN_REFRESH_MARGIN_MS :: rat where "FCM_TOKEN_REFRESH_MARGIN_MS = 60 * 1000"

definition fcm_claims :: "int \<Rightarrow> fcm_project \<Rightarrow> jsval" where
  "fcm_claims now p = (let nowSec = rat_of_int (now div 1000) in
     JObj [(''iss'', JStr (fp_email p)), (''scope'', JStr ''https://www.googleapis.com/auth/firebase.messaging''),
           (''aud'', JStr (fp_tokenUrl p)), (''iat'', JNum (Fin nowSec)), (''exp'', JNum (Fin (nowSec + 3600)))])"

definition fcm_mint :: "push_net \<Rightarrow> int \<Rightarrow> fcm_project \<Rightarrow> (string \<times> rat) option" where
  "fcm_mint net now p =
     (case sign_jwt net (fp_key p) (JObj [(''alg'', JStr ''RS256''), (''typ'', JStr ''JWT'')]) (fcm_claims now p) of
        None \<Rightarrow> None
      | Some assertion \<Rightarrow>
          (case http_post net (fp_tokenUrl p) None
              (JObj [(''grant_type'', JStr ''urn:ietf:params:oauth:grant-type:jwt-bearer''), (''assertion'', JStr assertion)]) of
             None \<Rightarrow> None
           | Some (st, body) \<Rightarrow>
               if st < 200 \<or> st \<ge> 300 then None
               else (case body of
                   None \<Rightarrow> None
                 | Some parsed \<Rightarrow>
                     if \<not> truthy (obj_get parsed ''access_token'') then None
                     else let life = (case to_number (obj_get parsed ''expires_in'') of
                                        Fin r \<Rightarrow> if r > 0 then r else 3600 | _ \<Rightarrow> 3600)
                          in Some (to_string (obj_get parsed ''access_token''), of_int now + life * 1000))))"

definition fcm_cached :: "int \<Rightarrow> fcm_project \<Rightarrow> string option" where
  "fcm_cached now p = (case fp_token p of
       Some (v, e) \<Rightarrow> if of_int now < e - FCM_TOKEN_REFRESH_MARGIN_MS then Some v else None
     | None \<Rightarrow> None)"

definition fcm_getAccessToken :: "push_net \<Rightarrow> int \<Rightarrow> fcm_project \<Rightarrow> string option \<times> fcm_project" where
  "fcm_getAccessToken net now p =
     (case fcm_cached now p of
        Some v \<Rightarrow> (Some v, p)
      | None \<Rightarrow> (case fcm_mint net now p of
          None \<Rightarrow> (None, p)
        | Some tok \<Rightarrow> (Some (fst tok), p\<lparr>fp_token := Some tok\<rparr>)))"

definition fcm_warnAuth :: "int \<Rightarrow> fcm_transport \<Rightarrow> fcm_transport" where
  "fcm_warnAuth now T = (if now - fcm_lastAuthWarnMs T < PUSH_FAIL_LOG_WINDOW_MS then T
     else T\<lparr>fcm_lastAuthWarnMs := now, fcm_warnings := fcm_warnings T @ [''transport=fcm reason=auth'']\<rparr>)"

definition fcm_warnNoProject :: "int \<Rightarrow> fcm_transport \<Rightarrow> fcm_transport" where
  "fcm_warnNoProject now T = (if now - fcm_lastNoProjectWarnMs T < PUSH_FAIL_LOG_WINDOW_MS then T
     else T\<lparr>fcm_lastNoProjectWarnMs := now, fcm_warnings := fcm_warnings T @ [''transport=fcm reason=no-project'']\<rparr>)"

definition uri_plain :: "char \<Rightarrow> bool" where
  "uri_plain c \<longleftrightarrow> is_digit c \<or> c \<in> set ''ABCDEFGHIJKLMNOPQRSTUVWXYZabcdefghijklmnopqrstuvwxyz-_.!~*()'' \<or> of_char c = (39 :: nat)"

definition percent_byte :: "nat \<Rightarrow> string" where
  "percent_byte n = ''%'' @ map (\<lambda>d. char_of (if d < 10 then 48 + d else 55 + d)) [n div 16, n mod 16]"

definition encodeURIComponent :: "string \<Rightarrow> string" where
  "encodeURIComponent s = concat (map (\<lambda>c. let n = (of_char c :: nat) in
     if uri_plain c then [c] else if n < 128 then percent_byte n
     else percent_byte (192 + n div 64) @ percent_byte (128 + n mod 64)) s)"

definition fcm_body :: "send_req \<Rightarrow> jsval" where
  "fcm_body q = JObj [(''message'', JObj [(''token'', JStr (sr_token q)),
     (''data'', JObj (map (\<lambda>(k, v). (k, JStr (to_string v))) (obj_fields (payload_or_wake (sr_payload q))))),
     (''android'', JObj [(''priority'', JStr ''HIGH'')])])]"

definition fcm_url :: "fcm_transport \<Rightarrow> fcm_project \<Rightarrow> string" where
  "fcm_url T p = fcm_baseUrl T @ ''/v1/projects/'' @ encodeURIComponent (fp_project_id p) @ ''/messages:send''"

text \<open>The request a send posts to FCM, if it gets that far: URL, bearer token and body.\<close>

definition fcm_request :: "push_net \<Rightarrow> int \<Rightarrow> send_req \<Rightarrow> fcm_transport \<Rightarrow> (string \<times> string \<times> jsval) option" where
  "fcm_request net now q T =
     (case fcm_projectFor (sr_app_id q) T of
        None \<Rightarrow> None
      | Some p \<Rightarrow> (case fst (fcm_getAccessToken net now p) of
          None \<Rightarrow> None
        | Some tok \<Rightarrow> Some (fcm_url T p, tok, fcm_body q)))"

definition fcm_send :: "push_net \<Rightarrow> int \<Rightarrow> send_req \<Rightarrow> fcm_transport \<Rightarrow> send_result \<times> fcm_transport" where
  "fcm_send net now q T =
     (let slot = fcm_slot_for (sr_app_id q) T in
      case fcm_get slot T of
        None \<Rightarrow> (SendFail, fcm_warnNoProject now T)
      | Some p \<Rightarrow>
          (let (tok, p') = fcm_getAccessToken net now p; T' = fcm_put slot p' T in
           case tok of
             None \<Rightarrow> (SendFail, T')
           | Some accessToken \<Rightarrow>
               (case http_post net (fcm_url T p) (Some (''Bearer '' @ accessToken)) (fcm_body q) of
                  None \<Rightarrow> (SendFail, T')
                | Some (st, body) \<Rightarrow>
                    (case classifyFcmResponse st body of
                       SendAuth _ _ \<Rightarrow> (SendFail, fcm_warnAuth now T')
                     | r \<Rightarrow> (r, T')))))"

section \<open>APNs\<close>

definition APNS_JWT_REFRESH_MS :: int where "APNS_JWT_REFRESH_MS = 40 * 60 * 1000"

record apns_transport =
  ap_key :: string
  ap_keyId :: string
  ap_teamId :: string
  ap_topic :: jsval
  ap_topics :: "(string, jsval) jsmap"
  ap_defaultEnv :: string
  ap_refreshMs :: int
  ap_jwt :: "(string \<times> int) option"
  ap_signCount :: nat
  ap_lastAuthWarnMs :: int
  ap_lastNoTopicWarnMs :: int
  ap_warnings :: "string list"

definition normalizeApnsEnv :: "jsval \<Rightarrow> string \<Rightarrow> string" where
  "normalizeApnsEnv env dflt =
     (if env = JStr ''sandbox'' then ''sandbox'' else if env = JStr ''production'' then ''production''
      else if dflt = [] then ''production'' else dflt)"

text \<open>\<open>key_ok\<close> tells whether the key text loads as an EC private key.\<close>

definition apns_new ::
  "(string \<Rightarrow> bool) \<Rightarrow> string \<Rightarrow> string \<Rightarrow> string \<Rightarrow> jsval \<Rightarrow> (string, jsval) jsmap \<Rightarrow> jsval \<Rightarrow> push_error + apns_transport" where
  "apns_new key_ok p8 keyId teamId topic topics defaultEnv =
     (if p8 = [] then Inl (Apns_missing [''p8'']) else if keyId = [] then Inl (Apns_missing [''keyId''])
      else if teamId = [] then Inl (Apns_missing [''teamId''])
      else if \<not> key_ok p8 then Inl Apns_key_invalid
      else if \<not> truthy topic \<and> topics = [] then Inl (Apns_missing [''topic''])
      else Inr \<lparr>ap_key = p8, ap_keyId = keyId, ap_teamId = teamId, ap_topic = js_or topic JNull, ap_topics = topics,
                ap_defaultEnv = normalizeApnsEnv defaultEnv ''production'', ap_refreshMs = APNS_JWT_REFRESH_MS,
                ap_jwt = None, ap_signCount = 0, ap_lastAuthWarnMs = 0, ap_lastNoTopicWarnMs = 0, ap_warnings = []\<rparr>)"

definition apns_topicFor :: "jsval \<Rightarrow> apns_transport \<Rightarrow> jsval" where
  "apns_topicFor app T =
     (case (if nullish app then None else jget (ap_topics T) (to_string app)) of Some t \<Rightarrow> t | None \<Rightarrow> ap_topic T)"

text \<open>Signing counts, also when it is only attempted after the last token aged; it may throw.\<close>

definition apns_signProviderToken :: "push_net \<Rightarrow> int \<Rightarrow> apns_transport \<Rightarrow> string option \<times> apns_transport" where
  "apns_signProviderToken net now T =
     (case sign_jwt net (ap_key T) (JObj [(''alg'', JStr ''ES256''), (''kid'', JStr (ap_keyId T))])
             (JObj [(''iss'', JStr (ap_teamId T)), (''iat'', JNum (Fin (of_int (now div 1000))))]) of
        None \<Rightarrow> (None, T)
      | Some v \<Rightarrow> (Some v, T\<lparr>ap_signCount := ap_signCount T + 1\<rparr>))"

definition apns_getProviderToken :: "push_net \<Rightarrow> int \<Rightarrow> apns_transport \<Rightarrow> string option \<times> apns_transport" where
  "apns_getProviderToken net now T =
     (case ap_jwt T of
        Some (v, minted) \<Rightarrow> if now - minted < ap_refreshMs T then (Some v, T)
          else (let (w, T') = apns_signProviderToken net now T
                in (w, case w of None \<Rightarrow> T' | Some x \<Rightarrow> T'\<lparr>ap_jwt := Some (x, now)\<rparr>))
      | None \<Rightarrow> (let (w, T') = apns_signProviderToken net now T
                in (w, case w of None \<Rightarrow> T' | Some x \<Rightarrow> T'\<lparr>ap_jwt := Some (x, now)\<rparr>)))"

definition apns_warnAuth :: "int \<Rightarrow> apns_transport \<Rightarrow> apns_transport" where
  "apns_warnAuth now T = (if now - ap_lastAuthWarnMs T < PUSH_FAIL_LOG_WINDOW_MS then T
     else T\<lparr>ap_lastAuthWarnMs := now, ap_warnings := ap_warnings T @ [''transport=apns reason=auth'']\<rparr>)"

definition apns_warnNoTopic :: "int \<Rightarrow> apns_transport \<Rightarrow> apns_transport" where
  "apns_warnNoTopic now T = (if now - ap_lastNoTopicWarnMs T < PUSH_FAIL_LOG_WINDOW_MS then T
     else T\<lparr>ap_lastNoTopicWarnMs := now, ap_warnings := ap_warnings T @ [''transport=apns reason=no-topic'']\<rparr>)"

definition apns_send :: "push_net \<Rightarrow> int \<Rightarrow> send_req \<Rightarrow> apns_transport \<Rightarrow> send_result \<times> apns_transport" where
  "apns_send net now q T =
     (let env = normalizeApnsEnv (sr_env q) (ap_defaultEnv T); topic = apns_topicFor (sr_app_id q) T in
      if \<not> truthy topic then (SendFail, apns_warnNoTopic now T)
      else let (jwt, T1) = apns_getProviderToken net now T in
        case jwt of
          None \<Rightarrow> (SendFail, T1)
        | Some j \<Rightarrow>
            (case apns_post net env (sr_token q) j (to_string topic) (buildApnsFrame (sr_payload q) (sr_alert q)) of
               None \<Rightarrow> (SendFail, T1)
             | Some (st, body) \<Rightarrow>
                 (case classifyApnsResponse st body of
                    SendAuth _ expired \<Rightarrow> (SendFail, apns_warnAuth now (if expired then T1\<lparr>ap_jwt := None\<rparr> else T1))
                  | r \<Rightarrow> (r, T1))))"

section \<open>Configuration\<close>

text \<open>The environment maps names to values; \<open>fs\<close> reads and parses a JSON file, \<open>read\<close> a text file.\<close>

type_synonym env_vars = "string \<Rightarrow> string option"

definition env_val :: "env_vars \<Rightarrow> string \<Rightarrow> jsval" where
  "env_val env k = (case env k of None \<Rightarrow> JUndef | Some v \<Rightarrow> JStr v)"

definition isTruthyFlag :: "jsval \<Rightarrow> bool" where
  "isTruthyFlag v \<longleftrightarrow> \<not> nullish v \<and> to_lower (trim (to_string v)) \<in> {''1'', ''true'', ''yes'', ''on''}"

definition loadFcmServiceAccountFile :: "(string \<Rightarrow> jsval option) \<Rightarrow> string \<Rightarrow> push_error + jsval" where
  "loadFcmServiceAccountFile fs f =
     (case fs f of
        None \<Rightarrow> Inl (Sa_unreadable f)
      | Some sa \<Rightarrow> if obj_get sa ''type'' \<noteq> JStr ''service_account'' then Inl (Sa_wrong_type f)
          else if \<not> truthy (obj_get sa ''client_email'') \<or> \<not> truthy (obj_get sa ''private_key'')
             \<or> \<not> truthy (obj_get sa ''project_id'') then Inl Sa_incomplete
          else Inr sa)"

fun load_projects :: "(string \<Rightarrow> jsval option) \<Rightarrow> (string \<times> jsval) list \<Rightarrow> push_error + (string \<times> jsval) list" where
  "load_projects fs [] = Inr []"
| "load_projects fs ((app, p) # rest) =
     (if \<not> (is_str p \<and> truthy p) then Inl (Projects_entry app)
      else case loadFcmServiceAccountFile fs (to_string p) of
        Inl e \<Rightarrow> Inl e
      | Inr sa \<Rightarrow> (case load_projects fs rest of Inl e \<Rightarrow> Inl e | Inr l \<Rightarrow> Inr ((app, sa) # l)))"

text \<open>\<open>json\<close> parses a JSON text, \<open>None\<close> when it is malformed.\<close>

definition createFcmTransportFromEnv ::
  "(string \<Rightarrow> jsval option) \<Rightarrow> (string \<Rightarrow> jsval option) \<Rightarrow> env_vars \<Rightarrow> push_error + fcm_transport" where
  "createFcmTransportFromEnv fs json env =
     (let cred = env_val env ''TYO_MQ_PUSH_FCM_CREDENTIALS''; raw = env_val env ''TYO_MQ_PUSH_FCM_PROJECTS'' in
      if \<not> truthy cred \<and> \<not> truthy raw then Inl Fcm_unconfigured
      else case (if truthy cred then loadFcmServiceAccountFile fs (to_string cred) else Inr JUndef) of
        Inl e \<Rightarrow> Inl e
      | Inr sa \<Rightarrow>
          if \<not> truthy raw then fcm_new sa JUndef
          else (case json (to_string raw) of
              None \<Rightarrow> Inl Projects_not_json
            | Some m \<Rightarrow> if \<not> is_plain_obj m then Inl Projects_not_json
                else (case load_projects fs (obj_fields m) of
                    Inl e \<Rightarrow> Inl e
                  | Inr l \<Rightarrow> fcm_new sa (JObj l))))"

definition createApnsTransportFromEnv ::
  "(string \<Rightarrow> bool) \<Rightarrow> (string \<Rightarrow> string option) \<Rightarrow> (string \<Rightarrow> jsval option) \<Rightarrow> env_vars \<Rightarrow> push_error + apns_transport" where
  "createApnsTransportFromEnv key_ok readFile json env =
     (let v = env_val env; raw = v ''TYO_MQ_PUSH_APNS_TOPICS'';
          dflt = to_string (js_or (v ''TYO_MQ_PUSH_APNS_ENV'') (JStr ''production'')) in
      case (if truthy raw then json (to_string raw) else Some (JObj [])) of
        None \<Rightarrow> Inl Apns_topics_not_json
      | Some topics \<Rightarrow>
          if \<not> is_plain_obj topics then Inl Apns_topics_not_json
          else let missing = filter (\<lambda>n. \<not> truthy (v n))
                   [''TYO_MQ_PUSH_APNS_KEY'', ''TYO_MQ_PUSH_APNS_KEY_ID'', ''TYO_MQ_PUSH_APNS_TEAM_ID'']
                 @ (if \<not> truthy (v ''TYO_MQ_PUSH_APNS_TOPIC'') \<and> obj_fields topics = []
                    then [''TYO_MQ_PUSH_APNS_TOPIC''] else [])
               in if missing \<noteq> [] then Inl (Apns_missing missing)
                  else if dflt \<noteq> ''production'' \<and> dflt \<noteq> ''sandbox'' then Inl (Apns_bad_env dflt)
                  else (case readFile (to_string (v ''TYO_MQ_PUSH_APNS_KEY'')) of
                      None \<Rightarrow> Inl Apns_key_unreadable
                    | Some p8 \<Rightarrow> apns_new key_ok p8 (to_string (v ''TYO_MQ_PUSH_APNS_KEY_ID''))
                        (to_string (v ''TYO_MQ_PUSH_APNS_TEAM_ID'')) (v ''TYO_MQ_PUSH_APNS_TOPIC'')
                        (obj_fields topics) (JStr dflt)))"

datatype transport =
    TNull null_transport
  | TUnified bool
  | TFcm fcm_transport
  | TApns apns_transport

record boot_env =
  be_vars :: env_vars
  be_fs :: "string \<Rightarrow> jsval option"
  be_read :: "string \<Rightarrow> string option"
  be_json :: "string \<Rightarrow> jsval option"
  be_key_ok :: "string \<Rightarrow> bool"

definition createTransport :: "boot_env \<Rightarrow> string \<Rightarrow> push_error + transport" where
  "createTransport be name =
     (if name = ''null'' then Inr (TNull null_new)
      else if name = ''unifiedpush'' then Inr (TUnified (isTruthyFlag (env_val (be_vars be) ''TYO_MQ_PUSH_ALLOW_LOCAL'')))
      else if name = ''fcm'' then map_sum id TFcm (createFcmTransportFromEnv (be_fs be) (be_json be) (be_vars be))
      else if name = ''apns'' then map_sum id TApns (createApnsTransportFromEnv (be_key_ok be) (be_read be) (be_json be) (be_vars be))
      else Inl (Unknown_transport name))"

record push_config =
  pc_transports :: "(string, transport) jsmap"
  pc_transportNames :: "string list"
  pc_allowLocal :: bool
  pc_transport :: "transport option"
  pc_transportName :: "string option"

fun build_transports ::
  "(string \<Rightarrow> push_error + transport) \<Rightarrow> string list \<Rightarrow> (string, transport) jsmap \<Rightarrow> string list
     \<Rightarrow> push_error + (string, transport) jsmap \<times> string list" where
  "build_transports mk [] ts ns = Inr (ts, ns)"
| "build_transports mk (n # rest) ts ns =
     (case mk n of
        Inl e \<Rightarrow> Inl e
      | Inr t \<Rightarrow> build_transports mk rest (jset n t ts) (if jget ts n = None then ns @ [n] else ns))"

definition config_names :: "string \<Rightarrow> string list" where
  "config_names raw = filter (\<lambda>s. s \<noteq> []) (map trim (split_on (CHR '','') raw))"

text \<open>\<open>Inr None\<close> is the feature switched off, \<open>Inl\<close> a misconfiguration that fails at boot.\<close>

definition loadConfig :: "boot_env \<Rightarrow> push_error + push_config option" where
  "loadConfig be =
     (let raw = env_val (be_vars be) ''TYO_MQ_PUSH_TRANSPORT'' in
      if \<not> truthy raw then Inr None
      else let names = config_names (to_string raw) in
        if names = [] then Inr None
        else case build_transports (createTransport be) names [] [] of
          Inl e \<Rightarrow> Inl e
        | Inr (ts, ns) \<Rightarrow> Inr (Some
            \<lparr>pc_transports = ts, pc_transportNames = ns,
             pc_allowLocal = (case jget ts ''unifiedpush'' of Some (TUnified b) \<Rightarrow> b | _ \<Rightarrow> False),
             pc_transport = (if length ns = 1 then jget ts (hd ns) else None),
             pc_transportName = (if length ns = 1 then Some (hd ns) else None)\<rparr>))"

definition isConfigured :: "push_config option \<Rightarrow> bool" where
  "isConfigured cfg \<longleftrightarrow> (case cfg of None \<Rightarrow> False | Some c \<Rightarrow> pc_transports c \<noteq> [])"

definition transportFor :: "push_config option \<Rightarrow> string \<Rightarrow> transport option" where
  "transportFor cfg name = (if isConfigured cfg then (case cfg of None \<Rightarrow> None | Some c \<Rightarrow> jget (pc_transports c) name) else None)"

definition SEALED_INBOX_TTL_SECONDS :: rat where "SEALED_INBOX_TTL_SECONDS = 7 * 24 * 60 * 60"

definition sealedInboxTtlSeconds :: "env_vars \<Rightarrow> rat" where
  "sealedInboxTtlSeconds env =
     (let raw = env_val env ''TYO_MQ_SEALED_INBOX_TTL_SECONDS'' in
      case to_number raw of
        Fin r \<Rightarrow> if raw \<noteq> JUndef \<and> raw \<noteq> JStr [] \<and> r > 0 then r else SEALED_INBOX_TTL_SECONDS
      | _ \<Rightarrow> SEALED_INBOX_TTL_SECONDS)"

section \<open>Properties\<close>

lemma slot_get_put [simp]: "fcm_get slot (fcm_put slot p T) = Some p"
  by (cases slot) simp_all

text \<open>
  Credentials never cross projects: the request a send posts goes to the message URL of the
  project that serves the endpoint's app id, with a bearer token that is that project's cached token,
  not within a minute of its expiry, or one just minted with that project's own key.
\<close>

theorem fcm_own_credentials:
  assumes "fcm_request net now q T = Some (u, tok, body)"
  shows "\<exists>p. fcm_projectFor (sr_app_id q) T = Some p \<and> u = fcm_url T p
    \<and> (case fp_token p of
         Some (v, e) \<Rightarrow> tok = v \<and> of_int now + 60000 < e \<or> map_option fst (fcm_mint net now p) = Some tok
       | None \<Rightarrow> map_option fst (fcm_mint net now p) = Some tok)"
  using assms
  by (auto simp: fcm_request_def fcm_getAccessToken_def fcm_cached_def FCM_TOKEN_REFRESH_MARGIN_MS_def
      split: option.splits if_split_asm)

definition sample_project :: fcm_project where
  "sample_project = \<lparr>fp_email = ''a@b'', fp_key = ''k'', fp_project_id = ''proj'', fp_tokenUrl = ''https://t'',
     fp_token = Some (''tok'', 1000000)\<rparr>"

definition sample_fcm :: fcm_transport where
  "sample_fcm = \<lparr>fcm_default = Some sample_project, fcm_projects = [], fcm_baseUrl = ''https://f'',
     fcm_lastAuthWarnMs = 0, fcm_lastNoProjectWarnMs = 0, fcm_warnings = []\<rparr>"

definition sample_req :: send_req where
  "sample_req = \<lparr>sr_transport = ''fcm'', sr_token = ''d'', sr_app_id = JUndef, sr_env = JUndef, sr_payload = JUndef, sr_alert = JUndef\<rparr>"

definition dead_net :: push_net where
  "dead_net = \<lparr>sign_jwt = (\<lambda>_ _ _. Some ''j''), http_post = (\<lambda>_ _ _. None), apns_post = (\<lambda>_ _ _ _ _. None)\<rparr>"

theorem fcm_own_credentials_witness:
  "\<exists>p. fcm_projectFor (sr_app_id sample_req) sample_fcm = Some p \<and> fcm_url sample_fcm sample_project = fcm_url sample_fcm p
    \<and> (case fp_token p of
         Some (v, e) \<Rightarrow> ''tok'' = v \<and> of_int 0 + 60000 < e \<or> map_option fst (fcm_mint dead_net 0 p) = Some ''tok''
       | None \<Rightarrow> map_option fst (fcm_mint dead_net 0 p) = Some ''tok'')"
  by (rule fcm_own_credentials [where body = "fcm_body sample_req"])
    (simp add: fcm_request_def fcm_projectFor_def fcm_slot_for_def sample_fcm_def sample_req_def
      fcm_getAccessToken_def fcm_cached_def sample_project_def FCM_TOKEN_REFRESH_MARGIN_MS_def)

fun apns_run :: "push_net \<Rightarrow> (int \<times> send_req) list \<Rightarrow> apns_transport \<Rightarrow> apns_transport" where
  "apns_run net [] T = T"
| "apns_run net ((now, q) # qs) T = apns_run net qs (snd (apns_send net now q T))"

definition never_expired :: "push_net \<Rightarrow> bool" where
  "never_expired net \<longleftrightarrow> (\<forall>e t j top f st b. apns_post net e t j top f = Some (st, b) \<longrightarrow>
     (\<forall>r. classifyApnsResponse st b \<noteq> SendAuth r True))"

text \<open>A token that is still fresh is reused: no signing, and it stays.\<close>

definition fresh_from :: "int \<Rightarrow> apns_transport \<Rightarrow> bool" where
  "fresh_from t0 T \<longleftrightarrow> (case ap_jwt T of None \<Rightarrow> False | Some (v, m) \<Rightarrow> t0 \<le> m)"

lemma apns_warn_simps [simp]:
  "ap_jwt (apns_warnAuth now T) = ap_jwt T" "ap_signCount (apns_warnAuth now T) = ap_signCount T"
  "ap_refreshMs (apns_warnAuth now T) = ap_refreshMs T"
  "ap_jwt (apns_warnNoTopic now T) = ap_jwt T" "ap_signCount (apns_warnNoTopic now T) = ap_signCount T"
  "ap_refreshMs (apns_warnNoTopic now T) = ap_refreshMs T"
  by (simp_all add: apns_warnAuth_def apns_warnNoTopic_def)

lemma apns_getProviderToken_step:
  assumes "t0 \<le> now" "now < t0 + ap_refreshMs T"
  shows "let T' = snd (apns_getProviderToken net now T) in ap_refreshMs T' = ap_refreshMs T \<and>
    (fresh_from t0 T \<longrightarrow> T' = T) \<and>
    (T' = T \<or> fresh_from t0 T' \<and> ap_signCount T' = Suc (ap_signCount T))"
  using assms
  by (auto simp: apns_getProviderToken_def apns_signProviderToken_def fresh_from_def Let_def split_beta
      split: option.splits if_splits)

lemma apns_send_state:
  assumes "never_expired net"
  shows "(let T' = snd (apns_send net now q T) in ap_jwt T' = ap_jwt T \<and> ap_signCount T' = ap_signCount T \<and> ap_refreshMs T' = ap_refreshMs T)
    \<or> (let T' = snd (apns_send net now q T); T1 = snd (apns_getProviderToken net now T)
       in ap_jwt T' = ap_jwt T1 \<and> ap_signCount T' = ap_signCount T1 \<and> ap_refreshMs T' = ap_refreshMs T1)"
  using assms
  by (auto simp: apns_send_def never_expired_def Let_def split_beta split: option.splits send_result.splits)

lemma apns_run_signs:
  "never_expired net \<Longrightarrow> \<forall>q \<in> set qs. t0 \<le> fst q \<and> fst q < t0 + ap_refreshMs T \<Longrightarrow>
   ap_signCount (apns_run net qs T) \<le> ap_signCount T + (if fresh_from t0 T then 0 else 1)"
proof (induction qs arbitrary: T)
  case (Cons p qs)
  obtain now q where p: "p = (now, q)" by (cases p)
  let ?T' = "snd (apns_send net now q T)"
  have t: "t0 \<le> now" "now < t0 + ap_refreshMs T" using Cons.prems(2) p by auto
  have st: "ap_refreshMs ?T' = ap_refreshMs T" and
    c: "(fresh_from t0 ?T' \<or> \<not> fresh_from t0 T) \<and> ap_signCount ?T' + (if fresh_from t0 ?T' then 0 else 1)
      \<le> ap_signCount T + (if fresh_from t0 T then 0 else 1)"
    using apns_send_state [OF Cons.prems(1), of now q T] apns_getProviderToken_step [OF t, of net]
    by (auto simp: Let_def fresh_from_def)
  have "ap_signCount (apns_run net qs ?T') \<le> ap_signCount ?T' + (if fresh_from t0 ?T' then 0 else 1)"
    using Cons.prems st p by (intro Cons.IH) auto
  with c p show ?case by simp
qed simp

text \<open>
  The APNs provider token is reused as Apple requires: however many wakes are sent within one
  refresh interval, at most one token is signed, as long as Apple does not report it expired.
\<close>

theorem apns_token_reuse:
  assumes "never_expired net" "\<forall>q \<in> set qs. t0 \<le> fst q \<and> fst q < t0 + ap_refreshMs T"
  shows "ap_signCount (apns_run net qs T) \<le> ap_signCount T + 1"
  using apns_run_signs [OF assms] by (simp split: if_splits)

definition sample_apns :: apns_transport where
  "sample_apns = \<lparr>ap_key = ''k'', ap_keyId = ''i'', ap_teamId = ''t'', ap_topic = JStr ''b'', ap_topics = [], ap_defaultEnv = ''production'',
     ap_refreshMs = APNS_JWT_REFRESH_MS, ap_jwt = None, ap_signCount = 0, ap_lastAuthWarnMs = 0, ap_lastNoTopicWarnMs = 0, ap_warnings = []\<rparr>"

theorem apns_token_reuse_witness:
  "ap_signCount (apns_run dead_net [(5, sample_req), (6, sample_req), (7, sample_req)] sample_apns) \<le> ap_signCount sample_apns + 1"
  by (rule apns_token_reuse [where ?t0.0 = 0])
    (simp_all add: never_expired_def dead_net_def sample_apns_def APNS_JWT_REFRESH_MS_def)

lemma build_transports_ok:
  "build_transports mk names ts ns = Inr (ts', ns') \<Longrightarrow> set ns = fst ` set ts \<Longrightarrow> distinct ns \<Longrightarrow>
   set ns' = fst ` set ts' \<and> distinct ns' \<and> fst ` set ts' = fst ` set ts \<union> set names
     \<and> (\<forall>n \<in> set names. \<exists>t. mk n = Inr t)
     \<and> (\<forall>n t. jget ts' n = Some t \<longrightarrow> jget ts n = Some t \<or> mk n = Inr t)"
proof (induction mk names ts ns rule: build_transports.induct)
  case (2 mk n rest ts ns)
  then obtain t where t: "mk n = Inr t" by (cases "mk n") auto
  have eq: "(jget ts n = None) = (n \<notin> set ns)" using 2(3) by (simp add: map_of_eq_None_iff)
  have pre: "set (if jget ts n = None then ns @ [n] else ns) = fst ` set (jset n t ts)"
    "distinct (if jget ts n = None then ns @ [n] else ns)"
    using 2(3,4) eq by (auto simp: jset_keys)
  from 2(1) [OF t _ pre] 2(2) t show ?case by (auto simp: jset_keys split: if_splits)
qed auto

text \<open>
  Push is configured all or nothing: a configuration that loads has exactly the transports that
  \<open>TYO_MQ_PUSH_TRANSPORT\<close> names (each name once, blanks trimmed), every one built by its own
  constructor, and a name that is unknown or lacks its credentials makes the whole load fail; an
  endpoint with any other transport name is never woken.
\<close>

theorem loadConfig_transports:
  assumes "loadConfig be = Inr (Some c)"
  shows "distinct (pc_transportNames c) \<and> pc_transportNames c \<noteq> []
    \<and> set (pc_transportNames c) = set (config_names (to_string (env_val (be_vars be) ''TYO_MQ_PUSH_TRANSPORT'')))
    \<and> (\<forall>n. transportFor (Some c) n \<noteq> None \<longleftrightarrow> n \<in> set (pc_transportNames c))
    \<and> (\<forall>n t. transportFor (Some c) n = Some t \<longrightarrow> createTransport be n = Inr t)"
proof -
  let ?names = "config_names (to_string (env_val (be_vars be) ''TYO_MQ_PUSH_TRANSPORT''))"
  from assms obtain ts ns where b: "build_transports (createTransport be) ?names [] [] = Inr (ts, ns)"
    and ne: "?names \<noteq> []" and c: "pc_transports c = ts" "pc_transportNames c = ns"
    by (auto simp: loadConfig_def Let_def split: if_split_asm sum.splits)
  note ok = build_transports_ok [OF b]
  have "ts \<noteq> []" using ok ne by auto
  then have "transportFor (Some c) n = jget ts n" for n
    using c by (simp add: transportFor_def isConfigured_def)
  with ok c ne show ?thesis by (auto simp: map_of_eq_None_iff)
qed

theorem loadConfig_transports_witness:
  "let be = \<lparr>be_vars = (\<lambda>k. if k = ''TYO_MQ_PUSH_TRANSPORT'' then Some ''null,null'' else None), be_fs = (\<lambda>_. None),
             be_read = (\<lambda>_. None), be_json = (\<lambda>_. None), be_key_ok = (\<lambda>_. False)\<rparr>
   in \<exists>c. loadConfig be = Inr (Some c) \<and> distinct (pc_transportNames c)
        \<and> set (pc_transportNames c) = set (config_names (to_string (env_val (be_vars be) ''TYO_MQ_PUSH_TRANSPORT'')))"
proof -
  let ?be = "\<lparr>be_vars = (\<lambda>k. if k = ''TYO_MQ_PUSH_TRANSPORT'' then Some ''null,null'' else None), be_fs = (\<lambda>_. None),
             be_read = (\<lambda>_. None), be_json = (\<lambda>_. None), be_key_ok = (\<lambda>_. False)\<rparr>"
  have "config_names ''null,null'' = [''null'', ''null'']"
    by (simp add: config_names_def trim_def is_space_def)
  then obtain c where "loadConfig ?be = Inr (Some c)"
    by (simp add: loadConfig_def env_val_def createTransport_def Let_def)
  with loadConfig_transports [OF this] show ?thesis unfolding Let_def by blast
qed

end
