(* ===== verification/Push_Registry.thy ===== *)
theory Push_Registry
  imports Push_Transport Replay_Guard
begin

text \<open>
  The token registry of \<open>lib/push.js\<close> with its durable backing store (\<open>lib/notify-push-store.js\<close>),
  the wake orchestration and the Notify delivery. \<open>Map\<close>s nest as in the code: realm, then identity.
  The registry swallows failed store writes; the model is of a store whose writes succeed, as a list of
  rows in rowid order. The transports' \<open>send\<close> is a parameter giving the outcome for each endpoint; the sends of one wake,
  concurrent in the code, are taken in list order.
\<close>

section \<open>Endpoints and the backing store\<close>

record endpoint =
  ep_transport :: string
  ep_token :: string
  ep_app_id :: jsval
  ep_env :: jsval
  ep_min_priority :: jsval
  ep_added_at :: int
  ep_last_ok :: "int option"

record push_row =
  pr_realm :: string
  pr_identity :: string
  pr_transport :: string
  pr_token :: string
  pr_app_id :: "string option"
  pr_env :: "string option"
  pr_min_priority :: "jsnum option"
  pr_added_at :: int

type_synonym push_store = "push_row list"

definition opt_string :: "jsval \<Rightarrow> string option" where
  "opt_string v = (if nullish v then None else Some (to_string v))"

definition opt_number :: "jsval \<Rightarrow> jsnum option" where
  "opt_number v = (case v of JNum n \<Rightarrow> Some n | _ \<Rightarrow> None)"

definition push_all :: "push_store \<Rightarrow> push_row list" where
  "push_all st = st"

definition ep_row :: "string \<Rightarrow> string \<Rightarrow> endpoint \<Rightarrow> push_row" where
  "ep_row realm identity e = \<lparr>pr_realm = realm, pr_identity = identity, pr_transport = ep_transport e,
     pr_token = ep_token e, pr_app_id = opt_string (ep_app_id e), pr_env = opt_string (ep_env e),
     pr_min_priority = opt_number (ep_min_priority e), pr_added_at = ep_added_at e\<rparr>"

definition row_key :: "push_row \<Rightarrow> string \<times> string \<times> string \<times> string" where
  "row_key r = (pr_realm r, pr_identity r, pr_transport r, pr_token r)"

definition push_put :: "string \<Rightarrow> string \<Rightarrow> endpoint \<Rightarrow> push_store \<Rightarrow> push_store" where
  "push_put realm identity e st =
     filter (\<lambda>r. row_key r \<noteq> (realm, identity, ep_transport e, ep_token e)) st @ [ep_row realm identity e]"

definition push_del :: "string \<Rightarrow> string \<Rightarrow> string \<Rightarrow> string \<Rightarrow> push_store \<Rightarrow> push_store" where
  "push_del realm identity transport token st = filter (\<lambda>r. row_key r \<noteq> (realm, identity, transport, token)) st"

definition push_pruneOlderThan :: "int \<Rightarrow> push_store \<Rightarrow> push_store" where
  "push_pruneOlderThan cutoff st = filter (\<lambda>r. \<not> pr_added_at r < cutoff) st"

section \<open>The registry\<close>

type_synonym 'v by_identity = "(string, 'v) jsmap"

record registry =
  rg_maxPerIdentity :: nat
  rg_coalesceWindowMs :: int
  rg_maxIdentities :: nat
  rg_ttlMs :: int
  rg_byRealm :: "(string, endpoint list by_identity) jsmap"
  rg_lastWake :: "(string, int by_identity) jsmap"
  rg_touch :: "(string, int by_identity) jsmap"
  rg_failLog :: "(string, int) jsmap"
  rg_store :: "push_store option"

definition realm_map :: "(string, 'v by_identity) jsmap \<Rightarrow> string \<Rightarrow> 'v by_identity" where
  "realm_map mm realm = (case jget mm realm of None \<Rightarrow> [] | Some m \<Rightarrow> m)"

definition registry_empty :: "nat \<Rightarrow> int \<Rightarrow> nat \<Rightarrow> int \<Rightarrow> push_store option \<Rightarrow> registry" where
  "registry_empty maxPer window maxIds ttl st =
     \<lparr>rg_maxPerIdentity = (if maxPer = 0 then 10 else maxPer),
      rg_coalesceWindowMs = (if window = 0 then 10 * 1000 else window),
      rg_maxIdentities = maxIds, rg_ttlMs = ttl, rg_byRealm = [], rg_lastWake = [], rg_touch = [],
      rg_failLog = [], rg_store = st\<rparr>"

definition store_put :: "string \<Rightarrow> string \<Rightarrow> endpoint \<Rightarrow> registry \<Rightarrow> registry" where
  "store_put realm identity e R = R\<lparr>rg_store := map_option (push_put realm identity e) (rg_store R)\<rparr>"

definition store_del :: "string \<Rightarrow> string \<Rightarrow> string \<Rightarrow> string \<Rightarrow> registry \<Rightarrow> registry" where
  "store_del realm identity transport token R =
     R\<lparr>rg_store := map_option (push_del realm identity transport token) (rg_store R)\<rparr>"

definition row_endpoint :: "push_row \<Rightarrow> endpoint" where
  "row_endpoint r = \<lparr>ep_transport = pr_transport r, ep_token = pr_token r,
     ep_app_id = (case pr_app_id r of None \<Rightarrow> JNull | Some a \<Rightarrow> JStr a),
     ep_env = (case pr_env r of None \<Rightarrow> JNull | Some a \<Rightarrow> JStr a),
     ep_min_priority = (case pr_min_priority r of None \<Rightarrow> JNull | Some n \<Rightarrow> JNum n),
     ep_added_at = pr_added_at r, ep_last_ok = None\<rparr>"

text \<open>Keep the last \<open>n\<close> elements: repeated \<open>shift()\<close> while the list is too long.\<close>

definition keep_last :: "nat \<Rightarrow> 'a list \<Rightarrow> 'a list" where
  "keep_last n xs = drop (length xs - n) xs"

definition hydrate_row :: "int \<Rightarrow> int \<Rightarrow> push_row \<Rightarrow> registry \<Rightarrow> registry" where
  "hydrate_row now cutoff r R =
     (if cutoff \<noteq> 0 \<and> pr_added_at r < cutoff then R
      else let m = realm_map (rg_byRealm R) (pr_realm r);
               list0 = (case jget m (pr_identity r) of None \<Rightarrow> [] | Some l \<Rightarrow> l);
               list = keep_last (rg_maxPerIdentity R) (list0 @ [row_endpoint r]);
               tm = jdel (pr_identity r) (realm_map (rg_touch R) (pr_realm r))
           in R\<lparr>rg_byRealm := jset (pr_realm r) (jset (pr_identity r) list m) (rg_byRealm R),
                rg_touch := jset (pr_realm r) (tm @ [(pr_identity r, if pr_added_at r = 0 then now else pr_added_at r)]) (rg_touch R)\<rparr>)"

definition registry_hydrate :: "int \<Rightarrow> registry \<Rightarrow> registry" where
  "registry_hydrate now R =
     (case rg_store R of
        None \<Rightarrow> R
      | Some st \<Rightarrow>
          (let cutoff = (if rg_ttlMs R \<noteq> 0 then now - rg_ttlMs R else 0);
               R' = fold (hydrate_row now cutoff) (push_all st) R
           in if cutoff \<noteq> 0 then R'\<lparr>rg_store := Some (push_pruneOlderThan cutoff st)\<rparr> else R'))"

definition registry_new :: "int \<Rightarrow> nat \<Rightarrow> int \<Rightarrow> nat \<Rightarrow> int \<Rightarrow> push_store option \<Rightarrow> registry" where
  "registry_new now maxPer window maxIds ttl st = registry_hydrate now (registry_empty maxPer window maxIds ttl st)"

definition sweepExpired :: "string \<Rightarrow> int \<Rightarrow> registry \<Rightarrow> registry" where
  "sweepExpired realm now R =
     (if rg_ttlMs R = 0 then R
      else case jget (rg_touch R) realm of
        None \<Rightarrow> R
      | Some tm \<Rightarrow>
          (let dead = (\<lambda>i. case jget tm i of None \<Rightarrow> False | Some ts \<Rightarrow> ts < now - rg_ttlMs R) in
           R\<lparr>rg_byRealm := (case jget (rg_byRealm R) realm of None \<Rightarrow> rg_byRealm R
               | Some m \<Rightarrow> jset realm (filter (\<lambda>(i, l). \<not> dead i) m) (rg_byRealm R)),
             rg_touch := jset realm (filter (\<lambda>(i, ts). \<not> ts < now - rg_ttlMs R) tm) (rg_touch R)\<rparr>))"

record register_arg =
  ra_transport :: string
  ra_token :: string
  ra_app_id :: jsval
  ra_env :: jsval
  ra_min_priority :: jsval

definition same_device :: "string \<Rightarrow> string \<Rightarrow> endpoint \<Rightarrow> bool" where
  "same_device transport token e \<longleftrightarrow> ep_transport e = transport \<and> ep_token e = token"

definition refresh_endpoint :: "int \<Rightarrow> register_arg \<Rightarrow> endpoint \<Rightarrow> endpoint" where
  "refresh_endpoint now a e = e\<lparr>ep_added_at := now,
     ep_app_id := (if ra_app_id a \<noteq> JUndef then ra_app_id a else ep_app_id e),
     ep_env := (if ra_env a \<noteq> JUndef then ra_env a else ep_env e),
     ep_min_priority := (if ra_min_priority a \<noteq> JUndef then ra_min_priority a else ep_min_priority e)\<rparr>"

definition fresh_endpoint :: "int \<Rightarrow> register_arg \<Rightarrow> endpoint" where
  "fresh_endpoint now a = \<lparr>ep_transport = ra_transport a, ep_token = ra_token a,
     ep_app_id = (if ra_app_id a \<noteq> JUndef then ra_app_id a else JNull),
     ep_env = (if ra_env a \<noteq> JUndef then ra_env a else JNull),
     ep_min_priority = (if is_num (ra_min_priority a) then ra_min_priority a else JNull),
     ep_added_at = now, ep_last_ok = None\<rparr>"

text \<open>Update the first endpoint of the device.\<close>

fun update_device :: "string \<Rightarrow> string \<Rightarrow> (endpoint \<Rightarrow> endpoint) \<Rightarrow> endpoint list \<Rightarrow> endpoint list" where
  "update_device tr tk f [] = []"
| "update_device tr tk f (e # es) = (if same_device tr tk e then f e # es else e # update_device tr tk f es)"

text \<open>
  The least recently used identities go, in touch order, until the realm is within its bound; the
  identity being registered ends the loop.
\<close>

fun evict_identities ::
  "nat \<Rightarrow> string \<Rightarrow> endpoint list by_identity \<Rightarrow> int by_identity \<Rightarrow> (string \<times> endpoint list) list
     \<Rightarrow> endpoint list by_identity \<times> int by_identity \<times> (string \<times> endpoint list) list" where
  "evict_identities mx me m [] gone = (m, [], gone)"
| "evict_identities mx me m ((oldest, ts) # tm) gone =
     (if length m \<le> mx \<or> oldest = me then (m, (oldest, ts) # tm, gone)
      else evict_identities mx me (jdel oldest m) tm
             (gone @ (case jget m oldest of None \<Rightarrow> [] | Some l \<Rightarrow> [(oldest, l)])))"

definition del_endpoints :: "string \<Rightarrow> string \<Rightarrow> endpoint list \<Rightarrow> registry \<Rightarrow> registry" where
  "del_endpoints realm identity es R = fold (\<lambda>e. store_del realm identity (ep_transport e) (ep_token e)) es R"

text \<open>
  Register or refresh a device in one identity's list: the stored endpoint, the new list, and the
  endpoints pushed out at the front.
\<close>

definition upsert_endpoint :: "int \<Rightarrow> register_arg \<Rightarrow> nat \<Rightarrow> endpoint list \<Rightarrow> endpoint \<times> endpoint list \<times> endpoint list" where
  "upsert_endpoint now a maxPer list0 =
     (case find (same_device (ra_transport a) (ra_token a)) list0 of
        Some e \<Rightarrow> (refresh_endpoint now a e,
                   update_device (ra_transport a) (ra_token a) (refresh_endpoint now a) list0, [])
      | None \<Rightarrow> (let full = list0 @ [fresh_endpoint now a]
                 in (fresh_endpoint now a, keep_last maxPer full, take (length full - maxPer) full)))"

definition registry_register :: "int \<Rightarrow> string \<Rightarrow> string \<Rightarrow> register_arg \<Rightarrow> registry \<Rightarrow> endpoint \<times> registry" where
  "registry_register now realm identity a R0 =
     (let R1 = (if rg_ttlMs R0 \<noteq> 0 then sweepExpired realm now R0 else R0);
          m = realm_map (rg_byRealm R1) realm;
          list0 = (case jget m identity of None \<Rightarrow> [] | Some l \<Rightarrow> l);
          (result, list, evicted) = upsert_endpoint now a (rg_maxPerIdentity R1) list0;
          m1 = jset identity list m;
          tm1 = jdel identity (realm_map (rg_touch R1) realm) @ [(identity, now)];
          (m2, tm2, gone) = (if rg_maxIdentities R1 = 0 then (m1, tm1, [])
                             else evict_identities (rg_maxIdentities R1) identity m1 tm1 []);
          R2 = del_endpoints realm identity evicted R1;
          R3 = R2\<lparr>rg_byRealm := jset realm m2 (rg_byRealm R2), rg_touch := jset realm tm2 (rg_touch R2)\<rparr>;
          R4 = fold (\<lambda>(i, l). del_endpoints realm i l) gone R3
      in (result, store_put realm identity result R4))"

definition registry_unregister :: "string \<Rightarrow> string \<Rightarrow> string \<Rightarrow> string \<Rightarrow> registry \<Rightarrow> nat \<times> registry" where
  "registry_unregister realm identity transport token R =
     (case jget (rg_byRealm R) realm of
        None \<Rightarrow> (0, R)
      | Some m \<Rightarrow> (case jget m identity of
          None \<Rightarrow> (0, R)
        | Some list \<Rightarrow>
            (let kept = filter (\<lambda>e. \<not> same_device transport token e) list;
                 R1 = (if kept = []
                       then R\<lparr>rg_byRealm := jset realm (jdel identity m) (rg_byRealm R),
                              rg_touch := (case jget (rg_touch R) realm of None \<Rightarrow> rg_touch R
                                 | Some tm \<Rightarrow> jset realm (jdel identity tm) (rg_touch R))\<rparr>
                       else R\<lparr>rg_byRealm := jset realm (jset identity kept m) (rg_byRealm R)\<rparr>)
             in (length list - length kept, store_del realm identity transport token R1))))"

definition registry_prune :: "string \<Rightarrow> string \<Rightarrow> endpoint \<Rightarrow> registry \<Rightarrow> nat \<times> registry" where
  "registry_prune realm identity e R = registry_unregister realm identity (ep_transport e) (ep_token e) R"

definition registry_markOk :: "int \<Rightarrow> string \<Rightarrow> string \<Rightarrow> endpoint \<Rightarrow> registry \<Rightarrow> registry" where
  "registry_markOk now realm identity e R =
     (case jget (rg_byRealm R) realm of
        None \<Rightarrow> R
      | Some m \<Rightarrow> (case jget m identity of
          None \<Rightarrow> R
        | Some list \<Rightarrow> R\<lparr>rg_byRealm := jset realm (jset identity
            (update_device (ep_transport e) (ep_token e) (\<lambda>x. x\<lparr>ep_last_ok := Some now\<rparr>) list) m) (rg_byRealm R)\<rparr>))"

definition registry_list :: "string \<Rightarrow> string \<Rightarrow> registry \<Rightarrow> endpoint list" where
  "registry_list realm identity R =
     (case jget (rg_byRealm R) realm of None \<Rightarrow> [] | Some m \<Rightarrow> (case jget m identity of None \<Rightarrow> [] | Some l \<Rightarrow> l))"

definition registry_count :: "string \<Rightarrow> string \<Rightarrow> registry \<Rightarrow> nat" where
  "registry_count realm identity R = length (registry_list realm identity R)"

definition coalesceOk :: "int \<Rightarrow> int \<Rightarrow> string \<Rightarrow> string \<Rightarrow> registry \<Rightarrow> bool \<times> registry" where
  "coalesceOk now windowMs realm identity R =
     (let m = realm_map (rg_lastWake R) realm in
      if (case jget m identity of None \<Rightarrow> False | Some prev \<Rightarrow> now - prev < windowMs)
      then (False, R\<lparr>rg_lastWake := jset realm m (rg_lastWake R)\<rparr>)
      else (True, R\<lparr>rg_lastWake := jset realm (jset identity now m) (rg_lastWake R)\<rparr>))"

definition resetCoalesce :: "string \<Rightarrow> string \<Rightarrow> registry \<Rightarrow> registry" where
  "resetCoalesce realm identity R =
     (case jget (rg_lastWake R) realm of None \<Rightarrow> R
      | Some m \<Rightarrow> R\<lparr>rg_lastWake := jset realm (jdel identity m) (rg_lastWake R)\<rparr>)"

section \<open>Waking\<close>

definition logWakeFailure :: "int \<Rightarrow> string \<Rightarrow> string \<Rightarrow> registry \<Rightarrow> registry" where
  "logWakeFailure now transport reason R =
     (let key = transport @ '':'' @ reason in
      if (case jget (rg_failLog R) key of None \<Rightarrow> False | Some prev \<Rightarrow> now - prev < PUSH_FAIL_LOG_WINDOW_MS) then R
      else R\<lparr>rg_failLog := jset key now (rg_failLog R)\<rparr>)"

datatype wake_result = WakeOk | WakeGone | WakeUnsafe | WakeFail | WakeThrow

datatype wake_outcome = Skipped string | Sent nat

text \<open>The effect of one endpoint's outcome on the registry.\<close>

definition settle_wake :: "int \<Rightarrow> string \<Rightarrow> string \<Rightarrow> endpoint \<Rightarrow> wake_result \<Rightarrow> registry \<Rightarrow> registry" where
  "settle_wake now realm identity e r R =
     (case r of
        WakeGone \<Rightarrow> logWakeFailure now (ep_transport e) ''gone'' (snd (registry_prune realm identity e R))
      | WakeOk \<Rightarrow> registry_markOk now realm identity e R
      | WakeUnsafe \<Rightarrow> logWakeFailure now (ep_transport e) ''unsafe'' R
      | WakeFail \<Rightarrow> logWakeFailure now (ep_transport e) ''transient'' R
      | WakeThrow \<Rightarrow> logWakeFailure now (ep_transport e) ''error'' R)"

definition wake_req :: "jsval \<Rightarrow> jsval \<Rightarrow> endpoint \<Rightarrow> send_req" where
  "wake_req payload alert e = \<lparr>sr_transport = ep_transport e, sr_token = ep_token e, sr_app_id = ep_app_id e,
     sr_env = ep_env e, sr_payload = payload, sr_alert = alert\<rparr>"

fun wake_endpoints ::
  "(transport \<Rightarrow> send_req \<Rightarrow> wake_result) \<Rightarrow> push_config option \<Rightarrow> jsval \<Rightarrow> jsval \<Rightarrow> int \<Rightarrow> string \<Rightarrow> string
     \<Rightarrow> endpoint list \<Rightarrow> registry \<Rightarrow> registry" where
  "wake_endpoints send cfg payload alert now realm identity [] R = R"
| "wake_endpoints send cfg payload alert now realm identity (e # es) R =
     wake_endpoints send cfg payload alert now realm identity es
       (case transportFor cfg (ep_transport e) of
          None \<Rightarrow> R
        | Some t \<Rightarrow> settle_wake now realm identity e (send t (wake_req payload alert e)) R)"

definition wake_kind :: "jsval \<Rightarrow> jsval" where
  "wake_kind kind = (if kind = JStr ''alert'' then JStr ''alert'' else JStr ''silent'')"

definition fireWake ::
  "(transport \<Rightarrow> send_req \<Rightarrow> wake_result) \<Rightarrow> push_config option \<Rightarrow> int \<Rightarrow> int option \<Rightarrow> jsval \<Rightarrow> jsval
     \<Rightarrow> string \<Rightarrow> string \<Rightarrow> registry \<Rightarrow> wake_outcome \<times> registry" where
  "fireWake send cfg now window kind0 alertCopy realm identity R =
     (let windowMs = (case window of Some w \<Rightarrow> if w = 0 then rg_coalesceWindowMs R else w | None \<Rightarrow> rg_coalesceWindowMs R);
          kind = wake_kind kind0;
          endpoints = registry_list realm identity R in
      if kind0 = JBool False then (Skipped ''suppressed'', R)
      else if \<not> isConfigured cfg then (Skipped ''unconfigured'', R)
      else if endpoints = [] then (Skipped ''no-endpoints'', R)
      else let (ok, R1) = coalesceOk now windowMs realm identity R in
        if \<not> ok then (Skipped ''coalesced'', R1)
        else (case buildWakePayload kind of
            Inl _ \<Rightarrow> (Skipped ''error'', R1)
          | Inr payload \<Rightarrow>
              (Sent (length endpoints),
               wake_endpoints send cfg payload
                 (if kind = JStr ''alert'' then alert_obj (normalizeWakeAlert alertCopy (JStr realm)) else JUndef)
                 now realm identity endpoints R1)))"

section \<open>Notify delivery\<close>

definition below_minimum :: "jsval \<Rightarrow> endpoint \<Rightarrow> bool" where
  "below_minimum msg e \<longleftrightarrow>
     (case ep_min_priority e of
        JNum n \<Rightarrow> num_lt (Fin 0) n \<and> num_lt (number_or (if truthy msg then obj_get msg ''priority'' else msg) 3) n
      | _ \<Rightarrow> False)"

definition deliverNotifyPush ::
  "(transport \<Rightarrow> send_req \<Rightarrow> wake_result) \<Rightarrow> push_config option \<Rightarrow> int \<Rightarrow> string \<Rightarrow> string \<Rightarrow> jsval \<Rightarrow> string
     \<Rightarrow> registry \<Rightarrow> wake_outcome \<times> registry" where
  "deliverNotifyPush send cfg now realm topic msg mode R =
     (let endpoints = registry_list realm topic R in
      if mode = ''off'' then (Skipped ''off'', R)
      else if \<not> isConfigured cfg then (Skipped ''unconfigured'', R)
      else if endpoints = [] then (Skipped ''no-endpoints'', R)
      else (case notify_push_payload msg mode of
          None \<Rightarrow> (Skipped ''error'', R)
        | Some p \<Rightarrow>
            (let wanted = filter (\<lambda>e. \<not> below_minimum msg e) endpoints in
             (Sent (length wanted), wake_endpoints send cfg (payload_obj p) JUndef now realm topic wanted R))))"

section \<open>Coalescing\<close>

definition wake_guard :: "int \<Rightarrow> string \<times> string \<Rightarrow> registry \<Rightarrow> bool \<times> registry" where
  "wake_guard t k R = coalesceOk t (rg_coalesceWindowMs R) (fst k) (snd k) R"

lemma realm_map_jset [simp]:
  "realm_map (jset r m mm) r' = (if r' = r then m else realm_map mm r')"
  by (simp add: realm_map_def)

interpretation wake: replay_guard wake_guard
    "\<lambda>R k. jget (realm_map (rg_lastWake R) (fst k)) (snd k)" rg_coalesceWindowMs "\<lambda>R. True"
  by unfold_locales (auto simp: wake_guard_def coalesceOk_def Let_def split: if_splits option.splits)

text \<open>
  One wake per identity and window: over any run of wake attempts in time order, for any mix of
  realms and identities, two wakes let through for the same identity are at least the coalesce window
  apart.
\<close>

theorem wakes_coalesced:
  assumes "sorted (map fst qs)"
  shows "sorted_wrt (\<lambda>t t'. t' - t \<ge> rg_coalesceWindowMs R) (accepted_at k (run_guard wake_guard qs R))"
  by (rule wake.accepted_apart) (simp_all add: assms)

theorem wakes_coalesced_witness:
  "sorted_wrt (\<lambda>t t'. t' - t \<ge> rg_coalesceWindowMs (registry_empty 0 0 0 0 None))
     (accepted_at (''r'', ''u'') (run_guard wake_guard [(0, (''r'', ''u'')), (5, (''r'', ''u'')), (10000, (''r'', ''u''))]
        (registry_empty 0 0 0 0 None)))"
  by (rule wakes_coalesced) simp

section \<open>Registry lists\<close>

lemma registry_list_map: "registry_list realm i R = (case jget (realm_map (rg_byRealm R) realm) i of None \<Rightarrow> [] | Some l \<Rightarrow> l)"
  by (simp add: registry_list_def realm_map_def split: option.split)

abbreviation touch_of :: "string \<Rightarrow> string \<Rightarrow> registry \<Rightarrow> int option" where
  "touch_of realm i R \<equiv> jget (realm_map (rg_touch R) realm) i"

definition device :: "endpoint \<Rightarrow> string \<times> string" where
  "device e = (ep_transport e, ep_token e)"

lemma same_device_iff: "same_device tr tk e \<longleftrightarrow> device e = (tr, tk)"
  by (simp add: same_device_def device_def)

lemma device_simps [simp]:
  "device (refresh_endpoint now a e) = device e" "device (fresh_endpoint now a) = (ra_transport a, ra_token a)"
  "ep_added_at (refresh_endpoint now a e) = now" "ep_added_at (fresh_endpoint now a) = now"
  by (simp_all add: device_def refresh_endpoint_def fresh_endpoint_def)

lemma update_device_map: "(\<And>e. device (f e) = device e) \<Longrightarrow> map device (update_device tr tk f es) = map device es"
  by (induction es) auto

lemma update_device_set:
  "distinct (map device es) \<Longrightarrow> find (same_device tr tk) es = Some e \<Longrightarrow>
   set (update_device tr tk f es) = insert (f e) {x \<in> set es. device x \<noteq> (tr, tk)}"
  by (induction es) (force simp: same_device_iff split: if_splits)+

lemma keep_last_set: "set (keep_last n xs) \<subseteq> set xs"
  by (auto simp: keep_last_def dest: in_set_dropD)

lemma keep_last_length: "length (keep_last n xs) \<le> n"
  by (simp add: keep_last_def)

lemma keep_last_all: "length xs \<le> n \<Longrightarrow> keep_last n xs = xs"
  by (simp add: keep_last_def)

lemma keep_last_split: "take (length xs - n) xs @ keep_last n xs = xs"
  by (simp add: keep_last_def)

lemma keep_last_snoc: "0 < n \<Longrightarrow> x \<in> set (keep_last n (xs @ [x]))"
  by (simp add: keep_last_def)

lemma store_simps [simp]:
  "rg_byRealm (store_put realm i e R) = rg_byRealm R" "rg_touch (store_put realm i e R) = rg_touch R"
  "rg_byRealm (del_endpoints realm i es R) = rg_byRealm R" "rg_touch (del_endpoints realm i es R) = rg_touch R"
  "rg_maxPerIdentity (del_endpoints realm i es R) = rg_maxPerIdentity R"
  "rg_maxIdentities (del_endpoints realm i es R) = rg_maxIdentities R" "rg_ttlMs (del_endpoints realm i es R) = rg_ttlMs R"
  "rg_ttlMs (store_put realm i e R) = rg_ttlMs R" "rg_maxPerIdentity (store_put realm i e R) = rg_maxPerIdentity R"
  "rg_maxIdentities (store_put realm i e R) = rg_maxIdentities R"
proof -
  show "rg_byRealm (del_endpoints realm i es R) = rg_byRealm R" "rg_touch (del_endpoints realm i es R) = rg_touch R"
    "rg_maxPerIdentity (del_endpoints realm i es R) = rg_maxPerIdentity R"
    "rg_maxIdentities (del_endpoints realm i es R) = rg_maxIdentities R" "rg_ttlMs (del_endpoints realm i es R) = rg_ttlMs R"
    unfolding del_endpoints_def by (induction es arbitrary: R) (simp_all add: store_del_def)
qed (simp_all add: store_put_def)

lemma del_gone_simps [simp]:
  "rg_byRealm (fold (\<lambda>(i, l). del_endpoints realm i l) gone R) = rg_byRealm R"
  "rg_touch (fold (\<lambda>(i, l). del_endpoints realm i l) gone R) = rg_touch R"
  "rg_maxPerIdentity (fold (\<lambda>(i, l). del_endpoints realm i l) gone R) = rg_maxPerIdentity R"
  "rg_maxIdentities (fold (\<lambda>(i, l). del_endpoints realm i l) gone R) = rg_maxIdentities R"
  "rg_ttlMs (fold (\<lambda>(i, l). del_endpoints realm i l) gone R) = rg_ttlMs R"
  by (induction gone arbitrary: R) auto

lemma del_endpoints_store:
  "rg_store R = Some st \<Longrightarrow> rg_store (del_endpoints realm i es R) =
     Some (filter (\<lambda>r. \<not> (\<exists>e \<in> set es. row_key r = (realm, i, ep_transport e, ep_token e))) st)"
proof (induction es arbitrary: R st)
  case (Cons e es)
  from Cons.prems have "rg_store (store_del realm i (ep_transport e) (ep_token e) R)
      = Some (filter (\<lambda>r. row_key r \<noteq> (realm, i, ep_transport e, ep_token e)) st)"
    by (simp add: store_del_def push_del_def)
  from Cons.IH [OF this] show ?case
    by (auto simp: del_endpoints_def filter_filter intro!: filter_cong)
qed (simp add: del_endpoints_def)

lemma del_gone_store:
  "rg_store R = Some st \<Longrightarrow> rg_store (fold (\<lambda>(i, l). del_endpoints realm i l) gone R) =
     Some (filter (\<lambda>r. \<not> (\<exists>(i, l) \<in> set gone. \<exists>e \<in> set l. row_key r = (realm, i, ep_transport e, ep_token e))) st)"
proof (induction gone arbitrary: R st)
  case (Cons g gone)
  obtain i l where g: "g = (i, l)" by (cases g)
  from Cons.IH [OF del_endpoints_store [OF Cons.prems]] g show ?case
    by (auto simp: filter_filter intro!: filter_cong)
qed simp

text \<open>What the eviction of idle identities takes away.\<close>

lemma evict_spec:
  "evict_identities mx me m tm gone0 = (m2, tm2, gone) \<Longrightarrow> wf_map tm \<Longrightarrow>
   \<exists>ids. me \<notin> ids \<and> (\<forall>i. jget m2 i = (if i \<in> ids then None else jget m i))
     \<and> (\<forall>i. jget tm2 i = (if i \<in> ids then None else jget tm i))
     \<and> set gone = set gone0 \<union> {(i, l). i \<in> ids \<and> jget m i = Some l} \<and> (wf_map m \<longrightarrow> wf_map m2) \<and> wf_map tm2"
proof (induction mx me m tm gone0 rule: evict_identities.induct)
  case (1 mx me m gone)
  then show ?case by (intro exI [of _ "{}"]) auto
next
  case (2 mx me m oldest ts tm gone0)
  show ?case
  proof (cases "length m \<le> mx \<or> oldest = me")
    case True
    with 2 show ?thesis by (intro exI [of _ "{}"]) auto
  next
    case False
    from 2(3) have wf: "wf_map tm" and fresh: "oldest \<notin> fst ` set tm" by (auto simp: wf_map_def)
    from False 2(2) have eq: "evict_identities mx me (jdel oldest m) tm
        (gone0 @ (case jget m oldest of None \<Rightarrow> [] | Some l \<Rightarrow> [(oldest, l)])) = (m2, tm2, gone)" by simp
    from 2(1) [OF False eq wf] obtain ids where ids: "me \<notin> ids"
      "\<forall>i. jget m2 i = (if i \<in> ids then None else jget (jdel oldest m) i)"
      "\<forall>i. jget tm2 i = (if i \<in> ids then None else jget tm i)"
      "set gone = set (gone0 @ (case jget m oldest of None \<Rightarrow> [] | Some l \<Rightarrow> [(oldest, l)]))
         \<union> {(i, l). i \<in> ids \<and> jget (jdel oldest m) i = Some l}"
      "wf_map (jdel oldest m) \<longrightarrow> wf_map m2" "wf_map tm2" by blast
    have "jget tm oldest = None" using fresh by (simp add: map_of_eq_None_iff)
    with ids False show ?thesis
      by (intro exI [of _ "insert oldest ids"]) (auto split: option.splits if_splits)
  qed
qed

lemma evict_bound:
  "evict_identities mx me m tm gone0 = (m2, tm2, gone) \<Longrightarrow> wf_map m \<Longrightarrow> fst ` set m \<subseteq> insert me (fst ` set tm) \<Longrightarrow>
   (\<exists>tm' ts. tm = tm' @ [(me, ts)] \<and> me \<notin> fst ` set tm') \<Longrightarrow> length m2 \<le> max 1 mx"
proof (induction mx me m tm gone0 rule: evict_identities.induct)
  case (2 mx me m oldest ts tm gone0)
  show ?case
  proof (cases "length m \<le> mx")
    case True
    with 2 show ?thesis by simp
  next
    case long: False
    show ?thesis
    proof (cases "oldest = me")
      case True
      with 2(5) have "tm = []" by (auto simp: Cons_eq_append_conv)
      with 2(4) True have "fst ` set m \<subseteq> {me}" by auto
      moreover have "length m = card (fst ` set m)" using 2(3) by (rule wf_map_card)
      ultimately have "length m \<le> 1" using card_mono [of "{me}" "fst ` set m"] by simp
      with True 2(2) show ?thesis by simp
    next
      case False
      from 2(5) False obtain tm' ts' where tm': "tm = tm' @ [(me, ts')]" "me \<notin> fst ` set tm'"
        by (cases "tm") (auto simp: Cons_eq_append_conv)
      have "fst ` set (jdel oldest m) \<subseteq> insert me (fst ` set tm)"
        using 2(4) by (auto simp: jdel_keys)
      with 2(1) [of] long False 2(2,3) tm' show ?thesis by auto
    qed
  qed
qed simp

end
