(* ===== verification/Push_Durable.thy ===== *)
theory Push_Durable
  imports Push_Registry
begin

text \<open>
  The registry and its backing store together: after any registrations and removals the store mirrors
  the memory (\<open>mirrors\<close>), and a registry rebuilt from the store after a restart knows the same devices.
\<close>

section \<open>The effect of a registration\<close>

lemma upsert_spec:
  assumes u: "upsert_endpoint now a n list0 = (result, list, evicted)" and d: "distinct (map device list0)" and n: "0 < n"
  shows "distinct (map device list) \<and> result \<in> set list \<and> device result = (ra_transport a, ra_token a)
    \<and> ep_added_at result = now \<and> (length list0 \<le> n \<longrightarrow> length list \<le> n)
    \<and> set list \<union> set evicted = insert result {e \<in> set list0. device e \<noteq> (ra_transport a, ra_token a)}
    \<and> (\<forall>x \<in> set evicted. device x \<notin> device ` set list)"
proof (cases "find (same_device (ra_transport a) (ra_token a)) list0")
  case (Some e)
  then have dev: "device e = (ra_transport a, ra_token a)" by (auto simp: find_Some_iff same_device_iff)
  from Some u have eqs: "result = refresh_endpoint now a e" "evicted = []"
    "list = update_device (ra_transport a) (ra_token a) (refresh_endpoint now a) list0"
    by (auto simp: upsert_endpoint_def)
  have "map device list = map device list0" unfolding eqs by (rule update_device_map) simp
  then have "distinct (map device list)" "length list = length list0" using d by (metis, metis length_map)
  with eqs dev update_device_set [OF d Some] show ?thesis by simp
next
  case None
  then have nd: "(ra_transport a, ra_token a) \<notin> device ` set list0" by (auto simp: find_None_iff same_device_iff)
  let ?full = "list0 @ [fresh_endpoint now a]"
  from None u have eqs: "result = fresh_endpoint now a" "list = keep_last n ?full" "evicted = take (length ?full - n) ?full"
    by (auto simp: upsert_endpoint_def Let_def)
  have sp: "evicted @ list = ?full" unfolding eqs by (rule keep_last_split)
  have "distinct (map device ?full)" using d nd by simp
  then have "distinct (map device evicted @ map device list)" by (metis sp map_append)
  moreover have "set list \<union> set evicted = set ?full" using sp by (metis set_append sup_commute)
  moreover have "{e \<in> set list0. device e \<noteq> (ra_transport a, ra_token a)} = set list0" using nd by force
  ultimately show ?thesis
    using eqs keep_last_snoc [OF n] keep_last_length [of n ?full] by auto
qed

definition register_base :: "int \<Rightarrow> string \<Rightarrow> registry \<Rightarrow> registry" where
  "register_base now realm R = (if rg_ttlMs R \<noteq> 0 then sweepExpired realm now R else R)"

lemma register_effect:
  assumes reg: "registry_register now realm identity a R0 = (result, R')"
    and R1: "R1 = register_base now realm R0"
    and wft: "wf_map (realm_map (rg_touch R1) realm)"
    and up: "upsert_endpoint now a (rg_maxPerIdentity R1) (registry_list realm identity R1) = (result', list, evicted)"
  shows "result = result' \<and> (\<exists>ids. identity \<notin> ids
    \<and> (\<forall>realm' i. registry_list realm' i R' = (if realm' = realm then if i = identity then list
          else if i \<in> ids then [] else registry_list realm i R1 else registry_list realm' i R1))
    \<and> (\<forall>realm' i. touch_of realm' i R' = (if realm' = realm then if i = identity then Some now
          else if i \<in> ids then None else touch_of realm i R1 else touch_of realm' i R1))
    \<and> (\<forall>st. rg_store R1 = Some st \<longrightarrow> rg_store R' = Some (filter (\<lambda>r.
          \<not> (\<exists>e \<in> set evicted. row_key r = (realm, identity, ep_transport e, ep_token e))
        \<and> \<not> (\<exists>i \<in> ids. \<exists>e \<in> set (registry_list realm i R1). row_key r = (realm, i, ep_transport e, ep_token e))
        \<and> row_key r \<noteq> (realm, identity, ep_transport result, ep_token result)) st @ [ep_row realm identity result]))
    \<and> (\<forall>realm'. wf_map (realm_map (rg_byRealm R1) realm') \<longrightarrow> wf_map (realm_map (rg_byRealm R') realm'))
    \<and> (\<forall>realm'. wf_map (realm_map (rg_touch R1) realm') \<longrightarrow> wf_map (realm_map (rg_touch R') realm'))
    \<and> rg_ttlMs R' = rg_ttlMs R1 \<and> rg_maxPerIdentity R' = rg_maxPerIdentity R1 \<and> rg_maxIdentities R' = rg_maxIdentities R1)"
proof -
  let ?m1 = "jset identity list (realm_map (rg_byRealm R1) realm)"
  let ?tm1 = "jdel identity (realm_map (rg_touch R1) realm) @ [(identity, now)]"
  obtain m2 tm2 gone where ev: "(if rg_maxIdentities R1 = 0 then (?m1, ?tm1, [])
      else evict_identities (rg_maxIdentities R1) identity ?m1 ?tm1 []) = (m2, tm2, gone)"
    by (metis prod_cases3)
  have wf1: "wf_map ?tm1" using wf_map_jdel [OF wft, of identity]
    by (auto simp: wf_map_def set_jdel)
  have ex: "\<exists>ids. identity \<notin> ids \<and> (\<forall>i. jget m2 i = (if i \<in> ids then None else jget ?m1 i))
     \<and> (\<forall>i. jget tm2 i = (if i \<in> ids then None else jget ?tm1 i))
     \<and> set gone = {(i, l). i \<in> ids \<and> jget ?m1 i = Some l} \<and> (wf_map ?m1 \<longrightarrow> wf_map m2) \<and> wf_map tm2"
  proof (cases "rg_maxIdentities R1 = 0")
    case True
    with ev wf1 show ?thesis by (intro exI [of _ "{}"]) auto
  next
    case False
    with ev have "evict_identities (rg_maxIdentities R1) identity ?m1 ?tm1 [] = (m2, tm2, gone)" by simp
    from evict_spec [OF this wf1] show ?thesis by simp
  qed
  then obtain ids where ids: "identity \<notin> ids" "\<forall>i. jget m2 i = (if i \<in> ids then None else jget ?m1 i)"
    "\<forall>i. jget tm2 i = (if i \<in> ids then None else jget ?tm1 i)"
    "set gone = {(i, l). i \<in> ids \<and> jget ?m1 i = Some l}" "wf_map ?m1 \<longrightarrow> wf_map m2" "wf_map tm2" by blast
  let ?R2 = "del_endpoints realm identity evicted R1"
  let ?R3 = "?R2\<lparr>rg_byRealm := jset realm m2 (rg_byRealm ?R2), rg_touch := jset realm tm2 (rg_touch ?R2)\<rparr>"
  let ?R4 = "fold (\<lambda>(i, l). del_endpoints realm i l) gone ?R3"
  have eq: "result = result' \<and> R' = store_put realm identity result' ?R4"
    using reg up ev unfolding registry_register_def register_base_def [symmetric] R1 [symmetric] Let_def
      registry_list_map [symmetric] by auto
  have "rg_store R' = Some (filter (\<lambda>r.
          \<not> (\<exists>e \<in> set evicted. row_key r = (realm, identity, ep_transport e, ep_token e))
        \<and> \<not> (\<exists>i \<in> ids. \<exists>e \<in> set (registry_list realm i R1). row_key r = (realm, i, ep_transport e, ep_token e))
        \<and> row_key r \<noteq> (realm, identity, ep_transport result, ep_token result)) st @ [ep_row realm identity result])"
    if st: "rg_store R1 = Some st" for st
  proof -
    have "rg_store ?R3 = Some (filter (\<lambda>r. \<not> (\<exists>e \<in> set evicted. row_key r = (realm, identity, ep_transport e, ep_token e))) st)"
      using del_endpoints_store [OF st] by simp
    from del_gone_store [OF this, of realm gone] eq
    have "rg_store R' = Some (push_put realm identity result (filter (\<lambda>r. \<not> (\<exists>(i, l) \<in> set gone. \<exists>e \<in> set l. row_key r = (realm, i, ep_transport e, ep_token e)))
        (filter (\<lambda>r. \<not> (\<exists>e \<in> set evicted. row_key r = (realm, identity, ep_transport e, ep_token e))) st)))"
      by (simp add: store_put_def)
    moreover have "(\<exists>(i, l) \<in> set gone. Q i l) \<longleftrightarrow> (\<exists>i \<in> ids. \<exists>l. jget ?m1 i = Some l \<and> Q i l)" for Q
      unfolding ids(4) by blast
    moreover have "(\<exists>i \<in> ids. \<exists>l. jget ?m1 i = Some l \<and> (\<exists>e \<in> set l. row_key r = (realm, i, ep_transport e, ep_token e)))
        = (\<exists>i \<in> ids. \<exists>e \<in> set (registry_list realm i R1). row_key r = (realm, i, ep_transport e, ep_token e))" for r
      proof (rule bex_cong [OF refl])
      fix i assume "i \<in> ids"
      then have "i \<noteq> identity" using ids(1) by blast
      then show "(\<exists>l. jget ?m1 i = Some l \<and> (\<exists>e \<in> set l. row_key r = (realm, i, ep_transport e, ep_token e)))
          = (\<exists>e \<in> set (registry_list realm i R1). row_key r = (realm, i, ep_transport e, ep_token e))"
        by (cases "jget (realm_map (rg_byRealm R1) realm) i") (auto simp: registry_list_map)
    qed
    ultimately show ?thesis
      unfolding push_put_def filter_filter by (simp only: conj_ac)
  qed
  moreover have "registry_list realm' i R' = (if realm' = realm then if i = identity then list
          else if i \<in> ids then [] else registry_list realm i R1 else registry_list realm' i R1)" for realm' i
    using eq ids(1,2) by (simp add: registry_list_map)
  moreover have "touch_of realm' i R' = (if realm' = realm then if i = identity then Some now
          else if i \<in> ids then None else touch_of realm i R1 else touch_of realm' i R1)" for realm' i
    using eq ids(1,3) by (simp add: map_add_def split: option.split)
  ultimately show ?thesis using eq ids(1,5,6) by (intro conjI exI [of _ ids]) auto
qed

section \<open>The store mirrors the registry\<close>

definition row_fresh :: "int \<Rightarrow> int \<Rightarrow> push_row \<Rightarrow> bool" where
  "row_fresh ttl t r \<longleftrightarrow> ttl = 0 \<or> t - ttl \<le> pr_added_at r"

text \<open>
  At time \<open>t\<close>: every endpoint in memory has its row, every row that is not stale has its endpoint, and
  the touch time of an identity bounds the age of its endpoints from above.
\<close>

definition mirrors :: "int \<Rightarrow> registry \<Rightarrow> bool" where
  "mirrors t R \<longleftrightarrow>
     (\<exists>st. rg_store R = Some st \<and> distinct (map row_key st)
        \<and> (\<forall>realm i. \<forall>e \<in> set (registry_list realm i R). ep_row realm i e \<in> set st)
        \<and> (\<forall>r \<in> set st. row_fresh (rg_ttlMs R) t r \<longrightarrow>
             (\<exists>e \<in> set (registry_list (pr_realm r) (pr_identity r) R). r = ep_row (pr_realm r) (pr_identity r) e)))
     \<and> (\<forall>realm. wf_map (realm_map (rg_byRealm R) realm) \<and> wf_map (realm_map (rg_touch R) realm))
     \<and> (\<forall>realm i. distinct (map device (registry_list realm i R)) \<and> length (registry_list realm i R) \<le> rg_maxPerIdentity R)
     \<and> (\<forall>realm i. \<forall>e \<in> set (registry_list realm i R). \<exists>ts. touch_of realm i R = Some ts \<and> ep_added_at e \<le> ts)
     \<and> (\<forall>realm i ts. touch_of realm i R = Some ts \<longrightarrow> ts \<le> t)
     \<and> 0 < rg_maxPerIdentity R \<and> 0 \<le> rg_ttlMs R"

lemma mirrorsI:
  assumes "rg_store R = Some st" "distinct (map row_key st)"
    and "\<And>realm i e. e \<in> set (registry_list realm i R) \<Longrightarrow> ep_row realm i e \<in> set st"
    and "\<And>r. r \<in> set st \<Longrightarrow> row_fresh (rg_ttlMs R) t r \<Longrightarrow>
           \<exists>e \<in> set (registry_list (pr_realm r) (pr_identity r) R). r = ep_row (pr_realm r) (pr_identity r) e"
    and "\<And>realm. wf_map (realm_map (rg_byRealm R) realm)" "\<And>realm. wf_map (realm_map (rg_touch R) realm)"
    and "\<And>realm i. distinct (map device (registry_list realm i R))"
    and "\<And>realm i. length (registry_list realm i R) \<le> rg_maxPerIdentity R"
    and "\<And>realm i e. e \<in> set (registry_list realm i R) \<Longrightarrow> \<exists>ts. touch_of realm i R = Some ts \<and> ep_added_at e \<le> ts"
    and "\<And>realm i ts. touch_of realm i R = Some ts \<Longrightarrow> ts \<le> t"
    and "0 < rg_maxPerIdentity R" "0 \<le> rg_ttlMs R"
  shows "mirrors t R"
  unfolding mirrors_def
  by (intro conjI exI [of _ st] allI ballI impI) (fact assms(1,2,11,12) | (erule assms) | (rule assms) | assumption)+

lemma mirrorsD:
  assumes "mirrors t R"
  shows "wf_map (realm_map (rg_byRealm R) realm)" "wf_map (realm_map (rg_touch R) realm)"
    "distinct (map device (registry_list realm i R))" "length (registry_list realm i R) \<le> rg_maxPerIdentity R"
    "e \<in> set (registry_list realm i R) \<Longrightarrow> \<exists>ts. touch_of realm i R = Some ts \<and> ep_added_at e \<le> ts"
    "touch_of realm i R = Some ts \<Longrightarrow> ts \<le> t" "0 < rg_maxPerIdentity R" "0 \<le> rg_ttlMs R"
  using assms unfolding mirrors_def by blast+

lemma mirrors_store:
  assumes "mirrors t R"
  obtains st where "rg_store R = Some st" "distinct (map row_key st)"
    "\<And>realm i e. e \<in> set (registry_list realm i R) \<Longrightarrow> ep_row realm i e \<in> set st"
    "\<And>r. r \<in> set st \<Longrightarrow> row_fresh (rg_ttlMs R) t r \<Longrightarrow>
       \<exists>e \<in> set (registry_list (pr_realm r) (pr_identity r) R). r = ep_row (pr_realm r) (pr_identity r) e"
proof -
  from assms obtain st where "rg_store R = Some st" "distinct (map row_key st)"
    "\<forall>realm i. \<forall>e \<in> set (registry_list realm i R). ep_row realm i e \<in> set st"
    "\<forall>r \<in> set st. row_fresh (rg_ttlMs R) t r \<longrightarrow>
       (\<exists>e \<in> set (registry_list (pr_realm r) (pr_identity r) R). r = ep_row (pr_realm r) (pr_identity r) e)"
    unfolding mirrors_def by blast
  then show thesis by (intro that [of st]) simp_all
qed

lemma row_key_ep_row [simp]: "row_key (ep_row realm i e) = (realm, i, device e)"
  by (simp add: row_key_def ep_row_def device_def)

lemma ep_row_simps [simp]:
  "pr_realm (ep_row realm i e) = realm" "pr_identity (ep_row realm i e) = i" "pr_added_at (ep_row realm i e) = ep_added_at e"
  by (simp_all add: ep_row_def)

lemma registry_empty_mirrors:
  "0 \<le> ttl \<Longrightarrow> mirrors t (registry_empty maxPer window maxIds ttl (Some []))"
  by (simp add: mirrors_def registry_empty_def registry_list_map realm_map_def)

lemma mirrors_later: "mirrors t R \<Longrightarrow> t \<le> t' \<Longrightarrow> mirrors t' R"
  unfolding mirrors_def row_fresh_def by (fastforce intro: order_trans)

lemma register_base_list:
  assumes "mirrors now R"
  shows "registry_list realm' i (register_base now realm R) =
      (if realm' = realm \<and> rg_ttlMs R \<noteq> 0 \<and> (\<exists>ts. touch_of realm i R = Some ts \<and> ts < now - rg_ttlMs R) then []
       else registry_list realm' i R)"
    and "touch_of realm' i (register_base now realm R) =
      (if realm' = realm \<and> rg_ttlMs R \<noteq> 0 \<and> (\<exists>ts. touch_of realm i R = Some ts \<and> ts < now - rg_ttlMs R) then None
       else touch_of realm' i R)"
    and "wf_map (realm_map (rg_byRealm (register_base now realm R)) realm')"
    and "wf_map (realm_map (rg_touch (register_base now realm R)) realm')"
proof -
  have wf: "wf_map (realm_map (rg_byRealm R) r)" "wf_map (realm_map (rg_touch R) r)" for r
    using assms by (auto simp: mirrors_def)
  have wf': "jget (rg_byRealm R) r = Some m \<Longrightarrow> wf_map m" "jget (rg_touch R) r = Some tm \<Longrightarrow> wf_map tm" for r m tm
    using wf [of r] by (auto simp: realm_map_def)
  show "registry_list realm' i (register_base now realm R) =
      (if realm' = realm \<and> rg_ttlMs R \<noteq> 0 \<and> (\<exists>ts. touch_of realm i R = Some ts \<and> ts < now - rg_ttlMs R) then []
       else registry_list realm' i R)"
    "touch_of realm' i (register_base now realm R) =
      (if realm' = realm \<and> rg_ttlMs R \<noteq> 0 \<and> (\<exists>ts. touch_of realm i R = Some ts \<and> ts < now - rg_ttlMs R) then None
       else touch_of realm' i R)"
    using wf' by (auto simp: register_base_def sweepExpired_def registry_list_def realm_map_def Let_def jget_filter
        split: option.splits)
  show "wf_map (realm_map (rg_byRealm (register_base now realm R)) realm')"
    "wf_map (realm_map (rg_touch (register_base now realm R)) realm')"
    using wf wf' by (auto simp: register_base_def sweepExpired_def realm_map_def Let_def split: option.splits)
qed

lemma register_base_simps [simp]:
  "rg_store (register_base now realm R) = rg_store R" "rg_ttlMs (register_base now realm R) = rg_ttlMs R"
  "rg_maxPerIdentity (register_base now realm R) = rg_maxPerIdentity R"
  "rg_maxIdentities (register_base now realm R) = rg_maxIdentities R"
  by (simp_all add: register_base_def sweepExpired_def Let_def split: option.split)

lemma register_base_mirrors:
  assumes m: "mirrors now R" shows "mirrors now (register_base now realm R)"
proof -
  note l = register_base_list [OF m, where realm = realm]
  obtain st where st: "rg_store R = Some st" "distinct (map row_key st)"
    "\<And>realm i e. e \<in> set (registry_list realm i R) \<Longrightarrow> ep_row realm i e \<in> set st"
    "\<And>r. r \<in> set st \<Longrightarrow> row_fresh (rg_ttlMs R) now r \<Longrightarrow>
       \<exists>e \<in> set (registry_list (pr_realm r) (pr_identity r) R). r = ep_row (pr_realm r) (pr_identity r) e"
    using mirrors_store [OF m] by blast
  have stale: "\<not> row_fresh (rg_ttlMs R) now (ep_row realm i e)"
    if e: "e \<in> set (registry_list realm i R)" "touch_of realm i R = Some ts" "ts < now - rg_ttlMs R" "rg_ttlMs R \<noteq> 0" for i e ts
    using mirrorsD(5) [OF m e(1)] e(2-) by (auto simp: row_fresh_def)
  have sub: "e \<in> set (registry_list realm' i R)"
    if "e \<in> set (registry_list realm' i (register_base now realm R))" for realm' i e
    using that by (simp add: l(1) split: if_splits)
  show ?thesis
  proof (rule mirrorsI [of _ st])
    fix r assume r: "r \<in> set st" "row_fresh (rg_ttlMs (register_base now realm R)) now r"
    then obtain e where e: "e \<in> set (registry_list (pr_realm r) (pr_identity r) R)"
      "r = ep_row (pr_realm r) (pr_identity r) e" using st(4) by auto
    with stale [of e "pr_identity r"] r(2)
    show "\<exists>e \<in> set (registry_list (pr_realm r) (pr_identity r) (register_base now realm R)).
        r = ep_row (pr_realm r) (pr_identity r) e" by (auto simp: l(1))
  next
    fix realm' i e assume e: "e \<in> set (registry_list realm' i (register_base now realm R))"
    from mirrorsD(5) [OF m sub [OF e]] e
    show "\<exists>ts. touch_of realm' i (register_base now realm R) = Some ts \<and> ep_added_at e \<le> ts"
      by (auto simp: l(1,2) split: if_splits)
  next
    fix realm' i ts assume "touch_of realm' i (register_base now realm R) = Some ts"
    then have "touch_of realm' i R = Some ts" by (simp add: l(2) split: if_splits)
    then show "ts \<le> now" by (rule mirrorsD(6) [OF m])
  next
    fix realm' i
    show "distinct (map device (registry_list realm' i (register_base now realm R)))"
      unfolding l(1) using mirrorsD(3) [OF m] by simp
    show "length (registry_list realm' i (register_base now realm R)) \<le> rg_maxPerIdentity (register_base now realm R)"
      unfolding l(1) using mirrorsD(4) [OF m] by simp
  next
    fix realm' i e assume "e \<in> set (registry_list realm' i (register_base now realm R))"
    then show "ep_row realm' i e \<in> set st" by (intro st(3) sub)
  qed (simp_all add: st(1,2) l(3,4) mirrorsD(7,8) [OF m])
qed

lemma row_key_device: "(ep_transport e, ep_token e) = device e"
  by (simp add: device_def)

lemma register_mirrors:
  assumes m: "mirrors t R" and t: "t \<le> now" and reg: "registry_register now realm identity a R = (result, R')"
  shows "mirrors now R'"
proof -
  let ?R1 = "register_base now realm R"
  have m1: "mirrors now ?R1" using register_base_mirrors mirrors_later m t by blast
  note D = mirrorsD [OF m1]
  obtain st where st: "rg_store ?R1 = Some st" "distinct (map row_key st)"
    "\<And>realm i e. e \<in> set (registry_list realm i ?R1) \<Longrightarrow> ep_row realm i e \<in> set st"
    "\<And>r. r \<in> set st \<Longrightarrow> row_fresh (rg_ttlMs ?R1) now r \<Longrightarrow>
       \<exists>e \<in> set (registry_list (pr_realm r) (pr_identity r) ?R1). r = ep_row (pr_realm r) (pr_identity r) e"
    using mirrors_store [OF m1] by blast
  obtain result' list evicted where up:
    "upsert_endpoint now a (rg_maxPerIdentity ?R1) (registry_list realm identity ?R1) = (result', list, evicted)"
    by (metis prod_cases3)
  define keep where "keep ids r \<longleftrightarrow> \<not> (\<exists>e \<in> set evicted. row_key r = (realm, identity, device e))
        \<and> \<not> (\<exists>i \<in> ids. \<exists>e \<in> set (registry_list realm i ?R1). row_key r = (realm, i, device e))
        \<and> row_key r \<noteq> (realm, identity, device result)" for ids r
  from register_effect [OF reg refl D(2) up] obtain ids where res: "result' = result" and ids: "identity \<notin> ids"
    and l: "\<And>realm' i. registry_list realm' i R' = (if realm' = realm then if i = identity then list
          else if i \<in> ids then [] else registry_list realm i ?R1 else registry_list realm' i ?R1)"
    and tch: "\<And>realm' i. touch_of realm' i R' = (if realm' = realm then if i = identity then Some now
          else if i \<in> ids then None else touch_of realm i ?R1 else touch_of realm' i ?R1)"
    and sto: "rg_store R' = Some (filter (keep ids) st @ [ep_row realm identity result])"
    and wf: "\<And>realm'. wf_map (realm_map (rg_byRealm R') realm')" "\<And>realm'. wf_map (realm_map (rg_touch R') realm')"
    and cfg: "rg_ttlMs R' = rg_ttlMs R" "rg_maxPerIdentity R' = rg_maxPerIdentity R"
    unfolding keep_def row_key_device using st(1) D(1,2) by auto
  from upsert_spec [OF up D(3,7)] have u: "distinct (map device list)" "result \<in> set list" "ep_added_at result = now"
    "length list \<le> rg_maxPerIdentity R" "set list \<union> set evicted = insert result
      {e \<in> set (registry_list realm identity ?R1). device e \<noteq> device result}" "\<forall>x \<in> set evicted. device x \<notin> device ` set list"
    using D(4) res by auto
  have mem: "e = result \<or> e \<in> set (registry_list realm identity ?R1) \<and> device e \<noteq> device result"
    "x \<in> set evicted \<Longrightarrow> device e \<noteq> device x" if "e \<in> set list" for e x
  proof -
    from that u(5) have "e \<in> insert result {e \<in> set (registry_list realm identity ?R1). device e \<noteq> device result}"
      by (metis UnI1)
    then show "e = result \<or> e \<in> set (registry_list realm identity ?R1) \<and> device e \<noteq> device result" by simp
    from that u(6) show "x \<in> set evicted \<Longrightarrow> device e \<noteq> device x" by (metis imageI)
  qed
  have memc: "e \<in> set list" if "e \<in> set (registry_list realm identity ?R1)" "device e \<noteq> device result" "e \<notin> set evicted" for e
  proof -
    have "e \<in> set list \<union> set evicted" unfolding u(5) using that by simp
    with that(3) show ?thesis by blast
  qed
  show ?thesis
  proof (rule mirrorsI [OF sto])
    show "distinct (map row_key (filter (keep ids) st @ [ep_row realm identity result]))"
      using distinct_map_filter [OF st(2)] by (auto simp: keep_def)
  next
    fix realm' i e assume "e \<in> set (registry_list realm' i R')"
    then show "ep_row realm' i e \<in> set (filter (keep ids) st @ [ep_row realm identity result])"
      using st(3) mem [of e] ids by (auto simp: l keep_def split: if_splits)
  next
    fix r assume r: "r \<in> set (filter (keep ids) st @ [ep_row realm identity result])" "row_fresh (rg_ttlMs R') now r"
    show "\<exists>e \<in> set (registry_list (pr_realm r) (pr_identity r) R'). r = ep_row (pr_realm r) (pr_identity r) e"
    proof (cases "r = ep_row realm identity result")
      case True
      with u(2) show ?thesis by (auto simp: l)
    next
      case False
      with r cfg have k: "r \<in> set st" "keep ids r" "row_fresh (rg_ttlMs ?R1) now r" by auto
      from st(4) [OF k(1,3)] obtain e where e: "e \<in> set (registry_list (pr_realm r) (pr_identity r) ?R1)"
        "r = ep_row (pr_realm r) (pr_identity r) e" by blast
      then have "row_key r = (pr_realm r, pr_identity r, device e)" by (metis row_key_ep_row)
      with k(2) e(1) memc [of e] have "e \<in> set (registry_list (pr_realm r) (pr_identity r) R')"
        by (auto simp: l keep_def)
      with e(2) show ?thesis by blast
    qed
  next
    fix realm' i e assume "e \<in> set (registry_list realm' i R')"
    then show "\<exists>ts. touch_of realm' i R' = Some ts \<and> ep_added_at e \<le> ts"
      using D(5) [of e] D(6) mem(1) [of e] u(3) by (fastforce simp: l tch split: if_splits)
  qed (use wf cfg D l tch u in \<open>auto split: if_splits\<close>)
qed


lemma unregister_effect:
  assumes R': "R' = snd (registry_unregister realm identity tr tk R)"
  shows "registry_list realm' i R' = (if realm' = realm \<and> i = identity
      then filter (\<lambda>e. device e \<noteq> (tr, tk)) (registry_list realm i R) else registry_list realm' i R)"
    and "registry_list realm' i R' \<noteq> [] \<Longrightarrow> touch_of realm' i R' = touch_of realm' i R"
    and "touch_of realm' i R' = Some ts \<Longrightarrow> touch_of realm' i R = Some ts"
    and "(\<And>r. wf_map (realm_map (rg_byRealm R) r)) \<Longrightarrow> wf_map (realm_map (rg_byRealm R') realm')"
    and "(\<And>r. wf_map (realm_map (rg_touch R) r)) \<Longrightarrow> wf_map (realm_map (rg_touch R') realm')"
    and "rg_ttlMs R' = rg_ttlMs R" "rg_maxPerIdentity R' = rg_maxPerIdentity R"
    and "rg_store R = Some st \<Longrightarrow> rg_store R' = Some (if jget (realm_map (rg_byRealm R) realm) identity = None then st
           else filter (\<lambda>r. row_key r \<noteq> (realm, identity, tr, tk)) st)"
proof -
  have none: "R' = R" if "jget (realm_map (rg_byRealm R) realm) identity = None"
    using that unfolding R' registry_unregister_def realm_map_def by (auto split: option.splits)
  have some: "R' = store_del realm identity tr tk
        (if filter (\<lambda>e. device e \<noteq> (tr, tk)) l = [] then R\<lparr>rg_byRealm := jset realm (jdel identity m) (rg_byRealm R),
                              rg_touch := (case jget (rg_touch R) realm of None \<Rightarrow> rg_touch R
                                 | Some tm \<Rightarrow> jset realm (jdel identity tm) (rg_touch R))\<rparr>
         else R\<lparr>rg_byRealm := jset realm (jset identity (filter (\<lambda>e. device e \<noteq> (tr, tk)) l) m) (rg_byRealm R)\<rparr>)"
    if "jget (rg_byRealm R) realm = Some m" "jget m identity = Some l" for m l
    using that unfolding R' registry_unregister_def Let_def same_device_iff by simp
  consider "jget (realm_map (rg_byRealm R) realm) identity = None" "R' = R"
    | m l where "jget (rg_byRealm R) realm = Some m" "jget m identity = Some l" "R' = store_del realm identity tr tk
        (if filter (\<lambda>e. device e \<noteq> (tr, tk)) l = [] then R\<lparr>rg_byRealm := jset realm (jdel identity m) (rg_byRealm R),
                              rg_touch := (case jget (rg_touch R) realm of None \<Rightarrow> rg_touch R
                                 | Some tm \<Rightarrow> jset realm (jdel identity tm) (rg_touch R))\<rparr>
         else R\<lparr>rg_byRealm := jset realm (jset identity (filter (\<lambda>e. device e \<noteq> (tr, tk)) l) m) (rg_byRealm R)\<rparr>)"
    using none some by (cases "jget (realm_map (rg_byRealm R) realm) identity") (auto simp: realm_map_def split: option.splits)
  note R'_cases = this
  show "registry_list realm' i R' = (if realm' = realm \<and> i = identity
      then filter (\<lambda>e. device e \<noteq> (tr, tk)) (registry_list realm i R) else registry_list realm' i R)"
    by (cases rule: R'_cases) (simp_all add: registry_list_map store_del_def, simp_all add: realm_map_def)
  show "registry_list realm' i R' \<noteq> [] \<Longrightarrow> touch_of realm' i R' = touch_of realm' i R"
    by (cases rule: R'_cases) (auto simp: registry_list_def store_del_def realm_map_def split: option.splits)
  show "touch_of realm' i R' = Some ts \<Longrightarrow> touch_of realm' i R = Some ts"
    by (cases rule: R'_cases) (auto simp: store_del_def realm_map_def split: option.splits if_splits)
  show "wf_map (realm_map (rg_byRealm R') realm')" if wf: "\<And>r. wf_map (realm_map (rg_byRealm R) r)"
    using wf [of realm] wf [of realm'] by (cases rule: R'_cases) (auto simp: store_del_def realm_map_def)
  show "wf_map (realm_map (rg_touch R') realm')" if wf: "\<And>r. wf_map (realm_map (rg_touch R) r)"
    using wf [of realm] wf [of realm'] by (cases rule: R'_cases) (auto simp: store_del_def realm_map_def split: option.splits)
  show "rg_ttlMs R' = rg_ttlMs R" "rg_maxPerIdentity R' = rg_maxPerIdentity R"
    by (cases rule: R'_cases; simp add: store_del_def)+
  show "rg_store R = Some st \<Longrightarrow> rg_store R' = Some (if jget (realm_map (rg_byRealm R) realm) identity = None then st
           else filter (\<lambda>r. row_key r \<noteq> (realm, identity, tr, tk)) st)"
    by (cases rule: R'_cases) (simp_all add: store_del_def push_del_def realm_map_def)
qed

lemma unregister_mirrors:
  assumes m: "mirrors t R" shows "mirrors t (snd (registry_unregister realm identity tr tk R))"
proof -
  note e = unregister_effect [OF refl, where realm = realm and identity = identity and tr = tr and tk = tk and R = R]
  obtain st where st: "rg_store R = Some st" "distinct (map row_key st)"
    "\<And>realm i e. e \<in> set (registry_list realm i R) \<Longrightarrow> ep_row realm i e \<in> set st"
    "\<And>r. r \<in> set st \<Longrightarrow> row_fresh (rg_ttlMs R) t r \<Longrightarrow>
       \<exists>e \<in> set (registry_list (pr_realm r) (pr_identity r) R). r = ep_row (pr_realm r) (pr_identity r) e"
    using mirrors_store [OF m] by blast
  have none: "registry_list realm identity R = []" if "jget (realm_map (rg_byRealm R) realm) identity = None"
    using that by (simp add: registry_list_map)
  show ?thesis
  proof (rule mirrorsI [OF e(8) [OF st(1)]])
    fix realm' i x assume x: "x \<in> set (registry_list realm' i (snd (registry_unregister realm identity tr tk R)))"
    then have "x \<in> set (registry_list realm' i R)" by (simp add: e(1) split: if_splits)
    from mirrorsD(5) [OF m this] x show "\<exists>ts. touch_of realm' i (snd (registry_unregister realm identity tr tk R)) = Some ts \<and> ep_added_at x \<le> ts"
      by (metis e(2) empty_iff empty_set)
  next
    fix r assume r: "r \<in> set (if jget (realm_map (rg_byRealm R) realm) identity = None then st
           else filter (\<lambda>r. row_key r \<noteq> (realm, identity, tr, tk)) st)"
      "row_fresh (rg_ttlMs (snd (registry_unregister realm identity tr tk R))) t r"
    then obtain x where x: "x \<in> set (registry_list (pr_realm r) (pr_identity r) R)" "r = ep_row (pr_realm r) (pr_identity r) x"
      using st(4) by (auto simp: e(6) split: if_splits)
    then have "row_key r = (pr_realm r, pr_identity r, device x)" by (metis row_key_ep_row)
    with r(1) x(1) none have "x \<in> set (registry_list (pr_realm r) (pr_identity r) (snd (registry_unregister realm identity tr tk R)))"
      by (auto simp: e(1) split: if_splits)
    with x(2) show "\<exists>x \<in> set (registry_list (pr_realm r) (pr_identity r) (snd (registry_unregister realm identity tr tk R))).
        r = ep_row (pr_realm r) (pr_identity r) x" by blast
  next
    fix realm' i show "length (registry_list realm' i (snd (registry_unregister realm identity tr tk R)))
        \<le> rg_maxPerIdentity (snd (registry_unregister realm identity tr tk R))"
      unfolding e(1,7) using mirrorsD(4) [OF m] by (auto intro: le_trans [OF length_filter_le])
  next
    fix realm' i ts assume "touch_of realm' i (snd (registry_unregister realm identity tr tk R)) = Some ts"
    from mirrorsD(6) [OF m e(3) [OF this]] show "ts \<le> t" .
  qed (use st(2,3) mirrorsD(1-3,7,8) [OF m] e(4,5) in \<open>auto simp: e(1,6,7) distinct_map_filter split: if_splits\<close>)
qed

lemma row_endpoint_device [simp]: "device (row_endpoint (ep_row realm i e)) = device e"
  by (simp add: row_endpoint_def ep_row_def device_def)

definition rows_of :: "int \<Rightarrow> string \<Rightarrow> string \<Rightarrow> push_row list \<Rightarrow> push_row list" where
  "rows_of cutoff realm i st = filter (\<lambda>r. pr_realm r = realm \<and> pr_identity r = i \<and> \<not> (cutoff \<noteq> 0 \<and> pr_added_at r < cutoff)) st"

lemma hydrate_row_list:
  "registry_list realm i (hydrate_row now c r R) =
     (if \<not> (c \<noteq> 0 \<and> pr_added_at r < c) \<and> pr_realm r = realm \<and> pr_identity r = i
      then keep_last (rg_maxPerIdentity R) (registry_list realm i R @ [row_endpoint r]) else registry_list realm i R)"
  "rg_maxPerIdentity (hydrate_row now c r R) = rg_maxPerIdentity R"
  by (auto simp: hydrate_row_def registry_list_map Let_def)

lemma hydrate_rows_list:
  assumes "\<forall>realm i. length (rows_of c realm i st) \<le> rg_maxPerIdentity R" "rg_byRealm R = []"
  shows "registry_list realm i (fold (hydrate_row now c) st R) = map row_endpoint (rows_of c realm i st)
    \<and> rg_maxPerIdentity (fold (hydrate_row now c) st R) = rg_maxPerIdentity R"
  using assms(1)
proof (induction st arbitrary: realm i rule: rev_induct)
  case Nil
  with assms(2) show ?case by (simp add: rows_of_def registry_list_def)
next
  case (snoc r st)
  have "length (rows_of c realm i st) \<le> rg_maxPerIdentity R" for realm i
    by (rule order_trans [OF _ snoc.prems [rule_format, of realm i]]) (simp add: rows_of_def)
  with snoc.IH have ih: "registry_list realm i (fold (hydrate_row now c) st R) = map row_endpoint (rows_of c realm i st)"
    "rg_maxPerIdentity (fold (hydrate_row now c) st R) = rg_maxPerIdentity R" for realm i by blast+
  have "rows_of c realm i (st @ [r]) = (if \<not> (c \<noteq> 0 \<and> pr_added_at r < c) \<and> pr_realm r = realm \<and> pr_identity r = i
      then rows_of c realm i st @ [r] else rows_of c realm i st)"
    by (auto simp: rows_of_def)
  with snoc.prems [rule_format, of realm i] ih show ?case
    by (auto simp: hydrate_row_list keep_last_all split: if_splits)
qed

lemma rows_of_bound:
  assumes m: "mirrors t R" and st: "rg_store R = Some st" and c: "c = (if rg_ttlMs R \<noteq> 0 then t - rg_ttlMs R else 0)" "rg_ttlMs R = 0 \<or> t \<noteq> rg_ttlMs R"
  shows "device ` row_endpoint ` set (rows_of c realm i st) = device ` {e \<in> set (registry_list realm i R). rg_ttlMs R = 0 \<or> t - rg_ttlMs R \<le> ep_added_at e}"
    and "length (rows_of c realm i st) \<le> rg_maxPerIdentity R"
proof -
  obtain d: "distinct (map row_key st)"
    and fwd: "\<And>realm i e. e \<in> set (registry_list realm i R) \<Longrightarrow> ep_row realm i e \<in> set st"
    and bwd: "\<And>r. r \<in> set st \<Longrightarrow> row_fresh (rg_ttlMs R) t r \<Longrightarrow>
       \<exists>e \<in> set (registry_list (pr_realm r) (pr_identity r) R). r = ep_row (pr_realm r) (pr_identity r) e"
    using mirrors_store [OF m] st by (metis option.inject)
  have fr: "row_fresh (rg_ttlMs R) t r \<longleftrightarrow> \<not> (c \<noteq> 0 \<and> pr_added_at r < c)" for r
    using c by (auto simp: row_fresh_def)
  have rows: "set (rows_of c realm i st) = ep_row realm i ` {e \<in> set (registry_list realm i R). row_fresh (rg_ttlMs R) t (ep_row realm i e)}"
    using fwd [of _ realm i] bwd unfolding rows_of_def fr [symmetric] by fastforce
  then show "device ` row_endpoint ` set (rows_of c realm i st) = device ` {e \<in> set (registry_list realm i R). rg_ttlMs R = 0 \<or> t - rg_ttlMs R \<le> ep_added_at e}"
    by (simp add: image_image row_fresh_def)
  have "distinct (rows_of c realm i st)" using d by (simp add: rows_of_def distinct_map)
  then have "length (rows_of c realm i st) = card (set (rows_of c realm i st))" by (simp add: distinct_card)
  also have "\<dots> \<le> card (set (registry_list realm i R))"
    unfolding rows by (rule order_trans [OF card_image_le card_mono]) auto
  also have "\<dots> \<le> rg_maxPerIdentity R" using card_length mirrorsD(4) [OF m] order_trans by blast
  finally show "length (rows_of c realm i st) \<le> rg_maxPerIdentity R" .
qed

lemma mirrors_cong:
  assumes m: "mirrors t R" and "rg_store R' = rg_store R" "rg_touch R' = rg_touch R" "rg_ttlMs R' = rg_ttlMs R"
    "rg_maxPerIdentity R' = rg_maxPerIdentity R" "\<And>realm. wf_map (realm_map (rg_byRealm R') realm)"
    and l: "\<And>realm i. map (ep_row realm i) (registry_list realm i R') = map (ep_row realm i) (registry_list realm i R)"
  shows "mirrors t R'"
proof -
  have s: "ep_row realm i ` set (registry_list realm i R') = ep_row realm i ` set (registry_list realm i R)" for realm i
    using l by (metis set_map)
  have "map device (registry_list realm i R') = map device (registry_list realm i R)" for realm i
    using arg_cong [OF l, of "map (\<lambda>r. snd (snd (row_key r)))" realm i] by (simp add: comp_def)
  then have d: "distinct (map device (registry_list realm i R')) = distinct (map device (registry_list realm i R))"
    "length (registry_list realm i R') = length (registry_list realm i R)" for realm i by (simp, metis length_map)
  have "\<exists>x \<in> set (registry_list realm i R). ep_row realm i e = ep_row realm i x" if "e \<in> set (registry_list realm i R')" for realm i e
    using s [of realm i] that by blast
  then have fw: "\<exists>x \<in> set (registry_list realm i R). ep_row realm i e = ep_row realm i x \<and> ep_added_at e = ep_added_at x"
    if "e \<in> set (registry_list realm i R')" for realm i e using that by (metis ep_row_simps(3))
  obtain st where st: "rg_store R = Some st" "distinct (map row_key st)"
    "\<And>realm i e. e \<in> set (registry_list realm i R) \<Longrightarrow> ep_row realm i e \<in> set st"
    "\<And>r. r \<in> set st \<Longrightarrow> row_fresh (rg_ttlMs R) t r \<Longrightarrow>
       \<exists>e \<in> set (registry_list (pr_realm r) (pr_identity r) R). r = ep_row (pr_realm r) (pr_identity r) e"
    using mirrors_store [OF m] by blast
  show ?thesis
  proof (rule mirrorsI [of _ st])
    fix r assume "r \<in> set st" "row_fresh (rg_ttlMs R') t r"
    with st(4) have "r \<in> ep_row (pr_realm r) (pr_identity r) ` set (registry_list (pr_realm r) (pr_identity r) R)"
      using assms(4) by auto
    then show "\<exists>e \<in> set (registry_list (pr_realm r) (pr_identity r) R'). r = ep_row (pr_realm r) (pr_identity r) e"
      unfolding s [symmetric] by blast
  next
    fix realm i e assume "e \<in> set (registry_list realm i R')"
    from fw [OF this] mirrorsD(5) [OF m] assms(3)
    show "\<exists>ts. touch_of realm i R' = Some ts \<and> ep_added_at e \<le> ts" by metis
  next
    fix realm i e assume "e \<in> set (registry_list realm i R')"
    from fw [OF this] st(3) show "ep_row realm i e \<in> set st" by metis
  qed (use st(1,2) assms mirrorsD [OF m] in \<open>simp_all add: d\<close>)
qed

lemma map_update_device: "(\<And>e. g (f e) = g e) \<Longrightarrow> map g (update_device tr tk f es) = map g es"
  by (induction es) auto

lemma markOk_mirrors: "mirrors t R \<Longrightarrow> mirrors t (registry_markOk now realm identity e R)"
proof -
  assume m: "mirrors t R"
  have wf: "jget (rg_byRealm R) r = Some m \<Longrightarrow> wf_map m" for r m
    using mirrorsD(1) [OF m, of r] by (simp add: realm_map_def)
  have row: "ep_row r i (x\<lparr>ep_last_ok := Some now\<rparr>) = ep_row r i x" for r i x by (simp add: ep_row_def)
  show ?thesis
    using wf by (intro mirrors_cong [OF m])
      (auto simp: registry_markOk_def registry_list_def realm_map_def map_update_device row split: option.splits)
qed

lemma mirrors_same:
  "rg_byRealm R' = rg_byRealm R \<Longrightarrow> rg_touch R' = rg_touch R \<Longrightarrow> rg_store R' = rg_store R \<Longrightarrow>
   rg_ttlMs R' = rg_ttlMs R \<Longrightarrow> rg_maxPerIdentity R' = rg_maxPerIdentity R \<Longrightarrow> mirrors t R' = mirrors t R"
  by (simp add: mirrors_def registry_list_def)

lemma same_mirrors:
  "mirrors t (logWakeFailure now tr reason R) = mirrors t R"
  "mirrors t (snd (coalesceOk now w realm i R)) = mirrors t R"
  "mirrors t (resetCoalesce realm i R) = mirrors t R"
  by (rule mirrors_same; simp add: logWakeFailure_def coalesceOk_def resetCoalesce_def Let_def split: option.split)+

lemma settle_wake_mirrors: "mirrors t R \<Longrightarrow> mirrors t (settle_wake now realm i e r R)"
  by (cases r) (simp_all add: settle_wake_def registry_prune_def markOk_mirrors same_mirrors unregister_mirrors)

lemma wake_endpoints_mirrors: "mirrors t R \<Longrightarrow> mirrors t (wake_endpoints send cfg payload alert now realm i es R)"
  by (induction es arbitrary: R) (simp_all add: settle_wake_mirrors split: option.split)

lemma fireWake_mirrors: "mirrors t R \<Longrightarrow> mirrors t (snd (fireWake send cfg now w kind copy realm i R))"
proof -
  assume m: "mirrors t R"
  obtain ok R1 where c: "coalesceOk now (case w of Some w \<Rightarrow> if w = 0 then rg_coalesceWindowMs R else w | None \<Rightarrow> rg_coalesceWindowMs R) realm i R = (ok, R1)"
    by (metis prod.exhaust)
  have "mirrors t R1" using m same_mirrors(2) [of t now _ realm i R] c by (metis snd_conv)
  with m c show ?thesis by (simp add: fireWake_def Let_def wake_endpoints_mirrors split: sum.split)
qed

lemma deliverNotifyPush_mirrors: "mirrors t R \<Longrightarrow> mirrors t (snd (deliverNotifyPush send cfg now realm topic msg mode R))"
  by (simp add: deliverNotifyPush_def Let_def wake_endpoints_mirrors split: option.split)

section \<open>Runs of the registry\<close>

definition registry_config :: "registry \<Rightarrow> int \<times> nat" where
  "registry_config R = (rg_ttlMs R, rg_maxPerIdentity R)"

text \<open>The life of one broker process, on a clock that does not run backwards.\<close>

inductive registry_run :: "registry \<Rightarrow> int \<Rightarrow> registry \<Rightarrow> bool" for R0 where
  run_start: "registry_run R0 t R0"
| run_register: "registry_run R0 t R \<Longrightarrow> t \<le> now \<Longrightarrow> registry_run R0 now (snd (registry_register now realm identity a R))"
| run_unregister: "registry_run R0 t R \<Longrightarrow> t \<le> now \<Longrightarrow> registry_run R0 now (snd (registry_unregister realm identity tr tk R))"
| run_wake: "registry_run R0 t R \<Longrightarrow> t \<le> now \<Longrightarrow> registry_run R0 now (snd (fireWake send cfg now w kind copy realm identity R))"
| run_notify: "registry_run R0 t R \<Longrightarrow> t \<le> now \<Longrightarrow> registry_run R0 now (snd (deliverNotifyPush send cfg now realm topic msg mode R))"
| run_reset: "registry_run R0 t R \<Longrightarrow> registry_run R0 t (resetCoalesce realm identity R)"

lemma run_mirrors:
  assumes "registry_run R0 t R" "\<And>t. mirrors t R0" shows "mirrors t R"
  using assms
proof induction
  case (run_register t R now realm identity a)
  then show ?case by (metis register_mirrors prod.collapse)
qed (blast intro: mirrors_later unregister_mirrors fireWake_mirrors deliverNotifyPush_mirrors same_mirrors(3) [THEN iffD2])+

lemma config_kept:
  "registry_config (logWakeFailure now tr reason R) = registry_config R"
  "registry_config (snd (coalesceOk now win realm i R)) = registry_config R"
  "registry_config (resetCoalesce realm i R) = registry_config R"
  "registry_config (registry_markOk now realm i e R) = registry_config R"
  "registry_config (snd (registry_unregister realm i tr tk R)) = registry_config R"
  by (auto simp: registry_config_def logWakeFailure_def coalesceOk_def resetCoalesce_def registry_markOk_def
      registry_unregister_def store_del_def Let_def split: option.split)

lemma wake_config [simp]: "registry_config (wake_endpoints send cfg payload alert now realm i es R) = registry_config R"
proof (induction es arbitrary: R)
  case (Cons e es)
  have "registry_config (settle_wake now realm i e r R) = registry_config R" for r
    by (cases r) (simp_all add: settle_wake_def registry_prune_def config_kept)
  with Cons show ?case by (simp split: option.split)
qed simp

lemma register_config: "registry_config (snd (registry_register now realm identity a R)) = registry_config R"
  by (auto simp: registry_register_def register_base_def [symmetric] registry_config_def Let_def split: prod.split)

lemma fireWake_config: "registry_config (snd (fireWake send cfg now win kind copy realm i R)) = registry_config R"
proof -
  obtain ok R1 where c: "coalesceOk now (case win of Some w \<Rightarrow> if w = 0 then rg_coalesceWindowMs R else w | None \<Rightarrow> rg_coalesceWindowMs R) realm i R = (ok, R1)"
    by (metis prod.exhaust)
  have "registry_config R1 = registry_config R" using config_kept(2) c by (metis snd_conv)
  with c show ?thesis by (simp add: fireWake_def Let_def split: sum.split)
qed

lemma run_config: "registry_run R0 t R \<Longrightarrow> registry_config R = registry_config R0"
  by (induction rule: registry_run.induct)
    (simp_all add: config_kept register_config fireWake_config deliverNotifyPush_def Let_def split: option.split)

text \<open>
  Restart: take any run of a registry that started empty on an empty durable store, of any
  registrations, removals, wakes and notifications in time order, and start a new registry on that
  store at any later moment with the same limits. For every realm and identity it knows exactly the devices the
  old one listed and that are not past the lifetime, no more and no fewer.
\<close>

theorem restart_recovers_devices:
  assumes "registry_run (registry_empty maxPer window maxIds ttl (Some [])) t R" "0 \<le> ttl" "t \<le> now" "ttl = 0 \<or> now \<noteq> ttl"
  shows "device ` set (registry_list realm i (registry_new now maxPer window maxIds ttl (rg_store R)))
    = device ` {e \<in> set (registry_list realm i R). ttl = 0 \<or> now - ttl \<le> ep_added_at e}"
proof -
  have m: "mirrors now R"
    using mirrors_later [OF run_mirrors [OF assms(1)] assms(3)] registry_empty_mirrors [OF assms(2)] by blast
  have cfg: "rg_ttlMs R = ttl" "rg_maxPerIdentity R = rg_maxPerIdentity (registry_empty maxPer window maxIds ttl (Some []))"
    using run_config [OF assms(1)] by (simp_all add: registry_empty_def registry_config_def)
  obtain st where st: "rg_store R = Some st" using m unfolding mirrors_def by blast
  define c where "c = (if rg_ttlMs R \<noteq> 0 then now - rg_ttlMs R else 0)"
  let ?E = "registry_empty maxPer window maxIds ttl (Some st)"
  have b: "\<forall>realm i. length (rows_of c realm i st) \<le> rg_maxPerIdentity ?E"
    using rows_of_bound(2) [OF m st c_def] assms(4) cfg by (simp add: registry_empty_def)
  have "registry_list realm i (registry_new now maxPer window maxIds ttl (rg_store R))
      = registry_list realm i (fold (hydrate_row now c) st ?E)"
    using cfg(1) by (simp add: st registry_new_def registry_hydrate_def push_all_def c_def Let_def registry_list_def
        registry_empty_def)
  also have "\<dots> = map row_endpoint (rows_of c realm i st)"
    using hydrate_rows_list [OF b] by (simp add: registry_empty_def)
  finally show ?thesis
    using rows_of_bound(1) [OF m st c_def] assms(4) cfg(1) by simp
qed

definition phone :: register_arg where
  "phone = \<lparr>ra_transport = ''fcm'', ra_token = ''tok'', ra_app_id = JStr ''app'', ra_env = JUndef, ra_min_priority = JUndef\<rparr>"

theorem restart_recovers_devices_witness:
  "device ` set (registry_list ''r'' ''u'' (registry_new 9 2 0 0 0 (rg_store
       (snd (registry_register 5 ''r'' ''u'' phone (registry_empty 2 0 0 0 (Some [])))))))
   = device ` {e \<in> set (registry_list ''r'' ''u'' (snd (registry_register 5 ''r'' ''u'' phone (registry_empty 2 0 0 0 (Some []))))).
       (0 :: int) = 0 \<or> 9 - 0 \<le> ep_added_at e}"
  by (rule restart_recovers_devices [of 2 0 0 0 5]) (auto intro: registry_run.intros run_register [OF run_start])

text \<open>
  Registration: in any run of a registry that started empty on an empty durable store, a
  registered device is afterwards in the list of its identity, stamped with the present time, and has
  its row in the store; no identity lists a device twice or more devices than the cap.
\<close>

theorem registered_device_listed:
  assumes "registry_run (registry_empty maxPer window maxIds ttl (Some [])) t R" "0 \<le> ttl" "t \<le> now"
    "registry_register now realm identity a R = (e, R')"
  shows "e \<in> set (registry_list realm identity R') \<and> device e = (ra_transport a, ra_token a) \<and> ep_added_at e = now
    \<and> (\<exists>st. rg_store R' = Some st \<and> ep_row realm identity e \<in> set st)
    \<and> distinct (map device (registry_list r i R')) \<and> length (registry_list r i R') \<le> (if maxPer = 0 then 10 else maxPer)"
proof -
  have m: "mirrors t R" using run_mirrors [OF assms(1)] registry_empty_mirrors [OF assms(2)] by blast
  have m': "mirrors now R'" by (rule register_mirrors [OF m assms(3,4)])
  have "registry_config R' = registry_config R" using register_config assms(4) by (metis snd_conv)
  then have cap: "rg_maxPerIdentity R' = (if maxPer = 0 then 10 else maxPer)"
    using run_config [OF assms(1)] by (simp add: registry_config_def registry_empty_def)
  have m1: "mirrors now (register_base now realm R)" using register_base_mirrors mirrors_later m assms(3) by blast
  obtain e' l ev where up: "upsert_endpoint now a (rg_maxPerIdentity (register_base now realm R))
      (registry_list realm identity (register_base now realm R)) = (e', l, ev)" by (metis prod_cases3)
  have "e = e'" "registry_list realm identity R' = l"
    using register_effect [OF assms(4) refl mirrorsD(2) [OF m1] up] by auto
  with upsert_spec [OF up mirrorsD(3,7) [OF m1]]
  have e: "e \<in> set (registry_list realm identity R')" "device e = (ra_transport a, ra_token a)" "ep_added_at e = now" by auto
  moreover obtain st where "rg_store R' = Some st" "ep_row realm identity e \<in> set st"
    using m' e(1) unfolding mirrors_def by blast
  ultimately show ?thesis using mirrorsD(3,4) [OF m'] cap by simp
qed

theorem registered_device_listed_witness:
  "\<exists>e R'. registry_register 5 ''r'' ''u'' phone (registry_empty 2 0 0 0 (Some [])) = (e, R')
     \<and> e \<in> set (registry_list ''r'' ''u'' R') \<and> length (registry_list ''r'' ''u'' R') \<le> 2"
proof -
  obtain e R' where r: "registry_register 5 ''r'' ''u'' phone (registry_empty 2 0 0 0 (Some [])) = (e, R')"
    by (cases "registry_register 5 ''r'' ''u'' phone (registry_empty 2 0 0 0 (Some []))")
  from registered_device_listed [OF run_start, of 0 5 5, OF _ _ r] r show ?thesis by simp
qed

end
