(* ===== verification/Notify.thy ===== *)
theory Notify
  imports Push_Registry
begin

text \<open>
  The Notify message model (\<open>lib/notify.js\<close>): topic names, priorities, tags, action buttons, push
  mode, the canonical message, and the in-memory topic ring that serves catch-up.
\<close>

section \<open>Fields of a publication\<close>

definition is_alnum :: "char \<Rightarrow> bool" where
  "is_alnum c \<longleftrightarrow> (let n = (of_char c :: nat) in (65 \<le> n \<and> n \<le> 90) \<or> (97 \<le> n \<and> n \<le> 122) \<or> (48 \<le> n \<and> n \<le> 57))"

definition topic_char :: "char \<Rightarrow> bool" where
  "topic_char c \<longleftrightarrow> is_alnum c \<or> c = CHR ''-'' \<or> c = CHR ''_''"

definition isValidTopic :: "jsval \<Rightarrow> bool" where
  "isValidTopic v = (case v of JStr s \<Rightarrow> 1 \<le> length s \<and> length s \<le> 64 \<and> list_all topic_char s | _ \<Rightarrow> False)"

definition PRIORITY_NAMES :: "(string \<times> nat) list" where
  "PRIORITY_NAMES = [(''min'', 1), (''low'', 2), (''default'', 3), (''high'', 4), (''max'', 5), (''urgent'', 5)]"

definition blank :: "jsval \<Rightarrow> bool" where
  "blank v \<longleftrightarrow> nullish v \<or> v = JStr []"

definition parsePriority :: "jsval \<Rightarrow> nat" where
  "parsePriority v =
     (if blank v then 3
      else let s = to_lower (trim (to_string v)) in
        case map_of PRIORITY_NAMES s of
          Some p \<Rightarrow> p
        | None \<Rightarrow> (case parse_int s of
              Fin n \<Rightarrow> if 1 \<le> n \<and> n \<le> 5 then nat \<lfloor>n\<rfloor> else 3
            | _ \<Rightarrow> 3))"

definition MAX_TAGS :: nat where "MAX_TAGS = 20"
definition MAX_TAG_LEN :: nat where "MAX_TAG_LEN = 64"
definition MAX_TITLE_LEN :: nat where "MAX_TITLE_LEN = 256"
definition MAX_CLICK_LEN :: nat where "MAX_CLICK_LEN = 2048"

definition parseTags :: "jsval \<Rightarrow> string list" where
  "parseTags v =
     (if \<not> truthy v then []
      else take MAX_TAGS (filter (\<lambda>t. 0 < length t \<and> length t \<le> MAX_TAG_LEN)
             (map trim (split_on (CHR '','') (to_string v)))))"

definition MAX_ACTIONS :: nat where "MAX_ACTIONS = 6"
definition MAX_ACTION_LABEL :: nat where "MAX_ACTION_LABEL = 64"
definition MAX_ACTION_URL :: nat where "MAX_ACTION_URL = 2048"
definition MAX_ACTION_BODY :: nat where "MAX_ACTION_BODY = 1024"
definition MAX_ACTION_HEADERS :: nat where "MAX_ACTION_HEADERS = 8"
definition MAX_ACTION_HEADER_LEN :: nat where "MAX_ACTION_HEADER_LEN = 256"

definition ACTION_METHODS :: "string list" where
  "ACTION_METHODS = [''GET'', ''POST'', ''PUT'', ''DELETE'']"

datatype action_error =
    NotArray | TooMany
  | BadAction nat string

text \<open>Headers are checked one by one in key order; the first bad one decides the answer.\<close>

fun validate_headers :: "(string \<times> jsval) list \<Rightarrow> (string \<times> jsval) list \<Rightarrow> string + (string \<times> jsval) list" where
  "validate_headers [] acc = Inr acc"
| "validate_headers ((k, v) # kvs) acc =
     (if k = ''__proto__'' \<or> k = ''constructor'' \<or> k = ''prototype'' then Inl ''unsafe header name''
      else case v of
        JStr s \<Rightarrow> if length s > MAX_ACTION_HEADER_LEN \<or> length k > MAX_ACTION_HEADER_LEN
                  then Inl ''header entries must be strings (max 256)'' else validate_headers kvs (jset k v acc)
      | _ \<Rightarrow> Inl ''header entries must be strings (max 256)'')"

definition action_method :: "jsval \<Rightarrow> string + string" where
  "action_method a =
     (case obj_get a ''method'' of
        JUndef \<Rightarrow> Inr ''POST''
      | JStr s \<Rightarrow> if to_upper s \<in> set ACTION_METHODS then Inr (to_upper s) else Inl ''method must be one of GET/POST/PUT/DELETE''
      | _ \<Rightarrow> Inl ''method must be a string'')"

definition action_body :: "jsval \<Rightarrow> string + (string \<times> jsval) list" where
  "action_body a =
     (case obj_get a ''body'' of
        JUndef \<Rightarrow> Inr []
      | JStr s \<Rightarrow> if length s > MAX_ACTION_BODY then Inl ''body must be a string (max 1024)'' else Inr [(''body'', JStr s)]
      | _ \<Rightarrow> Inl ''body must be a string (max 1024)'')"

definition action_headers :: "jsval \<Rightarrow> string + (string \<times> jsval) list" where
  "action_headers a =
     (case obj_get a ''headers'' of
        JUndef \<Rightarrow> Inr []
      | JObj kvs \<Rightarrow>
          if length kvs > MAX_ACTION_HEADERS then Inl ''too many headers (max 8)''
          else (case validate_headers kvs [] of Inl e \<Rightarrow> Inl e | Inr hs \<Rightarrow> Inr [(''headers'', JObj hs)])
      | _ \<Rightarrow> Inl ''headers must be an object'')"

definition action_text_ok :: "nat \<Rightarrow> jsval \<Rightarrow> bool" where
  "action_text_ok n v = (case v of JStr s \<Rightarrow> s \<noteq> [] \<and> length s \<le> n | _ \<Rightarrow> False)"

definition action_url_ok :: "jsval \<Rightarrow> bool" where
  "action_url_ok v = (case v of JStr s \<Rightarrow> starts_with ''https://'' s \<and> length s \<le> MAX_ACTION_URL | _ \<Rightarrow> False)"

definition validate_action :: "jsval \<Rightarrow> string + jsval" where
  "validate_action a =
     (if \<not> is_plain_obj a then Inl ''must be an object''
      else if obj_get a ''action'' \<noteq> JStr ''http'' \<and> obj_get a ''action'' \<noteq> JStr ''view'' then Inl (''type must be 'http' or 'view'' @ [CHR 0x27])
      else if \<not> action_text_ok MAX_ACTION_LABEL (obj_get a ''label'') then Inl ''label required (max 64)''
      else if \<not> action_url_ok (obj_get a ''url'') then Inl ''url must be https (max 2048)''
      else let base = [(''action'', obj_get a ''action''), (''label'', obj_get a ''label''), (''url'', obj_get a ''url'')] in
        if obj_get a ''action'' = JStr ''http''
        then (case action_method a of
            Inl e \<Rightarrow> Inl e
          | Inr m \<Rightarrow> (case action_body a of
              Inl e \<Rightarrow> Inl e
            | Inr b \<Rightarrow> (case action_headers a of
                Inl e \<Rightarrow> Inl e
              | Inr h \<Rightarrow> Inr (JObj (base @ [(''method'', JStr m)] @ b @ h)))))
        else Inr (JObj base))"

fun validate_from :: "nat \<Rightarrow> jsval list \<Rightarrow> action_error + jsval list" where
  "validate_from i [] = Inr []"
| "validate_from i (a # as) =
     (case validate_action a of
        Inl e \<Rightarrow> Inl (BadAction i e)
      | Inr n \<Rightarrow> (case validate_from (Suc i) as of Inl e \<Rightarrow> Inl e | Inr ns \<Rightarrow> Inr (n # ns)))"

definition validateActions :: "jsval \<Rightarrow> action_error + jsval list" where
  "validateActions raw =
     (case raw of
        JArr as \<Rightarrow> if length as > MAX_ACTIONS then Inl TooMany else validate_from 0 as
      | _ \<Rightarrow> Inl NotArray)"

definition parsePush :: "jsval \<Rightarrow> jsval \<Rightarrow> string" where
  "parsePush headerVal queryVal =
     (let v = (if \<not> blank queryVal then queryVal else headerVal) in
      if blank v then ''wake''
      else let s = to_lower (trim (to_string v)) in
        if s \<in> {''content'', ''message'', ''full''} then ''content''
        else if s \<in> {''off'', ''none'', ''no'', ''0'', ''false''} then ''off''
        else ''wake'')"

section \<open>The canonical message\<close>

text \<open>\<open>now\<close> is the clock in milliseconds; the time of a message is in whole seconds.\<close>

definition normalizeTime :: "int \<Rightarrow> jsval \<Rightarrow> int" where
  "normalizeTime now t =
     (case to_number t of
        Fin r \<Rightarrow> if 1000000000 < \<lfloor>r\<rfloor> \<and> \<lfloor>r\<rfloor> < 4000000000 then \<lfloor>r\<rfloor> else now div 1000
      | _ \<Rightarrow> now div 1000)"

definition jint :: "int \<Rightarrow> jsval" where
  "jint n = JNum (Fin (of_int n))"

definition message_tags :: "jsval \<Rightarrow> string list" where
  "message_tags v =
     (case v of
        JArr vs \<Rightarrow> map (\<lambda>t. take MAX_TAG_LEN (to_string t)) (take MAX_TAGS vs)
      | _ \<Rightarrow> map (\<lambda>t. take MAX_TAG_LEN t) (parseTags v))"

definition buildMessage :: "int \<Rightarrow> string \<Rightarrow> jsval \<Rightarrow> jsval" where
  "buildMessage now fresh opts =
     JObj ([(''id'', js_or (obj_get opts ''id'') (JStr (''n-'' @ fresh))),
            (''time'', jint (normalizeTime now (obj_get opts ''time''))),
            (''event'', JStr ''message''),
            (''topic'', obj_get opts ''topic''),
            (''message'', JStr (if nullish (obj_get opts ''message'') then [] else to_string (obj_get opts ''message'')))]
       @ (if truthy (obj_get opts ''title'') then [(''title'', JStr (take MAX_TITLE_LEN (to_string (obj_get opts ''title''))))] else [])
       @ (if parsePriority (obj_get opts ''priority'') \<noteq> 3 then [(''priority'', jint (int (parsePriority (obj_get opts ''priority''))))] else [])
       @ (if message_tags (obj_get opts ''tags'') \<noteq> [] then [(''tags'', JArr (map JStr (message_tags (obj_get opts ''tags''))))] else [])
       @ (if truthy (obj_get opts ''click'') then [(''click'', JStr (take MAX_CLICK_LEN (to_string (obj_get opts ''click''))))] else [])
       @ (case obj_get opts ''actions'' of JArr (a # as) \<Rightarrow> [(''actions'', JArr (a # as))] | _ \<Rightarrow> [])
       @ (if truthy (obj_get opts ''markdown'') then [(''content_type'', JStr ''text/markdown'')]
          else if truthy (obj_get opts ''contentType'') then [(''content_type'', JStr (to_string (obj_get opts ''contentType'')))] else []))"

section \<open>The topic ring\<close>

record ring_entry =
  re_msgs :: "(int \<times> jsval) list"
  re_last :: int

record notify_ring =
  nr_ttlMs :: int
  nr_maxPerTopic :: nat
  nr_maxTopics :: nat
  nr_topics :: "(string, ring_entry) jsmap"

definition ring_new :: "int \<Rightarrow> nat \<Rightarrow> nat \<Rightarrow> notify_ring" where
  "ring_new ttl maxPer maxTopics =
     \<lparr>nr_ttlMs = (if ttl = 0 then 12 * 60 * 60 * 1000 else ttl),
      nr_maxPerTopic = (if maxPer = 0 then 100 else maxPer),
      nr_maxTopics = (if maxTopics = 0 then 5000 else maxTopics), nr_topics = []\<rparr>"

text \<open>The sort is stable, as \<open>Array.prototype.sort\<close> is.\<close>

definition ring_evict :: "notify_ring \<Rightarrow> notify_ring" where
  "ring_evict R =
     (if length (nr_topics R) \<le> nr_maxTopics R then R
      else R\<lparr>nr_topics := fold (\<lambda>e. jdel (fst e))
             (take (length (nr_topics R) - nr_maxTopics R) (sort_key (\<lambda>e. re_last (snd e)) (nr_topics R))) (nr_topics R)\<rparr>)"

definition ring_prune :: "int \<Rightarrow> notify_ring \<Rightarrow> ring_entry \<Rightarrow> ring_entry" where
  "ring_prune now R e = e\<lparr>re_msgs := dropWhile (\<lambda>r. fst r < now - nr_ttlMs R) (re_msgs e)\<rparr>"

definition ring_append :: "int \<Rightarrow> string \<Rightarrow> jsval \<Rightarrow> notify_ring \<Rightarrow> notify_ring" where
  "ring_append now topic msg R =
     (let e0 = (case jget (nr_topics R) topic of None \<Rightarrow> \<lparr>re_msgs = [], re_last = now\<rparr> | Some e \<Rightarrow> e);
          e1 = ring_prune now R (e0\<lparr>re_last := now\<rparr>);
          msgs = re_msgs e1 @ [(now, msg)];
          e2 = e1\<lparr>re_msgs := drop (length msgs - nr_maxPerTopic R) msgs\<rparr>
      in ring_evict (R\<lparr>nr_topics := jset topic e2 (nr_topics R)\<rparr>))"

definition duration_unit :: "char \<Rightarrow> int option" where
  "duration_unit c = map_of [(CHR ''s'', 1000), (CHR ''m'', 60000), (CHR ''h'', 3600000), (CHR ''d'', 86400000)] c"

definition parse_duration :: "string \<Rightarrow> int option" where
  "parse_duration s =
     (if s = [] \<or> \<not> all_digits (butlast s) then None
      else map_option (\<lambda>u. int (read_dec (butlast s)) * u) (duration_unit (last s)))"

fun after_id :: "string \<Rightarrow> (int \<times> jsval) list \<Rightarrow> (int \<times> jsval) list option" where
  "after_id i [] = None"
| "after_id i (r # rs) = (if obj_get (snd r) ''id'' = JStr i then Some rs else after_id i rs)"

definition ring_pick :: "int \<Rightarrow> string \<Rightarrow> (int \<times> jsval) list \<Rightarrow> jsval list" where
  "ring_pick now s all =
     (if s = [] then []
      else if s = ''all'' then map snd all
      else case parse_duration s of
        Some d \<Rightarrow> map snd (filter (\<lambda>r. fst r \<ge> now - d) all)
      | None \<Rightarrow> (case after_id s all of Some rs \<Rightarrow> map snd rs | None \<Rightarrow> map snd all))"

definition ring_since :: "int \<Rightarrow> string \<Rightarrow> string \<Rightarrow> notify_ring \<Rightarrow> jsval list \<times> notify_ring" where
  "ring_since now topic since R =
     (case jget (nr_topics R) topic of
        None \<Rightarrow> ([], R)
      | Some e \<Rightarrow> (let e' = ring_prune now R e
                   in (ring_pick now since (re_msgs e'), R\<lparr>nr_topics := jset topic e' (nr_topics R)\<rparr>)))"

definition topicCount :: "notify_ring \<Rightarrow> nat" where
  "topicCount R = length (nr_topics R)"

section \<open>Catch-up\<close>

definition ring_run :: "(int \<times> string \<times> jsval) list \<Rightarrow> notify_ring \<Rightarrow> notify_ring" where
  "ring_run evs R = fold (\<lambda>(t, topic, msg). ring_append t topic msg) evs R"

definition history :: "string \<Rightarrow> (int \<times> string \<times> jsval) list \<Rightarrow> (int \<times> jsval) list" where
  "history topic evs = map (\<lambda>(t, topic, msg). (t, msg)) (filter (\<lambda>e. fst (snd e) = topic) evs)"

lemma dropWhile_sorted:
  "sorted (map fst xs) \<Longrightarrow> dropWhile (\<lambda>r. fst r < c) xs = filter (\<lambda>r. c \<le> fst r) xs"
proof (induction xs)
  case (Cons x xs)
  then have "\<not> fst x < c \<Longrightarrow> filter (\<lambda>r. c \<le> fst r) xs = xs"
    by (auto simp: filter_eq_self_iff)
  with Cons show ?case by (cases "fst x < c") auto
qed simp

lemma keep_last_append_long: "n \<le> length b \<Longrightarrow> keep_last n (a @ b) = keep_last n b"
  by (simp add: keep_last_def)

lemma filter_keep_last:
  assumes "sorted (map fst xs)"
  shows "filter (\<lambda>r. c \<le> fst r) (keep_last n xs) = keep_last n (filter (\<lambda>r. c \<le> fst r) xs)"
proof -
  let ?a = "takeWhile (\<lambda>r. fst r < c) xs" and ?b = "dropWhile (\<lambda>r. fst r < c) xs"
  have b: "filter (\<lambda>r. c \<le> fst r) xs = ?b" by (rule dropWhile_sorted [OF assms, symmetric])
  have fb: "filter (\<lambda>r. c \<le> fst r) ?b = ?b" unfolding b [symmetric] by simp
  show ?thesis
  proof (cases "n \<le> length ?b")
    case True
    then have "keep_last n xs = keep_last n ?b" using keep_last_append_long [of n ?b ?a] by simp
    moreover have "filter (\<lambda>r. c \<le> fst r) (keep_last n ?b) = keep_last n ?b"
      using fb keep_last_set [of n ?b] unfolding filter_eq_self_iff by (meson subsetD)
    ultimately show ?thesis by (simp add: b)
  next
    case False
    then have "keep_last n xs = drop (length xs - n) ?a @ ?b"
      using drop_append [of "length xs - n" ?a ?b] length_append [of ?a ?b] unfolding keep_last_def takeWhile_dropWhile_id by simp
    moreover have "filter (\<lambda>r. c \<le> fst r) (drop (length xs - n) ?a) = []"
      by (auto simp: filter_empty_conv dest!: in_set_dropD set_takeWhileD)
    ultimately show ?thesis using False by (simp add: b fb keep_last_all)
  qed
qed

lemma keep_last_push: "keep_last n (keep_last n xs @ [y]) = keep_last n (xs @ [y])"
  by (cases "length xs \<le> n") (auto simp: keep_last_def Suc_diff_le not_le)

lemma history_snoc: "history topic (evs @ [(t, u, m)]) = (if u = topic then history topic evs @ [(t, m)] else history topic evs)"
  by (simp add: history_def)

lemma history_bound: "\<forall>e \<in> set evs. fst e \<le> t \<Longrightarrow> r \<in> set (history topic evs) \<Longrightarrow> fst r \<le> t"
  by (force simp: history_def)

lemma history_sorted: "sorted (map fst evs) \<Longrightarrow> sorted (map fst (history topic evs))"
  by (auto simp: history_def comp_def split_beta sorted_map intro: sorted_wrt_filter_intro)

abbreviation ring_msgs :: "string \<Rightarrow> notify_ring \<Rightarrow> (int \<times> jsval) list" where
  "ring_msgs topic R \<equiv> (case jget (nr_topics R) topic of None \<Rightarrow> [] | Some e \<Rightarrow> re_msgs e)"

lemma ring_entry_eta: "e\<lparr>re_last := t, re_msgs := ms\<rparr> = \<lparr>re_msgs = ms, re_last = t\<rparr>"
  by (cases e) simp

lemma ring_append_entry:
  assumes "length (jset topic e0 (nr_topics R)) \<le> nr_maxTopics R"
  shows "nr_topics (ring_append now topic msg R) = jset topic
      \<lparr>re_msgs = keep_last (nr_maxPerTopic R) (dropWhile (\<lambda>r. fst r < now - nr_ttlMs R) (ring_msgs topic R) @ [(now, msg)]),
       re_last = now\<rparr> (nr_topics R)"
  using assms by (auto simp: ring_append_def ring_evict_def ring_prune_def keep_last_def Let_def length_jset ring_entry_eta split: option.split)

lemma ring_append_config [simp]:
  "nr_ttlMs (ring_append now topic msg R) = nr_ttlMs R" "nr_maxPerTopic (ring_append now topic msg R) = nr_maxPerTopic R"
  "nr_maxTopics (ring_append now topic msg R) = nr_maxTopics R"
  by (simp_all add: ring_append_def ring_evict_def Let_def)

lemma ring_window:
  assumes "sorted (map fst evs)" "\<forall>e \<in> set evs. fst e \<le> now" "card (fst ` snd ` set evs) \<le> nr_maxTopics R" "nr_topics R = []"
  shows "wf_map (nr_topics (ring_run evs R)) \<and> fst ` set (nr_topics (ring_run evs R)) = fst ` snd ` set evs
    \<and> nr_ttlMs (ring_run evs R) = nr_ttlMs R \<and> nr_maxPerTopic (ring_run evs R) = nr_maxPerTopic R
    \<and> nr_maxTopics (ring_run evs R) = nr_maxTopics R
    \<and> dropWhile (\<lambda>r. fst r < now - nr_ttlMs R) (ring_msgs topic (ring_run evs R))
       = keep_last (nr_maxPerTopic R) (filter (\<lambda>r. now - nr_ttlMs R \<le> fst r) (history topic evs))"
  using assms
proof (induction evs arbitrary: now rule: rev_induct)
  case Nil
  then show ?case by (simp add: ring_run_def history_def keep_last_def)
next
  case (snoc ev evs)
  obtain t u m where ev: "ev = (t, u, m)" by (cases ev)
  let ?R = "ring_run evs R" and ?n = "nr_maxPerTopic R"
  have s: "sorted (map fst evs)" "\<forall>e \<in> set evs. fst e \<le> t" "t \<le> now"
    using snoc.prems ev by (auto simp: sorted_append)
  then have le: "\<forall>e \<in> set evs. fst e \<le> now" by fastforce
  have c: "card (fst ` snd ` set evs) \<le> nr_maxTopics R"
    using snoc.prems(3) card_mono [of "fst ` snd ` set (evs @ [ev])" "fst ` snd ` set evs"] by force
  note ih = snoc.IH [OF s(1) _ c snoc.prems(4)]
  have wf: "wf_map (nr_topics ?R)" "fst ` set (nr_topics ?R) = fst ` snd ` set evs"
    and cfg: "nr_ttlMs ?R = nr_ttlMs R" "nr_maxPerTopic ?R = ?n" "nr_maxTopics ?R = nr_maxTopics R"
    using ih [of t] s(2) by blast+
  have "length (jset u e0 (nr_topics ?R)) = card (insert u (fst ` snd ` set evs))" for e0
    using wf wf_map_card [OF wf_map_jset [OF wf(1)]] by (simp add: jset_keys)
  then have len: "length (jset u e0 (nr_topics ?R)) \<le> nr_maxTopics ?R" for e0
    using snoc.prems(3) ev cfg(3) by simp
  have run: "ring_run (evs @ [(t, u, m)]) R = ring_append t u m ?R" by (simp add: ring_run_def)
  note entry = ring_append_entry [OF len, of t m, unfolded cfg]
  have win: "dropWhile (\<lambda>r. fst r < now - nr_ttlMs R) (ring_msgs topic (ring_run (evs @ [ev]) R))
       = keep_last ?n (filter (\<lambda>r. now - nr_ttlMs R \<le> fst r) (history topic (evs @ [ev])))"
  proof (cases "u = topic")
    case False
    then show ?thesis using ih [OF le] by (simp add: run entry ev history_snoc)
  next
    case True
    let ?h = "history topic evs"
    have hs: "sorted (map fst (?h @ [(t, m)]))"
      using history_sorted [OF s(1)] history_bound [OF s(2)] by (fastforce simp: sorted_append)
    have "ring_msgs topic (ring_run (evs @ [ev]) R) = keep_last ?n (keep_last ?n (filter (\<lambda>r. t - nr_ttlMs R \<le> fst r) ?h) @ [(t, m)])"
      using ih [of t] s(2) True by (simp add: ev run [unfolded True] entry [unfolded True])
    also have "\<dots> = keep_last ?n (filter (\<lambda>r. t - nr_ttlMs R \<le> fst r) ?h @ [(t, m)])" by (rule keep_last_push)
    finally have msgs: "ring_msgs topic (ring_run (evs @ [ev]) R) = keep_last ?n (filter (\<lambda>r. t - nr_ttlMs R \<le> fst r) ?h @ [(t, m)])" .
    have hs': "sorted (map fst (filter (\<lambda>r. t - nr_ttlMs R \<le> fst r) ?h @ [(t, m)]))"
      using hs by (auto simp: sorted_append sorted_map intro: sorted_wrt_filter_intro)
    then have "sorted (map fst (keep_last ?n (filter (\<lambda>r. t - nr_ttlMs R \<le> fst r) ?h @ [(t, m)])))"
      unfolding keep_last_def drop_map [symmetric] by (rule sorted_wrt_drop)
    then have "dropWhile (\<lambda>r. fst r < now - nr_ttlMs R) (ring_msgs topic (ring_run (evs @ [ev]) R))
        = keep_last ?n (filter (\<lambda>r. now - nr_ttlMs R \<le> fst r) (filter (\<lambda>r. t - nr_ttlMs R \<le> fst r) ?h @ [(t, m)]))"
      unfolding msgs by (simp only: dropWhile_sorted filter_keep_last [OF hs'])
    moreover have "filter (\<lambda>r. now - nr_ttlMs R \<le> fst r \<and> t - nr_ttlMs R \<le> fst r) ?h = filter (\<lambda>r. now - nr_ttlMs R \<le> fst r) ?h"
      using s(3) by (auto intro: filter_cong)
    ultimately show ?thesis using True by (simp add: ev history_snoc conj_commute)
  qed
  show ?case using win wf cfg by (simp add: run entry jset_keys ev)
qed

text \<open>
  Catch-up without gaps: publish any messages in time order on topics within the topic limit. A
  subscriber that saw message \<open>m\<close> of a topic and asks for everything since its id gets exactly the
  messages published to that topic after \<open>m\<close>, in order, as long as \<open>m\<close> is within the retention time
  and fewer than the ring size followed it.
\<close>

theorem ring_resume:
  assumes "sorted (map fst evs)" "\<forall>e \<in> set evs. fst e \<le> now" "card (fst ` snd ` set evs) \<le> nr_maxTopics R" "nr_topics R = []"
    and h: "history topic evs = pre @ (t, m) # post" and id: "obj_get m ''id'' = JStr i" "\<forall>r \<in> set pre. obj_get (snd r) ''id'' \<noteq> JStr i"
    and i: "i \<noteq> []" "i \<noteq> ''all''" "parse_duration i = None"
    and ret: "now - nr_ttlMs R \<le> t" "length post < nr_maxPerTopic R"
  shows "fst (ring_since now topic i (ring_run evs R)) = map snd post"
proof -
  let ?R = "ring_run evs R" and ?P = "\<lambda>r :: int \<times> jsval. now - nr_ttlMs R \<le> fst r"
  note w = ring_window [OF assms(1-4), of topic]
  have "sorted (map fst (pre @ (t, m) # post))" using history_sorted [OF assms(1), of topic] h by simp
  then have "filter ?P post = post" using ret(1) by (auto simp: filter_eq_self_iff sorted_append)
  then have f: "filter ?P (history topic evs) = filter ?P pre @ (t, m) # post" using ret(1) by (simp add: h)
  obtain pre' where pre': "keep_last (nr_maxPerTopic R) (filter ?P pre @ (t, m) # post) = pre' @ (t, m) # post" "set pre' \<subseteq> set pre"
  proof -
    have "keep_last (nr_maxPerTopic R) (filter ?P pre @ (t, m) # post)
        = drop (length (filter ?P pre) + Suc (length post) - nr_maxPerTopic R) (filter ?P pre) @ (t, m) # post"
      using ret(2) by (simp add: keep_last_def)
    moreover have "set (drop k (filter ?P pre)) \<subseteq> set pre" for k by (auto dest: in_set_dropD)
    ultimately show thesis by (rule that)
  qed
  have "topic \<in> fst ` snd ` set evs"
    using h by (force simp: history_def dest: arg_cong [of _ _ set])
  then obtain e where e: "jget (nr_topics ?R) topic = Some e"
    using w by (metis domIff dom_map_of_conv_image_fst not_None_eq)
  have "after_id i (pre'' @ (t, m) # post) = Some post" if "set pre'' \<subseteq> set pre" for pre''
    using that id by (induction pre'') auto
  then show ?thesis
    using w e f pre' i by (simp add: ring_since_def ring_prune_def ring_pick_def Let_def)
qed

definition note_msg :: "string \<Rightarrow> jsval" where
  "note_msg i = JObj [(''id'', JStr i)]"

theorem ring_resume_witness:
  "fst (ring_since 30 ''a'' ''n-1'' (ring_run [(10, ''a'', note_msg ''n-1''), (15, ''b'', note_msg ''n-2''), (20, ''a'', note_msg ''n-3'')]
     (ring_new 0 2 2))) = [note_msg ''n-3'']"
  using ring_resume [of "[(10, ''a'', note_msg ''n-1''), (15, ''b'', note_msg ''n-2''), (20, ''a'', note_msg ''n-3'')]" 30
      "ring_new 0 2 2" "''a''" "[]" 10 "note_msg ''n-1''" "[(20, note_msg ''n-3'')]" "''n-1''"]
  by (simp add: ring_new_def history_def note_msg_def parse_duration_def all_digits_def is_digit_def card_insert_if)

section \<open>Bounds of the ring\<close>

lemma fold_jdel_get: "jget (fold (\<lambda>e. jdel (fst e)) es m) k = (if k \<in> fst ` set es then None else jget m k)"
  by (induction es arbitrary: m) auto

lemma fold_jdel_wf: "wf_map m \<Longrightarrow> wf_map (fold (\<lambda>e. jdel (fst e)) es m)"
  by (induction es arbitrary: m) auto

lemma fold_jdel_keys: "fst ` set (fold (\<lambda>e. jdel (fst e)) es m) = fst ` set m - fst ` set es"
  by (induction es arbitrary: m) (auto simp: jdel_keys)

lemma fold_jdel_length:
  assumes "wf_map m" "distinct (map fst es)" "set es \<subseteq> set m"
  shows "length (fold (\<lambda>e. jdel (fst e)) es m) = length m - length es"
proof -
  have "card (fst ` set es) = length es" using assms(2) by (metis distinct_card length_map list.set_map)
  then show ?thesis
    using wf_map_card [OF fold_jdel_wf [OF assms(1)], of es] wf_map_card [OF assms(1)] assms(3)
    by (simp add: fold_jdel_keys card_Diff_subset image_mono)
qed

definition ring_invar :: "notify_ring \<Rightarrow> bool" where
  "ring_invar R \<longleftrightarrow> wf_map (nr_topics R) \<and> length (nr_topics R) \<le> nr_maxTopics R
     \<and> (\<forall>(k, e) \<in> set (nr_topics R). length (re_msgs e) \<le> nr_maxPerTopic R)"

lemma ring_evict_spec:
  assumes wf: "wf_map (nr_topics R)"
  shows "wf_map (nr_topics (ring_evict R))" "length (nr_topics (ring_evict R)) \<le> nr_maxTopics R"
    "set (nr_topics (ring_evict R)) \<subseteq> set (nr_topics R)"
    "p \<in> set (nr_topics R) \<Longrightarrow> p \<notin> set (nr_topics (ring_evict R)) \<Longrightarrow>
       \<forall>q \<in> set (nr_topics (ring_evict R)). re_last (snd p) \<le> re_last (snd q)"
proof -
  let ?s = "sort_key (\<lambda>e. re_last (snd e)) (nr_topics R)" and ?n = "length (nr_topics R) - nr_maxTopics R"
  have inj: "inj_on fst (set (nr_topics R))" "distinct (nr_topics R)" using wf by (auto simp: wf_map_def distinct_map)
  then have "distinct (map fst ?s)" by (simp add: distinct_map)
  then have dt: "distinct (map fst (take ?n ?s))" by (metis distinct_take take_map)
  have sub: "set (take ?n ?s) \<subseteq> set (nr_topics R)" using set_take_subset by fastforce
  show wf': "wf_map (nr_topics (ring_evict R))" using wf by (simp add: ring_evict_def fold_jdel_wf)
  show "length (nr_topics (ring_evict R)) \<le> nr_maxTopics R"
    using fold_jdel_length [OF wf dt sub] by (simp add: ring_evict_def)
  have get: "jget (nr_topics (ring_evict R)) k = (if k \<in> fst ` set (take ?n ?s) then None else jget (nr_topics R) k)" for k
    by (simp add: ring_evict_def fold_jdel_get)
  then have mem: "q \<in> set (nr_topics (ring_evict R)) \<longleftrightarrow> q \<in> set (nr_topics R) \<and> fst q \<notin> fst ` set (take ?n ?s)" for q
    using wf_map_in [OF wf', of "fst q" "snd q"] wf_map_in [OF wf, of "fst q" "snd q"] by simp
  then show "set (nr_topics (ring_evict R)) \<subseteq> set (nr_topics R)" by blast
  show "\<forall>q \<in> set (nr_topics (ring_evict R)). re_last (snd p) \<le> re_last (snd q)"
    if p: "p \<in> set (nr_topics R)" "p \<notin> set (nr_topics (ring_evict R))"
  proof
    fix q assume q: "q \<in> set (nr_topics (ring_evict R))"
    obtain p' where p': "p' \<in> set (take ?n ?s)" "fst p' = fst p"
      using p mem [of p] by force
    with sub have "p' \<in> set (nr_topics R)" by blast
    from inj_onD [OF inj(1) p'(2) this p(1)] p'(1) have "p \<in> set (take ?n ?s)" by simp
    moreover have "q \<in> set (drop ?n ?s)"
      using q mem [of q] set_append [of "take ?n ?s" "drop ?n ?s"] by auto
    moreover have "sorted (map (\<lambda>e. re_last (snd e)) (take ?n ?s @ drop ?n ?s))" by simp
    ultimately show "re_last (snd p) \<le> re_last (snd q)"
      unfolding map_append sorted_append by force
  qed
qed

definition ring_limits :: "notify_ring \<Rightarrow> nat \<times> nat" where
  "ring_limits R = (nr_maxTopics R, nr_maxPerTopic R)"

lemma ring_append_stored:
  obtains e where "ring_append now t m R = ring_evict (R\<lparr>nr_topics := jset t e (nr_topics R)\<rparr>)"
    "length (re_msgs e) \<le> nr_maxPerTopic R"
  by (rule that [unfolded ring_append_def Let_def, OF refl]) simp

lemma ring_append_invar: "ring_invar R \<Longrightarrow> ring_invar (ring_append now t m R)"
proof -
  assume inv: "ring_invar R"
  obtain e where e: "ring_append now t m R = ring_evict (R\<lparr>nr_topics := jset t e (nr_topics R)\<rparr>)"
    "length (re_msgs e) \<le> nr_maxPerTopic R" by (rule ring_append_stored)
  have wf: "wf_map (nr_topics (R\<lparr>nr_topics := jset t e (nr_topics R)\<rparr>))" using inv by (simp add: ring_invar_def)
  note s = ring_evict_spec [OF wf]
  have "set (nr_topics (ring_append now t m R)) \<subseteq> insert (t, e) (set (nr_topics R))"
    using s(3) set_jset_subset [of t e "nr_topics R"] e(1) by auto
  then show ?thesis using inv s(1,2) e by (auto simp: ring_invar_def ring_evict_def)
qed

lemma ring_append_lru:
  assumes "ring_invar R" "jget (nr_topics R) u = Some x" "u \<noteq> t"
    "jget (nr_topics (ring_append now t m R)) u = None" "jget (nr_topics (ring_append now t m R)) k = Some x'"
  shows "re_last x \<le> re_last x'"
proof -
  obtain e where e: "ring_append now t m R = ring_evict (R\<lparr>nr_topics := jset t e (nr_topics R)\<rparr>)"
    by (rule ring_append_stored)
  have wf: "wf_map (nr_topics (R\<lparr>nr_topics := jset t e (nr_topics R)\<rparr>))" using assms(1) by (simp add: ring_invar_def)
  have "jget (jset t e (nr_topics R)) u = Some x" using assms(2,3) by simp
  from map_of_SomeD [OF this] have "(u, x) \<in> set (nr_topics (R\<lparr>nr_topics := jset t e (nr_topics R)\<rparr>))" by simp
  from ring_evict_spec(4) [OF wf this] show ?thesis
    using assms(4,5) map_of_SomeD wf_map_in [OF ring_evict_spec(1) [OF wf]] unfolding e by fastforce
qed

lemma ring_run_invar:
  "ring_invar R \<Longrightarrow> ring_invar (ring_run evs R) \<and> ring_limits (ring_run evs R) = ring_limits R"
  by (induction evs rule: rev_induct) (auto simp: ring_run_def ring_append_invar ring_limits_def)

text \<open>
  The ring is bounded: over any publications, at any times, there are never more topics than the
  limit and never more messages on a topic than the limit; and a topic dropped by a publication was
  published to no later than every topic kept.
\<close>

theorem ring_bounded:
  assumes "R = ring_run evs (ring_new ttl maxPer maxTopics)"
  shows "topicCount R \<le> (if maxTopics = 0 then 5000 else maxTopics)
    \<and> length (ring_msgs topic R) \<le> (if maxPer = 0 then 100 else maxPer)
    \<and> (\<forall>u e k e'. jget (nr_topics R) u = Some e \<and> u \<noteq> t \<and> jget (nr_topics (ring_append now t m R)) u = None
         \<and> jget (nr_topics (ring_append now t m R)) k = Some e' \<longrightarrow> re_last e \<le> re_last e')"
proof -
  have "ring_invar (ring_run evs (ring_new ttl maxPer maxTopics)) \<and> ring_limits (ring_run evs (ring_new ttl maxPer maxTopics))
      = ring_limits (ring_new ttl maxPer maxTopics)"
    using ring_run_invar by (simp add: ring_invar_def ring_new_def)
  then have inv: "ring_invar R" "nr_maxTopics R = (if maxTopics = 0 then 5000 else maxTopics)"
    "nr_maxPerTopic R = (if maxPer = 0 then 100 else maxPer)"
    using assms by (simp_all add: ring_limits_def ring_new_def)
  have "length (ring_msgs topic R) \<le> nr_maxPerTopic R"
    using inv(1) by (auto simp: ring_invar_def split: option.split dest: map_of_SomeD)
  moreover have "\<forall>u e k e'. jget (nr_topics R) u = Some e \<and> u \<noteq> t \<and> jget (nr_topics (ring_append now t m R)) u = None
      \<and> jget (nr_topics (ring_append now t m R)) k = Some e' \<longrightarrow> re_last e \<le> re_last e'"
    using ring_append_lru [OF inv(1)] by blast
  ultimately show ?thesis using inv by (simp add: ring_invar_def topicCount_def)
qed

theorem ring_bounded_witness:
  "topicCount (ring_run [(1, ''a'', note_msg ''x''), (2, ''b'', note_msg ''y'')] (ring_new 0 1 1)) \<le> 1"
  using ring_bounded [OF refl, of "[(1, ''a'', note_msg ''x''), (2, ''b'', note_msg ''y'')]" 0 1 1] by simp

section \<open>Action buttons\<close>

definition header_ok :: "string \<times> jsval \<Rightarrow> bool" where
  "header_ok kv \<longleftrightarrow> fst kv \<notin> {''__proto__'', ''constructor'', ''prototype''} \<and> length (fst kv) \<le> MAX_ACTION_HEADER_LEN
     \<and> (\<exists>s. snd kv = JStr s \<and> length s \<le> MAX_ACTION_HEADER_LEN)"

lemma validate_headers_sound:
  "validate_headers kvs acc = Inr hs \<Longrightarrow> wf_map acc \<Longrightarrow> \<forall>kv \<in> set acc. header_ok kv \<Longrightarrow>
   wf_map hs \<and> (\<forall>kv \<in> set hs. header_ok kv) \<and> length hs \<le> length acc + length kvs"
proof (induction kvs acc rule: validate_headers.induct)
  case (2 k v kvs acc)
  from 2(2) obtain s where s: "v = JStr s" "header_ok (k, v)" "validate_headers kvs (jset k v acc) = Inr hs"
    by (auto simp: header_ok_def split: if_splits jsval.splits)
  have "\<forall>kv \<in> set (jset k v acc). header_ok kv" using 2(4) s(2) set_jset_subset [of k v acc] by blast
  moreover have "wf_map (jset k v acc)" using 2(3) by blast
  moreover have "length (jset k v acc) \<le> Suc (length acc)" by (simp add: length_jset split: option.split)
  ultimately show ?case using 2(1) [OF _ s(1) _ s(3)] s by (fastforce simp: header_ok_def)
qed simp

lemma validate_headers_fix:
  "\<forall>kv \<in> set hs. header_ok kv \<Longrightarrow> wf_map (acc @ hs) \<Longrightarrow> validate_headers hs acc = Inr (acc @ hs)"
proof (induction hs arbitrary: acc)
  case (Cons kv hs)
  obtain k v where kv: "kv = (k, v)" by (cases kv)
  with Cons.prems have "k \<notin> fst ` set acc" by (auto simp: wf_map_def)
  then have "jset k v acc = acc @ [(k, v)]" by (rule jset_fresh)
  with Cons kv show ?case by (auto simp: header_ok_def)
qed simp

lemma action_headers_idem:
  assumes "action_headers a = Inr h" "obj_get n ''headers'' = (case h of [] \<Rightarrow> JUndef | (k, v) # _ \<Rightarrow> v)"
  shows "action_headers n = Inr h"
proof (cases "obj_get a ''headers''")
  case (JObj kvs)
  with assms(1) obtain hs where hs: "length kvs \<le> MAX_ACTION_HEADERS" "validate_headers kvs [] = Inr hs" "h = [(''headers'', JObj hs)]"
    by (auto simp: action_headers_def split: if_splits sum.splits)
  from validate_headers_sound [OF hs(2)] have "wf_map hs" "\<forall>kv \<in> set hs. header_ok kv" "length hs \<le> MAX_ACTION_HEADERS"
    using hs(1) by simp_all
  with validate_headers_fix [of hs "[]"] hs(3) assms(2) show ?thesis by (simp add: action_headers_def)
qed (use assms in \<open>auto simp: action_headers_def\<close>)

lemma action_body_idem:
  assumes "action_body a = Inr b" "obj_get n ''body'' = (case b of [] \<Rightarrow> JUndef | (k, v) # _ \<Rightarrow> v)"
  shows "action_body n = Inr b"
  using assms by (auto simp: action_body_def split: jsval.splits if_splits)

lemma to_upper_method: "m \<in> set ACTION_METHODS \<Longrightarrow> to_upper m = m"
  by (auto simp: ACTION_METHODS_def to_upper_def upper_char_def)

lemma action_method_idem:
  assumes "action_method a = Inr m" "obj_get n ''method'' = JStr m"
  shows "action_method n = Inr m"
proof -
  from assms(1) have "m \<in> set ACTION_METHODS"
    by (auto simp: action_method_def ACTION_METHODS_def split: jsval.splits if_splits)
  with assms(2) to_upper_method show ?thesis by (simp add: action_method_def)
qed

lemma action_member_keys:
  "action_body a = Inr b \<Longrightarrow> b = [] \<or> (\<exists>v. b = [(''body'', v)])"
  "action_headers a = Inr h \<Longrightarrow> h = [] \<or> (\<exists>v. h = [(''headers'', v)])"
  by (auto simp: action_body_def action_headers_def split: jsval.splits if_splits sum.splits)

lemma validate_action_idem:
  assumes "validate_action a = Inr n" shows "validate_action n = Inr n"
proof -
  let ?base = "[(''action'', obj_get a ''action''), (''label'', obj_get a ''label''), (''url'', obj_get a ''url'')]"
  from assms have ok: "obj_get a ''action'' = JStr ''http'' \<or> obj_get a ''action'' = JStr ''view''"
    "action_text_ok MAX_ACTION_LABEL (obj_get a ''label'')" "action_url_ok (obj_get a ''url'')"
    by (auto simp: validate_action_def split: if_splits)
  show ?thesis
  proof (cases "obj_get a ''action'' = JStr ''http''")
    case False
    with assms ok have "n = JObj ?base" by (auto simp: validate_action_def split: if_splits)
    with ok False show ?thesis by (auto simp: validate_action_def)
  next
    case True
    with assms obtain m b h where mbh: "action_method a = Inr m" "action_body a = Inr b" "action_headers a = Inr h"
      "n = JObj (?base @ [(''method'', JStr m)] @ b @ h)"
      by (auto simp: validate_action_def Let_def split: if_splits sum.splits)
    from action_member_keys(1) [OF mbh(2)] action_member_keys(2) [OF mbh(3)]
    have get: "obj_get n ''method'' = JStr m" "obj_get n ''body'' = (case b of [] \<Rightarrow> JUndef | (k, v) # _ \<Rightarrow> v)"
      "obj_get n ''headers'' = (case h of [] \<Rightarrow> JUndef | (k, v) # _ \<Rightarrow> v)"
      unfolding mbh(4) by auto
    have base: "obj_get n ''action'' = obj_get a ''action''" "obj_get n ''label'' = obj_get a ''label''"
      "obj_get n ''url'' = obj_get a ''url''" "is_plain_obj n" unfolding mbh(4) by simp_all
    show ?thesis
      using action_method_idem [OF mbh(1) get(1)] action_body_idem [OF mbh(2) get(2)] action_headers_idem [OF mbh(3) get(3)]
        ok True mbh(4) by (simp add: validate_action_def base)
  qed
qed

lemma validate_from_idem: "validate_from i as = Inr ns \<Longrightarrow> validate_from j ns = Inr ns \<and> length ns = length as"
  by (induction as arbitrary: i j ns) (auto split: sum.splits dest: validate_action_idem)

lemma validate_from_each: "validate_from i as = Inr ns \<Longrightarrow> n \<in> set ns \<Longrightarrow> \<exists>a. validate_action a = Inr n"
  by (induction as arbitrary: i ns) (auto split: sum.splits)

text \<open>
  Validated action buttons are stable and safe: validating them again gives them back unchanged,
  there are at most six, and each has an https address, a label and a known kind, and nothing but
  the fields of its kind.
\<close>

theorem validateActions_stable:
  assumes "validateActions raw = Inr ns"
  shows "validateActions (JArr ns) = Inr ns \<and> length ns \<le> MAX_ACTIONS
    \<and> (\<forall>n \<in> set ns. action_url_ok (obj_get n ''url'') \<and> action_text_ok MAX_ACTION_LABEL (obj_get n ''label'')
         \<and> obj_get n ''action'' \<in> {JStr ''http'', JStr ''view''}
         \<and> fst ` set (obj_fields n) \<subseteq> {''action'', ''label'', ''url'', ''method'', ''body'', ''headers''})"
proof -
  from assms obtain as where raw: "raw = JArr as" "length as \<le> MAX_ACTIONS" "validate_from 0 as = Inr ns"
    by (auto simp: validateActions_def split: jsval.splits if_splits)
  have "action_url_ok (obj_get n ''url'') \<and> action_text_ok MAX_ACTION_LABEL (obj_get n ''label'')
      \<and> obj_get n ''action'' \<in> {JStr ''http'', JStr ''view''}
      \<and> fst ` set (obj_fields n) \<subseteq> {''action'', ''label'', ''url'', ''method'', ''body'', ''headers''}"
    if "n \<in> set ns" for n
  proof -
    from validate_from_each [OF raw(3) that] obtain a where a: "validate_action a = Inr n" by blast
    from validate_action_idem [OF this] have "action_url_ok (obj_get n ''url'') \<and> action_text_ok MAX_ACTION_LABEL (obj_get n ''label'')
      \<and> obj_get n ''action'' \<in> {JStr ''http'', JStr ''view''}"
      by (simp add: validate_action_def split: if_splits)
    moreover from a have "fst ` set (obj_fields n) \<subseteq> {''action'', ''label'', ''url'', ''method'', ''body'', ''headers''}"
      by (auto simp: validate_action_def Let_def split: if_splits sum.splits dest!: action_member_keys)
    ultimately show ?thesis by blast
  qed
  with raw validate_from_idem [OF raw(3), of 0] show ?thesis by (simp add: validateActions_def)
qed

definition ack_button :: jsval where
  "ack_button = JObj [(''action'', JStr ''http''), (''label'', JStr ''Ack''), (''url'', JStr ''https://x/ack''), (''extra'', JNull)]"

theorem validateActions_stable_witness:
  "\<exists>ns. validateActions (JArr [ack_button]) = Inr ns \<and> ns \<noteq> [] \<and> validateActions (JArr ns) = Inr ns"
proof -
  have "validateActions (JArr [ack_button]) = Inr [JObj [(''action'', JStr ''http''), (''label'', JStr ''Ack''),
      (''url'', JStr ''https://x/ack''), (''method'', JStr ''POST'')]]"
    by (simp add: validateActions_def validate_action_def ack_button_def action_text_ok_def action_url_ok_def action_method_def
        action_body_def action_headers_def MAX_ACTIONS_def MAX_ACTION_LABEL_def MAX_ACTION_URL_def)
  from validateActions_stable [OF this] this show ?thesis by blast
qed

section \<open>The message\<close>

lemma parsePriority_range: "1 \<le> parsePriority v \<and> parsePriority v \<le> 5"
proof -
  have "1 \<le> nat \<lfloor>n\<rfloor> \<and> nat \<lfloor>n\<rfloor> \<le> 5" if "1 \<le> n" "n \<le> (5 :: rat)" for n
    using that by (simp add: le_nat_iff nat_le_iff le_floor_iff floor_le_iff)
  moreover have "p \<in> {1 .. 5}" if "map_of PRIORITY_NAMES s = Some p" for s p
    using map_of_SomeD [OF that] by (auto simp: PRIORITY_NAMES_def)
  ultimately show ?thesis
    by (auto simp: parsePriority_def Let_def split: option.splits jsnum.splits)
qed

end
