(* ===== verification/Notify_Boards.thy ===== *)
theory Notify_Boards
  imports Notify Nonces "HOL-Library.List_Lexorder" "HOL-Library.Char_ord"
begin

text \<open>
  Private topics and status boards: the durable claim store (\<open>lib/notify-store.js\<close>), the board
  helpers (\<open>lib/notify-boards.js\<close>), and the two places of the server that drive them, the publish
  handler and the watchdog sweep. What those hand to other parts of the broker (routing, live
  subscribers, phone push, the activity directory) is a list of effects.
\<close>

section \<open>The claim store\<close>

record topic_claim =
  cl_pubkey :: string
  cl_pubkey_fingerprint :: string
  cl_publish_token_hash :: string
  cl_created_at :: int

record board_config =
  bc_name :: string
  bc_compact_key :: string
  bc_board_privkey :: string
  bc_board_pubkey :: string
  bc_owner_uid :: "string option"
  bc_created_at :: int

record board_row =
  br_msg :: json
  br_state :: "string option"
  br_expires_at :: int
  br_down :: bool
  br_updated_at :: int

record publish_token =
  pt_topic :: string
  pt_token_id :: string
  pt_token_hash :: string
  pt_label :: "string option"
  pt_created_at :: int

record notify_store =
  no_claims :: "(string, topic_claim) jsmap"
  no_boards :: "(string, board_config) jsmap"
  no_state :: "(string \<times> string, board_row) jsmap"
  no_tokens :: "publish_token list"

definition notify_store_new :: notify_store where
  "notify_store_new = \<lparr>no_claims = [], no_boards = [], no_state = [], no_tokens = []\<rparr>"

definition getClaim :: "string \<Rightarrow> notify_store \<Rightarrow> topic_claim option" where
  "getClaim topic S = jget (no_claims S) topic"

definition claim :: "string \<Rightarrow> topic_claim \<Rightarrow> notify_store \<Rightarrow> topic_claim option \<times> notify_store" where
  "claim topic entry S =
     (case jget (no_claims S) topic of
        Some _ \<Rightarrow> (None, S)
      | None \<Rightarrow> (let S' = S\<lparr>no_claims := jset topic entry (no_claims S)\<rparr> in (getClaim topic S', S')))"

definition getBoard :: "string \<Rightarrow> notify_store \<Rightarrow> board_config option" where
  "getBoard topic S = jget (no_boards S) topic"

text \<open>\<open>INSERT OR REPLACE\<close>: the old row goes, the new one is last.\<close>

definition replace_row :: "'k \<Rightarrow> 'v \<Rightarrow> ('k, 'v) jsmap \<Rightarrow> ('k, 'v) jsmap" where
  "replace_row k v m = jdel k m @ [(k, v)]"

definition createBoard :: "int \<Rightarrow> string \<Rightarrow> string option \<Rightarrow> string option \<Rightarrow> string \<Rightarrow> string \<Rightarrow> string option
    \<Rightarrow> notify_store \<Rightarrow> board_config option \<times> notify_store" where
  "createBoard now topic name compact_key priv pub owner S =
     (let S' = S\<lparr>no_boards := replace_row topic \<lparr>bc_name = str_or name topic, bc_compact_key = str_or compact_key ''key'',
                 bc_board_privkey = priv, bc_board_pubkey = pub,
                 bc_owner_uid = (if str_truthy owner then owner else None), bc_created_at = now\<rparr> (no_boards S)\<rparr>
      in (getBoard topic S', S'))"

definition setBoardName :: "string \<Rightarrow> string \<Rightarrow> notify_store \<Rightarrow> notify_store" where
  "setBoardName topic name S =
     (case jget (no_boards S) topic of
        None \<Rightarrow> S
      | Some b \<Rightarrow> S\<lparr>no_boards := jset topic (b\<lparr>bc_name := name\<rparr>) (no_boards S)\<rparr>)"

definition upsertBoardState :: "int \<Rightarrow> string \<Rightarrow> string \<Rightarrow> json \<Rightarrow> string option \<Rightarrow> int \<Rightarrow> notify_store \<Rightarrow> notify_store" where
  "upsertBoardState now topic key msg state expires S =
     S\<lparr>no_state := replace_row (topic, key) \<lparr>br_msg = msg, br_state = (if str_truthy state then state else None),
         br_expires_at = expires,
         br_down = (case jget (no_state S) (topic, key) of None \<Rightarrow> False | Some r \<Rightarrow> br_down r),
         br_updated_at = now\<rparr> (no_state S)\<rparr>"

definition getBoardState :: "string \<Rightarrow> notify_store \<Rightarrow> (string \<times> board_row) list" where
  "getBoardState topic S =
     sort_key fst (map (\<lambda>((t, k), r). (k, r)) (filter (\<lambda>((t, k), r). t = topic) (no_state S)))"

definition setBoardDown :: "string \<Rightarrow> string \<Rightarrow> bool \<Rightarrow> notify_store \<Rightarrow> notify_store" where
  "setBoardDown topic key down S =
     (case jget (no_state S) (topic, key) of
        None \<Rightarrow> S
      | Some r \<Rightarrow> S\<lparr>no_state := jset (topic, key) (r\<lparr>br_down := down\<rparr>) (no_state S)\<rparr>)"

definition row_due :: "int \<Rightarrow> board_row \<Rightarrow> bool" where
  "row_due now r \<longleftrightarrow> br_expires_at r > 0 \<and> br_expires_at r < now \<and> \<not> br_down r"

definition dueBoardKeys :: "int \<Rightarrow> notify_store \<Rightarrow> (string \<times> string) list" where
  "dueBoardKeys now S = map fst (filter (\<lambda>(k, r). row_due now r) (no_state S))"

definition addPublishToken :: "int \<Rightarrow> string \<Rightarrow> string \<Rightarrow> string \<Rightarrow> string option \<Rightarrow> notify_store \<Rightarrow> (string + string) \<times> notify_store" where
  "addPublishToken now fresh topic hash label S =
     (if (\<exists>t \<in> set (no_tokens S). pt_topic t = topic \<and> pt_token_id t = fresh)
      then (Inl ''UNIQUE constraint failed: notify_publish_tokens.topic, notify_publish_tokens.token_id'', S)
      else (Inr fresh, S\<lparr>no_tokens := no_tokens S @ [\<lparr>pt_topic = topic, pt_token_id = fresh, pt_token_hash = hash,
              pt_label = (if str_truthy label then label else None), pt_created_at = now\<rparr>]\<rparr>))"

definition listPublishTokens :: "string \<Rightarrow> notify_store \<Rightarrow> (string \<times> string option \<times> int) list" where
  "listPublishTokens topic S =
     map (\<lambda>t. (pt_token_id t, pt_label t, pt_created_at t)) (sort_key pt_created_at (filter (\<lambda>t. pt_topic t = topic) (no_tokens S)))"

definition revokePublishToken :: "string \<Rightarrow> string \<Rightarrow> notify_store \<Rightarrow> bool \<times> notify_store" where
  "revokePublishToken topic i S =
     (let kept = filter (\<lambda>t. \<not> (pt_topic t = topic \<and> pt_token_id t = i)) (no_tokens S)
      in (length kept < length (no_tokens S), S\<lparr>no_tokens := kept\<rparr>))"

definition publishTokenMatchesAny :: "(string \<Rightarrow> string) \<Rightarrow> string \<Rightarrow> string \<Rightarrow> notify_store \<Rightarrow> bool" where
  "publishTokenMatchesAny H topic token S \<longleftrightarrow>
     (\<exists>t \<in> set (no_tokens S). pt_topic t = topic \<and> publishTokenMatches H (JStr token) (Some (pt_token_hash t)))"

section \<open>Board helpers\<close>

fun find_field :: "string \<Rightarrow> jsval list \<Rightarrow> string option" where
  "find_field prefix [] = None"
| "find_field prefix (JStr s # ts) = (if starts_with prefix s then Some (drop (length prefix) s) else find_field prefix ts)"
| "find_field prefix (_ # ts) = find_field prefix ts"

definition extractField :: "jsval \<Rightarrow> string \<Rightarrow> string option" where
  "extractField tags name = (case tags of JArr ts \<Rightarrow> find_field (name @ ''='') ts | _ \<Rightarrow> None)"

definition synthMessage :: "int \<Rightarrow> string \<Rightarrow> string \<Rightarrow> string option \<Rightarrow> string \<Rightarrow> string \<Rightarrow> jsval" where
  "synthMessage now topic key label state txt =
     JObj [(''topic'', JStr topic), (''message'', JStr txt), (''priority'', jint 5), (''time'', jint (now div 1000)),
       (''tags'', JArr [JStr (''key='' @ key), JStr (''label='' @ str_or label key), JStr (''state='' @ state), JStr ''source=watchdog'']),
       (''event'', JStr ''message'')]"

text \<open>The dash of the text is outside 8 bits; it stands as a hyphen here.\<close>

definition synthDownMessage :: "int \<Rightarrow> string \<Rightarrow> string \<Rightarrow> string option \<Rightarrow> jsval" where
  "synthDownMessage now topic key label = synthMessage now topic key label ''crit'' (str_or label key @ '' is DOWN - no heartbeat'')"

definition synthRecoveredMessage :: "int \<Rightarrow> string \<Rightarrow> string \<Rightarrow> string option \<Rightarrow> jsval" where
  "synthRecoveredMessage now topic key label = synthMessage now topic key label ''ok'' (str_or label key @ '' RECOVERED'')"

section \<open>Publishing\<close>

datatype body_read = BodyTooLarge | BodyError | BodyText string "json option"

record publish_req =
  pq_topic :: "string option"
  pq_header :: "string \<Rightarrow> string option"
  pq_push :: "string option"
  pq_body :: body_read

datatype notify_effect =
    Route string jsval
  | Sinks string jsval
  | PhonePush string jsval string
  | Activity string

datatype publish_reply = Refused nat string | Published jsval

record notify_state =
  nt_store :: "notify_store option"
  nt_ring :: notify_ring

definition isUnsafePubKey :: "jsval \<Rightarrow> bool" where
  "isUnsafePubKey v \<longleftrightarrow> v \<in> {JStr ''__proto__'', JStr ''constructor'', JStr ''prototype''}"

text \<open>\<open>/^Bearer\s+(.+)$/i\<close>: the text after the blanks, or the last blank when there is nothing else.\<close>

definition bearer_token :: "string \<Rightarrow> string option" where
  "bearer_token h =
     (let rest = drop 6 h; tok = dropWhile is_space rest; blanks = takeWhile is_space rest in
      if to_lower (take 6 h) \<noteq> ''bearer'' \<or> blanks = [] then None
      else if tok \<noteq> [] then Some tok
      else if length blanks \<ge> 2 then Some [last blanks] else None)"

definition publishAuthRejected :: "(string \<Rightarrow> string) \<Rightarrow> publish_req \<Rightarrow> string \<Rightarrow> notify_store option \<Rightarrow> bool" where
  "publishAuthRejected H q topic st =
     (case st of
        None \<Rightarrow> False
      | Some S \<Rightarrow> (case getClaim topic S of
          None \<Rightarrow> False
        | Some c \<Rightarrow> (case bearer_token (str_or (pq_header q ''authorization'') []) of
            None \<Rightarrow> True
          | Some tok \<Rightarrow> \<not> publishTokenMatches H (JStr tok) (Some (cl_publish_token_hash c))
                        \<and> \<not> publishTokenMatchesAny H topic tok S)))"

definition opt_js :: "string option \<Rightarrow> jsval" where
  "opt_js v = (case v of None \<Rightarrow> JUndef | Some s \<Rightarrow> JStr s)"

definition header_fields :: "publish_req \<Rightarrow> string \<Rightarrow> jsval" where
  "header_fields q txt = (let h = pq_header q in
     JObj [(''message'', JStr txt),
       (''title'', opt_js (opt_or (opt_or (h ''title'') (h ''x-title'')) (h ''t''))),
       (''priority'', opt_js (opt_or (opt_or (h ''priority'') (h ''x-priority'')) (h ''p''))),
       (''tags'', opt_js (opt_or (opt_or (h ''tags'') (h ''x-tags'')) (h ''ta''))),
       (''click'', opt_js (opt_or (h ''click'') (h ''x-click''))),
       (''markdown'', JBool (to_lower (str_or (opt_or (h ''markdown'') (h ''x-markdown'')) []) \<in> {''1'', ''true'', ''yes''}))])"

text \<open>The topic and the fields of the publication; \<open>JSON.parse\<close> of an empty body is not attempted.\<close>

definition publish_fields :: "publish_req \<Rightarrow> string \<Rightarrow> json option \<Rightarrow> (jsval \<times> jsval) option" where
  "publish_fields q txt parsed =
     (if str_truthy (pq_topic q) then Some (opt_js (pq_topic q), header_fields q txt)
      else case parsed of
        None \<Rightarrow> None
      | Some j \<Rightarrow> (let v = json_parse j
                   in if txt \<noteq> [] \<and> (is_plain_obj v \<or> is_array v) then Some (obj_get v ''topic'', v) else None))"

definition publish_message :: "int \<Rightarrow> string \<Rightarrow> publish_req \<Rightarrow> string \<Rightarrow> jsval \<Rightarrow> jsval list option \<Rightarrow> jsval" where
  "publish_message now fresh q topic flds actions =
     buildMessage now fresh (JObj [(''topic'', JStr topic), (''message'', obj_get flds ''message''), (''title'', obj_get flds ''title''),
       (''priority'', obj_get flds ''priority''), (''tags'', obj_get flds ''tags''), (''click'', obj_get flds ''click''),
       (''markdown'', obj_get flds ''markdown''),
       (''actions'', case actions of None \<Rightarrow> JUndef | Some as \<Rightarrow> JArr as),
       (''time'', case pq_header q ''x-tyo-time'' of Some s \<Rightarrow> JStr s | None \<Rightarrow> obj_get flds ''time''),
       (''contentType'', opt_js (pq_header q ''content-type''))])"

definition board_ttl :: "jsval \<Rightarrow> int" where
  "board_ttl tags = (case parse_int (str_or (extractField tags ''ttl'') ''0'') of Fin n \<Rightarrow> \<lfloor>n\<rfloor> | _ \<Rightarrow> 0)"

definition board_expires :: "int \<Rightarrow> jsval \<Rightarrow> int" where
  "board_expires now tags = (if board_ttl tags > 0 then now + board_ttl tags * 2000 else 0)"

definition json_of :: "jsval \<Rightarrow> json" where
  "json_of v = (case json_stringify v of None \<Rightarrow> NullJ | Some j \<Rightarrow> j)"

text \<open>The compaction hook of a board: the effects and the new store, or no key.\<close>

definition board_hook :: "int \<Rightarrow> string \<Rightarrow> board_config \<Rightarrow> jsval \<Rightarrow> string \<Rightarrow> notify_store \<Rightarrow> (notify_effect list \<times> notify_store) option" where
  "board_hook now topic cfg msg mode S =
     (let tags = obj_get msg ''tags'' in
      case extractField tags (str_or (Some (bc_compact_key cfg)) ''key'') of
        None \<Rightarrow> None
      | Some key \<Rightarrow>
          if key = [] then None
          else let prev = find (\<lambda>r. fst r = key) (getBoardState topic S);
                   wasDown = (case prev of None \<Rightarrow> False | Some r \<Rightarrow> br_down (snd r));
                   S1 = upsertBoardState now topic key (json_of msg) (extractField tags ''state'') (board_expires now tags) S;
                   S2 = setBoardDown topic key False S1;
                   card = synthRecoveredMessage now topic key (extractField tags ''label'')
               in Some (if wasDown then [Route topic card, Sinks topic card] @ (if mode \<noteq> ''off'' then [PhonePush topic card ''content''] else [])
                        else [], S2))"

text \<open>
  \<open>route\<close> is the answer of the routing core to a publication: None when it accepted, else code and
  text. A refused message is still in the ring by then.
\<close>

definition publish_deliver ::
  "(string \<Rightarrow> jsval \<Rightarrow> (nat \<times> string) option) \<Rightarrow> int \<Rightarrow> publish_req \<Rightarrow> string \<Rightarrow> jsval \<Rightarrow> string
     \<Rightarrow> notify_state \<Rightarrow> publish_reply \<times> notify_effect list \<times> notify_state" where
  "publish_deliver route now q topic msg mode T =
     (let T1 = (if to_lower (str_or (pq_header q ''cache'') []) \<noteq> ''no'' then T\<lparr>nt_ring := ring_append now topic msg (nt_ring T)\<rparr> else T) in
      case route topic msg of
        Some (code, m) \<Rightarrow> (Refused code m, [Route topic msg], T1)
      | None \<Rightarrow> (Published msg, [Route topic msg, Sinks topic msg, Activity topic]
                  @ (if mode \<noteq> ''off'' then [PhonePush topic msg mode] else []), T1))"

definition publish_accepted ::
  "(string \<Rightarrow> jsval \<Rightarrow> (nat \<times> string) option) \<Rightarrow> int \<Rightarrow> string \<Rightarrow> publish_req \<Rightarrow> string \<Rightarrow> jsval \<Rightarrow> jsval list option
     \<Rightarrow> notify_state \<Rightarrow> publish_reply \<times> notify_effect list \<times> notify_state" where
  "publish_accepted route now fresh q topic flds actions T =
     (let mode = parsePush (opt_js (pq_header q ''x-tyo-push'')) (if str_truthy (pq_push q) then opt_js (pq_push q) else obj_get flds ''push'');
          msg = publish_message now fresh q topic flds actions in
      case nt_store T of
        None \<Rightarrow> publish_deliver route now q topic msg mode T
      | Some S \<Rightarrow> (case getBoard topic S of
          None \<Rightarrow> publish_deliver route now q topic msg mode T
        | Some cfg \<Rightarrow> (case board_hook now topic cfg msg mode S of
            None \<Rightarrow> (Refused 400 ''board messages require a key tag'', [], T)
          | Some (es, S') \<Rightarrow>
              (let (r, es', T') = publish_deliver route now q topic msg mode (T\<lparr>nt_store := Some S'\<rparr>) in (r, es @ es', T')))))"

definition handleNotifyPublish ::
  "(string \<Rightarrow> string) \<Rightarrow> (string \<Rightarrow> jsval \<Rightarrow> (nat \<times> string) option) \<Rightarrow> bool \<Rightarrow> int \<Rightarrow> string \<Rightarrow> publish_req
     \<Rightarrow> notify_state \<Rightarrow> publish_reply \<times> notify_effect list \<times> notify_state" where
  "handleNotifyPublish H route rateOk now fresh q T =
     (if \<not> rateOk then (Refused 429 ''rate limit reached'', [], T)
      else if str_truthy (pq_topic q) \<and> publishAuthRejected H q (str_or (pq_topic q) []) (nt_store T)
      then (Refused 401 ''publish token required for this topic'', [], T)
      else case pq_body q of
        BodyTooLarge \<Rightarrow> (Refused 413 ''payload too large'', [], T)
      | BodyError \<Rightarrow> (Refused 400 ''error reading request body'', [], T)
      | BodyText txt parsed \<Rightarrow>
          (case publish_fields q txt parsed of
             None \<Rightarrow> (Refused 400 ''JSON body with a topic is required'', [], T)
           | Some (topicv, flds) \<Rightarrow>
               if \<not> isValidTopic topicv \<or> isUnsafePubKey topicv then (Refused 400 ''invalid or missing topic'', [], T)
               else let topic = to_string topicv in
                 if \<not> str_truthy (pq_topic q) \<and> publishAuthRejected H q topic (nt_store T)
                 then (Refused 401 ''publish token required for this topic'', [], T)
                 else if obj_get flds ''actions'' = JUndef
                 then publish_accepted route now fresh q topic flds None T
                 else (case validateActions (obj_get flds ''actions'') of
                     Inl e \<Rightarrow> (Refused 400 ''invalid actions'', [], T)
                   | Inr as \<Rightarrow> publish_accepted route now fresh q topic flds (Some as) T)))"

section \<open>The watchdog\<close>

definition watchdog_down :: "int \<Rightarrow> string \<times> string \<Rightarrow> notify_store \<Rightarrow> notify_effect list \<times> notify_store" where
  "watchdog_down now d S =
     (let card = synthDownMessage now (fst d) (snd d) (Some (snd d));
          S1 = upsertBoardState now (fst d) (snd d) (json_of card) (Some ''crit'') 0 S
      in ([Route (fst d) card, Sinks (fst d) card, PhonePush (fst d) card ''content'', Activity (fst d)],
          setBoardDown (fst d) (snd d) True S1))"

fun watchdog_all :: "int \<Rightarrow> (string \<times> string) list \<Rightarrow> notify_store \<Rightarrow> notify_effect list \<times> notify_store" where
  "watchdog_all now [] S = ([], S)"
| "watchdog_all now (d # ds) S =
     (let (es, S1) = watchdog_down now d S; (es', S2) = watchdog_all now ds S1 in (es @ es', S2))"

definition watchdog_sweep :: "int \<Rightarrow> notify_store \<Rightarrow> notify_effect list \<times> notify_store" where
  "watchdog_sweep now S = watchdog_all now (dueBoardKeys now S) S"

section \<open>Claims and publish tokens\<close>

fun claim_run :: "(string \<times> topic_claim) list \<Rightarrow> notify_store \<Rightarrow> bool list \<times> notify_store" where
  "claim_run [] S = ([], S)"
| "claim_run ((topic, e) # cs) S =
     (let (r, S1) = claim topic e S; (rs, S2) = claim_run cs S1 in ((r \<noteq> None) # rs, S2))"

text \<open>
  First claim wins: over any sequence of claim attempts on any topics, exactly the first attempt on
  a topic nobody owned succeeds, and from then on the topic keeps that owner.
\<close>

theorem claim_first_wins:
  "getClaim topic (snd (claim_run cs S)) = (case getClaim topic S of Some c \<Rightarrow> Some c | None \<Rightarrow> jget cs topic)
    \<and> length (filter (\<lambda>((t, _), ok). t = topic \<and> ok) (zip cs (fst (claim_run cs S))))
        = (if getClaim topic S = None \<and> jget cs topic \<noteq> None then 1 else 0)"
proof (induction cs arbitrary: S)
  case (Cons c cs)
  obtain t e where c: "c = (t, e)" by (cases c)
  obtain r S1 where r: "claim t e S = (r, S1)" by (cases "claim t e S")
  have r': "r = (if getClaim t S = None then Some e else None)"
    "getClaim topic S1 = (if topic = t \<and> getClaim t S = None then Some e else getClaim topic S)"
    using r by (auto simp: claim_def getClaim_def Let_def split: option.splits)
  obtain rs S2 where rs: "claim_run cs S1 = (rs, S2)" by (cases "claim_run cs S1")
  from Cons [of S1] rs r r' c show ?case by (auto split: option.splits)
qed (simp split: option.split)

lemma publish_accepted_gate:
  "publishAuthRejected H q topic (nt_store T) \<Longrightarrow> pq_topic q = Some topic \<or> publish_fields q txt parsed = Some (JStr topic, flds) \<Longrightarrow>
   pq_body q = BodyText txt parsed \<or> pq_topic q = Some topic \<Longrightarrow> topic \<noteq> [] \<Longrightarrow>
   \<exists>code m. handleNotifyPublish H route rateOk now fresh q T = (Refused code m, [], T)"
  by (cases "str_truthy (pq_topic q)")
    (auto simp: handleNotifyPublish_def publish_fields_def opt_js_def str_or_def split: option.splits)

text \<open>
  Private topics: a publication to a claimed topic, by path or by JSON body, whose bearer token
  matches neither the topic's publish token nor any token of its set is refused, with nothing
  delivered and nothing stored; a revoked token is no longer one of the set.
\<close>

theorem publish_needs_token:
  assumes "nt_store T = Some S" "getClaim topic S = Some c" "topic \<noteq> []"
    and "pq_topic q = Some topic \<or> (pq_body q = BodyText txt parsed \<and> publish_fields q txt parsed = Some (JStr topic, flds))"
    and "\<forall>tok. bearer_token (str_or (pq_header q ''authorization'') []) = Some tok \<longrightarrow>
           hex_bytes (H tok) \<noteq> hex_bytes (cl_publish_token_hash c)
           \<and> (\<forall>t \<in> set (no_tokens S). pt_topic t = topic \<longrightarrow> hex_bytes (H tok) \<noteq> hex_bytes (pt_token_hash t))"
  shows "(\<exists>code m. handleNotifyPublish H route rateOk now fresh q T = (Refused code m, [], T))
    \<and> (\<forall>i. \<forall>t \<in> set (no_tokens (snd (revokePublishToken topic i S))). t \<in> set (no_tokens S) \<and> (pt_topic t, pt_token_id t) \<noteq> (topic, i))"
proof -
  have "publishAuthRejected H q topic (nt_store T)"
    using assms(1,2,5) by (auto simp: publishAuthRejected_def publishTokenMatches_def hashPublishToken_def
        publishTokenMatchesAny_def str_or_def split: option.split)
  from publish_accepted_gate [OF this] assms(3,4)
  have "\<exists>code m. handleNotifyPublish H route rateOk now fresh q T = (Refused code m, [], T)" by blast
  then show ?thesis by (auto simp: revokePublishToken_def Let_def)
qed

definition sample_claimed :: notify_store where
  "sample_claimed = snd (claim ''ops'' \<lparr>cl_pubkey = ''pk'', cl_pubkey_fingerprint = ''fp'', cl_publish_token_hash = ''aa'', cl_created_at = 0\<rparr> notify_store_new)"

definition sample_publish :: publish_req where
  "sample_publish = \<lparr>pq_topic = Some ''ops'', pq_header = (\<lambda>_. None), pq_push = None, pq_body = BodyText ''hi'' None\<rparr>"

theorem publish_needs_token_witness:
  "\<exists>code m. handleNotifyPublish (\<lambda>s. s) (\<lambda>_ _. None) True 5 ''x'' sample_publish
     \<lparr>nt_store = Some sample_claimed, nt_ring = ring_new 0 0 0\<rparr> = (Refused code m, [], \<lparr>nt_store = Some sample_claimed, nt_ring = ring_new 0 0 0\<rparr>)"
  using publish_needs_token [of "\<lparr>nt_store = Some sample_claimed, nt_ring = ring_new 0 0 0\<rparr>" sample_claimed "''ops''"
      "\<lparr>cl_pubkey = ''pk'', cl_pubkey_fingerprint = ''fp'', cl_publish_token_hash = ''aa'', cl_created_at = 0\<rparr>" sample_publish
      "''hi''" None JUndef "\<lambda>s. s" "\<lambda>_ _. None" True 5 "''x''"]
  by (simp add: sample_claimed_def claim_def notify_store_new_def getClaim_def Let_def sample_publish_def bearer_token_def to_lower_def)

section \<open>Alerts of a board\<close>

definition row_down :: "string \<times> string \<Rightarrow> notify_store \<Rightarrow> bool" where
  "row_down k S \<longleftrightarrow> (case jget (no_state S) k of None \<Rightarrow> False | Some r \<Rightarrow> br_down r)"

text \<open>The alerts of one board key among the cards routed: True for DOWN, False for RECOVERED.\<close>

fun card_alert :: "string \<times> string \<Rightarrow> notify_effect \<Rightarrow> bool list" where
  "card_alert k (Route t c) =
     (if t = fst k \<and> extractField (obj_get c ''tags'') ''key'' = Some (snd k)
      then [extractField (obj_get c ''tags'') ''state'' = Some ''crit''] else [])"
| "card_alert k _ = []"

definition alerts :: "string \<times> string \<Rightarrow> notify_effect list \<Rightarrow> bool list" where
  "alerts k es = concat (map (card_alert k) es)"

fun alternates :: "bool \<Rightarrow> bool list \<Rightarrow> bool" where
  "alternates d [] = True"
| "alternates d (x # xs) = (x \<noteq> d \<and> alternates x xs)"

lemma alerts_append: "alerts k (es @ es') = alerts k es @ alerts k es'"
  by (simp add: alerts_def)

lemma alternates_append: "alternates d (xs @ ys) \<longleftrightarrow> alternates d xs \<and> alternates (last (d # xs)) ys"
  by (induction xs arbitrary: d) auto

lemma synth_fields:
  "extractField (obj_get (synthMessage now t key l state txt) ''tags'') ''key'' = Some key"
  "extractField (obj_get (synthMessage now t key l state txt) ''tags'') ''state'' = Some state"
  by (simp_all add: synthMessage_def extractField_def)

lemma replace_row_get [simp]: "jget (replace_row k v m) k' = (if k' = k then Some v else jget m k')"
  by (simp add: replace_row_def map_add_def split: option.split)

lemma replace_row_wf: "wf_map m \<Longrightarrow> wf_map (replace_row k v m)"
  by (auto simp: replace_row_def wf_map_def distinct_delete jdel_keys)

lemma upsert_down: "row_down k (upsertBoardState now t key msg st ex S) = row_down k S"
  by (simp add: upsertBoardState_def row_down_def split: option.split)

lemma setDown_down:
  "row_down k (setBoardDown t key d (upsertBoardState now t key msg st ex S)) = (if k = (t, key) then d else row_down k S)"
  by (simp add: upsertBoardState_def setBoardDown_def row_down_def split: option.split)

lemma setDown_wf: "wf_map (no_state S) \<Longrightarrow> wf_map (no_state (setBoardDown t key d (upsertBoardState now t key msg st ex S)))"
  by (simp add: upsertBoardState_def setBoardDown_def replace_row_wf)

lemma find_board:
  assumes "wf_map (no_state S)"
  shows "find (\<lambda>r. fst r = key) (getBoardState topic S) = map_option (\<lambda>r. (key, r)) (jget (no_state S) (topic, key))"
proof -
  have mem: "(key, r) \<in> set (getBoardState topic S) \<longleftrightarrow> jget (no_state S) (topic, key) = Some r" for r
    using wf_map_in [OF assms] by (force simp: getBoardState_def)
  show ?thesis
  proof (cases "find (\<lambda>r. fst r = key) (getBoardState topic S)")
    case None
    then have "\<forall>r. (key, r) \<notin> set (getBoardState topic S)" by (auto simp: find_None_iff)
    with None mem show ?thesis by (cases "jget (no_state S) (topic, key)") auto
  next
    case (Some p)
    then have "p \<in> set (getBoardState topic S)" "fst p = key" by (auto simp: find_Some_iff)
    with Some mem [of "snd p"] show ?thesis by (cases p) auto
  qed
qed

lemma board_hook_alerts:
  assumes "board_hook now topic cfg msg mode S = Some (es, S')" "wf_map (no_state S)"
  shows "wf_map (no_state S') \<and> alternates (row_down k S) (alerts k es) \<and> row_down k S' = last (row_down k S # alerts k es)"
proof -
  from assms(1) obtain key where key: "S' = setBoardDown topic key False (upsertBoardState now topic key (json_of msg)
        (extractField (obj_get msg ''tags'') ''state'') (board_expires now (obj_get msg ''tags'')) S)"
    "es = (if row_down (topic, key) S then let card = synthRecoveredMessage now topic key (extractField (obj_get msg ''tags'') ''label'')
        in [Route topic card, Sinks topic card] @ (if mode \<noteq> ''off'' then [PhonePush topic card ''content''] else []) else [])"
    by (auto simp: board_hook_def Let_def find_board [OF assms(2)] row_down_def split: option.splits if_splits)
  have "alerts k es = (if k = (topic, key) \<and> row_down (topic, key) S then [False] else [])"
    by (cases k) (auto simp: key(2) alerts_def Let_def synthRecoveredMessage_def synth_fields)
  then show ?thesis using key(1) setDown_wf [OF assms(2)] by (auto simp: setDown_down)
qed

lemma watchdog_all_alerts:
  "distinct ds \<Longrightarrow> \<forall>d \<in> set ds. \<not> row_down d S \<Longrightarrow> wf_map (no_state S) \<Longrightarrow> watchdog_all now ds S = (es, S') \<Longrightarrow>
   wf_map (no_state S') \<and> alerts k es = (if k \<in> set ds then [True] else []) \<and> row_down k S' = (k \<in> set ds \<or> row_down k S)"
proof (induction ds arbitrary: S es S')
  case (Cons d ds)
  obtain es1 S1 where d: "watchdog_down now d S = (es1, S1)" by (cases "watchdog_down now d S")
  obtain es2 S2 where ds: "watchdog_all now ds S1 = (es2, S2)" by (cases "watchdog_all now ds S1")
  have S1: "wf_map (no_state S1)" "row_down k' S1 = (k' = d \<or> row_down k' S)" for k'
    using d Cons.prems(3) by (auto simp: watchdog_down_def Let_def setDown_down setDown_wf split: if_splits)
  have "alerts k es1 = (if k = d then [True] else [])"
    using d by (cases k; cases d) (auto simp: watchdog_down_def Let_def alerts_def synthDownMessage_def synth_fields)
  moreover have nd: "\<forall>d' \<in> set ds. \<not> row_down d' S1" using Cons.prems(1,2) S1(2) by auto
  moreover have "distinct ds" using Cons.prems(1) by simp
  from Cons.IH [OF this nd S1(1) ds] have "wf_map (no_state S2) \<and> alerts k es2 = (if k \<in> set ds then [True] else [])
      \<and> row_down k S2 = (k \<in> set ds \<or> row_down k S1)" .
  ultimately show ?case using Cons.prems(1,4) d ds S1(2) by (auto simp: alerts_append)
qed (simp add: alerts_def)

lemma due_keys:
  assumes "wf_map (no_state S)"
  shows "distinct (dueBoardKeys now S) \<and> (\<forall>d \<in> set (dueBoardKeys now S). \<not> row_down d S)"
proof -
  have "distinct (dueBoardKeys now S)" using assms by (simp add: dueBoardKeys_def wf_map_def distinct_map_filter)
  moreover have "\<not> row_down d S" if d: "d \<in> set (dueBoardKeys now S)" for d
  proof -
    from d obtain r where "(d, r) \<in> set (no_state S)" "row_due now r" by (auto simp: dueBoardKeys_def)
    then show ?thesis using wf_map_in [OF assms, of d r] by (simp add: row_down_def row_due_def)
  qed
  ultimately show ?thesis by blast
qed

lemma watchdog_alerts:
  assumes "watchdog_sweep now S = (es, S')" "wf_map (no_state S)"
  shows "wf_map (no_state S') \<and> alternates (row_down k S) (alerts k es) \<and> row_down k S' = last (row_down k S # alerts k es)"
  using watchdog_all_alerts [OF _ _ assms(2), of "dueBoardKeys now S" now es S' k] due_keys [OF assms(2), of now] assms(1)
  by (auto simp: watchdog_sweep_def)

text \<open>The life of a board: heartbeats that pass the compaction hook, and sweeps of the watchdog.\<close>

inductive board_run :: "notify_store \<Rightarrow> notify_effect list \<Rightarrow> notify_store \<Rightarrow> bool" for S0 where
  board_start: "board_run S0 [] S0"
| board_beat: "board_run S0 es S \<Longrightarrow> board_hook now topic cfg msg mode S = Some (es', S') \<Longrightarrow> board_run S0 (es @ es') S'"
| board_sweep: "board_run S0 es S \<Longrightarrow> watchdog_sweep now S = (es', S') \<Longrightarrow> board_run S0 (es @ es') S'"

text \<open>
  Alerts alternate: over any heartbeats and watchdog sweeps, on any boards and at any times, the
  cards routed for one key of a board are DOWN, RECOVERED, DOWN, \<open>\<dots>\<close> in turn: no outage is announced
  twice, no recovery without an outage, and the stored state is that of the last card.
\<close>

theorem board_alerts_alternate:
  assumes "board_run S0 es S" "no_state S0 = []"
  shows "alternates False (alerts k es) \<and> row_down k S = last (False # alerts k es)"
proof -
  have "wf_map (no_state S) \<and> alternates False (alerts k es) \<and> row_down k S = last (False # alerts k es)"
    using assms
  proof induction
    case board_start
    then show ?case by (simp add: alerts_def row_down_def)
  next
    case (board_beat es S now topic cfg msg mode es' S')
    with board_hook_alerts [OF board_beat(2), of k] show ?case by (auto simp: alerts_append alternates_append)
  next
    case (board_sweep es S now es' S')
    with watchdog_alerts [OF board_sweep(2), of k] show ?case by (auto simp: alerts_append alternates_append)
  qed
  then show ?thesis by blast
qed

definition sample_cfg :: board_config where
  "sample_cfg = \<lparr>bc_name = ''b'', bc_compact_key = ''key'', bc_board_privkey = ''sk'', bc_board_pubkey = ''pk'', bc_owner_uid = None, bc_created_at = 0\<rparr>"

definition sample_beat :: jsval where
  "sample_beat = JObj [(''tags'', JArr [JStr ''key=db'', JStr ''ttl=1''])]"

theorem board_alerts_alternate_witness:
  "\<exists>es S. board_run notify_store_new es S \<and> alerts (''b'', ''db'') es = [True] \<and> alternates False (alerts (''b'', ''db'') es)
     \<and> row_down (''b'', ''db'') S"
proof -
  obtain S1 where b: "board_hook 1000 ''b'' sample_cfg sample_beat ''wake'' notify_store_new = Some ([], S1)"
    "no_state S1 = [((''b'', ''db''), \<lparr>br_msg = json_of sample_beat, br_state = None, br_expires_at = 3000, br_down = False, br_updated_at = 1000\<rparr>)]"
    by (simp add: board_hook_def sample_cfg_def sample_beat_def extractField_def getBoardState_def notify_store_new_def
        upsertBoardState_def setBoardDown_def replace_row_def board_expires_def board_ttl_def parse_int_def is_space_def is_digit_def
        read_dec_def digit_val_def Let_def)
  obtain es S where s: "watchdog_sweep 9000 S1 = (es, S)" by (cases "watchdog_sweep 9000 S1")
  have al: "alerts (''b'', ''db'') es = [True]"
    using s by (auto simp: watchdog_sweep_def dueBoardKeys_def b(2) row_due_def watchdog_down_def Let_def alerts_def
        synthDownMessage_def synth_fields)
  have r: "board_run notify_store_new (([] @ []) @ es) S" by (rule board_sweep [OF board_beat [OF board_start b(1)] s])
  have "no_state notify_store_new = []" by (simp add: notify_store_new_def)
  from board_alerts_alternate [OF r this, of "(''b'', ''db'')"] al
  have "alternates False (alerts (''b'', ''db'') (([] @ []) @ es)) \<and> row_down (''b'', ''db'') S" by simp
  with r al show ?thesis by (intro exI [of _ es] exI [of _ S]) simp
qed

end
