(* ===== verification/Realm_Keys.thy ===== *)
theory Realm_Keys
  imports Notify
begin

text \<open>
  Realm pre-shared keys held as hashes, and rotation with overlap: \<open>lib/realm-keys.js\<close> and the parts
  of \<open>lib/server.js\<close> that check and rotate the two realm secrets. \<open>H\<close> is SHA-256 in hex. An ISO
  timestamp is modelled by the instant it denotes. Absent properties of a configuration are
  undefined.
\<close>

section \<open>Hashes and dates\<close>

definition HASH_PREFIX :: string where "HASH_PREFIX = ''sha256:''"

definition HASH_DOMAIN :: string where "HASH_DOMAIN = ''tyo-mq realm key v1'' @ [CHR 0x00]"

definition MAX_GRACE_MS :: int where "MAX_GRACE_MS = 30 * 24 * 60 * 60 * 1000"

definition hashRealmKey :: "(string \<Rightarrow> string) \<Rightarrow> jsval \<Rightarrow> string" where
  "hashRealmKey H key = HASH_PREFIX @ H (HASH_DOMAIN @ to_string key)"

definition isRealmKeyHash :: "jsval \<Rightarrow> bool" where
  "isRealmKeyHash v = (case v of JStr s \<Rightarrow> starts_with HASH_PREFIX s \<and> length s = length HASH_PREFIX + 64 | _ \<Rightarrow> False)"

definition realmKeyMatches :: "(string \<Rightarrow> string) \<Rightarrow> jsval \<Rightarrow> jsval \<Rightarrow> bool" where
  "realmKeyMatches H presented stored \<longleftrightarrow>
     is_str presented \<and> truthy presented \<and> isRealmKeyHash stored \<and> JStr (hashRealmKey H presented) = stored"

datatype until_date = IsoAt int | BadDate

definition stillValid :: "until_date option \<Rightarrow> int \<Rightarrow> bool" where
  "stillValid u now = (case u of Some (IsoAt t) \<Rightarrow> t > now | _ \<Rightarrow> False)"

definition clampGraceMs :: "rat option \<Rightarrow> rat option" where
  "clampGraceMs ms = (case ms of None \<Rightarrow> None | Some m \<Rightarrow> if m \<le> 0 then None else Some (min m (of_int MAX_GRACE_MS)))"

section \<open>Realm configurations\<close>

record realm_config =
  rc_key :: jsval
  rc_preshared_key :: jsval
  rc_presharedKey :: jsval
  rc_key_hash :: jsval
  rc_previous_key_hash :: jsval
  rc_previous_key_until :: "until_date option"
  rc_manager_key :: jsval
  rc_managerKey :: jsval
  rc_previous_manager_key :: jsval
  rc_previous_manager_until :: "until_date option"
  rc_require_key :: jsval

definition realm_config_empty :: realm_config where
  "realm_config_empty = \<lparr>rc_key = JUndef, rc_preshared_key = JUndef, rc_presharedKey = JUndef, rc_key_hash = JUndef,
     rc_previous_key_hash = JUndef, rc_previous_key_until = None, rc_manager_key = JUndef, rc_managerKey = JUndef,
     rc_previous_manager_key = JUndef, rc_previous_manager_until = None, rc_require_key = JUndef\<rparr>"

definition raw_key :: "realm_config \<Rightarrow> jsval" where
  "raw_key rc = js_or (js_or (rc_key rc) (rc_preshared_key rc)) (rc_presharedKey rc)"

definition normalize_key :: "(string \<Rightarrow> string) \<Rightarrow> realm_config \<Rightarrow> bool \<times> realm_config" where
  "normalize_key H rc =
     (let raw = raw_key rc in
      if is_str raw \<and> truthy raw
      then (True, rc\<lparr>rc_key_hash := (if isRealmKeyHash raw then raw else JStr (hashRealmKey H raw)),
                     rc_key := JUndef, rc_preshared_key := JUndef, rc_presharedKey := JUndef\<rparr>)
      else (False, rc))"

definition drop_previous_key :: "int \<Rightarrow> realm_config \<Rightarrow> bool \<times> realm_config" where
  "drop_previous_key now rc =
     (if rc_previous_key_hash rc \<noteq> JUndef \<and> \<not> (truthy (rc_previous_key_hash rc) \<and> stillValid (rc_previous_key_until rc) now)
      then (True, rc\<lparr>rc_previous_key_hash := JUndef, rc_previous_key_until := None\<rparr>) else (False, rc))"

definition drop_previous_manager :: "int \<Rightarrow> realm_config \<Rightarrow> bool \<times> realm_config" where
  "drop_previous_manager now rc =
     (if rc_previous_manager_key rc \<noteq> JUndef \<and> \<not> (truthy (rc_previous_manager_key rc) \<and> stillValid (rc_previous_manager_until rc) now)
      then (True, rc\<lparr>rc_previous_manager_key := JUndef, rc_previous_manager_until := None\<rparr>) else (False, rc))"

definition normalizeRealmConfig :: "(string \<Rightarrow> string) \<Rightarrow> int \<Rightarrow> realm_config \<Rightarrow> bool \<times> realm_config" where
  "normalizeRealmConfig H now rc =
     (let (c1, rc1) = normalize_key H rc; (c2, rc2) = drop_previous_key now rc1; (c3, rc3) = drop_previous_manager now rc2
      in (c1 \<or> c2 \<or> c3, rc3))"

definition normalizeRealms :: "(string \<Rightarrow> string) \<Rightarrow> int \<Rightarrow> (string, realm_config) jsmap \<Rightarrow> bool \<times> (string, realm_config) jsmap" where
  "normalizeRealms H now rs =
     (list_ex (\<lambda>(n, rc). fst (normalizeRealmConfig H now rc)) rs, map (\<lambda>(n, rc). (n, snd (normalizeRealmConfig H now rc))) rs)"

section \<open>Checking secrets\<close>

definition getRealmManagerSecrets :: "(string \<Rightarrow> string) \<Rightarrow> int \<Rightarrow> realm_config option \<Rightarrow> (jsval \<times> bool) list \<times> realm_config option" where
  "getRealmManagerSecrets H now c =
     (case c of
        None \<Rightarrow> ([], None)
      | Some rc0 \<Rightarrow>
          (let rc = snd (normalizeRealmConfig H now rc0); current = js_or (rc_manager_key rc) (rc_managerKey rc) in
           ((if truthy current then [(current, False)] else [])
            @ (if truthy (rc_previous_manager_key rc) \<and> stillValid (rc_previous_manager_until rc) now
               then [(rc_previous_manager_key rc, True)] else []), Some rc)))"

definition getRealmPresharedKeyHash :: "(string \<Rightarrow> string) \<Rightarrow> int \<Rightarrow> realm_config option \<Rightarrow> jsval \<times> realm_config option" where
  "getRealmPresharedKeyHash H now c =
     (case c of
        None \<Rightarrow> (JNull, None)
      | Some rc0 \<Rightarrow> (let rc = snd (normalizeRealmConfig H now rc0) in (js_or (rc_key_hash rc) JNull, Some rc)))"

definition realmKeyAccepted :: "(string \<Rightarrow> string) \<Rightarrow> int \<Rightarrow> jsval \<Rightarrow> realm_config option \<Rightarrow> bool \<times> realm_config option" where
  "realmKeyAccepted H now presented c =
     (case c of
        None \<Rightarrow> (False, None)
      | Some rc0 \<Rightarrow>
          (let rc = snd (normalizeRealmConfig H now rc0) in
           (realmKeyMatches H presented (rc_key_hash rc)
            \<or> (truthy (rc_previous_key_hash rc) \<and> stillValid (rc_previous_key_until rc) now
               \<and> realmKeyMatches H presented (rc_previous_key_hash rc)), Some rc)))"

section \<open>Durations\<close>

text \<open>The regular expression: digits, an optional fraction, an optional unit, nothing else.\<close>

definition ttl_unit :: "string \<Rightarrow> rat option" where
  "ttl_unit u = map_of [([], 1000), (''s'', 1000), (''ms'', 1), (''m'', 60000), (''h'', 3600000), (''d'', 86400000)] (to_lower u)"

definition ttl_amount :: "string \<Rightarrow> rat" where
  "ttl_amount s = fin_val (read_unsigned s)"

definition parse_ttl_text :: "string \<Rightarrow> rat option" where
  "parse_ttl_text s =
     (let ip = takeWhile is_digit s; r = dropWhile is_digit s;
          has_frac = (r \<noteq> [] \<and> hd r = CHR ''.'' \<and> takeWhile is_digit (tl r) \<noteq> []);
          fp = (if has_frac then takeWhile is_digit (tl r) else []);
          u = (if has_frac then dropWhile is_digit (tl r) else r);
          amount = ttl_amount (ip @ (if has_frac then ''.'' @ fp else []))
      in if ip = [] then None
         else case ttl_unit u of None \<Rightarrow> None | Some f \<Rightarrow> if amount = 0 then None else Some (amount * f))"

definition parseRealmTtlMs :: "jsval \<Rightarrow> rat option" where
  "parseRealmTtlMs v =
     (if blank v then None
      else case v of
        JNum n \<Rightarrow> (case n of Fin r \<Rightarrow> if r > 0 then Some (r * 1000) else None | _ \<Rightarrow> None)
      | _ \<Rightarrow> parse_ttl_text (trim (to_string v)))"

section \<open>Rotation\<close>

definition iso_after :: "int \<Rightarrow> rat \<Rightarrow> until_date" where
  "iso_after now ms = IsoAt (now + \<lfloor>ms\<rfloor>)"

definition set_realm_key :: "(string \<Rightarrow> string) \<Rightarrow> int \<Rightarrow> jsval \<Rightarrow> realm_config \<Rightarrow> (nat \<times> string) option \<times> realm_config" where
  "set_realm_key H now body rc0 =
     (let rc = snd (normalizeRealmConfig H now rc0);
          newKey = js_or (js_or (obj_get body ''key'') (obj_get body ''preshared_key'')) (obj_get body ''presharedKey'');
          grace = parseRealmTtlMs (obj_get body ''grace'');
          done = (\<lambda>rc'. (None, if nullish (obj_get body ''require_key'') then rc'
                              else rc'\<lparr>rc_require_key := JBool (truthy (obj_get body ''require_key''))\<rparr>))
      in if truthy newKey
         then if \<not> blank (obj_get body ''grace'') \<and> grace = None
              then (Some (400, ''invalid grace (e.g. \"24h\")''), rc)
              else let h = JStr (hashRealmKey H newKey) in
                done ((case clampGraceMs grace of
                    Some g \<Rightarrow> if truthy (rc_key_hash rc) \<and> rc_key_hash rc \<noteq> h
                              then rc\<lparr>rc_previous_key_hash := rc_key_hash rc, rc_previous_key_until := Some (iso_after now g)\<rparr>
                              else rc\<lparr>rc_previous_key_hash := JUndef, rc_previous_key_until := None\<rparr>
                  | None \<Rightarrow> rc\<lparr>rc_previous_key_hash := JUndef, rc_previous_key_until := None\<rparr>)\<lparr>rc_key_hash := h\<rparr>)
         else done (rc\<lparr>rc_key_hash := JUndef, rc_previous_key_hash := JUndef, rc_previous_key_until := None\<rparr>))"

definition set_realm_manager_key :: "(string \<Rightarrow> string) \<Rightarrow> int \<Rightarrow> jsval \<Rightarrow> realm_config \<Rightarrow> (nat \<times> string) option \<times> realm_config" where
  "set_realm_manager_key H now body rc0 =
     (let rc = snd (normalizeRealmConfig H now rc0);
          newKey = js_or (obj_get body ''manager_key'') (obj_get body ''managerKey'');
          grace = parseRealmTtlMs (obj_get body ''grace'')
      in if truthy newKey
         then if \<not> blank (obj_get body ''grace'') \<and> grace = None
              then (Some (400, ''invalid grace (e.g. \"24h\")''), rc)
              else (None, (case clampGraceMs grace of
                    Some g \<Rightarrow> if truthy (rc_manager_key rc) \<and> rc_manager_key rc \<noteq> newKey
                              then rc\<lparr>rc_previous_manager_key := rc_manager_key rc, rc_previous_manager_until := Some (iso_after now g)\<rparr>
                              else rc\<lparr>rc_previous_manager_key := JUndef, rc_previous_manager_until := None\<rparr>
                  | None \<Rightarrow> rc\<lparr>rc_previous_manager_key := JUndef, rc_previous_manager_until := None\<rparr>)\<lparr>rc_manager_key := newKey\<rparr>)
         else (None, rc\<lparr>rc_manager_key := JUndef, rc_previous_manager_key := JUndef, rc_previous_manager_until := None\<rparr>))"

section \<open>Keys at rest\<close>

lemma normalize_snd:
  "snd (normalizeRealmConfig H now rc) =
     snd (drop_previous_manager now (snd (drop_previous_key now (snd (normalize_key H rc)))))"
  by (simp add: normalizeRealmConfig_def split_beta)

lemma raw_key_simps [simp]:
  "raw_key (snd (drop_previous_key now rc)) = raw_key rc" "raw_key (snd (drop_previous_manager now rc)) = raw_key rc"
  "raw_key (snd (normalize_key H rc)) = (if is_str (raw_key rc) \<and> truthy (raw_key rc) then JUndef else raw_key rc)"
  by (simp_all add: drop_previous_key_def drop_previous_manager_def normalize_key_def raw_key_def Let_def js_or_def)

lemma normalize_steps [simp]:
  "rc_key_hash (snd (drop_previous_key now rc)) = rc_key_hash rc"
  "rc_key_hash (snd (drop_previous_manager now rc)) = rc_key_hash rc"
  "rc_previous_key_hash (snd (normalize_key H rc)) = rc_previous_key_hash rc"
  "rc_previous_key_until (snd (normalize_key H rc)) = rc_previous_key_until rc"
  "rc_previous_key_hash (snd (drop_previous_manager now rc)) = rc_previous_key_hash rc"
  "rc_previous_key_until (snd (drop_previous_manager now rc)) = rc_previous_key_until rc"
  "rc_previous_manager_key (snd (normalize_key H rc)) = rc_previous_manager_key rc"
  "rc_previous_manager_until (snd (normalize_key H rc)) = rc_previous_manager_until rc"
  "rc_previous_manager_key (snd (drop_previous_key now rc)) = rc_previous_manager_key rc"
  "rc_previous_manager_until (snd (drop_previous_key now rc)) = rc_previous_manager_until rc"
  by (simp_all add: drop_previous_key_def drop_previous_manager_def normalize_key_def Let_def)

lemma normalize_flag:
  "fst (normalizeRealmConfig H now rc) \<longleftrightarrow>
     is_str (raw_key rc) \<and> truthy (raw_key rc)
     \<or> rc_previous_key_hash rc \<noteq> JUndef \<and> \<not> (truthy (rc_previous_key_hash rc) \<and> stillValid (rc_previous_key_until rc) now)
     \<or> rc_previous_manager_key rc \<noteq> JUndef \<and> \<not> (truthy (rc_previous_manager_key rc) \<and> stillValid (rc_previous_manager_until rc) now)"
  by (simp add: normalizeRealmConfig_def normalize_key_def drop_previous_key_def drop_previous_manager_def Let_def)

lemma normalize_settled: "\<not> fst (normalizeRealmConfig H now rc) \<Longrightarrow> normalizeRealmConfig H' now rc = (False, rc)"
  by (auto simp: normalizeRealmConfig_def normalize_key_def drop_previous_key_def drop_previous_manager_def Let_def split: if_splits)

lemma normalize_key_hash:
  "rc_key_hash (snd (normalizeRealmConfig H now rc)) =
     (if is_str (raw_key rc) \<and> truthy (raw_key rc)
      then if isRealmKeyHash (raw_key rc) then raw_key rc else JStr (hashRealmKey H (raw_key rc)) else rc_key_hash rc)"
  unfolding normalize_snd normalize_steps by (auto simp: normalize_key_def Let_def)

lemma normalize_previous:
  "rc_previous_key_hash (snd (normalizeRealmConfig H now rc)) =
     (if truthy (rc_previous_key_hash rc) \<and> stillValid (rc_previous_key_until rc) now then rc_previous_key_hash rc else JUndef)"
  "truthy (rc_previous_key_hash rc) \<Longrightarrow> stillValid (rc_previous_key_until rc) now \<Longrightarrow>
     rc_previous_key_until (snd (normalizeRealmConfig H now rc)) = rc_previous_key_until rc"
  "rc_previous_manager_key (snd (normalizeRealmConfig H now rc)) =
     (if truthy (rc_previous_manager_key rc) \<and> stillValid (rc_previous_manager_until rc) now then rc_previous_manager_key rc else JUndef)"
  "truthy (rc_previous_manager_key rc) \<Longrightarrow> stillValid (rc_previous_manager_until rc) now \<Longrightarrow>
     rc_previous_manager_until (snd (normalizeRealmConfig H now rc)) = rc_previous_manager_until rc"
  unfolding normalize_snd normalize_steps by (auto simp: drop_previous_key_def drop_previous_manager_def)

lemma normalize_raw:
  "raw_key (snd (normalizeRealmConfig H now rc)) = (if is_str (raw_key rc) \<and> truthy (raw_key rc) then JUndef else raw_key rc)"
  by (simp add: normalize_snd)

lemmas normalize_fields = normalize_key_hash normalize_previous normalize_raw

lemma normalize_done: "\<not> fst (normalizeRealmConfig H now (snd (normalizeRealmConfig H' now rc)))"
  unfolding normalize_flag normalize_raw by (auto simp: normalize_previous)

lemma hash_shape: "length (H (HASH_DOMAIN @ to_string v)) = 64 \<Longrightarrow> isRealmKeyHash (JStr (hashRealmKey H v))"
  by (simp add: isRealmKeyHash_def hashRealmKey_def starts_with_iff)

lemma matches_hash:
  "\<forall>s. length (H s) = 64 \<Longrightarrow> realmKeyMatches H (JStr p) (JStr (hashRealmKey H k)) \<longleftrightarrow>
     p \<noteq> [] \<and> H (HASH_DOMAIN @ p) = H (HASH_DOMAIN @ to_string k)"
  by (simp add: realmKeyMatches_def hash_shape) (simp add: hashRealmKey_def)

lemma matches_undef [simp]: "\<not> realmKeyMatches H p JUndef"
  by (simp add: realmKeyMatches_def isRealmKeyHash_def)

lemma accepted_iff:
  "fst (realmKeyAccepted H now p (Some rc)) \<longleftrightarrow>
     realmKeyMatches H p (rc_key_hash (snd (normalizeRealmConfig H now rc)))
     \<or> (truthy (rc_previous_key_hash rc) \<and> stillValid (rc_previous_key_until rc) now \<and> realmKeyMatches H p (rc_previous_key_hash rc))"
  by (cases "truthy (rc_previous_key_hash rc) \<and> stillValid (rc_previous_key_until rc) now")
    (auto simp: realmKeyAccepted_def Let_def normalize_fields)

text \<open>
  Keys at rest: normalising a realm configuration replaces a raw key by its hash and nothing is
  left of it, a second normalisation changes nothing, and exactly the keys that hash alike open the
  realm afterwards, just as before.
\<close>

theorem realm_key_at_rest:
  assumes H: "\<forall>s. length (H s) = 64" and k: "raw_key rc = JStr k" "k \<noteq> []" "\<not> isRealmKeyHash (JStr k)"
    and rc': "rc' = snd (normalizeRealmConfig H now rc)"
  shows "rc_key rc' = JUndef \<and> rc_preshared_key rc' = JUndef \<and> rc_presharedKey rc' = JUndef
    \<and> normalizeRealmConfig H now rc' = (False, rc')
    \<and> fst (realmKeyAccepted H now (JStr p) (Some rc')) = fst (realmKeyAccepted H now (JStr p) (Some rc))
    \<and> (rc_previous_key_hash rc = JUndef \<longrightarrow> (fst (realmKeyAccepted H now (JStr p) (Some rc')) \<longleftrightarrow>
          p \<noteq> [] \<and> H (HASH_DOMAIN @ p) = H (HASH_DOMAIN @ k)))"
proof -
  have gone: "rc_key rc' = JUndef \<and> rc_preshared_key rc' = JUndef \<and> rc_presharedKey rc' = JUndef"
    using k rc' by (auto simp: normalizeRealmConfig_def normalize_key_def drop_previous_key_def drop_previous_manager_def Let_def raw_key_def)
  have idem: "normalizeRealmConfig H now rc' = (False, rc')"
    unfolding rc' by (rule normalize_settled [OF normalize_done])
  have hash: "rc_key_hash rc' = JStr (hashRealmKey H (JStr k))" using k by (simp add: rc' normalize_key_hash)
  have prev: "truthy (rc_previous_key_hash rc') \<and> stillValid (rc_previous_key_until rc') now \<and> realmKeyMatches H (JStr p) (rc_previous_key_hash rc')
      \<longleftrightarrow> truthy (rc_previous_key_hash rc) \<and> stillValid (rc_previous_key_until rc) now \<and> realmKeyMatches H (JStr p) (rc_previous_key_hash rc)"
    using normalize_previous(1) [of H now rc] normalize_previous(2) [of rc now H] rc' by (cases "truthy (rc_previous_key_hash rc) \<and> stillValid (rc_previous_key_until rc) now") auto
  show ?thesis
    using gone idem hash prev matches_hash [OF H, of p "JStr k"] by (simp add: accepted_iff rc' [symmetric])
qed

definition pad64 :: "string \<Rightarrow> string" where
  "pad64 s = take 64 (s @ replicate 64 (CHR ''0''))"

lemma pad64_length: "length (pad64 s) = 64"
  by (simp add: pad64_def)

theorem realm_key_at_rest_witness:
  "fst (realmKeyAccepted pad64 0 (JStr ''open'') (Some (snd (normalizeRealmConfig pad64 0 (realm_config_empty\<lparr>rc_key := JStr ''open''\<rparr>)))))"
proof -
  let ?rc = "realm_config_empty\<lparr>rc_key := JStr ''open''\<rparr>"
  have "raw_key ?rc = JStr ''open''" "\<not> isRealmKeyHash (JStr ''open'')" "rc_previous_key_hash ?rc = JUndef"
    by (simp_all add: raw_key_def realm_config_empty_def js_or_def isRealmKeyHash_def HASH_PREFIX_def)
  with realm_key_at_rest [OF _ this(1) _ this(2) refl, of pad64 0 "''open''"] pad64_length show ?thesis by blast
qed

text \<open>
  Rotation with overlap: after a realm key is replaced at time \<open>now\<close>, a presented key opens the
  realm at a later time exactly if it is the new one, or it is the old one and the grace window is
  still open; without a grace the old key is refused at once, and no grace outlives thirty days.
\<close>

theorem realm_key_rotation:
  assumes H: "\<forall>s. length (H s) = 64" and norm: "normalizeRealmConfig H now rc = (False, rc)" "raw_key rc = JUndef"
    and old: "rc_key_hash rc = JStr (hashRealmKey H (JStr old))" and new: "obj_get body ''key'' = JStr new" "new \<noteq> []"
    and set: "set_realm_key H now body rc = (None, rc')" and p: "p \<noteq> []"
  shows "fst (realmKeyAccepted H t (JStr p) (Some rc')) \<longleftrightarrow>
      H (HASH_DOMAIN @ p) = H (HASH_DOMAIN @ new)
      \<or> (H (HASH_DOMAIN @ p) = H (HASH_DOMAIN @ old)
         \<and> (case clampGraceMs (parseRealmTtlMs (obj_get body ''grace'')) of None \<Rightarrow> False
             | Some g \<Rightarrow> t < now + \<lfloor>g\<rfloor> \<and> \<lfloor>g\<rfloor> \<le> MAX_GRACE_MS))"
proof -
  let ?h = "JStr (hashRealmKey H (JStr new))" and ?g = "clampGraceMs (parseRealmTtlMs (obj_get body ''grace''))"
  have g: "\<lfloor>g\<rfloor> \<le> MAX_GRACE_MS" if "?g = Some g" for g
    using that by (auto simp: clampGraceMs_def floor_le_iff split: option.splits if_splits)
  have rc': "rc_key_hash rc' = ?h" "raw_key rc' = JUndef"
    "rc_previous_key_hash rc' = (if ?g \<noteq> None \<and> rc_key_hash rc \<noteq> ?h then rc_key_hash rc else JUndef)"
    "?g = Some x \<Longrightarrow> rc_key_hash rc \<noteq> ?h \<Longrightarrow> rc_previous_key_until rc' = Some (IsoAt (now + \<lfloor>x\<rfloor>))" for x
    using set new norm old by (auto simp: set_realm_key_def Let_def js_or_def iso_after_def raw_key_def hashRealmKey_def HASH_PREFIX_def
        split: option.splits if_splits)
  have key: "rc_key_hash (snd (normalizeRealmConfig H t rc')) = ?h" using rc'(1,2) by (simp add: normalize_key_hash)
  have t: "truthy (JStr (hashRealmKey H (JStr old)))" by (simp add: hashRealmKey_def HASH_PREFIX_def)
  have m: "realmKeyMatches H (JStr p) (JStr (hashRealmKey H (JStr k))) \<longleftrightarrow> H (HASH_DOMAIN @ p) = H (HASH_DOMAIN @ k)" for k
    using matches_hash [OF H, of p "JStr k"] p by simp
  have same: "rc_key_hash rc = ?h \<longleftrightarrow> H (HASH_DOMAIN @ old) = H (HASH_DOMAIN @ new)"
    by (simp add: old hashRealmKey_def)
  show ?thesis
  proof (cases ?g)
    case None
    with rc'(3) show ?thesis by (simp add: accepted_iff key m)
  next
    case (Some g)
    show ?thesis
    proof (cases "rc_key_hash rc = ?h")
      case True
      with same rc'(3) Some show ?thesis by (auto simp: accepted_iff key m)
    next
      case False
      have "stillValid (rc_previous_key_until rc') t \<longleftrightarrow> t < now + \<lfloor>g\<rfloor>" using rc'(4) [OF Some False] by (simp add: stillValid_def)
      moreover have "rc_previous_key_hash rc' = JStr (hashRealmKey H (JStr old))" using rc'(3) Some False old by simp
      ultimately show ?thesis using Some t g by (auto simp: accepted_iff key m)
    qed
  qed
qed

theorem realm_key_rotation_witness:
  "fst (realmKeyAccepted pad64 500 (JStr ''old'') (Some (snd (set_realm_key pad64 0 (JObj [(''key'', JStr ''new''), (''grace'', JNum (Fin 1))])
     (realm_config_empty\<lparr>rc_key_hash := JStr (hashRealmKey pad64 (JStr ''old''))\<rparr>)))))"
proof -
  let ?rc = "realm_config_empty\<lparr>rc_key_hash := JStr (hashRealmKey pad64 (JStr ''old''))\<rparr>"
    and ?b = "JObj [(''key'', JStr ''new''), (''grace'', JNum (Fin 1))]"
  have n: "normalizeRealmConfig pad64 0 ?rc = (False, ?rc)"
    by (rule normalize_settled [of pad64]) (simp add: normalize_flag raw_key_def realm_config_empty_def js_or_def)
  have s: "set_realm_key pad64 0 ?b ?rc = (None, snd (set_realm_key pad64 0 ?b ?rc))"
    by (simp add: set_realm_key_def n Let_def js_or_def parseRealmTtlMs_def blank_def nullish_def clampGraceMs_def)
  show ?thesis
    using realm_key_rotation [OF _ n _ _ _ _ s, of "''old''" "''new''" "''old''" 500] pad64_length
    by (simp add: raw_key_def realm_config_empty_def js_or_def parseRealmTtlMs_def blank_def nullish_def clampGraceMs_def MAX_GRACE_MS_def)
qed

end
