(* ===== verification/Access.thy ===== *)
theory Access
  imports Realm_Keys Push_Payload
begin

text \<open>
  Who may do what: the policies of a realm (\<open>isAuthRequiredForRealm\<close>, \<open>isKeyRequiredForRealm\<close>,
  \<open>isAcceptanceRequiredForRealm\<close>, \<open>isAnonymousAllowed\<close>, the encryption and wake policies) and the
  guard \<open>authorize\<close> that every event of a client passes (\<open>lib/server.js\<close>). The configuration of
  a realm extends the record of \<open>Realm_Keys\<close> with the settings that are read here.
\<close>

section \<open>Configuration\<close>

record realm_settings = realm_config +
  rs_required :: jsval
  rs_requireKey :: jsval
  rs_require_acceptance :: jsval
  rs_requireAcceptance :: jsval
  rs_allow_anonymous :: jsval
  rs_allowAnonymous :: jsval
  rs_e2ee :: jsval
  rs_push :: jsval

text \<open>\<open>as_current\<close> is \<open>server.settings.get('auth')\<close>, \<open>as_options\<close> is \<open>server.authOptions\<close>.\<close>

record auth_block =
  ab_enabled :: jsval
  ab_realms :: "(string, realm_settings) jsmap"

record auth_settings =
  as_current :: "auth_block option"
  as_options :: "auth_block option"

definition DEFAULT_REALM :: string where "DEFAULT_REALM = ''default''"
definition REALM_ALL :: string where "REALM_ALL = ''*''"

definition getRealmConfig :: "auth_settings \<Rightarrow> string \<Rightarrow> realm_settings option" where
  "getRealmConfig A realm = (case as_options A of None \<Rightarrow> None | Some b \<Rightarrow> jget (ab_realms b) realm)"

definition isAuthEnabled :: "auth_settings \<Rightarrow> bool" where
  "isAuthEnabled A \<longleftrightarrow> (case as_current A of None \<Rightarrow> False | Some b \<Rightarrow> truthy (ab_enabled b))"

section \<open>Policies\<close>

definition isAuthRequiredForRealm :: "auth_settings \<Rightarrow> string \<Rightarrow> bool" where
  "isAuthRequiredForRealm A realm \<longleftrightarrow>
     isAuthEnabled A
     \<and> (case as_current A of
          None \<Rightarrow> True
        | Some b \<Rightarrow> if realm = [] then True else
           (case jget (ab_realms b) realm of
              None \<Rightarrow> True
            | Some rc \<Rightarrow> (case rs_required rc of JBool r \<Rightarrow> r | _ \<Rightarrow> True)))"

definition isKeyRequiredForRealm :: "(string \<Rightarrow> string) \<Rightarrow> int \<Rightarrow> auth_settings \<Rightarrow> string \<Rightarrow> bool" where
  "isKeyRequiredForRealm H now A realm \<longleftrightarrow>
     isAuthEnabled A
     \<and> (case getRealmConfig A realm of
          None \<Rightarrow> False
        | Some rc \<Rightarrow> (case rc_require_key rc of JBool r \<Rightarrow> r
             | _ \<Rightarrow> (case rs_requireKey rc of JBool r \<Rightarrow> r
                | _ \<Rightarrow> truthy (fst (getRealmPresharedKeyHash H now (Some (realm_config.truncate rc)))))))"

definition isAcceptanceRequiredForRealm :: "auth_settings \<Rightarrow> string \<Rightarrow> bool" where
  "isAcceptanceRequiredForRealm A realm \<longleftrightarrow>
     isAuthEnabled A
     \<and> (case getRealmConfig A realm of
          None \<Rightarrow> isAuthRequiredForRealm A realm
        | Some rc \<Rightarrow> (case rs_require_acceptance rc of JBool r \<Rightarrow> r
             | _ \<Rightarrow> (case rs_requireAcceptance rc of JBool r \<Rightarrow> r | _ \<Rightarrow> isAuthRequiredForRealm A realm)))"

definition isAnonymousName :: "string \<Rightarrow> string \<Rightarrow> bool" where
  "isAnonymousName anon name \<longleftrightarrow> name = anon \<or> starts_with (anon @ ''-'') name"

definition isAnonymousAllowed :: "auth_settings \<Rightarrow> string \<Rightarrow> bool" where
  "isAnonymousAllowed A realm =
     (case getRealmConfig A realm of
        None \<Rightarrow> realm = DEFAULT_REALM
      | Some rc \<Rightarrow> (case rs_allow_anonymous rc of JBool b \<Rightarrow> b
           | _ \<Rightarrow> (case rs_allowAnonymous rc of JBool b \<Rightarrow> b | _ \<Rightarrow> realm = DEFAULT_REALM)))"

datatype e2ee_policy = E2eeOff | E2eeOpportunistic | E2eeRequired

definition getRealmE2eePolicy :: "auth_settings \<Rightarrow> string \<Rightarrow> e2ee_policy" where
  "getRealmE2eePolicy A realm =
     (case getRealmConfig A realm of
        None \<Rightarrow> E2eeOff
      | Some rc \<Rightarrow> if rs_e2ee rc = JStr ''opportunistic'' then E2eeOpportunistic
                   else if rs_e2ee rc = JStr ''required'' then E2eeRequired else E2eeOff)"

definition sealedEnabledForRealm :: "auth_settings \<Rightarrow> string \<Rightarrow> bool" where
  "sealedEnabledForRealm A realm \<longleftrightarrow> getRealmE2eePolicy A realm \<noteq> E2eeOff"

text \<open>The kind of wake of a queued message, and the copy of an alert.\<close>

definition wakePolicyFor :: "auth_settings \<Rightarrow> string \<Rightarrow> jsval \<Rightarrow> jsval \<times> wake_alert option" where
  "wakePolicyFor A realm hint =
     (let push = (case getRealmConfig A realm of None \<Rightarrow> JUndef | Some rc \<Rightarrow> rs_push rc);
          pc = (if truthy push \<and> (is_plain_obj push \<or> is_array push) then push else JObj []);
          kind = (if hint \<in> {JBool False, JStr ''false'', JStr ''none'', JStr ''off''} then JBool False
                  else if hint = JStr ''alert'' \<or> hint = JStr ''silent'' then hint
                  else if obj_get pc ''default_wake'' = JStr ''alert'' then JStr ''alert'' else JStr ''silent'')
      in (kind, if kind = JStr ''alert'' then Some (normalizeWakeAlert (obj_get pc ''alert'') (JStr realm)) else None))"

definition normalizeRole :: "string option \<Rightarrow> string" where
  "normalizeRole role = str_or role ''both''"

definition roleAllows :: "string option \<Rightarrow> string list \<Rightarrow> bool" where
  "roleAllows role allowed \<longleftrightarrow>
     normalizeRole role \<in> {''admin'', ''manager'', ''both''} \<or> normalizeRole role \<in> set allowed"

section \<open>The guard of every event\<close>

record sock_auth =
  sa_authenticated :: bool
  sa_realm :: "string option"
  sa_role :: "string option"
  sa_identity :: "string option"

record sock_state =
  sk_auth :: "sock_auth option"
  sk_pendingRealm :: "string option"
  sk_refusal :: "nat option"

definition grant :: "string \<Rightarrow> string \<Rightarrow> sock_auth" where
  "grant realm role = \<lparr>sa_authenticated = True, sa_realm = Some realm, sa_role = Some role, sa_identity = None\<rparr>"

definition getSocketRealmId :: "sock_state \<Rightarrow> string" where
  "getSocketRealmId k = (case sk_auth k of None \<Rightarrow> DEFAULT_REALM | Some a \<Rightarrow> str_or (sa_realm a) DEFAULT_REALM)"

definition is_authenticated :: "sock_state \<Rightarrow> bool" where
  "is_authenticated k \<longleftrightarrow> (case sk_auth k of None \<Rightarrow> False | Some a \<Rightarrow> sa_authenticated a)"

text \<open>The first event of a socket that has not authenticated.\<close>

definition admit_unauthenticated :: "(string \<Rightarrow> string) \<Rightarrow> int \<Rightarrow> auth_settings \<Rightarrow> string list \<Rightarrow> sock_state \<Rightarrow> bool \<times> sock_state" where
  "admit_unauthenticated H now A roles k =
     (let realm = str_or (sk_pendingRealm k) DEFAULT_REALM in
      if \<not> isAuthRequiredForRealm A realm then (True, k\<lparr>sk_auth := Some (grant realm ''both'')\<rparr>)
      else if roles = [''consumer''] \<and> \<not> isKeyRequiredForRealm H now A realm
        then (True, k\<lparr>sk_auth := Some (grant realm ''consumer'')\<rparr>)
      else if roles = [''producer''] \<and> \<not> isAcceptanceRequiredForRealm A realm
        then (True, k\<lparr>sk_auth := Some (grant realm ''producer'')\<rparr>)
      else (False, k\<lparr>sk_refusal := Some 401\<rparr>))"

definition authorize :: "(string \<Rightarrow> string) \<Rightarrow> int \<Rightarrow> auth_settings \<Rightarrow> string list \<Rightarrow> sock_state \<Rightarrow> bool \<times> sock_state" where
  "authorize H now A roles k =
     (if \<not> isAuthEnabled A then (True, k)
      else if \<not> is_authenticated k then admit_unauthenticated H now A roles k
      else case sk_auth k of
        None \<Rightarrow> (True, k)
      | Some a \<Rightarrow>
          if \<not> isAuthRequiredForRealm A (str_or (sa_realm a) []) then (True, k)
          else if roles \<noteq> [] \<and> \<not> roleAllows (sa_role a) roles then (False, k\<lparr>sk_refusal := Some 403\<rparr>)
          else (True, k))"

text \<open>\<open>onAuthorized\<close>: the handler runs only past the guard.\<close>

definition onAuthorized ::
  "(string \<Rightarrow> string) \<Rightarrow> int \<Rightarrow> auth_settings \<Rightarrow> string list \<Rightarrow> (sock_state \<Rightarrow> 's \<Rightarrow> sock_state \<times> 's) \<Rightarrow> sock_state \<times> 's \<Rightarrow> sock_state \<times> 's" where
  "onAuthorized H now A roles handler ks =
     (let (ok, k) = authorize H now A roles (fst ks) in if ok then handler k (snd ks) else (k, snd ks))"

definition identityBindingAllows :: "sock_state \<Rightarrow> string \<Rightarrow> bool" where
  "identityBindingAllows k name =
     (case sk_auth k of None \<Rightarrow> True | Some a \<Rightarrow> \<not> str_truthy (sa_identity a) \<or> sa_identity a = Some name)"

section \<open>Role separation\<close>

lemma authorize_authenticated:
  "isAuthEnabled A \<Longrightarrow> authorize H now A roles k = (True, k') \<Longrightarrow> is_authenticated k'"
  by (auto simp: authorize_def admit_unauthenticated_def is_authenticated_def grant_def Let_def
      split: if_splits option.splits)

fun authorize_run ::
  "(string \<Rightarrow> string) \<Rightarrow> auth_settings \<Rightarrow> (int \<times> string list) list \<Rightarrow> sock_state \<Rightarrow> (string list \<times> bool) list" where
  "authorize_run H A [] k = []"
| "authorize_run H A ((now, roles) # es) k =
     (let (ok, k') = authorize H now A roles k in (roles, ok) # authorize_run H A es k')"

text \<open>What an unauthenticated socket can become in a realm that requires acceptance.\<close>

definition only_consumer :: "string \<Rightarrow> sock_state \<Rightarrow> bool" where
  "only_consumer realm k \<longleftrightarrow> str_or (sk_pendingRealm k) DEFAULT_REALM = realm
     \<and> (\<not> is_authenticated k \<or> sk_auth k = Some (grant realm ''consumer''))"

lemma authorize_only_consumer:
  assumes "isAuthEnabled A" "isAuthRequiredForRealm A realm" "isAcceptanceRequiredForRealm A realm" "realm \<noteq> []"
    and "only_consumer realm k"
  shows "only_consumer realm (snd (authorize H now A roles k)) \<and> (fst (authorize H now A roles k) \<longrightarrow> roles \<noteq> [''producer''])"
proof (cases "is_authenticated k")
  case True
  with assms have k: "sk_auth k = Some (grant realm ''consumer'')" by (simp add: only_consumer_def)
  have no: "\<not> roleAllows (Some ''consumer'') [''producer'']" by (simp add: roleAllows_def normalizeRole_def)
  from k assms no True show ?thesis
    by (auto simp: authorize_def only_consumer_def grant_def is_authenticated_def)
next
  case False
  with assms show ?thesis
    by (auto simp: authorize_def admit_unauthenticated_def only_consumer_def Let_def is_authenticated_def)
qed

text \<open>
  A socket that has not authenticated never gets an event for producers past the guard of a
  realm that requires authentication and acceptance, whatever it sends before: being let in as a
  consumer of a realm without a key gives no right to produce.
\<close>

theorem unaccepted_never_produces:
  assumes "isAuthEnabled A" and "isAuthRequiredForRealm A realm" and "isAcceptanceRequiredForRealm A realm" and "realm \<noteq> []"
    and "\<not> is_authenticated k" and "str_or (sk_pendingRealm k) DEFAULT_REALM = realm"
  shows "([''producer''], True) \<notin> set (authorize_run H A es k)"
proof -
  have "only_consumer realm k \<Longrightarrow> ([''producer''], True) \<notin> set (authorize_run H A es k)" for k
  proof (induction es arbitrary: k)
    case (Cons e es)
    obtain now roles where e: "e = (now, roles)" by (cases e)
    from authorize_only_consumer [OF assms(1-4) Cons.prems, of H now roles] Cons.IH
    show ?case by (auto simp: e split_beta Let_def)
  qed simp
  with assms show ?thesis by (simp add: only_consumer_def)
qed

definition sample_auth :: auth_settings where
  "sample_auth = \<lparr>as_current = Some \<lparr>ab_enabled = JBool True, ab_realms = []\<rparr>, as_options = Some \<lparr>ab_enabled = JBool True, ab_realms = []\<rparr>\<rparr>"

definition fresh_sock :: sock_state where
  "fresh_sock = \<lparr>sk_auth = None, sk_pendingRealm = Some ''chat'', sk_refusal = None\<rparr>"

theorem unaccepted_never_produces_witness:
  "map snd (authorize_run id sample_auth [(1, [''producer'']), (2, [''consumer'']), (3, [''producer'']), (4, [''consumer''])] fresh_sock)
     = [False, True, False, True]
   \<and> ([''producer''], True) \<notin> set (authorize_run id sample_auth [(1, [''consumer'']), (2, [''producer''])] fresh_sock)"
proof
  show "([''producer''], True) \<notin> set (authorize_run id sample_auth [(1, [''consumer'']), (2, [''producer''])] fresh_sock)"
    by (rule unaccepted_never_produces [of sample_auth "''chat''"])
      (simp_all add: sample_auth_def fresh_sock_def isAuthEnabled_def isAuthRequiredForRealm_def
        isAcceptanceRequiredForRealm_def getRealmConfig_def is_authenticated_def)
qed (code_simp)

end
