(* ===== verification/Broker_State.thy ===== *)
theory Broker_State
  imports Access
begin

text \<open>
  The routing state of the broker (\<open>lib/server.js\<close>): per realm the producers, consumers and
  subscriptions, and the operations that change them: registration, subscription, disconnection and
  the idle sweep. An entry the code creates when it is first looked up is read as empty and stored
  with the first change to it. Names and ids of clients are strings. Names of events come from the
  protocol package and are parameters (\<open>protocol\<close>). What is sent to sockets is a list of effects.
\<close>

section \<open>Data\<close>

record protocol =
  toConsumerEvent :: "string \<Rightarrow> string \<Rightarrow> bool option \<Rightarrow> string"
  toConsumerEventAll :: "string \<Rightarrow> string"
  toConsumeEvent :: "string \<Rightarrow> string"
  toConsumeEventAll :: "string \<Rightarrow> string"
  toOnSubscribeEvent :: "string option \<Rightarrow> string"
  toOnConnectEvent :: "string option \<Rightarrow> string"
  toOnDisconnectEvent :: "string option \<Rightarrow> string"
  ALL_PUBLISHERS :: string
  ANONYMOUS :: string
  SCOPE_ALL :: string
  SCOPE_DEFAULT :: string

record subscription =
  sb_subscribeTos :: "string list"
  sb_id :: "string option"
  sb_acked :: bool
  sb_name :: string
  sb_durable :: bool
  sb_consumer_id :: string
  sb_ack_required :: bool
  sb_ack_timeout_ms :: rat
  sb_retry :: jsval
  sb_group :: "string option"
  sb_topic_mode :: bool
  sb_subscribeToId :: "string option"

record consumer_meta =
  cm_name :: string
  cm_id :: "string option"
  cm_socket :: "string option"
  cm_online :: "bool option"
  cm_offline_at :: "int option"
  cm_subscribeTos :: "string list"

record producer_meta =
  pm_id :: "string option"
  pm_socket :: "string option"
  pm_online :: "bool option"
  pm_offline_at :: "int option"
  pm_subscribers :: "string list"
  pm_default_ttl :: jsval

type_synonym subscribers = "(string, subscription) jsmap"

record realm_state =
  rl_producers :: "(string, producer_meta) jsmap"
  rl_consumers :: "(string, consumer_meta) jsmap"
  rl_subscriptions :: "(string, subscribers) jsmap"
  rl_topicPatterns :: "(string, string) jsmap"
  rl_groupCounters :: "(string, nat) jsmap"

type_synonym broker = "(string, realm_state) jsmap"

datatype sock_effect = SendTo string string jsval

definition realm_empty :: realm_state where
  "realm_empty = \<lparr>rl_producers = [], rl_consumers = [], rl_subscriptions = [], rl_topicPatterns = [], rl_groupCounters = []\<rparr>"

definition getRealm :: "string \<Rightarrow> broker \<Rightarrow> realm_state" where
  "getRealm r B = (case jget B (if r = [] then DEFAULT_REALM else r) of None \<Rightarrow> realm_empty | Some R \<Rightarrow> R)"

definition putRealm :: "string \<Rightarrow> realm_state \<Rightarrow> broker \<Rightarrow> broker" where
  "putRealm r R B = jset (if r = [] then DEFAULT_REALM else r) R B"

definition realmSubscriptionCount :: "realm_state \<Rightarrow> nat" where
  "realmSubscriptionCount R = sum_list (map (\<lambda>(ev, subs). length subs) (rl_subscriptions R))"

definition realmRegistrationCount :: "realm_state \<Rightarrow> nat" where
  "realmRegistrationCount R = length (rl_producers R) + length (rl_consumers R)"

section \<open>Lookups\<close>

definition getEventSubscriptions :: "string \<Rightarrow> realm_state \<Rightarrow> subscribers" where
  "getEventSubscriptions ev R = (case jget (rl_subscriptions R) ev of None \<Rightarrow> [] | Some s \<Rightarrow> s)"

definition subscription_new :: subscription where
  "subscription_new = \<lparr>sb_subscribeTos = [], sb_id = None, sb_acked = False, sb_name = [], sb_durable = False, sb_consumer_id = [],
     sb_ack_required = False, sb_ack_timeout_ms = 0, sb_retry = JUndef, sb_group = None, sb_topic_mode = False, sb_subscribeToId = None\<rparr>"

definition getEventSubscriber :: "string \<Rightarrow> string \<Rightarrow> realm_state \<Rightarrow> subscription" where
  "getEventSubscriber ev consumer R =
     (case jget (getEventSubscriptions ev R) consumer of None \<Rightarrow> subscription_new | Some s \<Rightarrow> s)"

definition putEventSubscriber :: "string \<Rightarrow> string \<Rightarrow> subscription \<Rightarrow> realm_state \<Rightarrow> realm_state" where
  "putEventSubscriber ev consumer s R =
     R\<lparr>rl_subscriptions := jset ev (jset consumer s (getEventSubscriptions ev R)) (rl_subscriptions R)\<rparr>"

definition consumer_new :: "string \<Rightarrow> consumer_meta" where
  "consumer_new n = \<lparr>cm_name = n, cm_id = None, cm_socket = None, cm_online = None, cm_offline_at = None, cm_subscribeTos = []\<rparr>"

definition producer_new :: producer_meta where
  "producer_new = \<lparr>pm_id = None, pm_socket = None, pm_online = None, pm_offline_at = None, pm_subscribers = [], pm_default_ttl = JUndef\<rparr>"

definition getConsumerMetaInfo :: "string \<Rightarrow> realm_state \<Rightarrow> consumer_meta" where
  "getConsumerMetaInfo n R = (case jget (rl_consumers R) n of None \<Rightarrow> consumer_new n | Some m \<Rightarrow> m)"

definition putConsumer :: "string \<Rightarrow> consumer_meta \<Rightarrow> realm_state \<Rightarrow> realm_state" where
  "putConsumer n m R = R\<lparr>rl_consumers := jset n m (rl_consumers R)\<rparr>"

definition getProducerMetaInfo :: "string \<Rightarrow> realm_state \<Rightarrow> producer_meta" where
  "getProducerMetaInfo n R = (case jget (rl_producers R) n of None \<Rightarrow> producer_new | Some m \<Rightarrow> m)"

definition putProducer :: "string \<Rightarrow> producer_meta \<Rightarrow> realm_state \<Rightarrow> realm_state" where
  "putProducer n m R = R\<lparr>rl_producers := jset n m (rl_producers R)\<rparr>"

text \<open>The lookups read an empty or missing name as the anonymous one; callers pass names through this.\<close>

definition anon_name :: "protocol \<Rightarrow> string \<Rightarrow> string" where
  "anon_name P n = (if n = [] then ANONYMOUS P else n)"

lemma anon_name_id [simp]: "n \<noteq> [] \<Longrightarrow> anon_name P n = n"
  by (simp add: anon_name_def)

text \<open>\<open>Set.add\<close> on a list without repetitions.\<close>

definition set_add :: "'a \<Rightarrow> 'a list \<Rightarrow> 'a list" where
  "set_add x xs = (if x \<in> set xs then xs else xs @ [x])"

section \<open>Registration\<close>

definition setupConsumer :: "string \<Rightarrow> string \<Rightarrow> string option \<Rightarrow> realm_state \<Rightarrow> realm_state" where
  "setupConsumer sock n i R =
     (let m = getConsumerMetaInfo n R
      in putConsumer n (m\<lparr>cm_id := (if str_truthy i then i else cm_id m), cm_socket := Some sock, cm_online := Some True\<rparr>) R)"

definition setupProducer :: "string \<Rightarrow> string \<Rightarrow> string option \<Rightarrow> realm_state \<Rightarrow> realm_state" where
  "setupProducer sock n i R =
     (let m = getProducerMetaInfo n R
      in putProducer n (m\<lparr>pm_id := (if str_truthy i then i else pm_id m), pm_socket := Some sock, pm_online := Some True\<rparr>) R)"

definition findRecipientSocket :: "string \<Rightarrow> realm_state \<Rightarrow> string option" where
  "findRecipientSocket n R =
     (case jget (rl_consumers R) n of
        Some m \<Rightarrow> cm_socket m
      | None \<Rightarrow> (case jget (rl_producers R) n of Some m \<Rightarrow> pm_socket m | None \<Rightarrow> None))"

section \<open>Subscription\<close>

record sub_options =
  so_durable :: bool
  so_consumer_id :: "string option"
  so_ack :: bool
  so_ack_timeout :: jsval
  so_retry :: jsval
  so_group :: "string option"
  so_mode :: "string option"

definition parse_dur_text :: "string \<Rightarrow> rat option" where
  "parse_dur_text s =
     (let ip = takeWhile is_digit s; r = dropWhile is_digit s;
          has_frac = (r \<noteq> [] \<and> hd r = CHR ''.'' \<and> takeWhile is_digit (tl r) \<noteq> []);
          fp = (if has_frac then takeWhile is_digit (tl r) else []);
          u = (if has_frac then dropWhile is_digit (tl r) else r);
          amount = ttl_amount (ip @ (if has_frac then ''.'' @ fp else []))
      in if ip = [] then None
         else map_option (\<lambda>f. amount * f) (map_of [([], 1000), (''s'', 1000), (''ms'', 1), (''m'', 60000)] (to_lower u)))"

definition parseDurationMs :: "jsval \<Rightarrow> jsnum \<Rightarrow> jsnum" where
  "parseDurationMs v d =
     (if blank v then d
      else case v of
        JNum n \<Rightarrow> (case n of Fin r \<Rightarrow> Fin (r * 1000) | _ \<Rightarrow> n)
      | _ \<Rightarrow> (case parse_dur_text (trim (to_string v)) of None \<Rightarrow> d | Some r \<Rightarrow> Fin r))"

definition sub_message :: "string list \<Rightarrow> consumer_meta \<Rightarrow> jsval \<Rightarrow> jsval" where
  "sub_message evs m status = JObj [(''name'', JStr (cm_name m)),
     (''id'', case cm_id m of None \<Rightarrow> JUndef | Some i \<Rightarrow> JStr i), (''socket'', case cm_socket m of None \<Rightarrow> JUndef | Some s \<Rightarrow> JStr s),
     (''events'', JArr (map JStr evs)), (''online'', status)]"

definition send_opt :: "string option \<Rightarrow> string \<Rightarrow> jsval \<Rightarrow> sock_effect list" where
  "send_opt sock ev msg = (case sock of None \<Rightarrow> [] | Some s \<Rightarrow> if s = [] then [] else [SendTo s ev msg])"

definition sendSubscriptionMessageToProducer ::
  "protocol \<Rightarrow> string \<Rightarrow> string \<Rightarrow> string \<Rightarrow> realm_state \<Rightarrow> sock_effect list \<times> realm_state" where
  "sendSubscriptionMessageToProducer P eventStr producer consumer R =
     (let pm = getProducerMetaInfo producer R; cm = getConsumerMetaInfo consumer R in
      if pm_online pm = Some True
      then (send_opt (pm_socket pm) (toOnSubscribeEvent P (pm_id pm)) (sub_message [eventStr] cm (JBool True)),
            putEventSubscriber eventStr consumer ((getEventSubscriber eventStr consumer R)\<lparr>sb_acked := True, sb_subscribeToId := pm_id pm\<rparr>)
              (putProducer producer (pm\<lparr>pm_subscribers := set_add consumer (pm_subscribers pm)\<rparr>) R))
      else ([], putProducer producer pm R))"

fun notify_producers ::
  "protocol \<Rightarrow> string \<Rightarrow> string list \<Rightarrow> string \<Rightarrow> realm_state \<Rightarrow> sock_effect list \<times> realm_state" where
  "notify_producers P eventStr [] consumer R = ([], R)"
| "notify_producers P eventStr (p # ps) consumer R =
     (let (es, R1) = sendSubscriptionMessageToProducer P eventStr p consumer R;
          (es', R2) = notify_producers P eventStr ps consumer R1
      in (es @ es', R2))"

definition subscription_of :: "jsval \<Rightarrow> consumer_meta \<Rightarrow> string \<Rightarrow> sub_options \<Rightarrow> subscription \<Rightarrow> subscription" where
  "subscription_of default_ack_timeout cm consumer opts s =
     s\<lparr>sb_id := cm_id cm, sb_acked := False, sb_name := consumer, sb_durable := so_durable opts,
       sb_consumer_id := str_or (so_consumer_id opts) (str_or (cm_id cm) consumer),
       sb_ack_required := so_ack opts,
       sb_ack_timeout_ms := fin_val (parseDurationMs (js_or (so_ack_timeout opts) default_ack_timeout) (Fin (30 * 1000))),
       sb_retry := so_retry opts, sb_group := (if str_truthy (so_group opts) then so_group opts else None),
       sb_topic_mode := (so_mode opts = Some ''topic'')\<rparr>"

text \<open>
  \<open>subscribeMessage\<close> up to the replay of stored messages; the answer is what is sent to producers, the
  name of the event the subscription is filed under, and the new state.
\<close>

definition subscribeMessage ::
  "protocol \<Rightarrow> jsval \<Rightarrow> string \<Rightarrow> string \<Rightarrow> string \<Rightarrow> string \<Rightarrow> string option \<Rightarrow> string \<Rightarrow> sub_options \<Rightarrow> realm_state
     \<Rightarrow> sock_effect list \<times> string \<times> realm_state" where
  "subscribeMessage P ack_timeout sock event producer consumer consumerId scope opts R =
     (let eventStr = toConsumerEvent P event producer (Some (scope \<noteq> SCOPE_ALL P));
          cm0 = getConsumerMetaInfo consumer R;
          R1 = (if str_truthy (cm_socket cm0) then putConsumer consumer cm0 R else setupConsumer sock consumer consumerId R);
          cm = getConsumerMetaInfo consumer R1;
          s = subscription_of ack_timeout cm consumer opts (getEventSubscriber eventStr consumer R1);
          R2 = (if sb_topic_mode s then R1\<lparr>rl_topicPatterns := jset eventStr (to_lower event) (rl_topicPatterns R1)\<rparr> else R1);
          s' = (if producer \<in> set (cm_subscribeTos cm) then s else s\<lparr>sb_subscribeTos := set_add producer (sb_subscribeTos s)\<rparr>);
          R3 = putConsumer consumer (cm\<lparr>cm_subscribeTos := set_add producer (cm_subscribeTos cm)\<rparr>) (putEventSubscriber eventStr consumer s' R2);
          targets = (if producer \<noteq> ALL_PUBLISHERS P then [producer] else filter (\<lambda>n. n \<noteq> consumer) (map fst (rl_producers R3)));
          (es, R4) = notify_producers P eventStr targets consumer R3
      in (es, eventStr, R4))"

definition unsubscribe :: "string \<Rightarrow> string \<Rightarrow> realm_state \<Rightarrow> realm_state" where
  "unsubscribe sock data R =
     (case jget (rl_subscriptions R) data of
        None \<Rightarrow> R
      | Some subs \<Rightarrow> (case jget subs sock of
          None \<Rightarrow> R
        | Some _ \<Rightarrow> R\<lparr>rl_subscriptions := jset data (jdel sock subs) (rl_subscriptions R)\<rparr>))"

section \<open>Disconnection\<close>

definition disc_message :: "string \<Rightarrow> string \<Rightarrow> string \<Rightarrow> jsval" where
  "disc_message sock k name = JObj [(''event'', JStr ''DISCONNECT''), (''socket'', JStr sock), (k, JStr name)]"

definition disconnect_producer :: "protocol \<Rightarrow> int \<Rightarrow> string \<Rightarrow> realm_state \<Rightarrow> sock_effect list \<times> realm_state" where
  "disconnect_producer P now sock R =
     (case find (\<lambda>(n, m). pm_socket m = Some sock) (rl_producers R) of
        None \<Rightarrow> ([], R)
      | Some (n, m) \<Rightarrow>
          (concat (map (\<lambda>c. let cm = getConsumerMetaInfo c R
                            in send_opt (cm_socket cm) (toOnDisconnectEvent P (cm_id cm)) (disc_message sock ''producer'' n)) (pm_subscribers m)),
           putProducer n (m\<lparr>pm_online := Some False, pm_socket := None, pm_offline_at := Some now\<rparr>) R))"

definition disconnect_consumer :: "protocol \<Rightarrow> int \<Rightarrow> string \<Rightarrow> realm_state \<Rightarrow> sock_effect list \<times> realm_state" where
  "disconnect_consumer P now sock R =
     (case find (\<lambda>(n, m). cm_socket m = Some sock) (rl_consumers R) of
        None \<Rightarrow> ([], R)
      | Some (n, m) \<Rightarrow>
          (concat (map (\<lambda>p. let pm = getProducerMetaInfo p R
                            in send_opt (pm_socket pm) (toOnDisconnectEvent P (pm_id pm)) (disc_message sock ''consumer'' n)) (cm_subscribeTos m)),
           putConsumer n (m\<lparr>cm_online := Some False, cm_socket := None, cm_offline_at := Some now\<rparr>) R))"

definition disconnect :: "protocol \<Rightarrow> int \<Rightarrow> string \<Rightarrow> realm_state \<Rightarrow> sock_effect list \<times> realm_state" where
  "disconnect P now sock R =
     (let (es, R1) = disconnect_producer P now sock R; (es', R2) = disconnect_consumer P now sock R1 in (es @ es', R2))"

section \<open>The idle sweep\<close>

record idle_config =
  ic_enabled :: bool
  ic_ttlMs :: int

definition deleteConsumerFromSubscriptions :: "string \<Rightarrow> realm_state \<Rightarrow> realm_state" where
  "deleteConsumerFromSubscriptions n R = R\<lparr>rl_subscriptions := map (\<lambda>(ev, subs). (ev, jdel n subs)) (rl_subscriptions R)\<rparr>"

text \<open>Subscriptions to a producer go; an event is dropped when none of its subscriptions is left.\<close>

definition drop_producer :: "string \<Rightarrow> subscribers \<Rightarrow> subscribers" where
  "drop_producer p subs = filter (\<lambda>(c, s). p \<notin> set (sb_subscribeTos s)) subs"

definition drop_events :: "(string \<Rightarrow> subscribers \<Rightarrow> subscribers) \<Rightarrow> (string, subscribers) jsmap \<Rightarrow> (string, subscribers) jsmap" where
  "drop_events f m = concat (map (\<lambda>(ev, subs). if f ev subs = [] \<and> subs \<noteq> [] then [] else [(ev, f ev subs)]) m)"

definition deleteProducerFromSubscriptions :: "string \<Rightarrow> realm_state \<Rightarrow> realm_state" where
  "deleteProducerFromSubscriptions p R = R\<lparr>rl_subscriptions := drop_events (\<lambda>ev. drop_producer p) (rl_subscriptions R)\<rparr>"

definition offline_past :: "int \<Rightarrow> string option \<Rightarrow> bool option \<Rightarrow> int option \<Rightarrow> bool" where
  "offline_past cutoff sock online off \<longleftrightarrow> \<not> str_truthy sock \<and> online = Some False
     \<and> (case off of None \<Rightarrow> False | Some t \<Rightarrow> t \<noteq> 0 \<and> t \<le> cutoff)"

definition evictable_consumer :: "int \<Rightarrow> consumer_meta \<Rightarrow> bool" where
  "evictable_consumer cutoff m \<longleftrightarrow> offline_past cutoff (cm_socket m) (cm_online m) (cm_offline_at m) \<and> cm_subscribeTos m = []"

definition evictable_producer :: "int \<Rightarrow> producer_meta \<Rightarrow> bool" where
  "evictable_producer cutoff m \<longleftrightarrow> offline_past cutoff (pm_socket m) (pm_online m) (pm_offline_at m) \<and> pm_subscribers m = []"

definition sweep_consumers :: "int \<Rightarrow> realm_state \<Rightarrow> realm_state" where
  "sweep_consumers cutoff R =
     fold (\<lambda>n R. deleteConsumerFromSubscriptions n (R\<lparr>rl_consumers := jdel n (rl_consumers R)\<rparr>))
       (map fst (filter (\<lambda>(n, m). evictable_consumer cutoff m) (rl_consumers R))) R"

definition sweep_producers :: "int \<Rightarrow> realm_state \<Rightarrow> realm_state" where
  "sweep_producers cutoff R =
     fold (\<lambda>n R. deleteProducerFromSubscriptions n (R\<lparr>rl_producers := jdel n (rl_producers R)\<rparr>))
       (map fst (filter (\<lambda>(n, m). evictable_producer cutoff m) (rl_producers R))) R"

definition sweepIdleRegistrations :: "int \<Rightarrow> idle_config \<Rightarrow> broker \<Rightarrow> broker" where
  "sweepIdleRegistrations now cfg B =
     (if \<not> ic_enabled cfg then B
      else map (\<lambda>(r, R). (r, sweep_producers (now - ic_ttlMs cfg) (sweep_consumers (now - ic_ttlMs cfg) R))) B)"

section \<open>What a subscription leaves behind\<close>

text \<open>A subscription up to the confirmation by its producer.\<close>

definition sub_core :: "subscription \<Rightarrow> subscription" where
  "sub_core s = s\<lparr>sb_acked := False, sb_subscribeToId := None\<rparr>"

lemma sub_core_fields:
  "sub_core s = sub_core s' \<Longrightarrow> sb_name s = sb_name s'" "sub_core s = sub_core s' \<Longrightarrow> sb_group s = sb_group s'"
  "sub_core s = sub_core s' \<Longrightarrow> sb_ack_required s = sb_ack_required s'" "sub_core s = sub_core s' \<Longrightarrow> sb_durable s = sb_durable s'"
  "sub_core s = sub_core s' \<Longrightarrow> sb_consumer_id s = sb_consumer_id s'"
  by (cases s; cases s'; simp add: sub_core_def)+

lemma getEventSubscriptions_put [simp]:
  "getEventSubscriptions ev (putEventSubscriber ev' c s R) =
     (if ev = ev' then jset c s (getEventSubscriptions ev R) else getEventSubscriptions ev R)"
  by (simp add: getEventSubscriptions_def putEventSubscriber_def)

lemma getEventSubscriptions_other [simp]:
  "getEventSubscriptions ev (putProducer n m R) = getEventSubscriptions ev R"
  "getEventSubscriptions ev (putConsumer n' m' R) = getEventSubscriptions ev R"
  "getEventSubscriptions ev (R\<lparr>rl_topicPatterns := tp\<rparr>) = getEventSubscriptions ev R"
  by (simp_all add: getEventSubscriptions_def putProducer_def putConsumer_def)

lemma rl_consumers_put [simp]:
  "rl_consumers (putProducer n m R) = rl_consumers R" "rl_consumers (putEventSubscriber ev c s R) = rl_consumers R"
  "rl_consumers (putConsumer c' m' R) = jset c' m' (rl_consumers R)"
  by (simp_all add: putProducer_def putEventSubscriber_def putConsumer_def)

lemma getConsumerMetaInfo_put [simp]:
  "getConsumerMetaInfo n (putConsumer n' m R) = (if n = n' then m else getConsumerMetaInfo n R)"
  by (simp add: getConsumerMetaInfo_def)

lemma getConsumerMetaInfo_cong: "rl_consumers R = rl_consumers R' \<Longrightarrow> getConsumerMetaInfo n R = getConsumerMetaInfo n R'"
  by (simp add: getConsumerMetaInfo_def)

lemma notify_one_keeps:
  assumes "jget (getEventSubscriptions ev R) c = Some s"
  shows "rl_consumers (snd (sendSubscriptionMessageToProducer P ev p c R)) = rl_consumers R
    \<and> (\<exists>s'. jget (getEventSubscriptions ev (snd (sendSubscriptionMessageToProducer P ev p c R))) c = Some s' \<and> sub_core s' = sub_core s)"
  using assms by (auto simp: sendSubscriptionMessageToProducer_def Let_def sub_core_def getEventSubscriber_def)

lemma notify_producers_keeps:
  assumes "jget (getEventSubscriptions ev R) c = Some s"
  shows "rl_consumers (snd (notify_producers P ev ps c R)) = rl_consumers R
    \<and> (\<exists>s'. jget (getEventSubscriptions ev (snd (notify_producers P ev ps c R))) c = Some s' \<and> sub_core s' = sub_core s)"
  using assms
proof (induction ps arbitrary: R s)
  case (Cons p ps)
  obtain s1 where s1: "rl_consumers (snd (sendSubscriptionMessageToProducer P ev p c R)) = rl_consumers R"
      "jget (getEventSubscriptions ev (snd (sendSubscriptionMessageToProducer P ev p c R))) c = Some s1" "sub_core s1 = sub_core s"
    using notify_one_keeps [OF Cons.prems, of P p] by blast
  from Cons.IH [OF s1(2)] s1 show ?case by (auto simp: Let_def split_beta)
qed auto

text \<open>After \<open>subscribeMessage\<close> the subscription is filed as asked and its consumer is reachable.\<close>

lemma subscribeMessage_files:
  assumes sub: "subscribeMessage P t sock event producer consumer cid scope opts R = (es, ev, R')"
    and free: "str_truthy (cm_socket (getConsumerMetaInfo consumer R)) \<longrightarrow> cm_socket (getConsumerMetaInfo consumer R) = Some sock"
  shows "ev = toConsumerEvent P event producer (Some (scope \<noteq> SCOPE_ALL P))
    \<and> (\<exists>s. jget (getEventSubscriptions ev R') consumer = Some s \<and> sb_name s = consumer
         \<and> sb_group s = (if str_truthy (so_group opts) then so_group opts else None)
         \<and> sb_ack_required s = so_ack opts \<and> sb_durable s = so_durable opts)
    \<and> cm_socket (getConsumerMetaInfo consumer R') = Some sock
    \<and> producer \<in> set (cm_subscribeTos (getConsumerMetaInfo consumer R'))"
proof -
  define cm0 where "cm0 = getConsumerMetaInfo consumer R"
  define R1 where "R1 = (if str_truthy (cm_socket cm0) then putConsumer consumer cm0 R else setupConsumer sock consumer cid R)"
  define cm where "cm = getConsumerMetaInfo consumer R1"
  define eventStr where "eventStr = toConsumerEvent P event producer (Some (scope \<noteq> SCOPE_ALL P))"
  define s where "s = subscription_of t cm consumer opts (getEventSubscriber eventStr consumer R1)"
  define R2 where "R2 = (if sb_topic_mode s then R1\<lparr>rl_topicPatterns := jset eventStr (to_lower event) (rl_topicPatterns R1)\<rparr> else R1)"
  define s' where "s' = (if producer \<in> set (cm_subscribeTos cm) then s else s\<lparr>sb_subscribeTos := set_add producer (sb_subscribeTos s)\<rparr>)"
  define R3 where "R3 = putConsumer consumer (cm\<lparr>cm_subscribeTos := set_add producer (cm_subscribeTos cm)\<rparr>) (putEventSubscriber eventStr consumer s' R2)"
  define ps where "ps = (if producer \<noteq> ALL_PUBLISHERS P then [producer] else filter (\<lambda>n. n \<noteq> consumer) (map fst (rl_producers R3)))"
  have eq: "ev = eventStr" "R' = snd (notify_producers P eventStr ps consumer R3)"
    using sub unfolding subscribeMessage_def Let_def
      cm0_def [symmetric] eventStr_def [symmetric] R1_def [symmetric] cm_def [symmetric] s_def [symmetric] R2_def [symmetric]
      s'_def [symmetric] R3_def [symmetric] ps_def [symmetric]
    by (auto simp: split_beta)
  have sock: "cm_socket cm = Some sock"
  proof (cases "str_truthy (cm_socket cm0)")
    case True
    with free have "cm_socket cm0 = Some sock" by (simp add: cm0_def)
    with True show ?thesis by (simp add: cm_def R1_def)
  qed (simp add: cm_def R1_def setupConsumer_def Let_def)
  have s': "sb_name s' = consumer \<and> sb_group s' = (if str_truthy (so_group opts) then so_group opts else None)
      \<and> sb_ack_required s' = so_ack opts \<and> sb_durable s' = so_durable opts"
    by (simp add: s'_def s_def subscription_of_def)
  have filed: "jget (getEventSubscriptions eventStr R3) consumer = Some s'"
    by (simp add: R3_def)
  have cm3: "getConsumerMetaInfo consumer R3 = cm\<lparr>cm_subscribeTos := set_add producer (cm_subscribeTos cm)\<rparr>"
    by (simp add: R3_def)
  obtain s2 where s2: "rl_consumers R' = rl_consumers R3" "jget (getEventSubscriptions eventStr R') consumer = Some s2" "sub_core s2 = sub_core s'"
    using notify_producers_keeps [OF filed, of P ps] by (auto simp: eq)
  from getConsumerMetaInfo_cong [OF s2(1), of consumer] cm3 sock
  have "cm_socket (getConsumerMetaInfo consumer R') = Some sock" "producer \<in> set (cm_subscribeTos (getConsumerMetaInfo consumer R'))"
    by (auto simp: set_add_def)
  moreover have "sb_name s2 = consumer \<and> sb_group s2 = (if str_truthy (so_group opts) then so_group opts else None)
      \<and> sb_ack_required s2 = so_ack opts \<and> sb_durable s2 = so_durable opts"
    using s' sub_core_fields [OF s2(3)] by simp
  ultimately show ?thesis using eq(1) s2(2) by (auto simp: eventStr_def)
qed

end
