(* ===== verification/Router.thy ===== *)
theory Router
  imports Broker_State
begin

text \<open>
  Routing of a produced message (\<open>lib/server.js\<close>): the subscriptions an event reaches, load
  balancing within a consumer group, broadcasts, and \<open>routeProducedMessage\<close>, the entry point that
  sockets and the HTTP endpoint share. What the code sends or hands to the store is a list of
  deliveries in the order of the calls; a TypeError raised in the middle is the flag that comes with
  it. The store requests among them are carried out in \<open>Delivery\<close>.
\<close>

section \<open>Topic patterns\<close>

fun topic_loop :: "string list \<Rightarrow> string list \<Rightarrow> bool" where
  "topic_loop [] t = (t = [])"
| "topic_loop (p # ps) t =
     (if p = ''#'' then ps = []
      else case t of
        [] \<Rightarrow> False
      | s # ss \<Rightarrow> if p \<noteq> ''+'' \<and> p \<noteq> s then False else topic_loop ps ss)"

definition topicMatches :: "string \<Rightarrow> string \<Rightarrow> bool" where
  "topicMatches pattern topic =
     (pattern = topic \<or> topic_loop (split_on CHR ''/'' pattern) (split_on CHR ''/'' topic))"

section \<open>Deliveries\<close>

record produce_options =
  po_ttl :: jsval
  po_guaranteed :: bool
  po_enc :: jsval
  po_to :: jsval
  po_contentType :: jsval
  po_wake :: jsval
  po_relay :: bool

record store_request =
  sr_realm :: string
  sr_event :: string
  sr_message :: jsval
  sr_producer :: jsval
  sr_subscription :: subscription
  sr_consumer :: string
  sr_ttl :: jsval
  sr_wake :: jsval

text \<open>
  \<open>Consume\<close> is \<open>sendConsumeMessage\<close>, \<open>Raw\<close> a \<open>server.send\<close>, \<open>Volatile\<close> a \<open>server.volatile\<close>;
  \<open>Reliable\<close> stores and then delivers with an acknowledgement, \<open>Queue\<close> stores for an offline
  consumer and then wakes it; the last three are the copy for event streams, its history row and
  the message to the other nodes of a cluster.
\<close>

datatype delivery =
    Consume string string string jsval
  | Raw string string jsval
  | Volatile string string jsval
  | Reliable store_request
  | Queue store_request
  | SseFrame string string jsval string
  | SseHistory string string jsval string jsval
  | Relay jsval

definition optional_member :: "string \<Rightarrow> jsval \<Rightarrow> (string \<times> jsval) list" where
  "optional_member k v = (if truthy v then [(k, v)] else [])"

definition message_object :: "string \<Rightarrow> jsval \<Rightarrow> jsval \<Rightarrow> produce_options \<Rightarrow> jsval" where
  "message_object event msg producer opts =
     JObj ([(''event'', JStr event), (''message'', msg), (''from'', producer)]
       @ optional_member ''enc'' (po_enc opts) @ optional_member ''to'' (po_to opts)
       @ optional_member ''content_type'' (po_contentType opts))"

definition stores :: "subscription \<Rightarrow> produce_options \<Rightarrow> bool" where
  "stores s opts \<longleftrightarrow> sb_durable s \<or> po_guaranteed opts"

definition request_of :: "string \<Rightarrow> string \<Rightarrow> jsval \<Rightarrow> jsval \<Rightarrow> subscription \<Rightarrow> produce_options \<Rightarrow> store_request" where
  "request_of realm ev msg producer s opts =
     \<lparr>sr_realm = realm, sr_event = ev, sr_message = msg, sr_producer = producer, sr_subscription = s,
      sr_consumer = str_or (Some (sb_consumer_id s)) (sb_name s), sr_ttl = po_ttl opts, sr_wake = po_wake opts\<rparr>"

text \<open>None: \<open>enqueueAndDeliverReliable\<close> calls \<open>then\<close> on the undefined that \<open>enqueueDurableMessage\<close> returned.\<close>

definition deliverToSubscription ::
  "string \<Rightarrow> string \<Rightarrow> jsval \<Rightarrow> jsval \<Rightarrow> subscription \<Rightarrow> consumer_meta \<Rightarrow> produce_options \<Rightarrow> delivery list option" where
  "deliverToSubscription realm ev msg producer s cm opts =
     (case (if str_truthy (cm_socket cm) then cm_socket cm else None) of
        Some sock \<Rightarrow>
          if sb_ack_required s
          then (if stores s opts then Some [Reliable (request_of realm ev msg producer s opts)] else None)
          else Some [Consume realm sock ev msg]
      | None \<Rightarrow> Some (if stores s opts then [Queue (request_of realm ev msg producer s opts)] else []))"

section \<open>Subscriptions an event reaches\<close>

record hit =
  h_realm :: string
  h_event :: string
  h_sub :: subscription
  h_meta :: consumer_meta

definition event_hits :: "protocol \<Rightarrow> string \<Rightarrow> realm_state \<Rightarrow> string \<Rightarrow> hit list" where
  "event_hits P realm R ev =
     map (\<lambda>(c, s). \<lparr>h_realm = realm, h_event = ev, h_sub = s, h_meta = getConsumerMetaInfo (anon_name P (sb_name s)) R\<rparr>) (getEventSubscriptions ev R)"

definition subscribed_to :: "protocol \<Rightarrow> string \<Rightarrow> hit \<Rightarrow> bool" where
  "subscribed_to P producer h \<longleftrightarrow> list_ex (\<lambda>n. n = ALL_PUBLISHERS P \<or> n = producer) (cm_subscribeTos (h_meta h))"

definition routing_events :: "protocol \<Rightarrow> string \<Rightarrow> string \<Rightarrow> string list" where
  "routing_events P event producer =
     [toConsumerEvent P event producer None, toConsumerEventAll P producer, toConsumerEvent P event (ALL_PUBLISHERS P) None]"

definition realm_hits :: "protocol \<Rightarrow> string \<Rightarrow> string \<Rightarrow> string \<Rightarrow> realm_state \<Rightarrow> hit list" where
  "realm_hits P event producer realm R =
     (let evs = routing_events P event producer in
      concat (map (\<lambda>ev. filter (subscribed_to P producer) (event_hits P realm R ev)) evs)
      @ concat (map (\<lambda>(ev, pat). if ev \<in> set evs \<or> \<not> topicMatches pat (to_lower event) then [] else event_hits P realm R ev)
          (rl_topicPatterns R)))"

definition target_realms :: "string \<Rightarrow> broker \<Rightarrow> string list" where
  "target_realms realm B = realm # (if realm \<noteq> REALM_ALL \<and> jget B REALM_ALL \<noteq> None then [REALM_ALL] else [])"

definition message_hits :: "protocol \<Rightarrow> string \<Rightarrow> string \<Rightarrow> string \<Rightarrow> broker \<Rightarrow> hit list" where
  "message_hits P event producer realm B =
     concat (map (\<lambda>r. realm_hits P event producer r (getRealm r B)) (target_realms realm B))"

section \<open>Dispatch\<close>

record bucket_state =
  bk_realm :: string
  bk_group :: string
  bk_members :: "hit list"

definition bucket_key :: "string \<Rightarrow> string \<Rightarrow> string" where
  "bucket_key realm grp = realm @ CHR 0x0A # grp"

definition add_member :: "string \<Rightarrow> hit \<Rightarrow> (string, bucket_state) jsmap \<Rightarrow> (string, bucket_state) jsmap" where
  "add_member grp h bs =
     (let k = bucket_key (h_realm h) grp;
          b = (case jget bs k of None \<Rightarrow> \<lparr>bk_realm = h_realm h, bk_group = grp, bk_members = []\<rparr> | Some b \<Rightarrow> b)
      in jset k (b\<lparr>bk_members := bk_members b @ [h]\<rparr>) bs)"

fun dispatch_all ::
  "jsval \<Rightarrow> jsval \<Rightarrow> produce_options \<Rightarrow> hit list \<Rightarrow> (string, bucket_state) jsmap \<Rightarrow> delivery list \<times> bool \<times> (string, bucket_state) jsmap" where
  "dispatch_all msg producer opts [] bs = ([], False, bs)"
| "dispatch_all msg producer opts (h # hs) bs =
     (if str_truthy (sb_group (h_sub h))
      then dispatch_all msg producer opts hs
        (if po_relay opts then bs else add_member (the (sb_group (h_sub h))) h bs)
      else if po_relay opts \<and> \<not> str_truthy (cm_socket (h_meta h)) then dispatch_all msg producer opts hs bs
      else case deliverToSubscription (h_realm h) (h_event h) msg producer (h_sub h) (h_meta h) opts of
        None \<Rightarrow> ([], True, bs)
      | Some ds \<Rightarrow> let (ds', raised, bs') = dispatch_all msg producer opts hs bs in (ds @ ds', raised, bs'))"

definition candidates :: "hit list \<Rightarrow> hit list" where
  "candidates ms = (let online = filter (\<lambda>h. str_truthy (cm_socket (h_meta h))) ms in if online \<noteq> [] then online else ms)"

definition group_counter :: "string \<Rightarrow> realm_state \<Rightarrow> nat" where
  "group_counter g R = (case jget (rl_groupCounters R) g of None \<Rightarrow> 0 | Some n \<Rightarrow> n)"

definition group_target :: "bucket_state \<Rightarrow> broker \<Rightarrow> hit" where
  "group_target b B =
     (let cs = candidates (bk_members b) in cs ! (group_counter (bk_group b) (getRealm (bk_realm b) B) mod length cs))"

definition count_group :: "bucket_state \<Rightarrow> broker \<Rightarrow> broker" where
  "count_group b B =
     (let R = getRealm (bk_realm b) B
      in putRealm (bk_realm b) (R\<lparr>rl_groupCounters := jset (bk_group b) (group_counter (bk_group b) R + 1) (rl_groupCounters R)\<rparr>) B)"

fun deliver_groups ::
  "jsval \<Rightarrow> jsval \<Rightarrow> produce_options \<Rightarrow> bucket_state list \<Rightarrow> broker \<Rightarrow> delivery list \<times> bool \<times> broker" where
  "deliver_groups msg producer opts [] B = ([], False, B)"
| "deliver_groups msg producer opts (b # bs) B =
     (let h = group_target b B; B' = count_group b B in
      case deliverToSubscription (bk_realm b) (h_event h) msg producer (h_sub h) (h_meta h) opts of
        None \<Rightarrow> ([], True, B')
      | Some ds \<Rightarrow> let (ds', raised, B'') = deliver_groups msg producer opts bs B' in (ds @ ds', raised, B''))"

definition generateMessage ::
  "protocol \<Rightarrow> string \<Rightarrow> string \<Rightarrow> jsval \<Rightarrow> string \<Rightarrow> produce_options \<Rightarrow> broker \<Rightarrow> delivery list \<times> bool \<times> broker" where
  "generateMessage P realm event payload producer0 opts B =
     (let producer = (if producer0 = [] then ANONYMOUS P else producer0);
          msg = message_object event payload (JStr producer) opts;
          (ds, raised, bs) = dispatch_all msg (JStr producer) opts (message_hits P event producer realm B) []
      in if raised then (ds, True, B)
         else let (ds', raised', B') = deliver_groups msg (JStr producer) opts (map snd bs) B in (ds @ ds', raised', B'))"

section \<open>Broadcasts\<close>

definition getRealmSocketIds :: "realm_state \<Rightarrow> string list" where
  "getRealmSocketIds R =
     fold set_add (concat (map (\<lambda>(n, m). case pm_socket m of None \<Rightarrow> [] | Some s \<Rightarrow> if s = [] then [] else [s]) (rl_producers R))
       @ concat (map (\<lambda>(n, m). case cm_socket m of None \<Rightarrow> [] | Some s \<Rightarrow> if s = [] then [] else [s]) (rl_consumers R))) []"

definition broadcastConsumeMessage ::
  "protocol \<Rightarrow> string \<Rightarrow> jsval \<Rightarrow> string \<Rightarrow> produce_options \<Rightarrow> realm_state \<Rightarrow> delivery list" where
  "broadcastConsumeMessage P event payload producer opts R =
     (let msg = message_object event payload (JStr producer) opts;
          ids = getRealmSocketIds R;
          specific = toConsumeEvent P (toConsumerEvent P event producer None);
          anyProducer = toConsumeEvent P (toConsumerEvent P event (ALL_PUBLISHERS P) None);
          allFrom = toConsumeEvent P (toConsumerEventAll P producer)
      in map (\<lambda>s. Volatile s (toConsumeEventAll P producer) msg) ids
         @ map (\<lambda>s. Raw s (toConsumeEvent P event) msg) ids
         @ concat (map (\<lambda>s. [Raw s specific msg, Raw s anyProducer msg, Raw s allFrom msg]) ids))"

fun group_copies ::
  "protocol \<Rightarrow> string \<Rightarrow> jsval \<Rightarrow> string option \<Rightarrow> realm_state \<Rightarrow> (string \<times> subscription) list \<Rightarrow> string list \<Rightarrow> delivery list" where
  "group_copies P realm msg grp R [] seen = []"
| "group_copies P realm msg grp R ((ev, s) # rest) seen =
     (if grp = None \<or> sb_group s \<noteq> grp \<or> sb_name s \<in> set seen then group_copies P realm msg grp R rest seen
      else case cm_socket (getConsumerMetaInfo (anon_name P (sb_name s)) R) of
        None \<Rightarrow> group_copies P realm msg grp R rest seen
      | Some sock \<Rightarrow> if sock = [] then group_copies P realm msg grp R rest seen
          else Consume realm sock ev msg # group_copies P realm msg grp R rest (sb_name s # seen))"

definition broadcastToGroup ::
  "protocol \<Rightarrow> string \<Rightarrow> string \<Rightarrow> jsval \<Rightarrow> string \<Rightarrow> string option \<Rightarrow> produce_options \<Rightarrow> realm_state \<Rightarrow> delivery list" where
  "broadcastToGroup P realm event payload producer grp opts R =
     group_copies P realm (message_object event payload (JStr producer) opts) grp R
       (concat (map (\<lambda>(ev, subs). map (\<lambda>(c, s). (ev, s)) subs) (rl_subscriptions R))) []"

section \<open>The entry point\<close>

definition getMessageTtl :: "jsval \<Rightarrow> jsval" where
  "getMessageTtl m =
     (if obj_get m ''ttl'' \<noteq> JUndef then obj_get m ''ttl''
      else if obj_get m ''lifespan'' \<noteq> JUndef \<and> obj_get m ''lifespan'' \<noteq> JNum (Fin (-1)) then obj_get m ''lifespan''
      else JUndef)"

definition isGuaranteedMessage :: "jsval \<Rightarrow> bool" where
  "isGuaranteedMessage m \<longleftrightarrow>
     truthy (obj_get m ''guaranteed'') \<or> truthy (obj_get m ''guaranteed_delivery'') \<or> truthy (obj_get m ''guaranteedDelivery'')
     \<or> truthy (obj_get m ''durable'') \<or> obj_get m ''delivery'' = JStr ''guaranteed'' \<or> obj_get m ''delivery_mode'' = JStr ''guaranteed''"

definition buildSseFrame :: "string \<Rightarrow> jsval \<Rightarrow> jsval \<Rightarrow> produce_options \<Rightarrow> jsval" where
  "buildSseFrame event payload producer opts =
     JObj ([(''event'', JStr event), (''data'', payload), (''producer'', producer)]
       @ optional_member ''enc'' (po_enc opts) @ optional_member ''to'' (po_to opts)
       @ optional_member ''content_type'' (po_contentType opts))"

text \<open>A produced message; \<open>pr_body\<close> is the whole object the client sent. Its event and producer are strings.\<close>

record produced =
  pr_from :: string
  pr_event :: string
  pr_body :: jsval

definition pr_options :: "produced \<Rightarrow> jsval \<Rightarrow> bool \<Rightarrow> produce_options" where
  "pr_options m ttl guaranteed =
     (let b = pr_body m in
      \<lparr>po_ttl = ttl, po_guaranteed = guaranteed, po_enc = obj_get b ''enc'', po_to = obj_get b ''to'',
       po_contentType = obj_get b ''contentType'', po_wake = obj_get b ''wake'', po_relay = False\<rparr>)"

definition relay_payload :: "string \<Rightarrow> produced \<Rightarrow> jsval \<Rightarrow> bool \<Rightarrow> jsval" where
  "relay_payload realm m ttl guaranteed =
     (let b = pr_body m; or_null = (\<lambda>k. js_or (obj_get b k) JNull) in
      JObj [(''realm'', JStr realm), (''event'', JStr (pr_event m)), (''message'', obj_get b ''message''),
        (''producer'', JStr (pr_from m)), (''ttl'', ttl), (''guaranteed'', JBool guaranteed), (''wake'', obj_get b ''wake''),
        (''enc'', or_null ''enc''), (''to'', or_null ''to''), (''contentType'', or_null ''contentType''),
        (''method'', if obj_get b ''method'' = JStr ''broadcast'' then JStr ''broadcast'' else JNull),
        (''broadcast'', or_null ''broadcast''), (''group'', or_null ''group'')])"

datatype route_result = Routed string | RouteRefused int | RouteRaised

text \<open>
  \<open>routeProducedMessage\<close>. \<open>sock\<close> is the socket that registers an unknown producer (absent for HTTP),
  \<open>gen\<close> the generated delivery id, \<open>http\<close> whether the HTTP surface keeps a history.
\<close>

definition routeProducedMessage ::
  "protocol \<Rightarrow> auth_settings \<Rightarrow> bool \<Rightarrow> bool \<Rightarrow> string \<Rightarrow> string \<Rightarrow> produced \<Rightarrow> string option \<Rightarrow> broker
     \<Rightarrow> route_result \<times> delivery list \<times> broker" where
  "routeProducedMessage P A http clustered gen realm m sock B =
     (let b = pr_body m; payload = obj_get b ''message'' in
      if getRealmE2eePolicy A realm = E2eeRequired \<and> \<not> truthy (obj_get b ''enc'') then (RouteRefused (-6), [], B)
      else
       let guaranteed = isGuaranteedMessage b;
           R0 = getRealm realm B;
           name = anon_name P (pr_from m);
           pm = getProducerMetaInfo name R0;
           ttl = (if getMessageTtl b = JUndef then pm_default_ttl pm else getMessageTtl b);
           R1 = putProducer name pm R0;
           R2 = (case sock of
                   Some s \<Rightarrow> if str_truthy (pm_socket pm) then R1 else setupProducer s name (opt_string (obj_get b ''id'')) R1
                 | None \<Rightarrow> R1);
           B1 = putRealm realm R2 B;
           opts = pr_options m ttl guaranteed;
           (ds, raised, B2) =
             (if obj_get b ''method'' = JStr ''broadcast''
              then (if obj_get b ''broadcast'' = JStr ''group'' \<and> truthy (obj_get b ''group'')
                    then broadcastToGroup P realm (pr_event m) payload (pr_from m) (opt_string (obj_get b ''group'')) opts R2
                    else broadcastConsumeMessage P (pr_event m) payload (pr_from m) opts R2, False, B1)
              else generateMessage P realm (pr_event m) payload (pr_from m) opts B1);
           did = str_or (opt_string (obj_get b ''id'')) gen;
           frame = buildSseFrame (pr_event m) payload (JStr (pr_from m)) opts
       in if raised then (RouteRaised, ds, B2)
          else (Routed did,
                ds @ [SseFrame realm (pr_event m) frame did]
                @ (if guaranteed \<and> http then [SseHistory realm (pr_event m) frame did ttl] else [])
                @ (if clustered then [Relay (relay_payload realm m ttl guaranteed)] else []),
                B2))"


text \<open>\<open>handleRelayedMessage\<close>: a message another node of the cluster produced.\<close>

definition relayed_options :: "jsval \<Rightarrow> produce_options" where
  "relayed_options b =
     \<lparr>po_ttl = obj_get b ''ttl'', po_guaranteed = truthy (obj_get b ''guaranteed''), po_enc = obj_get b ''enc'',
      po_to = obj_get b ''to'', po_contentType = JUndef, po_wake = obj_get b ''wake'', po_relay = True\<rparr>"

definition handleRelayedMessage ::
  "protocol \<Rightarrow> string \<Rightarrow> jsval \<Rightarrow> broker \<Rightarrow> delivery list \<times> bool \<times> broker" where
  "handleRelayedMessage P gen b B =
     (case (obj_get b ''realm'', obj_get b ''event'') of
        (JStr realm, JStr event) \<Rightarrow>
          if realm = [] then ([], False, B)
          else let producer = str_or (opt_string (obj_get b ''producer'')) []; payload = obj_get b ''message''; opts = relayed_options b;
                   frame = SseFrame realm event (buildSseFrame event payload (obj_get b ''producer'') (opts\<lparr>po_contentType := obj_get b ''contentType''\<rparr>)) gen;
                   R = getRealm realm B
               in if obj_get b ''method'' = JStr ''broadcast''
                  then (frame # (if obj_get b ''broadcast'' = JStr ''group'' \<and> truthy (obj_get b ''group'')
                          then broadcastToGroup P realm event payload producer (opt_string (obj_get b ''group'')) opts R
                          else broadcastConsumeMessage P event payload producer opts R), False, B)
                  else let (ds, raised, B') = generateMessage P realm event payload producer opts B in (frame # ds, raised, B')
      | _ \<Rightarrow> ([], False, B))"

section \<open>Topic patterns: the reference\<close>

text \<open>
  The documented meaning: \<open>+\<close> stands for exactly one level, \<open>#\<close> as the last level for any number of
  levels, none included, and every other level for itself.
\<close>

definition level_matches :: "string \<Rightarrow> string \<Rightarrow> bool" where
  "level_matches p s \<longleftrightarrow> p = ''+'' \<or> p = s"

definition mqtt_matches :: "string list \<Rightarrow> string list \<Rightarrow> bool" where
  "mqtt_matches p t \<longleftrightarrow>
     (''#'' \<notin> set p \<and> list_all2 level_matches p t)
     \<or> (\<exists>q t1 t2. p = q @ [''#''] \<and> ''#'' \<notin> set q \<and> t = t1 @ t2 \<and> list_all2 level_matches q t1)"

lemma mqtt_matches_Nil: "mqtt_matches [] t \<longleftrightarrow> t = []"
  by (auto simp: mqtt_matches_def)

lemma mqtt_matches_hash: "mqtt_matches (''#'' # ps) t \<longleftrightarrow> ps = []"
  by (auto simp: mqtt_matches_def Cons_eq_append_conv)

lemma mqtt_matches_Cons:
  assumes "p \<noteq> ''#''"
  shows "mqtt_matches (p # ps) t \<longleftrightarrow> (\<exists>s ss. t = s # ss \<and> level_matches p s \<and> mqtt_matches ps ss)"
proof
  assume "mqtt_matches (p # ps) t"
  then consider "''#'' \<notin> set ps" "list_all2 level_matches (p # ps) t"
    | q t1 t2 where "p # ps = q @ [''#'']" "''#'' \<notin> set q" "t = t1 @ t2" "list_all2 level_matches q t1"
    by (auto simp: mqtt_matches_def)
  then show "\<exists>s ss. t = s # ss \<and> level_matches p s \<and> mqtt_matches ps ss"
  proof cases
    case 1
    then show ?thesis by (auto simp: list_all2_Cons1 mqtt_matches_def)
  next
    case 2
    with assms obtain q' where q: "q = p # q'" "ps = q' @ [''#'']" by (cases q) auto
    with 2 obtain s ss where "t1 = s # ss" "level_matches p s" "list_all2 level_matches q' ss"
      by (auto simp: list_all2_Cons1)
    moreover have "mqtt_matches ps (ss @ t2)" using q 2 \<open>list_all2 level_matches q' ss\<close>
      by (auto simp: mqtt_matches_def)
    ultimately show ?thesis using 2 by simp
  qed
next
  assume "\<exists>s ss. t = s # ss \<and> level_matches p s \<and> mqtt_matches ps ss"
  then obtain s ss where t: "t = s # ss" "level_matches p s" and m: "mqtt_matches ps ss" by auto
  from m consider "''#'' \<notin> set ps" "list_all2 level_matches ps ss"
    | q t1 t2 where "ps = q @ [''#'']" "''#'' \<notin> set q" "ss = t1 @ t2" "list_all2 level_matches q t1"
    by (auto simp: mqtt_matches_def)
  then show "mqtt_matches (p # ps) t"
  proof cases
    case 1
    with t assms show ?thesis by (simp add: mqtt_matches_def)
  next
    case 2
    have "p # ps = (p # q) @ [''#'']" "''#'' \<notin> set (p # q)" "t = (s # t1) @ t2" "list_all2 level_matches (p # q) (s # t1)"
      using 2 t assms by auto
    then show ?thesis unfolding mqtt_matches_def by blast
  qed
qed

lemma topic_loop_mqtt: "topic_loop p t \<longleftrightarrow> mqtt_matches p t"
proof (induction p t rule: topic_loop.induct)
  case (2 p ps t)
  show ?case
  proof (cases "p = ''#''")
    case False
    with 2 show ?thesis
      by (cases t) (auto simp: mqtt_matches_Cons level_matches_def)
  qed (simp add: mqtt_matches_hash)
qed (simp add: mqtt_matches_Nil)

text \<open>
  C33. The loop that matches a topic pattern decides exactly the documented relation on the levels of
  the pattern and of the topic; a pattern that is literally the topic always matches.
\<close>

theorem topicMatches_spec:
  "topicMatches pattern topic \<longleftrightarrow>
     pattern = topic \<or> mqtt_matches (split_on CHR ''/'' pattern) (split_on CHR ''/'' topic)"
  by (simp add: topicMatches_def topic_loop_mqtt)

section \<open>Consumer groups\<close>

lemma getRealm_putRealm [simp]:
  "getRealm r (putRealm r' R B) = (if (if r = [] then DEFAULT_REALM else r) = (if r' = [] then DEFAULT_REALM else r') then R else getRealm r B)"
  by (simp add: getRealm_def putRealm_def)

lemma group_counter_count [simp]:
  "group_counter (bk_group b) (getRealm (bk_realm b) (count_group b B)) = Suc (group_counter (bk_group b) (getRealm (bk_realm b) B))"
  by (simp add: count_group_def group_counter_def Let_def)

text \<open>The members that \<open>n\<close> messages in a row reach while the group stays as it is.\<close>

fun group_targets :: "bucket_state \<Rightarrow> nat \<Rightarrow> broker \<Rightarrow> hit list" where
  "group_targets b 0 B = []"
| "group_targets b (Suc n) B = group_target b B # group_targets b n (count_group b B)"

lemma group_targets_nth:
  "i < n \<Longrightarrow> group_targets b n B ! i =
     candidates (bk_members b) ! ((group_counter (bk_group b) (getRealm (bk_realm b) B) + i) mod length (candidates (bk_members b)))"
proof (induction n arbitrary: i B)
  case (Suc n)
  then show ?case by (cases i) (auto simp: group_target_def Let_def)
qed simp

lemma group_targets_length [simp]: "length (group_targets b n B) = n"
  by (induction n arbitrary: B) auto

lemma candidates_nonempty: "ms \<noteq> [] \<Longrightarrow> candidates ms \<noteq> []"
  by (auto simp: candidates_def Let_def)

text \<open>
  Load balancing in a consumer group is fair: while the group stays as it is, as many messages
  as it has members that can be chosen reach each of them exactly once, in turn, starting after the
  one the previous message reached; members that are offline are passed over while one is online.
\<close>

theorem group_round_robin:
  "group_targets b (length (candidates (bk_members b))) B
     = rotate (group_counter (bk_group b) (getRealm (bk_realm b) B)) (candidates (bk_members b))
   \<and> (\<forall>h \<in> set (candidates (bk_members b)).
        str_truthy (cm_socket (h_meta h)) \<or> (\<forall>h' \<in> set (bk_members b). \<not> str_truthy (cm_socket (h_meta h'))))"
proof
  show "group_targets b (length (candidates (bk_members b))) B
     = rotate (group_counter (bk_group b) (getRealm (bk_realm b) B)) (candidates (bk_members b))"
    by (rule nth_equalityI) (simp_all add: group_targets_nth nth_rotate)
  show "\<forall>h \<in> set (candidates (bk_members b)).
      str_truthy (cm_socket (h_meta h)) \<or> (\<forall>h' \<in> set (bk_members b). \<not> str_truthy (cm_socket (h_meta h')))"
    by (auto simp: candidates_def Let_def filter_empty_conv)
qed

section \<open>Who receives a message\<close>

text \<open>A subscription the message is meant for, in the realm of the producer or in the realm for all.\<close>

definition eligible :: "protocol \<Rightarrow> string \<Rightarrow> string \<Rightarrow> string \<Rightarrow> broker \<Rightarrow> hit \<Rightarrow> bool" where
  "eligible P event producer realm B h \<longleftrightarrow>
     h_realm h \<in> {realm, REALM_ALL}
     \<and> (\<exists>c. (c, h_sub h) \<in> set (getEventSubscriptions (h_event h) (getRealm (h_realm h) B)))
     \<and> h_meta h = getConsumerMetaInfo (anon_name P (sb_name (h_sub h))) (getRealm (h_realm h) B)
     \<and> (h_event h \<in> set (routing_events P event producer)
          \<and> (ALL_PUBLISHERS P \<in> set (cm_subscribeTos (h_meta h)) \<or> producer \<in> set (cm_subscribeTos (h_meta h)))
        \<or> (\<exists>pat. (h_event h, pat) \<in> set (rl_topicPatterns (getRealm (h_realm h) B)) \<and> topicMatches pat (to_lower event)))"

fun delivered_to :: "delivery \<Rightarrow> hit \<Rightarrow> bool" where
  "delivered_to (Consume r sock ev m) h = (cm_socket (h_meta h) = Some sock \<and> ev = h_event h)"
| "delivered_to (Reliable q) h = (sr_subscription q = h_sub h \<and> sr_event q = h_event h)"
| "delivered_to (Queue q) h = (sr_subscription q = h_sub h \<and> sr_event q = h_event h \<and> \<not> str_truthy (cm_socket (h_meta h)))"
| "delivered_to _ h = False"

lemma event_hits_in:
  "h \<in> set (event_hits P r R ev) \<longleftrightarrow> h_realm h = r \<and> h_event h = ev \<and> (\<exists>c. (c, h_sub h) \<in> set (getEventSubscriptions ev R))
     \<and> h_meta h = getConsumerMetaInfo (anon_name P (sb_name (h_sub h))) R"
  by (cases h) (force simp: event_hits_def)

lemma realm_hits_in:
  "h \<in> set (realm_hits P event producer r R) \<longleftrightarrow>
     (\<exists>ev. h \<in> set (event_hits P r R ev)
        \<and> (ev \<in> set (routing_events P event producer) \<and> subscribed_to P producer h
           \<or> ev \<notin> set (routing_events P event producer)
             \<and> (\<exists>pat. (ev, pat) \<in> set (rl_topicPatterns R) \<and> topicMatches pat (to_lower event))))"
  unfolding realm_hits_def Let_def set_append set_concat set_map Un_iff UN_iff image_iff
  by (fastforce split: if_splits)

lemma message_hits_eligible:
  assumes "h \<in> set (message_hits P event producer realm B)"
  shows "eligible P event producer realm B h"
proof -
  from assms obtain r where r: "r \<in> set (target_realms realm B)" "h \<in> set (realm_hits P event producer r (getRealm r B))"
    by (auto simp: message_hits_def)
  then have "r \<in> {realm, REALM_ALL}" by (auto simp: target_realms_def split: if_splits)
  with r show ?thesis
    by (auto simp: realm_hits_in event_hits_in eligible_def subscribed_to_def list_ex_iff)
qed

lemma deliverToSubscription_to:
  "deliverToSubscription r (h_event h) msg producer (h_sub h) (h_meta h) opts = Some ds \<Longrightarrow> d \<in> set ds \<Longrightarrow> delivered_to d h"
  by (auto simp: deliverToSubscription_def request_of_def split: if_splits option.splits)

lemma add_member_set:
  "b \<in> snd ` set (add_member g h bs) \<Longrightarrow> set (bk_members b) \<subseteq> insert h (\<Union>b' \<in> snd ` set bs. set (bk_members b')) \<and> bk_members b \<noteq> []
     \<or> b \<in> snd ` set bs"
proof -
  assume "b \<in> snd ` set (add_member g h bs)"
  then obtain k where k: "(k, b) \<in> set (add_member g h bs)" by force
  define b0 where "b0 = (case jget bs (bucket_key (h_realm h) g) of None \<Rightarrow> \<lparr>bk_realm = h_realm h, bk_group = g, bk_members = []\<rparr> | Some b \<Rightarrow> b)"
  have "set (add_member g h bs) \<subseteq> insert (bucket_key (h_realm h) g, b0\<lparr>bk_members := bk_members b0 @ [h]\<rparr>) (set bs)"
    unfolding add_member_def Let_def b0_def by (rule set_jset_subset)
  with k consider "b = b0\<lparr>bk_members := bk_members b0 @ [h]\<rparr>" | "(k, b) \<in> set bs" by blast
  then show ?thesis
  proof cases
    case 1
    have "set (bk_members b0) \<subseteq> (\<Union>b' \<in> snd ` set bs. set (bk_members b'))"
      by (auto simp: b0_def split: option.splits dest!: map_of_SomeD)
    with 1 show ?thesis by auto
  next
    case 2
    then show ?thesis by force
  qed
qed

definition buckets_from :: "hit set \<Rightarrow> (string, bucket_state) jsmap \<Rightarrow> bool" where
  "buckets_from H bs \<longleftrightarrow> (\<forall>b \<in> snd ` set bs. bk_members b \<noteq> [] \<and> set (bk_members b) \<subseteq> H)"

lemma buckets_from_add: "buckets_from H bs \<Longrightarrow> h \<in> H \<Longrightarrow> buckets_from H (add_member g h bs)"
  unfolding buckets_from_def using add_member_set [of _ g h bs] by blast

lemma dispatch_all_sound:
  "dispatch_all msg producer opts hs bs = (ds, raised, bs') \<Longrightarrow> set hs \<subseteq> H \<Longrightarrow> buckets_from H bs \<Longrightarrow>
   buckets_from H bs' \<and> (\<forall>d \<in> set ds. \<exists>h \<in> set hs. delivered_to d h)"
proof (induction hs arbitrary: bs ds)
  case (Cons h hs)
  show ?case
  proof (cases "str_truthy (sb_group (h_sub h)) \<or> po_relay opts \<and> \<not> str_truthy (cm_socket (h_meta h))")
    case True
    then have "\<exists>bs1. buckets_from H bs1 \<and> dispatch_all msg producer opts hs bs1 = (ds, raised, bs')"
      using Cons.prems buckets_from_add [OF Cons.prems(3), of h]
      by (cases "po_relay opts") (auto intro: exI [of _ bs] split: if_splits)
    with Cons.IH Cons.prems(2) show ?thesis by auto
  next
    case False
    show ?thesis
    proof (cases "deliverToSubscription (h_realm h) (h_event h) msg producer (h_sub h) (h_meta h) opts")
      case None
      with False Cons.prems show ?thesis by auto
    next
      case (Some ds0)
      obtain ds1 where ds1: "dispatch_all msg producer opts hs bs = (ds1, raised, bs')" "ds = ds0 @ ds1"
        using False Some Cons.prems(1) by (auto simp: split_beta Let_def prod_eq_iff)
      with Cons.IH [OF ds1(1)] Cons.prems deliverToSubscription_to [OF Some] show ?thesis by auto
    qed
  qed
qed auto

lemma group_target_in: "bk_members b \<noteq> [] \<Longrightarrow> group_target b B \<in> set (bk_members b)"
proof -
  assume "bk_members b \<noteq> []"
  then have "group_target b B \<in> set (candidates (bk_members b))"
    by (auto simp: group_target_def Let_def candidates_nonempty)
  then show ?thesis by (auto simp: candidates_def Let_def split: if_splits)
qed

definition same_routing :: "broker \<Rightarrow> broker \<Rightarrow> bool" where
  "same_routing B B' \<longleftrightarrow> (\<forall>r. rl_producers (getRealm r B') = rl_producers (getRealm r B) \<and> rl_consumers (getRealm r B') = rl_consumers (getRealm r B)
     \<and> rl_subscriptions (getRealm r B') = rl_subscriptions (getRealm r B) \<and> rl_topicPatterns (getRealm r B') = rl_topicPatterns (getRealm r B))"

lemma same_routing_refl [simp]: "same_routing B B"
  by (simp add: same_routing_def)

lemma same_routing_count: "same_routing B (count_group b B)"
  by (auto simp: same_routing_def count_group_def Let_def getRealm_def putRealm_def)

lemma same_routing_trans: "same_routing A B \<Longrightarrow> same_routing B C \<Longrightarrow> same_routing A C"
  by (simp add: same_routing_def)

lemma deliver_groups_sound:
  "deliver_groups msg producer opts bs B = (ds, raised, B') \<Longrightarrow> \<forall>b \<in> set bs. bk_members b \<noteq> [] \<and> set (bk_members b) \<subseteq> H \<Longrightarrow>
   same_routing B B' \<and> (\<forall>d \<in> set ds. \<exists>h \<in> H. delivered_to d h)"
proof (induction bs arbitrary: B ds)
  case (Cons b bs)
  define h where "h = group_target b B"
  have hin: "h \<in> H" using group_target_in [of b B] Cons.prems(2) by (auto simp: h_def)
  show ?case
  proof (cases "deliverToSubscription (bk_realm b) (h_event h) msg producer (h_sub h) (h_meta h) opts")
    case None
    with Cons.prems show ?thesis by (auto simp: h_def [symmetric] same_routing_count)
  next
    case (Some ds0)
    obtain ds1 where ds1: "deliver_groups msg producer opts bs (count_group b B) = (ds1, raised, B')" "ds = ds0 @ ds1"
      using Some Cons.prems(1) by (auto simp: h_def [symmetric] split_beta Let_def prod_eq_iff)
    with Cons.IH [OF ds1(1)] Cons.prems(2) same_routing_trans [OF same_routing_count]
    have "same_routing B B'" "\<forall>d \<in> set ds1. \<exists>h \<in> H. delivered_to d h" by auto
    with deliverToSubscription_to [OF Some] hin ds1(2) show ?thesis by auto
  qed
qed simp

text \<open>
  C5. A message is delivered only where it is meant to go: everything that is sent to a socket or
  handed to the store for one belongs to a subscription in the producer's realm or in the realm for
  all, to the event under one of the three names the producer and the event give it and by a consumer
  subscribed to that producer or to all, or to a topic pattern that matches. Delivering changes no
  registration and no subscription in any realm.
\<close>

theorem generateMessage_isolated:
  assumes "generateMessage P realm event payload producer opts B = (ds, raised, B')" and "producer \<noteq> []"
  shows "same_routing B B' \<and> (\<forall>d \<in> set ds. \<exists>h. eligible P event producer realm B h \<and> delivered_to d h)"
proof -
  define msg where "msg = message_object event payload (JStr producer) opts"
  define H where "H = set (message_hits P event producer realm B)"
  obtain ds1 r1 bs where d: "dispatch_all msg (JStr producer) opts (message_hits P event producer realm B) [] = (ds1, r1, bs)"
    by (metis prod_cases3)
  have s1: "buckets_from H bs" "\<forall>d \<in> set ds1. \<exists>h \<in> H. delivered_to d h"
    using dispatch_all_sound [OF d, of H] by (auto simp: H_def buckets_from_def)
  obtain ds2 r2 B2 where g: "deliver_groups msg (JStr producer) opts (map snd bs) B = (ds2, r2, B2)"
    by (metis prod_cases3)
  have s2: "same_routing B B2 \<and> (\<forall>d \<in> set ds2. \<exists>h \<in> H. delivered_to d h)"
    by (rule deliver_groups_sound [OF g]) (use s1 in \<open>auto simp: buckets_from_def\<close>)
  have "(ds = ds1 \<and> B' = B) \<or> (ds = ds1 @ ds2 \<and> B' = B2)"
    using assms d g by (auto simp: generateMessage_def msg_def [symmetric] split: if_splits)
  with s1 s2 have "same_routing B B' \<and> (\<forall>d \<in> set ds. \<exists>h \<in> H. delivered_to d h)" by auto
  then show ?thesis unfolding H_def using message_hits_eligible by blast
qed

section \<open>Every subscriber is reached\<close>

definition accepts :: "produce_options \<Rightarrow> hit \<Rightarrow> bool" where
  "accepts opts h \<longleftrightarrow> (sb_ack_required (h_sub h) \<longrightarrow> stores (h_sub h) opts)"

lemma deliverToSubscription_total:
  "accepts opts h \<Longrightarrow> \<exists>ds. deliverToSubscription r (h_event h) msg producer (h_sub h) (h_meta h) opts = Some ds"
  by (auto simp: accepts_def deliverToSubscription_def split: option.splits)

lemma dispatch_all_complete:
  "dispatch_all msg producer opts hs bs = (ds, raised, bs') \<Longrightarrow> \<forall>h \<in> set hs. accepts opts h \<Longrightarrow>
   \<not> raised \<and> (\<forall>h \<in> set hs. \<not> str_truthy (sb_group (h_sub h)) \<and> \<not> po_relay opts \<longrightarrow>
     (\<exists>ds0. deliverToSubscription (h_realm h) (h_event h) msg producer (h_sub h) (h_meta h) opts = Some ds0 \<and> set ds0 \<subseteq> set ds))"
proof (induction hs arbitrary: bs ds)
  case (Cons h hs)
  then have acc: "accepts opts h" by simp
  show ?case
  proof (cases "str_truthy (sb_group (h_sub h)) \<or> po_relay opts \<and> \<not> str_truthy (cm_socket (h_meta h))")
    case True
    then have "\<exists>bs1. dispatch_all msg producer opts hs bs1 = (ds, raised, bs')"
      using Cons.prems by (auto split: if_splits)
    with Cons.IH Cons.prems(2) True show ?thesis by auto
  next
    case False
    obtain ds0 where Some: "deliverToSubscription (h_realm h) (h_event h) msg producer (h_sub h) (h_meta h) opts = Some ds0"
      using deliverToSubscription_total [OF acc] by blast
    obtain ds1 where ds1: "dispatch_all msg producer opts hs bs = (ds1, raised, bs')" "ds = ds0 @ ds1"
      using False Some Cons.prems(1) by (auto simp: split_beta Let_def prod_eq_iff)
    with Cons.IH [OF ds1(1)] Cons.prems(2) Some show ?thesis by fastforce
  qed
qed simp

lemma deliver_groups_complete:
  "deliver_groups msg producer opts bs B = (ds, raised, B') \<Longrightarrow> \<forall>b \<in> set bs. bk_members b \<noteq> [] \<and> (\<forall>h \<in> set (bk_members b). accepts opts h) \<Longrightarrow> \<not> raised"
proof (induction bs arbitrary: B ds)
  case (Cons b bs)
  then have "accepts opts (group_target b B)" using group_target_in [of b B] by auto
  then obtain ds0 where "deliverToSubscription (bk_realm b) (h_event (group_target b B)) msg producer (h_sub (group_target b B)) (h_meta (group_target b B)) opts = Some ds0"
    using deliverToSubscription_total by blast
  with Cons.prems Cons.IH show ?case by (auto simp: split_beta Let_def prod_eq_iff)
qed simp

lemma generateMessage_reaches:
  assumes gen: "generateMessage P realm event payload producer opts B = (ds, raised, B')" and "producer \<noteq> []"
    and acc: "\<forall>h \<in> set (message_hits P event producer realm B). accepts opts h"
  shows "\<not> raised" and "h \<in> set (message_hits P event producer realm B) \<Longrightarrow> \<not> str_truthy (sb_group (h_sub h)) \<Longrightarrow> \<not> po_relay opts \<Longrightarrow>
    \<exists>ds0. deliverToSubscription (h_realm h) (h_event h) (message_object event payload (JStr producer) opts) (JStr producer) (h_sub h) (h_meta h) opts = Some ds0
      \<and> set ds0 \<subseteq> set ds"
proof -
  define msg where "msg = message_object event payload (JStr producer) opts"
  define hs where "hs = message_hits P event producer realm B"
  obtain ds1 r1 bs where d: "dispatch_all msg (JStr producer) opts hs [] = (ds1, r1, bs)"
    by (metis prod_cases3)
  obtain ds2 r2 B2 where g: "deliver_groups msg (JStr producer) opts (map snd bs) B = (ds2, r2, B2)"
    by (metis prod_cases3)
  have "buckets_from (set hs) bs" using dispatch_all_sound [OF d, of "set hs"] by (simp add: buckets_from_def)
  with acc have "\<not> r2" by (intro deliver_groups_complete [OF g]) (auto simp: buckets_from_def hs_def)
  moreover note c = dispatch_all_complete [OF d acc [folded hs_def]]
  ultimately have "raised = False" "ds = ds1 @ ds2"
    using gen assms(2) d g by (auto simp: generateMessage_def msg_def [symmetric] hs_def [symmetric])
  with c show "\<not> raised" and "h \<in> set (message_hits P event producer realm B) \<Longrightarrow> \<not> str_truthy (sb_group (h_sub h)) \<Longrightarrow> \<not> po_relay opts \<Longrightarrow>
    \<exists>ds0. deliverToSubscription (h_realm h) (h_event h) (message_object event payload (JStr producer) opts) (JStr producer) (h_sub h) (h_meta h) opts = Some ds0
      \<and> set ds0 \<subseteq> set ds"
    by (fastforce simp: hs_def [symmetric] msg_def [symmetric])+
qed


text \<open>A protocol and a broker for the concrete instances.\<close>

definition sample_protocol :: protocol where
  "sample_protocol = \<lparr>toConsumerEvent = (\<lambda>e p scope. p @ ''-'' @ e), toConsumerEventAll = (\<lambda>p. p @ ''-ALL''),
     toConsumeEvent = (\<lambda>e. ''CONSUME-'' @ e), toConsumeEventAll = (\<lambda>p. ''CONSUME-ALL-'' @ p),
     toOnSubscribeEvent = (\<lambda>i. ''SUBSCRIBE''), toOnConnectEvent = (\<lambda>i. ''CONNECT''), toOnDisconnectEvent = (\<lambda>i. ''DISCONNECT''),
     ALL_PUBLISHERS = ''*'', ANONYMOUS = ''ANONYMOUS'', SCOPE_ALL = ''all'', SCOPE_DEFAULT = ''default''\<rparr>"

definition plain_options :: sub_options where
  "plain_options = \<lparr>so_durable = False, so_consumer_id = None, so_ack = False, so_ack_timeout = JUndef, so_retry = JNull,
     so_group = None, so_mode = None\<rparr>"

definition plain_produce :: produce_options where
  "plain_produce = \<lparr>po_ttl = JUndef, po_guaranteed = False, po_enc = JUndef, po_to = JUndef, po_contentType = JUndef,
     po_wake = JUndef, po_relay = False\<rparr>"

definition subscribed_realm :: "sub_options \<Rightarrow> realm_state" where
  "subscribed_realm sopts =
     snd (snd (subscribeMessage sample_protocol JUndef ''s1'' ''news'' ''bob'' ''alice'' (Some ''a'') ''default'' sopts realm_empty))"

lemma subscribed_realm_plain: "message_hits sample_protocol ''news'' ''bob'' ''r'' (putRealm ''r'' (subscribed_realm plain_options) [])
   = [\<lparr>h_realm = ''r'', h_event = ''bob-news'', h_sub = snd (hd (snd (hd (rl_subscriptions (subscribed_realm plain_options))))),
       h_meta = snd (hd (rl_consumers (subscribed_realm plain_options)))\<rparr>]
   \<and> \<not> sb_ack_required (snd (hd (snd (hd (rl_subscriptions (subscribed_realm plain_options))))))"
  by code_simp


text \<open>
  C34. A consumer that subscribed with acknowledgements but not durably stops a message that is not
  guaranteed: the dispatch raises at it, and no subscriber after it, in either realm and in any
  group, receives the message.
\<close>

theorem ack_without_store_aborts:
  assumes "producer \<noteq> []" and "message_hits P event producer realm B = h # hs"
    and "sb_ack_required (h_sub h)" and "\<not> sb_durable (h_sub h)" and "\<not> po_guaranteed opts"
    and "str_truthy (cm_socket (h_meta h))" and "\<not> str_truthy (sb_group (h_sub h))"
  shows "generateMessage P realm event payload producer opts B = ([], True, B)"
proof -
  obtain sock where "cm_socket (h_meta h) = Some sock" "sock \<noteq> []" using assms(6) by (cases "cm_socket (h_meta h)") auto
  with assms show ?thesis
    by (simp add: generateMessage_def deliverToSubscription_def stores_def)
qed


lemma subscribed_realm_ack: "message_hits sample_protocol ''news'' ''bob'' ''r'' (putRealm ''r'' (subscribed_realm (plain_options\<lparr>so_ack := True\<rparr>)) [])
   = [\<lparr>h_realm = ''r'', h_event = ''bob-news'', h_sub = snd (hd (snd (hd (rl_subscriptions (subscribed_realm (plain_options\<lparr>so_ack := True\<rparr>)))))),
       h_meta = snd (hd (rl_consumers (subscribed_realm (plain_options\<lparr>so_ack := True\<rparr>))))\<rparr>]"
  by code_simp

theorem ack_without_store_aborts_witness:
  "generateMessage sample_protocol ''r'' ''news'' (JStr ''hi'') ''bob'' plain_produce (putRealm ''r'' (subscribed_realm (plain_options\<lparr>so_ack := True\<rparr>)) [])
     = ([], True, putRealm ''r'' (subscribed_realm (plain_options\<lparr>so_ack := True\<rparr>)) [])"
  by (rule ack_without_store_aborts [OF _ subscribed_realm_ack]) code_simp+

theorem generateMessage_isolated_witness:
  "\<exists>d h. d \<in> set (fst (generateMessage sample_protocol ''r'' ''news'' (JStr ''hi'') ''bob'' plain_produce (putRealm ''r'' (subscribed_realm plain_options) [])))
     \<and> eligible sample_protocol ''news'' ''bob'' ''r'' (putRealm ''r'' (subscribed_realm plain_options) []) h \<and> delivered_to d h"
proof -
  let ?B = "putRealm ''r'' (subscribed_realm plain_options) []"
  let ?g = "generateMessage sample_protocol ''r'' ''news'' (JStr ''hi'') ''bob'' plain_produce ?B"
  have "?g = (fst ?g, fst (snd ?g), snd (snd ?g))" by simp
  from generateMessage_isolated [OF this]
  have "\<forall>d \<in> set (fst ?g). \<exists>h. eligible sample_protocol ''news'' ''bob'' ''r'' ?B h \<and> delivered_to d h" by simp
  moreover have "fst ?g \<noteq> []" by code_simp
  ultimately show ?thesis by (meson last_in_set)
qed

theorem group_round_robin_witness:
  "\<exists>b. length (bk_members b) = 2 \<and> group_targets b (length (candidates (bk_members b))) [] = rotate 0 (candidates (bk_members b))
     \<and> length (candidates (bk_members b)) = 1"
proof -
  define h where "h n s = \<lparr>h_realm = ''r'', h_event = ''e'', h_sub = subscription_new, h_meta = (consumer_new n)\<lparr>cm_socket := s\<rparr>\<rparr>" for n s
  define b where "b = \<lparr>bk_realm = ''r'', bk_group = ''g'', bk_members = [h ''x'' None, h ''y'' (Some ''s2'')]\<rparr>"
  from group_round_robin [of b "[]"]
  have "group_targets b (length (candidates (bk_members b))) [] = rotate 0 (candidates (bk_members b))"
    by (simp add: group_counter_def getRealm_def realm_empty_def)
  moreover have "length (candidates (bk_members b)) = 1"
    by (simp add: b_def h_def candidates_def consumer_new_def)
  ultimately show ?thesis by (intro exI [of _ b]) (simp add: b_def)
qed

end
