(* ===== verification/Rate_Limits.thy ===== *)
theory Rate_Limits
  imports Prelude
begin

text \<open>
  \<open>lib/limits.js\<close>: rate limits and quotas. The record has the constructor's fields; the live
  settings getter is the argument \<open>raw\<close> (what \<open>_getConfig()\<close> returns at that moment) and the
  clock the argument \<open>now\<close> of every operation. Each operation returns its verdict and the new
  state. The theorems bound what a token bucket admits over any run.
\<close>

record bucket =
  tokens :: rat
  updatedAt :: int

record limits =
  configCache :: "jsval option"
  configCacheAt :: int
  buckets :: "(string, bucket) jsmap"
  lastPruneAt :: int
  connections :: "(string, nat) jsmap"

definition CONFIG_CACHE_MS :: int where "CONFIG_CACHE_MS = 1000"
definition BUCKET_IDLE_MS :: int where "BUCKET_IDLE_MS = 10 * 60 * 1000"
definition PRUNE_INTERVAL_MS :: int where "PRUNE_INTERVAL_MS = 60 * 1000"

definition limit_defaults :: "(string \<times> jsval) list" where
  "limit_defaults = [(''max_queued_per_recipient'', JNum (Fin 1000))]"

definition limits_new :: "int \<Rightarrow> limits" where
  "limits_new now = \<lparr>configCache = None, configCacheAt = 0, buckets = [], lastPruneAt = now, connections = []\<rparr>"

text \<open>\<open>_config\<close>: the cached document, \<open>false\<close> when limits are absent or disabled.\<close>

definition limits_config :: "int \<Rightarrow> jsval \<Rightarrow> limits \<Rightarrow> jsval \<times> limits" where
  "limits_config now raw L =
     (case configCache L of
        Some c \<Rightarrow> if now - configCacheAt L < CONFIG_CACHE_MS then (c, L)
          else (let c' = (if \<not> truthy raw \<or> obj_get raw ''enabled'' = JBool False then JBool False else raw)
                in (c', L\<lparr>configCache := Some c', configCacheAt := now\<rparr>))
      | None \<Rightarrow> (let c' = (if \<not> truthy raw \<or> obj_get raw ''enabled'' = JBool False then JBool False else raw)
                in (c', L\<lparr>configCache := Some c', configCacheAt := now\<rparr>)))"

definition limits_enabled :: "int \<Rightarrow> jsval \<Rightarrow> limits \<Rightarrow> bool \<times> limits" where
  "limits_enabled now raw L = (let (c, L') = limits_config now raw L in (truthy c, L'))"

definition limits_trustProxy :: "int \<Rightarrow> jsval \<Rightarrow> limits \<Rightarrow> bool \<times> limits" where
  "limits_trustProxy now raw L =
     (let (c, L') = limits_config now raw L
      in (truthy c \<and> (truthy (obj_get c ''trust_proxy'') \<or> truthy (obj_get c ''trustProxy'')), L'))"

text \<open>The effective limit: realm override, then the global value, then the default table.\<close>

definition limit_value :: "jsval \<Rightarrow> string option \<Rightarrow> string \<Rightarrow> jsnum" where
  "limit_value c realm name =
     (if \<not> truthy c then PosInf
      else let overrides = js_or (obj_get c ''realms'') (JObj []);
               ov = (case realm of None \<Rightarrow> JUndef | Some r \<Rightarrow> obj_get overrides r);
               raw0 = (if str_truthy realm \<and> truthy ov \<and> obj_get ov name \<noteq> JUndef
                       then obj_get ov name else obj_get c name);
               raw = (if raw0 = JUndef then (case map_of limit_defaults name of Some d \<Rightarrow> d | None \<Rightarrow> JUndef)
                      else raw0)
           in case to_number raw of Fin r \<Rightarrow> if r > 0 then Fin r else PosInf | _ \<Rightarrow> PosInf)"

definition limits_value :: "int \<Rightarrow> jsval \<Rightarrow> string option \<Rightarrow> string \<Rightarrow> limits \<Rightarrow> jsnum \<times> limits" where
  "limits_value now raw realm name L =
     (let (c, L') = limits_config now raw L in (limit_value c realm name, L'))"

section \<open>Token buckets\<close>

definition limits_prune :: "int \<Rightarrow> limits \<Rightarrow> limits" where
  "limits_prune now L =
     (if now - lastPruneAt L < PRUNE_INTERVAL_MS then L
      else L\<lparr>lastPruneAt := now,
             buckets := filter (\<lambda>(k, b). \<not> (now - updatedAt b > BUCKET_IDLE_MS)) (buckets L)\<rparr>)"

datatype take_result = TakeOk | TakeNo int

text \<open>The bucket of a key at time \<open>now\<close>: new and full, or refilled up to the burst.\<close>

definition refill :: "int \<Rightarrow> rat \<Rightarrow> rat \<Rightarrow> bucket option \<Rightarrow> rat" where
  "refill now rate burst ob =
     (case ob of None \<Rightarrow> burst
      | Some b \<Rightarrow> min burst (tokens b + (of_int (now - updatedAt b) / 1000) * rate))"

definition limits_take :: "int \<Rightarrow> string \<Rightarrow> jsnum \<Rightarrow> rat \<Rightarrow> rat \<Rightarrow> limits \<Rightarrow> take_result \<times> limits" where
  "limits_take now key ratePerSec burst cost L0 =
     (case ratePerSec of
        Fin rate \<Rightarrow>
          (let L = limits_prune now L0;
               t = refill now rate burst (jget (buckets L) key)
           in if t \<ge> cost
              then (TakeOk, L\<lparr>buckets := jset key \<lparr>tokens = t - cost, updatedAt = now\<rparr> (buckets L)\<rparr>)
              else (TakeNo (max 1 \<lceil>(cost - t) / rate\<rceil>),
                    L\<lparr>buckets := jset key \<lparr>tokens = t, updatedAt = now\<rparr> (buckets L)\<rparr>))
      | _ \<Rightarrow> (TakeOk, L0))"

section \<open>Admission checks\<close>

datatype verdict = Admit | Refuse string int

definition connectionAllowed :: "int \<Rightarrow> jsval \<Rightarrow> string option \<Rightarrow> limits \<Rightarrow> verdict \<times> limits" where
  "connectionAllowed now raw ip0 L0 =
     (let (on, L) = limits_enabled now raw L0 in
      if \<not> on then (Admit, L)
      else let ip = str_or ip0 ''unknown'';
               c = fst (limits_config now raw L);
               maxConcurrent = limit_value c None ''max_connections_per_ip'';
               current = (case jget (connections L) ip of None \<Rightarrow> 0 | Some n \<Rightarrow> n)
           in if num_le maxConcurrent (Fin (of_nat current))
              then (Refuse ''max_connections_per_ip'' 30, L)
              else let perMinute = limit_value c None ''connections_per_minute_per_ip'';
                       (v, L') = (if is_finite perMinute
                                  then limits_take now (''connrate:'' @ ip) (Fin (fin_val perMinute / 60)) (fin_val perMinute) 1 L
                                  else (TakeOk, L))
                   in case v of
                        TakeNo ra \<Rightarrow> (Refuse ''connections_per_minute_per_ip'' ra, L')
                      | TakeOk \<Rightarrow> (Admit, L'\<lparr>connections := jset ip (current + 1) (connections L')\<rparr>))"

definition releaseConnection :: "string option \<Rightarrow> limits \<Rightarrow> limits" where
  "releaseConnection ip0 L =
     (let ip = str_or ip0 ''unknown'';
          current = (case jget (connections L) ip of None \<Rightarrow> 0 | Some n \<Rightarrow> n)
      in if current \<le> 1 then L\<lparr>connections := jdel ip (connections L)\<rparr>
         else L\<lparr>connections := jset ip (current - 1) (connections L)\<rparr>)"

definition produceAllowed :: "int \<Rightarrow> jsval \<Rightarrow> string \<Rightarrow> string option \<Rightarrow> nat \<Rightarrow> limits \<Rightarrow> verdict \<times> limits" where
  "produceAllowed now raw socketId realm bytes L0 =
     (let (on, L) = limits_enabled now raw L0 in
      if \<not> on then (Admit, L)
      else let c = fst (limits_config now raw L);
               msgRate = limit_value c realm ''messages_per_second'';
               burst0 = limit_value c realm ''message_burst'';
               burst = (if is_finite burst0 then fin_val burst0 else fin_val msgRate * 3);
               (v, L1) = (if is_finite msgRate then limits_take now (''msg:'' @ socketId) msgRate burst 1 L
                          else (TakeOk, L))
           in case v of
                TakeNo ra \<Rightarrow> (Refuse ''messages_per_second'' ra, L1)
              | TakeOk \<Rightarrow>
                  (let byteRate = limit_value c realm ''bytes_per_second'';
                       byteBurst0 = limit_value c realm ''bytes_burst'';
                       byteBurst = (if is_finite byteBurst0 then fin_val byteBurst0 else fin_val byteRate * 2);
                       (w, L2) = (if is_finite byteRate
                                  then limits_take now (''bytes:'' @ socketId) byteRate byteBurst (of_nat (max 1 bytes)) L1
                                  else (TakeOk, L1))
                   in case w of
                        TakeNo ra \<Rightarrow> (Refuse ''bytes_per_second'' ra, L2)
                      | TakeOk \<Rightarrow> (Admit, L2)))"

definition realmCreationAllowed :: "int \<Rightarrow> jsval \<Rightarrow> string option \<Rightarrow> limits \<Rightarrow> verdict \<times> limits" where
  "realmCreationAllowed now raw ip0 L0 =
     (let (on, L) = limits_enabled now raw L0 in
      if \<not> on then (Admit, L)
      else let c = fst (limits_config now raw L);
               perHour = limit_value c None ''realms_per_hour_per_ip''
           in if \<not> is_finite perHour then (Admit, L)
              else let (v, L') = limits_take now (''realmrate:'' @ str_or ip0 ''unknown'')
                                   (Fin (fin_val perHour / 3600)) (fin_val perHour) 1 L
                   in case v of TakeNo ra \<Rightarrow> (Refuse ''realms_per_hour_per_ip'' ra, L') | TakeOk \<Rightarrow> (Admit, L'))"

definition forgetSocket :: "string \<Rightarrow> limits \<Rightarrow> limits" where
  "forgetSocket socketId L =
     L\<lparr>buckets := jdel (''bytes:'' @ socketId) (jdel (''msg:'' @ socketId) (buckets L))\<rparr>"

section \<open>Bucket invariant\<close>

definition limits_invar :: "int \<Rightarrow> limits \<Rightarrow> bool" where
  "limits_invar now L \<longleftrightarrow> wf_map (buckets L) \<and> wf_map (connections L)
     \<and> (\<forall>k b. jget (buckets L) k = Some b \<longrightarrow> 0 \<le> tokens b \<and> updatedAt b \<le> now)"

lemma limits_new_invar: "limits_invar now (limits_new t)"
  by (simp add: limits_invar_def limits_new_def)

lemma limits_invar_later: "limits_invar t L \<Longrightarrow> t \<le> now \<Longrightarrow> limits_invar now L"
  by (fastforce simp: limits_invar_def)

lemma limits_prune_get:
  assumes "wf_map (buckets L)"
  shows "jget (buckets (limits_prune now L)) k =
    (case jget (buckets L) k of None \<Rightarrow> None
     | Some b \<Rightarrow> if now - lastPruneAt L \<ge> PRUNE_INTERVAL_MS \<and> now - updatedAt b > BUCKET_IDLE_MS
                then None else Some b)"
  using assms by (auto simp: limits_prune_def jget_filter split: option.splits)

lemma limits_prune_wf [simp]: "wf_map (buckets L) \<Longrightarrow> wf_map (buckets (limits_prune now L))"
  by (simp add: limits_prune_def)

lemma limits_prune_invar: "limits_invar now L \<Longrightarrow> limits_invar now (limits_prune now L)"
  unfolding limits_invar_def
  by (auto simp: limits_prune_get split: option.splits if_splits)
    (auto simp: limits_prune_def)

lemma refill_nonneg:
  assumes "limits_invar now L" "0 \<le> rate" "0 \<le> burst"
  shows "0 \<le> refill now rate burst (jget (buckets L) k)"
proof (cases "jget (buckets L) k")
  case (Some b)
  with assms(1) have "0 \<le> tokens b" "updatedAt b \<le> now" by (auto simp: limits_invar_def)
  then have "0 \<le> (of_int (now - updatedAt b) / 1000) * rate"
    using assms(2) by (intro mult_nonneg_nonneg divide_nonneg_nonneg) simp_all
  with \<open>0 \<le> tokens b\<close> assms(3) Some show ?thesis by (simp add: refill_def)
qed (simp add: refill_def assms)

lemma limits_take_invar:
  assumes inv: "limits_invar now L" and rate: "0 \<le> rate" and burst: "0 \<le> burst"
  shows "limits_invar now (snd (limits_take now k (Fin rate) burst cost L))"
proof -
  from limits_prune_invar [OF inv] have inv': "limits_invar now (limits_prune now L)" .
  with refill_nonneg [OF inv' rate burst, of k] show ?thesis
    by (auto simp: limits_take_def Let_def limits_invar_def)
qed

section \<open>What a bucket admits\<close>

text \<open>
  A run is a sequence of requests, each with its time, key, rate, burst and cost; \<open>admitted\<close> is
  the total cost that the bucket of one key let through.
\<close>

type_synonym take_request = "int \<times> string \<times> rat \<times> rat \<times> rat"

fun admitted :: "string \<Rightarrow> take_request list \<Rightarrow> limits \<Rightarrow> rat" where
  "admitted k [] L = 0"
| "admitted k ((now, key, rate, burst, cost) # rs) L =
     (let (v, L') = limits_take now key (Fin rate) burst cost L
      in (if v = TakeOk \<and> key = k then cost else 0) + admitted k rs L')"

fun requests_from :: "int \<Rightarrow> string \<Rightarrow> rat \<Rightarrow> rat \<Rightarrow> int \<Rightarrow> take_request list \<Rightarrow> bool" where
  "requests_from t k r b t' [] = (t \<le> t')"
| "requests_from t k r b t' ((now, key, rate, burst, cost) # rs) =
     (t \<le> now \<and> 0 \<le> rate \<and> 0 \<le> burst \<and> 0 \<le> cost \<and> (key = k \<longrightarrow> rate = r \<and> burst = b)
      \<and> requests_from now k r b t' rs)"

abbreviation avail :: "int \<Rightarrow> rat \<Rightarrow> rat \<Rightarrow> string \<Rightarrow> limits \<Rightarrow> rat" where
  "avail now r b k L \<equiv> refill now r b (jget (buckets L) k)"

lemma min_shift: "x' = x + d \<Longrightarrow> 0 \<le> d \<Longrightarrow> min b (a + x') \<le> min b (a + x) + (d :: rat)"
  by (auto simp: min_def)

lemma avail_later:
  assumes "t \<le> now" "0 \<le> r"
  shows "avail now r b k L \<le> avail t r b k L + r * of_int (now - t) / 1000"
proof (cases "jget (buckets L) k")
  case None
  from assms have "0 \<le> r * of_int (now - t) / 1000" by simp
  with None show ?thesis by (simp add: refill_def)
next
  case (Some bk)
  have "of_int (now - updatedAt bk) / 1000 * r
      = of_int (t - updatedAt bk) / 1000 * r + r * of_int (now - t) / (1000 :: rat)"
    by (simp add: field_simps)
  moreover have "0 \<le> r * of_int (now - t) / (1000 :: rat)" using assms by simp
  ultimately show ?thesis using Some by (simp only: refill_def option.case min_shift)
qed

text \<open>Dropping an idle bucket changes nothing when it would have refilled in that time anyway.\<close>

lemma avail_prune:
  assumes inv: "limits_invar now L" and fast: "b \<le> 600 * r" and r: "0 \<le> r"
  shows "avail now r b k (limits_prune now L) = avail now r b k L"
proof (cases "jget (buckets L) k")
  case None
  with inv show ?thesis by (simp add: limits_prune_get limits_invar_def)
next
  case (Some bk)
  have "b \<le> tokens bk + of_int (now - updatedAt bk) / 1000 * r"
    if "now - updatedAt bk > BUCKET_IDLE_MS"
  proof -
    from that have "(600000 :: rat) \<le> of_int (now - updatedAt bk)"
      by (simp add: BUCKET_IDLE_MS_def)
    then have "600 \<le> (of_int (now - updatedAt bk) :: rat) / 1000" by simp
    then have "600 * r \<le> of_int (now - updatedAt bk) / 1000 * r"
      using r by (rule mult_right_mono)
    moreover from inv Some have "0 \<le> tokens bk" by (simp add: limits_invar_def)
    ultimately show ?thesis using fast by linarith
  qed
  with inv Some show ?thesis
    by (auto simp: limits_prune_get limits_invar_def refill_def min_def)
qed

lemma avail_take:
  assumes inv: "limits_invar now L" and fast: "b \<le> 600 * r" and r: "0 \<le> r" and cost: "0 \<le> cost"
    and same: "key = k \<longrightarrow> rate = r \<and> burst = b"
    and tk: "limits_take now key (Fin rate) burst cost L = (v, L')"
  shows "(if v = TakeOk \<and> key = k then cost else 0) + avail now r b k L' \<le> avail now r b k L"
proof (cases "key = k")
  case True
  with same have eq: "rate = r" "burst = b" by auto
  let ?t = "avail now r b k (limits_prune now L)"
  have "?t \<le> b" by (auto simp: refill_def split: option.splits)
  with tk True eq cost have "(if v = TakeOk then cost else 0) + avail now r b k L' \<le> ?t"
    by (auto simp: limits_take_def Let_def refill_def [of _ _ _ "Some _"] split: if_splits)
  with True avail_prune [OF inv fast r] show ?thesis by simp
next
  case False
  with tk have "jget (buckets L') k = jget (buckets (limits_prune now L)) k"
    by (auto simp: limits_take_def Let_def split: if_splits)
  with False avail_prune [OF inv fast r, of k] show ?thesis by simp
qed

lemma admitted_le_avail:
  "requests_from t k r b t' rs \<Longrightarrow> limits_invar t L \<Longrightarrow> b \<le> 600 * r \<Longrightarrow> 0 \<le> r \<Longrightarrow> 0 \<le> b \<Longrightarrow>
   admitted k rs L \<le> avail t r b k L + r * of_int (t' - t) / 1000"
proof (induction rs arbitrary: t L)
  case Nil
  then have "0 \<le> avail t r b k L" by (intro refill_nonneg)
  with Nil show ?case by simp
next
  case (Cons q rs)
  obtain now key rate burst cost where q: "q = (now, key, rate, burst, cost)" by (cases q) auto
  obtain v L' where tk: "limits_take now key (Fin rate) burst cost L = (v, L')" by fastforce
  from Cons.prems q have le: "t \<le> now" and pos: "0 \<le> rate" "0 \<le> burst" "0 \<le> cost"
    and same: "key = k \<longrightarrow> rate = r \<and> burst = b" and rest: "requests_from now k r b t' rs"
    by auto
  from Cons.prems(2) le have inv: "limits_invar now L" by (rule limits_invar_later)
  from limits_take_invar [OF inv pos(1,2), of key cost] tk have inv': "limits_invar now L'" by simp
  have "admitted k rs L' \<le> avail now r b k L' + r * of_int (t' - now) / 1000"
    using Cons.IH [OF rest inv'] Cons.prems by blast
  moreover have "(if v = TakeOk \<and> key = k then cost else 0) + avail now r b k L' \<le> avail now r b k L"
    by (rule avail_take [OF inv Cons.prems(3,4) pos(3) same tk])
  moreover have "avail now r b k L \<le> avail t r b k L + r * of_int (now - t) / 1000"
    by (rule avail_later [OF le Cons.prems(4)])
  moreover have "r * of_int (t' - now) / 1000 + r * of_int (now - t) / 1000 = r * of_int (t' - t) / (1000 :: rat)"
    by (simp add: field_simps)
  ultimately show ?case by (simp add: q tk)
qed

section \<open>Connection counts\<close>

datatype conn_event = Connect int "string option" | Disconnect "string option"

fun conn_step :: "jsval \<Rightarrow> conn_event \<Rightarrow> limits \<Rightarrow> limits" where
  "conn_step raw (Connect now ip) L = snd (connectionAllowed now raw ip L)"
| "conn_step raw (Disconnect ip) L = releaseConnection ip L"

definition conn_count :: "string \<Rightarrow> limits \<Rightarrow> nat" where
  "conn_count ip L = (case jget (connections L) ip of None \<Rightarrow> 0 | Some n \<Rightarrow> n)"

text \<open>The settings document is the same at every call, and the cache holds nothing else.\<close>

definition cached :: "jsval \<Rightarrow> limits \<Rightarrow> bool" where
  "cached raw L \<longleftrightarrow> configCache L \<in> {None, Some (fst (limits_config 0 raw (limits_new 0)))}"

lemma limits_new_cached: "cached raw (limits_new t)"
  by (simp add: cached_def limits_new_def)

lemma limits_config_cached:
  "cached raw L \<Longrightarrow> fst (limits_config now raw L) = fst (limits_config 0 raw (limits_new 0))
     \<and> cached raw (snd (limits_config now raw L)) \<and> connections (snd (limits_config now raw L)) = connections L"
  by (auto simp: cached_def limits_config_def limits_new_def Let_def split: option.splits)

lemma limits_take_other [simp]:
  "configCache (snd (limits_take now k r b c L)) = configCache L"
  "connections (snd (limits_take now k r b c L)) = connections L"
  by (simp_all add: limits_take_def limits_prune_def Let_def split: jsnum.split)

lemma limits_enabled_Pair:
  "limits_config now raw L = (c, L1) \<Longrightarrow> limits_enabled now raw L = (truthy c, L1)"
  by (simp add: limits_enabled_def)

text \<open>An admission changes the count of its own address only, by one, and only below the cap.\<close>

lemma connectionAllowed_cases:
  assumes c1: "limits_config now raw L = (c, L1)" and c2: "fst (limits_config now raw L1) = c"
    and on: "truthy c"
  shows "let ip' = str_or ip ''unknown''; L' = snd (connectionAllowed now raw ip L) in
    configCache L' = configCache L1 \<and>
    (if fst (connectionAllowed now raw ip L) = Admit
     then \<not> num_le (limit_value c None ''max_connections_per_ip'') (Fin (of_nat (conn_count ip' L1)))
          \<and> connections L' = jset ip' (conn_count ip' L1 + 1) (connections L1)
     else connections L' = connections L1)"
proof -
  define i where "i = str_or ip ''unknown''"
  define pm where "pm = limit_value c None ''connections_per_minute_per_ip''"
  obtain v L2 where tk: "(if is_finite pm then limits_take now (''connrate:'' @ i) (Fin (fin_val pm / 60)) (fin_val pm) 1 L1
      else (TakeOk, L1)) = (v, L2)" by fastforce
  then have L2: "configCache L2 = configCache L1" "connections L2 = connections L1"
    by (metis limits_take_other snd_conv)+
  have "connectionAllowed now raw ip L =
    (if num_le (limit_value c None ''max_connections_per_ip'') (Fin (of_nat (conn_count i L1)))
     then (Refuse ''max_connections_per_ip'' 30, L1)
     else case v of TakeNo ra \<Rightarrow> (Refuse ''connections_per_minute_per_ip'' ra, L2)
       | TakeOk \<Rightarrow> (Admit, L2\<lparr>connections := jset i (conn_count i L1 + 1) (connections L2)\<rparr>))"
    using on unfolding connectionAllowed_def limits_enabled_Pair [OF c1] Let_def c2 prod.case
      i_def [symmetric] pm_def [symmetric] conn_count_def [symmetric] tk
    by simp
  with L2 show ?thesis
    by (auto simp: Let_def i_def [symmetric] split: take_result.split)
qed

lemma below_cap:
  assumes "\<not> num_le (Fin m) (Fin (of_nat n))" and "m \<in> \<int>" shows "of_nat n + 1 \<le> m"
proof -
  from assms(2) obtain k :: int where k: "m = of_int k" by (auto elim: Ints_cases)
  from assms(1) have "(of_int (int n) :: rat) < of_int k" by (auto simp: k)
  then have "int n < k" by (simp only: of_int_less_iff)
  then have "(of_int (int n + 1) :: rat) \<le> of_int k" by (simp only: of_int_le_iff)
  then show ?thesis by (simp add: k)
qed

lemma limit_value_truthy: "limit_value c r n = Fin m \<Longrightarrow> truthy c"
  by (auto simp: limit_value_def split: if_splits)

lemma connectionAllowed_step:
  assumes ch: "cached raw L"
    and cap: "limit_value (fst (limits_config 0 raw (limits_new 0))) None ''max_connections_per_ip'' = Fin m"
    and le: "of_nat (conn_count a L) \<le> m" and int: "m \<in> \<int>"
  shows "cached raw (snd (connectionAllowed now raw ip L))
    \<and> of_nat (conn_count a (snd (connectionAllowed now raw ip L))) \<le> m"
proof -
  obtain c L1 where c1: "limits_config now raw L = (c, L1)" by fastforce
  with limits_config_cached [OF ch, of now] have c: "c = fst (limits_config 0 raw (limits_new 0))"
    and ch1: "cached raw L1" and cn1: "connections L1 = connections L" by auto
  have c2: "fst (limits_config now raw L1) = c" using limits_config_cached [OF ch1] c by simp
  from cap c have on: "truthy c" by (simp add: limit_value_truthy)
  let ?i = "str_or ip ''unknown''" and ?L' = "snd (connectionAllowed now raw ip L)"
  note cs = connectionAllowed_cases [OF c1 c2 on, of ip, unfolded Let_def cap [folded c] cn1]
  have "of_nat (conn_count a ?L') \<le> m"
  proof (cases "fst (connectionAllowed now raw ip L) = Admit")
    case True
    with cs have cn: "connections ?L' = jset ?i (conn_count ?i L1 + 1) (connections L)"
      and nle: "\<not> num_le (Fin m) (Fin (of_nat (conn_count ?i L1)))" by simp_all
    from below_cap [OF nle int] cn le show ?thesis by (simp add: conn_count_def)
  next
    case False
    with cs le show ?thesis by (simp add: conn_count_def)
  qed
  with cs ch1 show ?thesis by (simp add: cached_def)
qed

lemma releaseConnection_step:
  "cached raw L \<Longrightarrow> cached raw (releaseConnection ip L) \<and> conn_count a (releaseConnection ip L) \<le> conn_count a L"
  by (auto simp: releaseConnection_def conn_count_def cached_def Let_def)

lemma conn_run_bound:
  assumes cap: "limit_value (fst (limits_config 0 raw (limits_new 0))) None ''max_connections_per_ip'' = Fin m"
    and int: "m \<in> \<int>"
  shows "cached raw L \<Longrightarrow> of_nat (conn_count a L) \<le> m \<Longrightarrow>
    cached raw (fold (conn_step raw) evs L) \<and> of_nat (conn_count a (fold (conn_step raw) evs L)) \<le> m"
proof (induction evs arbitrary: L)
  case (Cons ev evs)
  have "cached raw (conn_step raw ev L) \<and> of_nat (conn_count a (conn_step raw ev L)) \<le> m"
  proof (cases ev)
    case (Connect now ip)
    with connectionAllowed_step [OF Cons.prems(1) cap Cons.prems(2) int] show ?thesis by simp
  next
    case (Disconnect ip)
    have "(of_nat (conn_count a (releaseConnection ip L)) :: rat) \<le> of_nat (conn_count a L)"
      using releaseConnection_step [OF Cons.prems(1)] by (simp only: of_nat_le_iff)
    with Disconnect Cons.prems(2) releaseConnection_step [OF Cons.prems(1), of ip] show ?thesis
      by (metis conn_step.simps(2) order_trans)
  qed
  with Cons.IH show ?case by simp
qed simp

section \<open>Properties\<close>



text \<open>
  The retry hint is honest: when a bucket refuses a request that fits its burst, the same
  request is admitted after waiting the number of seconds it answered.
\<close>

theorem retry_after_sound:
  assumes inv: "limits_invar now L" and r: "0 < rate" and fit: "cost \<le> burst" and b: "0 \<le> burst"
    and no: "limits_take now k (Fin rate) burst cost L = (TakeNo ra, L')"
  shows "fst (limits_take (now + 1000 * ra) k (Fin rate) burst cost L') = TakeOk"
proof -
  let ?t = "refill now rate burst (jget (buckets (limits_prune now L)) k)"
  from no have lt: "?t < cost" and ra: "ra = max 1 \<lceil>(cost - ?t) / rate\<rceil>"
    and L': "jget (buckets L') k = Some \<lparr>tokens = ?t, updatedAt = now\<rparr>"
    by (auto simp: limits_take_def Let_def split: if_splits)
  have "(cost - ?t) / rate \<le> of_int ra" using ra by linarith
  then have "cost \<le> ?t + of_int ra * rate" using r by (simp add: pos_divide_le_eq)
  moreover have "wf_map (buckets L')"
    using limits_take_invar [OF inv less_imp_le [OF r] b, of k cost] no by (simp add: limits_invar_def)
  ultimately have "cost \<le> refill (now + 1000 * ra) rate burst (jget (buckets (limits_prune (now + 1000 * ra) L')) k)"
    using L' fit by (auto simp: limits_prune_get refill_def)
  then show ?thesis by (simp add: limits_take_def Let_def)
qed

theorem retry_after_sound_witness:
  "fst (limits_take (0 + 1000 * 1) ''k'' (Fin 1) 1 1 (snd (limits_take 0 ''k'' (Fin 1) 1 1
     (snd (limits_take 0 ''k'' (Fin 1) 1 1 (limits_new 0)))))) = TakeOk"
proof (rule retry_after_sound)
  show "limits_invar 0 (snd (limits_take 0 ''k'' (Fin 1) 1 1 (limits_new 0)))"
    by (rule limits_take_invar) (simp_all add: limits_new_invar)
  show "limits_take 0 ''k'' (Fin 1) 1 1 (snd (limits_take 0 ''k'' (Fin 1) 1 1 (limits_new 0))) =
    (TakeNo 1, snd (limits_take 0 ''k'' (Fin 1) 1 1 (snd (limits_take 0 ''k'' (Fin 1) 1 1 (limits_new 0)))))"
    by code_simp
qed simp_all

text \<open>
  The concurrent-connection cap holds at every moment: after any sequence of connection
  attempts and disconnects, no address has more registered connections than
  \<open>max_connections_per_ip\<close>.
\<close>

theorem connection_cap:
  assumes "limit_value (fst (limits_config 0 raw (limits_new 0))) None ''max_connections_per_ip'' = Fin m"
    and "m \<in> \<int>"
  shows "of_nat (conn_count ip (fold (conn_step raw) evs (limits_new t))) \<le> m"
proof -
  from assms(1) have "0 < m" by (auto simp: limit_value_def Let_def split: if_splits jsnum.splits)
  then show ?thesis
    using conn_run_bound [OF assms limits_new_cached] by (simp add: conn_count_def limits_new_def)
qed

theorem connection_cap_witness:
  "of_nat (conn_count ''10.0.0.1'' (fold (conn_step (JObj [(''max_connections_per_ip'', JNum (Fin 1))]))
     [Connect 5 (Some ''10.0.0.1''), Connect 6 (Some ''10.0.0.1'')] (limits_new 0))) \<le> (1 :: rat)"
  by (rule connection_cap) (code_simp, simp)

text \<open>The verdicts on a sequence of realm creations from one address.\<close>

fun realm_attempts :: "jsval \<Rightarrow> string option \<Rightarrow> int list \<Rightarrow> limits \<Rightarrow> verdict list" where
  "realm_attempts raw ip [] L = []"
| "realm_attempts raw ip (t # ts) L =
     (let (v, L') = realmCreationAllowed t raw ip L in v # realm_attempts raw ip ts L')"

text \<open>
  The hourly cap on realm creation can be exceeded: with \<open>realms_per_hour_per_ip\<close> 2, an
  address creates two realms, is refused a third, waits just over ten minutes (its idle bucket is
  dropped and made anew, full) and creates two more within the same hour.
\<close>

theorem realm_cap_exceeded:
  "realm_attempts (JObj [(''realms_per_hour_per_ip'', JNum (Fin 2))]) (Some ''10.0.0.1'')
     [0, 1000, 2000, 602001, 602002] (limits_new 0)
   = [Admit, Admit, Refuse ''realms_per_hour_per_ip'' 1798, Admit, Admit]"
  by code_simp

end
