(* ===== verification/Registration.thy ===== *)
theory Registration
  imports Router Rate_Limits
begin

text \<open>
  The handlers that change the routing state of a realm (\<open>lib/server.js\<close>): CONSUMER, PRODUCER,
  SUBSCRIBE, UNSUBSCRIBE, the disconnection of a socket and the idle sweep, and the invariant that
  every sequence of them keeps. Parsing of a frame that is sent as text happens before (\<open>JSON.parse\<close>).
\<close>

section \<open>Quotas\<close>

definition at_least :: "nat \<Rightarrow> jsnum \<Rightarrow> bool" where
  "at_least n limit \<longleftrightarrow> num_le limit (Fin (of_nat n))"

text \<open>The reason of a refusal, or the new count of the socket.\<close>

definition registrationAdmitted :: "jsnum \<Rightarrow> jsnum \<Rightarrow> nat \<Rightarrow> realm_state \<Rightarrow> string + nat" where
  "registrationAdmitted perSocket perRealm count R =
     (if at_least count perSocket then Inl ''max_registrations_per_socket''
      else if at_least (realmRegistrationCount R) perRealm then Inl ''max_registrations_per_realm''
      else Inr (count + 1))"

definition subscriptionAdmitted :: "jsnum \<Rightarrow> jsnum \<Rightarrow> nat \<Rightarrow> realm_state \<Rightarrow> string + nat" where
  "subscriptionAdmitted perSocket perRealm count R =
     (if at_least count perSocket then Inl ''max_subscriptions_per_socket''
      else if at_least (realmSubscriptionCount R) perRealm then Inl ''max_subscriptions_per_realm''
      else Inr (count + 1))"

section \<open>CONSUMER\<close>

record client_info =
  ci_name :: jsval
  ci_id :: "string option"
  ci_default_ttl :: jsval

datatype reg_outcome =
    BadName
  | NotThisIdentity
  | AnonymousRefused
  | DuplicateRefused string
  | RegisteredAs string "string option"

definition is_distinct_instance :: "string \<Rightarrow> string option \<Rightarrow> string option \<Rightarrow> bool" where
  "is_distinct_instance name incoming existing \<longleftrightarrow>
     str_truthy incoming \<and> incoming \<noteq> Some name \<and> str_truthy existing \<and> existing \<noteq> Some name \<and> incoming \<noteq> existing"

text \<open>The socket that holds the name and is still connected, if it is another one.\<close>

definition holder :: "(string \<Rightarrow> bool) \<Rightarrow> string \<Rightarrow> string \<Rightarrow> realm_state \<Rightarrow> (string \<times> consumer_meta) option" where
  "holder live sock name R =
     (case jget (rl_consumers R) name of
        None \<Rightarrow> None
      | Some m \<Rightarrow> (case cm_socket m of
          None \<Rightarrow> None
        | Some s \<Rightarrow> if s \<noteq> [] \<and> s \<noteq> sock \<and> live s then Some (s, m) else None))"

definition connect_message :: "string \<Rightarrow> string option \<Rightarrow> string \<Rightarrow> string \<Rightarrow> jsval" where
  "connect_message sock i k name =
     JObj ([(''event'', JStr ''CONNECT''), (''socket'', JStr sock)] @ (case i of None \<Rightarrow> [] | Some i \<Rightarrow> [(''id'', JStr i)]) @ [(k, JStr name)])"

text \<open>
  The CONSUMER handler past the quota. The answer names a socket the registration displaces (it is
  disconnected, which is a step of its own) and what is sent to the producers.
\<close>

definition handle_consumer ::
  "protocol \<Rightarrow> auth_settings \<Rightarrow> (string \<Rightarrow> bool) \<Rightarrow> string \<Rightarrow> sock_state \<Rightarrow> client_info \<Rightarrow> realm_state
     \<Rightarrow> reg_outcome \<times> sock_effect list \<times> realm_state" where
  "handle_consumer P A live sock k c R =
     (case ci_name c of
        JStr name \<Rightarrow>
          if \<not> identityBindingAllows k name then (NotThisIdentity, [], R)
          else if isAnonymousName (ANONYMOUS P) name \<and> \<not> isAnonymousAllowed A (getSocketRealmId k) then (AnonymousRefused, [], R)
          else
           (let h = holder live sock name R in
            if (case h of None \<Rightarrow> False | Some (s, m) \<Rightarrow> is_distinct_instance name (ci_id c) (cm_id m)) then (DuplicateRefused (fst (the h)), [], R)
            else let R' = setupConsumer sock (anon_name P name) (Some (str_or (ci_id c) sock)) R; cm = getConsumerMetaInfo (anon_name P name) R'
                 in (RegisteredAs name (map_option fst h),
                     concat (map (\<lambda>p. let pm = getProducerMetaInfo p R'
                        in send_opt (pm_socket pm) (toOnConnectEvent P (pm_id pm)) (connect_message sock (cm_id cm) ''consumer'' name)) (cm_subscribeTos cm)), R'))
      | _ \<Rightarrow> (BadName, [], R))"

section \<open>PRODUCER\<close>

text \<open>Consumers waiting for a producer, by the id of their subscription.\<close>

definition add_waiting :: "string \<Rightarrow> string \<Rightarrow> subscription \<Rightarrow> (string, string \<times> string list) jsmap \<Rightarrow> (string, string \<times> string list) jsmap" where
  "add_waiting producer ev s ids =
     (if producer \<in> set (sb_subscribeTos s)
      then (let k = (case sb_id s of None \<Rightarrow> ''undefined'' | Some i \<Rightarrow> i);
                e = (case jget ids k of None \<Rightarrow> (sb_name s, []) | Some e \<Rightarrow> e)
            in jset k (fst e, set_add ev (snd e)) ids)
      else ids)"

definition getSubscribersByProducer :: "string \<Rightarrow> realm_state \<Rightarrow> (string, string \<times> string list) jsmap" where
  "getSubscribersByProducer producer R =
     fold (\<lambda>(ev, subs) ids. fold (\<lambda>(c, s). add_waiting producer ev s) subs ids) (rl_subscriptions R) []"

text \<open>Confirm the subscriptions of one consumer; the events that had not been announced yet.\<close>

fun confirm_events :: "bool \<Rightarrow> string \<Rightarrow> string \<Rightarrow> string list \<Rightarrow> realm_state \<Rightarrow> string list \<times> realm_state" where
  "confirm_events resend sock consumer [] R = ([], R)"
| "confirm_events resend sock consumer (ev # evs) R =
     (let s = getEventSubscriber ev consumer R in
      if resend \<or> \<not> sb_acked s
      then (let (es, R') = confirm_events resend sock consumer evs
                  (putEventSubscriber ev consumer (s\<lparr>sb_acked := True, sb_subscribeToId := Some sock\<rparr>) R)
            in (ev # es, R'))
      else confirm_events resend sock consumer evs (putEventSubscriber ev consumer s R))"

definition js_online :: "bool option \<Rightarrow> jsval" where
  "js_online b = (case b of None \<Rightarrow> JUndef | Some v \<Rightarrow> JBool v)"

fun announce_producer ::
  "protocol \<Rightarrow> bool \<Rightarrow> string \<Rightarrow> string \<Rightarrow> (string, string \<times> string list) jsmap \<Rightarrow> realm_state \<Rightarrow> sock_effect list \<times> realm_state" where
  "announce_producer P resend sock producer [] R = ([], R)"
| "announce_producer P resend sock producer ((i, consumer, evs) # ids) R =
     (let who = anon_name P consumer; cm = getConsumerMetaInfo who R; pm = getProducerMetaInfo (anon_name P producer) R;
          R1 = putProducer (anon_name P producer) (pm\<lparr>pm_subscribers := set_add consumer (pm_subscribers pm)\<rparr>) (putConsumer who cm R);
          (fresh, R2) = confirm_events resend sock who evs R1;
          subs = (if fresh \<noteq> [] \<and> str_truthy (pm_id pm)
                  then send_opt (pm_socket pm) (toOnSubscribeEvent P (pm_id pm)) (sub_message fresh cm (js_online (cm_online cm))) else []);
          con = send_opt (cm_socket cm) (toOnConnectEvent P (cm_id cm)) (connect_message sock None ''producer'' producer);
          (es, R3) = announce_producer P resend sock producer ids R2
      in (subs @ con @ es, R3))"

definition handle_producer ::
  "protocol \<Rightarrow> auth_settings \<Rightarrow> string \<Rightarrow> sock_state \<Rightarrow> client_info \<Rightarrow> realm_state \<Rightarrow> reg_outcome \<times> sock_effect list \<times> realm_state" where
  "handle_producer P A sock k c R =
     (case ci_name c of
        JStr name \<Rightarrow>
          if \<not> identityBindingAllows k name then (NotThisIdentity, [], R)
          else if isAnonymousName (ANONYMOUS P) name \<and> \<not> isAnonymousAllowed A (getSocketRealmId k) then (AnonymousRefused, [], R)
          else
           (let pid = str_or (ci_id c) sock;
                key = anon_name P name;
                pm0 = getProducerMetaInfo key R;
                R0 = putProducer key (if ci_default_ttl c \<noteq> JUndef then pm0\<lparr>pm_default_ttl := ci_default_ttl c\<rparr> else pm0) R;
                resend = (str_truthy (pm_id pm0) \<and> pm_id pm0 \<noteq> Some pid);
                told = (if resend then [SendTo (the (pm_id pm0)) ''ERROR'' (JStr ''The same producer newly joined'')] else []);
                R1 = setupProducer sock key (Some pid) R0;
                (es, R2) = announce_producer P resend sock name (getSubscribersByProducer name R1) R1
            in (RegisteredAs name None, told @ es, R2))
      | _ \<Rightarrow> (BadName, [], R))"

section \<open>SUBSCRIBE\<close>

definition any_truthy :: "jsval \<Rightarrow> string list \<Rightarrow> bool" where
  "any_truthy ob ks = list_ex (\<lambda>k. truthy (obj_get ob k)) ks"

fun first_truthy :: "jsval list \<Rightarrow> jsval" where
  "first_truthy [] = JUndef"
| "first_truthy (v # vs) = (if truthy v then v else first_truthy vs)"

definition subscribe_options :: "string \<Rightarrow> jsval \<Rightarrow> sub_options" where
  "subscribe_options sock e =
     (let op = obj_get e ''options''; i = js_or (obj_get e ''id'') (JStr sock) in
      \<lparr>so_durable = (truthy (obj_get e ''durable'') \<or> truthy (obj_get op ''durable'')),
       so_consumer_id = opt_string (first_truthy [obj_get e ''consumer_id'', obj_get e ''consumerId'', i]),
       so_ack = (any_truthy e [''ack'', ''require_ack'', ''requireAck''] \<or> any_truthy op [''ack'', ''require_ack'', ''requireAck'']
                 \<or> any_truthy e [''manual_ack'', ''manualAck''] \<or> any_truthy op [''manual_ack'', ''manualAck'']),
       so_ack_timeout = first_truthy [obj_get e ''ack_timeout'', obj_get e ''ackTimeout'', obj_get op ''ack_timeout'', obj_get op ''ackTimeout''],
       so_retry = js_or (first_truthy [obj_get e ''retry'', obj_get op ''retry'']) JNull,
       so_group = opt_string (first_truthy [obj_get e ''group'', obj_get op ''group'']),
       so_mode = opt_string (first_truthy [obj_get e ''mode'', obj_get op ''mode''])\<rparr>)"

datatype subscribe_outcome = SubRaised | SubMalformed | Subscribed string

text \<open>The SUBSCRIBE handler past the quota; \<open>null\<close> raises, as \<open>typeof null\<close> is \<open>'object'\<close>.\<close>

definition handle_subscribe ::
  "protocol \<Rightarrow> jsval \<Rightarrow> string \<Rightarrow> jsval \<Rightarrow> realm_state \<Rightarrow> subscribe_outcome \<times> sock_effect list \<times> realm_state" where
  "handle_subscribe P ack_timeout sock e R =
     (if e = JNull then (SubRaised, [], R)
      else if is_plain_obj e \<and> truthy (obj_get e ''event'') then
       (let producer = str_or (opt_string (obj_get e ''producer'')) (ANONYMOUS P);
            consumer = str_or (opt_string (obj_get e ''consumer'')) (ANONYMOUS P);
            i = to_string (js_or (obj_get e ''id'') (JStr sock));
            scope = str_or (opt_string (obj_get e ''scope'')) (SCOPE_DEFAULT P);
            (es, ev, R') = subscribeMessage P ack_timeout sock (to_string (obj_get e ''event'')) producer consumer (Some i) scope (subscribe_options sock e) R
        in (Subscribed ev, es, R'))
      else (SubMalformed, [SendTo sock ''ERROR'' (JStr ''Message name should be a object'')], R))"

section \<open>The state of a realm stays well formed\<close>

definition flags_ok :: "string option \<Rightarrow> bool option \<Rightarrow> int option \<Rightarrow> bool" where
  "flags_ok sock online off \<longleftrightarrow> (sock \<noteq> None) = (online = Some True) \<and> (online = Some False \<longrightarrow> off \<noteq> None)"

text \<open>
  Names are unique, an entry holds its own name, an entry has a socket exactly when it is marked
  online and a time when it is marked offline, and a subscription is filed under a registered
  consumer: its own, unless it was created without a name (a lookup of a subscription never made).
\<close>

definition realm_wf :: "realm_state \<Rightarrow> bool" where
  "realm_wf R \<longleftrightarrow>
     wf_map (rl_consumers R) \<and> wf_map (rl_producers R) \<and> wf_map (rl_subscriptions R)
     \<and> (\<forall>n m. jget (rl_consumers R) n = Some m \<longrightarrow> cm_name m = n \<and> flags_ok (cm_socket m) (cm_online m) (cm_offline_at m))
     \<and> (\<forall>n m. jget (rl_producers R) n = Some m \<longrightarrow> flags_ok (pm_socket m) (pm_online m) (pm_offline_at m))
     \<and> (\<forall>ev. wf_map (getEventSubscriptions ev R))
     \<and> (\<forall>ev c s. jget (getEventSubscriptions ev R) c = Some s \<longrightarrow> (sb_name s = c \<or> sb_name s = []) \<and> jget (rl_consumers R) c \<noteq> None)"

lemma realm_wf_empty: "realm_wf realm_empty"
  by (simp add: realm_wf_def realm_empty_def getEventSubscriptions_def)

lemma wf_consumer:
  "realm_wf R \<Longrightarrow> cm_name (getConsumerMetaInfo n R) = n
     \<and> flags_ok (cm_socket (getConsumerMetaInfo n R)) (cm_online (getConsumerMetaInfo n R)) (cm_offline_at (getConsumerMetaInfo n R))"
  by (auto simp: realm_wf_def getConsumerMetaInfo_def consumer_new_def flags_ok_def split: option.splits)

lemma wf_producer:
  "realm_wf R \<Longrightarrow> flags_ok (pm_socket (getProducerMetaInfo n R)) (pm_online (getProducerMetaInfo n R)) (pm_offline_at (getProducerMetaInfo n R))"
  by (auto simp: realm_wf_def getProducerMetaInfo_def producer_new_def flags_ok_def split: option.splits)

lemma wf_subscriber: "realm_wf R \<Longrightarrow> sb_name (getEventSubscriber ev c R) = c \<or> sb_name (getEventSubscriber ev c R) = []"
  by (auto simp: realm_wf_def getEventSubscriber_def subscription_new_def split: option.splits)

lemma wf_putConsumer:
  "realm_wf R \<Longrightarrow> cm_name m = n \<Longrightarrow> flags_ok (cm_socket m) (cm_online m) (cm_offline_at m) \<Longrightarrow> realm_wf (putConsumer n m R)"
  by (simp add: realm_wf_def) (auto simp: putConsumer_def)

lemma wf_putProducer:
  "realm_wf R \<Longrightarrow> flags_ok (pm_socket m) (pm_online m) (pm_offline_at m) \<Longrightarrow> realm_wf (putProducer n m R)"
  by (simp add: realm_wf_def) (simp add: putProducer_def)

lemma wf_putEventSubscriber:
  "realm_wf R \<Longrightarrow> sb_name s = c \<or> sb_name s = [] \<Longrightarrow> jget (rl_consumers R) c \<noteq> None \<Longrightarrow> realm_wf (putEventSubscriber ev c s R)"
  by (simp add: realm_wf_def) (simp add: putEventSubscriber_def)

lemma wf_topicPatterns: "realm_wf R \<Longrightarrow> realm_wf (R\<lparr>rl_topicPatterns := tp\<rparr>)"
  by (simp add: realm_wf_def)

lemmas realm_wf_intros = wf_putConsumer wf_putProducer wf_putEventSubscriber wf_topicPatterns

lemma wf_setupConsumer: "realm_wf R \<Longrightarrow> realm_wf (setupConsumer sock n i R)"
  using wf_consumer [of R n] by (auto simp: setupConsumer_def Let_def flags_ok_def intro!: realm_wf_intros)

lemma wf_setupProducer: "realm_wf R \<Longrightarrow> realm_wf (setupProducer sock n i R)"
  by (auto simp: setupProducer_def Let_def flags_ok_def intro!: realm_wf_intros)

lemma consumer_known_put [simp]: "\<exists>m. jget (rl_consumers (setupConsumer sock n i R)) n = Some m"
  by (simp add: setupConsumer_def Let_def)

lemma wf_notify_one:
  "realm_wf R \<Longrightarrow> jget (rl_consumers R) c \<noteq> None \<Longrightarrow>
   realm_wf (snd (sendSubscriptionMessageToProducer P ev p c R))
   \<and> rl_consumers (snd (sendSubscriptionMessageToProducer P ev p c R)) = rl_consumers R"
  using wf_producer [of R p] wf_subscriber [of R ev c]
  by (auto simp: sendSubscriptionMessageToProducer_def Let_def intro!: realm_wf_intros)

lemma wf_notify_producers:
  "realm_wf R \<Longrightarrow> jget (rl_consumers R) c \<noteq> None \<Longrightarrow> realm_wf (snd (notify_producers P ev ps c R))"
proof (induction ps arbitrary: R)
  case (Cons p ps)
  with wf_notify_one [OF Cons.prems, of P ev p] show ?case by (simp add: Let_def split_beta)
qed simp

lemma wf_subscribeMessage: "realm_wf R \<Longrightarrow> realm_wf (snd (snd (subscribeMessage P t sock event producer consumer cid scope opts R)))"
proof -
  assume wf: "realm_wf R"
  define cm0 where "cm0 = getConsumerMetaInfo consumer R"
  define R1 where "R1 = (if str_truthy (cm_socket cm0) then putConsumer consumer cm0 R else setupConsumer sock consumer cid R)"
  define cm where "cm = getConsumerMetaInfo consumer R1"
  define eventStr where "eventStr = toConsumerEvent P event producer (Some (scope \<noteq> SCOPE_ALL P))"
  define s where "s = subscription_of t cm consumer opts (getEventSubscriber eventStr consumer R1)"
  define R2 where "R2 = (if sb_topic_mode s then R1\<lparr>rl_topicPatterns := jset eventStr (to_lower event) (rl_topicPatterns R1)\<rparr> else R1)"
  define s' where "s' = (if producer \<in> set (cm_subscribeTos cm) then s else s\<lparr>sb_subscribeTos := set_add producer (sb_subscribeTos s)\<rparr>)"
  define R3 where "R3 = putConsumer consumer (cm\<lparr>cm_subscribeTos := set_add producer (cm_subscribeTos cm)\<rparr>) (putEventSubscriber eventStr consumer s' R2)"
  define ps where "ps = (if producer \<noteq> ALL_PUBLISHERS P then [producer] else filter (\<lambda>n. n \<noteq> consumer) (map fst (rl_producers R3)))"
  have res: "snd (snd (subscribeMessage P t sock event producer consumer cid scope opts R)) = snd (notify_producers P eventStr ps consumer R3)"
    unfolding subscribeMessage_def Let_def
      cm0_def [symmetric] eventStr_def [symmetric] R1_def [symmetric] cm_def [symmetric] s_def [symmetric] R2_def [symmetric]
      s'_def [symmetric] R3_def [symmetric] ps_def [symmetric]
    by (simp add: split_beta)
  have R1: "realm_wf R1" "jget (rl_consumers R1) consumer \<noteq> None"
    using wf_consumer [OF wf, of consumer] wf by (auto simp: R1_def cm0_def wf_setupConsumer intro!: realm_wf_intros)
  have R2: "realm_wf R2" "rl_consumers R2 = rl_consumers R1"
    using R1 by (auto simp: R2_def intro!: realm_wf_intros)
  have "sb_name s' = consumer" by (simp add: s'_def s_def subscription_of_def)
  with R1 R2 have R3a: "realm_wf (putEventSubscriber eventStr consumer s' R2)" by (intro realm_wf_intros) auto
  have "realm_wf R3" unfolding R3_def
    by (rule wf_putConsumer [OF R3a]) (use wf_consumer [OF R1(1), of consumer] in \<open>simp_all add: cm_def\<close>)
  then show ?thesis unfolding res by (rule wf_notify_producers) (simp add: R3_def)
qed

lemma wf_confirm_events:
  "realm_wf R \<Longrightarrow> jget (rl_consumers R) c \<noteq> None \<Longrightarrow> realm_wf (snd (confirm_events resend sock c evs R))"
proof (induction evs arbitrary: R)
  case (Cons ev evs)
  define R1 where "R1 = putEventSubscriber ev c (getEventSubscriber ev c R) R"
  define R2 where "R2 = putEventSubscriber ev c ((getEventSubscriber ev c R)\<lparr>sb_acked := True, sb_subscribeToId := Some sock\<rparr>) R"
  have "realm_wf R1" "realm_wf R2"
    using Cons.prems wf_subscriber [OF Cons.prems(1), of ev c] by (auto simp: R1_def R2_def intro!: realm_wf_intros)
  then have "realm_wf (snd (confirm_events resend sock c evs R1))" "realm_wf (snd (confirm_events resend sock c evs R2))"
    using Cons.prems(2) by (auto simp: R1_def R2_def intro!: Cons.IH)
  then show ?case by (cases resend) (simp_all add: Let_def split_beta R1_def [symmetric] R2_def [symmetric])
qed simp

lemma wf_announce_producer: "realm_wf R \<Longrightarrow> realm_wf (snd (announce_producer P resend sock p ids R))"
proof (induction ids arbitrary: R)
  case (Cons e ids)
  obtain i c evs where e: "e = (i, c, evs)" by (metis prod_cases3)
  define q where "q = anon_name P p"
  define w where "w = anon_name P c"
  define R1 where "R1 = putProducer q ((getProducerMetaInfo q R)\<lparr>pm_subscribers := set_add c (pm_subscribers (getProducerMetaInfo q R))\<rparr>)
    (putConsumer w (getConsumerMetaInfo w R) R)"
  have "realm_wf R1" using Cons.prems wf_consumer [OF Cons.prems, of w] wf_producer [OF Cons.prems, of q]
    by (auto simp: R1_def intro!: realm_wf_intros)
  then have "realm_wf (snd (confirm_events resend sock w evs R1))"
    by (rule wf_confirm_events) (simp add: R1_def)
  from Cons.IH [OF this] show ?case by (simp add: e Let_def split_beta q_def [symmetric] w_def [symmetric] R1_def [symmetric])
qed simp

lemma wf_handle_consumer: "realm_wf R \<Longrightarrow> realm_wf (snd (snd (handle_consumer P A live sock k c R)))"
  by (auto simp: handle_consumer_def Let_def wf_setupConsumer split: jsval.split)

lemma wf_handle_producer: "realm_wf R \<Longrightarrow> realm_wf (snd (snd (handle_producer P A sock k c R)))"
proof -
  assume wf: "realm_wf R"
  have "realm_wf (putProducer n (if b then (getProducerMetaInfo n R)\<lparr>pm_default_ttl := t\<rparr> else getProducerMetaInfo n R) R)" for n b t
    using wf wf_producer [OF wf, of n] by (intro realm_wf_intros) auto
  then show ?thesis using wf
    by (simp add: handle_producer_def Let_def split_beta wf_announce_producer wf_setupProducer split: jsval.split)
qed

lemma wf_handle_subscribe: "realm_wf R \<Longrightarrow> realm_wf (snd (snd (handle_subscribe P t sock e R)))"
  by (simp add: handle_subscribe_def Let_def split_beta wf_subscribeMessage)

text \<open>Removing subscriptions keeps the invariant.\<close>

lemma wf_fewer_subscriptions:
  assumes "realm_wf R" "wf_map (rl_subscriptions R')" "rl_consumers R' = rl_consumers R" "rl_producers R' = rl_producers R"
    and "\<And>ev. wf_map (getEventSubscriptions ev R')"
    and "\<And>ev c s. jget (getEventSubscriptions ev R') c = Some s \<Longrightarrow> jget (getEventSubscriptions ev R) c = Some s"
  shows "realm_wf R'"
proof -
  from assms(1,6) have "\<And>ev c s. jget (getEventSubscriptions ev R') c = Some s \<Longrightarrow> (sb_name s = c \<or> sb_name s = []) \<and> jget (rl_consumers R) c \<noteq> None"
    unfolding realm_wf_def by blast
  with assms show ?thesis unfolding realm_wf_def by simp
qed

lemma wf_unsubscribe: "realm_wf R \<Longrightarrow> realm_wf (unsubscribe sock data R)"
proof (cases "jget (rl_subscriptions R) data")
  case (Some subs)
  assume wf: "realm_wf R"
  have "getEventSubscriptions data R = subs" using Some by (simp add: getEventSubscriptions_def)
  with wf have "wf_map subs" unfolding realm_wf_def by metis
  with wf Some show ?thesis
    by (intro wf_fewer_subscriptions [OF wf])
      (auto simp: unsubscribe_def getEventSubscriptions_def realm_wf_def split: option.splits if_splits)
qed (simp add: unsubscribe_def)

lemma wf_disconnect: "realm_wf R \<Longrightarrow> realm_wf (snd (disconnect P now sock R))"
proof -
  have p: "realm_wf (snd (disconnect_producer P now sock R))" if "realm_wf R" for R
    using that by (auto simp: disconnect_producer_def flags_ok_def intro!: realm_wf_intros split: option.splits)
  have c: "realm_wf (snd (disconnect_consumer P now sock R))" if wf: "realm_wf R" for R
  proof -
    have "cm_name m = n" if "find (\<lambda>(n, m). cm_socket m = Some sock) (rl_consumers R) = Some (n, m)" for n m
      using that wf by (auto simp: find_Some_iff realm_wf_def wf_map_in [symmetric]) (metis nth_mem)
    then show ?thesis using wf
      by (auto simp: disconnect_consumer_def flags_ok_def intro!: realm_wf_intros split: option.splits)
  qed
  show "realm_wf R \<Longrightarrow> ?thesis" by (simp add: disconnect_def Let_def split_beta p c)
qed

lemma jget_map_values: "jget (map (\<lambda>(k, v). (k, f k v)) m) k = map_option (f k) (jget m k)"
  by (induction m) auto

lemma getEventSubscriptions_deleteConsumer:
  "getEventSubscriptions ev (deleteConsumerFromSubscriptions n R) = jdel n (getEventSubscriptions ev R)"
  using jget_map_values [of "\<lambda>ev subs. jdel n subs" "rl_subscriptions R" ev]
  by (simp add: getEventSubscriptions_def deleteConsumerFromSubscriptions_def split: option.splits)

lemma wf_delete_consumer:
  assumes "realm_wf R"
  shows "realm_wf (deleteConsumerFromSubscriptions n (R\<lparr>rl_consumers := jdel n (rl_consumers R)\<rparr>))"
proof -
  have "map fst (rl_subscriptions (deleteConsumerFromSubscriptions n R)) = map fst (rl_subscriptions R)"
    by (auto simp: deleteConsumerFromSubscriptions_def)
  then have "wf_map (rl_subscriptions (deleteConsumerFromSubscriptions n R))"
    using assms by (simp add: realm_wf_def wf_map_def)
  moreover have "deleteConsumerFromSubscriptions n (R\<lparr>rl_consumers := jdel n (rl_consumers R)\<rparr>)
      = (deleteConsumerFromSubscriptions n R)\<lparr>rl_consumers := jdel n (rl_consumers R)\<rparr>"
    by (simp add: deleteConsumerFromSubscriptions_def)
  moreover have "getEventSubscriptions ev (R'\<lparr>rl_consumers := cs\<rparr>) = getEventSubscriptions ev R'" for ev R' cs
    by (simp add: getEventSubscriptions_def)
  moreover have "rl_producers (deleteConsumerFromSubscriptions n R) = rl_producers R"
    by (simp add: deleteConsumerFromSubscriptions_def)
  ultimately show ?thesis using assms
    by (auto simp: realm_wf_def getEventSubscriptions_deleteConsumer)
qed

lemma drop_events_rec [simp]:
  "drop_events f [] = []"
  "drop_events f ((ev, subs) # m) = (if f ev subs = [] \<and> subs \<noteq> [] then drop_events f m else (ev, f ev subs) # drop_events f m)"
  by (simp_all add: drop_events_def)

lemma drop_events_keys: "fst ` set (drop_events f m) \<subseteq> fst ` set m"
proof (induction m)
  case (Cons a m)
  then show ?case by (cases a) auto
qed simp

lemma drop_events_wf: "wf_map m \<Longrightarrow> wf_map (drop_events f m)"
proof (induction m)
  case (Cons a m)
  with drop_events_keys [of f m] show ?case by (cases a) (auto simp: wf_map_def)
qed simp

lemma drop_events_jget:
  "wf_map m \<Longrightarrow> jget (drop_events f m) ev =
     (case jget m ev of None \<Rightarrow> None | Some subs \<Rightarrow> if f ev subs = [] \<and> subs \<noteq> [] then None else Some (f ev subs))"
proof (induction m)
  case (Cons a m)
  have "ev = fst a \<Longrightarrow> jget m ev = None" using Cons.prems by (auto simp: wf_map_def map_of_eq_None_iff)
  with Cons show ?case by (cases a) (auto simp: wf_map_def)
qed simp

lemma deleteProducer_drop_events: "rl_subscriptions (deleteProducerFromSubscriptions p R) = drop_events (\<lambda>ev. drop_producer p) (rl_subscriptions R)"
  by (simp add: deleteProducerFromSubscriptions_def)

lemma getEventSubscriptions_deleteProducer:
  assumes "wf_map (rl_subscriptions R)"
  shows "getEventSubscriptions ev (deleteProducerFromSubscriptions p R) = drop_producer p (getEventSubscriptions ev R)"
  using drop_events_jget [OF assms, of "\<lambda>ev. drop_producer p" ev]
  by (auto simp: getEventSubscriptions_def deleteProducer_drop_events drop_producer_def split: option.splits)

lemma wf_delete_producer:
  assumes wf: "realm_wf R"
  shows "realm_wf (deleteProducerFromSubscriptions p (R\<lparr>rl_producers := jdel p (rl_producers R)\<rparr>))"
proof -
  let ?R = "R\<lparr>rl_producers := jdel p (rl_producers R)\<rparr>"
  have wf1: "realm_wf ?R" using wf by (simp add: realm_wf_def) (simp add: getEventSubscriptions_def)
  then have m: "wf_map (rl_subscriptions ?R)" by (simp add: realm_wf_def)
  show ?thesis
  proof (rule wf_fewer_subscriptions [OF wf1])
    show "wf_map (rl_subscriptions (deleteProducerFromSubscriptions p ?R))"
      using drop_events_wf [of "rl_subscriptions R" "\<lambda>ev. drop_producer p"] m
      by (simp add: deleteProducer_drop_events)
    fix ev
    have we: "wf_map (getEventSubscriptions ev ?R)" using wf1 by (simp add: realm_wf_def)
    then show "wf_map (getEventSubscriptions ev (deleteProducerFromSubscriptions p ?R))"
      unfolding getEventSubscriptions_deleteProducer [OF m] drop_producer_def by simp
    show "jget (getEventSubscriptions ev ?R) c = Some s"
      if "jget (getEventSubscriptions ev (deleteProducerFromSubscriptions p ?R)) c = Some s" for c s
      using that we unfolding getEventSubscriptions_deleteProducer [OF m] drop_producer_def
      by (auto simp: jget_filter split: option.splits if_splits)
  qed (simp_all add: deleteProducerFromSubscriptions_def)
qed

lemma fold_keeps: "Q R \<Longrightarrow> (\<And>n R. Q R \<Longrightarrow> Q (f n R)) \<Longrightarrow> Q (fold f ns R)"
  by (induction ns arbitrary: R) auto

lemma wf_sweep: "realm_wf R \<Longrightarrow> realm_wf (sweep_producers cutoff (sweep_consumers cutoff R))"
  unfolding sweep_producers_def sweep_consumers_def
  by (intro fold_keeps [where Q = realm_wf] wf_delete_producer wf_delete_consumer)

section \<open>Runs\<close>

datatype realm_op =
    OpConsumer "string \<Rightarrow> bool" string sock_state client_info
  | OpProducer string sock_state client_info
  | OpSubscribe string jsval
  | OpUnsubscribe string string
  | OpDisconnect int string
  | OpSweep int

fun realm_step :: "protocol \<Rightarrow> auth_settings \<Rightarrow> jsval \<Rightarrow> realm_op \<Rightarrow> realm_state \<Rightarrow> realm_state" where
  "realm_step P A t (OpConsumer live sock k c) R = snd (snd (handle_consumer P A live sock k c R))"
| "realm_step P A t (OpProducer sock k c) R = snd (snd (handle_producer P A sock k c R))"
| "realm_step P A t (OpSubscribe sock e) R = snd (snd (handle_subscribe P t sock e R))"
| "realm_step P A t (OpUnsubscribe sock data) R = unsubscribe sock data R"
| "realm_step P A t (OpDisconnect now sock) R = snd (disconnect P now sock R)"
| "realm_step P A t (OpSweep cutoff) R = sweep_producers cutoff (sweep_consumers cutoff R)"

text \<open>
  C7. The routing state of a realm stays well formed under every sequence of registrations,
  subscriptions, disconnections and sweeps: names are unique, an entry carries its own name, it has
  a socket exactly when it is marked online, and every subscription belongs to a registered consumer.
\<close>

theorem realm_run_wf: "realm_wf (fold (realm_step P A t) ops realm_empty)"
proof -
  have "realm_wf (realm_step P A t p R)" if "realm_wf R" for p R
    using that by (cases p)
      (simp_all add: wf_handle_consumer wf_handle_producer wf_handle_subscribe wf_unsubscribe wf_disconnect wf_sweep)
  then show ?thesis by (intro fold_keeps [where Q = realm_wf] realm_wf_empty)
qed

section \<open>Sockets that go away\<close>

definition holds_consumer :: "string \<Rightarrow> realm_state \<Rightarrow> string set" where
  "holds_consumer sock R = {n. \<exists>m. jget (rl_consumers R) n = Some m \<and> cm_socket m = Some sock}"

definition holds_producer :: "string \<Rightarrow> realm_state \<Rightarrow> string set" where
  "holds_producer sock R = {n. \<exists>m. jget (rl_producers R) n = Some m \<and> pm_socket m = Some sock}"

lemma find_entry:
  "find (\<lambda>(n, m). f m = Some sock) xs = Some (n, m) \<Longrightarrow> wf_map xs \<Longrightarrow> jget xs n = Some m \<and> f m = Some sock"
  by (auto simp: find_Some_iff wf_map_in [symmetric]) (metis nth_mem)

lemma find_no_entry: "find (\<lambda>(n, m). f m = Some sock) xs = None \<Longrightarrow> jget xs n = Some m \<Longrightarrow> f m \<noteq> Some sock"
  by (auto simp: find_None_iff dest!: map_of_SomeD)

lemma disconnect_producer_holds:
  assumes "wf_map (rl_producers R)"
  shows "\<exists>n. holds_producer sock (snd (disconnect_producer P now sock R)) = holds_producer sock R - {n}
    \<and> (holds_producer sock R \<noteq> {} \<longrightarrow> n \<in> holds_producer sock R)
    \<and> rl_consumers (snd (disconnect_producer P now sock R)) = rl_consumers R"
proof (cases "find (\<lambda>(n, m). pm_socket m = Some sock) (rl_producers R)")
  case None
  then have "holds_producer sock R = {}" by (auto simp: holds_producer_def dest: find_no_entry)
  with None show ?thesis by (auto simp: disconnect_producer_def)
next
  case (Some e)
  obtain n m where e: "e = (n, m)" by (cases e)
  have f: "jget (rl_producers R) n = Some m" "pm_socket m = Some sock" using find_entry [OF Some [unfolded e] assms] by auto
  then show ?thesis using Some e
    by (intro exI [of _ n]) (auto simp: disconnect_producer_def holds_producer_def putProducer_def split: if_splits)
qed

lemma disconnect_consumer_holds:
  assumes "wf_map (rl_consumers R)"
  shows "\<exists>n. holds_consumer sock (snd (disconnect_consumer P now sock R)) = holds_consumer sock R - {n}
    \<and> (holds_consumer sock R \<noteq> {} \<longrightarrow> n \<in> holds_consumer sock R)
    \<and> rl_producers (snd (disconnect_consumer P now sock R)) = rl_producers R"
proof (cases "find (\<lambda>(n, m). cm_socket m = Some sock) (rl_consumers R)")
  case None
  then have "holds_consumer sock R = {}" by (auto simp: holds_consumer_def dest: find_no_entry)
  with None show ?thesis by (auto simp: disconnect_consumer_def)
next
  case (Some e)
  obtain n m where e: "e = (n, m)" by (cases e)
  have f: "jget (rl_consumers R) n = Some m" "cm_socket m = Some sock" using find_entry [OF Some [unfolded e] assms] by auto
  then show ?thesis using Some e
    by (intro exI [of _ n]) (auto simp: disconnect_consumer_def holds_consumer_def putConsumer_def split: if_splits)
qed

text \<open>
  When a socket disconnects, exactly one consumer name and one producer name that it held are
  marked offline: a socket that registered at most one name of each kind holds none afterwards, and
  a socket that registered more keeps all the others.
\<close>

theorem disconnect_clears_one:
  assumes "realm_wf R"
  shows "\<exists>c p. holds_consumer sock (snd (disconnect P now sock R)) = holds_consumer sock R - {c}
    \<and> holds_producer sock (snd (disconnect P now sock R)) = holds_producer sock R - {p}
    \<and> (holds_consumer sock R \<noteq> {} \<longrightarrow> c \<in> holds_consumer sock R) \<and> (holds_producer sock R \<noteq> {} \<longrightarrow> p \<in> holds_producer sock R)"
proof -
  define R1 where "R1 = snd (disconnect_producer P now sock R)"
  have R': "snd (disconnect P now sock R) = snd (disconnect_consumer P now sock R1)"
    by (simp add: disconnect_def R1_def split_beta Let_def)
  from assms have w: "wf_map (rl_producers R)" "wf_map (rl_consumers R)" by (simp_all add: realm_wf_def)
  from disconnect_producer_holds [OF w(1), of sock P now] obtain p where
    p: "holds_producer sock R1 = holds_producer sock R - {p}" "holds_producer sock R \<noteq> {} \<longrightarrow> p \<in> holds_producer sock R"
      "rl_consumers R1 = rl_consumers R"
    unfolding R1_def by blast
  from disconnect_consumer_holds [of R1 sock P now] p(3) w(2) obtain c where
    c: "holds_consumer sock (snd (disconnect P now sock R)) = holds_consumer sock R1 - {c}"
      "holds_consumer sock R1 \<noteq> {} \<longrightarrow> c \<in> holds_consumer sock R1" "rl_producers (snd (disconnect P now sock R)) = rl_producers R1"
    unfolding R' by metis
  have "holds_consumer sock R1 = holds_consumer sock R" using p(3) by (simp add: holds_consumer_def)
  moreover have "holds_producer sock (snd (disconnect P now sock R)) = holds_producer sock R1" using c(3) by (simp add: holds_producer_def)
  ultimately show ?thesis using p c by metis
qed

text \<open>Two names on one socket: the second one keeps the socket that is gone.\<close>

definition two_names :: realm_state where
  "two_names = setupConsumer ''s1'' ''alice2'' None (setupConsumer ''s1'' ''alice'' None realm_empty)"

theorem disconnect_clears_one_witness:
  "holds_consumer ''s1'' (snd (disconnect sample_protocol 5 ''s1'' two_names)) \<noteq> {}
   \<and> findRecipientSocket ''alice2'' (snd (disconnect sample_protocol 5 ''s1'' two_names)) = Some ''s1''"
proof
  have "realm_wf two_names" by (simp add: two_names_def wf_setupConsumer realm_wf_empty)
  from disconnect_clears_one [OF this, of "''s1''" sample_protocol 5] obtain c where
    c: "holds_consumer ''s1'' (snd (disconnect sample_protocol 5 ''s1'' two_names)) = holds_consumer ''s1'' two_names - {c}" by blast
  have "''alice'' \<in> holds_consumer ''s1'' two_names" "''alice2'' \<in> holds_consumer ''s1'' two_names"
    by (simp_all add: holds_consumer_def two_names_def setupConsumer_def Let_def)
  then show "holds_consumer ''s1'' (snd (disconnect sample_protocol 5 ''s1'' two_names)) \<noteq> {}"
    unfolding c by (cases "c = ''alice''") auto
qed code_simp

text \<open>
  A registration that displaces another socket keeps its mapping whichever of the two runs first,
  the registration or the displaced socket's disconnection.
\<close>

lemma displacement_survives:
  assumes "wf_map (rl_consumers R)" "sock \<noteq> old"
  shows "cm_socket (getConsumerMetaInfo n (snd (disconnect P now old (setupConsumer sock n i R)))) = Some sock
    \<and> cm_socket (getConsumerMetaInfo n (setupConsumer sock n i (snd (disconnect P now old R)))) = Some sock"
proof
  define R1 where "R1 = snd (disconnect_producer P now old (setupConsumer sock n i R))"
  have c1: "rl_consumers R1 = rl_consumers (setupConsumer sock n i R)"
    by (simp add: R1_def disconnect_producer_def split: option.split prod.split)
  then have w: "wf_map (rl_consumers R1)" using assms(1) by (simp add: setupConsumer_def Let_def)
  have s: "cm_socket (getConsumerMetaInfo n R1) = Some sock"
    using getConsumerMetaInfo_cong [OF c1, of n] by (simp add: setupConsumer_def Let_def)
  have "cm_socket (getConsumerMetaInfo n (snd (disconnect_consumer P now old R1))) = Some sock"
  proof (cases "find (\<lambda>(n, m). cm_socket m = Some old) (rl_consumers R1)")
    case (Some e)
    obtain n' m where e: "e = (n', m)" by (cases e)
    from find_entry [OF Some [unfolded e] w] s assms(2) have "n' \<noteq> n"
      by (auto simp: getConsumerMetaInfo_def)
    with Some e s show ?thesis by (simp add: disconnect_consumer_def)
  qed (simp add: disconnect_consumer_def s)
  then show "cm_socket (getConsumerMetaInfo n (snd (disconnect P now old (setupConsumer sock n i R)))) = Some sock"
    by (simp add: disconnect_def split_beta Let_def R1_def)
qed (simp add: setupConsumer_def Let_def)

section \<open>Unsubscribing\<close>

text \<open>
  UNSUBSCRIBE never takes a subscription away: subscriptions are filed under the name of their
  consumer, the handler deletes the entry under the id of the socket, so unless a consumer is named
  like the socket the state after it is the state before it.
\<close>

theorem unsubscribe_inert:
  assumes "realm_wf R" and "jget (rl_consumers R) sock = None"
  shows "unsubscribe sock data R = R"
proof (cases "jget (rl_subscriptions R) data")
  case (Some subs)
  then have "getEventSubscriptions data R = subs" by (simp add: getEventSubscriptions_def)
  with assms have "jget subs sock = None" unfolding realm_wf_def by (metis option.exhaust)
  with Some show ?thesis by (simp add: unsubscribe_def)
qed (simp add: unsubscribe_def)

theorem unsubscribe_inert_witness:
  "unsubscribe ''s1'' ''bob-news'' (subscribed_realm plain_options) = subscribed_realm plain_options
   \<and> length (getEventSubscriptions ''bob-news'' (subscribed_realm plain_options)) = 1"
proof
  show "unsubscribe ''s1'' ''bob-news'' (subscribed_realm plain_options) = subscribed_realm plain_options"
  proof (rule unsubscribe_inert)
    show "realm_wf (subscribed_realm plain_options)"
      unfolding subscribed_realm_def by (rule wf_subscribeMessage [OF realm_wf_empty])
  qed code_simp
qed code_simp

section \<open>Entries that are linked are swept\<close>

text \<open>
  A consumer subscribes while the producer is away; the idle sweep evicts the producer, whose set of
  subscribers is still empty, and with it the subscription of the consumer that is online.
\<close>

lemma sweep_drops_live_subscription:
  "let R0 = putProducer ''bob'' (producer_new\<lparr>pm_id := Some ''b'', pm_online := Some False, pm_offline_at := Some 10\<rparr>) realm_empty;
       R1 = snd (snd (subscribeMessage sample_protocol JUndef ''s1'' ''news'' ''bob'' ''alice'' (Some ''a'') ''default'' plain_options R0))
   in length (getEventSubscriptions ''bob-news'' R1) = 1 \<and> cm_online (getConsumerMetaInfo ''alice'' R1) = Some True
      \<and> getEventSubscriptions ''bob-news'' (sweep_producers 20 (sweep_consumers 20 R1)) = []"
  by code_simp

text \<open>
  Two consumers with one id: when their producer registers, the events of the second are announced
  under the name of the first, and a subscription the first never made is created without a name.
\<close>

definition shared_id :: realm_state where
  "shared_id = (let sub = (\<lambda>consumer ev R. snd (snd (subscribeMessage sample_protocol JUndef ''s1'' ev ''bob'' consumer (Some ''s1'') ''default'' plain_options R)))
     in sub ''carol'' ''sport'' (sub ''alice'' ''news'' realm_empty))"

lemma waiting_merged:
  "getSubscribersByProducer ''bob'' shared_id = [(''s1'', ''alice'', [''bob-news'', ''bob-sport''])]
   \<and> jget (getEventSubscriptions ''bob-sport'' shared_id) ''alice'' = None"
  by code_simp

lemma confirm_creates_unnamed:
  "jget (getEventSubscriptions ev R) c = None \<Longrightarrow>
   \<exists>s. jget (getEventSubscriptions ev (snd (confirm_events resend sock c [ev] R))) c = Some s \<and> sb_name s = []"
  by (simp add: getEventSubscriber_def subscription_new_def Let_def)

text \<open>
  The empty name passes the check for anonymous names and is then registered as the anonymous consumer.
\<close>

lemma empty_name_is_anonymous:
  "ANONYMOUS P = CHR ''A'' # rest \<Longrightarrow> \<not> isAnonymousAllowed A (getSocketRealmId k) \<Longrightarrow> sk_auth k = None \<Longrightarrow> jget (rl_consumers R) [] = None \<Longrightarrow>
   fst (handle_consumer P A live sock k \<lparr>ci_name = JStr [], ci_id = i, ci_default_ttl = t\<rparr> R) = RegisteredAs [] None
   \<and> cm_socket (getConsumerMetaInfo (ANONYMOUS P) (snd (snd (handle_consumer P A live sock k \<lparr>ci_name = JStr [], ci_id = i, ci_default_ttl = t\<rparr> R)))) = Some sock"
  by (simp add: handle_consumer_def Let_def identityBindingAllows_def isAnonymousName_def holder_def anon_name_def setupConsumer_def)

end
