(* ===== verification/Delivery.thy ===== *)
theory Delivery
  imports Registration Memory_Store Sqlite_Store
begin

text \<open>
  Reliable delivery (\<open>lib/server.js\<close>): the store requests of the router, acknowledgement timeouts,
  retries, dead-lettering, acknowledgements and the replay of stored messages, as a state machine over
  the broker's state and a durable store. The store is reached through its operations only
  (\<open>store_ops\<close>); the laws come from \<open>durable_store\<close>, so every result holds for each backend that
  interprets it. Timers are events of the machine: a pending acknowledgement may time out at any
  moment, a scheduled retry may fire at any moment.
\<close>

section \<open>Retry policies\<close>

record retry_policy =
  rp_max_attempts :: jsnum
  rp_delay_ms :: jsnum
  rp_backoff :: jsval

definition num_max :: "jsnum \<Rightarrow> jsnum \<Rightarrow> jsnum" where
  "num_max a b = (if a = NaN \<or> b = NaN then NaN else if num_le a b then b else a)"

definition normalizeRetryPolicy :: "subscription \<Rightarrow> retry_policy" where
  "normalizeRetryPolicy s =
     (let retry = (if truthy (sb_retry s) then sb_retry s else JObj []) in
      \<lparr>rp_max_attempts = num_max (Fin 1)
         (number_or (first_truthy [obj_get retry ''max_attempts'', obj_get retry ''maxAttempts'', JNum (Fin 3)]) 3),
       rp_delay_ms = parseDurationMs (first_truthy [obj_get retry ''delay'', JStr ''5s'']) (Fin 5000),
       rp_backoff = first_truthy [obj_get retry ''backoff'', JStr ''fixed'']\<rparr>)"

definition retryDelayMs :: "retry_policy \<Rightarrow> nat \<Rightarrow> jsnum" where
  "retryDelayMs p attempt =
     (if rp_backoff p = JStr ''exponential''
      then (case rp_delay_ms p of Fin r \<Rightarrow> Fin (r * 2 ^ (attempt - 1)) | n \<Rightarrow> n) else rp_delay_ms p)"

section \<open>State\<close>

record 's store_ops =
  op_enqueue :: "int \<Rightarrow> string \<Rightarrow> string option \<Rightarrow> string option \<Rightarrow> message \<Rightarrow> 's \<Rightarrow> (store_error + string) \<times> 's"
  op_dequeue :: "int \<Rightarrow> string option \<Rightarrow> string option \<Rightarrow> string option \<Rightarrow> 's \<Rightarrow> entry list \<times> 's"
  op_ack :: "string \<Rightarrow> 's \<Rightarrow> 's"
  op_deadLetter :: "int \<Rightarrow> string \<Rightarrow> string option \<Rightarrow> 's \<Rightarrow> string option \<times> 's"
  op_countQueued :: "int \<Rightarrow> string option \<Rightarrow> string option \<Rightarrow> string option \<Rightarrow> 's \<Rightarrow> nat \<times> 's"

record job =
  jb_id :: string
  jb_realm :: string
  jb_event :: string
  jb_message :: jsval
  jb_sub :: subscription

record pending =
  pn_socket :: string
  pn_attempt :: nat
  pn_job :: job
  pn_policy :: retry_policy

text \<open>
  \<open>co_sent\<close> records what was sent: socket, job and attempt, 0 for a replay without acknowledgement;
  \<open>co_wakes\<close> the wakes that were fired: realm, name and kind.
\<close>

record 's courier =
  co_store :: 's
  co_broker :: broker
  co_pending :: "(string, pending) jsmap"
  co_retries :: "(job \<times> nat) list"
  co_sent :: "(string \<times> job \<times> nat) list"
  co_wakes :: "(string \<times> string \<times> jsval) list"

text \<open>The live socket of the consumer a subscription belongs to, read when it is needed.\<close>

definition consumer_socket :: "protocol \<Rightarrow> string \<Rightarrow> subscription \<Rightarrow> 's courier \<Rightarrow> string option" where
  "consumer_socket P realm s c =
     (let k = cm_socket (getConsumerMetaInfo (anon_name P (sb_name s)) (getRealm realm (co_broker c))) in if str_truthy k then k else None)"

section \<open>Delivering and retrying\<close>

text \<open>\<open>deliverDurableEntry\<close> with \<open>scheduleAckTimeout\<close>.\<close>

definition deliverDurableEntry :: "protocol \<Rightarrow> job \<Rightarrow> nat \<Rightarrow> 's courier \<Rightarrow> 's courier" where
  "deliverDurableEntry P j attempt c =
     (case consumer_socket P (jb_realm j) (jb_sub j) c of
        None \<Rightarrow> c
      | Some sock \<Rightarrow>
          c\<lparr>co_sent := co_sent c @ [(sock, j, attempt)],
            co_pending := jset (jb_id j) \<lparr>pn_socket = sock, pn_attempt = attempt, pn_job = j, pn_policy = normalizeRetryPolicy (jb_sub j)\<rparr> (co_pending c)\<rparr>)"

definition deadLetterMessage :: "'s store_ops \<Rightarrow> int \<Rightarrow> string \<Rightarrow> string \<Rightarrow> 's courier \<Rightarrow> 's courier" where
  "deadLetterMessage S now msgId reason c = c\<lparr>co_store := snd (op_deadLetter S now msgId (Some reason) (co_store c))\<rparr>"

text \<open>The timer of a pending acknowledgement.\<close>

definition ack_timeout :: "'s store_ops \<Rightarrow> int \<Rightarrow> string \<Rightarrow> 's courier \<Rightarrow> 's courier" where
  "ack_timeout S now msgId c =
     (case jget (co_pending c) msgId of
        None \<Rightarrow> c
      | Some p \<Rightarrow>
          (let c1 = c\<lparr>co_pending := jdel msgId (co_pending c)\<rparr> in
           if num_le (rp_max_attempts (pn_policy p)) (Fin (of_nat (pn_attempt p)))
           then deadLetterMessage S now msgId (''ack timeout after '' @ show_nat (pn_attempt p) @ '' attempt(s)'') c1
           else c1\<lparr>co_retries := co_retries c1 @ [(pn_job p, pn_attempt p + 1)]\<rparr>))"

text \<open>The timer of the k-th scheduled retry.\<close>

definition fire_retry :: "protocol \<Rightarrow> nat \<Rightarrow> 's courier \<Rightarrow> 's courier" where
  "fire_retry P k c =
     (if k < length (co_retries c)
      then (case co_retries c ! k of
              (j, a) \<Rightarrow> deliverDurableEntry P j a (c\<lparr>co_retries := take k (co_retries c) @ drop (Suc k) (co_retries c)\<rparr>))
      else c)"

section \<open>Storing\<close>

definition request_message :: "store_request \<Rightarrow> message" where
  "request_message q = \<lparr>m_id = None, m_consumer = None, m_consumer_id = Some (sr_consumer q), m_payload = sr_message q,
     m_message = JUndef, m_producer = opt_string (sr_producer q), m_ttl = sr_ttl q\<rparr>"

text \<open>
  \<open>enqueueDurableMessage\<close> for a request that passed its guard; \<open>cap\<close> is \<open>max_queued_per_realm\<close> while
  the limiter is enabled (else infinite). A full queue and a failed enqueue give no id.
\<close>

definition enqueueDurableMessage :: "'s store_ops \<Rightarrow> jsnum \<Rightarrow> int \<Rightarrow> string \<Rightarrow> store_request \<Rightarrow> 's \<Rightarrow> string option \<times> 's" where
  "enqueueDurableMessage S cap now gen q s0 =
     (let (full, s) = (if is_finite cap
            then (let (n, s1) = op_countQueued S now (Some (sr_realm q)) None None s0 in (at_least n cap, s1)) else (False, s0))
      in if full then (None, s)
         else (case op_enqueue S now gen (Some (sr_realm q)) (Some (sr_event q)) (request_message q) s of
             (Inl err, s') \<Rightarrow> (None, s')
           | (Inr i, s') \<Rightarrow> (Some i, s')))"

definition job_of_request :: "string \<Rightarrow> store_request \<Rightarrow> job" where
  "job_of_request i q = \<lparr>jb_id = i, jb_realm = sr_realm q, jb_event = sr_event q, jb_message = sr_message q, jb_sub = sr_subscription q\<rparr>"

text \<open>One delivery of the router: \<open>enqueueAndDeliverReliable\<close>, or the branch of \<open>deliverToSubscription\<close> for an offline consumer.\<close>

definition run_delivery ::
  "protocol \<Rightarrow> auth_settings \<Rightarrow> 's store_ops \<Rightarrow> jsnum \<Rightarrow> int \<Rightarrow> string \<Rightarrow> delivery \<Rightarrow> 's courier \<Rightarrow> 's courier" where
  "run_delivery P A S cap now gen d c =
     (case d of
        Reliable q \<Rightarrow>
          (case enqueueDurableMessage S cap now gen q (co_store c) of
             (None, s) \<Rightarrow> c\<lparr>co_store := s\<rparr>
           | (Some i, s) \<Rightarrow> if i = [] then c\<lparr>co_store := s\<rparr> else deliverDurableEntry P (job_of_request i q) 1 (c\<lparr>co_store := s\<rparr>))
      | Queue q \<Rightarrow>
          (case enqueueDurableMessage S cap now gen q (co_store c) of
             (None, s) \<Rightarrow> c\<lparr>co_store := s\<rparr>
           | (Some i, s) \<Rightarrow> if i = [] then c\<lparr>co_store := s\<rparr>
               else c\<lparr>co_store := s, co_wakes := co_wakes c @ [(sr_realm q, sb_name (sr_subscription q), fst (wakePolicyFor A (sr_realm q) (sr_wake q)))]\<rparr>)
      | _ \<Rightarrow> c)"

section \<open>Replay\<close>

definition job_of_entry :: "subscription \<Rightarrow> entry \<Rightarrow> job" where
  "job_of_entry s x = \<lparr>jb_id = e_id x, jb_realm = e_realm x, jb_event = e_event x, jb_message = e_payload x, jb_sub = s\<rparr>"

definition replay_entry :: "protocol \<Rightarrow> 's store_ops \<Rightarrow> string \<Rightarrow> subscription \<Rightarrow> entry \<Rightarrow> 's courier \<Rightarrow> 's courier" where
  "replay_entry P S realm s x c =
     (case consumer_socket P realm s c of
        None \<Rightarrow> c
      | Some sock \<Rightarrow>
          if sb_ack_required s then deliverDurableEntry P (job_of_entry s x) 1 c
          else c\<lparr>co_sent := co_sent c @ [(sock, job_of_entry s x, 0)], co_store := op_ack S (e_id x) (co_store c)\<rparr>)"

definition replay_consumer :: "subscription \<Rightarrow> consumer_meta \<Rightarrow> string" where
  "replay_consumer s m = str_or (Some (sb_consumer_id s)) (str_or (cm_id m) (cm_name m))"

definition replayDurableMessages :: "protocol \<Rightarrow> 's store_ops \<Rightarrow> int \<Rightarrow> string \<Rightarrow> string \<Rightarrow> subscription \<Rightarrow> 's courier \<Rightarrow> 's courier" where
  "replayDurableMessages P S now realm ev s c =
     (case consumer_socket P realm s c of
        None \<Rightarrow> c
      | Some sock \<Rightarrow>
          (let m = getConsumerMetaInfo (anon_name P (sb_name s)) (getRealm realm (co_broker c));
               (xs, st) = op_dequeue S now (Some realm) (Some ev) (Some (replay_consumer s m)) (co_store c)
           in fold (replay_entry P S realm s) xs (c\<lparr>co_store := st\<rparr>)))"

section \<open>Acknowledgement and disconnection\<close>

datatype ack_reply = AckOk | AckUnknown | AckForbidden

definition handle_ack :: "'s store_ops \<Rightarrow> string \<Rightarrow> string \<Rightarrow> 's courier \<Rightarrow> ack_reply \<times> 's courier" where
  "handle_ack S sock msgId c =
     (case jget (co_pending c) msgId of
        None \<Rightarrow> (AckUnknown, c)
      | Some p \<Rightarrow>
          if pn_socket p \<noteq> sock then (AckForbidden, c)
          else (AckOk, c\<lparr>co_pending := jdel msgId (co_pending c), co_store := op_ack S msgId (co_store c)\<rparr>))"

text \<open>The disconnect handler: pending acknowledgements of the socket are dropped, the messages stay stored.\<close>

definition courier_disconnect :: "protocol \<Rightarrow> int \<Rightarrow> string \<Rightarrow> string \<Rightarrow> 's courier \<Rightarrow> 's courier" where
  "courier_disconnect P now realm sock c =
     c\<lparr>co_pending := filter (\<lambda>(i, p). pn_socket p \<noteq> sock) (co_pending c),
       co_broker := putRealm realm (snd (disconnect P now sock (getRealm realm (co_broker c)))) (co_broker c)\<rparr>"

section \<open>The machine\<close>

datatype courier_event =
    EvDelivery int string delivery
  | EvReplay int string string subscription
  | EvTimeout int string
  | EvRetry nat
  | EvAck string string
  | EvDisconnect int string string
  | EvRealm string realm_op

fun courier_step :: "protocol \<Rightarrow> auth_settings \<Rightarrow> jsval \<Rightarrow> 's store_ops \<Rightarrow> jsnum \<Rightarrow> courier_event \<Rightarrow> 's courier \<Rightarrow> 's courier" where
  "courier_step P A t S cap (EvDelivery now gen d) c = run_delivery P A S cap now gen d c"
| "courier_step P A t S cap (EvReplay now realm ev s) c = replayDurableMessages P S now realm ev s c"
| "courier_step P A t S cap (EvTimeout now i) c = ack_timeout S now i c"
| "courier_step P A t S cap (EvRetry k) c = fire_retry P k c"
| "courier_step P A t S cap (EvAck sock i) c = snd (handle_ack S sock i c)"
| "courier_step P A t S cap (EvDisconnect now realm sock) c = courier_disconnect P now realm sock c"
| "courier_step P A t S cap (EvRealm realm op) c = c\<lparr>co_broker := putRealm realm (realm_step P A t op (getRealm realm (co_broker c))) (co_broker c)\<rparr>"

definition courier_new :: "'s \<Rightarrow> broker \<Rightarrow> 's courier" where
  "courier_new s B = \<lparr>co_store = s, co_broker = B, co_pending = [], co_retries = [], co_sent = [], co_wakes = []\<rparr>"

inductive courier_reach :: "protocol \<Rightarrow> auth_settings \<Rightarrow> jsval \<Rightarrow> 's store_ops \<Rightarrow> jsnum \<Rightarrow> 's courier \<Rightarrow> 's courier \<Rightarrow> bool"
  for P A t S cap c0 where
  reach_start: "courier_reach P A t S cap c0 c0"
| reach_step: "courier_reach P A t S cap c0 c \<Longrightarrow> courier_reach P A t S cap c0 (courier_step P A t S cap ev c)"

section \<open>Attempts\<close>

text \<open>The limit is a number of at least one, perhaps fractional or infinite; an attempt is allowed while its predecessor is below it.\<close>

definition attempt_ok :: "job \<Rightarrow> nat \<Rightarrow> bool" where
  "attempt_ok j a \<longleftrightarrow> num_lt (Fin (of_nat a - 1)) (rp_max_attempts (normalizeRetryPolicy (jb_sub j)))"

lemma number_or_not_NaN: "number_or v d \<noteq> NaN"
  by (auto simp: number_or_def Let_def)

lemma max_attempts_form: "(\<exists>r \<ge> 1. rp_max_attempts (normalizeRetryPolicy s) = Fin r) \<or> rp_max_attempts (normalizeRetryPolicy s) = PosInf"
proof -
  define n where "n = number_or (first_truthy [obj_get (if truthy (sb_retry s) then sb_retry s else JObj []) ''max_attempts'',
     obj_get (if truthy (sb_retry s) then sb_retry s else JObj []) ''maxAttempts'', JNum (Fin 3)]) 3"
  have "n \<noteq> NaN" by (simp only: n_def number_or_not_NaN not_False_eq_True)
  moreover have "rp_max_attempts (normalizeRetryPolicy s) = num_max (Fin 1) n"
    by (simp only: normalizeRetryPolicy_def Let_def n_def retry_policy.simps)
  ultimately show ?thesis by (cases n) (auto simp: num_max_def)
qed

lemma attempt_first: "a \<le> 1 \<Longrightarrow> attempt_ok j a"
  using max_attempts_form [of "jb_sub j"] by (cases a) (auto simp: attempt_ok_def)

lemma attempt_next: "\<not> num_le (rp_max_attempts (normalizeRetryPolicy (jb_sub j))) (Fin (of_nat a)) \<Longrightarrow> attempt_ok j (Suc a)"
  using max_attempts_form [of "jb_sub j"] by (auto simp: attempt_ok_def)

definition courier_inv :: "'s courier \<Rightarrow> bool" where
  "courier_inv c \<longleftrightarrow>
     (\<forall>(sock, j, a) \<in> set (co_sent c). attempt_ok j a) \<and> (\<forall>(j, a) \<in> set (co_retries c). attempt_ok j a)
     \<and> (\<forall>(i, p) \<in> set (co_pending c). attempt_ok (pn_job p) (pn_attempt p) \<and> pn_policy p = normalizeRetryPolicy (jb_sub (pn_job p)))"

lemma inv_deliver: "courier_inv c \<Longrightarrow> attempt_ok j a \<Longrightarrow> courier_inv (deliverDurableEntry P j a c)"
proof (cases "consumer_socket P (jb_realm j) (jb_sub j) c")
  case (Some sock)
  assume inv: "courier_inv c" and ok: "attempt_ok j a"
  define p where "p = \<lparr>pn_socket = sock, pn_attempt = a, pn_job = j, pn_policy = normalizeRetryPolicy (jb_sub j)\<rparr>"
  have "\<forall>e \<in> set (jset (jb_id j) p (co_pending c)). case e of (i, p) \<Rightarrow> attempt_ok (pn_job p) (pn_attempt p) \<and> pn_policy p = normalizeRetryPolicy (jb_sub (pn_job p))"
    using inv ok set_jset_subset [of "jb_id j" p "co_pending c"] by (auto simp: courier_inv_def p_def)
  with Some inv ok show ?thesis by (simp add: deliverDurableEntry_def courier_inv_def p_def [symmetric])
qed (simp add: deliverDurableEntry_def)

lemma inv_store [simp]: "courier_inv (c\<lparr>co_store := s\<rparr>) = courier_inv c" "courier_inv (c\<lparr>co_broker := B\<rparr>) = courier_inv c"
  "courier_inv (c\<lparr>co_wakes := w\<rparr>) = courier_inv c"
  by (simp_all add: courier_inv_def)

lemma inv_replay: "courier_inv c \<Longrightarrow> courier_inv (fold (replay_entry P S realm s) xs c)"
proof (induction xs arbitrary: c)
  case (Cons x xs)
  have "courier_inv (replay_entry P S realm s x c)"
    using Cons.prems inv_deliver [OF Cons.prems attempt_first [of 1]]
    by (auto simp: replay_entry_def courier_inv_def attempt_first split: option.split)
  with Cons.IH show ?case by simp
qed simp

lemma inv_timeout: "courier_inv c \<Longrightarrow> courier_inv (ack_timeout S now i c)"
proof (cases "jget (co_pending c) i")
  case (Some p)
  assume inv: "courier_inv c"
  from Some have "(i, p) \<in> set (co_pending c)" by (rule map_of_SomeD)
  with inv have p: "attempt_ok (pn_job p) (pn_attempt p)" "pn_policy p = normalizeRetryPolicy (jb_sub (pn_job p))"
    by (auto simp: courier_inv_def)
  have "courier_inv (c\<lparr>co_pending := jdel i (co_pending c)\<rparr>)" using inv by (auto simp: courier_inv_def set_jdel)
  with Some p attempt_next [of "pn_job p" "pn_attempt p"] show ?thesis
    by (auto simp: ack_timeout_def deadLetterMessage_def Let_def courier_inv_def)
qed (simp add: ack_timeout_def)

lemma inv_retry: "courier_inv c \<Longrightarrow> courier_inv (fire_retry P k c)"
proof (cases "k < length (co_retries c)")
  case True
  assume inv: "courier_inv c"
  obtain j a where ja: "co_retries c ! k = (j, a)" by (cases "co_retries c ! k")
  with True have "(j, a) \<in> set (co_retries c)" by (metis nth_mem)
  with inv have "attempt_ok j a" by (auto simp: courier_inv_def)
  moreover have "courier_inv (c\<lparr>co_retries := take k (co_retries c) @ drop (Suc k) (co_retries c)\<rparr>)"
    using inv by (auto simp: courier_inv_def dest: in_set_takeD in_set_dropD)
  ultimately show ?thesis using True ja by (simp add: fire_retry_def inv_deliver)
qed (simp add: fire_retry_def)

lemma inv_step: "courier_inv c \<Longrightarrow> courier_inv (courier_step P A t S cap ev c)"
proof (cases ev)
  case (EvDelivery now gen d)
  assume "courier_inv c"
  with EvDelivery show ?thesis
    by (auto simp: run_delivery_def inv_deliver attempt_first split: delivery.split prod.split option.split)
next
  case (EvReplay now realm e s)
  assume "courier_inv c"
  with EvReplay show ?thesis
    by (auto simp: replayDurableMessages_def Let_def split_beta inv_replay split: option.split)
next
  case (EvAck sock i)
  assume "courier_inv c"
  with EvAck show ?thesis by (auto simp: handle_ack_def courier_inv_def set_jdel split: option.split)
next
  case (EvDisconnect now realm sock)
  assume "courier_inv c"
  with EvDisconnect show ?thesis by (auto simp: courier_disconnect_def courier_inv_def)
qed (simp_all add: inv_timeout inv_retry)

text \<open>
  No message is sent for acknowledgement more often than its subscription allows: in every
  reachable state, whatever timers, acknowledgements, replays and disconnections did before, the
  attempt of every message sent is at most the limit of the retry policy, rounded up.
\<close>

theorem attempts_bounded:
  assumes "courier_reach P A t S cap (courier_new s0 B) c" and "(sock, j, a) \<in> set (co_sent c)"
  shows "num_lt (Fin (of_nat a - 1)) (rp_max_attempts (normalizeRetryPolicy (jb_sub j)))"
proof -
  from assms(1) have "courier_inv c"
    by induction (simp_all add: inv_step, simp add: courier_inv_def courier_new_def)
  with assms(2) show ?thesis by (auto simp: courier_inv_def attempt_ok_def)
qed

section \<open>Messages do not disappear\<close>

fun event_clock :: "courier_event \<Rightarrow> int option" where
  "event_clock (EvDelivery now gen d) = Some now"
| "event_clock (EvReplay now realm e s) = Some now"
| "event_clock _ = None"

definition clock_ok :: "courier_event \<Rightarrow> bool" where
  "clock_ok ev \<longleftrightarrow> (case event_clock ev of None \<Rightarrow> True | Some now \<Rightarrow> 0 < now)"

text \<open>The reasons for which a message may leave the store.\<close>

definition leaves :: "('s \<Rightarrow> dlq_entry list) \<Rightarrow> 's courier \<Rightarrow> courier_event \<Rightarrow> 's courier \<Rightarrow> entry \<Rightarrow> bool" where
  "leaves dead c ev c' x \<longleftrightarrow>
     (\<exists>sock p. ev = EvAck sock (e_id x) \<and> jget (co_pending c) (e_id x) = Some p \<and> pn_socket p = sock)
     \<or> (\<exists>now p. ev = EvTimeout now (e_id x) \<and> jget (co_pending c) (e_id x) = Some p
          \<and> num_le (rp_max_attempts (pn_policy p)) (Fin (of_nat (pn_attempt p)))
          \<and> (\<exists>d \<in> set (dead (co_store c')). e_id d = e_id x \<and> d_at d = now))
     \<or> (\<exists>now. event_clock ev = Some now \<and> \<not> unexpired now x)
     \<or> (\<exists>now realm e s sock j. ev = EvReplay now realm e s \<and> \<not> sb_ack_required s
          \<and> (sock, j, 0) \<in> set (co_sent c') \<and> jb_id j = e_id x)"

lemma deliver_store [simp]: "co_store (deliverDurableEntry P j a c) = co_store c"
  by (simp add: deliverDurableEntry_def split: option.split)

lemma fire_retry_store [simp]: "co_store (fire_retry P k c) = co_store c"
  by (simp add: fire_retry_def split: prod.split)

lemma replay_ack_store: "sb_ack_required s \<Longrightarrow> co_store (fold (replay_entry P S realm s) xs c) = co_store c"
  by (induction xs arbitrary: c) (auto simp: replay_entry_def split: option.split)

lemma replay_sent_mono: "set (co_sent c) \<subseteq> set (co_sent (fold (replay_entry P S realm s) xs c))"
proof (induction xs arbitrary: c)
  case (Cons x xs)
  have "set (co_sent c) \<subseteq> set (co_sent (replay_entry P S realm s x c))"
    by (auto simp: replay_entry_def deliverDurableEntry_def split: option.split)
  with Cons.IH [of "replay_entry P S realm s x c"] show ?case by auto
qed simp

text \<open>A consumer that stays connected and never acknowledges: its timer runs out, and the retry this schedules fires.\<close>

definition silent_round :: "protocol \<Rightarrow> 's store_ops \<Rightarrow> int \<Rightarrow> string \<Rightarrow> 's courier \<Rightarrow> 's courier" where
  "silent_round P S now i c =
     (let c1 = ack_timeout S now i c
      in if length (co_retries c) < length (co_retries c1) then fire_retry P (length (co_retries c)) c1 else c1)"

lemma consumer_socket_same [simp]:
  "consumer_socket P r s (c\<lparr>co_store := st\<rparr>) = consumer_socket P r s c"
  "consumer_socket P r s (c\<lparr>co_pending := pe\<rparr>) = consumer_socket P r s c"
  "consumer_socket P r s (c\<lparr>co_retries := re\<rparr>) = consumer_socket P r s c"
  "consumer_socket P r s (c\<lparr>co_sent := se\<rparr>) = consumer_socket P r s c"
  by (simp_all add: consumer_socket_def)

context counting_store
begin

abbreviation store_ops :: "'s store_ops" where
  "store_ops \<equiv> \<lparr>op_enqueue = enqueue, op_dequeue = dequeue, op_ack = ack, op_deadLetter = deadLetter, op_countQueued = countQueued\<rparr>"

lemmas count_laws = count_queue invar_count

lemma enqueueDurable:
  assumes inv: "invar s" and pos: "0 < now" and eq: "enqueueDurableMessage store_ops cap now gen q s = (res, s')"
  shows "invar s' \<and> set (filter (unexpired now) (queue s)) \<subseteq> set (queue s') \<and> dead s' = dead s
    \<and> (case res of None \<Rightarrow> queue s' = filter (unexpired now) (queue s)
       | Some i \<Rightarrow> \<exists>s1. invar s1 \<and> filter (unexpired now) (queue s1) = filter (unexpired now) (queue s)
             \<and> enqueue now gen (Some (sr_realm q)) (Some (sr_event q)) (request_message q) s1 = (Inr i, s'))"
proof -
  define full where "full = (is_finite cap \<and> at_least (fst (countQueued now (Some (sr_realm q)) None None s)) cap)"
  define s1 where "s1 = (if is_finite cap then snd (countQueued now (Some (sr_realm q)) None None s) else s)"
  have s1: "invar s1" "filter (unexpired now) (queue s1) = filter (unexpired now) (queue s)" "dead s1 = dead s"
    using inv by (auto simp: s1_def count_laws count_dead)
  define r0 where "r0 = fst (enqueue now gen (Some (sr_realm q)) (Some (sr_event q)) (request_message q) s1)"
  define s2 where "s2 = snd (enqueue now gen (Some (sr_realm q)) (Some (sr_event q)) (request_message q) s1)"
  have enq: "enqueue now gen (Some (sr_realm q)) (Some (sr_event q)) (request_message q) s1 = (r0, s2)"
    by (simp add: r0_def s2_def)
  have "(res, s') = (if full then (None, s1) else (case r0 of Inl e \<Rightarrow> None | Inr i \<Rightarrow> Some i, s2))"
    using eq [symmetric] enq
    by (cases "is_finite cap"; cases r0) (simp_all add: enqueueDurableMessage_def full_def s1_def split_beta Let_def)
  with enq have split: "(full \<and> res = None \<and> s' = s1) \<or>
      (\<not> full \<and> (\<exists>r. enqueue now gen (Some (sr_realm q)) (Some (sr_event q)) (request_message q) s1 = (r, s') \<and> res = (case r of Inl e \<Rightarrow> None | Inr i \<Rightarrow> Some i)))"
    by (auto split: if_splits)
  then show ?thesis
  proof
    assume full: "full \<and> res = None \<and> s' = s1"
    then have "queue s1 = filter (unexpired now) (queue s)" using inv by (auto simp: full_def s1_def count_laws)
    with full s1 show ?thesis by auto
  next
    assume "\<not> full \<and> (\<exists>r. enqueue now gen (Some (sr_realm q)) (Some (sr_event q)) (request_message q) s1 = (r, s') \<and> res = (case r of Inl e \<Rightarrow> None | Inr i \<Rightarrow> Some i))"
    then obtain r where r: "enqueue now gen (Some (sr_realm q)) (Some (sr_event q)) (request_message q) s1 = (r, s')"
      "res = (case r of Inl e \<Rightarrow> None | Inr i \<Rightarrow> Some i)" by blast
    have i: "invar s'" "dead s' = dead s"
      using invar_enqueue [OF s1(1) pos, of gen "Some (sr_realm q)" "Some (sr_event q)" "request_message q"]
        enqueue_dead [OF s1(1), of now gen "Some (sr_realm q)" "Some (sr_event q)" "request_message q"] r(1) s1(3) by simp_all
    show ?thesis
    proof (cases r)
      case (Inl e)
      with enqueue_fail [OF s1(1) pos r(1) [unfolded Inl]] r s1 i show ?thesis by auto
    next
      case (Inr j)
      with enqueue_ok [OF s1(1) pos r(1) [unfolded Inr]] r s1 i show ?thesis by auto
    qed
  qed
qed

lemma replay_removed:
  assumes "invar (co_store c)" "\<not> sb_ack_required s" "x \<in> set (queue (co_store c))"
    and "e_id x \<notin> e_id ` set (queue (co_store (fold (replay_entry P store_ops realm s) xs c)))"
  shows "\<exists>sock j. (sock, j, 0) \<in> set (co_sent (fold (replay_entry P store_ops realm s) xs c)) \<and> jb_id j = e_id x"
  using assms
proof (induction xs arbitrary: c)
  case (Cons y xs)
  define c1 where "c1 = replay_entry P store_ops realm s y c"
  show ?case
  proof (cases "consumer_socket P realm s c")
    case None
    then have "c1 = c" by (simp add: c1_def replay_entry_def)
    with Cons show ?thesis by (simp add: c1_def)
  next
    case (Some sock)
    then have c1: "co_store c1 = ack (e_id y) (co_store c)" "(sock, job_of_entry s y, 0) \<in> set (co_sent c1)"
      using Cons.prems(2) by (simp_all add: c1_def replay_entry_def)
    show ?thesis
    proof (cases "e_id x = e_id y")
      case True
      with c1(2) replay_sent_mono [of c1 P store_ops realm s xs] show ?thesis
        by (intro exI [of _ sock] exI [of _ "job_of_entry s y"]) (auto simp: c1_def job_of_entry_def)
    next
      case False
      with Cons.prems c1 have "invar (co_store c1)" "x \<in> set (queue (co_store c1))" by (auto simp: store_laws invars)
      from Cons.IH [OF this(1) Cons.prems(2) this(2)] Cons.prems(4) show ?thesis by (simp add: c1_def)
    qed
  qed
qed force

lemma replay_invar: "invar (co_store c) \<Longrightarrow> invar (co_store (fold (replay_entry P store_ops realm s) xs c))"
proof (induction xs arbitrary: c)
  case (Cons x xs)
  have "invar (co_store (replay_entry P store_ops realm s x c))"
    using Cons.prems by (auto simp: replay_entry_def invars split: option.split)
  with Cons.IH show ?case by simp
qed simp

lemma step_invar:
  assumes inv: "invar (co_store c)" and ok: "clock_ok ev"
  shows "invar (co_store (courier_step P A t store_ops cap ev c))"
proof (cases ev)
  case (EvDelivery now gen d)
  with ok have pos: "0 < now" by (simp add: clock_ok_def)
  have "invar (snd (enqueueDurableMessage store_ops cap now gen q (co_store c)))" for q
    using enqueueDurable [OF inv pos, of cap gen q] by (metis prod.collapse)
  then have "invar s'" if "enqueueDurableMessage store_ops cap now gen q (co_store c) = (r, s')" for q r s'
    using that by (metis snd_conv)
  with EvDelivery inv show ?thesis
    by (auto simp: run_delivery_def split: delivery.split prod.split option.split)
next
  case (EvReplay now realm e s)
  with inv show ?thesis
    by (auto simp: replayDurableMessages_def Let_def split_beta replay_invar invars split: option.split)
next
  case (EvTimeout now i)
  with inv show ?thesis by (auto simp: ack_timeout_def deadLetterMessage_def Let_def invars split: option.split)
next
  case (EvAck sock i)
  with inv show ?thesis by (auto simp: handle_ack_def invars split: option.split)
next
  case (EvDisconnect now realm sock)
  with inv show ?thesis by (simp add: courier_disconnect_def)
qed (use inv in simp_all)

lemma step_leaves:
  assumes inv: "invar (co_store c)" and ok: "clock_ok ev" and x: "x \<in> set (queue (co_store c))"
    and gone: "e_id x \<notin> e_id ` set (queue (co_store (courier_step P A t store_ops cap ev c)))"
  shows "leaves dead c ev (courier_step P A t store_ops cap ev c) x"
proof (cases ev)
  case (EvDelivery now gen d)
  with ok have pos: "0 < now" by (simp add: clock_ok_def)
  have keep: "unexpired now x \<Longrightarrow> x \<in> set (queue s')" if "enqueueDurableMessage store_ops cap now gen q (co_store c) = (r, s')" for q r s'
    using enqueueDurable [OF inv pos that] x by auto
  have "\<not> unexpired now x"
  proof
    assume live: "unexpired now x"
    from gone EvDelivery have "x \<notin> set (queue (co_store (run_delivery P A store_ops cap now gen d c)))" by auto
    then show False using keep [OF _ live] x
      by (auto simp: run_delivery_def split: delivery.splits prod.splits option.splits if_splits)
  qed
  with EvDelivery show ?thesis by (simp add: leaves_def)
next
  case (EvReplay now realm e s)
  show ?thesis
  proof (cases "unexpired now x")
    case False
    with EvReplay show ?thesis by (simp add: leaves_def)
  next
    case True
    have gone': "e_id x \<notin> e_id ` set (queue (co_store (replayDurableMessages P store_ops now realm e s c)))"
      using gone EvReplay by simp
    show ?thesis
    proof (cases "consumer_socket P realm s c")
      case None
      with gone' x show ?thesis by (simp add: replayDurableMessages_def)
    next
      case (Some sock)
      define m where "m = getConsumerMetaInfo (anon_name P (sb_name s)) (getRealm realm (co_broker c))"
      define d where "d = dequeue now (Some realm) (Some e) (Some (replay_consumer s m)) (co_store c)"
      define c1 where "c1 = c\<lparr>co_store := snd d\<rparr>"
      have res: "replayDurableMessages P store_ops now realm e s c = fold (replay_entry P store_ops realm s) (fst d) c1"
        using Some by (simp add: replayDurableMessages_def m_def [symmetric] d_def c1_def Let_def split_beta)
      have x1: "x \<in> set (queue (co_store c1))" "invar (co_store c1)"
        using x True inv by (simp_all add: c1_def d_def store_laws invars)
      show ?thesis
      proof (cases "sb_ack_required s")
        case True
        with gone' x1 show ?thesis by (simp add: res replay_ack_store)
      next
        case False
        from replay_removed [OF x1(2) False x1(1), of P realm "fst d"] gone'
        show ?thesis using EvReplay False by (auto simp: leaves_def res)
      qed
    qed
  qed
next
  case (EvTimeout now i)
  show ?thesis
  proof (cases "jget (co_pending c) i")
    case None
    with gone EvTimeout x show ?thesis by (simp add: ack_timeout_def)
  next
    case (Some p)
    show ?thesis
    proof (cases "num_le (rp_max_attempts (pn_policy p)) (Fin (of_nat (pn_attempt p)))")
      case True
      then obtain why where st: "co_store (ack_timeout store_ops now i c) = snd (deadLetter now i why (co_store c))"
        using Some by (simp add: ack_timeout_def deadLetterMessage_def)
      have i: "e_id x = i"
        using gone x EvTimeout st by (auto simp: deadLetter_queue [OF inv])
      from deadLetter_dead [OF inv x i, of now why] st have
        "\<exists>d \<in> set (dead (co_store (ack_timeout store_ops now i c))). e_id d = i \<and> d_at d = now" by auto
      with EvTimeout Some True i show ?thesis by (simp add: leaves_def)
    next
      case False
      with gone EvTimeout x Some show ?thesis by (simp add: ack_timeout_def)
    qed
  qed
next
  case (EvAck sock i)
  show ?thesis
  proof (cases "jget (co_pending c) i")
    case None
    with gone EvAck x show ?thesis by (simp add: handle_ack_def)
  next
    case (Some p)
    with gone EvAck x have "pn_socket p = sock" by (auto simp: handle_ack_def split: if_splits)
    moreover from this have "e_id x = i" using gone EvAck x Some inv by (auto simp: handle_ack_def store_laws)
    ultimately show ?thesis using EvAck Some by (simp add: leaves_def)
  qed
next
  case (EvDisconnect now realm sock)
  with gone x show ?thesis by (simp add: courier_disconnect_def)
qed (use gone x in simp_all)

lemma silent_dead_letter:
  assumes "invar (co_store c)" "\<exists>x \<in> set (queue (co_store c)). e_id x = i" "jb_id j = i"
    and "jget (co_pending c) i = Some \<lparr>pn_socket = sock, pn_attempt = a, pn_job = j, pn_policy = normalizeRetryPolicy (jb_sub j)\<rparr>"
    and "consumer_socket P (jb_realm j) (jb_sub j) c = Some sock"
    and m: "rp_max_attempts (normalizeRetryPolicy (jb_sub j)) = Fin (of_nat m)" and "a \<le> m"
  shows "i \<notin> e_id ` set (queue (co_store ((silent_round P store_ops now i ^^ Suc (m - a)) c)))
    \<and> (\<exists>d \<in> set (dead (co_store ((silent_round P store_ops now i ^^ Suc (m - a)) c))). e_id d = i \<and> d_at d = now)
    \<and> jget (co_pending ((silent_round P store_ops now i ^^ Suc (m - a)) c)) i = None
    \<and> co_sent ((silent_round P store_ops now i ^^ Suc (m - a)) c) = co_sent c @ map (\<lambda>k. (sock, j, k)) [Suc a..<Suc m]"
  using assms
proof (induction "m - a" arbitrary: a c)
  case 0
  then have am: "a = m" by simp
  obtain why where r: "silent_round P store_ops now i c =
      c\<lparr>co_pending := jdel i (co_pending c), co_store := snd (deadLetter now i (Some why) (co_store c))\<rparr>"
    using "0.prems" am by (simp add: silent_round_def ack_timeout_def deadLetterMessage_def)
  from "0.prems"(2) obtain x where "x \<in> set (queue (co_store c))" "e_id x = i" by auto
  from deadLetter_dead [OF "0.prems"(1) this, of now "Some why"] "0.prems"(1) am show ?case
    by (auto simp: r store_laws)
next
  case (Suc n)
  then have lt: "a < m" by simp
  define c1 where "c1 = silent_round P store_ops now i c"
  have c1: "c1 = deliverDurableEntry P j (Suc a) (c\<lparr>co_pending := jdel i (co_pending c)\<rparr>)"
    using Suc.prems lt by (simp add: c1_def silent_round_def ack_timeout_def fire_retry_def Let_def)
  have st: "co_store c1 = co_store c" "consumer_socket P (jb_realm j) (jb_sub j) c1 = Some sock"
      "co_sent c1 = co_sent c @ [(sock, j, Suc a)]"
      "jget (co_pending c1) i = Some \<lparr>pn_socket = sock, pn_attempt = Suc a, pn_job = j, pn_policy = normalizeRetryPolicy (jb_sub j)\<rparr>"
    using Suc.prems by (simp_all add: c1 deliverDurableEntry_def)
  have n: "n = m - Suc a" "Suc a \<le> m" using Suc.hyps(2) by simp_all
  have rounds: "(silent_round P store_ops now i ^^ Suc (m - a)) c = (silent_round P store_ops now i ^^ Suc (m - Suc a)) c1"
    using lt by (simp add: c1_def Suc_diff_Suc [symmetric] funpow_swap1)
  have up: "[Suc a..<Suc m] = Suc a # [Suc (Suc a)..<Suc m]" using lt by (simp add: upt_conv_Cons)
  show ?case unfolding rounds up
    using Suc.hyps(1) [OF n(1), of c1] Suc.prems(1-3) st m n(2) by simp
qed

lemma replay_sends:
  assumes "x \<in> set xs" "consumer_socket P realm s c = Some sock" "\<forall>x \<in> set xs. e_realm x = realm"
  shows "(sock, job_of_entry s x, if sb_ack_required s then 1 else 0) \<in> set (co_sent (fold (replay_entry P store_ops realm s) xs c))"
  using assms
proof (induction xs arbitrary: c)
  case (Cons y xs)
  define c1 where "c1 = replay_entry P store_ops realm s y c"
  have c1: "consumer_socket P realm s c1 = Some sock" "(sock, job_of_entry s y, if sb_ack_required s then 1 else 0) \<in> set (co_sent c1)"
    using Cons.prems by (simp_all add: c1_def replay_entry_def deliverDurableEntry_def job_of_entry_def)
  show ?case
  proof (cases "x = y")
    case True
    with c1(2) replay_sent_mono [of c1 P store_ops realm s xs] show ?thesis by (auto simp: c1_def)
  next
    case False
    with Cons.prems Cons.IH [OF _ c1(1)] show ?thesis by (simp add: c1_def)
  qed
qed simp

lemma store_then_replay:
  assumes inv: "invar (co_store c)" and pos: "0 < now" and later: "now \<le> t"
    and enq: "enqueueDurableMessage store_ops PosInf now gen q (co_store c) = (Some i, s')" and idn: "i \<noteq> []"
    and live: "case expiry (co_store c) now (request_message q) of None \<Rightarrow> True | Some e \<Rightarrow> of_int t < e"
    and again: "co_store c2 = co_store (run_delivery P A store_ops PosInf now gen (Queue q) c)"
      "consumer_socket P (sr_realm q) s c2 = Some sock" "sb_consumer_id s = sr_consumer q" "sr_consumer q \<noteq> []" "sr_realm q \<noteq> []"
  shows "\<exists>j. (sock, j, if sb_ack_required s then 1 else 0) \<in> set (co_sent (replayDurableMessages P store_ops t (sr_realm q) (sr_event q) s c2))
     \<and> jb_id j = i \<and> jb_message j = stored (sr_message q)"
proof -
  have e: "enqueue now gen (Some (sr_realm q)) (Some (sr_event q)) (request_message q) (co_store c) = (Inr i, s')"
    using enq by (auto simp: enqueueDurableMessage_def split: sum.splits prod.splits)
  have mc: "message_consumer (request_message q) = Some (sr_consumer q)"
    using again(4) by (simp add: message_consumer_def request_message_def opt_or_def)
  have mp: "message_payload (request_message q) = (if sr_message q \<noteq> JUndef then sr_message q else JUndef)"
    by (simp add: message_payload_def request_message_def)
  from enqueue_then_dequeue [OF inv pos e live later] mc mp obtain x where
    x: "fst (dequeue t (Some (sr_realm q)) (Some (sr_event q)) (Some (sr_consumer q)) s')
          = fst (dequeue t (Some (sr_realm q)) (Some (sr_event q)) (Some (sr_consumer q)) (co_store c)) @ [x]"
       "e_id x = i" "e_payload x = stored (sr_message q)" by (auto split: if_splits)
  have st: "co_store c2 = s'" using again(1) enq idn by (simp add: run_delivery_def)
  have inv': "invar s'" using enqueueDurable [OF inv pos enq] by simp
  define d where "d = dequeue t (Some (sr_realm q)) (Some (sr_event q)) (Some (sr_consumer q)) s'"
  have rc: "replay_consumer s m = sr_consumer q" for m using again by (simp add: replay_consumer_def)
  have res: "replayDurableMessages P store_ops t (sr_realm q) (sr_event q) s c2
      = fold (replay_entry P store_ops (sr_realm q) s) (fst d) (c2\<lparr>co_store := snd d\<rparr>)"
    using again(2) by (simp add: replayDurableMessages_def rc st d_def Let_def split_beta)
  have realm: "\<forall>x \<in> set (fst d). e_realm x = sr_realm q"
    using dequeue_result [OF inv'] again(5) by (auto simp: d_def entry_box_def box_of_def)
  have "x \<in> set (fst d)" using x by (simp add: d_def)
  from replay_sends [OF this _ realm, of P s "c2\<lparr>co_store := snd d\<rparr>" sock] again(2)
  have "(sock, job_of_entry s x, if sb_ack_required s then 1 else 0) \<in> set (co_sent (replayDurableMessages P store_ops t (sr_realm q) (sr_event q) s c2))"
    by (simp add: res)
  with x show ?thesis by (intro exI [of _ "job_of_entry s x"]) (simp add: job_of_entry_def)
qed

end

section \<open>Properties\<close>

definition memory_ops :: "memory_store store_ops" where
  "memory_ops = \<lparr>op_enqueue = memory_enqueue, op_dequeue = memory_dequeue, op_ack = memory_ack, op_deadLetter = memory_deadLetter,
     op_countQueued = memory_countQueued\<rparr>"

definition sqlite_ops :: "sqlite_store store_ops" where
  "sqlite_ops = \<lparr>op_enqueue = sqlite_enqueue, op_dequeue = sqlite_dequeue, op_ack = sqlite_ack, op_deadLetter = sqlite_deadLetter,
     op_countQueued = sqlite_countQueued\<rparr>"

definition sample_sub :: subscription where
  "sample_sub = subscription_new\<lparr>sb_name := ''alice'', sb_durable := True, sb_consumer_id := ''a'', sb_ack_required := True\<rparr>"

definition sample_request :: store_request where
  "sample_request = \<lparr>sr_realm = ''r'', sr_event = ''bob-news'', sr_message = JStr ''hi'', sr_producer = JStr ''bob'',
     sr_subscription = sample_sub, sr_consumer = ''a'', sr_ttl = JUndef, sr_wake = JUndef\<rparr>"

definition online_broker :: broker where
  "online_broker = putRealm ''r'' (setupConsumer ''s1'' ''alice'' (Some ''a'') realm_empty) []"

definition sample_courier :: "'s store_ops \<Rightarrow> 's \<Rightarrow> 's courier" where
  "sample_courier S s = run_delivery sample_protocol sample_auth S PosInf 1000 ''m1'' (Reliable sample_request) (courier_new s online_broker)"

lemma sample_courier_eq:
  assumes "op_enqueue S 1000 ''m1'' (Some ''r'') (Some ''bob-news'') (request_message sample_request) s = (Inr ''m1'', s')"
  shows "sample_courier S s = \<lparr>co_store = s', co_broker = online_broker,
     co_pending = [(''m1'', \<lparr>pn_socket = ''s1'', pn_attempt = 1, pn_job = job_of_request ''m1'' sample_request, pn_policy = normalizeRetryPolicy sample_sub\<rparr>)],
     co_retries = [], co_sent = [(''s1'', job_of_request ''m1'' sample_request, 1)], co_wakes = []\<rparr>"
  using assms
  by (simp add: sample_courier_def run_delivery_def enqueueDurableMessage_def deliverDurableEntry_def courier_new_def job_of_request_def
      sample_request_def sample_sub_def consumer_socket_def online_broker_def setupConsumer_def Let_def)

lemma sample_policy: "rp_max_attempts (normalizeRetryPolicy sample_sub) = Fin 3"
  by code_simp

theorem attempts_bounded_witness:
  "num_lt (Fin (of_nat 1 - 1)) (rp_max_attempts (normalizeRetryPolicy sample_sub))
   \<and> co_sent (sample_courier memory_ops (memory_new JUndef JUndef)) \<noteq> []"
proof -
  have eq: "op_enqueue memory_ops 1000 ''m1'' (Some ''r'') (Some ''bob-news'') (request_message sample_request) (memory_new JUndef JUndef)
      = (Inr ''m1'', snd (memory_enqueue 1000 ''m1'' (Some ''r'') (Some ''bob-news'') (request_message sample_request) (memory_new JUndef JUndef)))"
    by (simp add: memory_ops_def memory_enqueue_def Let_def request_message_def)
  have "courier_reach sample_protocol sample_auth JUndef memory_ops PosInf (courier_new (memory_new JUndef JUndef) online_broker)
      (courier_step sample_protocol sample_auth JUndef memory_ops PosInf (EvDelivery 1000 ''m1'' (Reliable sample_request)) (courier_new (memory_new JUndef JUndef) online_broker))"
    by (intro reach_step reach_start)
  then have "courier_reach sample_protocol sample_auth JUndef memory_ops PosInf (courier_new (memory_new JUndef JUndef) online_broker)
      (sample_courier memory_ops (memory_new JUndef JUndef))"
    by (simp add: sample_courier_def)
  from attempts_bounded [OF this, of "''s1''" "job_of_request ''m1'' sample_request" 1] sample_courier_eq [OF eq]
  show ?thesis by (simp add: job_of_request_def sample_request_def)
qed

text \<open>
  C8. No queued message disappears: a message leaves the store only when the socket it was sent to
  acknowledges it, when its last attempt times out, and then it is on the dead-letter queue, when it
  has expired, or when it was sent to a subscriber that does not acknowledge. A disconnection, a
  retry, a foreign acknowledgement and every other event leave it where it is.
\<close>

theorem messages_leave_for_a_reason:
  assumes "memory_invar (co_store c)" and "clock_ok ev" and "x \<in> set (messages (co_store c))"
    and "e_id x \<notin> e_id ` set (messages (co_store (courier_step P A t memory_ops cap ev c)))"
  shows "leaves dlq c ev (courier_step P A t memory_ops cap ev c) x"
  using mem.step_leaves [of c ev x P A t cap] assms unfolding memory_ops_def by blast

definition sample_stored :: entry where
  "sample_stored = \<lparr>e_id = ''m1'', e_realm = ''r'', e_event = ''bob-news'', e_consumer = Some ''a'', e_payload = JStr ''hi'',
     e_producer = Some ''bob'', e_created_at = 1000, e_expires_at = None\<rparr>"

definition pending_courier :: "memory_store courier" where
  "pending_courier = \<lparr>co_store = (memory_new JUndef JUndef)\<lparr>messages := [sample_stored]\<rparr>, co_broker = online_broker,
     co_pending = [(''m1'', \<lparr>pn_socket = ''s1'', pn_attempt = 3, pn_job = job_of_request ''m1'' sample_request, pn_policy = normalizeRetryPolicy sample_sub\<rparr>)],
     co_retries = [], co_sent = [], co_wakes = []\<rparr>"

theorem messages_leave_for_a_reason_witness:
  "leaves dlq pending_courier (EvTimeout 2000 ''m1'') (courier_step sample_protocol sample_auth JUndef memory_ops PosInf (EvTimeout 2000 ''m1'') pending_courier) sample_stored
   \<and> leaves dlq pending_courier (EvAck ''s1'' ''m1'') (courier_step sample_protocol sample_auth JUndef memory_ops PosInf (EvAck ''s1'' ''m1'') pending_courier) sample_stored"
proof -
  have inv: "memory_invar (co_store pending_courier)" "sample_stored \<in> set (messages (co_store pending_courier))"
    by (simp_all add: memory_invar_def pending_courier_def sample_stored_def)
  have gone: "messages (co_store (ack_timeout memory_ops 2000 ''m1'' pending_courier)) = []"
    "messages (co_store (snd (handle_ack memory_ops ''s1'' ''m1'' pending_courier))) = []"
    by (simp_all add: pending_courier_def ack_timeout_def handle_ack_def sample_policy deadLetterMessage_def memory_ops_def
        memory_deadLetter_def memory_ack_def sample_stored_def last_with_id_def Let_def)
  show ?thesis
    by (intro conjI messages_leave_for_a_reason [OF inv(1) _ inv(2)]) (simp_all add: clock_ok_def gone)
qed

text \<open>
  C10. Delivery to a silent consumer ends: a stored message whose first copy was sent to a consumer
  that stays connected and never acknowledges is sent exactly once more per remaining attempt, and
  after the last timeout it is off the queue, on the dead-letter queue, and no longer awaited.
\<close>

theorem silent_consumer_dead_letters:
  assumes "sqlite_invar (co_store c)" and "\<exists>x \<in> set (sqlite_queue (co_store c)). e_id x = i" and "jb_id j = i"
    and "jget (co_pending c) i = Some \<lparr>pn_socket = sock, pn_attempt = 1, pn_job = j, pn_policy = normalizeRetryPolicy (jb_sub j)\<rparr>"
    and "consumer_socket P (jb_realm j) (jb_sub j) c = Some sock"
    and "rp_max_attempts (normalizeRetryPolicy (jb_sub j)) = Fin (of_nat m)" and "1 \<le> m"
  shows "i \<notin> e_id ` set (sqlite_queue (co_store ((silent_round P sqlite_ops now i ^^ m) c)))
    \<and> (\<exists>d \<in> set (sqlite_dead (co_store ((silent_round P sqlite_ops now i ^^ m) c))). e_id d = i \<and> d_at d = now)
    \<and> jget (co_pending ((silent_round P sqlite_ops now i ^^ m) c)) i = None
    \<and> co_sent ((silent_round P sqlite_ops now i ^^ m) c) = co_sent c @ map (\<lambda>k. (sock, j, k)) [2..<Suc m]"
proof -
  have "Suc (m - 1) = m" "Suc (Suc 0) = 2" using assms(7) by simp_all
  with sql.silent_dead_letter [OF assms(1-6) assms(7), of now] show ?thesis
    unfolding sqlite_ops_def by simp
qed

text \<open>
  C9. Store and forward: a message for a consumer that is offline is stored, and when the consumer is
  back on a socket before the message expires and its subscription is replayed, the message is sent to
  that socket with its payload, awaiting an acknowledgement if the subscription asks for one. The
  broker's state may change in any way in between, as long as the store does not.
\<close>

theorem store_and_forward:
  assumes "sqlite_invar (co_store c)" and "0 < now" and "now \<le> t"
    and "enqueueDurableMessage sqlite_ops PosInf now gen q (co_store c) = (Some i, s')" and "i \<noteq> []"
    and "case sqlite_expiresAt now (request_message q) (co_store c) of None \<Rightarrow> True | Some e \<Rightarrow> of_int t < e"
    and "co_store c2 = co_store (run_delivery P A sqlite_ops PosInf now gen (Queue q) c)"
    and "consumer_socket P (sr_realm q) s c2 = Some sock" and "sb_consumer_id s = sr_consumer q"
    and "sr_consumer q \<noteq> []" and "sr_realm q \<noteq> []"
  shows "\<exists>j. (sock, j, if sb_ack_required s then 1 else 0) \<in> set (co_sent (replayDurableMessages P sqlite_ops t (sr_realm q) (sr_event q) s c2))
     \<and> jb_id j = i \<and> jb_message j = json_stored (sr_message q)"
  using sql.store_then_replay [OF assms(1-3), of gen q i s' c2 P A s sock] assms(4-) unfolding sqlite_ops_def by blast

lemma sample_sqlite_enqueue:
  "\<exists>s'. op_enqueue sqlite_ops 1000 ''m1'' (Some ''r'') (Some ''bob-news'') (request_message sample_request) (sqlite_new JUndef JUndef) = (Inr ''m1'', s')
     \<and> length (sqlite_queue s') = 1 \<and> sqlite_invar s'"
  by (simp add: sqlite_ops_def sqlite_enqueue_def sqlite_new_def sqlite_purgeExpired_def request_message_def sample_request_def
      message_payload_def sqlite_queue_def sqlite_invar_def Let_def)

theorem silent_consumer_dead_letters_witness:
  "\<exists>c j. co_sent c = [(''s1'', j, 1)] \<and> co_sent ((silent_round sample_protocol sqlite_ops 9000 ''m1'' ^^ 3) c) = [(''s1'', j, 1), (''s1'', j, 2), (''s1'', j, 3)]
     \<and> ''m1'' \<notin> e_id ` set (sqlite_queue (co_store ((silent_round sample_protocol sqlite_ops 9000 ''m1'' ^^ 3) c)))"
proof -
  obtain s' where s': "op_enqueue sqlite_ops 1000 ''m1'' (Some ''r'') (Some ''bob-news'') (request_message sample_request) (sqlite_new JUndef JUndef) = (Inr ''m1'', s')"
    and inv: "sqlite_invar s'"
    using sample_sqlite_enqueue by blast
  define c where "c = sample_courier sqlite_ops (sqlite_new JUndef JUndef)"
  define j where "j = job_of_request ''m1'' sample_request"
  note c = sample_courier_eq [OF s', folded c_def j_def]
  have in_queue: "\<exists>x \<in> set (sqlite_queue s'). e_id x = ''m1''"
    using sql.enqueue_ok [of "sqlite_new JUndef JUndef" 1000 "''m1''" "Some ''r''" "Some ''bob-news''" "request_message sample_request" "''m1''" s'] s'
    by (auto simp: sqlite_ops_def sqlite_new_def sqlite_invar_def)
  have "consumer_socket sample_protocol (jb_realm j) (jb_sub j) c = Some ''s1''"
    by (simp add: c j_def consumer_socket_def job_of_request_def sample_request_def sample_sub_def online_broker_def setupConsumer_def Let_def)
  moreover have "rp_max_attempts (normalizeRetryPolicy (jb_sub j)) = Fin (of_nat 3)"
    using sample_policy by (simp add: j_def job_of_request_def sample_request_def)
  moreover have "jget (co_pending c) ''m1'' = Some \<lparr>pn_socket = ''s1'', pn_attempt = 1, pn_job = j, pn_policy = normalizeRetryPolicy (jb_sub j)\<rparr>"
    by (simp add: c j_def job_of_request_def sample_request_def)
  moreover have "sqlite_invar (co_store c)" "jb_id j = ''m1''" "\<exists>x \<in> set (sqlite_queue (co_store c)). e_id x = ''m1''"
    using inv in_queue by (simp_all add: c j_def job_of_request_def)
  ultimately have "''m1'' \<notin> e_id ` set (sqlite_queue (co_store ((silent_round sample_protocol sqlite_ops 9000 ''m1'' ^^ 3) c)))
    \<and> co_sent ((silent_round sample_protocol sqlite_ops 9000 ''m1'' ^^ 3) c) = co_sent c @ map (\<lambda>k. (''s1'', j, k)) [2..<Suc 3]"
    using silent_consumer_dead_letters [of c "''m1''" j "''s1''" sample_protocol 3 9000] by simp
  moreover have "co_sent c = [(''s1'', j, 1)]" by (simp add: c)
  ultimately show ?thesis by (intro exI [of _ c] exI [of _ j]) (simp add: upt_conv_Cons)
qed

theorem store_and_forward_witness:
  "\<exists>c2 j. (''s1'', j, 1) \<in> set (co_sent (replayDurableMessages sample_protocol sqlite_ops 5000 ''r'' ''bob-news'' sample_sub c2))
     \<and> jb_id j = ''m1'' \<and> jb_message j = json_stored (JStr ''hi'')"
proof -
  define c where "c = courier_new (sqlite_new JUndef JUndef) []"
  define c2 where "c2 = (run_delivery sample_protocol sample_auth sqlite_ops PosInf 1000 ''m1'' (Queue sample_request) c)\<lparr>co_broker := online_broker\<rparr>"
  obtain s' where s': "op_enqueue sqlite_ops 1000 ''m1'' (Some ''r'') (Some ''bob-news'') (request_message sample_request) (sqlite_new JUndef JUndef) = (Inr ''m1'', s')"
    using sample_sqlite_enqueue by blast
  have "\<exists>j. (''s1'', j, if sb_ack_required sample_sub then 1 else 0)
      \<in> set (co_sent (replayDurableMessages sample_protocol sqlite_ops 5000 (sr_realm sample_request) (sr_event sample_request) sample_sub c2))
      \<and> jb_id j = ''m1'' \<and> jb_message j = json_stored (sr_message sample_request)"
  proof (rule store_and_forward)
    show "enqueueDurableMessage sqlite_ops PosInf 1000 ''m1'' sample_request (co_store c) = (Some ''m1'', s')"
      using s' by (simp add: enqueueDurableMessage_def c_def courier_new_def sample_request_def)
    show "case sqlite_expiresAt 1000 (request_message sample_request) (co_store c) of None \<Rightarrow> True | Some e \<Rightarrow> of_int 5000 < e"
      by (simp add: c_def courier_new_def sqlite_expiresAt_def expires_at_def request_message_def sample_request_def sqlite_new_def default_ttl_of_def)
    show "consumer_socket sample_protocol (sr_realm sample_request) sample_sub c2 = Some ''s1''"
      by (simp add: c2_def consumer_socket_def sample_request_def sample_sub_def online_broker_def setupConsumer_def Let_def)
  qed (simp_all add: c_def courier_new_def sqlite_new_def sqlite_invar_def c2_def sample_sub_def sample_request_def)
  then show ?thesis by (intro exI [of _ c2]) (simp add: sample_request_def sample_sub_def)
qed

end
