(* ===== verification/Chunks.thy ===== *)
theory Chunks
  imports Router
begin

text \<open>
  Large messages (\<open>lib/server.js\<close>): \<open>sendConsumeMessage\<close> splits the text of a message that is longer
  than 256 KB into numbered chunks, and the handler of PRODUCE_CHUNK puts the chunks of a producer
  together by their numbers. Chunk numbers and totals are natural numbers.
\<close>

section \<open>Splitting\<close>

definition CHUNK_SIZE :: nat where "CHUNK_SIZE = 256 * 1024"

definition slice :: "nat \<Rightarrow> nat \<Rightarrow> string \<Rightarrow> string" where
  "slice n i s = take n (drop (i * n) s)"

definition chunk_total :: "nat \<Rightarrow> string \<Rightarrow> nat" where
  "chunk_total n s = (length s + n - 1) div n"

record chunk =
  ck_transferId :: string
  ck_index :: nat
  ck_total :: nat
  ck_data :: string

definition chunks_of :: "nat \<Rightarrow> string \<Rightarrow> string \<Rightarrow> chunk list" where
  "chunks_of n tid s = map (\<lambda>i. \<lparr>ck_transferId = tid, ck_index = i, ck_total = chunk_total n s, ck_data = slice n i s\<rparr>) [0..<chunk_total n s]"

definition chunk_object :: "string \<Rightarrow> chunk \<Rightarrow> jsval" where
  "chunk_object ev c = JObj [(''transferId'', JStr (ck_transferId c)), (''event'', JStr ev),
     (''index'', JNum (Fin (of_nat (ck_index c)))), (''total'', JNum (Fin (of_nat (ck_total c)))), (''data'', JStr (ck_data c))]"

text \<open>The message as it is sent; a delivery with an id adds the id and the attempt.\<close>

definition outgoing_message :: "jsval \<Rightarrow> (string \<times> nat) option \<Rightarrow> jsval" where
  "outgoing_message msg d =
     (case d of
        None \<Rightarrow> msg
      | Some (i, a) \<Rightarrow> if i = [] then msg
          else JObj (jset ''delivery_attempt'' (JNum (Fin (of_nat (if a = 0 then 1 else a))))
                 (jset ''msg_id'' (JStr i) (jset ''msgId'' (JStr i) (obj_fields msg)))))"

definition sendConsumeMessage :: "protocol \<Rightarrow> string \<Rightarrow> string \<Rightarrow> string \<Rightarrow> jsval \<Rightarrow> (string \<times> nat) option \<Rightarrow> sock_effect list" where
  "sendConsumeMessage P tid sock event msg d =
     (let eventStr = toConsumeEvent P event; outgoing = outgoing_message msg d;
          str = (case json_stringify outgoing of None \<Rightarrow> [] | Some j \<Rightarrow> json_text j)
      in if length str \<le> CHUNK_SIZE then [SendTo sock eventStr outgoing]
         else map (\<lambda>c. SendTo sock ''CONSUME_CHUNK'' (chunk_object eventStr c)) (chunks_of CHUNK_SIZE tid str))"

section \<open>Reassembly\<close>

record transfer =
  tr_parts :: "string option list"
  tr_received :: nat

type_synonym transfers = "(string, transfer) jsmap"

text \<open>Assignment to an element of an array: beyond the end it grows, with holes.\<close>

definition set_part :: "nat \<Rightarrow> string \<Rightarrow> string option list \<Rightarrow> string option list" where
  "set_part i v ps = (if i < length ps then ps[i := Some v] else ps @ replicate (i - length ps) None @ [Some v])"

text \<open>\<open>parts.join('')\<close>: holes count as empty.\<close>

definition join_parts :: "string option list \<Rightarrow> string" where
  "join_parts ps = concat (map (\<lambda>p. case p of None \<Rightarrow> [] | Some s \<Rightarrow> s) ps)"

definition chunk_key :: "string \<Rightarrow> chunk \<Rightarrow> string" where
  "chunk_key sock c = sock @ '':'' @ ck_transferId c"

text \<open>The PRODUCE_CHUNK handler past the limiter: the text that is complete with this chunk, if any.\<close>

definition produce_chunk :: "string \<Rightarrow> chunk \<Rightarrow> transfers \<Rightarrow> string option \<times> transfers" where
  "produce_chunk sock c ts =
     (let k = chunk_key sock c;
          t = (case jget ts k of None \<Rightarrow> \<lparr>tr_parts = replicate (ck_total c) None, tr_received = 0\<rparr> | Some t \<Rightarrow> t);
          t' = \<lparr>tr_parts = set_part (ck_index c) (ck_data c) (tr_parts t), tr_received = tr_received t + 1\<rparr>
      in if tr_received t' = ck_total c then (Some (join_parts (tr_parts t')), jdel k ts)
         else (None, jset k t' ts))"

text \<open>The disconnect handler drops the transfers of the socket.\<close>

definition drop_transfers :: "string \<Rightarrow> transfers \<Rightarrow> transfers" where
  "drop_transfers sock ts = filter (\<lambda>(k, t). \<not> starts_with (sock @ '':'') k) ts"

text \<open>A stream of chunks from several sockets; the texts that come out, with the key of their transfer.\<close>

fun chunk_run :: "(string \<times> chunk) list \<Rightarrow> transfers \<Rightarrow> (string \<times> string) list \<times> transfers" where
  "chunk_run [] ts = ([], ts)"
| "chunk_run ((sock, c) # es) ts =
     (let (r, ts') = produce_chunk sock c ts; (out, ts'') = chunk_run es ts'
      in ((case r of None \<Rightarrow> [] | Some s \<Rightarrow> [(chunk_key sock c, s)]) @ out, ts''))"

section \<open>Transfers do not interfere\<close>

lemma produce_chunk_other: "chunk_key sock c \<noteq> k \<Longrightarrow> jget (snd (produce_chunk sock c ts)) k = jget ts k"
  by (simp add: produce_chunk_def Let_def)

lemma produce_chunk_same:
  "jget ts (chunk_key sock c) = jget ts' (chunk_key sock c) \<Longrightarrow>
   fst (produce_chunk sock c ts) = fst (produce_chunk sock c ts')
   \<and> jget (snd (produce_chunk sock c ts)) (chunk_key sock c) = jget (snd (produce_chunk sock c ts')) (chunk_key sock c)"
  by (simp add: produce_chunk_def Let_def)

definition for_key :: "string \<Rightarrow> string \<times> chunk \<Rightarrow> bool" where
  "for_key k e = (chunk_key (fst e) (snd e) = k)"

lemma chunk_run_project:
  "jget ts k = jget ts' k \<Longrightarrow>
   filter (\<lambda>o1. fst o1 = k) (fst (chunk_run es ts)) = fst (chunk_run (filter (for_key k) es) ts')
   \<and> jget (snd (chunk_run es ts)) k = jget (snd (chunk_run (filter (for_key k) es) ts')) k"
proof (induction es arbitrary: ts ts')
  case (Cons e es)
  obtain sock c where e: "e = (sock, c)" by (cases e)
  show ?case
  proof (cases "for_key k e")
    case False
    then have other: "jget (snd (produce_chunk sock c ts)) k = jget ts' k"
      using Cons.prems produce_chunk_other [of sock c k ts] by (simp add: for_key_def e)
    from Cons.IH [OF other] False show ?thesis
      by (simp add: e Let_def split_beta for_key_def split: option.split)
  next
    case True
    then have k: "chunk_key sock c = k" by (simp add: for_key_def e)
    from produce_chunk_same [of ts sock c ts'] Cons.prems k
    have same: "fst (produce_chunk sock c ts) = fst (produce_chunk sock c ts')"
      "jget (snd (produce_chunk sock c ts)) k = jget (snd (produce_chunk sock c ts')) k" by auto
    from Cons.IH [OF same(2)] same(1) True k show ?thesis
      by (simp add: e Let_def split_beta split: option.split)
  qed
qed simp

section \<open>The chunks of one text in any order\<close>

lemma concat_slices: "concat (map (\<lambda>i. slice n i s) [0..<k]) = take (k * n) s"
  by (induction k) (simp_all add: slice_def take_add [symmetric] add.commute)

lemma chunk_total_covers: "0 < n \<Longrightarrow> length s \<le> chunk_total n s * n"
proof -
  assume n: "0 < n"
  have "length s + n - 1 < (length s + n - 1) div n * n + n"
    using n by (metis div_mult_mod_eq mod_less_divisor nat_add_left_cancel_less)
  then show ?thesis by (simp add: chunk_total_def)
qed

definition partial_parts :: "nat \<Rightarrow> nat set \<Rightarrow> string \<Rightarrow> string option list" where
  "partial_parts n I s = map (\<lambda>i. if i \<in> I then Some (slice n i s) else None) [0..<chunk_total n s]"

lemma partial_parts_set:
  "i < chunk_total n s \<Longrightarrow> set_part i (slice n i s) (partial_parts n I s) = partial_parts n (insert i I) s"
  by (rule nth_equalityI) (auto simp: set_part_def partial_parts_def nth_list_update)

lemma join_all: "0 < n \<Longrightarrow> {0..<chunk_total n s} \<subseteq> I \<Longrightarrow> join_parts (partial_parts n I s) = s"
proof -
  assume n: "0 < n" and all: "{0..<chunk_total n s} \<subseteq> I"
  then have "join_parts (partial_parts n I s) = concat (map (\<lambda>i. slice n i s) [0..<chunk_total n s])"
    by (auto simp: join_parts_def partial_parts_def comp_def intro!: arg_cong [where f = concat] map_cong)
  also have "\<dots> = s" using chunk_total_covers [OF n, of s] by (simp add: concat_slices)
  finally show ?thesis .
qed

lemma chunks_of_in:
  "c \<in> set (chunks_of n tid s) \<Longrightarrow> ck_transferId c = tid \<and> ck_total c = chunk_total n s \<and> ck_index c < chunk_total n s
     \<and> ck_data c = slice n (ck_index c) s"
  by (auto simp: chunks_of_def)

lemma chunks_any_order:
  assumes n: "0 < n" and cs: "cs \<noteq> []" "distinct (map ck_index cs)" "set cs \<subseteq> set (chunks_of n tid s)"
    and I: "I \<inter> ck_index ` set cs = {}" "I \<union> ck_index ` set cs = {0..<chunk_total n s}" "finite I"
    and st: "jget ts (sock @ '':'' @ tid) = (if I = {} then None else Some \<lparr>tr_parts = partial_parts n I s, tr_received = card I\<rparr>)"
  shows "fst (chunk_run (map (Pair sock) cs) ts) = [(sock @ '':'' @ tid, s)]
    \<and> jget (snd (chunk_run (map (Pair sock) cs) ts)) (sock @ '':'' @ tid) = None"
  using cs I st
proof (induction cs arbitrary: I ts)
  case (Cons c cs)
  define k where "k = sock @ '':'' @ tid"
  from Cons.prems(3) chunks_of_in [of c n tid s] have c: "ck_transferId c = tid" "ck_total c = chunk_total n s"
    "ck_index c < chunk_total n s" "ck_data c = slice n (ck_index c) s" by auto
  then have key: "chunk_key sock c = k" by (simp add: chunk_key_def k_def)
  define J where "J = insert (ck_index c) I"
  have new: "ck_index c \<notin> I" using Cons.prems(4) by auto
  have cardJ: "card J = Suc (card I)" "finite J" using new Cons.prems(6) by (auto simp: J_def)
  have empty: "partial_parts n {} s = replicate (chunk_total n s) None"
    by (simp add: partial_parts_def map_replicate_const)
  have old: "(case jget ts k of None \<Rightarrow> \<lparr>tr_parts = replicate (chunk_total n s) None, tr_received = 0\<rparr> | Some t \<Rightarrow> t)
      = \<lparr>tr_parts = partial_parts n I s, tr_received = card I\<rparr>"
    using Cons.prems(7) empty by (cases "I = {}") (simp_all add: k_def)
  have t': "produce_chunk sock c ts =
      (if Suc (card I) = chunk_total n s then (Some (join_parts (partial_parts n J s)), jdel k ts)
       else (None, jset k \<lparr>tr_parts = partial_parts n J s, tr_received = Suc (card I)\<rparr> ts))"
    unfolding produce_chunk_def Let_def key c(2,4) old
    by (simp add: partial_parts_set [OF c(3)] J_def)
  have total: "chunk_total n s = card I + length (c # cs)"
  proof -
    have "chunk_total n s = card (I \<union> ck_index ` set (c # cs))" using Cons.prems(5) by simp
    also have "\<dots> = card I + card (ck_index ` set (c # cs))"
      by (rule card_Un_disjoint) (use Cons.prems(4,6) in auto)
    also have "card (ck_index ` set (c # cs)) = length (c # cs)"
      using distinct_card [OF Cons.prems(2)] by simp
    finally show ?thesis .
  qed
  show ?case
  proof (cases "cs = []")
    case True
    then have J: "J = {0..<chunk_total n s}" using Cons.prems(5) by (auto simp: J_def)
    have "produce_chunk sock c ts = (Some s, jdel k ts)"
      using total True join_all [OF n, of s J] J by (simp add: t')
    with True key show ?thesis by (simp add: k_def)
  next
    case False
    define ts1 where "ts1 = jset k \<lparr>tr_parts = partial_parts n J s, tr_received = card J\<rparr> ts"
    have p: "produce_chunk sock c ts = (None, ts1)"
      using total False by (simp add: t' ts1_def cardJ)
    have "fst (chunk_run (map (Pair sock) cs) ts1) = [(k, s)] \<and> jget (snd (chunk_run (map (Pair sock) cs) ts1)) k = None"
      unfolding k_def
    proof (rule Cons.IH [of J])
      show "distinct (map ck_index cs)" "set cs \<subseteq> set (chunks_of n tid s)" using Cons.prems(2,3) by auto
      show "J \<inter> ck_index ` set cs = {}" using Cons.prems(2,4) by (auto simp: J_def)
      show "J \<union> ck_index ` set cs = {0..<chunk_total n s}" using Cons.prems(5) by (auto simp: J_def)
      show "jget ts1 (sock @ '':'' @ tid) = (if J = {} then None else Some \<lparr>tr_parts = partial_parts n J s, tr_received = card J\<rparr>)"
        by (simp add: ts1_def k_def J_def)
    qed (use False cardJ in auto)
    with p show ?thesis by (simp add: k_def)
  qed
qed simp

text \<open>
  C32. A large message survives its transfer: when the chunks of a text arrive once each, in any order
  and between chunks of any other transfers from any sockets, exactly one text comes out for this
  transfer, it is the text that was split, and nothing of the transfer stays behind.
\<close>

theorem chunks_roundtrip:
  assumes "0 < n" and "s \<noteq> []" and "jget ts (sock @ '':'' @ tid) = None"
    and "filter (for_key (sock @ '':'' @ tid)) es = map (Pair sock) cs" and "distinct cs" and "set cs = set (chunks_of n tid s)"
  shows "filter (\<lambda>o1. fst o1 = sock @ '':'' @ tid) (fst (chunk_run es ts)) = [(sock @ '':'' @ tid, s)]
    \<and> jget (snd (chunk_run es ts)) (sock @ '':'' @ tid) = None"
proof -
  have idx: "ck_index ` set cs = {0..<chunk_total n s}"
    unfolding assms(6) by (force simp: chunks_of_def)
  have "0 < chunk_total n s" using assms(1,2) by (cases s) (simp_all add: chunk_total_def div_greater_zero_iff)
  with idx have ne: "cs \<noteq> []" by auto
  have "inj_on ck_index (set cs)" unfolding assms(6) by (auto simp: inj_on_def chunks_of_def)
  with assms(5) have d: "distinct (map ck_index cs)" by (simp add: distinct_map)
  have "fst (chunk_run (map (Pair sock) cs) ts) = [(sock @ '':'' @ tid, s)]
      \<and> jget (snd (chunk_run (map (Pair sock) cs) ts)) (sock @ '':'' @ tid) = None"
    by (rule chunks_any_order [where I = "{}", OF assms(1) ne d]) (use assms idx in auto)
  then show ?thesis
    using chunk_run_project [OF refl, of "sock @ '':'' @ tid" es ts] unfolding assms(4) by simp
qed

definition sample_stream :: "(string \<times> chunk) list" where
  "sample_stream = (let t = chunks_of 2 ''t'' ''abcde''; u = chunks_of 2 ''u'' ''xyz''
     in [(''s'', t ! 2), (''s'', u ! 0), (''s'', t ! 0), (''s'', t ! 1)])"

theorem chunks_roundtrip_witness:
  "filter (\<lambda>o1. fst o1 = ''s'' @ '':'' @ ''t'') (fst (chunk_run sample_stream [])) = [(''s'' @ '':'' @ ''t'', ''abcde'')]"
proof (rule conjunct1 [OF chunks_roundtrip])
  let ?t = "chunks_of 2 ''t'' ''abcde''"
  show "filter (for_key (''s'' @ '':'' @ ''t'')) sample_stream = map (Pair ''s'') [?t ! 2, ?t ! 0, ?t ! 1]"
    by (simp add: sample_stream_def for_key_def chunk_key_def chunks_of_def chunk_total_def upt_rec Let_def)
  have "?t = [?t ! 0, ?t ! 1, ?t ! 2]"
    by (simp add: chunks_of_def chunk_total_def upt_rec)
  then have "set ?t = set [?t ! 0, ?t ! 1, ?t ! 2]" by (rule arg_cong)
  then show "set [?t ! 2, ?t ! 0, ?t ! 1] = set ?t" by auto
  show "distinct [?t ! 2, ?t ! 0, ?t ! 1]"
    by (simp add: chunks_of_def chunk_total_def upt_rec)
qed simp_all

text \<open>A chunk that is sent again counts twice: the text comes out before its last chunk is there.\<close>

lemma repeated_chunk_truncates:
  "fst (chunk_run [(''s'', chunks_of 2 ''t'' ''abcd'' ! 0), (''s'', chunks_of 2 ''t'' ''abcd'' ! 0)] []) = [(''s:t'', ''ab'')]"
  by code_simp

end
