(* ===== verification/Prekeys.thy ===== *)
theory Prekeys
  imports Registration "HOL-Library.Multiset"
begin

text \<open>
  The directory of Signal prekey bundles: the handlers PREKEY_PUBLISH, PREKEY_TAKE and PREKEY_STATS of
  \<open>lib/server.js\<close>, the store \<open>lib/prekey-store.js\<close> they mirror the directory to, and its hydration at
  the start. A table is a list of rows in the order of their row ids. Writes to the store succeed; the
  code logs one that fails and goes on. The limits are constants of the protocol package.
\<close>

section \<open>Data\<close>

record prekey_limits =
  pl_max_key_length :: nat
  pl_publish_batch_max :: nat
  pl_pool_max :: nat

record bundle_static =
  bs_identity_key :: string
  bs_registration_id :: jsnum
  bs_device_id :: jsnum
  bs_signed_prekey_id :: jsnum
  bs_signed_prekey :: string
  bs_signed_prekey_sig :: string
  bs_kyber_prekey_id :: jsnum
  bs_kyber_prekey :: string
  bs_kyber_prekey_sig :: string
  bs_updated_at :: string

type_synonym one_time_key = "rat \<times> string"

record prekey_bundle =
  bu_static :: bundle_static
  bu_one_time :: "one_time_key list"

text \<open>A bundle is addressed by realm and identity.\<close>

type_synonym account = "string \<times> string"

record prekey_db =
  db_bundles :: "(account, bundle_static) jsmap"
  db_one_time :: "(account \<times> one_time_key) list"

record prekeys =
  pk_directory :: "(account, prekey_bundle) jsmap"
  pk_store :: "prekey_db option"

section \<open>The store\<close>

definition db_empty :: prekey_db where
  "db_empty = \<lparr>db_bundles = [], db_one_time = []\<rparr>"

text \<open>\<open>INSERT OR REPLACE\<close> into the one-time table: the old row goes, the new one is last.\<close>

definition insert_otk :: "account \<Rightarrow> one_time_key \<Rightarrow> (account \<times> one_time_key) list \<Rightarrow> (account \<times> one_time_key) list" where
  "insert_otk a e rows = filter (\<lambda>(a', e'). \<not> (a' = a \<and> fst e' = fst e)) rows @ [(a, e)]"

definition or_zero :: "jsnum \<Rightarrow> jsnum" where
  "or_zero n = number_or (JNum n) 0"

definition db_static :: "bundle_static \<Rightarrow> bundle_static" where
  "db_static b = b\<lparr>bs_registration_id := or_zero (bs_registration_id b), bs_device_id := or_zero (bs_device_id b),
     bs_signed_prekey_id := or_zero (bs_signed_prekey_id b), bs_kyber_prekey_id := or_zero (bs_kyber_prekey_id b)\<rparr>"

definition putBundle :: "account \<Rightarrow> prekey_bundle \<Rightarrow> prekey_db \<Rightarrow> prekey_db" where
  "putBundle a b db =
     \<lparr>db_bundles = jdel a (db_bundles db) @ [(a, db_static (bu_static b))],
      db_one_time = fold (insert_otk a) (bu_one_time b) (filter (\<lambda>(a', e). a' \<noteq> a) (db_one_time db))\<rparr>"

definition consumeOneTime :: "account \<Rightarrow> rat \<Rightarrow> prekey_db \<Rightarrow> prekey_db" where
  "consumeOneTime a i db = db\<lparr>db_one_time := filter (\<lambda>(a', e). \<not> (a' = a \<and> fst e = i)) (db_one_time db)\<rparr>"

definition delBundle :: "account \<Rightarrow> prekey_db \<Rightarrow> prekey_db" where
  "delBundle a db = \<lparr>db_bundles = jdel a (db_bundles db), db_one_time = filter (\<lambda>(a', e). a' \<noteq> a) (db_one_time db)\<rparr>"

definition rows_of :: "account \<Rightarrow> (account \<times> one_time_key) list \<Rightarrow> one_time_key list" where
  "rows_of a rows = map snd (filter (\<lambda>r. fst r = a) rows)"

definition allBundles :: "prekey_db \<Rightarrow> (account \<times> prekey_bundle) list" where
  "allBundles db = map (\<lambda>(a, st). (a, \<lparr>bu_static = st, bu_one_time = sort_key fst (rows_of a (db_one_time db))\<rparr>)) (db_bundles db)"

text \<open>The start of the server: the directory is what the store holds.\<close>

definition prekeys_start :: "prekey_db option \<Rightarrow> prekeys" where
  "prekeys_start db = \<lparr>pk_directory = (case db of None \<Rightarrow> [] | Some d \<Rightarrow> fold (\<lambda>(a, b). jset a b) (allBundles d) []), pk_store = db\<rparr>"

section \<open>PREKEY_PUBLISH\<close>

definition prekeyFieldOk :: "prekey_limits \<Rightarrow> jsval \<Rightarrow> bool" where
  "prekeyFieldOk L v \<longleftrightarrow> (case v of JStr s \<Rightarrow> s \<noteq> [] \<and> length s \<le> pl_max_key_length L | _ \<Rightarrow> False)"

definition str_of :: "jsval \<Rightarrow> string" where
  "str_of v = (case v of JStr s \<Rightarrow> s | _ \<Rightarrow> [])"

text \<open>Each entry an object with a finite id and a key, else nothing.\<close>

fun clean_one_time :: "prekey_limits \<Rightarrow> jsval list \<Rightarrow> one_time_key list option" where
  "clean_one_time L [] = Some []"
| "clean_one_time L (e # es) =
     (if \<not> truthy e \<or> \<not> is_finite (to_number (obj_get e ''id'')) \<or> \<not> prekeyFieldOk L (obj_get e ''key'') then None
      else map_option (\<lambda>xs. (fin_val (to_number (obj_get e ''id'')), str_of (obj_get e ''key'')) # xs) (clean_one_time L es))"

definition one_time_argument :: "jsval \<Rightarrow> jsval list" where
  "one_time_argument ob = (case obj_get ob ''one_time_prekeys'' of JArr vs \<Rightarrow> vs | _ \<Rightarrow> [])"

definition static_of :: "string \<Rightarrow> jsval \<Rightarrow> bundle_static" where
  "static_of now ob =
     \<lparr>bs_identity_key = str_of (obj_get ob ''identity_key''), bs_registration_id = number_or (obj_get ob ''registration_id'') 0,
      bs_device_id = number_or (obj_get ob ''device_id'') 1, bs_signed_prekey_id = number_or (obj_get ob ''signed_prekey_id'') 0,
      bs_signed_prekey = str_of (obj_get ob ''signed_prekey''), bs_signed_prekey_sig = str_of (obj_get ob ''signed_prekey_sig''),
      bs_kyber_prekey_id = number_or (obj_get ob ''kyber_prekey_id'') 0, bs_kyber_prekey = str_of (obj_get ob ''kyber_prekey''),
      bs_kyber_prekey_sig = str_of (obj_get ob ''kyber_prekey_sig''), bs_updated_at = now\<rparr>"

datatype bundle_reply = PublishFail nat | PublishOk nat

definition publish_identity :: "jsval \<Rightarrow> jsval" where
  "publish_identity ob = js_or (obj_get ob ''identity'') (obj_get ob ''name'')"

text \<open>The bundle after a publish: a new identity key evicts the old bundle with its pool.\<close>

definition publish_pool :: "prekey_limits \<Rightarrow> account \<Rightarrow> string \<Rightarrow> one_time_key list \<Rightarrow> prekeys \<Rightarrow> one_time_key list" where
  "publish_pool L a key fresh s =
     (let old = (case jget (pk_directory s) a of
                   None \<Rightarrow> []
                 | Some b \<Rightarrow> if bs_identity_key (bu_static b) \<noteq> [] \<and> bs_identity_key (bu_static b) \<noteq> key then [] else bu_one_time b)
      in take (pl_pool_max L) (old @ fresh))"

definition mirror :: "(prekey_db \<Rightarrow> prekey_db) \<Rightarrow> prekeys \<Rightarrow> prekeys" where
  "mirror f s = s\<lparr>pk_store := map_option f (pk_store s)\<rparr>"

definition prekey_publish :: "prekey_limits \<Rightarrow> string \<Rightarrow> string list \<Rightarrow> string \<Rightarrow> jsval \<Rightarrow> prekeys \<Rightarrow> bundle_reply \<times> prekeys" where
  "prekey_publish L now identities realm ob s =
     (case publish_identity ob of
        JStr identity \<Rightarrow>
          if identity = [] then (PublishFail 400, s)
          else if identity \<notin> set identities then (PublishFail 403, s)
          else if list_ex (\<lambda>k. \<not> prekeyFieldOk L (obj_get ob k))
                 [''identity_key'', ''signed_prekey'', ''signed_prekey_sig'', ''kyber_prekey'', ''kyber_prekey_sig''] then (PublishFail 400, s)
          else if pl_publish_batch_max L < length (one_time_argument ob) then (PublishFail 400, s)
          else (case clean_one_time L (one_time_argument ob) of
              None \<Rightarrow> (PublishFail 400, s)
            | Some fresh \<Rightarrow>
                (let a = (realm, identity); pool = publish_pool L a (str_of (obj_get ob ''identity_key'')) fresh s;
                     b = \<lparr>bu_static = static_of now ob, bu_one_time = pool\<rparr>
                 in (PublishOk (length pool), mirror (putBundle a b) (s\<lparr>pk_directory := jset a b (pk_directory s)\<rparr>))))
      | _ \<Rightarrow> (PublishFail 400, s))"

section \<open>PREKEY_TAKE and PREKEY_STATS\<close>

datatype take_reply = NotFound | Taken bundle_static "one_time_key option" nat

definition prekey_take :: "account \<Rightarrow> prekeys \<Rightarrow> take_reply \<times> prekeys" where
  "prekey_take a s =
     (case (if snd a = [] then None else jget (pk_directory s) a) of
        None \<Rightarrow> (NotFound, s)
      | Some b \<Rightarrow>
          if bs_identity_key (bu_static b) = [] then (NotFound, s)
          else (case bu_one_time b of
              [] \<Rightarrow> (Taken (bu_static b) None 0, s)
            | e # rest \<Rightarrow>
                (Taken (bu_static b) (Some e) (length rest),
                 mirror (consumeOneTime a (fst e)) (s\<lparr>pk_directory := jset a (b\<lparr>bu_one_time := rest\<rparr>) (pk_directory s)\<rparr>))))"

text \<open>The statistics of an account: whether it has a bundle, the size of its pool, when it was published.\<close>

definition prekey_stats :: "account \<Rightarrow> prekeys \<Rightarrow> bool \<times> nat \<times> string option" where
  "prekey_stats a s =
     (case jget (pk_directory s) a of
        None \<Rightarrow> (False, 0, None)
      | Some b \<Rightarrow> (bs_identity_key (bu_static b) \<noteq> [], length (bu_one_time b),
          if bs_updated_at (bu_static b) = [] then None else Some (bs_updated_at (bu_static b))))"

section \<open>Rows and pools\<close>

definition pool :: "account \<Rightarrow> prekeys \<Rightarrow> one_time_key list" where
  "pool a s = (case jget (pk_directory s) a of None \<Rightarrow> [] | Some b \<Rightarrow> bu_one_time b)"

definition stored_pool :: "account \<Rightarrow> prekeys \<Rightarrow> one_time_key list" where
  "stored_pool a s = (case pk_store s of None \<Rightarrow> [] | Some db \<Rightarrow> rows_of a (db_one_time db))"

definition upsert :: "one_time_key \<Rightarrow> one_time_key list \<Rightarrow> one_time_key list" where
  "upsert e es = filter (\<lambda>e'. fst e' \<noteq> fst e) es @ [e]"

lemma rows_of_insert: "rows_of a' (insert_otk a e rows) = (if a' = a then upsert e (rows_of a rows) else rows_of a' rows)"
  by (auto simp: rows_of_def insert_otk_def upsert_def filter_map comp_def split_beta intro!: arg_cong [where f = "map snd"] filter_cong)

lemma rows_of_inserts: "rows_of a' (fold (insert_otk a) es rows) = (if a' = a then fold upsert es (rows_of a rows) else rows_of a' rows)"
  by (induction es arbitrary: rows) (auto simp: rows_of_insert)

lemma rows_of_filter: "rows_of a' (filter (\<lambda>(b, e). \<not> (b = a \<and> P e)) rows) = (if a' = a then filter (\<lambda>e. \<not> P e) (rows_of a rows) else rows_of a' rows)"
  by (auto simp: rows_of_def filter_map comp_def split_beta intro!: arg_cong [where f = "map snd"] filter_cong)

lemma rows_of_delete: "rows_of a' (filter (\<lambda>(b, e). b \<noteq> a) rows) = (if a' = a then [] else rows_of a' rows)"
  using rows_of_filter [of a' a "\<lambda>_. True" rows] by simp

lemma rows_of_put: "rows_of a' (db_one_time (putBundle a b db)) = (if a' = a then fold upsert (bu_one_time b) [] else rows_of a' (db_one_time db))"
  by (simp add: putBundle_def rows_of_inserts rows_of_delete)

lemma upserts_subset: "mset (fold upsert es acc) \<subseteq># mset acc + mset es"
proof (induction es arbitrary: acc)
  case (Cons e es)
  have "mset (upsert e acc) \<subseteq># mset acc + {#e#}" by (simp add: upsert_def multiset_filter_subset)
  with Cons.IH [of "upsert e acc"] show ?case
    by (simp add: add.assoc) (metis (no_types, lifting) add_mset_add_single subset_mset.add_right_mono subset_mset.order_trans union_mset_add_mset_left)
qed simp

lemma upserts_distinct: "distinct (map fst (acc @ es)) \<Longrightarrow> fold upsert es acc = acc @ es"
proof (induction es arbitrary: acc)
  case (Cons e es)
  then have "upsert e acc = acc @ [e]" by (auto simp: upsert_def filter_id_conv rev_image_eqI)
  with Cons show ?case by simp
qed simp

lemma jget_fold_jset: "wf_map xs \<Longrightarrow> jget (fold (\<lambda>(a, b). jset a b) xs m) k = (case jget xs k of None \<Rightarrow> jget m k | Some v \<Rightarrow> Some v)"
proof (induction xs arbitrary: m)
  case (Cons x xs)
  obtain a b where x: "x = (a, b)" by (cases x)
  have "jget xs a = None" using Cons.prems by (auto simp: x wf_map_def map_of_eq_None_iff)
  with Cons show ?case by (auto simp: x wf_map_def split: option.split)
qed simp

lemma start_directory:
  "wf_map (db_bundles db) \<Longrightarrow> jget (pk_directory (prekeys_start (Some db))) a =
     map_option (\<lambda>st. \<lparr>bu_static = st, bu_one_time = sort_key fst (rows_of a (db_one_time db))\<rparr>) (jget (db_bundles db) a)"
proof -
  assume wf: "wf_map (db_bundles db)"
  then have "wf_map (allBundles db)" by (simp add: allBundles_def wf_map_def comp_def split_beta)
  then show ?thesis
    using jget_map_values [of "\<lambda>a st. \<lparr>bu_static = st, bu_one_time = sort_key fst (rows_of a (db_one_time db))\<rparr>" "db_bundles db" a]
    by (simp add: prekeys_start_def jget_fold_jset allBundles_def [symmetric] split: option.split)
qed

section \<open>Runs\<close>

datatype prekey_event =
    EvPublish string "string list" string jsval
  | EvTake account
  | EvRestart

text \<open>What an event adds for an account: the keys published for it, and the key handed out.\<close>

definition published :: "prekey_limits \<Rightarrow> account \<Rightarrow> prekey_event \<Rightarrow> prekeys \<Rightarrow> one_time_key list" where
  "published L a ev s =
     (case ev of
        EvPublish now identities realm ob \<Rightarrow>
          (case fst (prekey_publish L now identities realm ob s) of
             PublishOk n \<Rightarrow> if a = (realm, str_of (publish_identity ob)) then the (clean_one_time L (one_time_argument ob)) else []
           | PublishFail c \<Rightarrow> [])
      | _ \<Rightarrow> [])"

definition handed_out :: "account \<Rightarrow> prekey_event \<Rightarrow> prekeys \<Rightarrow> one_time_key list" where
  "handed_out a ev s =
     (case ev of
        EvTake a' \<Rightarrow> (if a' = a then (case fst (prekey_take a s) of Taken st (Some e) n \<Rightarrow> [e] | _ \<Rightarrow> []) else [])
      | _ \<Rightarrow> [])"

fun prekey_step :: "prekey_limits \<Rightarrow> prekey_event \<Rightarrow> prekeys \<Rightarrow> prekeys" where
  "prekey_step L (EvPublish now identities realm ob) s = snd (prekey_publish L now identities realm ob s)"
| "prekey_step L (EvTake a) s = snd (prekey_take a s)"
| "prekey_step L EvRestart s = prekeys_start (pk_store s)"

fun prekey_run :: "prekey_limits \<Rightarrow> account \<Rightarrow> prekey_event list \<Rightarrow> prekeys \<Rightarrow> one_time_key list \<times> one_time_key list" where
  "prekey_run L a [] s = ([], [])"
| "prekey_run L a (ev # evs) s =
     (let (out, new) = prekey_run L a evs (prekey_step L ev s) in (handed_out a ev s @ out, published L a ev s @ new))"

definition db_ok :: "prekey_db option \<Rightarrow> bool" where
  "db_ok d \<longleftrightarrow> (case d of None \<Rightarrow> True
     | Some db \<Rightarrow> wf_map (db_bundles db) \<and> (\<forall>a. rows_of a (db_one_time db) \<noteq> [] \<longrightarrow> jget (db_bundles db) a \<noteq> None))"

lemma jget_put: "jget (db_bundles (putBundle a b db)) a' = (if a' = a then Some (db_static (bu_static b)) else jget (db_bundles db) a')"
  by (auto simp: putBundle_def map_add_def split: option.split)

lemma db_okD:
  assumes "db_ok (Some db)"
  shows "wf_map (db_bundles db)" and "rows_of a (db_one_time db) \<noteq> [] \<Longrightarrow> jget (db_bundles db) a \<noteq> None"
  using assms unfolding db_ok_def by (simp, cases a, simp)

lemma wf_put: "wf_map (db_bundles db) \<Longrightarrow> wf_map (db_bundles (putBundle a b db))"
  by (simp add: putBundle_def wf_map_def distinct_delete) (simp add: jdel_keys)

lemma db_ok_put: "db_ok d \<Longrightarrow> db_ok (map_option (putBundle a b) d)"
proof (cases d)
  case (Some db)
  assume "db_ok d"
  with Some show ?thesis by (simp add: db_ok_def rows_of_put jget_put wf_put)
qed (simp add: db_ok_def)

lemma db_ok_consume: "db_ok d \<Longrightarrow> db_ok (map_option (consumeOneTime a i) d)"
proof (cases d)
  case (Some db)
  have "rows_of a' (filter (\<lambda>(a', e). \<not> (a' = a \<and> fst e = i)) (db_one_time db)) \<noteq> [] \<Longrightarrow> rows_of a' (db_one_time db) \<noteq> []" for a'
    using rows_of_filter [of a' a "\<lambda>e. fst e = i" "db_one_time db"] by (auto split: if_splits)
  moreover assume "db_ok d"
  ultimately show ?thesis using Some by (simp add: db_ok_def consumeOneTime_def)
qed (simp add: db_ok_def)

definition prekeys_inv :: "prekeys \<Rightarrow> bool" where
  "prekeys_inv s \<longleftrightarrow> (\<forall>a. mset (stored_pool a s) \<subseteq># mset (pool a s)) \<and> db_ok (pk_store s)"

lemma inv_sub: "prekeys_inv s \<Longrightarrow> mset (stored_pool a s) \<subseteq># mset (pool a s)"
  by (cases a) (simp add: prekeys_inv_def)

lemma prekeys_invI: "(\<And>a. mset (stored_pool a s) \<subseteq># mset (pool a s)) \<Longrightarrow> db_ok (pk_store s) \<Longrightarrow> prekeys_inv s"
  by (simp add: prekeys_inv_def)

lemma publish_result:
  "prekey_publish L now identities realm ob s = (PublishOk n, s') \<Longrightarrow>
   \<exists>identity fresh. publish_identity ob = JStr identity \<and> identity \<in> set identities \<and> identity \<noteq> [] \<and> prekeyFieldOk L (obj_get ob ''identity_key'')
     \<and> clean_one_time L (one_time_argument ob) = Some fresh
     \<and> s' = (let a = (realm, identity); p = publish_pool L a (str_of (obj_get ob ''identity_key'')) fresh s;
                b = \<lparr>bu_static = static_of now ob, bu_one_time = p\<rparr>
            in mirror (putBundle a b) (s\<lparr>pk_directory := jset a b (pk_directory s)\<rparr>))
     \<and> n = length (publish_pool L (realm, identity) (str_of (obj_get ob ''identity_key'')) fresh s)"
  by (auto simp: prekey_publish_def Let_def split: jsval.splits if_splits option.splits)

lemma publish_fails: "fst (prekey_publish L now identities realm ob s) = PublishFail c \<Longrightarrow> snd (prekey_publish L now identities realm ob s) = s"
  by (auto simp: prekey_publish_def Let_def split: jsval.splits if_splits option.splits)

lemma publish_pool_subset: "mset (publish_pool L a key fresh s) \<subseteq># mset (pool a s) + mset fresh"
proof -
  have tk: "mset (take m xs) \<subseteq># mset xs" for m and xs :: "one_time_key list"
    by (metis append_take_drop_id mset_append mset_subset_eq_add_left)
  have "mset (old @ fresh) \<subseteq># mset (pool a s) + mset fresh" if "old = [] \<or> old = pool a s" for old
    using that by auto
  moreover have "\<exists>old. (old = [] \<or> old = pool a s) \<and> publish_pool L a key fresh s = take (pl_pool_max L) (old @ fresh)"
    by (auto simp: publish_pool_def pool_def Let_def split: option.split)
  ultimately obtain old where "mset (old @ fresh) \<subseteq># mset (pool a s) + mset fresh"
    "publish_pool L a key fresh s = take (pl_pool_max L) (old @ fresh)" by blast
  then show ?thesis by (simp only:) (rule subset_mset.order_trans [OF tk])
qed

lemma publish_step:
  assumes inv: "prekeys_inv s" and eq: "prekey_publish L now identities realm ob s = (PublishOk n, s')"
  shows "prekeys_inv s' \<and> mset (pool a s') \<subseteq># mset (pool a s) + mset (published L a (EvPublish now identities realm ob) s)"
proof -
  from publish_result [OF eq] obtain identity fresh p b where i: "publish_identity ob = JStr identity"
    and fresh: "clean_one_time L (one_time_argument ob) = Some fresh"
    and p: "p = publish_pool L (realm, identity) (str_of (obj_get ob ''identity_key'')) fresh s"
    and b: "b = \<lparr>bu_static = static_of now ob, bu_one_time = p\<rparr>"
    and s': "s' = mirror (putBundle (realm, identity) b) (s\<lparr>pk_directory := jset (realm, identity) b (pk_directory s)\<rparr>)"
    by (auto simp: Let_def)
  let ?a = "(realm, identity)"
  have pool: "pool a' s' = (if a' = ?a then p else pool a' s)" for a'
    by (simp add: s' pool_def mirror_def b)
  have stored: "mset (stored_pool a' s') \<subseteq># mset (pool a' s')" for a'
  proof (cases "pk_store s")
    case (Some db)
    then have "stored_pool a' s' = (if a' = ?a then fold upsert p [] else stored_pool a' s)"
      by (simp add: s' stored_pool_def mirror_def rows_of_put b)
    with pool upserts_subset [of p "[]"] inv_sub [OF inv, of a'] show ?thesis by (cases "a' = ?a") simp_all
  qed (simp add: s' stored_pool_def mirror_def)
  have "db_ok (pk_store s')" using inv by (simp add: s' mirror_def prekeys_inv_def db_ok_put)
  moreover have "mset (pool a s') \<subseteq># mset (pool a s) + mset (published L a (EvPublish now identities realm ob) s)"
    using publish_pool_subset [of L ?a "str_of (obj_get ob ''identity_key'')" fresh s] i fresh eq
    by (simp add: pool p published_def str_of_def)
  ultimately show ?thesis using stored prekeys_invI by blast
qed

lemma take_step:
  assumes inv: "prekeys_inv s"
  shows "prekeys_inv (snd (prekey_take a' s))
    \<and> mset (handed_out a (EvTake a') s) + mset (pool a (snd (prekey_take a' s))) = mset (pool a s)"
proof (cases "\<exists>b e rest. snd a' \<noteq> [] \<and> jget (pk_directory s) a' = Some b \<and> bs_identity_key (bu_static b) \<noteq> [] \<and> bu_one_time b = e # rest")
  case False
  then have "snd (prekey_take a' s) = s" "handed_out a (EvTake a') s = []"
    by (auto simp: prekey_take_def handed_out_def split: option.splits list.splits)
  with inv show ?thesis by simp
next
  case True
  then obtain b e rest where b: "snd a' \<noteq> []" "jget (pk_directory s) a' = Some b" "bs_identity_key (bu_static b) \<noteq> []" "bu_one_time b = e # rest" by blast
  define s' where "s' = snd (prekey_take a' s)"
  have s': "s' = mirror (consumeOneTime a' (fst e)) (s\<lparr>pk_directory := jset a' (b\<lparr>bu_one_time := rest\<rparr>) (pk_directory s)\<rparr>)"
    using b by (simp add: s'_def prekey_take_def)
  have out: "handed_out a (EvTake a') s = (if a' = a then [e] else [])"
    using b by (cases "a' = a") (simp_all add: handed_out_def prekey_take_def)
  have pool: "pool c s' = (if c = a' then rest else pool c s)" for c by (simp add: s' pool_def mirror_def)
  have pa: "pool a' s = e # rest" using b by (simp add: pool_def)
  have "mset (stored_pool c s') \<subseteq># mset (pool c s')" for c
  proof (cases "pk_store s")
    case (Some db)
    have "stored_pool c s' = (if c = a' then filter (\<lambda>x. fst x \<noteq> fst e) (stored_pool a' s) else stored_pool c s)"
      using Some rows_of_filter [of c a' "\<lambda>x. fst x = fst e" "db_one_time db"]
      by (simp add: s' stored_pool_def mirror_def consumeOneTime_def)
    moreover have "filter_mset (\<lambda>x. fst x \<noteq> fst e) (mset (stored_pool a' s)) \<subseteq># mset rest"
    proof -
      have "filter_mset (\<lambda>x. fst x \<noteq> fst e) (mset (stored_pool a' s)) \<subseteq># filter_mset (\<lambda>x. fst x \<noteq> fst e) (mset (e # rest))"
        using inv_sub [OF inv, of a'] pa by (metis multiset_filter_mono)
      also have "\<dots> \<subseteq># mset rest" by (simp add: multiset_filter_subset)
      finally show ?thesis .
    qed
    ultimately show ?thesis using inv_sub [OF inv, of c] by (simp add: pool)
  qed (simp add: s' stored_pool_def mirror_def)
  moreover have "db_ok (pk_store s')"
    using inv by (simp add: prekeys_inv_def s' mirror_def db_ok_consume)
  ultimately have "prekeys_inv s'" by (rule prekeys_invI)
  moreover have "mset (handed_out a (EvTake a') s) + mset (pool a s') = mset (pool a s)"
    using pa by (simp add: out pool)
  ultimately show ?thesis by (simp add: s'_def)
qed

lemma restart_step:
  assumes inv: "prekeys_inv s"
  shows "prekeys_inv (prekeys_start (pk_store s)) \<and> mset (pool a (prekeys_start (pk_store s))) \<subseteq># mset (pool a s)"
proof (cases "pk_store s")
  case None
  then show ?thesis by (simp add: prekeys_inv_def prekeys_start_def stored_pool_def pool_def db_ok_def)
next
  case (Some db)
  with inv have ok: "wf_map (db_bundles db)" "\<And>a. rows_of a (db_one_time db) \<noteq> [] \<Longrightarrow> jget (db_bundles db) a \<noteq> None"
    using db_okD unfolding prekeys_inv_def by metis+
  have eq: "mset (pool a (prekeys_start (pk_store s))) = mset (stored_pool a s)" for a
    using Some ok(2) [of a]
    by (cases "jget (db_bundles db) a") (auto simp: pool_def start_directory [OF ok(1)] stored_pool_def)
  have same: "pk_store (prekeys_start (pk_store s)) = pk_store s" "stored_pool a (prekeys_start (pk_store s)) = stored_pool a s" for a
    by (simp_all add: prekeys_start_def stored_pool_def)
  show ?thesis
  proof
    show "prekeys_inv (prekeys_start (pk_store s))"
      by (rule prekeys_invI) (use inv in \<open>simp_all add: same eq prekeys_inv_def\<close>)
    show "mset (pool a (prekeys_start (pk_store s))) \<subseteq># mset (pool a s)"
      using inv_sub [OF inv, of a] by (simp add: eq)
  qed
qed

lemma prekey_step_balance:
  assumes inv: "prekeys_inv s"
  shows "prekeys_inv (prekey_step L ev s)
    \<and> mset (handed_out a ev s) + mset (pool a (prekey_step L ev s)) \<subseteq># mset (pool a s) + mset (published L a ev s)"
proof (cases ev)
  case (EvPublish now identities realm ob)
  show ?thesis
  proof (cases "prekey_publish L now identities realm ob s")
    case (Pair r s')
    show ?thesis
    proof (cases r)
      case (PublishFail c)
      with publish_fails [of L now identities realm ob s c] Pair EvPublish inv show ?thesis by (simp add: handed_out_def)
    next
      case (PublishOk n)
      with publish_step [OF inv, of L now identities realm ob n s' a] Pair EvPublish show ?thesis by (simp add: handed_out_def)
    qed
  qed
next
  case (EvTake a')
  with take_step [OF inv, of a' a] show ?thesis by (simp add: published_def)
next
  case EvRestart
  with restart_step [OF inv, of a] show ?thesis by (simp add: published_def handed_out_def)
qed

text \<open>
  C29. A one-time prekey is handed out at most as often as its owner published it: over every sequence
  of publications, takes and restarts of the broker, with or without a store, the keys taken from an
  account are among those published for it, each copy once.
\<close>

theorem one_time_keys_once:
  "mset (fst (prekey_run L a evs (prekeys_start (if durable then Some db_empty else None))))
     \<subseteq># mset (snd (prekey_run L a evs (prekeys_start (if durable then Some db_empty else None))))"
proof -
  have gen: "prekeys_inv s \<Longrightarrow> mset (fst (prekey_run L a evs s)) \<subseteq># mset (pool a s) + mset (snd (prekey_run L a evs s))" for s
  proof (induction evs arbitrary: s)
    case (Cons ev evs)
    let ?s = "prekey_step L ev s"
    note bal = prekey_step_balance [OF Cons.prems, of L ev a]
    then have "mset (fst (prekey_run L a evs ?s)) \<subseteq># mset (pool a ?s) + mset (snd (prekey_run L a evs ?s))" by (simp add: Cons.IH)
    then have "mset (handed_out a ev s) + mset (fst (prekey_run L a evs ?s))
        \<subseteq># (mset (handed_out a ev s) + mset (pool a ?s)) + mset (snd (prekey_run L a evs ?s))"
      by (simp add: add.assoc)
    also have "\<dots> \<subseteq># (mset (pool a s) + mset (published L a ev s)) + mset (snd (prekey_run L a evs ?s))"
      using bal by (simp add: subset_mset.add_right_mono)
    finally show ?case by (simp add: Let_def split_beta add.assoc)
  qed simp
  have "prekeys_inv (prekeys_start (if durable then Some db_empty else None))"
    "pool a (prekeys_start (if durable then Some db_empty else None)) = []"
    by (auto simp: prekeys_inv_def prekeys_start_def stored_pool_def pool_def db_ok_def db_empty_def allBundles_def rows_of_def)
  with gen [of "prekeys_start (if durable then Some db_empty else None)"] show ?thesis by simp
qed

section \<open>The abstract directory\<close>

text \<open>
  What a client may rely on: per account the published material and a bag of one-time keys. A restart
  is invisible; a take removes some key of the bag; a publish adds keys, and leaves keys out only when
  the pool is full or a new identity key evicts the old ones.
\<close>

type_synonym abstract_directory = "account \<Rightarrow> (bundle_static \<times> one_time_key multiset) option"

definition abs_directory :: "prekeys \<Rightarrow> abstract_directory" where
  "abs_directory s = (\<lambda>a. map_option (\<lambda>b. (bu_static b, mset (bu_one_time b))) (jget (pk_directory s) a))"

datatype prekey_reply = RepPublish bundle_reply | RepTake take_reply | RepRestart

fun reply_of :: "prekey_limits \<Rightarrow> prekey_event \<Rightarrow> prekeys \<Rightarrow> prekey_reply" where
  "reply_of L (EvPublish now identities realm ob) s = RepPublish (fst (prekey_publish L now identities realm ob s))"
| "reply_of L (EvTake a) s = RepTake (fst (prekey_take a s))"
| "reply_of L EvRestart s = RepRestart"

inductive abs_step :: "prekey_limits \<Rightarrow> prekey_event \<Rightarrow> prekey_reply \<Rightarrow> abstract_directory \<Rightarrow> abstract_directory \<Rightarrow> bool" for L where
  abs_publish_fail: "abs_step L (EvPublish now identities realm ob) (RepPublish (PublishFail c)) D D"
| abs_publish:
    "publish_identity ob = JStr identity \<Longrightarrow> identity \<in> set identities \<Longrightarrow> clean_one_time L (one_time_argument ob) = Some fresh \<Longrightarrow>
     old = (case D (realm, identity) of None \<Rightarrow> {#}
            | Some (st, ks) \<Rightarrow> if bs_identity_key st = str_of (obj_get ob ''identity_key'') then ks else {#}) \<Longrightarrow>
     bag \<subseteq># old + mset fresh \<Longrightarrow> size bag = min (pl_pool_max L) (size old + length fresh) \<Longrightarrow>
     abs_step L (EvPublish now identities realm ob) (RepPublish (PublishOk (size bag))) D (D((realm, identity) \<mapsto> (static_of now ob, bag)))"
| abs_take_none: "D a = None \<Longrightarrow> abs_step L (EvTake a) (RepTake NotFound) D D"
| abs_take_empty: "D a = Some (st, {#}) \<Longrightarrow> abs_step L (EvTake a) (RepTake (Taken st None 0)) D D"
| abs_take_one: "D a = Some (st, add_mset e bag) \<Longrightarrow> abs_step L (EvTake a) (RepTake (Taken st (Some e) (size bag))) D (D(a \<mapsto> (st, bag)))"
| abs_restart: "abs_step L EvRestart RepRestart D D"

text \<open>The store mirrors the directory, and the ids of an account's keys are distinct.\<close>

definition prekeys_exact :: "prekeys \<Rightarrow> bool" where
  "prekeys_exact s \<longleftrightarrow>
     (\<forall>a b. jget (pk_directory s) a = Some b \<longrightarrow> snd a \<noteq> [] \<and> bs_identity_key (bu_static b) \<noteq> [] \<and> db_static (bu_static b) = bu_static b
        \<and> distinct (map fst (bu_one_time b)))
     \<and> (\<exists>db. pk_store s = Some db \<and> wf_map (db_bundles db)
        \<and> (\<forall>a. jget (db_bundles db) a = map_option bu_static (jget (pk_directory s) a))
        \<and> (\<forall>a. mset (rows_of a (db_one_time db)) = mset (pool a s)))"

definition ids_fresh :: "prekey_limits \<Rightarrow> prekey_event \<Rightarrow> prekeys \<Rightarrow> bool" where
  "ids_fresh L ev s \<longleftrightarrow>
     (case ev of
        EvPublish now identities realm ob \<Rightarrow>
          (case clean_one_time L (one_time_argument ob) of
             None \<Rightarrow> True
           | Some fresh \<Rightarrow> distinct (map fst (pool (realm, str_of (publish_identity ob)) s @ fresh)))
      | _ \<Rightarrow> True)"

lemma or_zero_number_or: "or_zero (number_or v d) = number_or v d"
  by (auto simp: or_zero_def number_or_def Let_def)

lemma db_static_of [simp]: "db_static (static_of now ob) = static_of now ob"
  by (simp add: db_static_def static_of_def or_zero_number_or)

lemma exact_directory: "prekeys_exact s \<Longrightarrow> jget (pk_directory s) a = Some b \<Longrightarrow>
  snd a \<noteq> [] \<and> bs_identity_key (bu_static b) \<noteq> [] \<and> db_static (bu_static b) = bu_static b \<and> distinct (map fst (bu_one_time b))"
  by (cases a) (simp add: prekeys_exact_def)

lemma exactI:
  assumes "\<And>a b. jget (pk_directory s) a = Some b \<Longrightarrow> snd a \<noteq> [] \<and> bs_identity_key (bu_static b) \<noteq> [] \<and> db_static (bu_static b) = bu_static b
        \<and> distinct (map fst (bu_one_time b))"
    and "pk_store s = Some db" "wf_map (db_bundles db)"
    and "\<And>a. jget (db_bundles db) a = map_option bu_static (jget (pk_directory s) a)"
    and "\<And>a. mset (rows_of a (db_one_time db)) = mset (pool a s)"
  shows "prekeys_exact s"
  using assms unfolding prekeys_exact_def by blast

lemma distinct_sub: "mset xs \<subseteq># mset ys \<Longrightarrow> distinct (map fst ys) \<Longrightarrow> distinct (map fst xs)"
proof -
  assume sub: "mset xs \<subseteq># mset ys" and d: "distinct (map fst ys)"
  have "mset (map fst xs) \<subseteq># mset (map fst ys)" using image_mset_subseteq_mono [OF sub, of fst] by simp
  with d show ?thesis by (metis distinct_append mset_append mset_eq_imp_distinct_iff subset_mset.le_iff_add ex_mset)
qed

lemma publish_pool_old:
  assumes "prekeys_exact s"
  shows "publish_pool L a key fresh s = take (pl_pool_max L)
    ((case jget (pk_directory s) a of None \<Rightarrow> [] | Some b \<Rightarrow> if bs_identity_key (bu_static b) = key then bu_one_time b else []) @ fresh)"
  using exact_directory [OF assms, of a] by (auto simp: publish_pool_def Let_def split: option.split)

lemma refine_publish:
  assumes ex: "prekeys_exact s" and fr: "ids_fresh L (EvPublish now identities realm ob) s"
    and eq: "prekey_publish L now identities realm ob s = (PublishOk n, s')"
  shows "abs_step L (EvPublish now identities realm ob) (RepPublish (PublishOk n)) (abs_directory s) (abs_directory s') \<and> prekeys_exact s'"
proof -
  from publish_result [OF eq] obtain identity fresh where i: "publish_identity ob = JStr identity" "identity \<in> set identities" "identity \<noteq> []"
    and key: "prekeyFieldOk L (obj_get ob ''identity_key'')"
    and fresh: "clean_one_time L (one_time_argument ob) = Some fresh"
    and n: "n = length (publish_pool L (realm, identity) (str_of (obj_get ob ''identity_key'')) fresh s)"
    and s'0: "s' = (let a = (realm, identity); p = publish_pool L a (str_of (obj_get ob ''identity_key'')) fresh s;
                b = \<lparr>bu_static = static_of now ob, bu_one_time = p\<rparr>
            in mirror (putBundle a b) (s\<lparr>pk_directory := jset a b (pk_directory s)\<rparr>))"
    by blast
  define a where "a = (realm, identity)"
  define k where "k = str_of (obj_get ob ''identity_key'')"
  define old where "old = (case jget (pk_directory s) a of None \<Rightarrow> [] | Some b \<Rightarrow> if bs_identity_key (bu_static b) = k then bu_one_time b else [])"
  define p where "p = take (pl_pool_max L) (old @ fresh)"
  define b where "b = \<lparr>bu_static = static_of now ob, bu_one_time = p\<rparr>"
  have pp: "publish_pool L a k fresh s = p" by (simp add: publish_pool_old [OF ex] p_def old_def)
  have s': "s' = mirror (putBundle a b) (s\<lparr>pk_directory := jset a b (pk_directory s)\<rparr>)"
    unfolding s'0 Let_def a_def [symmetric] k_def [symmetric] pp b_def ..
  have k: "k \<noteq> []" using key by (auto simp: k_def prekeyFieldOk_def str_of_def split: jsval.splits)
  have sub: "mset p \<subseteq># mset old + mset fresh"
    unfolding p_def by (metis append_take_drop_id mset_append mset_subset_eq_add_left)
  have "distinct (map fst (pool a s @ fresh))" using fr fresh i by (simp add: ids_fresh_def a_def str_of_def)
  then have "distinct (map fst (old @ fresh))" by (auto simp: old_def pool_def split: option.splits)
  then have d: "distinct (map fst p)" using sub by (intro distinct_sub [of p "old @ fresh"]) simp_all
  have "abs_step L (EvPublish now identities realm ob) (RepPublish (PublishOk (size (mset p)))) (abs_directory s)
      ((abs_directory s)((realm, identity) \<mapsto> (static_of now ob, mset p)))"
  proof (rule abs_publish [OF i(1,2) fresh _ _ _, of "mset old"])
    show "mset old = (case abs_directory s (realm, identity) of None \<Rightarrow> {#}
        | Some (st, ks) \<Rightarrow> if bs_identity_key st = str_of (obj_get ob ''identity_key'') then ks else {#})"
      by (auto simp: old_def abs_directory_def a_def k_def split: option.split)
    show "size (mset p) = min (pl_pool_max L) (size (mset old) + length fresh)" by (simp add: p_def min.commute)
  qed (use sub in simp)
  moreover have "abs_directory s' = (abs_directory s)((realm, identity) \<mapsto> (static_of now ob, mset p))"
    by (auto simp: abs_directory_def s' mirror_def b_def a_def fun_eq_iff)
  moreover have "size (mset p) = n" using n pp by (simp add: a_def k_def)
  moreover have "prekeys_exact s'"
  proof -
    from ex obtain db where db: "pk_store s = Some db" "wf_map (db_bundles db)"
      "\<And>a. jget (db_bundles db) a = map_option bu_static (jget (pk_directory s) a)"
      "\<And>a. mset (rows_of a (db_one_time db)) = mset (pool a s)"
      unfolding prekeys_exact_def by blast
    have pool: "pool c s' = (if c = a then p else pool c s)" for c by (simp add: s' pool_def mirror_def b_def)
    show ?thesis
    proof (rule exactI)
      fix c b' assume "jget (pk_directory s') c = Some b'"
      then have "(c = a \<and> b' = b) \<or> jget (pk_directory s) c = Some b'" by (auto simp: s' mirror_def split: if_splits)
      then show "snd c \<noteq> [] \<and> bs_identity_key (bu_static b') \<noteq> [] \<and> db_static (bu_static b') = bu_static b' \<and> distinct (map fst (bu_one_time b'))"
      proof
        assume "c = a \<and> b' = b"
        then show ?thesis using i(3) k d by (simp add: a_def b_def) (simp add: static_of_def k_def)
      qed (use exact_directory [OF ex] in blast)
    next
      show "pk_store s' = Some (putBundle a b db)" by (simp add: s' mirror_def db)
      show "wf_map (db_bundles (putBundle a b db))" using db(2) by (rule wf_put)
      show "jget (db_bundles (putBundle a b db)) c = map_option bu_static (jget (pk_directory s') c)" for c
        by (simp add: jget_put db s' mirror_def b_def)
      show "mset (rows_of c (db_one_time (putBundle a b db))) = mset (pool c s')" for c
        using upserts_distinct [of "[]" p] d by (simp add: rows_of_put pool db b_def)
    qed
  qed
  ultimately show ?thesis by simp
qed

lemma refine_take:
  assumes ex: "prekeys_exact s"
  shows "abs_step L (EvTake a) (RepTake (fst (prekey_take a s))) (abs_directory s) (abs_directory (snd (prekey_take a s)))
    \<and> prekeys_exact (snd (prekey_take a s))"
proof (cases "jget (pk_directory s) a")
  case None
  then have "prekey_take a s = (NotFound, s)" by (simp add: prekey_take_def)
  with None ex show ?thesis by (simp add: abs_take_none abs_directory_def)
next
  case (Some b)
  note d = exact_directory [OF ex Some]
  show ?thesis
  proof (cases "bu_one_time b")
    case Nil
    then have "prekey_take a s = (Taken (bu_static b) None 0, s)" using Some d by (simp add: prekey_take_def)
    with Some Nil ex show ?thesis by (simp add: abs_take_empty abs_directory_def)
  next
    case (Cons e rest)
    define b' where "b' = b\<lparr>bu_one_time := rest\<rparr>"
    define s' where "s' = mirror (consumeOneTime a (fst e)) (s\<lparr>pk_directory := jset a b' (pk_directory s)\<rparr>)"
    have take: "prekey_take a s = (Taken (bu_static b) (Some e) (length rest), s')"
      using Some d Cons by (simp add: prekey_take_def s'_def b'_def)
    have "abs_step L (EvTake a) (RepTake (Taken (bu_static b) (Some e) (size (mset rest)))) (abs_directory s) ((abs_directory s)(a \<mapsto> (bu_static b, mset rest)))"
      by (rule abs_take_one) (simp add: abs_directory_def Some Cons)
    moreover have "abs_directory s' = (abs_directory s)(a \<mapsto> (bu_static b, mset rest))"
      by (auto simp: abs_directory_def s'_def mirror_def b'_def fun_eq_iff)
    moreover have "prekeys_exact s'"
    proof -
      from ex obtain db where db: "pk_store s = Some db" "wf_map (db_bundles db)"
        "\<And>a. jget (db_bundles db) a = map_option bu_static (jget (pk_directory s) a)"
        "\<And>a. mset (rows_of a (db_one_time db)) = mset (pool a s)"
        unfolding prekeys_exact_def by blast
      have pool: "pool c s' = (if c = a then rest else pool c s)" for c by (simp add: s'_def pool_def mirror_def b'_def)
      have "fst e \<notin> fst ` set rest" using d Cons by simp
      then have others: "filter_mset (\<lambda>x. fst x \<noteq> fst e) (mset (e # rest)) = mset rest"
        by (auto simp: filter_mset_eq_conv image_iff intro!: filter_mset_cong [where g = "\<lambda>_. True", simplified]) 
      show ?thesis
      proof (rule exactI)
        show "pk_store s' = Some (consumeOneTime a (fst e) db)" by (simp add: s'_def mirror_def db)
        show "wf_map (db_bundles (consumeOneTime a (fst e) db))" using db(2) by (simp add: consumeOneTime_def)
        show "jget (db_bundles (consumeOneTime a (fst e) db)) c = map_option bu_static (jget (pk_directory s') c)" for c
          using Some by (simp add: consumeOneTime_def db s'_def mirror_def b'_def)
        have pa: "mset (rows_of a (db_one_time db)) = mset (e # rest)" using db(4) [of a] Some Cons by (simp add: pool_def)
        show "mset (rows_of c (db_one_time (consumeOneTime a (fst e) db))) = mset (pool c s')" for c
          using rows_of_filter [of c a "\<lambda>x. fst x = fst e" "db_one_time db"] pa others db(4) [of c]
          by (auto simp: consumeOneTime_def pool)
        fix c b'' assume "jget (pk_directory s') c = Some b''"
        then have "(c = a \<and> b'' = b') \<or> jget (pk_directory s) c = Some b''" by (auto simp: s'_def mirror_def split: if_splits)
        then show "snd c \<noteq> [] \<and> bs_identity_key (bu_static b'') \<noteq> [] \<and> db_static (bu_static b'') = bu_static b'' \<and> distinct (map fst (bu_one_time b''))"
        proof
          assume "c = a \<and> b'' = b'"
          then show ?thesis using d Cons by (simp add: b'_def)
        qed (use exact_directory [OF ex] in blast)
      qed
    qed
    ultimately show ?thesis by (simp add: take)
  qed
qed

lemma refine_restart:
  assumes ex: "prekeys_exact s"
  shows "abs_directory (prekeys_start (pk_store s)) = abs_directory s \<and> prekeys_exact (prekeys_start (pk_store s))"
proof -
  from ex obtain db where db: "pk_store s = Some db" "wf_map (db_bundles db)"
    "\<And>a. jget (db_bundles db) a = map_option bu_static (jget (pk_directory s) a)"
    "\<And>a. mset (rows_of a (db_one_time db)) = mset (pool a s)"
    unfolding prekeys_exact_def by blast
  define s' where "s' = prekeys_start (Some db)"
  have dir: "jget (pk_directory s') a = map_option (\<lambda>b. \<lparr>bu_static = bu_static b, bu_one_time = sort_key fst (rows_of a (db_one_time db))\<rparr>)
      (jget (pk_directory s) a)" for a
    by (simp add: s'_def start_directory [OF db(2)] db(3) option.map_comp comp_def)
  have pool: "mset (pool a s') = mset (pool a s)" for a
    using db(4) [of a] by (cases "jget (pk_directory s) a") (simp_all add: pool_def dir)
  have "abs_directory s' a = abs_directory s a" for a
    using db(4) [of a] by (cases "jget (pk_directory s) a") (simp_all add: abs_directory_def dir pool_def)
  then have "abs_directory s' = abs_directory s" by (rule ext)
  moreover have "prekeys_exact s'"
  proof (rule exactI)
    show "pk_store s' = Some db" by (simp add: s'_def prekeys_start_def)
    show "jget (db_bundles db) a = map_option bu_static (jget (pk_directory s') a)" for a
      by (simp add: dir db(3) option.map_comp comp_def)
    fix a b assume b: "jget (pk_directory s') a = Some b"
    then obtain b0 where b0: "jget (pk_directory s) a = Some b0" "bu_static b = bu_static b0"
      "bu_one_time b = sort_key fst (rows_of a (db_one_time db))" by (auto simp: dir)
    have "mset (bu_one_time b) = mset (bu_one_time b0)" using db(4) [of a] b0 by (simp add: pool_def)
    then have "distinct (map fst (bu_one_time b))"
      using exact_directory [OF ex b0(1)] distinct_sub [of "bu_one_time b" "bu_one_time b0"] by simp
    with exact_directory [OF ex b0(1)] b0(2)
    show "snd a \<noteq> [] \<and> bs_identity_key (bu_static b) \<noteq> [] \<and> db_static (bu_static b) = bu_static b \<and> distinct (map fst (bu_one_time b))"
      by simp
  qed (simp_all add: db pool)
  ultimately show ?thesis by (simp add: db(1) s'_def)
qed

text \<open>
  C28. The directory with its store refines the abstract directory: while the ids of an account's
  one-time keys are distinct, every publish, take and restart is a step of the abstract directory with
  the same reply, so a restart loses no bundle and no key and brings none back; and the mirror in the
  store stays exact.
\<close>

theorem prekeys_refine:
  assumes "prekeys_exact s" and "ids_fresh L ev s"
  shows "abs_step L ev (reply_of L ev s) (abs_directory s) (abs_directory (prekey_step L ev s)) \<and> prekeys_exact (prekey_step L ev s)"
proof (cases ev)
  case (EvPublish now identities realm ob)
  show ?thesis
  proof (cases "prekey_publish L now identities realm ob s")
    case (Pair r s')
    show ?thesis
    proof (cases r)
      case (PublishFail c)
      with publish_fails [of L now identities realm ob s c] Pair EvPublish assms show ?thesis by (simp add: abs_publish_fail)
    next
      case (PublishOk n)
      with refine_publish [of s L now identities realm ob n s'] Pair EvPublish assms show ?thesis by simp
    qed
  qed
next
  case (EvTake a)
  with refine_take [OF assms(1), of L a] show ?thesis by simp
next
  case EvRestart
  with refine_restart [OF assms(1)] show ?thesis by (simp add: abs_restart)
qed

definition sample_limits :: prekey_limits where
  "sample_limits = \<lparr>pl_max_key_length = 10, pl_publish_batch_max = 5, pl_pool_max = 8\<rparr>"

definition sample_publish :: prekey_event where
  "sample_publish = EvPublish ''now'' [''alice''] ''r'' (JObj [(''identity'', JStr ''alice''), (''identity_key'', JStr ''ik''),
     (''signed_prekey'', JStr ''sp''), (''signed_prekey_sig'', JStr ''ss''), (''kyber_prekey'', JStr ''kp''), (''kyber_prekey_sig'', JStr ''ks''),
     (''one_time_prekeys'', JArr [JObj [(''id'', JNum (Fin 2)), (''key'', JStr ''k2'')], JObj [(''id'', JNum (Fin 1)), (''key'', JStr ''k1'')]])])"

lemma exact_start: "prekeys_exact (prekeys_start (Some db_empty))"
  by (rule exactI [of _ db_empty]) (simp_all add: prekeys_start_def db_empty_def allBundles_def pool_def rows_of_def)

theorem prekeys_refine_witness:
  "\<exists>s. reply_of sample_limits sample_publish s = RepPublish (PublishOk 2)
     \<and> abs_step sample_limits sample_publish (RepPublish (PublishOk 2)) (abs_directory s) (abs_directory (prekey_step sample_limits sample_publish s))"
proof -
  let ?s = "prekeys_start (Some db_empty)"
  have rep: "reply_of sample_limits sample_publish ?s = RepPublish (PublishOk 2)" by code_simp
  have "ids_fresh sample_limits sample_publish ?s" by code_simp
  from prekeys_refine [OF exact_start this] rep show ?thesis by (intro exI [of _ ?s]) simp
qed

text \<open>
  Two keys with one id: memory holds both, the store only the last, so after a restart one is gone.
\<close>

lemma duplicate_ids_not_mirrored:
  "let b = \<lparr>bu_static = static_of ''now'' (JObj []), bu_one_time = [(1, ''k1''), (1, ''k2'')]\<rparr>
   in rows_of (''r'', ''alice'') (db_one_time (putBundle (''r'', ''alice'') b db_empty)) = [(1, ''k2'')]"
  by code_simp

end
