(* ===== verification/Sealed.thy ===== *)
theory Sealed
  imports Delivery Prekeys
begin

text \<open>
  Sealed sender (\<open>lib/server.js\<close>, \<open>lib/sealed-sender.js\<close>): the handlers SEALED_UAK_SET,
  SEALED_CERT_REQUEST, SEALED_DELIVER and SEALED_SUBSCRIBE and the table \<open>sealed_uak\<close> of \<open>lib/prekey-store.js\<close>. The sender of a sealed
  message stays anonymous: what admits it is the access key of the recipient. The handlers are the
  events of a state machine, and so are the answers of the recipient's device and the timeouts that
  replace them: an online copy and each entry of a drain is in flight until its answer event.
  Decoding of base64 is a parameter; the limits are constants of the protocol package.
\<close>

section \<open>State\<close>

record sealed_env =
  se_configured :: bool
  se_b64 :: "string \<Rightarrow> string"
  se_uak_length :: nat
  se_max_blob :: nat
  se_batch :: nat
  se_inbox_ttl :: jsval

datatype uak_mode = RequireUak | Unrestricted

record uak_rec =
  ur_mode :: uak_mode
  ur_uak :: "string option"

text \<open>An online copy in flight: the socket, the recipient, the payload and the kind of wake.\<close>

record sealed_frame =
  fr_socket :: string
  fr_to :: account
  fr_payload :: jsval
  fr_wake :: jsval

text \<open>A drain of an inbox with acknowledgements; the first of \<open>dr_rest\<close> is in flight.\<close>

record drain =
  dr_socket :: string
  dr_of :: account
  dr_rest :: "entry list"
  dr_more :: bool
  dr_replayed :: nat
  dr_dead :: nat
  dr_pending :: nat

datatype sealed_reply =
    SealedFail nat
  | UakStored uak_mode bool
  | DeliveredOnline
  | DeliveredQueued
  | Draining
  | Drained nat nat nat bool

text \<open>
  \<open>sl_uaks\<close> is \<open>realm.sealedUak\<close> of all realms, addressed by realm and identity; \<open>sl_db\<close> the table it is
  written to, if there is a store; \<open>sl_sent\<close> what was emitted, to which socket.
\<close>

record 's sealed =
  sl_store :: 's
  sl_realms :: broker
  sl_uaks :: "(account, uak_rec) jsmap"
  sl_db :: "(account, uak_rec) jsmap option"
  sl_capable :: "string list"
  sl_frames :: "sealed_frame list"
  sl_drains :: "drain list"
  sl_sent :: "(string \<times> jsval) list"
  sl_wakes :: "(account \<times> jsval) list"

section \<open>The access keys of recipients\<close>

text \<open>\<open>putSealedUak\<close>, \<open>delSealedUak\<close> and \<open>allSealedUaks\<close>; INSERT OR REPLACE puts the new row last.\<close>

definition uak_row :: "uak_rec \<Rightarrow> uak_rec" where
  "uak_row rec = \<lparr>ur_mode = ur_mode rec, ur_uak = (if ur_mode rec = RequireUak then ur_uak rec else None)\<rparr>"

definition putSealedUak :: "account \<Rightarrow> uak_rec \<Rightarrow> (account, uak_rec) jsmap \<Rightarrow> (account, uak_rec) jsmap" where
  "putSealedUak a rec db = jdel a db @ [(a, uak_row rec)]"

definition delSealedUak :: "account \<Rightarrow> (account, uak_rec) jsmap \<Rightarrow> (account, uak_rec) jsmap" where
  "delSealedUak a db = jdel a db"

definition allSealedUaks :: "(account, uak_rec) jsmap \<Rightarrow> (account \<times> uak_rec) list" where
  "allSealedUaks db = db"

text \<open>The start of the server: the registry is read back from the table, which creates the realms.\<close>

definition sealed_start :: "'s \<Rightarrow> (account, uak_rec) jsmap option \<Rightarrow> 's sealed" where
  "sealed_start st db =
     (let rows = (case db of None \<Rightarrow> [] | Some d \<Rightarrow> allSealedUaks d) in
      \<lparr>sl_store = st, sl_realms = fold (\<lambda>((r, i), rec) B. putRealm r (getRealm r B) B) rows [],
       sl_uaks = fold (\<lambda>(a, rec). jset a rec) rows [], sl_db = db,
       sl_capable = [], sl_frames = [], sl_drains = [], sl_sent = [], sl_wakes = []\<rparr>)"

definition uak_mode_of :: "jsval \<Rightarrow> uak_mode option" where
  "uak_mode_of v = (if nullish v \<or> v = JStr ''require-uak'' then Some RequireUak
     else if v = JStr ''unrestricted'' then Some Unrestricted else None)"

definition uak_argument :: "sealed_env \<Rightarrow> jsval \<Rightarrow> string option" where
  "uak_argument E v = (case v of
       JStr u \<Rightarrow> if length u \<le> 64 \<and> length (se_b64 E u) = se_uak_length E then Some (se_b64 E u) else None
     | _ \<Rightarrow> None)"

text \<open>The checks the three handlers of a recipient share: configured, a name this socket registered, an enabled realm.\<close>

definition owned_identity :: "sealed_env \<Rightarrow> auth_settings \<Rightarrow> string \<Rightarrow> string list \<Rightarrow> jsval \<Rightarrow> nat + string" where
  "owned_identity E A realm ids ob =
     (if \<not> se_configured E then Inl 501
      else case publish_identity ob of
        JStr i \<Rightarrow> if i = [] then Inl 400 else if i \<notin> set ids then Inl 403
          else if \<not> sealedEnabledForRealm A realm then Inl 403 else Inr i
      | _ \<Rightarrow> Inl 400)"

definition sealed_uak_set :: "sealed_env \<Rightarrow> auth_settings \<Rightarrow> string \<Rightarrow> string list \<Rightarrow> jsval \<Rightarrow> 's sealed \<Rightarrow> sealed_reply \<times> 's sealed" where
  "sealed_uak_set E A realm ids ob s =
     (case owned_identity E A realm ids ob of
        Inl code \<Rightarrow> (SealedFail code, s)
      | Inr i \<Rightarrow>
          (case uak_mode_of (obj_get ob ''mode'') of
             None \<Rightarrow> (SealedFail 400, s)
           | Some mode \<Rightarrow>
               (let u = uak_argument E (obj_get ob ''uak'') in
                if mode = RequireUak \<and> u = None then (SealedFail 400, s)
                else let rec = \<lparr>ur_mode = mode, ur_uak = (if mode = RequireUak then u else None)\<rparr> in
                  (UakStored mode (sl_db s \<noteq> None),
                   s\<lparr>sl_realms := putRealm realm (getRealm realm (sl_realms s)) (sl_realms s),
                     sl_uaks := jset (realm, i) rec (sl_uaks s),
                     sl_db := map_option (putSealedUak (realm, i) rec) (sl_db s)\<rparr>))))"

section \<open>Sender certificates\<close>

text \<open>
  SEALED_CERT_REQUEST: a certificate for a name the socket registered. \<open>mint\<close> is the signing of the
  certificate, which may fail on a malformed key.
\<close>

datatype cert_reply = CertFail nat | CertIssued string

definition issueSenderCert ::
  "(string \<Rightarrow> jsnum \<Rightarrow> string \<Rightarrow> int \<Rightarrow> string option) \<Rightarrow> string \<Rightarrow> string \<Rightarrow> jsnum \<Rightarrow> int \<Rightarrow> int \<Rightarrow> string option" where
  "issueSenderCert mint identity key dev ttl now = mint identity dev key (now + ttl)"

definition sealed_cert_request ::
  "(string \<Rightarrow> jsnum \<Rightarrow> string \<Rightarrow> int \<Rightarrow> string option) \<Rightarrow> nat \<Rightarrow> int \<Rightarrow> sealed_env \<Rightarrow> auth_settings \<Rightarrow> int \<Rightarrow> string \<Rightarrow> string list
     \<Rightarrow> jsval \<Rightarrow> cert_reply" where
  "sealed_cert_request mint max_key ttl E A now realm ids ob =
     (case owned_identity E A realm ids ob of
        Inl code \<Rightarrow> CertFail code
      | Inr i \<Rightarrow>
          (case obj_get ob ''identity_key'' of
             JStr k \<Rightarrow>
               if k = [] \<or> length k > max_key then CertFail 400
               else (case issueSenderCert mint i (se_b64 E k) (number_or (obj_get ob ''device_id'') 1) ttl now of
                   None \<Rightarrow> CertFail 400 | Some c \<Rightarrow> CertIssued c)
           | _ \<Rightarrow> CertFail 400))"

text \<open>A certificate names an identity of the requesting socket and runs out after the lifetime.\<close>

lemma cert_binds_owner:
  assumes "sealed_cert_request mint max_key ttl E A now realm ids ob = CertIssued c"
  shows "\<exists>i \<in> set ids. \<exists>dev key. mint i dev key (now + ttl) = Some c \<and> sealedEnabledForRealm A realm"
  using assms unfolding sealed_cert_request_def issueSenderCert_def owned_identity_def
  by (auto split: sum.splits jsval.splits if_splits option.splits)

section \<open>Delivery\<close>

text \<open>Recipient and blob of a request that is well formed: its parts are strings within the bounds.\<close>

definition deliver_request :: "sealed_env \<Rightarrow> jsval \<Rightarrow> (account \<times> string) option" where
  "deliver_request E ob =
     (let to = obj_get ob ''to'' in
      case (obj_get to ''realm'', obj_get to ''identity'', obj_get ob ''blob'') of
        (JStr r, JStr i, JStr b) \<Rightarrow>
          if 256 < length r \<or> 256 < length i then None
          else if b = [] \<or> int (length b) > \<lceil>of_nat (se_max_blob E) * 4 / 3 :: rat\<rceil> + 4 then None
          else (case obj_get ob ''msg_id'' of
                  JUndef \<Rightarrow> Some ((r, i), b)
                | JStr m \<Rightarrow> if length m > 128 then None else Some ((r, i), b)
                | _ \<Rightarrow> None)
      | _ \<Rightarrow> None)"

definition presented_key :: "sealed_env \<Rightarrow> jsval \<Rightarrow> string" where
  "presented_key E ob = (case obj_get ob ''uak'' of JStr u \<Rightarrow> se_b64 E u | _ \<Rightarrow> [])"

text \<open>\<open>uakEqual\<close>: both are buffers with the same bytes.\<close>

definition uakEqual :: "string \<Rightarrow> string option \<Rightarrow> bool" where
  "uakEqual a b \<longleftrightarrow> b = Some a"

definition sealed_payload :: "jsval \<Rightarrow> string \<Rightarrow> jsval" where
  "sealed_payload ob b = JObj [(''blob'', JStr b), (''msg_id'', js_or (obj_get ob ''msg_id'') (JStr []))]"

definition inbox_event :: "account \<Rightarrow> string" where
  "inbox_event a = ''sealed:'' @ snd a"

definition inbox_message :: "sealed_env \<Rightarrow> account \<Rightarrow> jsval \<Rightarrow> message" where
  "inbox_message E a p = \<lparr>m_id = None, m_consumer = None, m_consumer_id = Some (snd a), m_payload = p, m_message = JUndef,
     m_producer = None, m_ttl = se_inbox_ttl E\<rparr>"

text \<open>\<open>enqueueSealedForRecipient\<close>: durable copy, then a wake.\<close>

definition enqueueSealed :: "sealed_env \<Rightarrow> 's store_ops \<Rightarrow> int \<Rightarrow> string \<Rightarrow> account \<Rightarrow> jsval \<Rightarrow> jsval \<Rightarrow> 's sealed \<Rightarrow> bool \<times> 's sealed" where
  "enqueueSealed E S now gen a p wake s =
     (case op_enqueue S now gen (Some (fst a)) (Some (inbox_event a)) (inbox_message E a p) (sl_store s) of
        (Inl e, st) \<Rightarrow> (False, s\<lparr>sl_store := st\<rparr>)
      | (Inr i, st) \<Rightarrow> (True, s\<lparr>sl_store := st, sl_wakes := sl_wakes s @ [(a, wake)]\<rparr>))"

text \<open>The queue caps of the destination: \<open>capr\<close> for the realm, \<open>capi\<close> for the recipient, infinite while the limiter is off.\<close>

definition inbox_full :: "'s store_ops \<Rightarrow> jsnum \<Rightarrow> jsnum \<Rightarrow> int \<Rightarrow> account \<Rightarrow> 's \<Rightarrow> bool \<times> 's" where
  "inbox_full S capr capi now a s =
     (let (full, s1) = (if is_finite capr then (let (n, s1) = op_countQueued S now (Some (fst a)) None None s in (at_least n capr, s1))
                        else (False, s)) in
      if full then (True, s1)
      else if is_finite capi
        then (let (n, s2) = op_countQueued S now (Some (fst a)) (Some (inbox_event a)) (Some (snd a)) s1 in (at_least n capi, s2))
      else (False, s1))"

definition sealed_offline ::
  "sealed_env \<Rightarrow> 's store_ops \<Rightarrow> jsnum \<Rightarrow> jsnum \<Rightarrow> int \<Rightarrow> string \<Rightarrow> account \<Rightarrow> jsval \<Rightarrow> jsval \<Rightarrow> 's sealed \<Rightarrow> sealed_reply \<times> 's sealed" where
  "sealed_offline E S capr capi now gen a p wake s =
     (let (full, st) = inbox_full S capr capi now a (sl_store s) in
      if full then (SealedFail 507, s\<lparr>sl_store := st\<rparr>)
      else (let (ok, s') = enqueueSealed E S now gen a p wake (s\<lparr>sl_store := st\<rparr>)
            in (if ok then DeliveredQueued else SealedFail 500, s')))"

definition sealed_online :: "string \<Rightarrow> account \<Rightarrow> jsval \<Rightarrow> jsval \<Rightarrow> 's sealed \<Rightarrow> 's sealed" where
  "sealed_online sock a p wake s =
     s\<lparr>sl_sent := sl_sent s @ [(sock, p)],
       sl_frames := (if sock \<in> set (sl_capable s)
                     then sl_frames s @ [\<lparr>fr_socket = sock, fr_to = a, fr_payload = p, fr_wake = wake\<rparr>] else sl_frames s)\<rparr>"

definition sealed_deliver ::
  "sealed_env \<Rightarrow> auth_settings \<Rightarrow> 's store_ops \<Rightarrow> (string \<Rightarrow> bool) \<Rightarrow> bool \<Rightarrow> jsnum \<Rightarrow> jsnum \<Rightarrow> int \<Rightarrow> string \<Rightarrow> jsval \<Rightarrow> 's sealed
     \<Rightarrow> sealed_reply \<times> 's sealed" where
  "sealed_deliver E A S live quota_ok capr capi now gen ob s =
     (if \<not> se_configured E then (SealedFail 501, s)
      else if \<not> quota_ok then (SealedFail 429, s)
      else case deliver_request E ob of
        None \<Rightarrow> (SealedFail 400, s)
      | Some (a, b) \<Rightarrow>
          (let known = (jget (sl_realms s) (fst a) \<noteq> None) in
           if known \<and> \<not> sealedEnabledForRealm A (fst a) then (SealedFail 403, s)
           else case (if known then jget (sl_uaks s) a else None) of
             None \<Rightarrow> (SealedFail 404, s)
           | Some rec \<Rightarrow>
               if ur_mode rec \<noteq> Unrestricted \<and> \<not> uakEqual (presented_key E ob) (ur_uak rec) then (SealedFail 403, s)
               else (let p = sealed_payload ob b; wake = fst (wakePolicyFor A (fst a) (obj_get ob ''wake'')) in
                     case findRecipientSocket (snd a) (getRealm (fst a) (sl_realms s)) of
                       Some sock \<Rightarrow> if live sock then (DeliveredOnline, sealed_online sock a p wake s)
                                     else sealed_offline E S capr capi now gen a p wake s
                     | None \<Rightarrow> sealed_offline E S capr capi now gen a p wake s)))"

text \<open>The answer to the k-th online copy in flight: received, or lost (a timeout or a disconnection), which requeues it.\<close>

definition frame_answer :: "sealed_env \<Rightarrow> 's store_ops \<Rightarrow> int \<Rightarrow> string \<Rightarrow> nat \<Rightarrow> bool \<Rightarrow> 's sealed \<Rightarrow> 's sealed" where
  "frame_answer E S now gen k received s =
     (if k < length (sl_frames s)
      then (let f = sl_frames s ! k; s1 = s\<lparr>sl_frames := take k (sl_frames s) @ drop (Suc k) (sl_frames s)\<rparr>
            in if received then s1 else snd (enqueueSealed E S now gen (fr_to f) (fr_payload f) (fr_wake f) s1))
      else s)"

section \<open>Draining an inbox\<close>

text \<open>\<open>Object.assign({queue_id: entry.id}, entry.message)\<close>\<close>

definition replay_payload :: "entry \<Rightarrow> jsval" where
  "replay_payload x = JObj (fold (\<lambda>(k, v). jset k v) (obj_fields (e_payload x)) [(''queue_id'', JStr (e_id x))])"

text \<open>What a drain does before it waits: the entry in front is emitted, and a drain with nothing left is over.\<close>

definition drain_emit :: "drain \<Rightarrow> (string \<times> jsval) list" where
  "drain_emit d = (case dr_rest d of [] \<Rightarrow> [] | x # xs \<Rightarrow> [(dr_socket d, replay_payload x)])"

definition drain_put :: "nat \<Rightarrow> drain \<Rightarrow> drain list \<Rightarrow> drain list" where
  "drain_put k d ds = (if dr_rest d = [] then take k ds @ drop (Suc k) ds else ds[k := d])"

definition drain_reply :: "drain \<Rightarrow> sealed_reply" where
  "drain_reply d = (if dr_rest d \<noteq> [] then Draining
     else Drained (dr_replayed d) (dr_dead d) (dr_pending d) (dr_more d \<or> 0 < dr_pending d))"

definition start_drain :: "sealed_env \<Rightarrow> 's store_ops \<Rightarrow> int \<Rightarrow> string \<Rightarrow> account \<Rightarrow> 's sealed \<Rightarrow> sealed_reply \<times> 's sealed" where
  "start_drain E S now sock a s =
     (let s1 = s\<lparr>sl_capable := set_add sock (sl_capable s)\<rparr> in
      if \<exists>d \<in> set (sl_drains s). dr_socket d = sock \<and> snd (dr_of d) = snd a then (SealedFail 409, s1)
      else (let (xs, st) = op_dequeue S now (Some (fst a)) (Some (inbox_event a)) (Some (snd a)) (sl_store s);
                d = \<lparr>dr_socket = sock, dr_of = a, dr_rest = take (se_batch E) xs, dr_more = (se_batch E < length xs),
                     dr_replayed = 0, dr_dead = 0, dr_pending = 0\<rparr>
            in (drain_reply d, s1\<lparr>sl_store := st, sl_sent := sl_sent s @ drain_emit d,
                  sl_drains := (if dr_rest d = [] then sl_drains s else sl_drains s @ [d])\<rparr>)))"

datatype drain_answer = Confirmed | Refused "string option" | Lost

text \<open>
  The answer to the entry in front of the k-th drain: confirmed entries are acknowledged, refused ones
  dead-lettered, lost ones stay queued; then the next entry is emitted. When the socket is gone the
  remaining entries are all left queued.
\<close>

definition refusal_reason :: "string option \<Rightarrow> string" where
  "refusal_reason why = ''client refused sealed blob'' @ (if str_truthy why then '': '' @ take 200 (the why) else [])"

definition settle_entry :: "'s store_ops \<Rightarrow> int \<Rightarrow> entry \<Rightarrow> drain_answer \<Rightarrow> 's \<Rightarrow> 's" where
  "settle_entry S now x r st =
     (case r of Confirmed \<Rightarrow> op_ack S (e_id x) st
      | Refused why \<Rightarrow> snd (op_deadLetter S now (e_id x) (Some (refusal_reason why)) st)
      | Lost \<Rightarrow> st)"

definition drain_next :: "bool \<Rightarrow> drain_answer \<Rightarrow> drain \<Rightarrow> drain" where
  "drain_next alive r d =
     (let xs = tl (dr_rest d);
          d1 = d\<lparr>dr_replayed := dr_replayed d + (if r = Confirmed then 1 else 0),
                 dr_dead := dr_dead d + (if r \<noteq> Confirmed \<and> r \<noteq> Lost then 1 else 0),
                 dr_pending := dr_pending d + (if r = Lost then 1 else 0)\<rparr>
      in if alive then d1\<lparr>dr_rest := xs\<rparr> else d1\<lparr>dr_rest := [], dr_pending := dr_pending d1 + length xs\<rparr>)"

definition answer_drain :: "'s store_ops \<Rightarrow> int \<Rightarrow> nat \<Rightarrow> bool \<Rightarrow> drain_answer \<Rightarrow> 's sealed \<Rightarrow> sealed_reply \<times> 's sealed" where
  "answer_drain S now k alive r s =
     (if k < length (sl_drains s)
      then (let d = sl_drains s ! k; d' = drain_next alive r d
            in (drain_reply d', s\<lparr>sl_store := settle_entry S now (hd (dr_rest d)) r (sl_store s),
                  sl_sent := sl_sent s @ drain_emit d', sl_drains := drain_put k d' (sl_drains s)\<rparr>))
      else (Draining, s))"

text \<open>Draining without acknowledgements: every entry is emitted and removed at once.\<close>

definition legacy_drain :: "sealed_env \<Rightarrow> 's store_ops \<Rightarrow> int \<Rightarrow> string \<Rightarrow> account \<Rightarrow> 's sealed \<Rightarrow> sealed_reply \<times> 's sealed" where
  "legacy_drain E S now sock a s =
     (let (xs, st) = op_dequeue S now (Some (fst a)) (Some (inbox_event a)) (Some (snd a)) (sl_store s);
          batch = take (se_batch E) xs
      in (Drained (length batch) 0 0 (se_batch E < length xs),
          s\<lparr>sl_store := fold (\<lambda>x. op_ack S (e_id x)) batch st, sl_sent := sl_sent s @ map (\<lambda>x. (sock, e_payload x)) batch\<rparr>))"

definition sealed_subscribe ::
  "sealed_env \<Rightarrow> auth_settings \<Rightarrow> 's store_ops \<Rightarrow> int \<Rightarrow> string \<Rightarrow> string \<Rightarrow> string list \<Rightarrow> jsval \<Rightarrow> 's sealed \<Rightarrow> sealed_reply \<times> 's sealed" where
  "sealed_subscribe E A S now sock realm ids ob s =
     (case owned_identity E A realm ids ob of
        Inl code \<Rightarrow> (SealedFail code, s)
      | Inr i \<Rightarrow> if obj_get ob ''ack'' = JBool True then start_drain E S now sock (realm, i) s
                 else legacy_drain E S now sock (realm, i) s)"

section \<open>The machine\<close>

datatype sealed_event =
    SevSet string "string list" jsval
  | SevDeliver "string \<Rightarrow> bool" bool int string jsval
  | SevFrame int string nat bool
  | SevSubscribe int string string "string list" jsval
  | SevAnswer int nat bool drain_answer
  | SevRealms broker

fun sealed_step :: "sealed_env \<Rightarrow> auth_settings \<Rightarrow> 's store_ops \<Rightarrow> jsnum \<Rightarrow> jsnum \<Rightarrow> sealed_event \<Rightarrow> 's sealed \<Rightarrow> 's sealed" where
  "sealed_step E A S capr capi (SevSet realm ids ob) s = snd (sealed_uak_set E A realm ids ob s)"
| "sealed_step E A S capr capi (SevDeliver live ok now gen ob) s = snd (sealed_deliver E A S live ok capr capi now gen ob s)"
| "sealed_step E A S capr capi (SevFrame now gen k received) s = frame_answer E S now gen k received s"
| "sealed_step E A S capr capi (SevSubscribe now sock realm ids ob) s = snd (sealed_subscribe E A S now sock realm ids ob s)"
| "sealed_step E A S capr capi (SevAnswer now k alive r) s = snd (answer_drain S now k alive r s)"
| "sealed_step E A S capr capi (SevRealms B) s = s\<lparr>sl_realms := B\<rparr>"

inductive sealed_reach :: "sealed_env \<Rightarrow> auth_settings \<Rightarrow> 's store_ops \<Rightarrow> jsnum \<Rightarrow> jsnum \<Rightarrow> 's sealed \<Rightarrow> 's sealed \<Rightarrow> bool"
  for E A S capr capi s0 where
  sealed_init: "sealed_reach E A S capr capi s0 s0"
| sealed_next: "sealed_reach E A S capr capi s0 s \<Longrightarrow> sealed_reach E A S capr capi s0 (sealed_step E A S capr capi ev s)"

fun sealed_clock :: "sealed_event \<Rightarrow> int option" where
  "sealed_clock (SevDeliver live ok now gen ob) = Some now"
| "sealed_clock (SevFrame now gen k received) = Some now"
| "sealed_clock (SevSubscribe now sock realm ids ob) = Some now"
| "sealed_clock _ = None"

definition sealed_clock_ok :: "sealed_event \<Rightarrow> bool" where
  "sealed_clock_ok ev \<longleftrightarrow> (case sealed_clock ev of None \<Rightarrow> True | Some now \<Rightarrow> 0 < now)"

text \<open>No drain is idle: each has an entry in flight.\<close>

definition drains_busy :: "'s sealed \<Rightarrow> bool" where
  "drains_busy s \<longleftrightarrow> (\<forall>d \<in> set (sl_drains s). dr_rest d \<noteq> [])"

lemma enqueueSealed_simps [simp]:
  "sl_drains (snd (enqueueSealed E S now gen a p w s)) = sl_drains s"
  "sl_frames (snd (enqueueSealed E S now gen a p w s)) = sl_frames s"
  "sl_sent (snd (enqueueSealed E S now gen a p w s)) = sl_sent s"
  "sl_uaks (snd (enqueueSealed E S now gen a p w s)) = sl_uaks s"
  "sl_store (snd (enqueueSealed E S now gen a p w s)) =
     snd (op_enqueue S now gen (Some (fst a)) (Some (inbox_event a)) (inbox_message E a p) (sl_store s))"
  by (simp_all add: enqueueSealed_def split: prod.split sum.split)

lemma sealed_offline_simps [simp]:
  "sl_drains (snd (sealed_offline E S capr capi now gen a p w s)) = sl_drains s"
  "sl_frames (snd (sealed_offline E S capr capi now gen a p w s)) = sl_frames s"
  "sl_sent (snd (sealed_offline E S capr capi now gen a p w s)) = sl_sent s"
  "sl_uaks (snd (sealed_offline E S capr capi now gen a p w s)) = sl_uaks s"
  by (simp_all add: sealed_offline_def split_beta Let_def)

lemma sealed_deliver_drains [simp]:
  "sl_drains (snd (sealed_deliver E A S live ok capr capi now gen ob s)) = sl_drains s"
  "sl_uaks (snd (sealed_deliver E A S live ok capr capi now gen ob s)) = sl_uaks s"
  by (simp_all add: sealed_deliver_def sealed_online_def Let_def split: option.split prod.split)

lemma drains_busy_put:
  "drains_busy s \<Longrightarrow> sl_drains s' = drain_put k d (sl_drains s) \<Longrightarrow> drains_busy s'"
  by (auto simp: drains_busy_def drain_put_def split: if_splits dest!: in_set_takeD in_set_dropD set_update_subset_insert [THEN subsetD])

lemma drains_busy_step: "drains_busy s \<Longrightarrow> drains_busy (sealed_step E A S capr capi ev s)"
proof (cases ev)
  case (SevSet realm ids ob)
  assume "drains_busy s"
  with SevSet show ?thesis
    by (simp add: sealed_uak_set_def drains_busy_def Let_def split: option.split sum.split)
next
  case (SevFrame now gen k received)
  assume "drains_busy s"
  with SevFrame show ?thesis by (simp add: frame_answer_def drains_busy_def Let_def)
next
  case (SevSubscribe now sock realm ids ob)
  assume "drains_busy s"
  with SevSubscribe show ?thesis
    by (auto simp: sealed_subscribe_def start_drain_def legacy_drain_def drains_busy_def Let_def split_beta split: sum.split)
next
  case (SevAnswer now k alive r)
  assume "drains_busy s"
  with SevAnswer show ?thesis
    by (auto simp: answer_drain_def Let_def intro: drains_busy_put)
qed (simp_all add: drains_busy_def)

lemma drains_busy_reach: "sealed_reach E A S capr capi s0 s \<Longrightarrow> drains_busy s0 \<Longrightarrow> drains_busy s"
  by (induction rule: sealed_reach.induct) (simp_all add: drains_busy_step)

section \<open>What happens to stored messages\<close>

text \<open>The reasons for which a sealed message may leave the store.\<close>

definition sealed_leaves :: "('s \<Rightarrow> dlq_entry list) \<Rightarrow> 's sealed \<Rightarrow> sealed_event \<Rightarrow> 's sealed \<Rightarrow> entry \<Rightarrow> bool" where
  "sealed_leaves dead s ev s' x \<longleftrightarrow>
     (\<exists>now k alive d. ev = SevAnswer now k alive Confirmed \<and> k < length (sl_drains s) \<and> d = sl_drains s ! k
        \<and> e_id (hd (dr_rest d)) = e_id x)
     \<or> (\<exists>now k alive why d. ev = SevAnswer now k alive (Refused why) \<and> k < length (sl_drains s) \<and> d = sl_drains s ! k
          \<and> e_id (hd (dr_rest d)) = e_id x \<and> (\<exists>y \<in> set (dead (sl_store s')). e_id y = e_id x \<and> d_at y = now))
     \<or> (\<exists>now. sealed_clock ev = Some now \<and> \<not> unexpired now x)
     \<or> (\<exists>now sock realm ids ob p. ev = SevSubscribe now sock realm ids ob \<and> obj_get ob ''ack'' \<noteq> JBool True
          \<and> (sock, p) \<in> set (sl_sent s') \<and> (\<exists>y :: entry. e_id y = e_id x \<and> p = e_payload y))"

text \<open>The answers to a drain that runs alone.\<close>

definition drain_run :: "'s store_ops \<Rightarrow> int \<Rightarrow> drain_answer list \<Rightarrow> 's sealed \<Rightarrow> 's sealed" where
  "drain_run S now rs s = fold (\<lambda>r s. snd (answer_drain S now 0 True r s)) rs s"

definition settled_ids :: "entry list \<Rightarrow> drain_answer list \<Rightarrow> string set" where
  "settled_ids xs rs = {e_id x | x r. (x, r) \<in> set (zip xs rs) \<and> r \<noteq> Lost}"

lemma settled_ids_simps [simp]:
  "settled_ids [] rs = {}" "settled_ids (x # xs) (r # rs) = (if r = Lost then {} else {e_id x}) \<union> settled_ids xs rs"
  by (auto simp: settled_ids_def)

context counting_store
begin

lemma fold_ack:
  "invar st \<Longrightarrow> invar (fold (\<lambda>x. ack (e_id x)) xs st)
     \<and> queue (fold (\<lambda>x. ack (e_id x)) xs st) = filter (\<lambda>y. e_id y \<notin> e_id ` set xs) (queue st)
     \<and> dead (fold (\<lambda>x. ack (e_id x)) xs st) = dead st"
proof (induction xs arbitrary: st)
  case (Cons x xs)
  then have "invar (ack (e_id x) st)" by (simp add: invars)
  from Cons.IH [OF this] Cons.prems show ?case
    by (auto simp: store_laws ack_dead intro!: filter_cong)
qed simp

lemma settle_entry_laws:
  assumes "invar st"
  shows "invar (settle_entry store_ops now x r st)"
    and "queue (settle_entry store_ops now x r st) = filter (\<lambda>y. r = Lost \<or> e_id y \<noteq> e_id x) (queue st)"
  using assms by (auto simp: settle_entry_def invars store_laws split: drain_answer.split)

lemma inbox_full_laws:
  assumes inv: "invar st"
  shows "invar (snd (inbox_full store_ops capr capi now a st))"
    and "filter (unexpired now) (queue (snd (inbox_full store_ops capr capi now a st))) = filter (unexpired now) (queue st)"
    and "set (queue (snd (inbox_full store_ops capr capi now a st))) \<subseteq> set (queue st)"
    and "dead (snd (inbox_full store_ops capr capi now a st)) = dead st"
  using inv by (auto simp: inbox_full_def Let_def split_beta count_laws count_dead)

lemma inbox_full_cap:
  assumes inv: "invar st" and "is_finite capi" and "\<not> fst (inbox_full store_ops capr capi now a st)"
  shows "\<not> at_least (length (filter (\<lambda>x. entry_box x = box_of (Some (fst a)) (Some (inbox_event a)) (Some (snd a)))
           (filter (unexpired now) (queue st)))) capi"
proof -
  have "filter (\<lambda>x. P x \<and> Q x \<and> Q x) xs = filter (\<lambda>x. P x \<and> Q x) xs" for P Q :: "entry \<Rightarrow> bool" and xs by simp
  with assms show ?thesis
    by (auto simp: inbox_full_def Let_def split_beta count_box count_laws filter_filter split: if_splits)
qed

lemma enqueue_laws:
  assumes inv: "invar st" and pos: "0 < now"
  shows "set (filter (unexpired now) (queue st)) \<subseteq> set (queue (snd (enqueue now gen r e m st)))"
    and "dead (snd (enqueue now gen r e m st)) = dead st"
proof -
  obtain res s' where eq: "enqueue now gen r e m st = (res, s')" by fastforce
  show "set (filter (unexpired now) (queue st)) \<subseteq> set (queue (snd (enqueue now gen r e m st)))"
    using enqueue_ok [OF inv pos, of gen r e m] enqueue_fail [OF inv pos, of gen r e m] eq by (cases res) fastforce+
  show "dead (snd (enqueue now gen r e m st)) = dead st" by (rule enqueue_dead [OF inv])
qed

lemma sealed_offline_keeps:
  assumes inv: "invar (sl_store s)" and pos: "0 < now"
  shows "invar (sl_store (snd (sealed_offline E store_ops capr capi now gen a p w s)))"
    and "set (filter (unexpired now) (queue (sl_store s)))
       \<subseteq> set (queue (sl_store (snd (sealed_offline E store_ops capr capi now gen a p w s))))"
proof -
  define st where "st = snd (inbox_full store_ops capr capi now a (sl_store s))"
  have st: "invar st" "filter (unexpired now) (queue st) = filter (unexpired now) (queue (sl_store s))"
    using inbox_full_laws [OF inv] by (simp_all add: st_def)
  show "invar (sl_store (snd (sealed_offline E store_ops capr capi now gen a p w s)))"
    using st(1) invar_enqueue [OF st(1) pos]
    by (simp add: sealed_offline_def Let_def split_beta st_def [symmetric])
  show "set (filter (unexpired now) (queue (sl_store s)))
       \<subseteq> set (queue (sl_store (snd (sealed_offline E store_ops capr capi now gen a p w s))))"
  proof -
    have "set (filter (unexpired now) (queue st)) \<subseteq> set (queue st)" by auto
    with enqueue_laws(1) [OF st(1) pos] show ?thesis
      unfolding st(2) [symmetric]
      by (simp add: sealed_offline_def Let_def split_beta st_def [symmetric])
  qed
qed

lemma sealed_deliver_keeps:
  assumes inv: "invar (sl_store s)" and pos: "0 < now"
  shows "invar (sl_store (snd (sealed_deliver E A store_ops live ok capr capi now gen ob s)))"
    and "set (filter (unexpired now) (queue (sl_store s)))
       \<subseteq> set (queue (sl_store (snd (sealed_deliver E A store_ops live ok capr capi now gen ob s))))"
  using inv sealed_offline_keeps [OF inv pos]
  by (auto simp: sealed_deliver_def sealed_online_def Let_def split: option.split prod.split)

lemma sealed_step_invar:
  assumes inv: "invar (sl_store s)" and ok: "sealed_clock_ok ev"
  shows "invar (sl_store (sealed_step E A store_ops capr capi ev s))"
proof (cases ev)
  case (SevSet realm ids ob)
  with inv show ?thesis by (simp add: sealed_uak_set_def Let_def split: option.split sum.split)
next
  case (SevDeliver live q now gen ob)
  with ok have "0 < now" by (simp add: sealed_clock_ok_def)
  with SevDeliver sealed_deliver_keeps(1) [OF inv] show ?thesis by simp
next
  case (SevFrame now gen k received)
  with ok inv show ?thesis by (simp add: frame_answer_def Let_def sealed_clock_ok_def invars)
next
  case (SevSubscribe now sock realm ids ob)
  have "invar (fold (\<lambda>x. ack (e_id x)) xs st)" if "invar st" for xs :: "entry list" and st using fold_ack [OF that] by blast
  with SevSubscribe inv show ?thesis
    by (auto simp: sealed_subscribe_def start_drain_def legacy_drain_def Let_def split_beta invars split: sum.split)
next
  case (SevAnswer now k alive r)
  with inv show ?thesis by (simp add: answer_drain_def Let_def settle_entry_laws)
qed (use inv in simp)

lemma legacy_leaves:
  assumes inv: "invar (sl_store s)" and x: "x \<in> set (queue (sl_store s))" and live: "unexpired now x"
    and gone: "e_id x \<notin> e_id ` set (queue (sl_store (snd (legacy_drain E store_ops now sock a s))))"
  shows "\<exists>p. (sock, p) \<in> set (sl_sent (snd (legacy_drain E store_ops now sock a s))) \<and> (\<exists>y :: entry. e_id y = e_id x \<and> p = e_payload y)"
proof -
  define d where "d = dequeue now (Some (fst a)) (Some (inbox_event a)) (Some (snd a)) (sl_store s)"
  have x1: "x \<in> set (queue (snd d))" "invar (snd d)" using inv x live by (simp_all add: d_def store_laws invars)
  have "sl_store (snd (legacy_drain E store_ops now sock a s)) = fold (\<lambda>x. ack (e_id x)) (take (se_batch E) (fst d)) (snd d)"
    by (simp add: legacy_drain_def Let_def split_beta d_def)
  with gone x1 fold_ack [OF x1(2), of "take (se_batch E) (fst d)"]
  obtain y where "y \<in> set (take (se_batch E) (fst d))" "e_id y = e_id x" by fastforce
  then show ?thesis
    by (auto simp: legacy_drain_def Let_def split_beta d_def intro!: exI [of _ "e_payload y"])
qed

lemma sealed_step_leaves:
  assumes inv: "invar (sl_store s)" and ok: "sealed_clock_ok ev" and x: "x \<in> set (queue (sl_store s))"
    and gone: "e_id x \<notin> e_id ` set (queue (sl_store (sealed_step E A store_ops capr capi ev s)))"
  shows "sealed_leaves dead s ev (sealed_step E A store_ops capr capi ev s) x"
proof (cases ev)
  case (SevSet realm ids ob)
  with gone x show ?thesis by (simp add: sealed_uak_set_def Let_def split: option.splits sum.splits if_splits)
next
  case (SevDeliver live q now gen ob)
  with ok have pos: "0 < now" by (simp add: sealed_clock_ok_def)
  have "\<not> unexpired now x"
    using gone x SevDeliver sealed_deliver_keeps(2) [OF inv pos, of E A live q capr capi gen ob] by auto
  with SevDeliver show ?thesis by (simp add: sealed_leaves_def)
next
  case (SevFrame now gen k received)
  with ok have pos: "0 < now" by (simp add: sealed_clock_ok_def)
  have "\<not> unexpired now x"
    using gone x SevFrame enqueue_laws(1) [OF inv pos] by (fastforce simp: frame_answer_def Let_def split: if_splits)
  with SevFrame show ?thesis by (simp add: sealed_leaves_def)
next
  case (SevSubscribe now sock realm ids ob)
  show ?thesis
  proof (cases "unexpired now x")
    case False
    with SevSubscribe show ?thesis by (simp add: sealed_leaves_def)
  next
    case True
    show ?thesis
    proof (cases "owned_identity E A realm ids ob")
      case (Inl code)
      with gone x SevSubscribe show ?thesis by (simp add: sealed_subscribe_def)
    next
      case (Inr i)
      show ?thesis
      proof (cases "obj_get ob ''ack'' = JBool True")
        case ack: True
        with Inr gone x True SevSubscribe inv show ?thesis
          by (auto simp: sealed_subscribe_def start_drain_def Let_def split_beta store_laws split: if_splits)
      next
        case False
        with Inr SevSubscribe legacy_leaves [OF inv x True, of E sock "(realm, i)"] gone show ?thesis
          by (auto simp: sealed_leaves_def sealed_subscribe_def)
      qed
    qed
  qed
next
  case (SevAnswer now k alive r)
  show ?thesis
  proof (cases "k < length (sl_drains s)")
    case False
    with gone x SevAnswer show ?thesis by (simp add: answer_drain_def)
  next
    case True
    define y where "y = hd (dr_rest (sl_drains s ! k))"
    have st: "sl_store (sealed_step E A store_ops capr capi ev s) = settle_entry store_ops now y r (sl_store s)"
      using True SevAnswer by (simp add: answer_drain_def Let_def y_def)
    with gone x have "r \<noteq> Lost" "e_id y = e_id x" by (auto simp: settle_entry_laws [OF inv])
    with True SevAnswer st show ?thesis
    proof (cases r)
      case (Refused why)
      from deadLetter_dead [OF inv x, of "e_id y" now "Some (refusal_reason why)"] \<open>e_id y = e_id x\<close>
      have "\<exists>z \<in> set (dead (settle_entry store_ops now y r (sl_store s))). e_id z = e_id x \<and> d_at z = now"
        using Refused by (auto simp: settle_entry_def)
      with True SevAnswer st Refused \<open>e_id y = e_id x\<close> show ?thesis
        by (simp add: sealed_leaves_def y_def)
    qed (auto simp: sealed_leaves_def y_def)
  qed
qed (use gone x in simp)

lemma drain_run_settles:
  assumes "invar (sl_store s)" and "sl_drains s = [d]" and "length rs = length (dr_rest d)" and "dr_rest d \<noteq> []"
  shows "sl_drains (drain_run store_ops now rs s) = [] \<and> invar (sl_store (drain_run store_ops now rs s))
    \<and> sl_sent (drain_run store_ops now rs s) = sl_sent s @ map (\<lambda>x. (dr_socket d, replay_payload x)) (tl (dr_rest d))
    \<and> queue (sl_store (drain_run store_ops now rs s))
        = filter (\<lambda>y. e_id y \<notin> settled_ids (dr_rest d) rs) (queue (sl_store s))"
  using assms
proof (induction rs arbitrary: s d)
  case (Cons r rs)
  then obtain x xs where rest: "dr_rest d = x # xs" by (cases "dr_rest d") auto
  define d' where "d' = drain_next True r d"
  define s1 where "s1 = snd (answer_drain store_ops now 0 True r s)"
  have d': "dr_rest d' = xs" "dr_socket d' = dr_socket d" by (simp_all add: d'_def drain_next_def rest Let_def)
  have s1: "sl_store s1 = settle_entry store_ops now x r (sl_store s)" "sl_sent s1 = sl_sent s @ drain_emit d'"
      "sl_drains s1 = drain_put 0 d' [d]"
    using Cons.prems(2) by (simp_all add: s1_def answer_drain_def Let_def d'_def rest)
  have run: "drain_run store_ops now (r # rs) s = drain_run store_ops now rs s1" by (simp add: drain_run_def s1_def)
  show ?case
  proof (cases xs)
    case Nil
    with Cons.prems rest have rs: "rs = []" by simp
    then have "drain_run store_ops now rs s1 = s1" by (simp add: drain_run_def)
    with Nil s1 d' rest rs settle_entry_laws [OF Cons.prems(1)] show ?thesis
      unfolding run by (auto simp: drain_put_def drain_emit_def intro!: filter_cong)
  next
    case (Cons z zs)
    with d' have "sl_drains s1 = [d']" by (simp add: s1 drain_put_def)
    with Cons.IH [of s1 d'] Cons.prems Cons d' rest s1 settle_entry_laws [OF Cons.prems(1)]
    show ?thesis unfolding run by (auto simp: drain_emit_def intro!: filter_cong)
  qed
qed simp

lemma start_drain_settles:
  fixes s and sock :: string
  assumes inv: "invar (sl_store s)" and none: "sl_drains s = []"
    and xs: "fst (dequeue now (Some (fst a)) (Some (inbox_event a)) (Some (snd a)) (sl_store s)) = xs"
    and rs: "length rs = length (take (se_batch E) xs)"
  defines "s' \<equiv> drain_run store_ops now rs (snd (start_drain E store_ops now sock a s))"
  shows "sl_drains s' = []"
    and "sl_sent s' = sl_sent s @ map (\<lambda>x. (sock, replay_payload x)) (take (se_batch E) xs)"
    and "queue (sl_store s')
           = filter (\<lambda>y. e_id y \<notin> settled_ids (take (se_batch E) xs) rs) (filter (unexpired now) (queue (sl_store s)))"
proof -
  define st where "st = snd (dequeue now (Some (fst a)) (Some (inbox_event a)) (Some (snd a)) (sl_store s))"
  define batch where "batch = take (se_batch E) xs"
  define d where "d = \<lparr>dr_socket = sock, dr_of = a, dr_rest = batch, dr_more = (se_batch E < length xs),
      dr_replayed = 0, dr_dead = 0, dr_pending = 0\<rparr>"
  define s1 where "s1 = snd (start_drain E store_ops now sock a s)"
  have s1: "sl_store s1 = st" "sl_sent s1 = sl_sent s @ drain_emit d" "sl_drains s1 = (if batch = [] then [] else [d])"
    using none xs by (simp_all add: s1_def start_drain_def Let_def split_beta st_def batch_def d_def)
  have st: "invar st" "queue st = filter (unexpired now) (queue (sl_store s))"
    using inv by (simp_all add: st_def invars store_laws)
  have all: "sl_drains s' = []
      \<and> sl_sent s' = sl_sent s @ map (\<lambda>x. (sock, replay_payload x)) batch
      \<and> queue (sl_store s') = filter (\<lambda>y. e_id y \<notin> settled_ids batch rs) (filter (unexpired now) (queue (sl_store s)))"
  proof (cases batch)
    case Nil
    then have "rs = []" using rs [folded batch_def] by simp
    then have "s' = s1" by (simp add: s'_def s1_def drain_run_def)
    with Nil s1 st show ?thesis by (simp add: drain_emit_def d_def)
  next
    case (Cons x rest)
    from drain_run_settles [of s1 d rs now] st s1 Cons rs show ?thesis
      unfolding s'_def s1_def [symmetric] by (simp add: batch_def [symmetric] d_def drain_emit_def)
  qed
  then show "sl_drains s' = []"
    and "sl_sent s' = sl_sent s @ map (\<lambda>x. (sock, replay_payload x)) (take (se_batch E) xs)"
    and "queue (sl_store s')
           = filter (\<lambda>y. e_id y \<notin> settled_ids (take (se_batch E) xs) rs) (filter (unexpired now) (queue (sl_store s)))"
    by (simp_all only: batch_def)
qed

lemma lost_frame_stored:
  assumes inv: "invar (sl_store s)" and pos: "0 < now" and later: "now \<le> t"
    and k: "k < length (sl_frames s)" and f: "sl_frames s ! k = f" and r: "fst (fr_to f) \<noteq> []"
    and p: "fr_payload f \<noteq> JUndef" and i: "snd (fr_to f) \<noteq> []"
    and enq: "enqueue now gen (Some (fst (fr_to f))) (Some (inbox_event (fr_to f))) (inbox_message E (fr_to f) (fr_payload f)) (sl_store s) = (Inr j, st)"
    and live: "case expiry (sl_store s) now (inbox_message E (fr_to f) (fr_payload f)) of None \<Rightarrow> True | Some e \<Rightarrow> of_int t < e"
  shows "\<exists>x. fst (dequeue t (Some (fst (fr_to f))) (Some (inbox_event (fr_to f))) (Some (snd (fr_to f)))
               (sl_store (frame_answer E store_ops now gen k False s)))
             = fst (dequeue t (Some (fst (fr_to f))) (Some (inbox_event (fr_to f))) (Some (snd (fr_to f))) (sl_store s)) @ [x]
           \<and> e_payload x = stored (fr_payload f)"
proof -
  have c: "message_consumer (inbox_message E (fr_to f) (fr_payload f)) = Some (snd (fr_to f))"
    using i by (simp add: message_consumer_def inbox_message_def opt_or_def)
  have m: "message_payload (inbox_message E (fr_to f) (fr_payload f)) = fr_payload f"
    using p by (simp add: message_payload_def inbox_message_def)
  have "sl_store (frame_answer E store_ops now gen k False s) = st"
    using k f enq by (simp add: frame_answer_def Let_def)
  with enqueue_then_dequeue [OF inv pos enq live later] show ?thesis by (auto simp: c m)
qed

end

section \<open>Properties\<close>


text \<open>A realm with sealed sender enabled, a recipient with a one-byte key, and a request to it.\<close>

definition sealed_auth :: auth_settings where
  "sealed_auth = sample_auth\<lparr>as_options := Some \<lparr>ab_enabled = JBool True,
     ab_realms = [(''r'', realm_config.extend realm_config_empty
       \<lparr>rs_required = JUndef, rs_requireKey = JUndef, rs_require_acceptance = JUndef, rs_requireAcceptance = JUndef,
        rs_allow_anonymous = JUndef, rs_allowAnonymous = JUndef, rs_e2ee = JStr ''required'', rs_push = JUndef\<rparr>)]\<rparr>\<rparr>"

definition sealed_sample_env :: sealed_env where
  "sealed_sample_env = \<lparr>se_configured = True, se_b64 = id, se_uak_length = 1, se_max_blob = 96, se_batch = 2, se_inbox_ttl = JNum (Fin 60)\<rparr>"

definition sealed_request :: "string \<Rightarrow> jsval" where
  "sealed_request key = JObj [(''to'', JObj [(''realm'', JStr ''r''), (''identity'', JStr ''alice'')]), (''blob'', JStr ''b''), (''uak'', JStr key)]"

definition sealed_sample :: "'s \<Rightarrow> 's sealed" where
  "sealed_sample st = snd (sealed_uak_set sealed_sample_env sealed_auth ''r'' [''alice'']
     (JObj [(''name'', JStr ''alice''), (''uak'', JStr ''k'')]) (sealed_start st (Some [])))"

lemma sealed_sample_enabled: "sealedEnabledForRealm sealed_auth ''r''"
  by code_simp

lemma sealed_sample_eq: "sealed_sample st =
  \<lparr>sl_store = st, sl_realms = [(''r'', realm_empty)], sl_uaks = [((''r'', ''alice''), \<lparr>ur_mode = RequireUak, ur_uak = Some ''k''\<rparr>)],
   sl_db = Some [((''r'', ''alice''), \<lparr>ur_mode = RequireUak, ur_uak = Some ''k''\<rparr>)], sl_capable = [], sl_frames = [], sl_drains = [],
   sl_sent = [], sl_wakes = []\<rparr>"
  by (simp add: sealed_sample_def sealed_uak_set_def owned_identity_def publish_identity_def js_or_def sealed_sample_enabled
      sealed_start_def allSealedUaks_def uak_mode_of_def nullish_def uak_argument_def sealed_sample_env_def Let_def
      putSealedUak_def uak_row_def putRealm_def getRealm_def)

lemma sealed_sample_deliver:
  "deliver_request sealed_sample_env (sealed_request key) = Some ((''r'', ''alice''), ''b'')"
  "presented_key sealed_sample_env (sealed_request key) = key" "se_configured sealed_sample_env"
  "sealed_payload (sealed_request key) b = JObj [(''blob'', JStr b), (''msg_id'', JStr [])]"
  by (simp_all add: deliver_request_def presented_key_def sealed_request_def sealed_sample_env_def sealed_payload_def js_or_def Let_def)



text \<open>An inbox with two messages.\<close>

definition sealed_entry :: "string \<Rightarrow> entry" where
  "sealed_entry i = \<lparr>e_id = i, e_realm = ''r'', e_event = ''sealed:alice'', e_consumer = Some ''alice'',
     e_payload = JObj [(''blob'', JStr i)], e_producer = None, e_created_at = 1000, e_expires_at = None\<rparr>"

definition sealed_inbox :: memory_store where
  "sealed_inbox = (memory_new JUndef JUndef)\<lparr>messages := [sealed_entry ''m1'', sealed_entry ''m2'']\<rparr>"

definition sealed_ask :: jsval where
  "sealed_ask = JObj [(''identity'', JStr ''alice''), (''ack'', JBool True)]"

lemma sealed_inbox_dequeue:
  "memory_dequeue now (Some ''r'') (Some ''sealed:alice'') (Some ''alice'') sealed_inbox = ([sealed_entry ''m1'', sealed_entry ''m2''], sealed_inbox)"
  by (simp add: memory_dequeue_def memory_purgeExpired_def memory_keeps_def sealed_inbox_def sealed_entry_def memory_new_def Let_def)

lemma sealed_inbox_invar: "memory_invar sealed_inbox"
  by (simp add: memory_invar_def sealed_inbox_def sealed_entry_def)


text \<open>
  A drain with acknowledgements is in order and settles each message once: if the device answers
  every frame, the frames it got are the oldest messages of its inbox, in their order, one at a time;
  those it confirmed or refused are gone from the inbox and those whose answer was lost, and the ones
  beyond the batch, are still there.
\<close>

theorem sealed_drain_settles:
  assumes "sqlite_invar (sl_store s)" and "sl_drains s = []"
    and "fst (sqlite_dequeue now (Some (fst a)) (Some (inbox_event a)) (Some (snd a)) (sl_store s)) = xs"
    and "length rs = length (take (se_batch E) xs)"
  shows "let s' = drain_run sqlite_ops now rs (snd (start_drain E sqlite_ops now sock a s)) in
      sl_drains s' = []
    \<and> sl_sent s' = sl_sent s @ map (\<lambda>x. (sock, replay_payload x)) (take (se_batch E) xs)
    \<and> sqlite_queue (sl_store s')
        = filter (\<lambda>y. e_id y \<notin> settled_ids (take (se_batch E) xs) rs) (filter (unexpired now) (sqlite_queue (sl_store s)))"
  using sql.start_drain_settles [OF assms, of sock] unfolding sqlite_ops_def Let_def by blast

theorem sealed_drain_settles_witness:
  "\<exists>(s' :: sqlite_store sealed) x. sl_sent s' = [(''s1'', replay_payload x)] \<and> sqlite_queue (sl_store s') = [] \<and> obj_get (e_payload x) ''blob'' = JStr ''b''"
proof -
  define st where "st = snd (sqlite_enqueue 1000 ''m1'' (Some ''r'') (Some ''sealed:alice'')
      (inbox_message sealed_sample_env (''r'', ''alice'') (JObj [(''blob'', JStr ''b'')])) (sqlite_new JUndef JUndef))"
  define xs where "xs = fst (sqlite_dequeue 2000 (Some ''r'') (Some ''sealed:alice'') (Some ''alice'') st)"
  have st: "sqlite_invar st" "length (sqlite_queue st) = 1" "length xs = 1"
     "map (\<lambda>x. obj_get (e_payload x) ''blob'') xs = [JStr ''b'']" "map e_id xs = [''m1'']"
     "map e_id (filter (unexpired 2000) (sqlite_queue st)) = [''m1'']"
    by (simp_all add: st_def xs_def sqlite_enqueue_def sqlite_new_def sqlite_purgeExpired_def inbox_message_def sealed_sample_env_def
        message_payload_def sqlite_invar_def sqlite_queue_def sqlite_dequeue_def row_entry_def message_consumer_def opt_or_def
        sqlite_expiresAt_def expires_at_def nullish_def row_expired_def unexpired_def Let_def)
  then obtain x where x: "xs = [x]" "obj_get (e_payload x) ''blob'' = JStr ''b''" "e_id x = ''m1''"
    by (cases xs) auto
  define s where "s = sealed_start st None"
  have s: "sl_store s = st" "sl_drains s = []" "sl_sent s = []" by (simp_all add: s_def sealed_start_def)
  define s' where "s' = drain_run sqlite_ops 2000 [Confirmed] (snd (start_drain sealed_sample_env sqlite_ops 2000 ''s1'' (''r'', ''alice'') s))"
  have batch: "take (se_batch sealed_sample_env) xs = [x]" "take (se_batch sealed_sample_env) [x] = [x]"
    by (simp_all add: x sealed_sample_env_def)
  have "let s' = drain_run sqlite_ops 2000 [Confirmed] (snd (start_drain sealed_sample_env sqlite_ops 2000 ''s1'' (''r'', ''alice'') s)) in
      sl_drains s' = []
    \<and> sl_sent s' = sl_sent s @ map (\<lambda>x. (''s1'', replay_payload x)) (take (se_batch sealed_sample_env) xs)
    \<and> sqlite_queue (sl_store s')
        = filter (\<lambda>y. e_id y \<notin> settled_ids (take (se_batch sealed_sample_env) xs) [Confirmed]) (filter (unexpired 2000) (sqlite_queue (sl_store s)))"
    by (rule sealed_drain_settles) (simp_all only: batch, simp_all add: s st xs_def [symmetric] inbox_event_def)
  then have "sl_sent s' = [(''s1'', replay_payload x)]"
    "sqlite_queue (sl_store s') = filter (\<lambda>y. e_id y \<noteq> ''m1'') (filter (unexpired 2000) (sqlite_queue st))"
    by (simp_all add: s'_def [symmetric] s batch x Let_def)
  moreover have "filter (\<lambda>y. e_id y \<noteq> ''m1'') (filter (unexpired 2000) (sqlite_queue st)) = []"
    using st(6) by (cases "filter (unexpired 2000) (sqlite_queue st)") (auto simp del: filter_filter)
  ultimately show ?thesis using x by (intro exI [of _ s'] exI [of _ x]) simp
qed

text \<open>
  An online copy whose answer is lost is not lost: it goes to the recipient's inbox, last, and the
  next drain before its expiry fetches it with its payload.
\<close>

theorem lost_copy_requeued:
  assumes "memory_invar (sl_store s)" and "0 < now" and "now \<le> t" and "k < length (sl_frames s)" and "sl_frames s ! k = f"
    and "fst (fr_to f) \<noteq> []" and "snd (fr_to f) \<noteq> []" and "fr_payload f \<noteq> JUndef"
    and "case memory_expiresAt now (inbox_message E (fr_to f) (fr_payload f)) (sl_store s) of None \<Rightarrow> True | Some e \<Rightarrow> of_int t < e"
  shows "\<exists>x. fst (memory_dequeue t (Some (fst (fr_to f))) (Some (inbox_event (fr_to f))) (Some (snd (fr_to f)))
               (sl_store (frame_answer E memory_ops now gen k False s)))
             = fst (memory_dequeue t (Some (fst (fr_to f))) (Some (inbox_event (fr_to f))) (Some (snd (fr_to f))) (sl_store s)) @ [x]
           \<and> e_payload x = fr_payload f"
proof -
  obtain j st where "memory_enqueue now gen (Some (fst (fr_to f))) (Some (inbox_event (fr_to f)))
      (inbox_message E (fr_to f) (fr_payload f)) (sl_store s) = (Inr j, st)"
    by (simp add: memory_enqueue_def Let_def)
  from mem.lost_frame_stored [OF assms(1-6) assms(8,7) this assms(9)] show ?thesis
    unfolding memory_ops_def by blast
qed

text \<open>The recipient online on a socket that acknowledges.\<close>

definition sealed_online_state :: "'s \<Rightarrow> 's sealed" where
  "sealed_online_state st = (sealed_sample st)\<lparr>sl_realms := [(''r'', setupConsumer ''s1'' ''alice'' (Some ''a'') realm_empty)], sl_capable := [''s1'']\<rparr>"

definition sealed_frame_sample :: sealed_frame where
  "sealed_frame_sample = \<lparr>fr_socket = ''s1'', fr_to = (''r'', ''alice''), fr_payload = JObj [(''blob'', JStr ''b''), (''msg_id'', JStr [])],
     fr_wake = fst (wakePolicyFor sealed_auth ''r'' JUndef)\<rparr>"

lemma sealed_online_deliver:
  "sealed_deliver sealed_sample_env sealed_auth S (\<lambda>_. True) True capr capi now gen (sealed_request ''k'') (sealed_online_state st)
     = (DeliveredOnline, (sealed_online_state st)\<lparr>sl_sent := [(''s1'', fr_payload sealed_frame_sample)], sl_frames := [sealed_frame_sample]\<rparr>)"
proof -
  have w: "obj_get (sealed_request ''k'') ''wake'' = JUndef" by (simp add: sealed_request_def)
  show ?thesis
    by (simp add: sealed_online_state_def sealed_sample_eq sealed_deliver_def sealed_sample_deliver sealed_sample_enabled uakEqual_def
        findRecipientSocket_def getRealm_def setupConsumer_def putConsumer_def getConsumerMetaInfo_def realm_empty_def consumer_new_def
        sealed_online_def sealed_frame_sample_def w Let_def)
qed

theorem lost_copy_requeued_witness:
  "\<exists>x. fst (memory_dequeue 2000 (Some ''r'') (Some ''sealed:alice'') (Some ''alice'')
        (sl_store (frame_answer sealed_sample_env memory_ops 1500 ''m1'' 0 False
          (snd (sealed_deliver sealed_sample_env sealed_auth memory_ops (\<lambda>_. True) True PosInf PosInf 1000 ''g'' (sealed_request ''k'')
             (sealed_online_state (memory_new JUndef JUndef))))))) = [x] \<and> obj_get (e_payload x) ''blob'' = JStr ''b''"
proof -
  define s where "s = snd (sealed_deliver sealed_sample_env sealed_auth memory_ops (\<lambda>_. True) True PosInf PosInf 1000 ''g'' (sealed_request ''k'')
      (sealed_online_state (memory_new JUndef JUndef)))"
  have s: "sl_store s = memory_new JUndef JUndef" "sl_frames s = [sealed_frame_sample]"
    by (simp_all add: s_def sealed_online_deliver) (simp add: sealed_online_state_def sealed_sample_eq)
  have empty: "memory_invar (memory_new JUndef JUndef)" "fst (memory_dequeue t r e c (memory_new JUndef JUndef)) = []" for t r e c
    by (simp_all add: memory_invar_def memory_new_def memory_dequeue_def memory_purgeExpired_def Let_def)
  have "\<exists>x. fst (memory_dequeue 2000 (Some (fst (fr_to sealed_frame_sample))) (Some (inbox_event (fr_to sealed_frame_sample)))
          (Some (snd (fr_to sealed_frame_sample))) (sl_store (frame_answer sealed_sample_env memory_ops 1500 ''m1'' 0 False s)))
       = fst (memory_dequeue 2000 (Some (fst (fr_to sealed_frame_sample))) (Some (inbox_event (fr_to sealed_frame_sample)))
          (Some (snd (fr_to sealed_frame_sample))) (sl_store s)) @ [x] \<and> e_payload x = fr_payload sealed_frame_sample"
    by (rule lost_copy_requeued)
      (simp_all add: s empty, simp_all add: sealed_frame_sample_def memory_expiresAt_def expires_at_def inbox_message_def sealed_sample_env_def nullish_def)
  then show ?thesis unfolding s_def [symmetric]
    by (simp add: s empty) (auto simp: sealed_frame_sample_def inbox_event_def)
qed

text \<open>
  The inbox cap is kept by deliveries to an offline recipient: one that is queued found fewer
  messages waiting for the recipient than \<open>max_queued_per_recipient\<close>.
\<close>

theorem inbox_cap:
  assumes "memory_invar (sl_store s)" and "is_finite capi"
    and "fst (sealed_offline E memory_ops capr capi now gen a p w s) = DeliveredQueued"
  shows "\<not> at_least (length (filter (\<lambda>x. entry_box x = box_of (Some (fst a)) (Some (inbox_event a)) (Some (snd a)))
           (filter (unexpired now) (messages (sl_store s))))) capi"
proof -
  from assms(3) have "\<not> fst (inbox_full memory_ops capr capi now a (sl_store s))"
    by (auto simp: sealed_offline_def Let_def split_beta split: if_splits)
  with mem.inbox_full_cap [OF assms(1,2), of capr now a] show ?thesis
    unfolding memory_ops_def by blast
qed

theorem inbox_cap_witness:
  "let s = sealed_start sealed_inbox None; a = (''r'', ''alice'') in
     fst (sealed_offline sealed_sample_env memory_ops PosInf (Fin 3) 2000 ''m3'' a (JObj []) JUndef s) = DeliveredQueued
   \<and> \<not> at_least (length (filter (\<lambda>x. entry_box x = box_of (Some (fst a)) (Some (inbox_event a)) (Some (snd a)))
           (filter (unexpired 2000) (messages (sl_store s))))) (Fin 3)
   \<and> fst (sealed_offline sealed_sample_env memory_ops PosInf (Fin 2) 2000 ''m3'' a (JObj []) JUndef s) = SealedFail 507"
proof -
  define s where "s = sealed_start sealed_inbox None"
  have c: "memory_countQueued 2000 (Some ''r'') (Some ''sealed:alice'') (Some ''alice'') sealed_inbox = (2, sealed_inbox)"
    by (simp add: memory_countQueued_def memory_purgeExpired_def memory_keeps_def sealed_inbox_def sealed_entry_def memory_new_def Let_def)
  have s: "sl_store s = sealed_inbox" by (simp add: s_def sealed_start_def)
  have q: "fst (sealed_offline sealed_sample_env memory_ops PosInf (Fin 3) 2000 ''m3'' (''r'', ''alice'') (JObj []) JUndef s) = DeliveredQueued"
    "fst (sealed_offline sealed_sample_env memory_ops PosInf (Fin 2) 2000 ''m3'' (''r'', ''alice'') (JObj []) JUndef s) = SealedFail 507"
    by (simp_all add: sealed_offline_def inbox_full_def s memory_ops_def inbox_event_def c at_least_def enqueueSealed_def memory_enqueue_def Let_def)
  from inbox_cap [of s "Fin 3", OF _ _ q(1)] q show ?thesis
    unfolding s_def [symmetric] Let_def by (simp add: s sealed_inbox_invar)
qed

text \<open>
  Lost online copies do not keep the cap: with a cap of one for the realm and the recipient, two copies
  of which no answer arrives both end in the inbox.
\<close>

lemma lost_copies_exceed_cap:
  "\<exists>E s. messages (sl_store s) = [] \<and>
     length (messages (sl_store (frame_answer E memory_ops 1500 ''m2'' 0 False (frame_answer E memory_ops 1500 ''m1'' 0 False
       (foldr (\<lambda>gen s. snd (sealed_deliver E sealed_auth memory_ops (\<lambda>_. True) True (Fin 1) (Fin 1) 1000 gen (sealed_request ''k'') s)) [''g'', ''g''] s))))) = 2"
proof -
  define s where "s = sealed_online_state (memory_new JUndef JUndef)"
  have two: "foldr (\<lambda>gen s. snd (sealed_deliver sealed_sample_env sealed_auth memory_ops (\<lambda>_. True) True (Fin 1) (Fin 1) 1000 gen (sealed_request ''k'') s)) [''g'', ''g''] s
      = s\<lparr>sl_sent := [(''s1'', fr_payload sealed_frame_sample), (''s1'', fr_payload sealed_frame_sample)],
          sl_frames := [sealed_frame_sample, sealed_frame_sample]\<rparr>"
  proof -
    have w: "obj_get (sealed_request ''k'') ''wake'' = JUndef" by (simp add: sealed_request_def)
    show ?thesis
      by (simp add: s_def sealed_online_state_def sealed_sample_eq sealed_deliver_def sealed_sample_deliver sealed_sample_enabled uakEqual_def
          findRecipientSocket_def getRealm_def setupConsumer_def putConsumer_def getConsumerMetaInfo_def realm_empty_def consumer_new_def
          sealed_online_def sealed_frame_sample_def w Let_def)
  qed
  have "length (messages (sl_store (frame_answer sealed_sample_env memory_ops 1500 ''m2'' 0 False (frame_answer sealed_sample_env memory_ops 1500 ''m1'' 0 False
      (s\<lparr>sl_sent := [(''s1'', fr_payload sealed_frame_sample), (''s1'', fr_payload sealed_frame_sample)],
          sl_frames := [sealed_frame_sample, sealed_frame_sample]\<rparr>))))) = 2" and "messages (sl_store s) = []"
    by (simp_all add: s_def sealed_online_state_def sealed_sample_eq frame_answer_def enqueueSealed_def memory_ops_def memory_enqueue_def
        memory_purgeExpired_def memory_keeps_def memory_expiresAt_def expires_at_def nullish_def memory_new_def inbox_message_def
        sealed_sample_env_def Let_def)
  then show ?thesis
    by (intro exI [of _ sealed_sample_env] exI [of _ s]) (simp only: two simp_thms)
qed

lemma uak_set_mirror:
  fixes E and A and realm and ids and ob
  assumes "sl_db s = Some db" "wf_map db" "\<And>a. jget db a = jget (sl_uaks s) a"
  defines "s' \<equiv> snd (sealed_uak_set E A realm ids ob s)"
  shows "\<exists>db'. sl_db s' = Some db' \<and> wf_map db' \<and> (\<forall>a. jget db' a = jget (sl_uaks s') a)"
proof -
  have put: "wf_map (putSealedUak a rec db)" "jget (putSealedUak a rec db) b = (if b = a then Some (uak_row rec) else jget db b)" for a rec b
    using assms(2) by (auto simp: putSealedUak_def wf_map_def set_jdel map_add_def distinct_delete split: option.split)
  show ?thesis
    using assms(1-3) by (simp add: s'_def sealed_uak_set_def Let_def put uak_row_def split: option.split sum.split)
qed

text \<open>
  The access keys survive a restart: in every state reachable from a start with a store, a server
  started again from that store knows exactly the same keys and modes.
\<close>

theorem sealed_keys_survive_restart:
  assumes "sealed_reach E A S capr capi (sealed_start st (Some db0)) s" and "wf_map db0"
  shows "jget (sl_uaks (sealed_start st' (sl_db s))) a = jget (sl_uaks s) a"
proof -
  have start: "jget (sl_uaks (sealed_start st (Some db))) b = jget db b" if "wf_map db" for db b and st :: 'a
    using that by (simp add: sealed_start_def allSealedUaks_def jget_fold_jset split: option.split)
  from assms(1) have "\<exists>db. sl_db s = Some db \<and> wf_map db \<and> (\<forall>a. jget db a = jget (sl_uaks s) a)"
  proof induction
    case sealed_init
    have "sl_db (sealed_start st (Some db0)) = Some db0" by (simp add: sealed_start_def Let_def)
    with start [OF assms(2)] assms(2) show ?case by (intro exI [of _ db0]) simp
  next
    case (sealed_next s ev)
    then obtain db where db: "sl_db s = Some db" "wf_map db" "\<And>a. jget db a = jget (sl_uaks s) a" by blast
    show ?case
    proof (cases ev)
      case (SevSet realm ids ob)
      with uak_set_mirror [OF db] show ?thesis by simp
    next
      case (SevDeliver live ok now gen ob)
      with db show ?thesis
        by (auto simp: sealed_deliver_def sealed_online_def sealed_offline_def enqueueSealed_def Let_def split_beta
            split: option.split sum.split)
    next
      case (SevFrame now gen k received)
      with db show ?thesis by (auto simp: frame_answer_def enqueueSealed_def Let_def split: prod.split sum.split)
    next
      case (SevSubscribe now sock realm ids ob)
      with db show ?thesis
        by (auto simp: sealed_subscribe_def start_drain_def legacy_drain_def Let_def split_beta split: sum.split)
    next
      case (SevAnswer now k alive r)
      with db show ?thesis by (auto simp: answer_drain_def Let_def)
    qed (use db in auto)
  qed
  then obtain db where db: "sl_db s = Some db" "wf_map db" "\<And>a. jget db a = jget (sl_uaks s) a" by blast
  then show ?thesis by (auto simp: sealed_start_def allSealedUaks_def jget_fold_jset split: option.split)
qed

theorem sealed_keys_survive_restart_witness:
  "jget (sl_uaks (sealed_start () (sl_db (sealed_sample ())))) (''r'', ''alice'') = Some \<lparr>ur_mode = RequireUak, ur_uak = Some ''k''\<rparr>"
proof -
  define S :: "unit store_ops" where "S = undefined"
  have "sealed_reach sealed_sample_env sealed_auth S PosInf PosInf (sealed_start () (Some []))
     (sealed_step sealed_sample_env sealed_auth S PosInf PosInf (SevSet ''r'' [''alice''] (JObj [(''name'', JStr ''alice''), (''uak'', JStr ''k'')])) (sealed_start () (Some [])))"
    by (intro sealed_next sealed_init)
  then have "sealed_reach sealed_sample_env sealed_auth S PosInf PosInf (sealed_start () (Some [])) (sealed_sample ())"
    by (simp add: sealed_sample_def)
  from sealed_keys_survive_restart [OF this, of "()" "(''r'', ''alice'')"] show ?thesis
    by (simp add: sealed_sample_eq)
qed

end
