(* ===== verification/Client_Directory.thy ===== *)
theory Client_Directory
  imports Prekeys Push_Durable
begin

text \<open>
  What a client publishes about itself (\<open>lib/server.js\<close>): its public keys (KEY_PUBLISH, KEY_LOOKUP) and
  its push endpoints (PUSH_REGISTER, PUSH_UNREGISTER), both only under a name it registered on its
  connection, and the fixed-window rate limits of the broker. Length limits of keys are constants of the
  protocol package. The check of an endpoint URL is asynchronous in the code; here it is answered within
  the event.
\<close>

section \<open>Fixed-window limits\<close>

record rate_window =
  rw_start :: int
  rw_count :: nat

text \<open>\<open>sealedSendAdmitted\<close> and, with another limit, \<open>pushRegisterAdmitted\<close>: the window of a socket.\<close>

definition window_admit :: "nat \<Rightarrow> int \<Rightarrow> rate_window option \<Rightarrow> bool \<times> rate_window" where
  "window_admit limit now w =
     (let v = (case w of None \<Rightarrow> \<lparr>rw_start = now, rw_count = 0\<rparr>
               | Some v \<Rightarrow> if now - rw_start v \<ge> 60000 then \<lparr>rw_start = now, rw_count = 0\<rparr> else v);
          n = rw_count v + 1
      in (n \<le> limit, v\<lparr>rw_count := n\<rparr>))"

definition PUSH_REGISTERS_PER_MIN :: nat where "PUSH_REGISTERS_PER_MIN = 30"

definition pushRegisterAdmitted :: "int \<Rightarrow> rate_window option \<Rightarrow> bool \<times> rate_window" where
  "pushRegisterAdmitted = window_admit PUSH_REGISTERS_PER_MIN"

text \<open>\<open>notifyRateOk\<close>: one window per address, and a sweep when there are more than 20000.\<close>

definition notifyRateOk :: "nat \<Rightarrow> int \<Rightarrow> string \<Rightarrow> (string, rate_window) jsmap \<Rightarrow> bool \<times> (string, rate_window) jsmap" where
  "notifyRateOk limit now ip m0 =
     (let m = (if 20000 < length m0 then filter (\<lambda>(k, v). now - rw_start v < 60000) m0 else m0);
          (ok, v) = window_admit limit now (jget m ip)
      in (ok, jset ip v m))"

fun window_run :: "nat \<Rightarrow> int list \<Rightarrow> rate_window option \<Rightarrow> bool list" where
  "window_run limit [] w = []"
| "window_run limit (t # ts) w = (let (ok, v) = window_admit limit t w in ok # window_run limit ts (Some v))"

fun notify_rate_run :: "nat \<Rightarrow> (int \<times> string) list \<Rightarrow> (string, rate_window) jsmap \<Rightarrow> (string \<times> bool) list" where
  "notify_rate_run limit [] m = []"
| "notify_rate_run limit ((t, ip) # qs) m = (let (ok, m') = notifyRateOk limit t ip m in (ip, ok) # notify_rate_run limit qs m')"

abbreviation admitted_count :: "bool list \<Rightarrow> nat" where
  "admitted_count bs \<equiv> length (filter (\<lambda>b. b) bs)"

lemma window_run_step: "window_run limit (t # ts) w = fst (window_admit limit t w) # window_run limit ts (Some (snd (window_admit limit t w)))"
  by (simp add: split_beta Let_def)

declare window_run.simps(2) [simp del]

text \<open>While the window lasts no more than what is left of its limit is admitted.\<close>

lemma window_run_rest:
  "\<forall>t \<in> set ts. t < rw_start v + 60000 \<Longrightarrow> admitted_count (window_run limit ts (Some v)) \<le> limit - rw_count v"
proof (induction ts arbitrary: v)
  case (Cons t ts)
  define v' where "v' = v\<lparr>rw_count := rw_count v + 1\<rparr>"
  have step: "window_run limit (t # ts) (Some v) = (rw_count v + 1 \<le> limit) # window_run limit ts (Some v')"
    using Cons.prems by (simp add: window_run_step window_admit_def v'_def Let_def)
  have "admitted_count (window_run limit ts (Some v')) \<le> limit - (rw_count v + 1)"
    using Cons.IH [of v'] Cons.prems by (simp add: v'_def)
  with step show ?case by auto
qed simp

lemma window_run_bound:
  "\<forall>t \<in> set ts. a \<le> t \<and> t < a + 60000 \<Longrightarrow> admitted_count (window_run limit ts w) \<le> 2 * limit
     \<and> (case w of None \<Rightarrow> True | Some v \<Rightarrow> admitted_count (window_run limit ts w) \<le> (limit - rw_count v) + limit)"
proof (induction ts arbitrary: w)
  case (Cons t ts)
  show ?case
  proof (cases "\<exists>v. w = Some v \<and> \<not> t - rw_start v \<ge> 60000")
    case True
    then obtain v where v: "w = Some v" "\<not> t - rw_start v \<ge> 60000" by blast
    define v' where "v' = v\<lparr>rw_count := rw_count v + 1\<rparr>"
    have step: "window_run limit (t # ts) w = (rw_count v + 1 \<le> limit) # window_run limit ts (Some v')"
      using v by (simp add: window_run_step window_admit_def v'_def Let_def)
    have "admitted_count (window_run limit ts (Some v')) \<le> (limit - (rw_count v + 1)) + limit"
      using Cons.IH [of "Some v'"] Cons.prems by (simp add: v'_def)
    with step v show ?thesis by auto
  next
    case False
    define v' where "v' = \<lparr>rw_start = t, rw_count = 1\<rparr>"
    have step: "window_run limit (t # ts) w = (1 \<le> limit) # window_run limit ts (Some v')"
      using False by (auto simp: window_run_step window_admit_def v'_def Let_def split: option.split)
    have "\<forall>t' \<in> set ts. t' < rw_start v' + 60000" using Cons.prems by (auto simp: v'_def)
    from window_run_rest [OF this, of limit] step show ?thesis by (auto simp: v'_def split: option.split)
  qed
qed (simp split: option.split)

text \<open>A swept window would have been started again anyway, so the verdicts on one address are those of its own window.\<close>

lemma window_admit_expired: "60000 \<le> now - rw_start v \<Longrightarrow> window_admit limit now (Some v) = window_admit limit now None"
  by (simp add: window_admit_def)

definition windows_agree :: "int \<Rightarrow> rate_window option \<Rightarrow> rate_window option \<Rightarrow> bool" where
  "windows_agree now w w' \<longleftrightarrow> w = w' \<or> (w = None \<and> (\<exists>v. w' = Some v \<and> 60000 \<le> now - rw_start v))"

lemma windows_agree_admit: "windows_agree now w w' \<Longrightarrow> window_admit limit now w = window_admit limit now w'"
  by (auto simp: windows_agree_def window_admit_expired)

lemma windows_agree_later: "windows_agree now w w' \<Longrightarrow> now \<le> t \<Longrightarrow> windows_agree t w w'"
  by (auto simp: windows_agree_def)

lemma notify_rate_projection:
  "wf_map m \<Longrightarrow> windows_agree now (jget m ip) w \<Longrightarrow> sorted (now # map fst qs) \<Longrightarrow>
   map snd (filter (\<lambda>(i, ok). i = ip) (notify_rate_run limit qs m)) = window_run limit (map fst (filter (\<lambda>(t, i). i = ip) qs)) w"
proof (induction qs arbitrary: m w now)
  case (Cons q qs)
  obtain t i where q: "q = (t, i)" by (cases q)
  define m1 where "m1 = (if 20000 < length m then filter (\<lambda>(k, v). t - rw_start v < 60000) m else m)"
  define r where "r = window_admit limit t (jget m1 i)"
  have wf1: "wf_map m1" using Cons.prems(1) by (simp add: m1_def)
  have t: "now \<le> t" "sorted (t # map fst qs)" using Cons.prems(3) by (auto simp: q)
  have ag: "windows_agree t (jget m1 ip) w"
    using windows_agree_later [OF Cons.prems(2) t(1)] Cons.prems(1)
    by (auto simp: m1_def windows_agree_def jget_filter split: option.splits if_splits)
  have run: "notify_rate_run limit ((t, i) # qs) m = (i, fst r) # notify_rate_run limit qs (jset i (snd r) m1)"
    by (simp add: notifyRateOk_def m1_def [symmetric] r_def Let_def split_beta)
  show ?case
  proof (cases "i = ip")
    case True
    with ag have r: "r = window_admit limit t w" by (simp add: r_def windows_agree_admit)
    have "windows_agree t (jget (jset i (snd r) m1) ip) (Some (snd r))" using True by (simp add: windows_agree_def)
    from Cons.IH [OF _ this t(2)] wf1 True show ?thesis by (simp add: run [unfolded True] window_run_step r [symmetric] q del: notify_rate_run.simps)
  next
    case False
    with ag have "windows_agree t (jget (jset i (snd r) m1) ip) w" by simp
    from Cons.IH [OF _ this t(2)] wf1 False show ?thesis by (simp add: run q del: notify_rate_run.simps)
  qed
qed simp

text \<open>
  Per-address limits of the public Notify surface: however requests of all addresses are mixed, and
  whatever windows there were before, within any 60 seconds at most twice the limit of the requests of one
  address are admitted.
\<close>

theorem notify_rate_bound:
  assumes "wf_map m" and "sorted (map fst qs)" and "\<forall>(t, i) \<in> set qs. a \<le> t \<and> t < a + 60000"
  shows "admitted_count (map snd (filter (\<lambda>(i, ok). i = ip) (notify_rate_run limit qs m))) \<le> 2 * limit"
proof -
  have "windows_agree (case qs of [] \<Rightarrow> 0 | q # _ \<Rightarrow> fst q) (jget m ip) (jget m ip)" by (simp add: windows_agree_def)
  moreover have "sorted ((case qs of [] \<Rightarrow> 0 | q # _ \<Rightarrow> fst q) # map fst qs)" using assms(2) by (cases qs) auto
  ultimately have "map snd (filter (\<lambda>(i, ok). i = ip) (notify_rate_run limit qs m))
      = window_run limit (map fst (filter (\<lambda>(t, i). i = ip) qs)) (jget m ip)"
    by (rule notify_rate_projection [OF assms(1)])
  moreover have "\<forall>t \<in> set (map fst (filter (\<lambda>(t, i). i = ip) qs)). a \<le> t \<and> t < a + 60000" using assms(3) by auto
  ultimately show ?thesis using window_run_bound [of "map fst (filter (\<lambda>(t, i). i = ip) qs)" a limit "jget m ip"] by simp
qed

theorem notify_rate_bound_witness:
  "let rs = notify_rate_run 1 [(59999, ''a''), (60000, ''b''), (60000, ''a''), (60001, ''a'')] [(''a'', \<lparr>rw_start = 0, rw_count = 0\<rparr>)] in
     rs = [(''a'', True), (''b'', True), (''a'', True), (''a'', False)]
   \<and> admitted_count (map snd (filter (\<lambda>(i, ok). i = ''a'') rs)) \<le> 2 * 1"
proof -
  have steps:
    "notifyRateOk 1 59999 ''a'' [(''a'', \<lparr>rw_start = 0, rw_count = 0\<rparr>)] = (True, [(''a'', \<lparr>rw_start = 0, rw_count = 1\<rparr>)])"
    "notifyRateOk 1 60000 ''b'' [(''a'', \<lparr>rw_start = 0, rw_count = 1\<rparr>)]
       = (True, [(''a'', \<lparr>rw_start = 0, rw_count = 1\<rparr>), (''b'', \<lparr>rw_start = 60000, rw_count = 1\<rparr>)])"
    "notifyRateOk 1 60000 ''a'' [(''a'', \<lparr>rw_start = 0, rw_count = 1\<rparr>), (''b'', \<lparr>rw_start = 60000, rw_count = 1\<rparr>)]
       = (True, [(''a'', \<lparr>rw_start = 60000, rw_count = 1\<rparr>), (''b'', \<lparr>rw_start = 60000, rw_count = 1\<rparr>)])"
    "fst (notifyRateOk 1 60001 ''a'' [(''a'', \<lparr>rw_start = 60000, rw_count = 1\<rparr>), (''b'', \<lparr>rw_start = 60000, rw_count = 1\<rparr>)]) = False"
    by (simp_all add: notifyRateOk_def window_admit_def)
  have "admitted_count (map snd (filter (\<lambda>(i, ok). i = ''a'')
       (notify_rate_run 1 [(59999, ''a''), (60000, ''b''), (60000, ''a''), (60001, ''a'')] [(''a'', \<lparr>rw_start = 0, rw_count = 0\<rparr>)]))) \<le> 2 * 1"
    by (rule notify_rate_bound [of _ _ 59999]) (simp_all add: wf_map_def)
  with steps show ?thesis unfolding Let_def by (simp only: notify_rate_run.simps) (simp add: steps split_beta)
qed

section \<open>Public keys\<close>

record key_limits =
  kl_max_public :: nat
  kl_max_id :: nat
  kl_max_keys :: nat

record key_entry =
  ke_id :: string
  ke_alg :: string
  ke_key :: string
  ke_updated :: string

type_synonym key_directory = "(account, key_entry list) jsmap"

datatype key_reply = KeyFail nat | KeyThrow | KeyOk

datatype key_answer = Keys "key_entry list" | Inherited string

text \<open>
  A realm's directory is an object literal, so the names \<open>object_members\<close> are found on its prototype:
  publishing under one ends in a \<open>TypeError\<close> (none of the members is a list with \<open>push\<close>), and a lookup
  answers with the member itself.
\<close>

text \<open>The entry with the same key id is replaced in place, else the new one is last.\<close>

fun put_key :: "key_entry \<Rightarrow> key_entry list \<Rightarrow> key_entry list" where
  "put_key e [] = [e]"
| "put_key e (x # xs) = (if ke_id x = ke_id e then e # xs else x # put_key e xs)"

definition key_list :: "account \<Rightarrow> key_directory \<Rightarrow> key_entry list" where
  "key_list a dir = (case jget dir a of None \<Rightarrow> [] | Some l \<Rightarrow> l)"

definition js_string :: "jsval \<Rightarrow> string option" where
  "js_string v = (case v of JStr s \<Rightarrow> Some s | _ \<Rightarrow> None)"

definition short_string :: "nat \<Rightarrow> jsval \<Rightarrow> string option" where
  "short_string n v = (case js_string v of None \<Rightarrow> None | Some s \<Rightarrow> if length s > n then None else Some s)"

definition nonempty_string :: "jsval \<Rightarrow> string option" where
  "nonempty_string v = (case js_string v of None \<Rightarrow> None | Some s \<Rightarrow> if s = [] then None else Some s)"

definition key_request :: "key_limits \<Rightarrow> string \<Rightarrow> jsval \<Rightarrow> (string \<times> key_entry) option" where
  "key_request L now ob =
     Option.bind (nonempty_string (publish_identity ob)) (\<lambda>i.
     Option.bind (nonempty_string (js_or (obj_get ob ''public_key'') (obj_get ob ''publicKey''))) (\<lambda>k.
     if length k > kl_max_public L then None
     else Option.bind (short_string (kl_max_id L) (js_or (obj_get ob ''key_id'') (js_or (obj_get ob ''keyId'')
            (js_or (obj_get ob ''kid'') (JStr ''default''))))) (\<lambda>kid.
     Option.bind (short_string (kl_max_id L) (js_or (obj_get ob ''alg'') (JStr ''ecdh-es-p256-a256gcm''))) (\<lambda>alg.
     Some (i, \<lparr>ke_id = kid, ke_alg = alg, ke_key = k, ke_updated = now\<rparr>)))))"

definition key_publish :: "key_limits \<Rightarrow> string \<Rightarrow> string \<Rightarrow> string list \<Rightarrow> jsval \<Rightarrow> key_directory \<Rightarrow> key_reply \<times> key_directory" where
  "key_publish L now realm ids ob dir =
     (case key_request L now ob of
        None \<Rightarrow> (KeyFail 400, dir)
      | Some (i, e) \<Rightarrow>
          if i \<notin> set ids then (KeyFail 403, dir)
          else if i \<in> set object_members then (KeyThrow, dir)
          else let list = key_list (realm, i) dir in
            if ke_id e \<notin> ke_id ` set list \<and> length list \<ge> kl_max_keys L then (KeyFail 429, jset (realm, i) list dir)
            else (KeyOk, jset (realm, i) (put_key e list) dir))"

definition key_lookup :: "string \<Rightarrow> jsval \<Rightarrow> key_directory \<Rightarrow> key_answer" where
  "key_lookup realm ob dir =
     (let v = publish_identity ob in
      if \<not> truthy v then Keys []
      else if to_string v \<in> set object_members then Inherited (to_string v)
      else Keys (key_list (realm, to_string v) dir))"

lemma put_key_ids: "ke_id ` set (put_key e xs) = insert (ke_id e) (ke_id ` set xs)"
  by (induction xs) auto

lemma put_key_distinct: "distinct (map ke_id xs) \<Longrightarrow> distinct (map ke_id (put_key e xs))"
  by (induction xs) (auto simp: put_key_ids [unfolded image_def] image_def)

lemma put_key_length: "length (put_key e xs) = (if ke_id e \<in> ke_id ` set xs then length xs else Suc (length xs))"
  by (induction xs) auto

lemma put_key_set: "distinct (map ke_id xs) \<Longrightarrow> set (put_key e xs) = insert e {x \<in> set xs. ke_id x \<noteq> ke_id e}"
  by (induction xs) (auto simp: image_iff)

lemma put_key_in: "e \<in> set (put_key e xs)"
  by (induction xs) auto

text \<open>What holds of a directory: key ids are distinct and bounded in number, and no field is oversized.\<close>

definition entry_ok :: "key_limits \<Rightarrow> key_entry \<Rightarrow> bool" where
  "entry_ok L e \<longleftrightarrow> ke_key e \<noteq> [] \<and> length (ke_key e) \<le> kl_max_public L \<and> length (ke_id e) \<le> kl_max_id L \<and> length (ke_alg e) \<le> kl_max_id L"

definition keys_ok :: "key_limits \<Rightarrow> key_directory \<Rightarrow> bool" where
  "keys_ok L dir \<longleftrightarrow> (\<forall>a. distinct (map ke_id (key_list a dir)) \<and> length (key_list a dir) \<le> kl_max_keys L
     \<and> list_all (entry_ok L) (key_list a dir))"

lemma key_list_jset [simp]: "key_list a (jset b l dir) = (if a = b then l else key_list a dir)"
  by (simp add: key_list_def)

lemma key_request_ok: "key_request L now ob = Some (i, e) \<Longrightarrow> entry_ok L e \<and> i \<noteq> [] \<and> publish_identity ob = JStr i"
  by (auto simp: key_request_def entry_ok_def nonempty_string_def short_string_def js_string_def bind_eq_Some_conv
      split: option.splits if_splits jsval.splits)

lemma key_publish_cases:
  obtains (kept) "fst (key_publish L now realm ids ob dir) \<noteq> KeyOk" "\<And>b. key_list b (snd (key_publish L now realm ids ob dir)) = key_list b dir"
  | (put) i e where "key_request L now ob = Some (i, e)" "i \<in> set ids" "i \<notin> set object_members"
      "fst (key_publish L now realm ids ob dir) = KeyOk"
      "snd (key_publish L now realm ids ob dir) = jset (realm, i) (put_key e (key_list (realm, i) dir)) dir"
      "ke_id e \<in> ke_id ` set (key_list (realm, i) dir) \<or> length (key_list (realm, i) dir) < kl_max_keys L"
proof (cases "key_request L now ob")
  case None
  then show ?thesis by (intro kept) (simp_all add: key_publish_def)
next
  case (Some r)
  obtain i e where r: "key_request L now ob = Some (i, e)" using Some by (cases r) simp
  show ?thesis
  proof (cases "i \<in> set ids \<and> i \<notin> set object_members
      \<and> (ke_id e \<in> ke_id ` set (key_list (realm, i) dir) \<or> length (key_list (realm, i) dir) < kl_max_keys L)")
    case True
    with r show ?thesis by (intro put [OF r]) (auto simp: key_publish_def Let_def)
  next
    case False
    with r show ?thesis by (intro kept) (auto simp: key_publish_def Let_def)
  qed
qed

lemma keys_ok_publish:
  assumes ok: "keys_ok L dir" shows "keys_ok L (snd (key_publish L now realm ids ob dir))"
proof (cases rule: key_publish_cases [of L now realm ids ob dir])
  case kept
  with ok show ?thesis by (simp add: keys_ok_def)
next
  case (put i e)
  have l: "distinct (map ke_id (key_list (realm, i) dir))" "length (key_list (realm, i) dir) \<le> kl_max_keys L"
    "list_all (entry_ok L) (key_list (realm, i) dir)" using ok by (auto simp: keys_ok_def)
  have "list_all (entry_ok L) (put_key e (key_list (realm, i) dir))"
    using key_request_ok [OF put(1)] l(3) by (auto simp: put_key_set [OF l(1)] list_all_iff)
  moreover have "length (put_key e (key_list (realm, i) dir)) \<le> kl_max_keys L"
    using put(6) l(2) by (auto simp: put_key_length)
  ultimately show ?thesis using ok put_key_distinct [OF l(1), of e] by (simp add: keys_ok_def put(5))
qed

text \<open>A name of the prototype makes the handler throw.\<close>

lemma key_publish_throws:
  "key_request L now ob = Some (i, e) \<Longrightarrow> i \<in> set ids \<Longrightarrow> i \<in> set object_members \<Longrightarrow> fst (key_publish L now realm ids ob dir) = KeyThrow"
  by (simp add: key_publish_def)

type_synonym key_event = "string \<times> string \<times> string list \<times> jsval"

definition publish_all :: "key_limits \<Rightarrow> key_event list \<Rightarrow> key_directory" where
  "publish_all L evs = fold (\<lambda>(now, realm, ids, ob) dir. snd (key_publish L now realm ids ob dir)) evs []"

lemma publish_all_ok: "keys_ok L (publish_all L evs)"
proof -
  have "keys_ok L (fold (\<lambda>(now, realm, ids, ob) d. snd (key_publish L now realm ids ob d)) evs d)" if "keys_ok L d" for d
    using that by (induction evs arbitrary: d) (auto simp: keys_ok_publish)
  then show ?thesis unfolding publish_all_def by (simp add: keys_ok_def key_list_def)
qed

text \<open>
  The key directory after any publications. A further one is accepted only under a name its socket
  registered; then a lookup of that name gives the new key in place of the one with its id, and all
  other keys of the name; every other name answers as before. A refused one changes no answer. No name
  ever has two keys with one id, more keys than the cap or an oversized field.
\<close>

theorem key_directory_spec:
  assumes "key_publish L now realm ids ob (publish_all L evs) = (reply, dir')"
  shows "keys_ok L dir'
    \<and> (reply = KeyOk \<longrightarrow> (\<exists>i e. key_request L now ob = Some (i, e) \<and> i \<in> set ids
        \<and> (\<exists>l. key_lookup realm ob dir' = Keys l
             \<and> set l = insert e {x \<in> set (key_list (realm, i) (publish_all L evs)). ke_id x \<noteq> ke_id e})
        \<and> (\<forall>b. b \<noteq> (realm, i) \<longrightarrow> key_list b dir' = key_list b (publish_all L evs))))
    \<and> (reply \<noteq> KeyOk \<longrightarrow> key_lookup realm' ob' dir' = key_lookup realm' ob' (publish_all L evs))"
proof -
  let ?dir = "publish_all L evs"
  have r: "fst (key_publish L now realm ids ob ?dir) = reply" "snd (key_publish L now realm ids ob ?dir) = dir'"
    using assms by simp_all
  have ok: "keys_ok L dir'" using keys_ok_publish [OF publish_all_ok] r(2) by metis
  have d: "distinct (map ke_id (key_list a ?dir))" for a using publish_all_ok by (cases a) (simp add: keys_ok_def)
  show ?thesis
  proof (cases rule: key_publish_cases [of L now realm ids ob ?dir, unfolded r])
    case 1
    with ok show ?thesis by (simp add: key_lookup_def Let_def)
  next
    case (2 i e)
    have "i \<noteq> []" "publish_identity ob = JStr i" using key_request_ok [OF 2(1)] by auto
    then have "key_lookup realm ob dir' = Keys (put_key e (key_list (realm, i) ?dir))"
      using 2 by (simp add: key_lookup_def)
    with ok 2 put_key_set [OF d] show ?thesis by auto
  qed
qed

definition demo_limits :: key_limits where
  "demo_limits = \<lparr>kl_max_public = 3, kl_max_id = 8, kl_max_keys = 1\<rparr>"

definition demo_publish :: "string \<Rightarrow> string \<Rightarrow> jsval" where
  "demo_publish kid key = JObj [(''name'', JStr ''u''), (''public_key'', JStr key), (''kid'', JStr kid), (''alg'', JStr ''x'')]"

theorem key_directory_spec_witness:
  "\<exists>dir'. key_publish demo_limits ''t'' ''r'' [''u''] (demo_publish ''a'' ''k2'') (publish_all demo_limits [(''s'', ''r'', [''u''], demo_publish ''a'' ''k1'')])
       = (KeyOk, dir') \<and> keys_ok demo_limits dir'
     \<and> set (key_list (''r'', ''u'') dir') = {\<lparr>ke_id = ''a'', ke_alg = ''x'', ke_key = ''k2'', ke_updated = ''t''\<rparr>}"
proof -
  let ?e = "\<lambda>k t. \<lparr>ke_id = ''a'', ke_alg = ''x'', ke_key = k, ke_updated = t\<rparr>"
  have req: "key_request demo_limits t (demo_publish ''a'' k) = Some (''u'', ?e k t)" if "k = ''k1'' \<or> k = ''k2''" for k t
    using that by (auto simp: key_request_def demo_publish_def demo_limits_def publish_identity_def js_or_def
      nonempty_string_def short_string_def js_string_def)
  have free: "''u'' \<notin> set object_members" by (simp add: object_members_def)
  have run: "publish_all demo_limits [(''s'', ''r'', [''u''], demo_publish ''a'' ''k1'')] = [((''r'', ''u''), [?e ''k1'' ''s''])]"
    using free by (simp add: publish_all_def key_publish_def req key_list_def) (simp add: demo_limits_def)
  have "\<exists>dir'. key_publish demo_limits ''t'' ''r'' [''u''] (demo_publish ''a'' ''k2'') (publish_all demo_limits [(''s'', ''r'', [''u''], demo_publish ''a'' ''k1'')])
       = (KeyOk, dir') \<and> set (key_list (''r'', ''u'') dir') = {?e ''k2'' ''t''}"
    unfolding run using free by (simp add: key_publish_def req key_list_def)
  then obtain dir' where d: "key_publish demo_limits ''t'' ''r'' [''u''] (demo_publish ''a'' ''k2'') (publish_all demo_limits [(''s'', ''r'', [''u''], demo_publish ''a'' ''k1'')])
       = (KeyOk, dir')" "set (key_list (''r'', ''u'') dir') = {?e ''k2'' ''t''}" by blast
  have "keys_ok demo_limits dir'" using key_directory_spec [OF d(1)] by blast
  with d show ?thesis by blast
qed

section \<open>Push endpoints\<close>

datatype push_reply = PushFail nat | PushRegistered string nat | PushRemoved nat

definition KNOWN_TRANSPORTS :: "string list" where
  "KNOWN_TRANSPORTS = [''null'', ''unifiedpush'', ''fcm'', ''apns'']"

definition PUSH_MAX_APP_ID_LENGTH :: nat where "PUSH_MAX_APP_ID_LENGTH = 128"

definition push_token :: "jsval \<Rightarrow> string option" where
  "push_token ob = (case js_string (obj_get ob ''token'') of Some t \<Rightarrow> Some t | None \<Rightarrow> js_string (obj_get ob ''endpoint''))"

text \<open>The stored environment, \<open>None\<close> when it is refused.\<close>

definition apns_env :: "string \<Rightarrow> jsval \<Rightarrow> jsval option" where
  "apns_env tr v =
     (if tr \<noteq> ''apns'' then Some JUndef
      else if nullish v then Some (JStr ''production'')
      else if v = JStr ''production'' \<or> v = JStr ''sandbox'' then Some v else None)"

definition app_id_ok :: "jsval \<Rightarrow> bool" where
  "app_id_ok v \<longleftrightarrow> nullish v \<or> short_string PUSH_MAX_APP_ID_LENGTH v \<noteq> None"

text \<open>The validated arguments of PUSH_REGISTER, or the code of the refusal.\<close>

definition need :: "'a option \<Rightarrow> ('a \<Rightarrow> nat + 'b) \<Rightarrow> nat + 'b" where
  "need v f = (case v of None \<Rightarrow> Inl 400 | Some a \<Rightarrow> f a)"

definition register_request :: "string list \<Rightarrow> jsval \<Rightarrow> nat + (string \<times> register_arg)" where
  "register_request ids ob =
     need (nonempty_string (publish_identity ob)) (\<lambda>i.
     if i \<notin> set ids then Inl 403
     else need (js_string (obj_get ob ''transport'')) (\<lambda>tr.
     if tr \<notin> set KNOWN_TRANSPORTS then Inl 400
     else need (push_token ob) (\<lambda>tk.
     if tk = [] \<or> length tk > PUSH_MAX_TOKEN_LENGTH then Inl 400
     else if \<not> app_id_ok (obj_get ob ''app_id'') then Inl 400
     else need (apns_env tr (obj_get ob ''env'')) (\<lambda>env.
     Inr (i, \<lparr>ra_transport = tr, ra_token = tk, ra_app_id = js_or (obj_get ob ''app_id'') JNull,
              ra_env = env, ra_min_priority = JUndef\<rparr>)))))"

definition url_allowed :: "net_env \<Rightarrow> push_config option \<Rightarrow> register_arg \<Rightarrow> bool" where
  "url_allowed net cfg a \<longleftrightarrow> ra_transport a \<noteq> ''unifiedpush''
     \<or> (case isSafePushUrl net (case cfg of None \<Rightarrow> False | Some c \<Rightarrow> pc_allowLocal c) (JStr (ra_token a)) of
          SafeUrl h \<Rightarrow> True | UnsafeUrl why \<Rightarrow> False)"

lemma url_allowed_unified:
  "url_allowed net cfg a \<Longrightarrow> ra_transport a = ''unifiedpush'' \<Longrightarrow>
   \<exists>h. isSafePushUrl net (case cfg of None \<Rightarrow> False | Some c \<Rightarrow> pc_allowLocal c) (JStr (ra_token a)) = SafeUrl h"
  unfolding url_allowed_def
  by (cases "isSafePushUrl net (case cfg of None \<Rightarrow> False | Some c \<Rightarrow> pc_allowLocal c) (JStr (ra_token a))") simp_all

text \<open>The handlers on the window of the socket and the registry.\<close>

definition push_register :: "net_env \<Rightarrow> push_config option \<Rightarrow> int \<Rightarrow> string \<Rightarrow> string list \<Rightarrow> jsval
     \<Rightarrow> rate_window option \<times> registry \<Rightarrow> push_reply \<times> rate_window option \<times> registry" where
  "push_register net cfg now realm ids ob s =
     (if \<not> isConfigured cfg then (PushFail 501, s)
      else let (ok, w) = pushRegisterAdmitted now (fst s); R = snd s in
        if \<not> ok then (PushFail 429, Some w, R)
        else (case register_request ids ob of
            Inl c \<Rightarrow> (PushFail c, Some w, R)
          | Inr (i, a) \<Rightarrow>
              if \<not> url_allowed net cfg a then (PushFail 400, Some w, R)
              else let R' = snd (registry_register now realm i a R)
                in (PushRegistered (ra_transport a) (registry_count realm i R'), Some w, R')))"

definition push_unregister :: "push_config option \<Rightarrow> int \<Rightarrow> string \<Rightarrow> string list \<Rightarrow> jsval
     \<Rightarrow> rate_window option \<times> registry \<Rightarrow> push_reply \<times> rate_window option \<times> registry" where
  "push_unregister cfg now realm ids ob s =
     (if \<not> isConfigured cfg then (PushFail 501, s)
      else let (ok, w) = pushRegisterAdmitted now (fst s); R = snd s in
        if \<not> ok then (PushFail 429, Some w, R)
        else (case nonempty_string (publish_identity ob) of None \<Rightarrow> (PushFail 400, Some w, R) | Some i \<Rightarrow>
          if i \<notin> set ids then (PushFail 403, Some w, R)
          else (case (js_string (obj_get ob ''transport''), push_token ob) of
              (Some tr, Some tk) \<Rightarrow>
                if tk = [] then (PushFail 400, Some w, R)
                else let (n, R') = registry_unregister realm i tr tk R in (PushRemoved n, Some w, R')
            | _ \<Rightarrow> (PushFail 400, Some w, R))))"

text \<open>A message of a socket in its realm, holding its registered names.\<close>

record push_event =
  pe_socket :: nat
  pe_net :: net_env
  pe_now :: int
  pe_realm :: string
  pe_names :: "string list"
  pe_register :: bool
  pe_ob :: jsval

type_synonym push_host = "(nat, rate_window) jsmap \<times> registry"

definition push_step :: "push_config option \<Rightarrow> push_event \<Rightarrow> push_host \<Rightarrow> push_reply \<times> push_host" where
  "push_step cfg ev h =
     (let s = (jget (fst h) (pe_socket ev), snd h);
          (reply, w, R) = (if pe_register ev
             then push_register (pe_net ev) cfg (pe_now ev) (pe_realm ev) (pe_names ev) (pe_ob ev) s
             else push_unregister cfg (pe_now ev) (pe_realm ev) (pe_names ev) (pe_ob ev) s)
      in (reply, case w of None \<Rightarrow> fst h | Some v \<Rightarrow> jset (pe_socket ev) v (fst h), R))"

definition push_run :: "push_config option \<Rightarrow> push_event list \<Rightarrow> registry \<Rightarrow> registry" where
  "push_run cfg evs R0 = snd (fold (\<lambda>ev h. snd (push_step cfg ev h)) evs ([], R0))"

text \<open>The request behind a listed device.\<close>

definition vouches :: "push_config option \<Rightarrow> string \<Rightarrow> string \<Rightarrow> string \<times> string \<Rightarrow> push_event \<Rightarrow> bool" where
  "vouches cfg r i d ev \<longleftrightarrow> pe_register ev \<and> pe_realm ev = r \<and> i \<in> set (pe_names ev)
     \<and> (\<exists>a. register_request (pe_names ev) (pe_ob ev) = Inr (i, a) \<and> d = (ra_transport a, ra_token a) \<and> url_allowed (pe_net ev) cfg a)"

definition maps_wf :: "registry \<Rightarrow> bool" where
  "maps_wf R \<longleftrightarrow> (\<forall>r. wf_map (realm_map (rg_byRealm R) r) \<and> wf_map (realm_map (rg_touch R) r))"

lemma register_base_shrinks:
  assumes "maps_wf R"
  shows "set (registry_list r i (register_base now realm R)) \<subseteq> set (registry_list r i R) \<and> maps_wf (register_base now realm R)"
proof -
  have wf: "wf_map (realm_map (rg_byRealm R) r)" "wf_map (realm_map (rg_touch R) r)" for r
    using assms by (auto simp: maps_wf_def)
  have wf': "jget (rg_byRealm R) r = Some m \<Longrightarrow> wf_map m" "jget (rg_touch R) r = Some tm \<Longrightarrow> wf_map tm" for r m tm
    using wf [of r] by (auto simp: realm_map_def)
  have "set (registry_list r i (register_base now realm R)) \<subseteq> set (registry_list r i R)"
    using wf' by (auto simp: register_base_def sweepExpired_def registry_list_def realm_map_def Let_def jget_filter
        split: option.splits if_splits)
  moreover have "maps_wf (register_base now realm R)"
    using wf wf' by (auto simp: maps_wf_def register_base_def sweepExpired_def realm_map_def Let_def split: option.splits)
  ultimately show ?thesis by blast
qed

lemma upsert_devices:
  "upsert_endpoint now a n list0 = (e, l, ev) \<Longrightarrow> device ` set l \<subseteq> insert (ra_transport a, ra_token a) (device ` set list0)"
proof (cases "find (same_device (ra_transport a) (ra_token a)) list0")
  case (Some x)
  assume "upsert_endpoint now a n list0 = (e, l, ev)"
  with Some have "l = update_device (ra_transport a) (ra_token a) (refresh_endpoint now a) list0"
    by (simp add: upsert_endpoint_def)
  then have "map device l = map device list0" by (simp add: update_device_map)
  then show ?thesis by (metis list.set_map subset_insertI)
next
  case None
  assume "upsert_endpoint now a n list0 = (e, l, ev)"
  with None have "l = keep_last n (list0 @ [fresh_endpoint now a])" by (auto simp: upsert_endpoint_def Let_def)
  with keep_last_set [of n "list0 @ [fresh_endpoint now a]"] show ?thesis by auto
qed

lemma register_devices:
  assumes "maps_wf R"
  shows "maps_wf (snd (registry_register now realm i a R))
    \<and> (x \<in> device ` set (registry_list r j (snd (registry_register now realm i a R)))
       \<longrightarrow> x = (ra_transport a, ra_token a) \<and> r = realm \<and> j = i \<or> x \<in> device ` set (registry_list r j R))"
proof -
  obtain e R' where reg: "registry_register now realm i a R = (e, R')" by (metis prod.exhaust)
  let ?R1 = "register_base now realm R"
  have base: "set (registry_list r j ?R1) \<subseteq> set (registry_list r j R)" "maps_wf ?R1" for r j
    using register_base_shrinks [OF assms] by auto
  obtain e' l ev where up: "upsert_endpoint now a (rg_maxPerIdentity ?R1) (registry_list realm i ?R1) = (e', l, ev)"
    by (metis prod_cases3)
  have "wf_map (realm_map (rg_touch ?R1) realm)" using base(2) by (simp add: maps_wf_def)
  from register_effect [OF reg refl this up] obtain gone where
    lists: "\<And>r j. registry_list r j R' = (if r = realm then if j = i then l
          else if j \<in> gone then [] else registry_list realm j ?R1 else registry_list r j ?R1)"
    and wf: "maps_wf R'" using base(2) unfolding maps_wf_def by blast
  have "x = (ra_transport a, ra_token a) \<and> r = realm \<and> j = i \<or> x \<in> device ` set (registry_list r j R)"
    if "x \<in> device ` set (registry_list r j R')"
    using that upsert_devices [OF up] base(1) unfolding lists by (fastforce split: if_splits)
  with wf reg show ?thesis by simp
qed

lemma unregister_devices:
  assumes "maps_wf R"
  shows "maps_wf (snd (registry_unregister realm i tr tk R))"
    and "set (registry_list r j (snd (registry_unregister realm i tr tk R))) \<subseteq> set (registry_list r j R)"
  using unregister_effect(1,4,5) [OF refl, where R = R and realm = realm and identity = i and tr = tr and tk = tk] assms
  by (auto simp: maps_wf_def)

lemma register_request_owned: "register_request ids ob = Inr (i, a) \<Longrightarrow> i \<in> set ids"
  by (auto simp: register_request_def need_def split: option.splits if_splits)

lemma push_register_effect:
  obtains "snd (snd (push_register net cfg now realm ids ob s)) = snd s"
  | i a where "register_request ids ob = Inr (i, a)" "i \<in> set ids" "url_allowed net cfg a"
      "snd (snd (push_register net cfg now realm ids ob s)) = snd (registry_register now realm i a (snd s))"
proof (cases "register_request ids ob")
  case (Inr p)
  obtain i a where p: "p = (i, a)" by (cases p)
  have "snd (snd (push_register net cfg now realm ids ob s)) = snd s
      \<or> url_allowed net cfg a \<and> snd (snd (push_register net cfg now realm ids ob s)) = snd (registry_register now realm i a (snd s))"
    by (simp add: push_register_def Let_def split_beta Inr p)
  with Inr p register_request_owned [of ids ob i a] that show ?thesis by blast
next
  case (Inl c)
  then have "snd (snd (push_register net cfg now realm ids ob s)) = snd s"
    by (simp add: push_register_def Let_def split_beta)
  then show ?thesis by (rule that(1))
qed

lemma push_unregister_effect:
  "snd (snd (push_unregister cfg now realm ids ob s)) = snd s
   \<or> (\<exists>i tr tk. snd (snd (push_unregister cfg now realm ids ob s)) = snd (registry_unregister realm i tr tk (snd s)))"
  by (auto simp: push_unregister_def Let_def split_beta split: option.split)

lemma push_step_registry:
  "snd (snd (push_step cfg ev h)) =
     (if pe_register ev then snd (snd (push_register (pe_net ev) cfg (pe_now ev) (pe_realm ev) (pe_names ev) (pe_ob ev) (jget (fst h) (pe_socket ev), snd h)))
      else snd (snd (push_unregister cfg (pe_now ev) (pe_realm ev) (pe_names ev) (pe_ob ev) (jget (fst h) (pe_socket ev), snd h))))"
  by (simp add: push_step_def Let_def split_beta)

lemma push_step_devices:
  assumes "maps_wf (snd h)"
  shows "maps_wf (snd (snd (push_step cfg ev h)))
    \<and> (x \<in> device ` set (registry_list r i (snd (snd (push_step cfg ev h)))) \<longrightarrow>
         vouches cfg r i x ev \<or> x \<in> device ` set (registry_list r i (snd h)))"
proof (cases "pe_register ev")
  case True
  note step = push_step_registry [of cfg ev h] if_P [OF True]
  show ?thesis
    by (rule push_register_effect [of "pe_net ev" cfg "pe_now ev" "pe_realm ev" "pe_names ev" "pe_ob ev" "(jget (fst h) (pe_socket ev), snd h)"])
      (use assms register_devices [OF assms, where x = x and r = r and j = i and now = "pe_now ev" and realm = "pe_realm ev"] True in \<open>auto simp: step vouches_def\<close>)
next
  case False
  note step = push_step_registry [of cfg ev h] if_not_P [OF False]
  show ?thesis
    using push_unregister_effect [of cfg "pe_now ev" "pe_realm ev" "pe_names ev" "pe_ob ev" "(jget (fst h) (pe_socket ev), snd h)"]
  proof (elim disjE exE)
    fix j tr tk
    assume "snd (snd (push_unregister cfg (pe_now ev) (pe_realm ev) (pe_names ev) (pe_ob ev) (jget (fst h) (pe_socket ev), snd h)))
      = snd (registry_unregister (pe_realm ev) j tr tk (snd (jget (fst h) (pe_socket ev), snd h)))"
    then show ?thesis
      using unregister_devices(1) [OF assms, of "pe_realm ev" j tr tk]
        image_mono [OF unregister_devices(2) [OF assms, of r i "pe_realm ev" j tr tk], of device]
      unfolding step by auto
  qed (use assms in \<open>simp add: step\<close>)
qed

lemma push_run_devices:
  "maps_wf (snd h) \<Longrightarrow> x \<in> device ` set (registry_list r i (snd (fold (\<lambda>ev h. snd (push_step cfg ev h)) evs h))) \<Longrightarrow>
   (\<exists>ev \<in> set evs. vouches cfg r i x ev) \<or> x \<in> device ` set (registry_list r i (snd h))"
proof (induction evs arbitrary: h)
  case (Cons ev evs)
  from Cons.IH [of "snd (push_step cfg ev h)"] Cons.prems push_step_devices [OF Cons.prems(1), of cfg ev x r i]
  show ?case by auto
qed simp

lemma vouched_device:
  assumes "vouches cfg r i (tr, tk) ev"
  shows "publish_identity (pe_ob ev) = JStr i \<and> obj_get (pe_ob ev) ''transport'' = JStr tr \<and> push_token (pe_ob ev) = Some tk
    \<and> tr \<in> set KNOWN_TRANSPORTS \<and> tk \<noteq> [] \<and> length tk \<le> PUSH_MAX_TOKEN_LENGTH"
proof -
  obtain a where "register_request (pe_names ev) (pe_ob ev) = Inr (i, a)" "ra_transport a = tr" "ra_token a = tk"
    using assms by (auto simp: vouches_def)
  then show ?thesis
    by (auto simp: register_request_def need_def nonempty_string_def js_string_def split: option.splits if_splits jsval.splits)
qed

text \<open>
  A broker that started with no endpoints, after any messages of any sockets: a device it lists for
  a name was registered by a socket of that realm holding the name, with a message naming exactly this
  transport and token; the transport is a known one, the token not empty and not oversized, and an
  endpoint URL was accepted by the guard when it was registered.
\<close>

theorem push_endpoint_vouched:
  assumes "e \<in> set (registry_list r i (push_run cfg evs (registry_empty maxPer coalesce maxIds ttl st)))"
  shows "\<exists>ev \<in> set evs. pe_register ev \<and> pe_realm ev = r \<and> i \<in> set (pe_names ev) \<and> publish_identity (pe_ob ev) = JStr i
    \<and> obj_get (pe_ob ev) ''transport'' = JStr (ep_transport e) \<and> push_token (pe_ob ev) = Some (ep_token e)
    \<and> ep_transport e \<in> set KNOWN_TRANSPORTS \<and> ep_token e \<noteq> [] \<and> length (ep_token e) \<le> 4096
    \<and> (ep_transport e = ''unifiedpush'' \<longrightarrow>
        (\<exists>h. isSafePushUrl (pe_net ev) (case cfg of None \<Rightarrow> False | Some c \<Rightarrow> pc_allowLocal c) (JStr (ep_token e)) = SafeUrl h))"
proof -
  let ?h = "([], registry_empty maxPer coalesce maxIds ttl st) :: push_host"
  have "maps_wf (snd ?h)" and none: "device e \<notin> device ` set (registry_list r i (snd ?h))"
    by (simp_all add: maps_wf_def registry_empty_def realm_map_def registry_list_def wf_map_def)
  with push_run_devices [of ?h "device e" r i cfg evs] assms obtain ev where
    ev: "ev \<in> set evs" "vouches cfg r i (ep_transport e, ep_token e) ev" by (auto simp: push_run_def device_def)
  from ev(2) have "ep_transport e = ''unifiedpush'' \<longrightarrow>
        (\<exists>h. isSafePushUrl (pe_net ev) (case cfg of None \<Rightarrow> False | Some c \<Rightarrow> pc_allowLocal c) (JStr (ep_token e)) = SafeUrl h)"
    using url_allowed_unified by (auto simp: vouches_def)
  moreover from ev(2) have "pe_register ev" "pe_realm ev = r" "i \<in> set (pe_names ev)" by (simp_all add: vouches_def)
  ultimately show ?thesis
    using vouched_device [OF ev(2)] unfolding PUSH_MAX_TOKEN_LENGTH_def by (intro bexI [OF _ ev(1)] conjI; blast)
qed

definition null_message :: push_event where
  "null_message = \<lparr>pe_socket = 1, pe_net = \<lparr>parse_url = (\<lambda>s. None), isIPv6 = (\<lambda>s. False), dns_lookup = (\<lambda>h. None)\<rparr>,
     pe_now = 5, pe_realm = ''r'', pe_names = [''u''], pe_register = True,
     pe_ob = JObj [(''identity'', JStr ''u''), (''transport'', JStr ''null''), (''token'', JStr ''tok'')]\<rparr>"

definition null_config :: "push_config option" where
  "null_config = Some \<lparr>pc_transports = [(''null'', TNull null_new)], pc_transportNames = [''null''], pc_allowLocal = False,
     pc_transport = None, pc_transportName = None\<rparr>"

definition null_endpoint :: endpoint where
  "null_endpoint = \<lparr>ep_transport = ''null'', ep_token = ''tok'', ep_app_id = JNull, ep_env = JNull, ep_min_priority = JNull,
     ep_added_at = 5, ep_last_ok = None\<rparr>"

theorem push_endpoint_vouched_witness:
  "null_endpoint \<in> set (registry_list ''r'' ''u'' (push_run null_config [null_message] (registry_empty 2 0 0 0 None)))
   \<and> push_token (pe_ob null_message) = Some (ep_token null_endpoint)"
proof -
  have req: "register_request [''u''] (pe_ob null_message) = Inr (''u'', \<lparr>ra_transport = ''null'', ra_token = ''tok'', ra_app_id = JNull,
       ra_env = JUndef, ra_min_priority = JUndef\<rparr>)"
    by (simp add: register_request_def need_def null_message_def nonempty_string_def js_string_def publish_identity_def js_or_def
        KNOWN_TRANSPORTS_def push_token_def PUSH_MAX_TOKEN_LENGTH_def app_id_ok_def nullish_def apns_env_def)
  have run: "push_run null_config [null_message] R = snd (registry_register 5 ''r'' ''u'' \<lparr>ra_transport = ''null'', ra_token = ''tok'',
       ra_app_id = JNull, ra_env = JUndef, ra_min_priority = JUndef\<rparr> R)" for R
    using req by (simp add: push_run_def push_step_registry push_register_def null_message_def null_config_def isConfigured_def
        pushRegisterAdmitted_def window_admit_def PUSH_REGISTERS_PER_MIN_def url_allowed_def Let_def)
  have e: "null_endpoint \<in> set (registry_list ''r'' ''u'' (push_run null_config [null_message] (registry_empty 2 0 0 0 None)))"
    unfolding run by (simp add: registry_register_def registry_empty_def Let_def realm_map_def upsert_endpoint_def
        fresh_endpoint_def keep_last_def registry_list_def null_endpoint_def split_beta)
  from push_endpoint_vouched [OF e] have "push_token (pe_ob null_message) = Some (ep_token null_endpoint)" by simp
  with e show ?thesis by simp
qed

end
