(* ===== verification/Redis_Keys.thy ===== *)
theory Redis_Keys
  imports Store_Spec
begin

text \<open>
  The keys of \<open>lib/storage/redis.js\<close>: realm, event and consumer are written in base64url, which
  contains no separator and is injective, so that different mailboxes have different index keys
  and no message, index or dead-letter key is taken for another.
\<close>

section \<open>Buffer.from(s, 'utf8').toString('base64url')\<close>

definition utf8_char :: "char \<Rightarrow> nat list" where
  "utf8_char c = (let n = of_char c in if n < 128 then [n] else [192 + n div 64, 128 + n mod 64])"

definition utf8 :: "string \<Rightarrow> nat list" where
  "utf8 s = concat (map utf8_char s)"

fun sextets :: "nat list \<Rightarrow> nat list" where
  "sextets [] = []"
| "sextets [a] = [a div 4, (a mod 4) * 16]"
| "sextets [a, b] = [a div 4, (a mod 4) * 16 + b div 16, (b mod 16) * 4]"
| "sextets (a # b # c # r) = [a div 4, (a mod 4) * 16 + b div 16, (b mod 16) * 4 + c div 64, c mod 64] @ sextets r"

definition base64url_char :: "nat \<Rightarrow> char" where
  "base64url_char n = ''ABCDEFGHIJKLMNOPQRSTUVWXYZabcdefghijklmnopqrstuvwxyz0123456789-_'' ! n"

definition base64url :: "nat list \<Rightarrow> string" where
  "base64url bs = map base64url_char (sextets bs)"

text \<open>\<open>encodeKeyPart\<close>: of \<open>String(value || '')\<close>, which the callers have applied already.\<close>

definition encodeKeyPart :: "string \<Rightarrow> string" where
  "encodeKeyPart s = base64url (utf8 s)"

lemma of_char_less: "(of_char (c :: char) :: nat) < 256"
  by simp

lemma of_char_inj: "(of_char (c :: char) :: nat) = of_char d \<longleftrightarrow> c = d"
  by simp

lemma utf8_parts: "n < 256 \<Longrightarrow> 192 + n div 64 < 256 \<and> 128 + n mod 64 < (256 :: nat)"
proof
  assume "n < 256"
  then have "n div 64 < 4" by (simp add: less_mult_imp_div_less)
  then show "192 + n div 64 < 256" by linarith
  have "n mod 64 < 64" by simp
  then show "128 + n mod 64 < 256" by linarith
qed

lemma utf8_bytes: "\<forall>b \<in> set (utf8 s). b < 256"
proof -
  have "\<forall>b \<in> set (utf8_char c). b < 256" for c
    unfolding utf8_char_def Let_def using utf8_parts [OF of_char_less [of c]] by auto
  then show ?thesis by (auto simp: utf8_def)
qed

lemma utf8_char_prefix: "utf8_char c @ u = utf8_char d @ v \<Longrightarrow> c = d \<and> u = v"
proof -
  assume a: "utf8_char c @ u = utf8_char d @ v"
  have n: "(of_char c :: nat) < 256" "(of_char d :: nat) < 256" by (rule of_char_less)+
  have "(of_char c :: nat) = of_char d \<and> u = v"
  proof (cases "(of_char c :: nat) < 128"; cases "(of_char d :: nat) < 128")
    assume "\<not> (of_char c :: nat) < 128" "\<not> (of_char d :: nat) < 128"
    with a have "(of_char c :: nat) div 64 = of_char d div 64" "(of_char c :: nat) mod 64 = of_char d mod 64" "u = v"
      by (simp_all add: utf8_char_def Let_def)
    then show ?thesis by (metis mult_div_mod_eq)
  qed (use a in \<open>auto simp: utf8_char_def Let_def\<close>)
  then show ?thesis by (simp only: of_char_inj)
qed

lemma utf8_inj: "utf8 s = utf8 t \<longleftrightarrow> s = t"
proof -
  have ne: "utf8_char c \<noteq> []" for c by (simp add: utf8_char_def Let_def)
  have "utf8 s = utf8 t \<Longrightarrow> s = t"
  proof (induction s arbitrary: t)
    case Nil
    then show ?case using ne by (cases t) (auto simp: utf8_def)
  next
    case (Cons c s)
    then obtain d t' where t: "t = d # t'" using ne by (cases t) (auto simp: utf8_def)
    with Cons.prems have "utf8_char c @ utf8 s = utf8_char d @ utf8 t'" by (simp add: utf8_def)
    with utf8_char_prefix Cons.IH t show ?case by blast
  qed
  then show ?thesis by blast
qed

lemma byte_parts:
  "b < 256 \<Longrightarrow> b div 4 < 64" "b < 256 \<Longrightarrow> b div 16 < 16" "b < 256 \<Longrightarrow> b div 64 < (4 :: nat)"
  by (simp_all add: less_mult_imp_div_less)

lemma sextet_bound:
  assumes "a < 256" "b < (256 :: nat)"
  shows "(a mod 4) * 16 + b div 16 < 64" "(a mod 16) * 4 + b div 64 < 64"
proof -
  have "a mod 4 < 4" "a mod 16 < 16" by simp_all
  then show "(a mod 4) * 16 + b div 16 < 64" "(a mod 16) * 4 + b div 64 < 64"
    using byte_parts [OF assms(2)] by linarith+
qed

lemma sextets_bound: "\<forall>b \<in> set bs. b < 256 \<Longrightarrow> \<forall>n \<in> set (sextets bs). n < 64"
proof (induction bs rule: sextets.induct)
  case (2 a)
  then show ?case using sextet_bound(1) [of a 0] byte_parts(1) by simp
next
  case (3 a b)
  then show ?case using sextet_bound(1) [of a b] sextet_bound(2) [of b 0] byte_parts(1) by simp
next
  case (4 a b c r)
  then show ?case using sextet_bound(1) [of a b] sextet_bound(2) [of b c] byte_parts(1) by simp
qed simp

lemma digits_eq: "k * (a div k) + a mod k = (a :: nat)"
  by simp

lemma pair_split: "b < k \<Longrightarrow> y < k \<Longrightarrow> a * k + b = x * k + y \<longleftrightarrow> a = x \<and> b = (y :: nat)"
proof
  assume l: "b < k" "y < k" and e: "a * k + b = x * k + y"
  have "(a * k + b) div k = a" "(a * k + b) mod k = b" "(x * k + y) div k = x" "(x * k + y) mod k = y" using l by simp_all
  with e show "a = x \<and> b = y" by metis
qed simp

lemma byte_eqI: "a div k = x div k \<Longrightarrow> a mod k = x mod k \<Longrightarrow> a = (x :: nat)"
  by (metis digits_eq)

lemma sextets_inj:
  "\<forall>b \<in> set bs. b < 256 \<Longrightarrow> \<forall>b \<in> set cs. b < 256 \<Longrightarrow> sextets bs = sextets cs \<Longrightarrow> bs = cs"
proof (induction bs arbitrary: cs rule: sextets.induct)
  case 1
  then show ?case by (cases cs rule: sextets.cases) auto
next
  case (2 a)
  then show ?case by (cases cs rule: sextets.cases) (auto intro: byte_eqI)
next
  case (3 a b)
  from arg_cong [OF 3(3), of length] obtain x y where cs: "cs = [x, y]"
    by (cases cs rule: sextets.cases) simp_all
  with 3 have "a div 4 = x div 4" "a mod 4 = x mod 4 \<and> b div 16 = y div 16" "b mod 16 = y mod 16"
    by (simp_all add: pair_split byte_parts)
  with cs byte_eqI [of a 4 x] byte_eqI [of b 16 y] show ?case by simp
next
  case (4 a b c r)
  from arg_cong [OF 4(4), of length] 4(4) obtain x y z r' where cs: "cs = x # y # z # r'"
    by (cases cs rule: sextets.cases) simp_all
  with 4(2-4) have "a div 4 = x div 4" "a mod 4 = x mod 4 \<and> b div 16 = y div 16" "b mod 16 = y mod 16 \<and> c div 64 = z div 64"
      "c mod 64 = z mod 64" and r: "sextets r = sextets r'"
    by (simp_all add: pair_split byte_parts)
  moreover have "r = r'" using 4(1) [OF _ _ r] 4(2,3) cs by simp
  ultimately show ?case using cs byte_eqI [of a 4 x] byte_eqI [of b 16 y] byte_eqI [of c 64 z] by simp
qed

text \<open>The alphabet, read back: 64 distinct characters without a separator.\<close>

definition base64url_index :: "char \<Rightarrow> nat" where
  "base64url_index c = (let n = of_char c in
     if n = 45 then 62 else if n = 95 then 63 else if n < 58 then n + 4 else if n < 91 then n - 65 else n - 71)"

lemma base64url_alphabet:
  "list_all (\<lambda>n. base64url_char n \<noteq> CHR '':'' \<and> base64url_index (base64url_char n) = n) [0..<64]"
  by code_simp

lemma base64url_char_sep: "n < 64 \<Longrightarrow> base64url_char n \<noteq> CHR '':''"
  and base64url_char_inv: "n < 64 \<Longrightarrow> base64url_index (base64url_char n) = n"
  using base64url_alphabet by (auto simp: list_all_iff)

lemma base64url_char_inj: "n < 64 \<Longrightarrow> m < 64 \<Longrightarrow> base64url_char n = base64url_char m \<Longrightarrow> n = m"
  by (metis base64url_char_inv)

lemma encodeKeyPart_no_sep: "CHR '':'' \<notin> set (encodeKeyPart s)"
  using sextets_bound [OF utf8_bytes, of s] base64url_char_sep
  by (auto simp: encodeKeyPart_def base64url_def) metis

lemma encodeKeyPart_inj [simp]: "encodeKeyPart s = encodeKeyPart t \<longleftrightarrow> s = t"
proof
  assume "encodeKeyPart s = encodeKeyPart t"
  moreover have "inj_on base64url_char (set (sextets (utf8 s)) \<union> set (sextets (utf8 t)))"
    using sextets_bound [OF utf8_bytes] base64url_char_inj by (intro inj_onI) blast
  ultimately have "sextets (utf8 s) = sextets (utf8 t)"
    by (simp add: encodeKeyPart_def base64url_def map_inj_on)
  then have "utf8 s = utf8 t" by (rule sextets_inj [OF utf8_bytes utf8_bytes])
  then show "s = t" by (simp only: utf8_inj)
qed simp

section \<open>Keys\<close>

definition messageKey :: "string \<Rightarrow> string \<Rightarrow> string" where
  "messageKey prefix i = prefix @ '':message:'' @ i"

definition dlqMessageKey :: "string \<Rightarrow> string \<Rightarrow> string" where
  "dlqMessageKey prefix i = prefix @ '':dlq:message:'' @ i"

definition dlqIndexKey :: "string \<Rightarrow> string \<Rightarrow> string" where
  "dlqIndexKey prefix realm = join_with '':'' [prefix, ''dlq'', encodeKeyPart realm]"

definition indexKey :: "string \<Rightarrow> mailbox \<Rightarrow> string" where
  "indexKey prefix b = join_with '':'' [prefix, ''index'', encodeKeyPart (fst b), encodeKeyPart (fst (snd b)), encodeKeyPart (snd (snd b))]"

lemma sep_split:
  "CHR '':'' \<notin> set a \<Longrightarrow> CHR '':'' \<notin> set b \<Longrightarrow> a @ CHR '':'' # x = b @ CHR '':'' # y \<longleftrightarrow> a = b \<and> x = y"
proof (induction a arbitrary: b)
  case Nil
  then show ?case by (cases b) auto
next
  case (Cons c a)
  then show ?case by (cases b) auto
qed

lemma dlq_index_not_message: "encodeKeyPart realm \<noteq> ''message:'' @ i"
proof
  assume e: "encodeKeyPart realm = ''message:'' @ i"
  have "CHR '':'' \<in> set (''message:'' @ i)" by simp
  then show False using encodeKeyPart_no_sep [of realm] unfolding e by blast
qed

lemma keys_distinct [simp]:
  "messageKey p i = messageKey p j \<longleftrightarrow> i = j"
  "dlqMessageKey p i = dlqMessageKey p j \<longleftrightarrow> i = j"
  "messageKey p i \<noteq> dlqMessageKey p j" "dlqMessageKey p j \<noteq> messageKey p i"
  "messageKey p i \<noteq> indexKey p b" "indexKey p b \<noteq> messageKey p i"
  "messageKey p i \<noteq> dlqIndexKey p r" "dlqIndexKey p r \<noteq> messageKey p i"
  "dlqMessageKey p i \<noteq> indexKey p b" "indexKey p b \<noteq> dlqMessageKey p i"
  "dlqMessageKey p i \<noteq> dlqIndexKey p r" "dlqIndexKey p r \<noteq> dlqMessageKey p i"
  "dlqIndexKey p r \<noteq> indexKey p b" "indexKey p b \<noteq> dlqIndexKey p r"
  "dlqIndexKey p r = dlqIndexKey p r' \<longleftrightarrow> r = r'"
  using dlq_index_not_message [of r i]
  by (auto simp: messageKey_def dlqMessageKey_def dlqIndexKey_def indexKey_def)

text \<open>No two mailboxes share an index key.\<close>

lemma indexKey_inj [simp]: "indexKey p b = indexKey p b' \<longleftrightarrow> b = b'"
proof -
  obtain r e c r' e' c' where b: "b = (r, e, c)" "b' = (r', e', c')" by (cases b, cases b') auto
  show ?thesis
    unfolding b by (auto simp: indexKey_def sep_split [OF encodeKeyPart_no_sep encodeKeyPart_no_sep])
qed

end
