(* ===== verification/Redis_Store.thy ===== *)
theory Redis_Store
  imports Redis_Keys Store_Equiv "HOL-Library.Multiset"
begin

text \<open>
  The Redis backend (\<open>lib/storage/redis.js\<close>). The server is a parameter: a record of the commands the
  code sends, with what the Redis documentation says of them as the predicate \<open>redis_server\<close>. A
  message is one string value under its id, and its mailbox a sorted set of ids with the time of the
  enqueue as score. Commands are answered (a lost connection is not modelled) and sent one after the
  other; values are JSON documents.
\<close>

section \<open>The server\<close>

text \<open>
  GET and the expiry of keys read the server's clock. PEXPIREAT takes a decimal integer and answers
  with an error otherwise (\<open>None\<close>). SCAN gives the next cursor and some of the matching keys.
\<close>

record 'r redis =
  cmd_set :: "string \<Rightarrow> json \<Rightarrow> 'r \<Rightarrow> 'r"
  cmd_get :: "int \<Rightarrow> string \<Rightarrow> 'r \<Rightarrow> json option"
  cmd_del :: "string \<Rightarrow> 'r \<Rightarrow> 'r"
  cmd_pexpireat :: "string \<Rightarrow> rat \<Rightarrow> 'r \<Rightarrow> 'r option"
  cmd_zadd :: "string \<Rightarrow> int \<Rightarrow> string \<Rightarrow> 'r \<Rightarrow> 'r"
  cmd_zrem :: "string \<Rightarrow> string \<Rightarrow> 'r \<Rightarrow> 'r"
  cmd_zrange :: "string \<Rightarrow> 'r \<Rightarrow> string list"
  cmd_zcard :: "string \<Rightarrow> 'r \<Rightarrow> nat"
  cmd_scan :: "nat \<Rightarrow> string \<Rightarrow> 'r \<Rightarrow> nat \<times> string list"

record redis_conf =
  rc_prefix :: string
  rc_defaultTtl :: jsnum

definition redis_new :: "string option \<Rightarrow> jsval \<Rightarrow> jsval \<Rightarrow> redis_conf" where
  "redis_new prefix snake camel =
     \<lparr>rc_prefix = str_or prefix ''tyo-mq:queue'', rc_defaultTtl = default_ttl_of snake camel\<rparr>"

definition redis_expiresAt :: "redis_conf \<Rightarrow> int \<Rightarrow> message \<Rightarrow> rat option" where
  "redis_expiresAt c now m = expires_at (rc_defaultTtl c) now (m_ttl m)"

section \<open>Documents\<close>

text \<open>The stored object, and the object read back; times are numbers (the code writes ISO dates).\<close>

definition opt_str :: "string option \<Rightarrow> jsval" where
  "opt_str s = (case s of None \<Rightarrow> JNull | Some t \<Rightarrow> JStr t)"

definition opt_num :: "rat option \<Rightarrow> jsval" where
  "opt_num n = (case n of None \<Rightarrow> JNull | Some t \<Rightarrow> JNum (Fin t))"

definition entry_object :: "entry \<Rightarrow> jsval" where
  "entry_object x = JObj [(''id'', JStr (e_id x)), (''realm'', JStr (e_realm x)), (''event'', JStr (e_event x)),
     (''consumer'', JStr (str_or (e_consumer x) [])), (''message'', e_payload x), (''producer'', opt_str (e_producer x)),
     (''created_at'', JNum (Fin (of_int (e_created_at x)))), (''expires_at'', opt_num (e_expires_at x))]"

definition json_of :: "jsval \<Rightarrow> json" where
  "json_of v = (case json_stringify v of None \<Rightarrow> NullJ | Some j \<Rightarrow> j)"

definition str_field :: "jsval \<Rightarrow> string \<Rightarrow> string option" where
  "str_field ob k = (case obj_get ob k of JStr s \<Rightarrow> Some s | _ \<Rightarrow> None)"

definition num_field :: "jsval \<Rightarrow> string \<Rightarrow> rat option" where
  "num_field ob k = (case obj_get ob k of JNum (Fin t) \<Rightarrow> Some t | _ \<Rightarrow> None)"

definition object_entry :: "jsval \<Rightarrow> entry" where
  "object_entry ob = \<lparr>e_id = str_or (str_field ob ''id'') [], e_realm = str_or (str_field ob ''realm'') [],
     e_event = str_or (str_field ob ''event'') [], e_consumer = str_field ob ''consumer'', e_payload = obj_get ob ''message'',
     e_producer = str_field ob ''producer'',
     e_created_at = (case num_field ob ''created_at'' of None \<Rightarrow> 0 | Some t \<Rightarrow> \<lfloor>t\<rfloor>), e_expires_at = num_field ob ''expires_at''\<rparr>"

definition parse_entry :: "json \<Rightarrow> entry" where
  "parse_entry j = object_entry (json_parse j)"

text \<open>\<open>Object.assign({}, entry, {reason, dead_lettered_at})\<close>\<close>

definition dlq_object :: "int \<Rightarrow> string option \<Rightarrow> jsval \<Rightarrow> jsval" where
  "dlq_object now reason ob = JObj (jset ''dead_lettered_at'' (JNum (Fin (of_int now)))
     (jset ''reason'' (opt_str (opt_or reason None)) (obj_fields ob)))"

definition parse_dlq :: "json \<Rightarrow> dlq_entry" where
  "parse_dlq j = entry.extend (parse_entry j) \<lparr>d_reason = opt_or (str_field (json_parse j) ''reason'') None,
     d_at = (case num_field (json_parse j) ''dead_lettered_at'' of None \<Rightarrow> 0 | Some t \<Rightarrow> \<lfloor>t\<rfloor>)\<rparr>"

section \<open>Operations\<close>

text \<open>The id, or \<open>None\<close> when the promise is rejected: then the value is written but not indexed.\<close>

definition redis_message :: "redis_conf \<Rightarrow> int \<Rightarrow> string \<Rightarrow> string option \<Rightarrow> string option \<Rightarrow> message \<Rightarrow> entry" where
  "redis_message c now gen realm event m =
     \<lparr>e_id = str_or (m_id m) gen, e_realm = str_or realm ''default'', e_event = str_or event [],
       e_consumer = Some (str_or (message_consumer m) []), e_payload = message_payload m,
       e_producer = opt_or (m_producer m) None, e_created_at = now, e_expires_at = redis_expiresAt c now m\<rparr>"

definition redis_expire :: "'r redis \<Rightarrow> string \<Rightarrow> rat option \<Rightarrow> 'r \<Rightarrow> 'r option" where
  "redis_expire R k expiry s = (case expiry of None \<Rightarrow> Some s
     | Some t \<Rightarrow> if t = 0 then Some s else cmd_pexpireat R k t s)"

definition redis_enqueue ::
  "redis_conf \<Rightarrow> 'r redis \<Rightarrow> int \<Rightarrow> string \<Rightarrow> string option \<Rightarrow> string option \<Rightarrow> message \<Rightarrow> 'r \<Rightarrow> string option \<times> 'r" where
  "redis_enqueue c R now gen realm event m s =
     (let x = redis_message c now gen realm event m;
          k = messageKey (rc_prefix c) (e_id x);
          s1 = cmd_set R k (json_of (entry_object x)) s
      in case redis_expire R k (e_expires_at x) s1 of
           None \<Rightarrow> (None, s1)
         | Some s2 \<Rightarrow> (Some (e_id x), cmd_zadd R (indexKey (rc_prefix c) (entry_box x)) now (e_id x) s2))"

definition redis_ack :: "redis_conf \<Rightarrow> 'r redis \<Rightarrow> int \<Rightarrow> string \<Rightarrow> 'r \<Rightarrow> 'r" where
  "redis_ack c R now i s =
     (let k = messageKey (rc_prefix c) i;
          s1 = (case cmd_get R now k s of None \<Rightarrow> s
                | Some j \<Rightarrow> cmd_zrem R (indexKey (rc_prefix c) (entry_box (parse_entry j))) i s)
      in cmd_del R k s1)"

definition entry_past :: "int \<Rightarrow> entry \<Rightarrow> bool" where
  "entry_past now x \<longleftrightarrow> (case e_expires_at x of None \<Rightarrow> False | Some t \<Rightarrow> t \<noteq> 0 \<and> t \<le> of_int now)"

fun redis_collect :: "redis_conf \<Rightarrow> 'r redis \<Rightarrow> int \<Rightarrow> string \<Rightarrow> string list \<Rightarrow> 'r \<Rightarrow> entry list \<times> 'r" where
  "redis_collect c R now ik [] s = ([], s)"
| "redis_collect c R now ik (i # is) s =
     (case cmd_get R now (messageKey (rc_prefix c) i) s of
        None \<Rightarrow> redis_collect c R now ik is (cmd_zrem R ik i s)
      | Some j \<Rightarrow>
          if entry_past now (parse_entry j) then redis_collect c R now ik is (redis_ack c R now i s)
          else (let (xs, s') = redis_collect c R now ik is s in (parse_entry j # xs, s')))"

definition redis_dequeue ::
  "redis_conf \<Rightarrow> 'r redis \<Rightarrow> int \<Rightarrow> string option \<Rightarrow> string option \<Rightarrow> string option \<Rightarrow> 'r \<Rightarrow> entry list \<times> 'r" where
  "redis_dequeue c R now realm event consumer s =
     (let ik = indexKey (rc_prefix c) (box_of realm event consumer)
      in redis_collect c R now ik (cmd_zrange R ik s) s)"

definition redis_deadLetter :: "redis_conf \<Rightarrow> 'r redis \<Rightarrow> int \<Rightarrow> string \<Rightarrow> string option \<Rightarrow> 'r \<Rightarrow> string option \<times> 'r" where
  "redis_deadLetter c R now i reason s =
     (case cmd_get R now (messageKey (rc_prefix c) i) s of
        None \<Rightarrow> (None, s)
      | Some j \<Rightarrow>
          (let s1 = cmd_set R (dlqMessageKey (rc_prefix c) i) (json_of (dlq_object now reason (json_parse j))) s;
               s2 = cmd_zadd R (dlqIndexKey (rc_prefix c) (e_realm (parse_entry j))) now i s1
           in (Some i, redis_ack c R now i s2)))"

fun collect_dlq :: "redis_conf \<Rightarrow> 'r redis \<Rightarrow> int \<Rightarrow> string \<Rightarrow> string list \<Rightarrow> 'r \<Rightarrow> dlq_entry list \<times> 'r" where
  "collect_dlq c R now dk [] s = ([], s)"
| "collect_dlq c R now dk (i # is) s =
     (case cmd_get R now (dlqMessageKey (rc_prefix c) i) s of
        None \<Rightarrow> collect_dlq c R now dk is (cmd_zrem R dk i s)
      | Some j \<Rightarrow> (let (xs, s') = collect_dlq c R now dk is s in (parse_dlq j # xs, s')))"

definition redis_listDlq :: "redis_conf \<Rightarrow> 'r redis \<Rightarrow> int \<Rightarrow> string option \<Rightarrow> 'r \<Rightarrow> dlq_entry list \<times> 'r" where
  "redis_listDlq c R now realm s =
     (let dk = dlqIndexKey (rc_prefix c) (str_or realm []) in collect_dlq c R now dk (cmd_zrange R dk s) s)"

definition redis_discardDlq :: "redis_conf \<Rightarrow> 'r redis \<Rightarrow> int \<Rightarrow> string \<Rightarrow> string option \<Rightarrow> 'r \<Rightarrow> 'r" where
  "redis_discardDlq c R now i realm s =
     (let k = dlqMessageKey (rc_prefix c) i;
          r = (case cmd_get R now k s of None \<Rightarrow> realm | Some j \<Rightarrow> Some (e_realm (parse_entry j)));
          s1 = cmd_del R k s
      in case r of None \<Rightarrow> s1 | Some r' \<Rightarrow> cmd_zrem R (dlqIndexKey (rc_prefix c) r') i s1)"

text \<open>Only the count of a mailbox is known; \<open>None\<close> for the others.\<close>

definition redis_countQueued ::
  "redis_conf \<Rightarrow> 'r redis \<Rightarrow> string option \<Rightarrow> string option \<Rightarrow> string option \<Rightarrow> 'r \<Rightarrow> nat option" where
  "redis_countQueued c R realm event consumer s =
     (case (event, consumer) of
        (Some e, Some co) \<Rightarrow> Some (cmd_zcard R (indexKey (rc_prefix c) (str_or realm ''default'', e, co)) s)
      | _ \<Rightarrow> None)"

text \<open>The SCAN loop ends when the server answers with cursor 0.\<close>

partial_function (option) scanKeys :: "'r redis \<Rightarrow> string \<Rightarrow> 'r \<Rightarrow> nat \<Rightarrow> string list \<Rightarrow> string list option" where
  "scanKeys R pat s cursor keys =
     (let (nxt, found) = cmd_scan R cursor pat s in
      if nxt = 0 then Some (keys @ found) else scanKeys R pat s nxt (keys @ found))"

definition drain_index :: "'r redis \<Rightarrow> (string \<Rightarrow> string) \<Rightarrow> string \<Rightarrow> nat \<times> 'r \<Rightarrow> nat \<times> 'r" where
  "drain_index R key_for ik p =
     (let ids = cmd_zrange R ik (snd p)
      in (fst p + length ids, cmd_del R ik (fold (\<lambda>i. cmd_del R (key_for i)) ids (snd p))))"

definition redis_purgeRealm :: "redis_conf \<Rightarrow> 'r redis \<Rightarrow> string option \<Rightarrow> 'r \<Rightarrow> (nat \<times> 'r) option" where
  "redis_purgeRealm c R realm s =
     (let p = rc_prefix c; r = str_or realm [];
          pat = join_with '':'' [p, ''index'', encodeKeyPart r, ''*'']
      in case scanKeys R pat s 0 [] of
           None \<Rightarrow> None
         | Some ks \<Rightarrow> Some (drain_index R (dlqMessageKey p) (dlqIndexKey p r) (fold (drain_index R (messageKey p)) ks (0, s))))"

section \<open>What the server promises\<close>

fun text_less :: "string \<Rightarrow> string \<Rightarrow> bool" where
  "text_less s [] = False"
| "text_less [] (d # t) = True"
| "text_less (c # s) (d # t) = ((of_char c :: nat) < of_char d \<or> c = d \<and> text_less s t)"

type_synonym values_view = "string \<Rightarrow> (json \<times> rat option) option"
type_synonym sets_view = "string \<Rightarrow> string \<Rightarrow> int option"

text \<open>The order of a sorted set: by score, then by member.\<close>

definition by_score :: "(string \<Rightarrow> int option) \<Rightarrow> string \<Rightarrow> string \<Rightarrow> bool" where
  "by_score z i j \<longleftrightarrow> the (z i) < the (z j) \<or> the (z i) = the (z j) \<and> text_less i j"

text \<open>
  \<open>V\<close> gives the string value of a key with its expiry, \<open>Z\<close> the score of a member of a sorted set. A
  value is there until its expiry; a sorted-set command is only described on a key without a value.
\<close>

definition redis_server :: "'r redis \<Rightarrow> ('r \<Rightarrow> values_view) \<Rightarrow> ('r \<Rightarrow> sets_view) \<Rightarrow> bool" where
  "redis_server R V Z \<longleftrightarrow>
     (\<forall>s now k. cmd_get R now k s = (case V s k of None \<Rightarrow> None
         | Some (j, e) \<Rightarrow> (case e of None \<Rightarrow> Some j | Some t \<Rightarrow> if t \<le> of_int now then None else Some j)))
   \<and> (\<forall>s k j. V (cmd_set R k j s) = (V s)(k := Some (j, None)) \<and> Z (cmd_set R k j s) = (Z s)(k := (\<lambda>i. None)))
   \<and> (\<forall>s k. V (cmd_del R k s) = (V s)(k := None) \<and> Z (cmd_del R k s) = (Z s)(k := (\<lambda>i. None)))
   \<and> (\<forall>s k t. t \<in> \<int> \<longrightarrow> (\<exists>s'. cmd_pexpireat R k t s = Some s' \<and> Z s' = Z s
         \<and> V s' = (V s)(k := map_option (\<lambda>(j, e). (j, Some t)) (V s k))))
   \<and> (\<forall>s k t. t \<notin> \<int> \<longrightarrow> cmd_pexpireat R k t s = None)
   \<and> (\<forall>s k sc i. V s k = None \<longrightarrow> V (cmd_zadd R k sc i s) = V s \<and> Z (cmd_zadd R k sc i s) = (Z s)(k := (Z s k)(i := Some sc)))
   \<and> (\<forall>s k i. V s k = None \<longrightarrow> V (cmd_zrem R k i s) = V s \<and> Z (cmd_zrem R k i s) = (Z s)(k := (Z s k)(i := None)))
   \<and> (\<forall>s k. V s k = None \<longrightarrow> set (cmd_zrange R k s) = {i. Z s k i \<noteq> None} \<and> distinct (cmd_zrange R k s)
         \<and> sorted_wrt (by_score (Z s k)) (cmd_zrange R k s) \<and> cmd_zcard R k s = length (cmd_zrange R k s))"

definition live_value :: "values_view \<Rightarrow> int \<Rightarrow> string \<Rightarrow> json option" where
  "live_value v now k = (case v k of None \<Rightarrow> None
     | Some (j, e) \<Rightarrow> (case e of None \<Rightarrow> Some j | Some t \<Rightarrow> if t \<le> of_int now then None else Some j))"

lemma cmd_get_eq: "redis_server R V Z \<Longrightarrow> cmd_get R now k s = live_value (V s) now k"
  by (simp add: redis_server_def live_value_def)

lemma cmd_set_eqs:
  "redis_server R V Z \<Longrightarrow> V (cmd_set R k j s) = (V s)(k := Some (j, None))"
  "redis_server R V Z \<Longrightarrow> Z (cmd_set R k j s) = (Z s)(k := (\<lambda>i. None))"
  by (simp_all add: redis_server_def)

lemma cmd_del_eqs:
  "redis_server R V Z \<Longrightarrow> V (cmd_del R k s) = (V s)(k := None)"
  "redis_server R V Z \<Longrightarrow> Z (cmd_del R k s) = (Z s)(k := (\<lambda>i. None))"
  by (simp_all add: redis_server_def)

lemma cmd_pexpireat_ex:
  "redis_server R V Z \<Longrightarrow> t \<in> \<int> \<Longrightarrow> \<exists>s'. cmd_pexpireat R k t s = Some s' \<and> Z s' = Z s
     \<and> V s' = (V s)(k := map_option (\<lambda>(j, e). (j, Some t)) (V s k))"
  by (simp add: redis_server_def)

lemma cmd_zset_eqs:
  "redis_server R V Z \<Longrightarrow> V s k = None \<Longrightarrow> V (cmd_zadd R k sc i s) = V s"
  "redis_server R V Z \<Longrightarrow> V s k = None \<Longrightarrow> Z (cmd_zadd R k sc i s) = (Z s)(k := (Z s k)(i := Some sc))"
  "redis_server R V Z \<Longrightarrow> V s k = None \<Longrightarrow> V (cmd_zrem R k i s) = V s"
  "redis_server R V Z \<Longrightarrow> V s k = None \<Longrightarrow> Z (cmd_zrem R k i s) = (Z s)(k := (Z s k)(i := None))"
  by (simp_all add: redis_server_def)

lemma cmd_zrange_eqs:
  "redis_server R V Z \<Longrightarrow> V s k = None \<Longrightarrow> set (cmd_zrange R k s) = {i. Z s k i \<noteq> None}"
  "redis_server R V Z \<Longrightarrow> V s k = None \<Longrightarrow> distinct (cmd_zrange R k s)"
  "redis_server R V Z \<Longrightarrow> V s k = None \<Longrightarrow> sorted_wrt (by_score (Z s k)) (cmd_zrange R k s)"
  "redis_server R V Z \<Longrightarrow> V s k = None \<Longrightarrow> cmd_zcard R k s = length (cmd_zrange R k s)"
  by (simp_all add: redis_server_def)

text \<open>What is read back is what was written, its payload as JSON keeps it.\<close>

lemma parse_entry_object:
  "parse_entry (json_of (entry_object x)) = x\<lparr>e_consumer := Some (str_or (e_consumer x) []), e_payload := json_stored (e_payload x)\<rparr>"
proof -
  have str: "json_stringify (opt_str p) = Some (case p of None \<Rightarrow> NullJ | Some t \<Rightarrow> StrJ t)" for p
    by (simp add: opt_str_def split: option.split)
  have num: "json_stringify (opt_num p) = Some (case p of None \<Rightarrow> NullJ | Some t \<Rightarrow> NumJ t)" for p
    by (simp add: opt_num_def split: option.split)
  obtain i r ev co p pr ca ex where x: "x = \<lparr>e_id = i, e_realm = r, e_event = ev, e_consumer = co, e_payload = p,
     e_producer = pr, e_created_at = ca, e_expires_at = ex\<rparr>" by (cases x)
  show ?thesis
    unfolding parse_entry_def json_of_def entry_object_def object_entry_def x
    by (cases "json_stringify p"; cases pr; cases ex)
      (simp_all add: str num str_field_def num_field_def json_stored_def str_or_def)
qed

definition redis_stored :: "entry \<Rightarrow> bool" where
  "redis_stored x \<longleftrightarrow> json_clean (e_payload x) \<and> (\<exists>co. e_consumer x = Some co)"

lemma parse_entry_stored: "redis_stored x \<Longrightarrow> parse_entry (json_of (entry_object x)) = x"
  unfolding parse_entry_object redis_stored_def by (cases x) (auto simp: json_stored_clean str_or_def)

section \<open>The mailboxes\<close>

declare split_paired_All [simp del] split_paired_Ex [simp del]

text \<open>
  At time \<open>t\<close>: a value under the key of an id is the object of that id, with its expiry; unless it has
  expired, the id is in the index of its mailbox, with the time of the enqueue as score, and in no
  other index. No key of an index holds a value.
\<close>

definition redis_inv :: "string \<Rightarrow> values_view \<Rightarrow> sets_view \<Rightarrow> int \<Rightarrow> bool" where
  "redis_inv p v z t \<longleftrightarrow>
     (\<forall>i j e. v (messageKey p i) = Some (j, e) \<longrightarrow> e_id (parse_entry j) = i \<and> e_expires_at (parse_entry j) = e \<and> e \<noteq> Some 0
        \<and> e_consumer (parse_entry j) \<noteq> None
        \<and> (unexpired t (parse_entry j) \<longrightarrow> z (indexKey p (entry_box (parse_entry j))) i = Some (e_created_at (parse_entry j)))
        \<and> (\<forall>b. z (indexKey p b) i \<noteq> None \<longrightarrow> b = entry_box (parse_entry j)))
   \<and> (\<forall>b. v (indexKey p b) = None) \<and> (\<forall>r. v (dlqIndexKey p r) = None)"

definition live_entry :: "string \<Rightarrow> values_view \<Rightarrow> int \<Rightarrow> entry \<Rightarrow> bool" where
  "live_entry p v t x \<longleftrightarrow> (\<exists>j e. v (messageKey p (e_id x)) = Some (j, e) \<and> parse_entry j = x) \<and> unexpired t x"

lemma redis_inv_index: "redis_inv p v z t \<Longrightarrow> v (indexKey p b) = None" "redis_inv p v z t \<Longrightarrow> v (dlqIndexKey p r) = None"
  unfolding redis_inv_def by blast+

lemma redis_invD:
  assumes "redis_inv p v z t" "v (messageKey p i) = Some (j, e)"
  shows "e_id (parse_entry j) = i" "e_expires_at (parse_entry j) = e" "e \<noteq> Some 0" "e_consumer (parse_entry j) \<noteq> None"
    "unexpired t (parse_entry j) \<Longrightarrow> z (indexKey p (entry_box (parse_entry j))) i = Some (e_created_at (parse_entry j))"
    "z (indexKey p b) i \<noteq> None \<Longrightarrow> b = entry_box (parse_entry j)"
  using assms unfolding redis_inv_def by blast+

lemma unexpired_later: "unexpired now x \<Longrightarrow> t \<le> now \<Longrightarrow> unexpired t x"
  by (auto simp: unexpired_def split: option.splits)

lemma redis_inv_later: "redis_inv p v z t \<Longrightarrow> t \<le> now \<Longrightarrow> redis_inv p v z now"
  unfolding redis_inv_def using unexpired_later by blast

lemma live_value_entry:
  assumes inv: "redis_inv p v z t"
  shows "live_value v now (messageKey p i) = Some j \<Longrightarrow> live_entry p v now (parse_entry j) \<and> e_id (parse_entry j) = i"
    and "live_entry p v now x \<Longrightarrow> \<exists>j. live_value v now (messageKey p (e_id x)) = Some j \<and> parse_entry j = x"
proof -
  show "live_entry p v now (parse_entry j) \<and> e_id (parse_entry j) = i" if g: "live_value v now (messageKey p i) = Some j"
  proof -
    from g obtain e where v: "v (messageKey p i) = Some (j, e)" and e: "case e of None \<Rightarrow> True | Some t \<Rightarrow> t > of_int now"
      by (auto simp: live_value_def split: option.splits if_splits)
    from redis_invD(1,2) [OF inv v] e v show ?thesis by (simp add: live_entry_def unexpired_def)
  qed
  show "\<exists>j. live_value v now (messageKey p (e_id x)) = Some j \<and> parse_entry j = x" if l: "live_entry p v now x"
  proof -
    from l obtain j e where v: "v (messageKey p (e_id x)) = Some (j, e)" "parse_entry j = x" "unexpired now x"
      by (auto simp: live_entry_def)
    have "e_expires_at x = e" using redis_invD(2) [OF inv v(1)] v(2) by simp
    with v show ?thesis by (auto simp: live_value_def unexpired_def split: option.splits)
  qed
qed

lemma live_entry_unique: "live_entry p v t x \<Longrightarrow> live_entry p v t y \<Longrightarrow> e_id x = e_id y \<Longrightarrow> x = y"
  unfolding live_entry_def by (metis option.inject prod.inject)

lemma live_not_past: "redis_inv p v z t \<Longrightarrow> live_entry p v now x \<Longrightarrow> \<not> entry_past now x"
  by (auto simp: live_entry_def unexpired_def entry_past_def split: option.splits)

lemma live_indexed:
  assumes "redis_inv p v z t" "live_entry p v now x" "t \<le> now"
  shows "z (indexKey p (entry_box x)) (e_id x) = Some (e_created_at x)"
    and "z (indexKey p b) (e_id x) \<noteq> None \<Longrightarrow> b = entry_box x"
proof -
  obtain j e where v: "v (messageKey p (e_id x)) = Some (j, e)" "parse_entry j = x" "unexpired now x"
    using assms(2) by (auto simp: live_entry_def)
  have "unexpired t x" using unexpired_later v(3) assms(3) by blast
  with redis_invD(5) [OF assms(1) v(1)] v(2) show "z (indexKey p (entry_box x)) (e_id x) = Some (e_created_at x)" by simp
  show "z (indexKey p b) (e_id x) \<noteq> None \<Longrightarrow> b = entry_box x" using redis_invD(6) [OF assms(1) v(1)] v(2) by blast
qed

section \<open>Draining a mailbox\<close>

definition drop_member :: "sets_view \<Rightarrow> string \<Rightarrow> (string \<Rightarrow> bool) \<Rightarrow> sets_view" where
  "drop_member z k P = z(k := (\<lambda>i. if P i then None else z k i))"

lemma drop_dead_inv:
  assumes "redis_inv p v z now" "\<And>i. P i \<Longrightarrow> live_value v now (messageKey p i) = None"
  shows "redis_inv p v (drop_member z k P) now"
proof -
  have "\<not> P i" if "v (messageKey p i) = Some (j, e)" "unexpired now (parse_entry j)" for i j e
    using assms(2) [of i] live_value_entry(2) [OF assms(1), of now "parse_entry j"] that redis_invD(1) [OF assms(1) that(1)]
    by (auto simp: live_entry_def)
  with assms(1) show ?thesis unfolding redis_inv_def drop_member_def by (simp split: if_splits) blast
qed

lemma redis_collect_spec:
  assumes R: "redis_server R V Z"
  shows "redis_inv (rc_prefix c) (V s) (Z s) now \<Longrightarrow> redis_collect c R now (indexKey (rc_prefix c) b) is s = (xs, s') \<Longrightarrow>
    V s' = V s \<and> Z s' = drop_member (Z s) (indexKey (rc_prefix c) b) (\<lambda>i. i \<in> set is \<and> live_value (V s) now (messageKey (rc_prefix c) i) = None)
    \<and> map e_id xs = filter (\<lambda>i. live_value (V s) now (messageKey (rc_prefix c) i) \<noteq> None) is
    \<and> list_all (live_entry (rc_prefix c) (V s) now) xs"
proof (induction "is" arbitrary: s xs s')
  case Nil
  then show ?case by (simp add: drop_member_def)
next
  case (Cons i "is")
  let ?p = "rc_prefix c" and ?k = "indexKey (rc_prefix c) b"
  note get = cmd_get_eq [OF R, of now "messageKey ?p i" s]
  show ?case
  proof (cases "live_value (V s) now (messageKey ?p i)")
    case None
    let ?s1 = "cmd_zrem R ?k i s"
    have v: "V ?s1 = V s" and z: "Z ?s1 = drop_member (Z s) ?k (\<lambda>j. j = i)"
      using cmd_zset_eqs(3,4) [OF R redis_inv_index(1) [OF Cons.prems(1)]] by (auto simp: drop_member_def fun_eq_iff)
    have inv: "redis_inv ?p (V ?s1) (Z ?s1) now"
      unfolding v z by (rule drop_dead_inv [OF Cons.prems(1)]) (simp add: None)
    have "redis_collect c R now ?k is ?s1 = (xs, s')" using Cons.prems(2) None get by simp
    from Cons.IH [OF inv this] None show ?thesis unfolding v z by (auto simp: drop_member_def fun_eq_iff)
  next
    case (Some j)
    have live: "live_entry ?p (V s) now (parse_entry j)" "e_id (parse_entry j) = i"
      using live_value_entry(1) [OF Cons.prems(1) Some] by auto
    have "\<not> entry_past now (parse_entry j)" by (rule live_not_past [OF Cons.prems(1) live(1)])
    with Cons.prems(2) Some get obtain ys where ys: "redis_collect c R now ?k is s = (ys, s')" "xs = parse_entry j # ys"
      by (auto simp: Let_def split: prod.splits)
    from Cons.IH [OF Cons.prems(1) ys(1)] Some live ys(2) show ?thesis by (auto simp: drop_member_def fun_eq_iff)
  qed
qed

text \<open>Entries in the order of a sorted set.\<close>

definition entry_before :: "entry \<Rightarrow> entry \<Rightarrow> bool" where
  "entry_before x y \<longleftrightarrow> e_created_at x < e_created_at y \<or> e_created_at x = e_created_at y \<and> text_less (e_id x) (e_id y)"

lemma sorted_wrt_mono_set: "sorted_wrt P xs \<Longrightarrow> (\<And>x y. x \<in> set xs \<Longrightarrow> y \<in> set xs \<Longrightarrow> P x y \<Longrightarrow> Q x y) \<Longrightarrow> sorted_wrt Q xs"
  by (induction xs) auto

lemma redis_dequeue_spec:
  assumes R: "redis_server R V Z" and inv: "redis_inv (rc_prefix c) (V s) (Z s) t" and "t \<le> now"
    and d: "redis_dequeue c R now r e co s = (xs, s')"
  shows "set xs = {x. live_entry (rc_prefix c) (V s) now x \<and> entry_box x = box_of r e co}" "distinct (map e_id xs)"
    "sorted_wrt entry_before xs" "V s' = V s" "redis_inv (rc_prefix c) (V s') (Z s') now"
    "\<And>k i. Z s' k i \<noteq> None \<Longrightarrow> Z s k i \<noteq> None"
proof -
  let ?p = "rc_prefix c" and ?b = "box_of r e co"
  let ?k = "indexKey ?p ?b" and ?is = "cmd_zrange R (indexKey (rc_prefix c) (box_of r e co)) s"
  have inv': "redis_inv ?p (V s) (Z s) now" by (rule redis_inv_later [OF inv assms(3)])
  have "V s ?k = None" by (rule redis_inv_index(1) [OF inv'])
  note z = cmd_zrange_eqs(1-3) [OF R this]
  have c: "V s' = V s" "Z s' = drop_member (Z s) ?k (\<lambda>i. i \<in> set ?is \<and> live_value (V s) now (messageKey ?p i) = None)"
    "map e_id xs = filter (\<lambda>i. live_value (V s) now (messageKey ?p i) \<noteq> None) ?is"
    "list_all (live_entry ?p (V s) now) xs"
    using redis_collect_spec [OF R inv', of ?b ?is xs s'] d by (simp_all add: redis_dequeue_def Let_def)
  show "V s' = V s" by (rule c)
  show "redis_inv ?p (V s') (Z s') now" unfolding c by (rule drop_dead_inv [OF inv']) simp
  show "distinct (map e_id xs)" unfolding c(3) using z(2) by simp
  show "\<And>k i. Z s' k i \<noteq> None \<Longrightarrow> Z s k i \<noteq> None" unfolding c(2) by (auto simp: drop_member_def split: if_splits)
  have box: "entry_box x = ?b" if "x \<in> set xs" for x
  proof -
    have "e_id x \<in> set (map e_id xs)" using that by simp
    then have "Z s ?k (e_id x) \<noteq> None" unfolding c(3) using z(1) by auto
    with live_indexed(2) [OF inv' _ order_refl] c(4) that show ?thesis by (auto simp: list_all_iff)
  qed
  have "x \<in> set xs" if l: "live_entry ?p (V s) now x" "entry_box x = ?b" for x
  proof -
    have "Z s ?k (e_id x) \<noteq> None" using live_indexed(1) [OF inv' l(1)] l(2) by simp
    with z(1) live_value_entry(2) [OF inv' l(1)] have "e_id x \<in> set (map e_id xs)" unfolding c(3) by auto
    then obtain y where "y \<in> set xs" "e_id y = e_id x" by auto
    with c(4) l(1) live_entry_unique show ?thesis by (metis list_all_iff)
  qed
  with box c(4) show "set xs = {x. live_entry ?p (V s) now x \<and> entry_box x = ?b}" by (auto simp: list_all_iff)
  have score: "Z s ?k (e_id x) = Some (e_created_at x)" if "x \<in> set xs" for x
    using live_indexed(1) [OF inv' _ order_refl, of x] c(4) box [OF that] that by (simp add: list_all_iff)
  have "sorted_wrt (by_score (Z s ?k)) (map e_id xs)" unfolding c(3) using z(3) by (rule sorted_wrt_filter)
  then have "sorted_wrt (\<lambda>x y. by_score (Z s ?k) (e_id x) (e_id y)) xs" by (simp add: sorted_wrt_map)
  then show "sorted_wrt entry_before xs"
    by (rule sorted_wrt_mono_set) (simp add: by_score_def entry_before_def score)
qed

section \<open>The other operations\<close>

definition fresh_id :: "string \<Rightarrow> values_view \<Rightarrow> sets_view \<Rightarrow> string \<Rightarrow> bool" where
  "fresh_id p v z i \<longleftrightarrow> v (messageKey p i) = None \<and> (\<forall>b. z (indexKey p b) i = None)"

lemma redis_expire_spec:
  assumes R: "redis_server R V Z" and e: "e \<noteq> Some 0" "\<And>t. e = Some t \<Longrightarrow> t \<in> \<int>" and v: "V s k = Some (j, None)"
  shows "\<exists>s'. redis_expire R k e s = Some s' \<and> Z s' = Z s \<and> V s' = (V s)(k := Some (j, e))"
proof (cases e)
  case None
  with v show ?thesis by (intro exI [of _ s]) (auto simp: redis_expire_def fun_eq_iff)
next
  case (Some t)
  from cmd_pexpireat_ex [OF R e(2) [OF Some], of k s] e(1) v Some show ?thesis by (auto simp: redis_expire_def)
qed

lemma redis_enqueue_spec:
  assumes R: "redis_server R V Z" and inv: "redis_inv (rc_prefix c) (V s) (Z s) now"
    and x: "x = redis_message c now gen r e m" and st: "redis_stored x" and fresh: "fresh_id (rc_prefix c) (V s) (Z s) (e_id x)"
    and ex: "e_expires_at x \<noteq> Some 0" "\<And>t. e_expires_at x = Some t \<Longrightarrow> t \<in> \<int>"
    and enq: "redis_enqueue c R now gen r e m s = (res, s')"
  shows "res = Some (e_id x)" "redis_inv (rc_prefix c) (V s') (Z s') now"
    "live_entry (rc_prefix c) (V s') now y \<longleftrightarrow> live_entry (rc_prefix c) (V s) now y \<or> y = x \<and> unexpired now x"
    "fresh_id (rc_prefix c) (V s) (Z s) j \<Longrightarrow> j \<noteq> e_id x \<Longrightarrow> fresh_id (rc_prefix c) (V s') (Z s') j"
proof -
  let ?p = "rc_prefix c"
  let ?k = "messageKey ?p (e_id x)" and ?d = "json_of (entry_object x)" and ?ik = "indexKey ?p (entry_box x)"
  let ?s1 = "cmd_set R ?k ?d s"
  have "V ?s1 ?k = Some (?d, None)" by (simp add: cmd_set_eqs(1) [OF R])
  from redis_expire_spec [OF R ex this] obtain s2 where s2: "redis_expire R ?k (e_expires_at x) ?s1 = Some s2"
    "Z s2 = Z ?s1" "V s2 = (V ?s1)(?k := Some (?d, e_expires_at x))" by blast
  have none: "V s2 ?ik = None" using redis_inv_index(1) [OF inv] by (simp add: s2 cmd_set_eqs [OF R])
  have s': "res = Some (e_id x)" "s' = cmd_zadd R ?ik now (e_id x) s2"
    using enq s2(1) by (simp_all add: redis_enqueue_def Let_def x [symmetric])
  show "res = Some (e_id x)" by (rule s')
  have v: "V s' = (V s)(?k := Some (?d, e_expires_at x))"
    unfolding s' cmd_zset_eqs(1) [OF R none] s2(3) cmd_set_eqs [OF R] by simp
  have z: "Z s' = (Z s)(?k := (\<lambda>i. None), ?ik := (Z s ?ik)(e_id x := Some now))"
    unfolding s' cmd_zset_eqs(2) [OF R none] s2(2) cmd_set_eqs [OF R] by (auto simp: fun_eq_iff)
  have px: "parse_entry ?d = x" by (rule parse_entry_stored [OF st])
  have created: "e_created_at x = now" by (simp add: x redis_message_def)
  have zk: "Z s' (indexKey ?p b) i = (if b = entry_box x \<and> i = e_id x then Some now else Z s (indexKey ?p b) i)" for b i
    by (simp add: z)
  show "redis_inv ?p (V s') (Z s') now"
    unfolding redis_inv_def
  proof (intro conjI allI impI)
    fix i j e assume a: "V s' (messageKey ?p i) = Some (j, e)"
    show "e_id (parse_entry j) = i" "e_expires_at (parse_entry j) = e" "e \<noteq> Some 0" "e_consumer (parse_entry j) \<noteq> None"
      using a redis_invD(1-4) [OF inv, of i j e] px ex(1) st by (auto simp: v redis_stored_def split: if_splits)
    show "Z s' (indexKey ?p (entry_box (parse_entry j))) i = Some (e_created_at (parse_entry j))" if "unexpired now (parse_entry j)"
      using a redis_invD(5) [OF inv, of i j e] that px created by (auto simp: v zk split: if_splits)
    show "b = entry_box (parse_entry j)" if "Z s' (indexKey ?p b) i \<noteq> None" for b
      using a redis_invD(6) [OF inv, of i j e b] that px fresh by (auto simp: v zk fresh_id_def split: if_splits)
  qed (use redis_inv_index [OF inv] in \<open>simp_all add: v\<close>)
  show "live_entry ?p (V s') now y \<longleftrightarrow> live_entry ?p (V s) now y \<or> y = x \<and> unexpired now x"
    using fresh px by (auto simp: live_entry_def v fresh_id_def)
  show "fresh_id ?p (V s') (Z s') j" if "fresh_id ?p (V s) (Z s) j" "j \<noteq> e_id x"
    using that by (simp add: fresh_id_def zk v)
qed

text \<open>Effects that leave the mailboxes alone, and the removal of one message.\<close>

lemma redis_inv_cong:
  assumes "redis_inv p v z t" "\<And>i. v' (messageKey p i) = v (messageKey p i)" "\<And>b. z' (indexKey p b) = z (indexKey p b)"
    "\<And>b. v' (indexKey p b) = None" "\<And>r. v' (dlqIndexKey p r) = None"
  shows "redis_inv p v' z' t"
  using assms unfolding redis_inv_def by simp

lemma redis_ack_spec:
  assumes R: "redis_server R V Z" and inv: "redis_inv (rc_prefix c) (V s) (Z s) now"
  shows "redis_inv (rc_prefix c) (V (redis_ack c R now i s)) (Z (redis_ack c R now i s)) now"
    "live_entry (rc_prefix c) (V (redis_ack c R now i s)) now y \<longleftrightarrow> live_entry (rc_prefix c) (V s) now y \<and> e_id y \<noteq> i"
    "fresh_id (rc_prefix c) (V s) (Z s) j \<Longrightarrow> fresh_id (rc_prefix c) (V (redis_ack c R now i s)) (Z (redis_ack c R now i s)) j"
    "V (redis_ack c R now i s) (dlqMessageKey (rc_prefix c) d) = V s (dlqMessageKey (rc_prefix c) d)"
    "Z (redis_ack c R now i s) (dlqIndexKey (rc_prefix c) r) = Z s (dlqIndexKey (rc_prefix c) r)"
proof -
  let ?p = "rc_prefix c" and ?s' = "redis_ack c R now i s"
  obtain s1 where s1: "?s' = cmd_del R (messageKey ?p i) s1" "V s1 = V s"
    "Z s1 = Z s \<or> (\<exists>b. Z s1 = (Z s)(indexKey ?p b := (Z s (indexKey ?p b))(i := None)))"
  proof (cases "cmd_get R now (messageKey ?p i) s")
    case None
    with that [of s] show ?thesis by (simp add: redis_ack_def)
  next
    case (Some j)
    let ?b = "entry_box (parse_entry j)"
    from Some show ?thesis
      using cmd_zset_eqs(3,4) [OF R redis_inv_index(1) [OF inv, of ?b], of i]
      by (intro that [of "cmd_zrem R (indexKey ?p ?b) i s"]) (auto simp: redis_ack_def Let_def)
  qed
  have v: "V ?s' = (V s)(messageKey ?p i := None)" by (simp add: s1 cmd_del_eqs [OF R])
  have z: "Z ?s' (indexKey ?p b) j = Z s (indexKey ?p b) j \<or> j = i \<and> Z ?s' (indexKey ?p b) j = None" for b j
    using s1(3) by (auto simp: s1(1) cmd_del_eqs [OF R] split: if_splits)
  show "redis_inv ?p (V ?s') (Z ?s') now"
    unfolding redis_inv_def
  proof (intro conjI allI impI)
    fix k j e assume "V ?s' (messageKey ?p k) = Some (j, e)"
    then have a: "V s (messageKey ?p k) = Some (j, e)" "k \<noteq> i" by (auto simp: v split: if_splits)
    show "e_id (parse_entry j) = k" "e_expires_at (parse_entry j) = e" "e \<noteq> Some 0" "e_consumer (parse_entry j) \<noteq> None"
      using redis_invD(1-4) [OF inv a(1)] .
    show "Z ?s' (indexKey ?p (entry_box (parse_entry j))) k = Some (e_created_at (parse_entry j))" if "unexpired now (parse_entry j)"
      using redis_invD(5) [OF inv a(1) that] z a(2) by metis
    show "b = entry_box (parse_entry j)" if "Z ?s' (indexKey ?p b) k \<noteq> None" for b
      using redis_invD(6) [OF inv a(1)] that z a(2) by metis
  qed (use redis_inv_index [OF inv] in \<open>simp_all add: v\<close>)
  show "live_entry ?p (V ?s') now y \<longleftrightarrow> live_entry ?p (V s) now y \<and> e_id y \<noteq> i"
    by (auto simp: live_entry_def v)
  show "fresh_id ?p (V s) (Z s) j \<Longrightarrow> fresh_id ?p (V ?s') (Z ?s') j"
    using z unfolding fresh_id_def v by (metis fun_upd_apply)
  show "V ?s' (dlqMessageKey ?p d) = V s (dlqMessageKey ?p d)" by (simp add: v)
  show "Z ?s' (dlqIndexKey ?p r) = Z s (dlqIndexKey ?p r)"
    using s1(3) by (auto simp: s1(1) cmd_del_eqs [OF R])
qed

lemma redis_deadLetter_spec:
  assumes R: "redis_server R V Z" and inv: "redis_inv (rc_prefix c) (V s) (Z s) now"
    and d: "redis_deadLetter c R now i why s = (res, s')"
  shows "redis_inv (rc_prefix c) (V s') (Z s') now"
    "live_entry (rc_prefix c) (V s') now y \<longleftrightarrow> live_entry (rc_prefix c) (V s) now y \<and> e_id y \<noteq> i"
    "fresh_id (rc_prefix c) (V s) (Z s) j \<Longrightarrow> fresh_id (rc_prefix c) (V s') (Z s') j"
    "res = (if \<exists>y. live_entry (rc_prefix c) (V s) now y \<and> e_id y = i then Some i else None)"
    "live_entry (rc_prefix c) (V s) now x \<Longrightarrow> e_id x = i \<Longrightarrow>
       \<exists>j. live_value (V s) now (messageKey (rc_prefix c) i) = Some j \<and> parse_entry j = x
         \<and> V s' (dlqMessageKey (rc_prefix c) i) = Some (json_of (dlq_object now why (json_parse j)), None)
         \<and> Z s' (dlqIndexKey (rc_prefix c) (e_realm x)) i = Some now"
proof -
  let ?p = "rc_prefix c"
  have *: "redis_inv ?p (V s') (Z s') now \<and> (live_entry ?p (V s') now y \<longleftrightarrow> live_entry ?p (V s) now y \<and> e_id y \<noteq> i)
    \<and> (fresh_id ?p (V s) (Z s) j \<longrightarrow> fresh_id ?p (V s') (Z s') j)
    \<and> res = (if \<exists>y. live_entry ?p (V s) now y \<and> e_id y = i then Some i else None)
    \<and> (live_entry ?p (V s) now x \<and> e_id x = i \<longrightarrow> (\<exists>j. live_value (V s) now (messageKey ?p i) = Some j \<and> parse_entry j = x
         \<and> V s' (dlqMessageKey ?p i) = Some (json_of (dlq_object now why (json_parse j)), None)
         \<and> Z s' (dlqIndexKey ?p (e_realm x)) i = Some now))" for y j x
  proof (cases "live_value (V s) now (messageKey ?p i)")
    case None
    then have "\<not> live_entry ?p (V s) now y" if "e_id y = i" for y
      using live_value_entry(2) [OF inv, of now y] that by auto
    with None d inv show ?thesis by (auto simp: redis_deadLetter_def cmd_get_eq [OF R])
  next
    case (Some k)
    let ?s1 = "cmd_set R (dlqMessageKey ?p i) (json_of (dlq_object now why (json_parse k))) s"
    let ?s2 = "cmd_zadd R (dlqIndexKey ?p (e_realm (parse_entry k))) now i ?s1"
    have res: "res = Some i" "s' = redis_ack c R now i ?s2"
      using d Some by (simp_all add: redis_deadLetter_def cmd_get_eq [OF R] Let_def)
    have live: "live_entry ?p (V s) now (parse_entry k)" "e_id (parse_entry k) = i"
      using live_value_entry(1) [OF inv Some] by auto
    have none: "V ?s1 (dlqIndexKey ?p (e_realm (parse_entry k))) = None"
      using redis_inv_index(2) [OF inv] by (simp add: cmd_set_eqs [OF R])
    note vz = cmd_zset_eqs(1,2) [OF R none] cmd_set_eqs [OF R]
    have inv2: "redis_inv ?p (V ?s2) (Z ?s2) now"
      by (rule redis_inv_cong [OF inv]) (simp_all add: vz redis_inv_index [OF inv])
    have l2: "live_entry ?p (V ?s2) now y \<longleftrightarrow> live_entry ?p (V s) now y" for y
      by (simp add: live_entry_def vz)
    have f2: "fresh_id ?p (V s) (Z s) j \<Longrightarrow> fresh_id ?p (V ?s2) (Z ?s2) j" for j
      by (simp add: fresh_id_def vz)
    note ack = redis_ack_spec [OF R inv2]
    have "x = parse_entry k" if "live_entry ?p (V s) now x" "e_id x = i" for x
      using live_entry_unique [OF that(1) live(1)] that(2) live(2) by simp
    with Some have dead: "live_entry ?p (V s) now x \<and> e_id x = i \<longrightarrow> (\<exists>j. live_value (V s) now (messageKey ?p i) = Some j \<and> parse_entry j = x
         \<and> V s' (dlqMessageKey ?p i) = Some (json_of (dlq_object now why (json_parse j)), None)
         \<and> Z s' (dlqIndexKey ?p (e_realm x)) i = Some now)" for x
      unfolding res(2) ack(4,5) by (auto simp: vz)
    show ?thesis
    proof (intro conjI)
      show "redis_inv ?p (V s') (Z s') now" unfolding res(2) by (rule ack(1))
      show "live_entry ?p (V s') now y = (live_entry ?p (V s) now y \<and> e_id y \<noteq> i)" unfolding res(2) ack(2) l2 ..
      show "fresh_id ?p (V s) (Z s) j \<longrightarrow> fresh_id ?p (V s') (Z s') j" unfolding res(2) using ack(3) f2 by blast
      show "res = (if \<exists>y. live_entry ?p (V s) now y \<and> e_id y = i then Some i else None)" using live res(1) by auto
    qed (rule dead)
  qed
  show "redis_inv ?p (V s') (Z s') now" "live_entry ?p (V s') now y \<longleftrightarrow> live_entry ?p (V s) now y \<and> e_id y \<noteq> i"
    "fresh_id ?p (V s) (Z s) j \<Longrightarrow> fresh_id ?p (V s') (Z s') j"
    "res = (if \<exists>y. live_entry ?p (V s) now y \<and> e_id y = i then Some i else None)"
    using * by blast+
  show "live_entry ?p (V s) now x \<Longrightarrow> e_id x = i \<Longrightarrow> \<exists>j. live_value (V s) now (messageKey ?p i) = Some j \<and> parse_entry j = x
         \<and> V s' (dlqMessageKey ?p i) = Some (json_of (dlq_object now why (json_parse j)), None)
         \<and> Z s' (dlqIndexKey ?p (e_realm x)) i = Some now"
    using * by blast
qed

section \<open>Against the memory store\<close>

text \<open>A call at a time; only the acknowledgement has none of its own.\<close>

fun op_at :: "int \<Rightarrow> store_op \<Rightarrow> bool" where
  "op_at t (OpEnqueue now gen r e m) = (now = t)"
| "op_at t (OpDequeue now r e co) = (now = t)"
| "op_at t (OpAck i) = True"
| "op_at t (OpDeadLetter now i why) = (now = t)"

text \<open>Redis takes the expiry only as an integer.\<close>

fun op_integral :: "redis_conf \<Rightarrow> store_op \<Rightarrow> bool" where
  "op_integral c (OpEnqueue now gen r e m) = (case redis_expiresAt c now m of None \<Rightarrow> True | Some t \<Rightarrow> t = of_int \<lfloor>t\<rfloor>)"
| "op_integral c _ = True"

fun redis_step :: "redis_conf \<Rightarrow> 'r redis \<Rightarrow> int \<Rightarrow> store_op \<Rightarrow> 'r \<Rightarrow> store_out \<times> 'r" where
  "redis_step c R t (OpEnqueue now gen r e m) s =
     (let (res, s') = redis_enqueue c R now gen r e m s
      in (OutEnqueued (case res of None \<Rightarrow> Inl Unbindable | Some i \<Rightarrow> Inr i), s'))"
| "redis_step c R t (OpDequeue now r e co) s = map_prod OutEntries id (redis_dequeue c R now r e co s)"
| "redis_step c R t (OpAck i) s = (OutAcked, redis_ack c R t i s)"
| "redis_step c R t (OpDeadLetter now i why) s = map_prod OutDead id (redis_deadLetter c R now i why s)"

fun redis_run :: "redis_conf \<Rightarrow> 'r redis \<Rightarrow> (int \<times> store_op) list \<Rightarrow> 'r \<Rightarrow> store_out list" where
  "redis_run c R [] s = []"
| "redis_run c R ((t, p) # ps) s = (let (out, s') = redis_step c R t p s in out # redis_run c R ps s')"

text \<open>
  The answer of the memory store and that of Redis: the same entries, those of Redis sorted; a message
  past its expiry that the memory store still finds to dead-letter is gone in Redis.
\<close>

fun same_answer :: "store_out \<Rightarrow> store_out \<Rightarrow> bool" where
  "same_answer (OutEntries xs) (OutEntries ys) = (mset ys = mset (map norm_consumer xs) \<and> sorted_wrt entry_before ys)"
| "same_answer (OutDead a) (OutDead b) = (b = a \<or> b = None)"
| "same_answer a b = (a = b)"

definition redis_mirrors :: "redis_conf \<Rightarrow> memory_store \<Rightarrow> values_view \<Rightarrow> sets_view \<Rightarrow> int \<Rightarrow> bool" where
  "redis_mirrors c m v z t \<longleftrightarrow> redis_inv (rc_prefix c) v z t \<and> memory_invar m \<and> defaultTtl m = rc_defaultTtl c
     \<and> distinct (map e_id (messages m))
     \<and> {x \<in> norm_consumer ` set (messages m). unexpired t x} = {x. live_entry (rc_prefix c) v t x}"

lemma live_entry_later: "t \<le> now \<Longrightarrow> live_entry p v now x \<longleftrightarrow> live_entry p v t x \<and> unexpired now x"
  using unexpired_later by (auto simp: live_entry_def)

lemma redis_mirrorsI:
  assumes "redis_inv (rc_prefix c) v' z' now" "memory_invar m'" "defaultTtl m' = rc_defaultTtl c" "distinct (map e_id (messages m'))"
    "{x \<in> norm_consumer ` set (messages m). unexpired now x} = {x. live_entry (rc_prefix c) v now x}"
    "\<And>x. x \<in> set (messages m') \<and> unexpired now x \<longleftrightarrow> x \<in> set (messages m) \<and> unexpired now x \<and> keep (e_id x)"
    "\<And>x. live_entry (rc_prefix c) v' now x \<longleftrightarrow> live_entry (rc_prefix c) v now x \<and> keep (e_id x)"
  shows "redis_mirrors c m' v' z' now"
proof -
  have "{x \<in> norm_consumer ` set (messages m'). unexpired now x}
      = {x \<in> {x \<in> norm_consumer ` set (messages m). unexpired now x}. keep (e_id x)}"
    using assms(6) by (fastforce simp: image_iff)
  with assms show ?thesis by (simp add: redis_mirrors_def)
qed

lemma redis_mirrors_later:
  assumes "redis_mirrors c m v z t" "t \<le> now" shows "redis_mirrors c m v z now"
proof -
  have "{x \<in> norm_consumer ` set (messages m). unexpired now x} = {x \<in> norm_consumer ` set (messages m). unexpired t x} \<inter> {x. unexpired now x}"
    using unexpired_later [OF _ assms(2)] by blast
  also have "\<dots> = {x. live_entry (rc_prefix c) v now x}"
    using assms(1) live_entry_later [OF assms(2)] by (auto simp: redis_mirrors_def)
  finally show ?thesis using assms redis_inv_later by (auto simp: redis_mirrors_def)
qed

lemma redis_stored_message: "json_clean (message_payload m) \<Longrightarrow> redis_stored (redis_message c now gen r e m)"
  by (simp add: redis_stored_def redis_message_def)

text \<open>The memory store after a call, as a set of entries.\<close>

lemma norm_unexpired: "{x \<in> norm_consumer ` set (filter P xs). unexpired t x} = norm_consumer ` {x \<in> set xs. P x \<and> unexpired t x}"
  by auto

lemma mirrors_step:
  assumes R: "redis_server R V Z" and mir: "redis_mirrors c m (V s) (Z s) t" and now: "t \<le> now"
    and p: "op_at now p" "op_clean p" "op_clock_ok p" "op_integral c p"
    and fresh: "\<And>i. op_new_id p = Some i \<Longrightarrow> fresh_id (rc_prefix c) (V s) (Z s) i \<and> i \<notin> e_id ` set (messages m)"
    and red: "redis_step c R now p s = (out, s')"
  shows "same_answer (fst (memory_step p m)) out"
    "redis_mirrors c (snd (memory_step p m)) (V s') (Z s') now"
    "fresh_id (rc_prefix c) (V s) (Z s) j \<Longrightarrow> op_new_id p \<noteq> Some j \<Longrightarrow> fresh_id (rc_prefix c) (V s') (Z s') j"
    "e_id ` set (messages (snd (memory_step p m))) \<subseteq> e_id ` set (messages m) \<union> set_option (op_new_id p)"
proof -
  let ?p = "rc_prefix c"
  have mir': "redis_mirrors c m (V s) (Z s) now" by (rule redis_mirrors_later [OF mir now])
  then have inv: "redis_inv ?p (V s) (Z s) now" and minv: "memory_invar m" and ttl: "defaultTtl m = rc_defaultTtl c"
    and dist: "distinct (map e_id (messages m))"
    and same: "{x \<in> norm_consumer ` set (messages m). unexpired now x} = {x. live_entry ?p (V s) now x}"
    by (simp_all add: redis_mirrors_def)
  have "same_answer (fst (memory_step p m)) out \<and> redis_mirrors c (snd (memory_step p m)) (V s') (Z s') now
    \<and> (fresh_id ?p (V s) (Z s) j \<longrightarrow> op_new_id p \<noteq> Some j \<longrightarrow> fresh_id ?p (V s') (Z s') j)
    \<and> e_id ` set (messages (snd (memory_step p m))) \<subseteq> e_id ` set (messages m) \<union> set_option (op_new_id p)" for j
  proof (cases p)
    case (OpEnqueue n gen r e msg)
    with p have n: "n = now" and clean: "json_clean (message_payload msg)" and pos: "0 < now"
      and int: "op_integral c (OpEnqueue now gen r e msg)" by auto
    let ?x = "redis_message c now gen r e msg"
    have id: "e_id ?x = str_or (m_id msg) gen" by (simp add: redis_message_def)
    have f: "fresh_id ?p (V s) (Z s) (e_id ?x)" "e_id ?x \<notin> e_id ` set (messages m)"
      using fresh OpEnqueue id by simp_all
    obtain res where enq: "redis_enqueue c R now gen r e msg s = (res, s')"
      and out: "out = OutEnqueued (case res of None \<Rightarrow> Inl Unbindable | Some i \<Rightarrow> Inr i)"
      using red OpEnqueue n by (auto simp: Let_def split: prod.splits)
    have ex: "e_expires_at ?x \<noteq> Some 0" "\<And>t. e_expires_at ?x = Some t \<Longrightarrow> t \<in> \<int>"
      using expires_at_pos [OF pos] int by (auto simp: redis_message_def redis_expiresAt_def) (metis Ints_of_int)
    note e = redis_enqueue_spec [OF R inv refl redis_stored_message [OF clean] f(1) ex enq]
    obtain y where y: "messages (snd (memory_enqueue now gen r e msg m)) = filter (unexpired now) (messages m) @ [y]"
      "norm_consumer y = ?x" "fst (memory_enqueue now gen r e msg m) = Inr (e_id ?x)"
      using memory_keeps_unexpired [OF minv, of now]
      by (simp add: memory_defs redis_message_def redis_expiresAt_def norm_consumer_def str_or_def ttl)
    have eid: "e_id y = e_id ?x" using arg_cong [OF y(2), of e_id] by simp
    have "{x \<in> norm_consumer ` set (filter (unexpired now) (messages m) @ [y]). unexpired now x}
        = {x \<in> norm_consumer ` set (messages m). unexpired now x} \<union> {x. x = ?x \<and> unexpired now ?x}"
      using y(2) by auto
    also have "\<dots> = {x. live_entry ?p (V s') now x}" unfolding same using e(3) by auto
    finally have live: "{x \<in> norm_consumer ` set (filter (unexpired now) (messages m) @ [y]). unexpired now x}
        = {x. live_entry ?p (V s') now x}" .
    have "distinct (map e_id (filter (unexpired now) (messages m) @ [y]))"
      using dist f(2) by (auto simp: eid distinct_map_filter)
    moreover have "defaultTtl (snd (memory_enqueue now gen r e msg m)) = rc_defaultTtl c"
      by (simp add: memory_defs ttl)
    ultimately have "redis_mirrors c (snd (memory_enqueue now gen r e msg m)) (V s') (Z s') now"
      using live e(2) mem.invar_enqueue [OF minv pos] by (simp add: redis_mirrors_def y(1))
    with e(1,4) y eid id show ?thesis by (auto simp: OpEnqueue n out)
  next
    case (OpDequeue n r e co)
    with p have n: "n = now" by simp
    obtain xs where deq: "redis_dequeue c R now r e co s = (xs, s')" and out: "out = OutEntries xs"
      using red OpDequeue n by (cases "redis_dequeue c R now r e co s") auto
    note d = redis_dequeue_spec [OF R inv order_refl deq]
    let ?M = "fst (memory_dequeue now r e co m)"
    have M: "?M = filter (\<lambda>x. entry_box x = box_of r e co) (filter (unexpired now) (messages m))"
      by (rule mem.dequeue_result [OF minv])
    have "set xs = {x \<in> {x \<in> norm_consumer ` set (messages m). unexpired now x}. entry_box x = box_of r e co}"
      unfolding d(1) same by blast
    also have "\<dots> = set (map norm_consumer ?M)" unfolding M by auto
    finally have "set xs = set (map norm_consumer ?M)" .
    moreover have "distinct xs" using d(2) by (rule distinct_map [THEN iffD1, THEN conjunct1])
    moreover have "distinct (map e_id (map norm_consumer ?M))"
      unfolding M using dist by (simp add: comp_def distinct_map_filter)
    then have "distinct (map norm_consumer ?M)" by (rule distinct_map [THEN iffD1, THEN conjunct1])
    ultimately have "mset xs = mset (map norm_consumer ?M)" using set_eq_iff_mset_eq_distinct by blast
    moreover have "redis_mirrors c (snd (memory_dequeue now r e co m)) (V s') (Z s') now"
    proof (rule redis_mirrorsI [OF d(5) mem.invar_dequeue [OF minv] _ _ same])
      show "defaultTtl (snd (memory_dequeue now r e co m)) = rc_defaultTtl c" by (simp add: memory_defs ttl)
    qed (use d(4) in \<open>auto simp: mem.dequeue_queue [OF minv] distinct_map_filter dist\<close>)
    moreover have "fresh_id ?p (V s) (Z s) j \<longrightarrow> fresh_id ?p (V s') (Z s') j"
      using d(6) unfolding fresh_id_def d(4) by blast
    moreover have "e_id ` set (messages (snd (memory_dequeue now r e co m))) \<subseteq> e_id ` set (messages m)"
      by (auto simp: mem.dequeue_queue [OF minv])
    ultimately show ?thesis using d(3) by (simp add: OpDequeue n out)
  next
    case (OpAck i)
    have s': "out = OutAcked" "s' = redis_ack c R now i s" using red OpAck by auto
    note a = redis_ack_spec [OF R inv, where i = i]
    have "redis_mirrors c (memory_ack i m) (V s') (Z s') now"
      unfolding s' by (rule redis_mirrorsI [OF a(1) mem.invar_ack [OF minv] _ _ same])
        (auto simp: memory_ack_def ttl dist distinct_map_filter a(2))
    with a(3) show ?thesis by (auto simp: OpAck s' memory_ack_def)
  next
    case (OpDeadLetter n i why)
    with p have n: "n = now" by simp
    obtain res where dl: "redis_deadLetter c R now i why s = (res, s')" and out: "out = OutDead res"
      using red OpDeadLetter n by (cases "redis_deadLetter c R now i why s") auto
    note d = redis_deadLetter_spec [OF R inv dl]
    have "redis_mirrors c (snd (memory_deadLetter now i why m)) (V s') (Z s') now"
    proof (rule redis_mirrorsI [OF d(1) mem.invar_deadLetter [OF minv] _ _ same])
      show "defaultTtl (snd (memory_deadLetter now i why m)) = rc_defaultTtl c"
        by (simp add: memory_deadLetter_def Let_def ttl split: option.split)
    qed (auto simp: dist distinct_map_filter d(2))
    moreover have "res = fst (memory_deadLetter now i why m) \<or> res = None"
    proof (cases "res = None")
      case False
      then have res: "res = Some i" "\<exists>y. live_entry ?p (V s) now y \<and> e_id y = i" using d(4) by presburger+
      from res(2) obtain y where y: "live_entry ?p (V s) now y" "e_id y = i" by blast
      from y(1) have "y \<in> {x \<in> norm_consumer ` set (messages m). unexpired now x}" unfolding same by blast
      then obtain w where "w \<in> set (messages m)" "y = norm_consumer w" by blast
      with y(2) have "\<exists>w \<in> set (messages m). e_id w = i" by auto
      then have "fst (memory_deadLetter now i why m) = Some i" by (rule mem.deadLetter_found [OF minv, THEN iffD2])
      then show ?thesis unfolding res(1) by metis
    qed simp
    moreover have "e_id ` set (messages (snd (memory_deadLetter now i why m))) \<subseteq> e_id ` set (messages m)" by auto
    moreover have "fresh_id ?p (V s) (Z s) j \<longrightarrow> fresh_id ?p (V s') (Z s') j" using d(3) by blast
    ultimately show ?thesis
      unfolding OpDeadLetter n out by (simp del: memory_deadLetter_result memory_deadLetter_messages)
  qed
  then show "same_answer (fst (memory_step p m)) out" "redis_mirrors c (snd (memory_step p m)) (V s') (Z s') now"
    "fresh_id ?p (V s) (Z s) j \<Longrightarrow> op_new_id p \<noteq> Some j \<Longrightarrow> fresh_id ?p (V s') (Z s') j"
    "e_id ` set (messages (snd (memory_step p m))) \<subseteq> e_id ` set (messages m) \<union> set_option (op_new_id p)"
    by blast+
qed

lemma mirrors_run:
  assumes R: "redis_server R V Z"
  shows "redis_mirrors c m (V s) (Z s) t \<Longrightarrow> sorted (map fst tps) \<Longrightarrow> \<forall>(u, p) \<in> set tps. t \<le> u \<Longrightarrow>
    \<forall>(u, p) \<in> set tps. op_at u p \<and> op_clean p \<and> op_clock_ok p \<and> op_integral c p \<Longrightarrow> distinct (new_ids (map snd tps)) \<Longrightarrow>
    \<forall>i \<in> set (new_ids (map snd tps)). fresh_id (rc_prefix c) (V s) (Z s) i \<and> i \<notin> e_id ` set (messages m) \<Longrightarrow>
    list_all2 same_answer (fst (store_run memory_step (map snd tps) m)) (redis_run c R tps s)"
proof (induction tps arbitrary: m s t)
  case (Cons tp tps)
  obtain u p where tp: "tp = (u, p)" by (cases tp)
  obtain out s' where red: "redis_step c R u p s = (out, s')" by (metis prod.exhaust)
  have ids: "new_ids (map snd (tp # tps)) = (case op_new_id p of None \<Rightarrow> [] | Some i \<Rightarrow> [i]) @ new_ids (map snd tps)"
    by (simp add: tp new_ids_def map_filter_simps split: option.split)
  have fresh: "fresh_id (rc_prefix c) (V s) (Z s) i \<and> i \<notin> e_id ` set (messages m)" if "op_new_id p = Some i" for i
    using Cons.prems(6) that unfolding ids by simp
  have le: "t \<le> u" and p: "op_at u p" "op_clean p" "op_clock_ok p" "op_integral c p"
    using Cons.prems(3,4) by (auto simp: tp)
  note st = mirrors_step [OF R Cons.prems(1) le p fresh red]
  have "fresh_id (rc_prefix c) (V s') (Z s') i \<and> i \<notin> e_id ` set (messages (snd (memory_step p m)))"
    if "i \<in> set (new_ids (map snd tps))" for i
  proof -
    have "op_new_id p \<noteq> Some i" using Cons.prems(5) that unfolding ids by auto
    moreover have "fresh_id (rc_prefix c) (V s) (Z s) i" "i \<notin> e_id ` set (messages m)"
      using Cons.prems(6) that unfolding ids by auto
    ultimately show ?thesis using st(3,4) by auto
  qed
  moreover have "\<forall>(w, q) \<in> set tps. u \<le> w" using Cons.prems(2) by (auto simp: tp)
  moreover have "distinct (new_ids (map snd tps))" using Cons.prems(5) unfolding ids by simp
  ultimately have "list_all2 same_answer (fst (store_run memory_step (map snd tps) (snd (memory_step p m)))) (redis_run c R tps s')"
    using Cons.prems(2,4) by (intro Cons.IH [OF st(2)]) auto
  with st(1) show ?case by (simp add: tp red Let_def split_beta)
qed simp


section \<open>A reference server\<close>

lemma text_less_total: "i \<noteq> j \<Longrightarrow> text_less i j \<or> text_less j i"
proof (induction i j rule: text_less.induct)
  case (1 s)
  then show ?case by (cases s) auto
next
  case (3 c s d t)
  have "(of_char c :: nat) < of_char d \<or> (of_char d :: nat) < of_char c \<or> c = d"
    using linorder_less_linear [of "of_char c :: nat" "of_char d"] of_char_inj [of c d] by blast
  with 3 show ?case by auto
qed simp

lemma text_less_trans: "text_less i j \<Longrightarrow> text_less j k \<Longrightarrow> text_less i k"
proof (induction i j arbitrary: k rule: text_less.induct)
  case (2 d t)
  then show ?case by (cases k) auto
next
  case (3 c s d t)
  then show ?case by (cases k) auto
qed simp

lemma by_score_total: "i \<noteq> j \<Longrightarrow> by_score z i j \<or> by_score z j i"
  unfolding by_score_def using text_less_total by fastforce

lemma by_score_trans: "by_score z i j \<Longrightarrow> by_score z j k \<Longrightarrow> by_score z i k"
  unfolding by_score_def using text_less_trans by fastforce

fun score_insert :: "(string \<Rightarrow> int option) \<Rightarrow> string \<Rightarrow> string list \<Rightarrow> string list" where
  "score_insert z i [] = [i]"
| "score_insert z i (j # js) = (if by_score z i j then i # j # js else j # score_insert z i js)"

definition score_sort :: "(string \<times> int) list \<Rightarrow> string list" where
  "score_sort l = foldr (score_insert (map_of l)) (remdups (map fst l)) []"

lemma score_insert_set: "set (score_insert z i js) = insert i (set js)"
  by (induction js) auto

lemma score_insert_distinct: "distinct js \<Longrightarrow> i \<notin> set js \<Longrightarrow> distinct (score_insert z i js)"
  by (induction js) (auto simp: score_insert_set)

lemma score_insert_sorted: "sorted_wrt (by_score z) js \<Longrightarrow> i \<notin> set js \<Longrightarrow> sorted_wrt (by_score z) (score_insert z i js)"
proof (induction js)
  case (Cons j js)
  show ?case
  proof (cases "by_score z i j")
    case True
    with Cons.prems by_score_trans show ?thesis by auto
  next
    case False
    with Cons.prems by_score_total have "by_score z j i" by auto
    with Cons False show ?thesis by (auto simp: score_insert_set)
  qed
qed simp

lemma score_foldr: "distinct xs \<Longrightarrow> set (foldr (score_insert z) xs []) = set xs \<and> distinct (foldr (score_insert z) xs [])
    \<and> sorted_wrt (by_score z) (foldr (score_insert z) xs [])"
  by (induction xs) (auto simp: score_insert_set score_insert_distinct score_insert_sorted)

text \<open>Values and sorted sets as functions of the key; a sorted set is a list of members with scores.\<close>

type_synonym key_space = "values_view \<times> (string \<Rightarrow> (string \<times> int) list)"

definition reference_redis :: "key_space redis" where
  "reference_redis = \<lparr>
     cmd_set = (\<lambda>k j s. ((fst s)(k := Some (j, None)), (snd s)(k := []))),
     cmd_get = (\<lambda>now k s. live_value (fst s) now k),
     cmd_del = (\<lambda>k s. ((fst s)(k := None), (snd s)(k := []))),
     cmd_pexpireat = (\<lambda>k t s. if t = of_int \<lfloor>t\<rfloor> then Some ((fst s)(k := map_option (\<lambda>(j, e). (j, Some t)) (fst s k)), snd s) else None),
     cmd_zadd = (\<lambda>k sc i s. (fst s, (snd s)(k := jset i sc (snd s k)))),
     cmd_zrem = (\<lambda>k i s. (fst s, (snd s)(k := jdel i (snd s k)))),
     cmd_zrange = (\<lambda>k s. score_sort (snd s k)),
     cmd_zcard = (\<lambda>k s. length (score_sort (snd s k))),
     cmd_scan = (\<lambda>cur pat s. (0, []))\<rparr>"

lemma reference_redis_server: "redis_server reference_redis fst (\<lambda>s k. map_of (snd s k))"
proof -
  have sort: "set (score_sort l) = {i. map_of l i \<noteq> None}" "distinct (score_sort l)"
    "sorted_wrt (by_score (map_of l)) (score_sort l)" for l
    using score_foldr [of "remdups (map fst l)" "map_of l"] by (auto simp: score_sort_def map_of_eq_None_iff)
  have int: "t \<in> \<int> \<longleftrightarrow> t = of_int \<lfloor>t\<rfloor>" for t :: rat by (metis Ints_cases Ints_of_int floor_of_int)
  show ?thesis
    unfolding redis_server_def reference_redis_def
    using sort by (simp add: int live_value_def fun_eq_iff update_conv' delete_conv')
qed


section \<open>Dead letters, counts, removal of a realm\<close>

lemma json_clean_parse: "json_clean (json_parse j)"
  by (induction j) (auto simp: list_all_iff)

lemma json_of_clean: "json_clean v \<Longrightarrow> json_parse (json_of v) = v"
  using json_roundtrip [of v] by (auto simp: json_of_def)

lemma dlq_object_parsed: "json_parse (json_of (dlq_object now why (json_parse j))) = dlq_object now why (json_parse j)"
proof (rule json_of_clean)
  have clean: "\<forall>kv \<in> set (obj_fields (json_parse j)). json_clean (snd kv)"
    using json_clean_parse [of j] by (cases "json_parse j") (auto simp: list_all_iff)
  have set: "\<forall>kv \<in> set (jset k v m). json_clean (snd kv)" if "json_clean v" "\<forall>kv \<in> set m. json_clean (snd kv)" for k v and m :: "(string, jsval) jsmap"
    using set_jset_subset [of k v m] that by auto
  have "json_clean (opt_str p)" for p by (simp add: opt_str_def split: option.split)
  then have "\<forall>kv \<in> set (jset ''dead_lettered_at'' (JNum (Fin (of_int now))) (jset ''reason'' (opt_str (opt_or why None)) (obj_fields (json_parse j)))).
      json_clean (snd kv)" by (intro set clean) simp
  then show "json_clean (dlq_object now why (json_parse j))"
    by (simp add: dlq_object_def list_all_iff)
qed

lemma obj_get_fields: "obj_get (JObj (obj_fields ob)) k = obj_get ob k"
  by (cases ob) auto

lemma parse_dlq_object:
  "parse_dlq (json_of (dlq_object now why (json_parse j))) = entry.extend (parse_entry j) \<lparr>d_reason = opt_or why None, d_at = now\<rparr>"
proof -
  have get: "obj_get (dlq_object now why ob) k = (if k = ''dead_lettered_at'' then JNum (Fin (of_int now))
      else if k = ''reason'' then opt_str (opt_or why None) else obj_get ob k)" for ob k
    using obj_get_fields [of ob k] by (simp add: dlq_object_def)
  have "parse_entry (json_of (dlq_object now why (json_parse j))) = parse_entry j"
    by (simp add: parse_entry_def dlq_object_parsed object_entry_def str_field_def num_field_def get)
  then show ?thesis
    by (simp add: parse_dlq_def dlq_object_parsed str_field_def num_field_def get opt_str_def opt_or_def split: option.split)
qed

lemma collect_dlq_in:
  assumes R: "redis_server R V Z"
  shows "i \<in> set is \<Longrightarrow> V s (dlqMessageKey (rc_prefix c) i) = Some (j, None) \<Longrightarrow> V s dk = None \<Longrightarrow>
    parse_dlq j \<in> set (fst (collect_dlq c R now dk is s))"
proof (induction "is" arbitrary: s)
  case (Cons k "is")
  have zrem: "V (cmd_zrem R dk k s) = V s" by (rule cmd_zset_eqs(3) [OF R Cons.prems(3)])
  show ?case
  proof (cases "k = i")
    case True
    with Cons.prems(2) show ?thesis by (simp add: cmd_get_eq [OF R] live_value_def Let_def split_beta)
  next
    case False
    with Cons.prems have "i \<in> set is" by simp
    with Cons.IH [of s] Cons.IH [of "cmd_zrem R dk k s"] Cons.prems zrem show ?thesis
      by (auto simp: Let_def split_beta split: option.split)
  qed
qed simp

text \<open>A dead-lettered message is on the dead-letter queue of its realm, as it was, with the reason.\<close>

lemma redis_dead_listed:
  assumes R: "redis_server R V Z" and inv: "redis_inv (rc_prefix c) (V s) (Z s) now"
    and x: "live_entry (rc_prefix c) (V s) now x"
  shows "entry.extend x \<lparr>d_reason = opt_or why None, d_at = now\<rparr>
    \<in> set (fst (redis_listDlq c R later (Some (e_realm x)) (snd (redis_deadLetter c R now (e_id x) why s))))"
proof -
  let ?p = "rc_prefix c" and ?i = "e_id x"
  obtain res s' where d: "redis_deadLetter c R now ?i why s = (res, s')" by (metis prod.exhaust)
  note dl = redis_deadLetter_spec [OF R inv d]
  obtain j where j: "parse_entry j = x" "V s' (dlqMessageKey ?p ?i) = Some (json_of (dlq_object now why (json_parse j)), None)"
    "Z s' (dlqIndexKey ?p (e_realm x)) ?i = Some now" using dl(5) [OF x refl] by blast
  have none: "V s' (dlqIndexKey ?p (e_realm x)) = None" by (rule redis_inv_index(2) [OF dl(1)])
  have "?i \<in> set (cmd_zrange R (dlqIndexKey ?p (e_realm x)) s')" using cmd_zrange_eqs(1) [OF R none] j(3) by simp
  from collect_dlq_in [OF R this j(2) none, of later] j(1) show ?thesis
    by (simp add: d redis_listDlq_def Let_def str_or_empty parse_dlq_object)
qed

text \<open>The count of a mailbox never falls short of what a dequeue delivers.\<close>

lemma redis_count_covers:
  assumes R: "redis_server R V Z" and inv: "redis_inv (rc_prefix c) (V s) (Z s) now"
  shows "\<exists>n. redis_countQueued c R (Some r) (Some e) (Some co) s = Some n
    \<and> length (fst (redis_dequeue c R now (Some r) (Some e) (Some co) s)) \<le> n"
proof -
  let ?b = "box_of (Some r) (Some e) (Some co)"
  let ?k = "indexKey (rc_prefix c) ?b"
  obtain xs s' where c: "redis_collect c R now ?k (cmd_zrange R ?k s) s = (xs, s')" by (metis prod.exhaust)
  have "length (map e_id xs) \<le> length (cmd_zrange R ?k s)"
    using redis_collect_spec [OF R inv c] by (metis length_filter_le)
  moreover have "cmd_zcard R ?k s = length (cmd_zrange R ?k s)"
    by (rule cmd_zrange_eqs(4) [OF R redis_inv_index(1) [OF inv]])
  moreover have "?b = (str_or (Some r) ''default'', e, co)" by (simp add: box_of_def str_or_empty)
  ultimately show ?thesis using c by (simp add: redis_countQueued_def redis_dequeue_def Let_def)
qed

text \<open>The SCAN loop ends on a server whose cursors come back to 0, and collects every page.\<close>

lemma scanKeys_step: "scanKeys R pat s cur keys = (case cmd_scan R cur pat s of (nxt, found) \<Rightarrow>
    if nxt = 0 then Some (keys @ found) else scanKeys R pat s nxt (keys @ found))"
  by (subst scanKeys.simps) (simp add: Let_def)

lemma scanKeys_ends:
  assumes "\<And>k. k < n \<Longrightarrow> cmd_scan R (cur k) pat s = (cur (Suc k), page k)" "\<And>k. 0 < k \<Longrightarrow> k < n \<Longrightarrow> cur k \<noteq> 0" "cur n = 0" "m < n"
  shows "scanKeys R pat s (cur m) keys = Some (keys @ concat (map page [m..<n]))"
  using assms(4)
proof (induction "n - m" arbitrary: m keys)
  case (Suc d)
  have step: "cmd_scan R (cur m) pat s = (cur (Suc m), page m)" using assms(1) Suc.prems by blast
  show ?case
  proof (cases "Suc m = n")
    case True
    then have "[m..<n] = [m]" by auto
    with True assms(3) show ?thesis by (subst scanKeys_step) (simp add: step)
  next
    case False
    then have "cur (Suc m) \<noteq> 0" "Suc m < n" using assms(2) [of "Suc m"] Suc.prems by auto
    moreover have "scanKeys R pat s (cur (Suc m)) (keys @ page m) = Some ((keys @ page m) @ concat (map page [Suc m..<n]))"
      using Suc.hyps \<open>Suc m < n\<close> by (intro Suc.hyps(1)) auto
    ultimately show ?thesis
      using Suc.prems by (subst scanKeys_step) (simp add: step upt_conv_Cons)
  qed
qed simp

text \<open>After a purge the indexes the scan found are empty.\<close>

lemma drain_index_clears:
  assumes R: "redis_server R V Z"
  shows "Z (snd (drain_index R f ik q)) ik = (\<lambda>i. None)"
    and "Z (snd q) k = (\<lambda>i. None) \<Longrightarrow> Z (snd (drain_index R f ik q)) k = (\<lambda>i. None)"
proof -
  have "Z s k = (\<lambda>i. None) \<Longrightarrow> Z (fold (\<lambda>i. cmd_del R (f i)) is s) k = (\<lambda>i. None)" for "is" s k
    by (induction "is" arbitrary: s) (simp_all add: cmd_del_eqs [OF R])
  then show "Z (snd (drain_index R f ik q)) ik = (\<lambda>i. None)"
    "Z (snd q) k = (\<lambda>i. None) \<Longrightarrow> Z (snd (drain_index R f ik q)) k = (\<lambda>i. None)"
    by (simp_all add: drain_index_def Let_def cmd_del_eqs [OF R])
qed

lemma redis_purge_empties:
  assumes R: "redis_server R V Z" and p: "redis_purgeRealm c R (Some r) s = Some (n, s')"
    and scan: "scanKeys R (join_with '':'' [rc_prefix c, ''index'', encodeKeyPart r, ''*'']) s 0 [] = Some ks" "indexKey (rc_prefix c) b \<in> set ks"
  shows "Z s' (indexKey (rc_prefix c) b) = (\<lambda>i. None)"
proof -
  let ?k = "indexKey (rc_prefix c) b" and ?d = "drain_index R (messageKey (rc_prefix c))"
  have keep: "Z (snd q) ?k = (\<lambda>i. None) \<Longrightarrow> Z (snd (fold ?d ks q)) ?k = (\<lambda>i. None)" for ks q
    by (induction ks arbitrary: q) (simp_all add: drain_index_clears(2) [OF R])
  have "Z (snd (fold ?d ks q)) ?k = (\<lambda>i. None)" if "?k \<in> set ks" for ks q
    using that
  proof (induction ks arbitrary: q)
    case (Cons k ks)
    then show ?case using keep drain_index_clears(1) [OF R] by (cases "k = ?k") auto
  qed simp
  then have "Z (snd (fold ?d ks (0, s))) ?k = (\<lambda>i. None)" using scan(2) by blast
  moreover have "s' = snd (drain_index R (dlqMessageKey (rc_prefix c)) (dlqIndexKey (rc_prefix c) r) (fold ?d ks (0, s)))"
    using p scan(1) by (simp add: redis_purgeRealm_def Let_def str_or_empty)
  ultimately show ?thesis using drain_index_clears(2) [OF R] by simp
qed

section \<open>Where Redis differs\<close>

text \<open>
  An expiry that is not a whole number of milliseconds is refused by the server, after the value has
  been written: the call fails, and the value stays, in no index and without an expiry.
\<close>

lemma redis_fractional_ttl:
  assumes R: "redis_server R V Z" and x: "x = redis_message c now gen r e m" "e_expires_at x = Some t" "t \<notin> \<int>"
  shows "fst (redis_enqueue c R now gen r e m s) = None
    \<and> V (snd (redis_enqueue c R now gen r e m s)) (messageKey (rc_prefix c) (e_id x)) = Some (json_of (entry_object x), None)
    \<and> (\<forall>b. Z (snd (redis_enqueue c R now gen r e m s)) (indexKey (rc_prefix c) b) = Z s (indexKey (rc_prefix c) b))"
proof -
  have "cmd_pexpireat R k t s' = None" for k s' using R x(3) by (simp add: redis_server_def)
  moreover have "t \<noteq> 0" using x(3) by auto
  ultimately show ?thesis
    using x(2) by (simp add: redis_enqueue_def Let_def x(1) [symmetric] redis_expire_def cmd_set_eqs [OF R])
qed

text \<open>Two messages of one millisecond come in the order of their ids, not of their enqueues.\<close>

lemma redis_same_millisecond:
  assumes R: "redis_server R V Z" and inv: "redis_inv (rc_prefix c) (V s) (Z s) t" and "t \<le> now"
    and d: "redis_dequeue c R now r e co s = (xs, s')" and xs: "xs = ys @ x # zs @ y # ws" "e_created_at x = e_created_at y"
  shows "text_less (e_id x) (e_id y)"
proof -
  have "entry_before x y" using redis_dequeue_spec(3) [OF R inv assms(3) d] unfolding xs(1) by (simp add: sorted_wrt_append)
  with xs(2) show ?thesis by (simp add: entry_before_def)
qed

end
