(* ===== verification/Remote_Sessions.thy ===== *)
theory Remote_Sessions
  imports One_Shot
begin

text \<open>
  The remote-session namespace (\<open>lib/remote-namespace.js\<close>): an agent and its viewers are admitted to a
  session by one-time tickets, and everything they send afterwards is relayed between the two sides by
  a table of rules. Ticket strings are drawn by the caller; base64 decoding is a parameter. The
  overrides of the table are the fields of an object.
\<close>

section \<open>Relay rules\<close>

text \<open>\<open>Disabled\<close> is \<open>{enabled: false}\<close>; the destination is the configured value.\<close>

datatype relay_rule = Disabled | Rule (rr_from: string) (rr_to: jsval) (rr_binary: bool)

definition DEFAULT_RELAY :: "(string, relay_rule option) jsmap" where
  "DEFAULT_RELAY = [
     (''frame'', Some (Rule ''agent'' (JStr ''viewers'') True)),
     (''input.mouse'', Some (Rule ''viewer'' (JStr ''agent'') False)),
     (''input.keyboard'', Some (Rule ''viewer'' (JStr ''agent'') False)),
     (''input.sas'', Some (Rule ''viewer'' (JStr ''agent'') False)),
     (''remote.setmonitor'', Some (Rule ''viewer'' (JStr ''agent'') False)),
     (''rtc.offer'', Some (Rule ''agent'' (JStr ''viewers'') False)),
     (''rtc.answer'', Some (Rule ''viewer'' (JStr ''agent'') False)),
     (''rtc.ready'', Some (Rule ''viewer'' (JStr ''agent'') False)),
     (''rtc.ice'', Some (Rule ''any'' (JStr ''opposite'') False))]"

definition RESERVED_EVENTS :: "string list" where
  "RESERVED_EVENTS = [''auth'', ''auth_ok'', ''auth_error'', ''connect'', ''connect_error'', ''disconnect'',
     ''disconnecting'', ''newListener'', ''removeListener'']"

text \<open>\<open>RESERVED_EVENTS[event]\<close> and \<open>VALID_DESTINATIONS[to]\<close>, which also find the members of every object.\<close>

definition is_reserved :: "string \<Rightarrow> bool" where
  "is_reserved event \<longleftrightarrow> event \<in> set RESERVED_EVENTS \<or> event \<in> set object_members"

definition valid_destination :: "jsval \<Rightarrow> bool" where
  "valid_destination v \<longleftrightarrow> to_string v \<in> {''agent'', ''viewers'', ''opposite''} \<or> to_string v \<in> set object_members"

definition is_object :: "jsval \<Rightarrow> bool" where
  "is_object v \<longleftrightarrow> (case v of JObj _ \<Rightarrow> True | JArr _ \<Rightarrow> True | _ \<Rightarrow> False)"

definition normalizeRelayRule :: "jsval \<Rightarrow> relay_rule option" where
  "normalizeRelayRule rule =
     (if \<not> is_object rule then None
      else if obj_get rule ''enabled'' = JBool False then Some Disabled
      else if \<not> valid_destination (obj_get rule ''to'') then None
      else Some (Rule (if obj_get rule ''from'' = JStr ''agent'' then ''agent''
                       else if obj_get rule ''from'' = JStr ''viewer'' then ''viewer'' else ''any'')
                  (obj_get rule ''to'') (truthy (obj_get rule ''binary''))))"

record relay_config =
  rl_table :: "(string, relay_rule option) jsmap"
  rl_opposite :: bool

definition relay_table :: "jsval \<Rightarrow> (string, relay_rule option) jsmap" where
  "relay_table config = fold (\<lambda>(event, rule) t. if is_reserved event then t else jset event (normalizeRelayRule rule) t)
     (obj_fields (js_or (obj_get config ''relay'') (JObj []))) DEFAULT_RELAY"

definition relay_config_of :: "jsval \<Rightarrow> relay_config" where
  "relay_config_of config =
     (let u1 = obj_get config ''relay_unlisted''; u2 = obj_get config ''relayUnlisted'';
          u = (if u1 \<noteq> JUndef then u1 else if u2 \<noteq> JUndef then u2 else JStr ''opposite'')
      in \<lparr>rl_table = relay_table config, rl_opposite = (u \<noteq> JStr ''off'' \<and> u \<noteq> JBool False)\<rparr>)"

text \<open>\<open>getRelayConfig\<close>: the merged table is kept for a second.\<close>

definition getRelayConfig :: "int \<Rightarrow> jsval \<Rightarrow> (int \<times> relay_config) option \<Rightarrow> relay_config \<times> (int \<times> relay_config) option" where
  "getRelayConfig now config cache =
     (case cache of
        Some (t0, c) \<Rightarrow> if now - t0 < 1000 then (c, cache) else (relay_config_of config, Some (now, relay_config_of config))
      | None \<Rightarrow> (relay_config_of config, Some (now, relay_config_of config)))"

section \<open>Tickets and sessions\<close>

datatype party = Agent | Viewer

fun party_name :: "party \<Rightarrow> string" where
  "party_name Agent = ''agent''"
| "party_name Viewer = ''viewer''"

fun party_room :: "party \<Rightarrow> string" where
  "party_room Agent = ''agent''"
| "party_room Viewer = ''viewers''"

fun opposite :: "party \<Rightarrow> party" where
  "opposite Agent = Viewer"
| "opposite Viewer = Agent"

record remote_ticket =
  rt_session :: string
  rt_realm :: jsval
  rt_machine :: jsval
  rt_role :: party
  rt_expires :: int

record remote_session =
  rs_agent :: "string option"
  rs_viewers :: "string list"

text \<open>A connected socket: \<open>socket.remoteSession\<close> and the rooms it joined.\<close>

record remote_socket =
  sk_session :: "(string \<times> party) option"
  sk_rooms :: "string list"

record remote =
  rm_ttl :: int
  rm_tickets :: "(string, remote_ticket) jsmap"
  rm_sessions :: "(string, remote_session) jsmap"
  rm_sockets :: "(string, remote_socket) jsmap"
  rm_cache :: "(int \<times> relay_config) option"

definition session_room :: "string \<Rightarrow> string \<Rightarrow> string" where
  "session_room sid dest = ''session:'' @ sid @ '':'' @ dest"

text \<open>\<open>None\<close> when it throws.\<close>

definition issueTicket :: "int \<Rightarrow> string \<Rightarrow> jsval \<Rightarrow> remote \<Rightarrow> (string \<times> remote) option" where
  "issueTicket now drawn params s =
     (if \<not> truthy (obj_get params ''session_id'') then None
      else Some (drawn, s\<lparr>rm_tickets := jset drawn
        \<lparr>rt_session = to_string (obj_get params ''session_id''), rt_realm = js_or (obj_get params ''realm'') JNull,
         rt_machine = js_or (obj_get params ''machine_id'') JNull,
         rt_role = (if obj_get params ''role'' = JStr ''viewer'' then Viewer else Agent),
         rt_expires = now + rm_ttl s\<rparr> (rm_tickets s)\<rparr>))"

definition publicSession :: "string \<Rightarrow> remote_session \<Rightarrow> string \<times> bool \<times> nat" where
  "publicSession sid ss = (sid, rs_agent ss \<noteq> None \<and> rs_agent ss \<noteq> Some [], length (rs_viewers ss))"

definition getSession :: "string \<Rightarrow> remote \<Rightarrow> (string \<times> bool \<times> nat) option" where
  "getSession sid s = map_option (publicSession sid) (jget (rm_sessions s) sid)"

definition listSessions :: "remote \<Rightarrow> (string \<times> bool \<times> nat) list" where
  "listSessions s = map (\<lambda>(sid, ss). publicSession sid ss) (rm_sessions s)"

section \<open>Sockets\<close>

definition remote_connect :: "string \<Rightarrow> remote \<Rightarrow> remote" where
  "remote_connect sock s = s\<lparr>rm_sockets := jset sock \<lparr>sk_session = None, sk_rooms = []\<rparr> (rm_sockets s)\<rparr>"

text \<open>The socket leaves: the handler frees its place in the session it was last admitted to.\<close>

definition free_place :: "string \<Rightarrow> string \<times> party \<Rightarrow> (string, remote_session) jsmap \<Rightarrow> (string, remote_session) jsmap" where
  "free_place sock p ss =
     (case jget ss (fst p) of
        None \<Rightarrow> ss
      | Some session \<Rightarrow>
          (let session' = (case snd p of Agent \<Rightarrow> session\<lparr>rs_agent := None\<rparr>
                           | Viewer \<Rightarrow> session\<lparr>rs_viewers := filter (\<lambda>v. v \<noteq> sock) (rs_viewers session)\<rparr>)
           in if rs_agent session' = None \<and> rs_viewers session' = [] then jdel (fst p) ss else jset (fst p) session' ss))"

definition remote_disconnect :: "string \<Rightarrow> remote \<Rightarrow> remote" where
  "remote_disconnect sock s =
     (case jget (rm_sockets s) sock of
        None \<Rightarrow> s
      | Some k \<Rightarrow> s\<lparr>rm_sockets := jdel sock (rm_sockets s),
          rm_sessions := (case sk_session k of None \<Rightarrow> rm_sessions s | Some p \<Rightarrow> free_place sock p (rm_sessions s))\<rparr>)"

datatype auth_answer = AuthOk string party | AuthError string

definition take_place :: "string \<Rightarrow> string \<times> party \<Rightarrow> (string, remote_session) jsmap \<Rightarrow> (string, remote_session) jsmap" where
  "take_place sock p ss =
     (let session = (case jget ss (fst p) of None \<Rightarrow> \<lparr>rs_agent = None, rs_viewers = []\<rparr> | Some session \<Rightarrow> session)
      in jset (fst p) (case snd p of Agent \<Rightarrow> session\<lparr>rs_agent := Some sock\<rparr>
           | Viewer \<Rightarrow> session\<lparr>rs_viewers := (if sock \<in> set (rs_viewers session) then rs_viewers session else rs_viewers session @ [sock])\<rparr>) ss)"

definition admit :: "string \<Rightarrow> string \<times> party \<Rightarrow> remote \<Rightarrow> remote" where
  "admit sock p s =
     s\<lparr>rm_sessions := take_place sock p (rm_sessions s),
       rm_sockets := (case jget (rm_sockets s) sock of None \<Rightarrow> rm_sockets s
         | Some k \<Rightarrow> jset sock \<lparr>sk_session = Some p, sk_rooms = session_room (fst p) (party_room (snd p)) # sk_rooms k\<rparr> (rm_sockets s))\<rparr>"

definition ticket_of :: "jsval \<Rightarrow> string option" where
  "ticket_of data = (case obj_get data ''ticket'' of JStr t \<Rightarrow> Some t | _ \<Rightarrow> None)"

definition mismatch :: "jsval \<Rightarrow> string \<Rightarrow> bool" where
  "mismatch v wanted \<longleftrightarrow> truthy v \<and> to_string v \<noteq> wanted"

definition remote_auth :: "int \<Rightarrow> string \<Rightarrow> jsval \<Rightarrow> remote \<Rightarrow> auth_answer \<times> remote" where
  "remote_auth now sock data s =
     (case Option.bind (ticket_of data) (\<lambda>t. map_option (Pair t) (jget (rm_tickets s) t)) of
        None \<Rightarrow> (AuthError ''Invalid or expired ticket'', remote_disconnect sock s)
      | Some (t, e) \<Rightarrow>
          if now > rt_expires e then (AuthError ''Invalid or expired ticket'', remote_disconnect sock s)
          else (let s1 = s\<lparr>rm_tickets := jdel t (rm_tickets s)\<rparr> in
            if mismatch (obj_get data ''session_id'') (rt_session e) then (AuthError ''Ticket session mismatch'', remote_disconnect sock s1)
            else if mismatch (obj_get data ''role'') (party_name (rt_role e)) then (AuthError ''Ticket role mismatch'', remote_disconnect sock s1)
            else (AuthOk (rt_session e) (rt_role e), admit sock (rt_session e, rt_role e) s1)))"

section \<open>The relay\<close>

datatype remote_arg = Buf string | Val jsval | Callback

definition relay_rule_of :: "relay_config \<Rightarrow> string \<Rightarrow> relay_rule option" where
  "relay_rule_of c event =
     (case jget (rl_table c) event of
        Some r \<Rightarrow> r
      | None \<Rightarrow> if rl_opposite c then Some (Rule ''any'' (JStr ''opposite'') False) else None)"

definition relay_payload :: "(string \<Rightarrow> string) \<Rightarrow> bool \<Rightarrow> remote_arg list \<Rightarrow> remote_arg list option" where
  "relay_payload b64 binary args =
     (if binary
      then (case args of
          Buf b # _ \<Rightarrow> Some [Buf b]
        | Val v # _ \<Rightarrow> if truthy v \<and> truthy (obj_get v ''frame'') then Some [Buf (b64 (to_string (obj_get v ''frame'')))] else None
        | _ \<Rightarrow> None)
      else (let vs = filter (\<lambda>a. a \<noteq> Callback) args in Some (if vs = [] then [Val (JObj [])] else vs)))"

text \<open>The room an event goes to and what is sent, if it is relayed.\<close>

definition relay_event :: "(string \<Rightarrow> string) \<Rightarrow> relay_config \<Rightarrow> string \<times> party \<Rightarrow> string \<Rightarrow> remote_arg list
     \<Rightarrow> (string \<times> remote_arg list) option" where
  "relay_event b64 c p event args =
     (if is_reserved event then None
      else case relay_rule_of c event of
        Some (Rule from_role dest binary) \<Rightarrow>
          if from_role \<noteq> ''any'' \<and> party_name (snd p) \<noteq> from_role then None
          else map_option (Pair (session_room (fst p)
                 (if dest = JStr ''opposite'' then party_room (opposite (snd p)) else to_string dest))) (relay_payload b64 binary args)
      | _ \<Rightarrow> None)"

text \<open>\<open>socket.to(room).emit\<close>: to the sockets in the room but the sender.\<close>

definition in_room :: "string \<Rightarrow> string \<Rightarrow> remote \<Rightarrow> string list" where
  "in_room sender room s = map fst (filter (\<lambda>(k, v). k \<noteq> sender \<and> room \<in> set (sk_rooms v)) (rm_sockets s))"

definition remote_event :: "(string \<Rightarrow> string) \<Rightarrow> int \<Rightarrow> jsval \<Rightarrow> string \<Rightarrow> string \<Rightarrow> remote_arg list \<Rightarrow> remote
     \<Rightarrow> (string \<times> remote_arg list) list \<times> remote" where
  "remote_event b64 now config sock event args s =
     (case Option.bind (jget (rm_sockets s) sock) sk_session of
        None \<Rightarrow> ([], s)
      | Some p \<Rightarrow>
          if is_reserved event then ([], s)
          else (let (c, cache) = getRelayConfig now config (rm_cache s); s1 = s\<lparr>rm_cache := cache\<rparr> in
            case relay_event b64 c p event args of
              None \<Rightarrow> ([], s1)
            | Some (room, payload) \<Rightarrow> (map (\<lambda>r. (r, payload)) (in_room sock room s), s1)))"

section \<open>The machine\<close>

text \<open>Messages of a socket reach the handlers only while it is connected.\<close>

datatype remote_step =
    RvIssue int string jsval
  | RvCleanup string
  | RvConnect string
  | RvAuth int string jsval
  | RvEvent int jsval string string "remote_arg list"
  | RvGone string

fun remote_next :: "(string \<Rightarrow> string) \<Rightarrow> remote_step \<Rightarrow> remote \<Rightarrow> remote" where
  "remote_next b64 (RvIssue now drawn params) s = (case issueTicket now drawn params s of None \<Rightarrow> s | Some (t, s') \<Rightarrow> s')"
| "remote_next b64 (RvCleanup t) s = s\<lparr>rm_tickets := jdel t (rm_tickets s)\<rparr>"
| "remote_next b64 (RvConnect sock) s = remote_connect sock s"
| "remote_next b64 (RvAuth now sock data) s = (if jget (rm_sockets s) sock = None then s else snd (remote_auth now sock data s))"
| "remote_next b64 (RvEvent now config sock event args) s = snd (remote_event b64 now config sock event args s)"
| "remote_next b64 (RvGone sock) s = remote_disconnect sock s"

definition remote_start :: "int \<Rightarrow> remote" where
  "remote_start ttl = \<lparr>rm_ttl = ttl, rm_tickets = [], rm_sessions = [], rm_sockets = [], rm_cache = None\<rparr>"

definition remote_run :: "(string \<Rightarrow> string) \<Rightarrow> int \<Rightarrow> remote_step list \<Rightarrow> remote" where
  "remote_run b64 ttl evs = fold (remote_next b64) evs (remote_start ttl)"

section \<open>Rooms\<close>

lemma last_sep: "CHR '':'' \<notin> set d \<Longrightarrow> CHR '':'' \<notin> set d' \<Longrightarrow> s @ CHR '':'' # d = s' @ CHR '':'' # d' \<longleftrightarrow> s = s' \<and> d = d'"
proof (induction s arbitrary: s')
  case Nil
  have "CHR '':'' # d \<noteq> c # t @ CHR '':'' # d'" for c t
  proof
    assume "CHR '':'' # d = c # t @ CHR '':'' # d'"
    then have "set d = set (t @ CHR '':'' # d')" by simp
    with Nil(1) show False by simp
  qed
  then show ?case by (cases s') auto
next
  case (Cons c s)
  have "c # s @ CHR '':'' # d \<noteq> CHR '':'' # d'"
  proof
    assume "c # s @ CHR '':'' # d = CHR '':'' # d'"
    then have "set d' = set (s @ CHR '':'' # d)" by simp
    with Cons.prems(2) show False by simp
  qed
  then show ?case using Cons by (cases s') simp_all
qed

lemma session_room_inj:
  "CHR '':'' \<notin> set d \<Longrightarrow> CHR '':'' \<notin> set d' \<Longrightarrow> session_room s d = session_room s' d' \<longleftrightarrow> s = s' \<and> d = d'"
  by (simp add: session_room_def last_sep)

lemma party_room_plain: "CHR '':'' \<notin> set (party_room p)"
  by (cases p) simp_all

lemma valid_destination_plain: "valid_destination v \<Longrightarrow> CHR '':'' \<notin> set (to_string v)"
  by (auto simp: valid_destination_def object_members_def)

definition table_ok :: "(string, relay_rule option) jsmap \<Rightarrow> bool" where
  "table_ok t \<longleftrightarrow> (\<forall>event f d b. jget t event = Some (Some (Rule f d b)) \<longrightarrow> valid_destination d)"

lemma normalize_valid: "normalizeRelayRule rule = Some (Rule f d b) \<Longrightarrow> valid_destination d"
  by (auto simp: normalizeRelayRule_def split: if_splits)

lemma table_ok_jset: "table_ok t \<Longrightarrow> table_ok (jset event (normalizeRelayRule rule) t)"
  using normalize_valid by (auto simp: table_ok_def)

lemma relay_table_ok: "table_ok (relay_table config)"
proof -
  have "table_ok DEFAULT_RELAY" by (auto simp: table_ok_def DEFAULT_RELAY_def valid_destination_def split: if_splits)
  then have "table_ok (fold (\<lambda>(event, rule) t. if is_reserved event then t else jset event (normalizeRelayRule rule) t) kvs DEFAULT_RELAY)" for kvs
  proof (induction kvs rule: rev_induct)
    case (snoc kv kvs)
    then show ?case by (cases kv) (auto intro: table_ok_jset)
  qed simp
  then show ?thesis unfolding relay_table_def .
qed

definition cache_ok :: "(int \<times> relay_config) option \<Rightarrow> bool" where
  "cache_ok cache \<longleftrightarrow> (case cache of None \<Rightarrow> True | Some (t0, c) \<Rightarrow> table_ok (rl_table c))"

lemma getRelayConfig_ok:
  "cache_ok cache \<Longrightarrow> getRelayConfig now config cache = (c, cache') \<Longrightarrow> table_ok (rl_table c) \<and> cache_ok cache'"
  using relay_table_ok [of config]
  by (auto simp: getRelayConfig_def cache_ok_def relay_config_of_def Let_def split: option.splits if_splits prod.splits)

lemma relay_event_room:
  assumes "table_ok (rl_table c)" "relay_event b64 c p event args = Some (room, payload)"
  shows "\<exists>d. room = session_room (fst p) d \<and> CHR '':'' \<notin> set d \<and> \<not> is_reserved event
    \<and> (\<exists>f dest b. relay_rule_of c event = Some (Rule f dest b) \<and> (f = ''any'' \<or> f = party_name (snd p)))"
proof -
  obtain f dest b where r: "relay_rule_of c event = Some (Rule f dest b)" "\<not> is_reserved event" "f = ''any'' \<or> f = party_name (snd p)"
    "room = session_room (fst p) (if dest = JStr ''opposite'' then party_room (opposite (snd p)) else to_string dest)"
    using assms(2) by (auto simp: relay_event_def split: if_splits option.splits relay_rule.splits)
  have "valid_destination dest"
  proof (cases "jget (rl_table c) event")
    case None
    with r(1) show ?thesis by (auto simp: relay_rule_of_def valid_destination_def split: if_splits)
  next
    case (Some rr)
    with r(1) have "jget (rl_table c) event = Some (Some (Rule f dest b))" by (simp add: relay_rule_of_def)
    with assms(1) show ?thesis unfolding table_ok_def by blast
  qed
  then have "CHR '':'' \<notin> set (if dest = JStr ''opposite'' then party_room (opposite (snd p)) else to_string dest)"
    using party_room_plain valid_destination_plain by simp
  with r show ?thesis by blast
qed

section \<open>Admission\<close>

text \<open>A socket is admitted to a place when it presented a ticket that was issued for it.\<close>

definition issued :: "remote_step list \<Rightarrow> string \<Rightarrow> string \<times> party \<Rightarrow> bool" where
  "issued evs t p \<longleftrightarrow> (\<exists>now params. RvIssue now t params \<in> set evs \<and> truthy (obj_get params ''session_id'')
     \<and> p = (to_string (obj_get params ''session_id''), if obj_get params ''role'' = JStr ''viewer'' then Viewer else Agent))"

definition admitted_to :: "remote_step list \<Rightarrow> string \<Rightarrow> string \<times> party \<Rightarrow> bool" where
  "admitted_to evs sock p \<longleftrightarrow> (\<exists>now data t. RvAuth now sock data \<in> set evs \<and> ticket_of data = Some t \<and> issued evs t p)"

definition remote_inv :: "remote_step list \<Rightarrow> remote \<Rightarrow> bool" where
  "remote_inv evs s \<longleftrightarrow> cache_ok (rm_cache s)
     \<and> (\<forall>t e. jget (rm_tickets s) t = Some e \<longrightarrow> issued evs t (rt_session e, rt_role e))
     \<and> (\<forall>k v. (k, v) \<in> set (rm_sockets s) \<longrightarrow> (\<forall>p. sk_session v = Some p \<longrightarrow> admitted_to evs k p)
          \<and> (\<forall>room \<in> set (sk_rooms v). \<exists>p. admitted_to evs k p \<and> room = session_room (fst p) (party_room (snd p))))"

lemma issued_mono: "issued evs t p \<Longrightarrow> issued (evs @ evs') t p"
  unfolding issued_def set_append by blast

lemma admitted_mono: "admitted_to evs k p \<Longrightarrow> admitted_to (evs @ evs') k p"
  unfolding admitted_to_def using issued_mono by fastforce

lemma remote_inv_mono: "remote_inv evs s \<Longrightarrow> remote_inv (evs @ evs') s"
  unfolding remote_inv_def using issued_mono admitted_mono by blast

lemma remote_disconnect_inv: "remote_inv evs s \<Longrightarrow> remote_inv evs (remote_disconnect sock s)"
  unfolding remote_inv_def remote_disconnect_def by (auto simp: set_jdel split: option.splits)

lemma remote_inv_tickets: "remote_inv evs s \<Longrightarrow> remote_inv evs (s\<lparr>rm_tickets := jdel t (rm_tickets s)\<rparr>)"
  by (simp add: remote_inv_def)

lemma admit_inv:
  assumes inv: "remote_inv evs s" and adm: "admitted_to evs sock p" shows "remote_inv evs (admit sock p s)"
proof (cases "jget (rm_sockets s) sock")
  case None
  with inv show ?thesis by (simp add: remote_inv_def admit_def)
next
  case (Some k)
  let ?k = "\<lparr>sk_session = Some p, sk_rooms = session_room (fst p) (party_room (snd p)) # sk_rooms k\<rparr>"
  have k: "(sock, k) \<in> set (rm_sockets s)" using Some by (rule map_of_SomeD)
  have sockets: "rm_sockets (admit sock p s) = jset sock ?k (rm_sockets s)" by (simp add: admit_def Some)
  have "(\<forall>q. sk_session v = Some q \<longrightarrow> admitted_to evs i q)
      \<and> (\<forall>room \<in> set (sk_rooms v). \<exists>q. admitted_to evs i q \<and> room = session_room (fst q) (party_room (snd q)))"
    if "(i, v) \<in> set (rm_sockets (admit sock p s))" for i v
  proof -
    have "(i, v) = (sock, ?k) \<or> (i, v) \<in> set (rm_sockets s)"
      using that set_jset_subset [of sock ?k "rm_sockets s"] unfolding sockets by blast
    then show ?thesis
    proof
      assume "(i, v) = (sock, ?k)"
      then have v: "i = sock" "sk_session v = Some p" "sk_rooms v = session_room (fst p) (party_room (snd p)) # sk_rooms k" by simp_all
      have "\<forall>room \<in> set (sk_rooms k). \<exists>q. admitted_to evs sock q \<and> room = session_room (fst q) (party_room (snd q))"
        using inv k unfolding remote_inv_def by blast
      with adm show ?thesis unfolding v by (metis option.inject set_ConsD)
    next
      assume "(i, v) \<in> set (rm_sockets s)"
      with inv show ?thesis unfolding remote_inv_def by blast
    qed
  qed
  with inv show ?thesis unfolding remote_inv_def by (simp add: admit_def)
qed

lemma remote_auth_cases:
  obtains (refused) msg s1 where "remote_auth now sock data s = (AuthError msg, remote_disconnect sock s1)"
      "s1 = s \<or> (\<exists>t. ticket_of data = Some t \<and> s1 = s\<lparr>rm_tickets := jdel t (rm_tickets s)\<rparr>)"
  | (ok) t e where "ticket_of data = Some t" "jget (rm_tickets s) t = Some e" "now \<le> rt_expires e"
      "remote_auth now sock data s = (AuthOk (rt_session e) (rt_role e), admit sock (rt_session e, rt_role e) (s\<lparr>rm_tickets := jdel t (rm_tickets s)\<rparr>))"
proof (cases "Option.bind (ticket_of data) (\<lambda>t. map_option (Pair t) (jget (rm_tickets s) t))")
  case None
  then show ?thesis by (intro refused [of _ s]) (simp_all add: remote_auth_def)
next
  case (Some p)
  then obtain t e where t: "ticket_of data = Some t" "jget (rm_tickets s) t = Some e" "p = (t, e)"
    by (cases "ticket_of data") auto
  let ?s1 = "s\<lparr>rm_tickets := jdel t (rm_tickets s)\<rparr>"
  consider "now > rt_expires e" | "now \<le> rt_expires e" "mismatch (obj_get data ''session_id'') (rt_session e)"
    | "now \<le> rt_expires e" "\<not> mismatch (obj_get data ''session_id'') (rt_session e)" "mismatch (obj_get data ''role'') (party_name (rt_role e))"
    | "now \<le> rt_expires e" "\<not> mismatch (obj_get data ''session_id'') (rt_session e)" "\<not> mismatch (obj_get data ''role'') (party_name (rt_role e))"
    by linarith
  then show ?thesis
  proof cases
    case 1
    with Some t show ?thesis by (intro refused [of _ s]) (simp_all add: remote_auth_def)
  next
    case 2
    with Some t show ?thesis by (intro refused [of _ ?s1]) (simp_all add: remote_auth_def Let_def)
  next
    case 3
    with Some t show ?thesis by (intro refused [of _ ?s1]) (simp_all add: remote_auth_def Let_def)
  next
    case 4
    with Some t show ?thesis by (intro ok [OF t(1,2)]) (simp_all add: remote_auth_def Let_def)
  qed
qed

lemma remote_inv_step: "remote_inv evs s \<Longrightarrow> remote_inv (evs @ [ev]) (remote_next b64 ev s)"
proof -
  assume "remote_inv evs s"
  then have inv: "remote_inv (evs @ [ev]) s" by (rule remote_inv_mono)
  show ?thesis
  proof (cases ev)
    case (RvIssue now t params)
    have "issued (evs @ [ev]) t (to_string (obj_get params ''session_id''), if obj_get params ''role'' = JStr ''viewer'' then Viewer else Agent)"
      if "truthy (obj_get params ''session_id'')" using that by (auto simp: issued_def RvIssue)
    with inv show ?thesis by (auto simp: RvIssue remote_inv_def issueTicket_def)
  next
    case (RvConnect sock)
    with inv show ?thesis
      using set_jset_subset [of sock "\<lparr>sk_session = None, sk_rooms = []\<rparr>" "rm_sockets s"]
      by (fastforce simp: remote_inv_def remote_connect_def)
  next
    case (RvAuth now sock data)
    show ?thesis
    proof (cases "jget (rm_sockets s) sock")
      case None
      with inv show ?thesis by (simp add: RvAuth)
    next
      case (Some k)
      show ?thesis
      proof (cases rule: remote_auth_cases [of now sock data s])
        case (refused msg s1)
        have "remote_inv (evs @ [ev]) s1" using refused(2) inv remote_inv_tickets by blast
        with refused(1) Some show ?thesis by (simp add: RvAuth remote_disconnect_inv)
      next
        case (ok t e)
        have "issued (evs @ [ev]) t (rt_session e, rt_role e)" using inv ok(2) by (simp add: remote_inv_def)
        with ok(1) have adm: "admitted_to (evs @ [ev]) sock (rt_session e, rt_role e)"
          unfolding admitted_to_def RvAuth by (metis in_set_conv_decomp)
        from admit_inv [OF remote_inv_tickets [OF inv] adm] ok(4) Some show ?thesis by (simp add: RvAuth)
      qed
    qed
  next
    case (RvEvent now config sock event args)
    obtain c cache where "getRelayConfig now config (rm_cache s) = (c, cache)" by (metis prod.exhaust)
    with getRelayConfig_ok [of "rm_cache s" now config c cache] inv show ?thesis
      by (auto simp: RvEvent remote_inv_def remote_event_def Let_def split: option.split)
  next
    case (RvCleanup t)
    with remote_inv_tickets [OF inv] show ?thesis by simp
  next
    case (RvGone sock)
    with remote_disconnect_inv [OF inv] show ?thesis by simp
  qed
qed

lemma remote_run_inv: "remote_inv evs (remote_run b64 ttl evs)"
proof (induction evs rule: rev_induct)
  case Nil
  then show ?case by (simp add: remote_run_def remote_start_def remote_inv_def cache_ok_def)
next
  case (snoc ev evs)
  from remote_inv_step [OF this, of ev b64] show ?case by (simp add: remote_run_def)
qed

text \<open>
  C36. What a socket sends is relayed only within its session: after any run, a socket that gets a
  relayed event and its sender were both admitted to one session, each by a ticket issued for that
  session; the sender's role is allowed by the rule in force, no event of the server's own is relayed, and
  nothing comes back to the sender.
\<close>

theorem remote_relay_confined:
  assumes "(r, payload) \<in> set (fst (remote_event b64 now config sock event args (remote_run b64 ttl evs)))"
  shows "\<exists>sid from_role to_role. admitted_to evs sock (sid, from_role) \<and> admitted_to evs r (sid, to_role) \<and> r \<noteq> sock
    \<and> \<not> is_reserved event
    \<and> (\<exists>c cache f d b. getRelayConfig now config (rm_cache (remote_run b64 ttl evs)) = (c, cache)
         \<and> relay_rule_of c event = Some (Rule f d b) \<and> (f = ''any'' \<or> f = party_name from_role))"
proof -
  let ?s = "remote_run b64 ttl evs"
  have inv: "remote_inv evs ?s" by (rule remote_run_inv)
  obtain c cache where cfg: "getRelayConfig now config (rm_cache ?s) = (c, cache)" by (metis prod.exhaust)
  have ok: "table_ok (rl_table c)"
    using getRelayConfig_ok [OF _ cfg] inv unfolding remote_inv_def by blast
  obtain k p room where k: "jget (rm_sockets ?s) sock = Some k" "sk_session k = Some p"
    and ev: "relay_event b64 c p event args = Some (room, payload)" and r: "r \<in> set (in_room sock room ?s)"
    using assms cfg by (auto simp: remote_event_def bind_eq_Some_conv Let_def split: option.splits if_splits)
  from relay_event_room [OF ok ev] obtain d where d: "room = session_room (fst p) d" "CHR '':'' \<notin> set d"
    and rest: "\<not> is_reserved event" "\<exists>f dest b. relay_rule_of c event = Some (Rule f dest b) \<and> (f = ''any'' \<or> f = party_name (snd p))"
    by blast
  have from_role: "admitted_to evs sock (fst p, snd p)"
    using inv map_of_SomeD [OF k(1)] k(2) unfolding remote_inv_def prod.collapse by blast
  obtain v where v: "(r, v) \<in> set (rm_sockets ?s)" "room \<in> set (sk_rooms v)" "r \<noteq> sock"
    using r by (auto simp: in_room_def)
  then obtain q where q: "admitted_to evs r q" "room = session_room (fst q) (party_room (snd q))"
    using inv unfolding remote_inv_def by blast
  from q(2) d(1) have "session_room (fst q) (party_room (snd q)) = session_room (fst p) d" by simp
  then have "fst q = fst p" using session_room_inj [OF party_room_plain d(2)] by blast
  with q(1) have "admitted_to evs r (fst p, snd q)" by (metis prod.collapse)
  with from_role v(3) rest cfg show ?thesis by blast
qed

definition ask :: "string \<Rightarrow> jsval" where
  "ask t = JObj [(''ticket'', JStr t)]"

definition two_tickets :: "remote_step list" where
  "two_tickets = [RvIssue 0 ''t1'' (JObj [(''session_id'', JStr ''s'')]),
     RvIssue 0 ''t2'' (JObj [(''session_id'', JStr ''s''), (''role'', JStr ''viewer'')]),
     RvConnect ''a'', RvConnect ''v'', RvAuth 5 ''a'' (ask ''t1''), RvAuth 6 ''v'' (ask ''t2'')]"

lemma two_tickets_state:
  "remote_run id 100 two_tickets = \<lparr>rm_ttl = 100, rm_tickets = [],
     rm_sessions = [(''s'', \<lparr>rs_agent = Some ''a'', rs_viewers = [''v'']\<rparr>)],
     rm_sockets = [(''a'', \<lparr>sk_session = Some (''s'', Agent), sk_rooms = [''session:s:agent'']\<rparr>),
                   (''v'', \<lparr>sk_session = Some (''s'', Viewer), sk_rooms = [''session:s:viewers'']\<rparr>)], rm_cache = None\<rparr>"
  by code_simp

theorem remote_relay_confined_witness:
  "(''a'', [Val (JStr ''x'')]) \<in> set (fst (remote_event id 7 (JObj []) ''v'' ''hello'' [Val (JStr ''x'')] (remote_run id 100 two_tickets)))
   \<and> (\<exists>sid from_role to_role. admitted_to two_tickets ''v'' (sid, from_role) \<and> admitted_to two_tickets ''a'' (sid, to_role))"
proof -
  have "(''a'', [Val (JStr ''x'')]) \<in> set (fst (remote_event id 7 (JObj []) ''v'' ''hello'' [Val (JStr ''x'')] (remote_run id 100 two_tickets)))"
    unfolding two_tickets_state by code_simp
  with remote_relay_confined [OF this] show ?thesis by blast
qed

section \<open>Tickets\<close>

text \<open>The redemption of a ticket as a one-shot store.\<close>

definition remote_redeem :: "int \<times> string \<times> jsval \<Rightarrow> remote \<Rightarrow> bool \<times> remote" where
  "remote_redeem q s = (case q of (now, sock, data) \<Rightarrow>
     map_prod (\<lambda>a. case a of AuthOk sid role \<Rightarrow> True | AuthError msg \<Rightarrow> False) id (remote_auth now sock data s))"

definition redeemed_ticket :: "int \<times> string \<times> jsval \<Rightarrow> string option" where
  "redeemed_ticket q = ticket_of (snd (snd q))"

lemma remote_disconnect_tickets [simp]: "rm_tickets (remote_disconnect sock s) = rm_tickets s"
  by (simp add: remote_disconnect_def split: option.split)

interpretation rmt: one_shot "\<lambda>s. Some ` fst ` set (rm_tickets s)" remote_redeem redeemed_ticket
proof unfold_locales
  fix q :: "int \<times> string \<times> jsval" and s
  obtain now sock data where q: "q = (now, sock, data)" by (cases q)
  show "Some ` fst ` set (rm_tickets (snd (remote_redeem q s))) \<subseteq> Some ` fst ` set (rm_tickets s)"
    unfolding q remote_redeem_def
    by (cases rule: remote_auth_cases [of now sock data s]) (force simp: admit_def set_jdel)+
next
  fix q :: "int \<times> string \<times> jsval" and s assume ok: "fst (remote_redeem q s)"
  obtain now sock data where q: "q = (now, sock, data)" by (cases q)
  from ok show "redeemed_ticket q \<in> Some ` fst ` set (rm_tickets s)"
    unfolding q remote_redeem_def redeemed_ticket_def
    by (cases rule: remote_auth_cases [of now sock data s]) (auto dest: jget_in_keys)
  from ok show "redeemed_ticket q \<notin> Some ` fst ` set (rm_tickets (snd (remote_redeem q s)))"
    unfolding q remote_redeem_def redeemed_ticket_def
    by (cases rule: remote_auth_cases [of now sock data s]) (auto simp: admit_def set_jdel)
qed

text \<open>
  A remote-session ticket admits at most one socket, whatever is presented, by whom and when.
\<close>

theorem remote_ticket_once: "successes redeemed_ticket (Some t) (run_redeems remote_redeem attempts s) \<le> 1"
  by (rule rmt.at_most_once)

section \<open>Sessions\<close>

text \<open>Each socket id connects once and authenticates at most once.\<close>

definition auths_of :: "remote_step list \<Rightarrow> string list" where
  "auths_of evs = List.map_filter (\<lambda>ev. case ev of RvAuth now sock data \<Rightarrow> Some sock | _ \<Rightarrow> None) evs"

definition connects_of :: "remote_step list \<Rightarrow> string list" where
  "connects_of evs = List.map_filter (\<lambda>ev. case ev of RvConnect sock \<Rightarrow> Some sock | _ \<Rightarrow> None) evs"

definition place_holders :: "remote \<Rightarrow> string \<times> party \<Rightarrow> string set" where
  "place_holders s p = {k. \<exists>v. jget (rm_sockets s) k = Some v \<and> sk_session v = Some p}"

definition sessions_ok :: "remote \<Rightarrow> bool" where
  "sessions_ok s \<longleftrightarrow> (\<forall>sid. (jget (rm_sessions s) sid = None \<longrightarrow> place_holders s (sid, Viewer) = {})
     \<and> (\<forall>ss. jget (rm_sessions s) sid = Some ss \<longrightarrow> (rs_agent ss \<noteq> None \<or> rs_viewers ss \<noteq> []) \<and> distinct (rs_viewers ss)
         \<and> set (rs_viewers ss) = place_holders s (sid, Viewer) \<and> (\<forall>a. rs_agent ss = Some a \<longrightarrow> a \<in> place_holders s (sid, Agent))))"

lemma sessions_okD:
  assumes "sessions_ok s"
  shows "jget (rm_sessions s) sid = None \<Longrightarrow> place_holders s (sid, Viewer) = {}"
    "jget (rm_sessions s) sid = Some ss \<Longrightarrow> rs_agent ss \<noteq> None \<or> rs_viewers ss \<noteq> []"
    "jget (rm_sessions s) sid = Some ss \<Longrightarrow> distinct (rs_viewers ss)"
    "jget (rm_sessions s) sid = Some ss \<Longrightarrow> set (rs_viewers ss) = place_holders s (sid, Viewer)"
    "jget (rm_sessions s) sid = Some ss \<Longrightarrow> rs_agent ss = Some a \<Longrightarrow> a \<in> place_holders s (sid, Agent)"
  using assms unfolding sessions_ok_def by blast+

lemma sessions_okI:
  assumes "\<And>sid. jget (rm_sessions s) sid = None \<Longrightarrow> place_holders s (sid, Viewer) = {}"
    "\<And>sid ss. jget (rm_sessions s) sid = Some ss \<Longrightarrow> (rs_agent ss \<noteq> None \<or> rs_viewers ss \<noteq> []) \<and> distinct (rs_viewers ss)
       \<and> set (rs_viewers ss) = place_holders s (sid, Viewer) \<and> (\<forall>a. rs_agent ss = Some a \<longrightarrow> a \<in> place_holders s (sid, Agent))"
  shows "sessions_ok s"
  using assms unfolding sessions_ok_def by blast

lemma admit_sessions:
  assumes ok: "sessions_ok s" and k: "jget (rm_sockets s) sock = Some k" "sk_session k = None"
  shows "sessions_ok (admit sock p s)"
proof -
  obtain sid role where p: "p = (sid, role)" by (cases p)
  have holders: "place_holders (admit sock (sid, role) s) q = (if q = (sid, role) then insert sock (place_holders s q) else place_holders s q)" for q
    using k by (auto simp: place_holders_def admit_def)
  have sock: "sock \<notin> place_holders s q" for q using k by (simp add: place_holders_def)
  note D = sessions_okD [OF ok]
  show ?thesis unfolding p
  proof (rule sessions_okI)
    fix sid' assume "jget (rm_sessions (admit sock (sid, role) s)) sid' = None"
    then have "jget (rm_sessions s) sid' = None" "sid' \<noteq> sid" by (auto simp: admit_def take_place_def Let_def split: if_splits)
    with D(1) show "place_holders (admit sock (sid, role) s) (sid', Viewer) = {}" by (simp add: holders)
  next
    fix sid' ss assume s': "jget (rm_sessions (admit sock (sid, role) s)) sid' = Some ss"
    show "(rs_agent ss \<noteq> None \<or> rs_viewers ss \<noteq> []) \<and> distinct (rs_viewers ss)
       \<and> set (rs_viewers ss) = place_holders (admit sock (sid, role) s) (sid', Viewer)
       \<and> (\<forall>a. rs_agent ss = Some a \<longrightarrow> a \<in> place_holders (admit sock (sid, role) s) (sid', Agent))"
    proof (cases "sid' = sid")
      case False
      with s' have "jget (rm_sessions s) sid' = Some ss" by (simp add: admit_def take_place_def Let_def)
      with False D(2-5) [of sid'] show ?thesis by (simp add: holders)
    next
      case True
      define old where "old = (case jget (rm_sessions s) sid of None \<Rightarrow> \<lparr>rs_agent = None, rs_viewers = []\<rparr> | Some session \<Rightarrow> session)"
      have o: "distinct (rs_viewers old)" "set (rs_viewers old) = place_holders s (sid, Viewer)"
        "\<And>a. rs_agent old = Some a \<Longrightarrow> a \<in> place_holders s (sid, Agent)"
        using D(1,3,4,5) [of sid] by (auto simp: old_def split: option.splits)
      have "ss = (case role of Agent \<Rightarrow> old\<lparr>rs_agent := Some sock\<rparr>
           | Viewer \<Rightarrow> old\<lparr>rs_viewers := (if sock \<in> set (rs_viewers old) then rs_viewers old else rs_viewers old @ [sock])\<rparr>)"
        using s' unfolding True by (simp add: admit_def take_place_def Let_def old_def [symmetric])
      with o sock True holders [of "(sid, Viewer)"] holders [of "(sid, Agent)"] show ?thesis by (cases role) auto
    qed
  qed
qed

lemma disconnect_sessions:
  assumes ok: "sessions_ok s" shows "sessions_ok (remote_disconnect sock s)"
proof (cases "jget (rm_sockets s) sock")
  case None
  with ok show ?thesis by (simp add: remote_disconnect_def)
next
  case (Some k)
  have holders: "place_holders (remote_disconnect sock s) q = place_holders s q - {sock}" for q
    using Some by (auto simp: place_holders_def remote_disconnect_def)
  have other: "sock \<notin> place_holders s q" if "sk_session k \<noteq> Some q" for q using Some that by (simp add: place_holders_def)
  note D = sessions_okD [OF ok]
  show ?thesis
  proof (cases "sk_session k")
    case None
    then have same: "place_holders (remote_disconnect sock s) q = place_holders s q" for q using holders other by auto
    have "rm_sessions (remote_disconnect sock s) = rm_sessions s" using None Some by (simp add: remote_disconnect_def)
    then show ?thesis using ok unfolding sessions_ok_def same by simp
  next
    case (Some p)
    obtain sid role where p: "p = (sid, role)" by (cases p)
    have mem: "sock \<in> place_holders s p" using \<open>jget (rm_sockets s) sock = Some k\<close> Some by (simp add: place_holders_def)
    have sessions: "rm_sessions (remote_disconnect sock s) = free_place sock p (rm_sessions s)"
      using \<open>jget (rm_sockets s) sock = Some k\<close> Some by (simp add: remote_disconnect_def)
    have same: "place_holders (remote_disconnect sock s) q = place_holders s q" if "q \<noteq> p" for q
      using holders other Some that by auto
    show ?thesis
    proof (rule sessions_okI)
      fix sid' assume none: "jget (rm_sessions (remote_disconnect sock s)) sid' = None"
      show "place_holders (remote_disconnect sock s) (sid', Viewer) = {}"
      proof (cases "jget (rm_sessions s) sid'")
        case None
        with D(1) holders show ?thesis by auto
      next
        case (Some ss)
        with none have "sid' = sid" by (auto simp: sessions free_place_def p Let_def split: option.splits if_splits)
        with none Some have "(case role of Agent \<Rightarrow> rs_viewers ss | Viewer \<Rightarrow> filter (\<lambda>v. v \<noteq> sock) (rs_viewers ss)) = []"
          by (cases role) (auto simp: sessions free_place_def p Let_def split: if_splits)
        with D(4) [OF Some] show ?thesis by (cases role) (auto simp: holders filter_empty_conv)
      qed
    next
      fix sid' ss' assume some: "jget (rm_sessions (remote_disconnect sock s)) sid' = Some ss'"
      show "(rs_agent ss' \<noteq> None \<or> rs_viewers ss' \<noteq> []) \<and> distinct (rs_viewers ss')
         \<and> set (rs_viewers ss') = place_holders (remote_disconnect sock s) (sid', Viewer)
         \<and> (\<forall>a. rs_agent ss' = Some a \<longrightarrow> a \<in> place_holders (remote_disconnect sock s) (sid', Agent))"
      proof (cases "sid' = sid")
        case False
        with some have "jget (rm_sessions s) sid' = Some ss'"
          by (auto simp: sessions free_place_def p Let_def split: option.splits if_splits)
        with False D(2-5) [of sid'] same show ?thesis by (simp add: p)
      next
        case True
        with some obtain ss where ss: "jget (rm_sessions s) sid = Some ss"
          by (cases "jget (rm_sessions s) sid") (auto simp: sessions free_place_def p)
        have s': "ss' = (case role of Agent \<Rightarrow> ss\<lparr>rs_agent := None\<rparr> | Viewer \<Rightarrow> ss\<lparr>rs_viewers := filter (\<lambda>v. v \<noteq> sock) (rs_viewers ss)\<rparr>)"
          and ne: "rs_agent ss' \<noteq> None \<or> rs_viewers ss' \<noteq> []"
          using some True ss by (auto simp: sessions free_place_def p Let_def split: if_splits)
        show ?thesis
        proof (cases role)
          case Agent
          have "place_holders (remote_disconnect sock s) (sid, Viewer) = place_holders s (sid, Viewer)" using same by (simp add: p Agent)
          with D(3,4) [OF ss] s' ne True show ?thesis by (simp add: Agent)
        next
          case Viewer
          have "place_holders (remote_disconnect sock s) (sid, Agent) = place_holders s (sid, Agent)" using same by (simp add: p Viewer)
          with D(3-5) [OF ss] s' ne True holders [of "(sid, Viewer)"] show ?thesis by (auto simp: Viewer)
        qed
      qed
    qed
  qed
qed

definition known_ids :: "remote_step list \<Rightarrow> remote \<Rightarrow> bool" where
  "known_ids evs s \<longleftrightarrow> (\<forall>k v. jget (rm_sockets s) k = Some v \<longrightarrow> k \<in> set (connects_of evs) \<and> (sk_session v \<noteq> None \<longrightarrow> k \<in> set (auths_of evs)))"

lemma ids_snoc:
  "auths_of (evs @ [ev]) = auths_of evs @ (case ev of RvAuth now sock data \<Rightarrow> [sock] | _ \<Rightarrow> [])"
  "connects_of (evs @ [ev]) = connects_of evs @ (case ev of RvConnect sock \<Rightarrow> [sock] | _ \<Rightarrow> [])"
  by (cases ev; simp add: auths_of_def connects_of_def map_filter_def)+

lemma sessions_ok_cong: "rm_sockets s' = rm_sockets s \<Longrightarrow> rm_sessions s' = rm_sessions s \<Longrightarrow> sessions_ok s' \<longleftrightarrow> sessions_ok s"
  by (simp add: sessions_ok_def place_holders_def)

lemma sessions_same:
  assumes "rm_sockets s' = rm_sockets s" "rm_sessions s' = rm_sessions s" "sessions_ok s" "known_ids evs s"
  shows "sessions_ok s' \<and> known_ids evs s'"
  using assms sessions_ok_cong [OF assms(1,2)] by (simp add: known_ids_def)

lemma known_disconnect: "known_ids evs s \<Longrightarrow> known_ids evs (remote_disconnect sock s)"
  by (auto simp: known_ids_def remote_disconnect_def split: option.splits if_splits)

lemma sessions_step:
  assumes ok: "sessions_ok s" "known_ids evs s" and d: "distinct (auths_of (evs @ [ev]))" "distinct (connects_of (evs @ [ev]))"
  shows "sessions_ok (remote_next b64 ev s) \<and> known_ids (evs @ [ev]) (remote_next b64 ev s)"
proof -
  have known: "known_ids (evs @ [ev]) s" using ok(2) by (auto simp: known_ids_def ids_snoc)
  show ?thesis
  proof (cases ev)
    case (RvConnect sock)
    have "jget (rm_sockets s) sock = None" using ok(2) d(2) by (cases "jget (rm_sockets s) sock") (auto simp: known_ids_def ids_snoc RvConnect)
    then have "place_holders (remote_connect sock s) q = place_holders s q" for q
      by (auto simp: place_holders_def remote_connect_def)
    then have "sessions_ok (remote_connect sock s)" using ok(1) by (simp add: sessions_ok_def remote_connect_def)
    moreover have "known_ids (evs @ [ev]) (remote_connect sock s)"
      using known by (auto simp: known_ids_def remote_connect_def ids_snoc RvConnect)
    ultimately show ?thesis by (simp add: RvConnect)
  next
    case (RvAuth now sock data)
    show ?thesis
    proof (cases "jget (rm_sockets s) sock")
      case None
      with ok known show ?thesis by (simp add: RvAuth)
    next
      case (Some k)
      have "sock \<notin> set (auths_of evs)" using d(1) by (simp add: ids_snoc RvAuth)
      then have fresh: "sk_session k = None" using ok(2) Some unfolding known_ids_def by blast
      show ?thesis
      proof (cases rule: remote_auth_cases [of now sock data s])
        case (refused msg s1)
        have "rm_sockets s1 = rm_sockets s" "rm_sessions s1 = rm_sessions s" using refused(2) by auto
        then have "sessions_ok s1 \<and> known_ids (evs @ [ev]) s1" using ok(1) known by (rule sessions_same)
        with refused(1) Some disconnect_sessions known_disconnect show ?thesis by (simp add: RvAuth)
      next
        case (ok t e)
        let ?s1 = "s\<lparr>rm_tickets := jdel t (rm_tickets s)\<rparr>"
        have "sessions_ok ?s1" using assms(1) sessions_ok_cong [of ?s1 s] by simp
        then have "sessions_ok (admit sock (rt_session e, rt_role e) ?s1)" using Some fresh by (intro admit_sessions) simp_all
        moreover have "known_ids (evs @ [ev]) (admit sock (rt_session e, rt_role e) ?s1)"
          using known Some by (auto simp: known_ids_def admit_def ids_snoc RvAuth)
        ultimately show ?thesis using ok(4) Some by (simp add: RvAuth)
      qed
    qed
  next
    case (RvGone sock)
    with disconnect_sessions [OF ok(1)] known_disconnect [OF known] show ?thesis by simp
  next
    case (RvIssue now t params)
    have "rm_sockets (remote_next b64 ev s) = rm_sockets s" "rm_sessions (remote_next b64 ev s) = rm_sessions s"
      by (auto simp: RvIssue issueTicket_def)
    then show ?thesis using ok(1) known by (rule sessions_same)
  next
    case (RvEvent now config sock event args)
    have "rm_sockets (remote_next b64 ev s) = rm_sockets s" "rm_sessions (remote_next b64 ev s) = rm_sessions s"
      by (auto simp: RvEvent remote_event_def Let_def split: option.split prod.split)
    then show ?thesis using ok(1) known by (rule sessions_same)
  next
    case (RvCleanup t)
    have "rm_sockets (remote_next b64 ev s) = rm_sockets s" "rm_sessions (remote_next b64 ev s) = rm_sessions s"
      by (simp_all add: RvCleanup)
    then show ?thesis using ok(1) known by (rule sessions_same)
  qed
qed

lemma remote_sessions_wf: "wf_map (rm_sessions (remote_run b64 ttl evs))"
proof -
  have gone: "wf_map (rm_sessions s) \<Longrightarrow> wf_map (rm_sessions (remote_disconnect sock s))" for sock s
    by (auto simp: remote_disconnect_def free_place_def Let_def split: option.split)
  have "wf_map (rm_sessions s) \<Longrightarrow> wf_map (rm_sessions (remote_next b64 ev s))" for ev s
  proof (cases ev)
    case (RvAuth now sock data)
    assume "wf_map (rm_sessions s)"
    then show ?thesis
      using gone by (cases rule: remote_auth_cases [of now sock data s]) (auto simp: RvAuth admit_def take_place_def Let_def)
  qed (auto simp: gone issueTicket_def remote_connect_def remote_event_def Let_def split: option.split prod.split)
  then have "wf_map (rm_sessions s) \<Longrightarrow> wf_map (rm_sessions (fold (remote_next b64) evs s))" for s
    by (induction evs arbitrary: s) auto
  then show ?thesis by (simp add: remote_run_def remote_start_def)
qed

text \<open>
  The session list: while no socket authenticates twice, a session is listed exactly as long as it
  has a place taken, its viewer count is the number of connected viewers, and an agent is reported only
  while one is connected.
\<close>

theorem remote_sessions_listed:
  assumes "distinct (auths_of evs)" "distinct (connects_of evs)"
  shows "(\<forall>(sid, agent, n) \<in> set (listSessions (remote_run b64 ttl evs)).
        n = card (place_holders (remote_run b64 ttl evs) (sid, Viewer))
      \<and> (agent \<longrightarrow> place_holders (remote_run b64 ttl evs) (sid, Agent) \<noteq> {}))
    \<and> (\<forall>sid. place_holders (remote_run b64 ttl evs) (sid, Viewer) \<noteq> {} \<longrightarrow> getSession sid (remote_run b64 ttl evs) \<noteq> None)"
proof -
  have run: "sessions_ok (remote_run b64 ttl evs) \<and> known_ids evs (remote_run b64 ttl evs)"
    using assms
  proof (induction evs rule: rev_induct)
    case Nil
    then show ?case by (simp add: remote_run_def remote_start_def sessions_ok_def place_holders_def known_ids_def)
  next
    case (snoc ev evs)
    have "distinct (auths_of evs)" "distinct (connects_of evs)" using snoc.prems by (simp_all add: ids_snoc)
    with snoc.IH sessions_step [of "remote_run b64 ttl evs" evs ev b64] snoc.prems show ?case by (simp add: remote_run_def)
  qed
  then have D: "sessions_ok (remote_run b64 ttl evs)" by blast
  note wf = remote_sessions_wf [of b64 ttl evs]
  show ?thesis
  proof (intro conjI ballI allI impI)
    fix e assume "e \<in> set (listSessions (remote_run b64 ttl evs))"
    then obtain sid ss where e: "e = publicSession sid ss" "(sid, ss) \<in> set (rm_sessions (remote_run b64 ttl evs))"
      by (auto simp: listSessions_def)
    from e(2) wf have ss: "jget (rm_sessions (remote_run b64 ttl evs)) sid = Some ss" by (simp add: wf_map_in)
    have "length (rs_viewers ss) = card (place_holders (remote_run b64 ttl evs) (sid, Viewer))"
      using sessions_okD(3,4) [OF D ss] distinct_card by metis
    moreover have "place_holders (remote_run b64 ttl evs) (sid, Agent) \<noteq> {}" if "rs_agent ss \<noteq> None"
      using sessions_okD(5) [OF D ss] that by blast
    ultimately show "case e of (sid, agent, n) \<Rightarrow> n = card (place_holders (remote_run b64 ttl evs) (sid, Viewer))
        \<and> (agent \<longrightarrow> place_holders (remote_run b64 ttl evs) (sid, Agent) \<noteq> {})"
      unfolding e(1) publicSession_def by simp
  next
    fix sid assume "place_holders (remote_run b64 ttl evs) (sid, Viewer) \<noteq> {}"
    with sessions_okD(1) [OF D] show "getSession sid (remote_run b64 ttl evs) \<noteq> None"
      by (auto simp: getSession_def)
  qed
qed

theorem remote_sessions_listed_witness:
  "listSessions (remote_run id 100 two_tickets) = [(''s'', True, 1)]
   \<and> card (place_holders (remote_run id 100 two_tickets) (''s'', Viewer)) = 1
   \<and> place_holders (remote_run id 100 two_tickets) (''s'', Agent) \<noteq> {}"
proof -
  have d: "distinct (auths_of two_tickets)" "distinct (connects_of two_tickets)" by code_simp+
  have l: "listSessions (remote_run id 100 two_tickets) = [(''s'', True, 1)]" unfolding two_tickets_state by code_simp
  then show ?thesis using remote_sessions_listed [OF d, of id 100] by simp
qed

text \<open>
  Without that the list is wrong. An agent that is replaced and then leaves takes the place of its
  successor with it: the new agent is connected and the session is gone.
\<close>

lemma replaced_agent_unlists:
  "let s = remote_run id 100 [RvIssue 0 ''t1'' (JObj [(''session_id'', JStr ''s'')]), RvIssue 0 ''t2'' (JObj [(''session_id'', JStr ''s'')]),
       RvConnect ''a'', RvConnect ''b'', RvAuth 1 ''a'' (ask ''t1''), RvAuth 2 ''b'' (ask ''t2''), RvGone ''a'']
   in listSessions s = [] \<and> map fst (rm_sockets s) = [''b''] \<and> map (sk_session \<circ> snd) (rm_sockets s) = [Some (''s'', Agent)]"
  by code_simp

text \<open>A viewer that authenticates again, for another session, is counted in the first one for ever.\<close>

lemma viewer_left_behind:
  "let s = remote_run id 100 [RvIssue 0 ''t1'' (JObj [(''session_id'', JStr ''s''), (''role'', JStr ''viewer'')]),
       RvIssue 0 ''t2'' (JObj [(''session_id'', JStr ''q''), (''role'', JStr ''viewer'')]),
       RvConnect ''v'', RvAuth 1 ''v'' (ask ''t1''), RvAuth 2 ''v'' (ask ''t2''), RvGone ''v'']
   in listSessions s = [(''s'', False, 1)] \<and> rm_sockets s = []"
  by code_simp

end
