(* ===== verification/Jwks.thy ===== *)
theory Jwks
  imports Prelude
begin

text \<open>
  The offline token validator (\<open>lib/jwks.js\<close>): RS256 tokens are verified against a key set that is
  fetched from the issuer, cached for an hour and fetched at most once a minute. The answer to a fetch
  is an event of its own, so tokens may arrive while one is in flight. URL and JSON parsing, the import
  of a key and the signature check are parameters.
\<close>

definition JWKS_REFETCH_COOLDOWN_MS :: int where "JWKS_REFETCH_COOLDOWN_MS = 60 * 1000"
definition JWKS_CACHE_TTL_MS :: int where "JWKS_CACHE_TTL_MS = 60 * 60 * 1000"
definition JWKS_CLOCK_SKEW_SECONDS :: rat where "JWKS_CLOCK_SKEW_SECONDS = 30"
definition JWKS_DEFAULT_MAX_TTL_SECONDS :: rat where "JWKS_DEFAULT_MAX_TTL_SECONDS = 3600"
definition JWKS_MAX_RESPONSE_BYTES :: nat where "JWKS_MAX_RESPONSE_BYTES = 64 * 1024"
definition VALID_ROLES :: "string list" where "VALID_ROLES = [''producer'', ''consumer'', ''both'']"

section \<open>What the validator calls\<close>

text \<open>
  \<open>lb_json\<close> decodes base64 text and parses it (\<open>Inl\<close> the message of the error it throws), \<open>lb_url\<close>
  gives protocol and host name, \<open>lb_verify signed key signature\<close> takes the signature as base64 text.
\<close>

record 'k jwks_lib =
  lb_json :: "string \<Rightarrow> string + jsval"
  lb_url :: "string \<Rightarrow> (string \<times> string) option"
  lb_import :: "jsval \<Rightarrow> 'k option"
  lb_verify :: "string \<Rightarrow> 'k \<Rightarrow> string \<Rightarrow> bool"

definition decodeBase64Url :: "string \<Rightarrow> string" where
  "decodeBase64Url = map (\<lambda>c. if c = CHR ''-'' then CHR ''+'' else if c = CHR ''_'' then CHR ''/'' else c)"

definition decodeBase64UrlJson :: "'k jwks_lib \<Rightarrow> string \<Rightarrow> string + jsval" where
  "decodeBase64UrlJson L v = lb_json L (decodeBase64Url v @ replicate ((4 - length v mod 4) mod 4) (CHR ''=''))"

definition isLoopbackHost :: "string \<Rightarrow> bool" where
  "isLoopbackHost h \<longleftrightarrow> h \<in> {''127.0.0.1'', ''localhost'', ''::1'', ''[::1]''}"

section \<open>Configuration\<close>

record jwks_conf =
  jc_url :: string
  jc_iss :: string
  jc_aud :: string
  jc_maxTtl :: rat

definition max_ttl_seconds :: "string option \<Rightarrow> rat" where
  "max_ttl_seconds var = (case var of None \<Rightarrow> JWKS_DEFAULT_MAX_TTL_SECONDS
     | Some s \<Rightarrow> (case parse_int s of Fin n \<Rightarrow> if n \<le> 0 then JWKS_DEFAULT_MAX_TTL_SECONDS else n | _ \<Rightarrow> JWKS_DEFAULT_MAX_TTL_SECONDS))"

definition text_or_empty :: "jsval \<Rightarrow> string" where
  "text_or_empty v = to_string (js_or v (JStr []))"

definition createJwksValidator :: "string option \<Rightarrow> jsval \<Rightarrow> jwks_conf" where
  "createJwksValidator var entry =
     \<lparr>jc_url = text_or_empty (js_or (obj_get entry ''jwks_url'') (obj_get entry ''jwksUrl'')),
      jc_iss = text_or_empty (obj_get entry ''iss''), jc_aud = text_or_empty (obj_get entry ''aud''),
      jc_maxTtl = max_ttl_seconds var\<rparr>"

section \<open>The key set\<close>

definition jwk_kid :: "jsval \<Rightarrow> string option" where
  "jwk_kid jwk = (case obj_get jwk ''kid'' of
     JStr kid \<Rightarrow> if kid = [] \<or> obj_get jwk ''kty'' \<noteq> JStr ''RSA''
         \<or> truthy (obj_get jwk ''use'') \<and> obj_get jwk ''use'' \<noteq> JStr ''sig'' then None else Some kid
   | _ \<Rightarrow> None)"

definition jwk_add :: "'k jwks_lib \<Rightarrow> jsval \<Rightarrow> (string, 'k) jsmap \<Rightarrow> (string, 'k) jsmap" where
  "jwk_add L jwk m = (case jwk_kid jwk of None \<Rightarrow> m | Some kid \<Rightarrow> (case lb_import L jwk of None \<Rightarrow> m | Some key \<Rightarrow> jset kid key m))"

definition jwk_keys :: "'k jwks_lib \<Rightarrow> jsval \<Rightarrow> (string, 'k) jsmap" where
  "jwk_keys L data = fold (jwk_add L) (case obj_get data ''keys'' of JArr vs \<Rightarrow> vs | _ \<Rightarrow> []) []"

text \<open>The answer of the endpoint: an error, or a status, the bytes received and the parsed body.\<close>

datatype jwks_reply = NoReply string | Reply nat nat "string + jsval"

definition requestJwks :: "'k jwks_lib \<Rightarrow> jwks_conf \<Rightarrow> jwks_reply \<Rightarrow> string + (string, 'k) jsmap" where
  "requestJwks L c reply =
     (case lb_url L (jc_url c) of
        None \<Rightarrow> Inl ''invalid jwks_url''
      | Some (protocol, host) \<Rightarrow>
          if protocol \<noteq> ''https:'' \<and> \<not> (protocol = ''http:'' \<and> isLoopbackHost host)
          then Inl ''jwks_url must use https (http allowed for loopback only)''
          else (case reply of
              NoReply m \<Rightarrow> Inl m
            | Reply status bytes body \<Rightarrow>
                if status < 200 \<or> 300 \<le> status then Inl (''JWKS fetch returned HTTP '' @ show_nat status)
                else if bytes > JWKS_MAX_RESPONSE_BYTES
                then Inl (''JWKS response exceeds '' @ show_nat JWKS_MAX_RESPONSE_BYTES @ '' bytes'')
                else (case body of Inl m \<Rightarrow> Inl ''JWKS response is not valid JSON''
                  | Inr data \<Rightarrow> if nullish data then Inl ''JWKS response is not valid JSON'' else Inr (jwk_keys L data))))"

section \<open>Tokens\<close>

text \<open>\<open>Inl\<close> is the reason of a refusal.\<close>

definition thrown :: "string \<Rightarrow> string" where
  "thrown m = ''error: '' @ (if m = [] then ''unknown'' else m)"

definition token_header :: "'k jwks_lib \<Rightarrow> jsval \<Rightarrow> string + (string \<times> string \<times> string) \<times> string" where
  "token_header L token =
     (case token of
        JStr t \<Rightarrow>
          (case split_on (CHR ''.'') t of
             [h, p, sg] \<Rightarrow>
               (case decodeBase64UrlJson L h of
                  Inl m \<Rightarrow> Inl (thrown m)
                | Inr header \<Rightarrow>
                    if obj_get header ''alg'' \<noteq> JStr ''RS256'' then Inl ''unsupported alg''
                    else (case obj_get header ''kid'' of
                        JStr kid \<Rightarrow> if kid = [] then Inl ''missing kid'' else Inr ((h, p, sg), kid)
                      | _ \<Rightarrow> Inl ''missing kid''))
           | _ \<Rightarrow> Inl ''malformed'')
      | _ \<Rightarrow> Inl ''not a string'')"

definition num_of :: "jsval \<Rightarrow> rat" where
  "num_of v = (case v of JNum (Fin r) \<Rightarrow> r | _ \<Rightarrow> 0)"

definition finite_num :: "jsval \<Rightarrow> bool" where
  "finite_num v \<longleftrightarrow> (case v of JNum n \<Rightarrow> is_finite n | _ \<Rightarrow> False)"

definition some_text :: "jsval \<Rightarrow> bool" where
  "some_text v \<longleftrightarrow> (case v of JStr s \<Rightarrow> s \<noteq> [] | _ \<Rightarrow> False)"

definition now_seconds :: "int \<Rightarrow> rat" where
  "now_seconds now = of_int (now div 1000)"

text \<open>The first of the checks of the claims that fails.\<close>

definition claim_refusal :: "jwks_conf \<Rightarrow> int \<Rightarrow> jsval \<Rightarrow> string option" where
  "claim_refusal c now p =
     (let nowSec = now_seconds now; exp = obj_get p ''exp''; nbf = obj_get p ''nbf''; iat = obj_get p ''iat'';
          aud = obj_get p ''aud''; identity = obj_get p ''identity'' in
      map_option snd (find fst [
        (\<not> is_plain_obj p \<and> \<not> is_array p, ''bad payload''),
        (\<not> finite_num exp, ''exp missing or not finite''),
        (num_of exp \<le> nowSec - JWKS_CLOCK_SKEW_SECONDS, ''expired''),
        (nbf \<noteq> JUndef \<and> \<not> finite_num nbf, ''nbf not finite''),
        (nbf \<noteq> JUndef \<and> num_of nbf > nowSec + JWKS_CLOCK_SKEW_SECONDS, ''not yet valid (nbf)''),
        (iat \<noteq> JUndef \<and> \<not> finite_num iat, ''iat not finite''),
        (iat \<noteq> JUndef \<and> num_of iat > nowSec + JWKS_CLOCK_SKEW_SECONDS, ''iat in the future''),
        (num_of exp - (if is_num iat then num_of iat else nowSec) > jc_maxTtl c, ''lifetime exceeds max ttl''),
        (num_of exp - nowSec > jc_maxTtl c + JWKS_CLOCK_SKEW_SECONDS, ''lifetime exceeds max ttl''),
        (obj_get p ''iss'' \<noteq> JStr (jc_iss c), ''wrong iss''),
        (case aud of JArr vs \<Rightarrow> JStr (jc_aud c) \<notin> set vs | _ \<Rightarrow> aud \<noteq> JStr (jc_aud c), ''wrong aud''),
        (\<not> some_text (obj_get p ''realm''), ''missing realm claim''),
        (obj_get p ''role'' \<notin> JStr ` set VALID_ROLES, ''invalid role claim''),
        (\<not> some_text (obj_get p ''sub''), ''missing sub claim''),
        (identity \<noteq> JUndef \<and> \<not> some_text identity, ''invalid identity claim'')]))"

record jwks_claims =
  cl_realm :: string
  cl_role :: string
  cl_sub :: string
  cl_identity :: "string option"

definition claims_of :: "jsval \<Rightarrow> jwks_claims" where
  "claims_of p = \<lparr>cl_realm = to_string (obj_get p ''realm''), cl_role = to_string (obj_get p ''role''),
     cl_sub = to_string (obj_get p ''sub''),
     cl_identity = (case obj_get p ''identity'' of JStr s \<Rightarrow> Some s | _ \<Rightarrow> None)\<rparr>"

definition check_token :: "'k jwks_lib \<Rightarrow> jwks_conf \<Rightarrow> int \<Rightarrow> string \<times> string \<times> string \<Rightarrow> 'k \<Rightarrow> string + jwks_claims" where
  "check_token L c now parts key =
     (case parts of (h, p, sg) \<Rightarrow>
        if \<not> lb_verify L (h @ ''.'' @ p) key (decodeBase64Url sg) then Inl ''bad signature''
        else (case decodeBase64UrlJson L p of
            Inl m \<Rightarrow> Inl (thrown m)
          | Inr payload \<Rightarrow> (case claim_refusal c now payload of Some r \<Rightarrow> Inl r | None \<Rightarrow> Inr (claims_of payload))))"

section \<open>The validator\<close>

text \<open>\<open>None\<close> stands for minus infinity; a token that waits is its number, its time, its parts and its kid.\<close>

record 'k jwks =
  jw_cache :: "((string, 'k) jsmap \<times> int) option"
  jw_lastFetch :: "int option"
  jw_lastWarn :: "int option"
  jw_inflight :: "int option"
  jw_waiting :: "(nat \<times> int \<times> (string \<times> string \<times> string) \<times> string) list"
  jw_rejectAt :: "(string, int) jsmap"
  jw_log :: "string list"

definition jwks_empty :: "'k jwks" where
  "jwks_empty = \<lparr>jw_cache = None, jw_lastFetch = None, jw_lastWarn = None, jw_inflight = None, jw_waiting = [],
     jw_rejectAt = [], jw_log = []\<rparr>"

definition cooled :: "int \<Rightarrow> int option \<Rightarrow> bool" where
  "cooled now t \<longleftrightarrow> (case t of None \<Rightarrow> True | Some t0 \<Rightarrow> JWKS_REFETCH_COOLDOWN_MS \<le> now - t0)"

definition jwks_warn :: "string \<Rightarrow> int \<Rightarrow> 'k jwks \<Rightarrow> 'k jwks" where
  "jwks_warn m now s = (if cooled now (jw_lastWarn s) then s\<lparr>jw_lastWarn := Some now, jw_log := jw_log s @ [m]\<rparr> else s)"

definition jwks_reject :: "jwks_conf \<Rightarrow> string \<Rightarrow> int \<Rightarrow> 'k jwks \<Rightarrow> 'k jwks" where
  "jwks_reject c reason now s =
     (if cooled now (jget (jw_rejectAt s) reason)
      then s\<lparr>jw_rejectAt := jset reason now (jw_rejectAt s),
             jw_log := jw_log s @ [''JWKS: token rejected ('' @ reason @ '') for '' @ jc_url c]\<rparr>
      else s)"

datatype jwks_out = Fetch int | Answer nat "jwks_claims option"

definition fetchJwks :: "int \<Rightarrow> 'k jwks \<Rightarrow> jwks_out list \<times> 'k jwks" where
  "fetchJwks now s =
     (if jw_inflight s \<noteq> None then ([], s) else ([Fetch now], s\<lparr>jw_lastFetch := Some now, jw_inflight := Some now\<rparr>))"

definition cached_key :: "'k jwks \<Rightarrow> string \<Rightarrow> 'k option" where
  "cached_key s kid = (case jw_cache s of None \<Rightarrow> None | Some (keys, t) \<Rightarrow> jget keys kid)"

definition cache_stale :: "int \<Rightarrow> 'k jwks \<Rightarrow> bool" where
  "cache_stale now s \<longleftrightarrow> (case jw_cache s of None \<Rightarrow> False | Some (keys, t) \<Rightarrow> JWKS_CACHE_TTL_MS \<le> now - t)"

text \<open>The rest of \<open>verify\<close>, once no fetch is awaited.\<close>

definition settle_token ::
  "'k jwks_lib \<Rightarrow> jwks_conf \<Rightarrow> nat \<times> int \<times> (string \<times> string \<times> string) \<times> string \<Rightarrow> 'k jwks \<Rightarrow> jwks_out \<times> 'k jwks" where
  "settle_token L c w s =
     (case w of (i, now, parts, kid) \<Rightarrow>
        (case cached_key s kid of
           None \<Rightarrow> (Answer i None, jwks_reject c ''unknown kid'' now s)
         | Some key \<Rightarrow> (case check_token L c now parts key of
               Inl r \<Rightarrow> (Answer i None, jwks_reject c r now s)
             | Inr claims \<Rightarrow> (Answer i (Some claims), s))))"

fun settle_all ::
  "'k jwks_lib \<Rightarrow> jwks_conf \<Rightarrow> (nat \<times> int \<times> (string \<times> string \<times> string) \<times> string) list \<Rightarrow> 'k jwks \<Rightarrow> jwks_out list \<times> 'k jwks" where
  "settle_all L c [] s = ([], s)"
| "settle_all L c (w # ws) s =
     (let (o1, s1) = settle_token L c w s; (os, s2) = settle_all L c ws s1 in (o1 # os, s2))"

definition jwks_verify :: "'k jwks_lib \<Rightarrow> jwks_conf \<Rightarrow> nat \<Rightarrow> int \<Rightarrow> jsval \<Rightarrow> 'k jwks \<Rightarrow> jwks_out list \<times> 'k jwks" where
  "jwks_verify L c i now token s =
     (case token_header L token of
        Inl r \<Rightarrow> ([Answer i None], jwks_reject c r now s)
      | Inr (parts, kid) \<Rightarrow>
          (let await = (\<lambda>s. s\<lparr>jw_waiting := jw_waiting s @ [(i, now, parts, kid)]\<rparr>);
               settle = (\<lambda>s. let (a, s') = settle_token L c (i, now, parts, kid) s in ([a], s')) in
           if cached_key s kid = None
           then (if cooled now (jw_lastFetch s) then (let (os, s') = fetchJwks now s in (os, await s'))
                 else if jw_inflight s \<noteq> None then ([], await s)
                 else settle s)
           else (let (os, s') = (if cache_stale now s \<and> cooled now (jw_lastFetch s) then fetchJwks now s else ([], s));
                     (as, s'') = settle s'
                 in (os @ as, s''))))"

definition store_reply :: "'k jwks_lib \<Rightarrow> jwks_conf \<Rightarrow> jwks_reply \<Rightarrow> int \<Rightarrow> 'k jwks \<Rightarrow> 'k jwks" where
  "store_reply L c reply t s =
     (case requestJwks L c reply of
        Inr keys \<Rightarrow> s\<lparr>jw_cache := Some (keys, t)\<rparr>
      | Inl m \<Rightarrow> jwks_warn (''JWKS fetch failed for '' @ jc_url c @ '': '' @ m) t s)"

definition jwks_fetched :: "'k jwks_lib \<Rightarrow> jwks_conf \<Rightarrow> jwks_reply \<Rightarrow> 'k jwks \<Rightarrow> jwks_out list \<times> 'k jwks" where
  "jwks_fetched L c reply s =
     (case jw_inflight s of
        None \<Rightarrow> ([], s)
      | Some t \<Rightarrow> settle_all L c (jw_waiting s) ((store_reply L c reply t s)\<lparr>jw_inflight := None, jw_waiting := []\<rparr>))"

datatype jwks_event = Verify nat int jsval | Fetched jwks_reply

fun jwks_step :: "'k jwks_lib \<Rightarrow> jwks_conf \<Rightarrow> jwks_event \<Rightarrow> 'k jwks \<Rightarrow> jwks_out list \<times> 'k jwks" where
  "jwks_step L c (Verify i now token) s = jwks_verify L c i now token s"
| "jwks_step L c (Fetched reply) s = jwks_fetched L c reply s"

fun jwks_run :: "'k jwks_lib \<Rightarrow> jwks_conf \<Rightarrow> jwks_event list \<Rightarrow> 'k jwks \<Rightarrow> jwks_out list \<times> 'k jwks" where
  "jwks_run L c [] s = ([], s)"
| "jwks_run L c (e # es) s = (let (o1, s1) = jwks_step L c e s; (o2, s2) = jwks_run L c es s1 in (o1 @ o2, s2))"

section \<open>Which tokens are accepted\<close>

text \<open>A token was presented, and the key its header names was in a key set the endpoint served.\<close>

definition presented_token :: "'k jwks_lib \<Rightarrow> jwks_event list \<Rightarrow> nat \<times> int \<times> (string \<times> string \<times> string) \<times> string \<Rightarrow> bool" where
  "presented_token L evs w \<longleftrightarrow> (case w of (i, now, parts, kid) \<Rightarrow>
     (\<exists>token. Verify i now token \<in> set evs \<and> token_header L token = Inr (parts, kid)))"

definition served_key :: "'k jwks_lib \<Rightarrow> jwks_conf \<Rightarrow> jwks_event list \<Rightarrow> string \<Rightarrow> 'k \<Rightarrow> bool" where
  "served_key L c evs kid key \<longleftrightarrow>
     (\<exists>reply keys. Fetched reply \<in> set evs \<and> requestJwks L c reply = Inr keys \<and> jget keys kid = Some key)"

definition jwks_inv :: "'k jwks_lib \<Rightarrow> jwks_conf \<Rightarrow> jwks_event list \<Rightarrow> 'k jwks \<Rightarrow> bool" where
  "jwks_inv L c evs s \<longleftrightarrow> (\<forall>kid key. cached_key s kid = Some key \<longrightarrow> served_key L c evs kid key)
     \<and> (\<forall>w \<in> set (jw_waiting s). presented_token L evs w)"

definition accepted_token :: "'k jwks_lib \<Rightarrow> jwks_conf \<Rightarrow> jwks_event list \<Rightarrow> nat \<Rightarrow> jwks_claims \<Rightarrow> bool" where
  "accepted_token L c evs i claims \<longleftrightarrow>
     (\<exists>now parts kid key. presented_token L evs (i, now, parts, kid) \<and> served_key L c evs kid key
        \<and> check_token L c now parts key = Inr claims)"

lemma jwks_log_simps [simp]:
  "jw_cache (jwks_reject c r now s) = jw_cache s" "jw_waiting (jwks_reject c r now s) = jw_waiting s"
  "jw_inflight (jwks_reject c r now s) = jw_inflight s" "jw_lastFetch (jwks_reject c r now s) = jw_lastFetch s"
  "jw_cache (jwks_warn m now s) = jw_cache s" "jw_waiting (jwks_warn m now s) = jw_waiting s"
  "jw_inflight (jwks_warn m now s) = jw_inflight s" "jw_lastFetch (jwks_warn m now s) = jw_lastFetch s"
  by (simp_all add: jwks_reject_def jwks_warn_def)

lemma cached_key_cong: "jw_cache s' = jw_cache s \<Longrightarrow> cached_key s' kid = cached_key s kid"
  by (simp add: cached_key_def)

lemma jwks_inv_cong: "jw_cache s' = jw_cache s \<Longrightarrow> jw_waiting s' = jw_waiting s \<Longrightarrow> jwks_inv L c evs s \<Longrightarrow> jwks_inv L c evs s'"
  by (simp add: jwks_inv_def cached_key_def)

lemma settle_token_keeps:
  assumes "settle_token L c w s = (a, s')"
  shows "jw_cache s' = jw_cache s" "jw_waiting s' = jw_waiting s" "jw_inflight s' = jw_inflight s" "jw_lastFetch s' = jw_lastFetch s"
    "\<exists>v. a = Answer (fst w) v"
  using assms by (auto simp: settle_token_def split: prod.splits option.splits sum.splits)

lemma settle_all_keeps:
  "settle_all L c ws s = (os, s') \<Longrightarrow> jw_cache s' = jw_cache s \<and> jw_waiting s' = jw_waiting s
     \<and> jw_inflight s' = jw_inflight s \<and> jw_lastFetch s' = jw_lastFetch s \<and> (\<forall>o1 \<in> set os. \<exists>i v. o1 = Answer i v)"
proof (induction ws arbitrary: s os s')
  case (Cons w ws)
  obtain a s1 os2 s2 where s1: "settle_token L c w s = (a, s1)" and s2: "settle_all L c ws s1 = (os2, s2)" by (metis surj_pair)
  from Cons.prems s1 s2 have "os = a # os2" "s' = s2" by simp_all
  with Cons.IH [OF s2] settle_token_keeps [OF s1] show ?case by auto
qed simp

lemma settle_token_accepts:
  assumes "settle_token L c w s = (Answer i (Some claims), s')" "jwks_inv L c evs s" "presented_token L evs w"
  shows "accepted_token L c evs i claims"
  using assms by (force simp: settle_token_def accepted_token_def jwks_inv_def split: prod.splits option.splits sum.splits)

lemma settle_all_accepts:
  "settle_all L c ws s = (os, s') \<Longrightarrow> jwks_inv L c evs s \<Longrightarrow> \<forall>w \<in> set ws. presented_token L evs w
    \<Longrightarrow> Answer i (Some claims) \<in> set os \<Longrightarrow> accepted_token L c evs i claims"
proof (induction ws arbitrary: s os s')
  case (Cons w ws)
  obtain a s1 os2 s2 where s1: "settle_token L c w s = (a, s1)" and s2: "settle_all L c ws s1 = (os2, s2)" by (metis surj_pair)
  from Cons.prems(1) s1 s2 have os: "os = a # os2" "s' = s2" by simp_all
  have inv1: "jwks_inv L c evs s1" using jwks_inv_cong [OF _ _ Cons.prems(2)] settle_token_keeps [OF s1] by blast
  show ?case
  proof (cases "a = Answer i (Some claims)")
    case True
    with s1 Cons.prems show ?thesis by (intro settle_token_accepts [of L c w s]) simp_all
  next
    case False
    with Cons.prems os have "Answer i (Some claims) \<in> set os2" by simp
    with Cons.IH [OF s2 inv1] Cons.prems show ?thesis by simp
  qed
qed simp

lemma fetchJwks_keeps:
  assumes "fetchJwks now s = (os, s')"
  shows "jw_cache s' = jw_cache s" "jw_waiting s' = jw_waiting s" "\<forall>o1 \<in> set os. o1 = Fetch now"
    "jw_inflight s' \<noteq> None"
  using assms by (auto simp: fetchJwks_def split: if_splits)

lemma jwks_step_accepts:
  assumes step: "jwks_step L c e s = (os, s')" and inv: "jwks_inv L c evs s" and e: "e \<in> set evs"
  shows "jwks_inv L c evs s' \<and> (\<forall>i claims. Answer i (Some claims) \<in> set os \<longrightarrow> accepted_token L c evs i claims)"
proof (cases e)
  case (Fetched reply)
  show ?thesis
  proof (cases "jw_inflight s")
    case None
    with step inv show ?thesis by (simp add: Fetched jwks_fetched_def)
  next
    case (Some t)
    define s1 where "s1 = store_reply L c reply t s"
    have settled: "settle_all L c (jw_waiting s) (s1\<lparr>jw_inflight := None, jw_waiting := []\<rparr>) = (os, s')"
      using step Some by (simp add: Fetched jwks_fetched_def s1_def)
    have "served_key L c evs kid key" if "cached_key s1 kid = Some key" for kid key
    proof (cases "requestJwks L c reply")
      case (Inl m)
      with that inv show ?thesis by (simp add: s1_def store_reply_def jwks_inv_def cached_key_def)
    next
      case (Inr keys)
      with that e show ?thesis by (auto simp: s1_def store_reply_def cached_key_def served_key_def Fetched)
    qed
    then have "jwks_inv L c evs (s1\<lparr>jw_inflight := None, jw_waiting := []\<rparr>)" by (simp add: jwks_inv_def cached_key_def)
    moreover have "\<forall>w \<in> set (jw_waiting s). presented_token L evs w" using inv by (simp add: jwks_inv_def)
    ultimately show ?thesis
      using settle_all_accepts [OF settled] jwks_inv_cong [of s' "s1\<lparr>jw_inflight := None, jw_waiting := []\<rparr>"] settle_all_keeps [OF settled]
      by blast
  qed
next
  case (Verify i now token)
  show ?thesis
  proof (cases "token_header L token")
    case (Inl r)
    with step inv show ?thesis using jwks_inv_cong [of s' s] by (auto simp: Verify jwks_verify_def)
  next
    case (Inr ph)
    obtain parts kid where ph: "ph = (parts, kid)" by (cases ph)
    have pt: "presented_token L evs (i, now, parts, kid)" using e Inr by (auto simp: presented_token_def Verify ph)
    obtain fo sf where f: "fetchJwks now s = (fo, sf)" by fastforce
    note fk = fetchJwks_keeps [OF f]
    have invf: "jwks_inv L c evs sf" using inv fk(1,2) by (rule jwks_inv_cong [rotated 2])
    have await: "jwks_inv L c evs (s0\<lparr>jw_waiting := jw_waiting s0 @ [(i, now, parts, kid)]\<rparr>)" if "jwks_inv L c evs s0" for s0
      using that pt by (auto simp: jwks_inv_def cached_key_def)
    have settle: "jwks_inv L c evs s2 \<and> (\<forall>claims. a = Answer j (Some claims) \<longrightarrow> accepted_token L c evs j claims)"
      if "jwks_inv L c evs s0" "settle_token L c (i, now, parts, kid) s0 = (a, s2)" for s0 s2 a j
      using that settle_token_keeps [OF that(2)] settle_token_accepts [of L c "(i, now, parts, kid)" s0 j _ s2 evs] pt jwks_inv_cong [of s2 s0] by auto
    from step Inr show ?thesis
      using await [OF inv] await [OF invf] settle [OF inv] settle [OF invf] inv invf fk
      by (auto simp: Verify jwks_verify_def ph f split: if_splits prod.splits)
  qed
qed

lemma jwks_run_accepts:
  "jwks_run L c es s = (os, s') \<Longrightarrow> jwks_inv L c evs s \<Longrightarrow> set es \<subseteq> set evs
    \<Longrightarrow> Answer i (Some claims) \<in> set os \<Longrightarrow> accepted_token L c evs i claims"
proof (induction es arbitrary: s os)
  case (Cons e es)
  obtain o1 s1 o2 s2 where 1: "jwks_step L c e s = (o1, s1)" and 2: "jwks_run L c es s1 = (o2, s2)" by (metis surj_pair)
  have "os = o1 @ o2" "s' = s2" using Cons.prems(1) 1 2 by simp_all
  with Cons jwks_step_accepts [OF 1 Cons.prems(2)] 2 show ?case by auto
qed simp

text \<open>What a token without a reason for refusal says.\<close>

lemma find_fst_None: "find fst xs = None \<longleftrightarrow> list_all (\<lambda>x. \<not> fst x) xs"
  by (auto simp: find_None_iff list_all_iff)

lemma claims_checked:
  assumes "claim_refusal c now p = None"
  shows "\<exists>e. obj_get p ''exp'' = JNum (Fin e) \<and> now_seconds now - 30 < e \<and> e \<le> now_seconds now + jc_maxTtl c + 30"
    "obj_get p ''nbf'' = JUndef \<or> (\<exists>n. obj_get p ''nbf'' = JNum (Fin n) \<and> n \<le> now_seconds now + 30)"
    "obj_get p ''iss'' = JStr (jc_iss c)"
    "obj_get p ''aud'' = JStr (jc_aud c) \<or> (\<exists>vs. obj_get p ''aud'' = JArr vs \<and> JStr (jc_aud c) \<in> set vs)"
    "obj_get p ''realm'' = JStr (cl_realm (claims_of p))" "cl_realm (claims_of p) \<noteq> []"
    "obj_get p ''role'' = JStr (cl_role (claims_of p))" "cl_role (claims_of p) \<in> set VALID_ROLES"
    "obj_get p ''sub'' = JStr (cl_sub (claims_of p))" "cl_sub (claims_of p) \<noteq> []"
    "obj_get p ''identity'' = (case cl_identity (claims_of p) of None \<Rightarrow> JUndef | Some s \<Rightarrow> JStr s)"
    "cl_identity (claims_of p) \<noteq> Some []"
proof -
  have num: "finite_num v \<Longrightarrow> \<exists>r. v = JNum (Fin r)" for v
    by (cases v) (auto simp: finite_num_def elim: is_finite.elims)
  have str: "some_text v \<Longrightarrow> \<exists>s. v = JStr s \<and> s \<noteq> []" for v by (cases v) (auto simp: some_text_def)
  note F = assms [unfolded claim_refusal_def Let_def JWKS_CLOCK_SKEW_SECONDS_def option.map_disc_iff find_fst_None, simplified]
  have exp: "finite_num (obj_get p ''exp'')" "now_seconds now - 30 < num_of (obj_get p ''exp'')"
      "num_of (obj_get p ''exp'') - now_seconds now \<le> jc_maxTtl c + 30"
    and nbf: "obj_get p ''nbf'' = JUndef \<or> finite_num (obj_get p ''nbf'') \<and> num_of (obj_get p ''nbf'') \<le> now_seconds now + 30"
    and aud: "\<not> (case obj_get p ''aud'' of JArr vs \<Rightarrow> JStr (jc_aud c) \<notin> set vs | _ \<Rightarrow> obj_get p ''aud'' \<noteq> JStr (jc_aud c))"
    and texts: "some_text (obj_get p ''realm'')" "some_text (obj_get p ''sub'')" "obj_get p ''role'' \<in> JStr ` set VALID_ROLES"
      "obj_get p ''identity'' = JUndef \<or> some_text (obj_get p ''identity'')"
    using F by linarith+
  show "\<exists>e. obj_get p ''exp'' = JNum (Fin e) \<and> now_seconds now - 30 < e \<and> e \<le> now_seconds now + jc_maxTtl c + 30"
    using exp num [of "obj_get p ''exp''"] by (auto simp: num_of_def)
  show "obj_get p ''nbf'' = JUndef \<or> (\<exists>n. obj_get p ''nbf'' = JNum (Fin n) \<and> n \<le> now_seconds now + 30)"
    using nbf num [of "obj_get p ''nbf''"] by (auto simp: num_of_def)
  show "obj_get p ''iss'' = JStr (jc_iss c)" using F by blast
  show "obj_get p ''aud'' = JStr (jc_aud c) \<or> (\<exists>vs. obj_get p ''aud'' = JArr vs \<and> JStr (jc_aud c) \<in> set vs)"
    using aud by (cases "obj_get p ''aud''") auto
  show "obj_get p ''realm'' = JStr (cl_realm (claims_of p))" "cl_realm (claims_of p) \<noteq> []"
    using str [OF texts(1)] by (auto simp: claims_of_def)
  show "obj_get p ''role'' = JStr (cl_role (claims_of p))" "cl_role (claims_of p) \<in> set VALID_ROLES"
    using texts(3) by (auto simp: claims_of_def)
  show "obj_get p ''sub'' = JStr (cl_sub (claims_of p))" "cl_sub (claims_of p) \<noteq> []"
    using str [OF texts(2)] by (auto simp: claims_of_def)
  show "obj_get p ''identity'' = (case cl_identity (claims_of p) of None \<Rightarrow> JUndef | Some s \<Rightarrow> JStr s)"
    "cl_identity (claims_of p) \<noteq> Some []"
    using texts(4) str [of "obj_get p ''identity''"] by (auto simp: claims_of_def)
qed

lemma check_token_Inr:
  "check_token L c now (h, p, sg) key = Inr claims \<longleftrightarrow>
     lb_verify L (h @ ''.'' @ p) key (decodeBase64Url sg)
     \<and> (\<exists>payload. decodeBase64UrlJson L p = Inr payload \<and> claim_refusal c now payload = None \<and> claims = claims_of payload)"
  by (auto simp: check_token_def split: sum.split option.split)

lemma token_header_Inr:
  assumes "token_header L token = Inr ((h, p, sg), kid)"
  shows "token = JStr (h @ ''.'' @ p @ ''.'' @ sg)"
    "\<exists>header. decodeBase64UrlJson L h = Inr header \<and> obj_get header ''alg'' = JStr ''RS256'' \<and> obj_get header ''kid'' = JStr kid"
proof -
  obtain t where t: "token = JStr t" using assms by (auto simp: token_header_def split: jsval.splits)
  have s: "split_on (CHR ''.'') t = [h, p, sg]"
    using assms by (auto simp: token_header_def t split: list.splits sum.splits if_splits jsval.splits)
  then show "token = JStr (h @ ''.'' @ p @ ''.'' @ sg)" using join_split_on [of "CHR ''.''" t] by (simp add: t)
  show "\<exists>header. decodeBase64UrlJson L h = Inr header \<and> obj_get header ''alg'' = JStr ''RS256'' \<and> obj_get header ''kid'' = JStr kid"
    using assms by (auto simp: token_header_def t s split: sum.splits if_splits jsval.splits)
qed

lemma jwks_accepted:
  assumes "Answer i (Some claims) \<in> set (fst (jwks_run L c evs jwks_empty))"
  obtains now h p sg kid key payload where "Verify i now (JStr (h @ ''.'' @ p @ ''.'' @ sg)) \<in> set evs"
    "token_header L (JStr (h @ ''.'' @ p @ ''.'' @ sg)) = Inr ((h, p, sg), kid)" "served_key L c evs kid key"
    "lb_verify L (h @ ''.'' @ p) key (decodeBase64Url sg)" "decodeBase64UrlJson L p = Inr payload"
    "claim_refusal c now payload = None" "claims = claims_of payload"
proof -
  obtain os s where run: "jwks_run L c evs jwks_empty = (os, s)" by fastforce
  have "jwks_inv L c evs jwks_empty" by (simp add: jwks_inv_def jwks_empty_def cached_key_def)
  with run assms have "accepted_token L c evs i claims" by (intro jwks_run_accepts [of L c evs jwks_empty os s evs]) simp_all
  then obtain now h p sg kid key token where v: "Verify i now token \<in> set evs" and th: "token_header L token = Inr ((h, p, sg), kid)"
      and k: "served_key L c evs kid key" and ck: "check_token L c now (h, p, sg) key = Inr claims"
    by (auto simp: accepted_token_def presented_token_def)
  from v th k ck token_header_Inr(1) [OF th] that show thesis by (auto simp: check_token_Inr)
qed

text \<open>
  C19. Soundness of offline validation: in any run of tokens and answers of the endpoint, an accepted token
  was presented, is an RS256 token that verifies under the key of its kid in a key set which the endpoint
  served over a permitted URL, is not expired, lives at most the configured time from now, and names the
  configured issuer and audience; realm, role, subject and identity are those of its signed payload.
\<close>

theorem jwks_sound:
  assumes "Answer i (Some claims) \<in> set (fst (jwks_run L c evs jwks_empty))"
  shows "\<exists>now h p sg header kid key payload e.
      Verify i now (JStr (h @ ''.'' @ p @ ''.'' @ sg)) \<in> set evs
    \<and> decodeBase64UrlJson L h = Inr header \<and> obj_get header ''alg'' = JStr ''RS256'' \<and> obj_get header ''kid'' = JStr kid
    \<and> served_key L c evs kid key \<and> lb_verify L (h @ ''.'' @ p) key (decodeBase64Url sg)
    \<and> decodeBase64UrlJson L p = Inr payload
    \<and> obj_get payload ''exp'' = JNum (Fin e) \<and> now_seconds now - 30 < e \<and> e \<le> now_seconds now + jc_maxTtl c + 30
    \<and> obj_get payload ''iss'' = JStr (jc_iss c)
    \<and> (obj_get payload ''aud'' = JStr (jc_aud c) \<or> (\<exists>vs. obj_get payload ''aud'' = JArr vs \<and> JStr (jc_aud c) \<in> set vs))
    \<and> obj_get payload ''realm'' = JStr (cl_realm claims) \<and> cl_realm claims \<noteq> []
    \<and> obj_get payload ''role'' = JStr (cl_role claims) \<and> cl_role claims \<in> set VALID_ROLES
    \<and> obj_get payload ''sub'' = JStr (cl_sub claims)
    \<and> obj_get payload ''identity'' = (case cl_identity claims of None \<Rightarrow> JUndef | Some s \<Rightarrow> JStr s)"
proof -
  from assms obtain now h p sg kid key payload where t: "Verify i now (JStr (h @ ''.'' @ p @ ''.'' @ sg)) \<in> set evs"
    "token_header L (JStr (h @ ''.'' @ p @ ''.'' @ sg)) = Inr ((h, p, sg), kid)" "served_key L c evs kid key"
    "lb_verify L (h @ ''.'' @ p) key (decodeBase64Url sg)" "decodeBase64UrlJson L p = Inr payload"
    "claim_refusal c now payload = None" "claims = claims_of payload" by (rule jwks_accepted)
  from token_header_Inr(2) [OF t(2)] claims_checked [OF t(6)] t show ?thesis by blast
qed

definition sample_jwks_lib :: "jsval jwks_lib" where
  "sample_jwks_lib = \<lparr>lb_json = (\<lambda>s. if s = ''head'' then Inr (JObj [(''alg'', JStr ''RS256''), (''kid'', JStr ''k1'')])
       else if s = ''body'' then Inr (JObj [(''exp'', JNum (Fin 1600)), (''iss'', JStr ''id''), (''aud'', JStr ''mq''),
         (''realm'', JStr ''chat''), (''role'', JStr ''both''), (''sub'', JStr ''u1''), (''identity'', JStr ''alice'')])
       else Inl (''Unexpected token in '' @ s)),
     lb_url = (\<lambda>u. Some (''https:'', u)), lb_import = (\<lambda>jwk. Some (obj_get jwk ''n'')),
     lb_verify = (\<lambda>signed key sg. signed = ''head.body'' \<and> key = JStr ''modulus'' \<and> sg = ''good'')\<rparr>"

definition sample_jwks_conf :: jwks_conf where
  "sample_jwks_conf = \<lparr>jc_url = ''https://id/jwks'', jc_iss = ''id'', jc_aud = ''mq'', jc_maxTtl = 3600\<rparr>"

definition sample_key_set :: jwks_reply where
  "sample_key_set = Reply 200 100 (Inr (JObj [(''keys'', JArr [JObj [(''kid'', JStr ''k1''), (''kty'', JStr ''RSA''), (''n'', JStr ''modulus'')]])]))"

text \<open>Two tokens arrive before the key set; the second has another signature.\<close>

definition sample_jwks_events :: "jwks_event list" where
  "sample_jwks_events = [Verify 1 1000000 (JStr ''head.body.good''), Verify 2 1000001 (JStr ''head.body.bad1''), Fetched sample_key_set]"

lemma sample_jwks_check:
  "check_token sample_jwks_lib sample_jwks_conf 1000000 (''head'', ''body'', ''good'') (JStr ''modulus'')
     = Inr \<lparr>cl_realm = ''chat'', cl_role = ''both'', cl_sub = ''u1'', cl_identity = Some ''alice''\<rparr>"
  by (simp add: check_token_def decodeBase64UrlJson_def decodeBase64Url_def sample_jwks_lib_def sample_jwks_conf_def
      claim_refusal_def claims_of_def Let_def finite_num_def num_of_def some_text_def now_seconds_def
      JWKS_CLOCK_SKEW_SECONDS_def VALID_ROLES_def)

lemma sample_jwks_keys: "requestJwks sample_jwks_lib sample_jwks_conf sample_key_set = Inr [(''k1'', JStr ''modulus'')]"
  by (simp add: requestJwks_def sample_jwks_lib_def sample_jwks_conf_def sample_key_set_def JWKS_MAX_RESPONSE_BYTES_def
      nullish_def jwk_keys_def jwk_add_def jwk_kid_def)

lemma sample_jwks_headers:
  "token_header sample_jwks_lib (JStr ''head.body.good'') = Inr ((''head'', ''body'', ''good''), ''k1'')"
  "token_header sample_jwks_lib (JStr ''head.body.bad1'') = Inr ((''head'', ''body'', ''bad1''), ''k1'')"
  by code_simp+

lemma sample_jwks_run:
  "fst (jwks_run sample_jwks_lib sample_jwks_conf sample_jwks_events jwks_empty)
     = [Fetch 1000000, Answer 1 (Some \<lparr>cl_realm = ''chat'', cl_role = ''both'', cl_sub = ''u1'', cl_identity = Some ''alice''\<rparr>), Answer 2 None]"
proof -
  have c: "check_token sample_jwks_lib sample_jwks_conf 1000001 (''head'', ''body'', ''bad1'') (JStr ''modulus'') = Inl ''bad signature''"
    by (simp add: check_token_def sample_jwks_lib_def decodeBase64Url_def)
  show ?thesis
    by (simp add: sample_jwks_events_def jwks_verify_def sample_jwks_headers jwks_empty_def cached_key_def cooled_def fetchJwks_def
        jwks_fetched_def store_reply_def sample_jwks_keys settle_token_def sample_jwks_check c JWKS_REFETCH_COOLDOWN_MS_def)
qed

theorem jwks_sound_witness:
  "fst (jwks_run sample_jwks_lib sample_jwks_conf sample_jwks_events jwks_empty)
     = [Fetch 1000000, Answer 1 (Some \<lparr>cl_realm = ''chat'', cl_role = ''both'', cl_sub = ''u1'', cl_identity = Some ''alice''\<rparr>), Answer 2 None]
   \<and> (\<exists>kid key. served_key sample_jwks_lib sample_jwks_conf sample_jwks_events kid key)"
  using jwks_sound [of 1 "\<lparr>cl_realm = ''chat'', cl_role = ''both'', cl_sub = ''u1'', cl_identity = Some ''alice''\<rparr>"
      sample_jwks_lib sample_jwks_conf sample_jwks_events] sample_jwks_run by auto

section \<open>Fetches\<close>

definition fetch_times :: "jwks_out list \<Rightarrow> int list" where
  "fetch_times os = List.map_filter (\<lambda>x. case x of Fetch t \<Rightarrow> Some t | Answer i v \<Rightarrow> None) os"

lemma fetch_times_simps [simp]:
  "fetch_times [] = []" "fetch_times (Fetch t # os) = t # fetch_times os" "fetch_times (Answer i v # os) = fetch_times os"
  "fetch_times (os @ os') = fetch_times os @ fetch_times os'"
  by (simp_all add: fetch_times_def map_filter_def)

lemma fetch_times_answers: "\<forall>x \<in> set os. \<exists>i v. x = Answer i v \<Longrightarrow> fetch_times os = []"
  by (induction os) auto

lemma fetchJwks_cases:
  "fetchJwks now s = (os, s') \<Longrightarrow> os = [] \<and> s' = s \<or> os = [Fetch now] \<and> jw_lastFetch s' = Some now"
  by (auto simp: fetchJwks_def split: if_splits)

lemma jwks_step_fetch:
  assumes "jwks_step L c e s = (os, s')"
  shows "fetch_times os = [] \<and> jw_lastFetch s' = jw_lastFetch s
    \<or> (\<exists>t. fetch_times os = [t] \<and> cooled t (jw_lastFetch s) \<and> jw_lastFetch s' = Some t)"
proof (cases e)
  case (Fetched reply)
  show ?thesis
  proof (cases "jw_inflight s")
    case None
    with assms show ?thesis by (simp add: Fetched jwks_fetched_def)
  next
    case (Some t)
    define s1 where "s1 = store_reply L c reply t s"
    have s1: "settle_all L c (jw_waiting s) (s1\<lparr>jw_inflight := None, jw_waiting := []\<rparr>) = (os, s')" "jw_lastFetch s1 = jw_lastFetch s"
      using assms Some by (auto simp: Fetched jwks_fetched_def s1_def store_reply_def split: sum.split)
    from settle_all_keeps [OF s1(1)] s1(2) fetch_times_answers [of os] show ?thesis by auto
  qed
next
  case (Verify i now token)
  show ?thesis
  proof (cases "token_header L token")
    case (Inl r)
    with assms show ?thesis by (auto simp: Verify jwks_verify_def)
  next
    case (Inr ph)
    obtain parts kid where ph: "ph = (parts, kid)" by (cases ph)
    obtain fo sf where f: "fetchJwks now s = (fo, sf)" by fastforce
    have settle: "(\<exists>v. a = Answer i v) \<and> jw_lastFetch s2 = jw_lastFetch s0"
      if "settle_token L c (i, now, parts, kid) s0 = (a, s2)" for s0 s2 a
      using settle_token_keeps [OF that] by auto
    from assms Inr settle [of s] settle [of sf] fetchJwks_cases [OF f] show ?thesis
      by (fastforce simp: Verify jwks_verify_def ph f split: if_splits prod.splits)
  qed
qed

text \<open>
  C20. Whatever tokens arrive and however the endpoint behaves, two fetches of the key set start at least
  a minute apart.
\<close>

theorem jwks_fetch_throttled:
  "sorted_wrt (\<lambda>t t'. JWKS_REFETCH_COOLDOWN_MS \<le> t' - t) (fetch_times (fst (jwks_run L c evs jwks_empty)))"
proof -
  have "sorted_wrt (\<lambda>t t'. JWKS_REFETCH_COOLDOWN_MS \<le> t' - t) (fetch_times (fst (jwks_run L c evs s)))
    \<and> list_all (\<lambda>t. cooled t (jw_lastFetch s)) (fetch_times (fst (jwks_run L c evs s)))" for s
  proof (induction evs arbitrary: s)
    case (Cons e evs)
    obtain o1 s1 o2 s2 where 1: "jwks_step L c e s = (o1, s1)" and 2: "jwks_run L c evs s1 = (o2, s2)" by (metis surj_pair)
    have os: "fst (jwks_run L c (e # evs) s) = o1 @ o2" by (simp add: 1 2)
    have later: "cooled t l" if "cooled t (Some t0)" "cooled t0 l" for t t0 l
      using that by (auto simp: cooled_def JWKS_REFETCH_COOLDOWN_MS_def split: option.splits)
    from jwks_step_fetch [OF 1] Cons.IH [of s1] later show ?case
      unfolding os by (auto simp: 2 list_all_iff cooled_def)
  qed simp
  then show ?thesis by blast
qed

section \<open>Outages and rotation\<close>

lemma jwks_failing_step:
  assumes "jwks_step L c e s = (os, s')" "\<And>reply. e = Fetched reply \<Longrightarrow> \<exists>m. requestJwks L c reply = Inl m"
  shows "jw_cache s' = jw_cache s"
proof (cases e)
  case (Fetched reply)
  obtain m where "requestJwks L c reply = Inl m" using assms(2) [OF Fetched] by blast
  with assms(1) settle_all_keeps show ?thesis
    by (fastforce simp: Fetched jwks_fetched_def store_reply_def split: option.splits)
next
  case (Verify i now token)
  obtain fo sf where f: "fetchJwks now s = (fo, sf)" by fastforce
  have settle: "jw_cache s2 = jw_cache s0" if "settle_token L c (i, now, parts, kid) s0 = (a, s2)" for s0 s2 a parts kid
    using settle_token_keeps [OF that] by simp
  from assms(1) settle fetchJwks_keeps(1) [OF f] show ?thesis
    by (fastforce simp: Verify jwks_verify_def f Let_def split: sum.splits prod.splits if_splits)
qed

lemma jwks_run_append:
  "jwks_run L c (es @ es') s = (let (o1, s1) = jwks_run L c es s; (o2, s2) = jwks_run L c es' s1 in (o1 @ o2, s2))"
  by (induction es arbitrary: s) (simp_all add: split_beta Let_def)

lemma jwks_failing_run:
  "jwks_run L c es s = (os, s') \<Longrightarrow> (\<And>reply. Fetched reply \<in> set es \<Longrightarrow> \<exists>m. requestJwks L c reply = Inl m)
    \<Longrightarrow> jw_cache s' = jw_cache s"
proof (induction es arbitrary: s os)
  case (Cons e es)
  obtain o1 s1 o2 s2 where 1: "jwks_step L c e s = (o1, s1)" and 2: "jwks_run L c es s1 = (o2, s2)" by (metis surj_pair)
  have s': "s' = s2" using Cons.prems(1) 1 2 by simp
  with jwks_failing_step [OF 1] Cons.IH [of s1 o2] 2 Cons.prems(2) show ?case by auto
qed simp

lemma settle_token_ok:
  "cached_key s kid = Some key \<Longrightarrow> check_token L c now parts key = Inr claims
    \<Longrightarrow> settle_token L c (i, now, parts, kid) s = (Answer i (Some claims), s)"
  by (simp add: settle_token_def)

text \<open>
  Keys outlive an outage: once a key is cached, a token that verifies under it is accepted however many
  tokens came before and however many fetches failed since.
\<close>

theorem jwks_survives_outage:
  assumes "cached_key s kid = Some key" "token_header L token = Inr (parts, kid)" "check_token L c now parts key = Inr claims"
    and "\<And>reply. Fetched reply \<in> set evs \<Longrightarrow> \<exists>m. requestJwks L c reply = Inl m"
  shows "Answer i (Some claims) \<in> set (fst (jwks_run L c (evs @ [Verify i now token]) s))"
proof -
  obtain os s' where run: "jwks_run L c evs s = (os, s')" by fastforce
  have k: "cached_key s' kid = Some key" using jwks_failing_run [OF run assms(4)] assms(1) by (simp add: cached_key_def)
  obtain fo sf where f: "fetchJwks now s' = (fo, sf)" by fastforce
  have kf: "cached_key sf kid = Some key" using k fetchJwks_keeps(1) [OF f] by (simp add: cached_key_def)
  have "Answer i (Some claims) \<in> set (fst (jwks_step L c (Verify i now token) s'))"
    using k assms(2) settle_token_ok [OF k assms(3), of i] settle_token_ok [OF kf assms(3), of i]
    by (simp add: jwks_verify_def f split_beta Let_def)
  then show ?thesis by (simp add: jwks_run_append run split_beta Let_def)
qed

definition warm_jwks :: "jsval jwks" where
  "warm_jwks = jwks_empty\<lparr>jw_cache := Some ([(''k1'', JStr ''modulus'')], 0), jw_lastFetch := Some 0\<rparr>"

theorem jwks_survives_outage_witness:
  "Answer 1 (Some \<lparr>cl_realm = ''chat'', cl_role = ''both'', cl_sub = ''u1'', cl_identity = Some ''alice''\<rparr>)
     \<in> set (fst (jwks_run sample_jwks_lib sample_jwks_conf
        ([Verify 0 900000 (JStr ''junk''), Fetched (NoReply ''timeout'')] @ [Verify 1 1000000 (JStr ''head.body.good'')]) warm_jwks))"
proof (rule jwks_survives_outage)
  show "cached_key warm_jwks ''k1'' = Some (JStr ''modulus'')" by (simp add: warm_jwks_def cached_key_def)
  show "Fetched reply \<in> set [Verify 0 900000 (JStr ''junk''), Fetched (NoReply ''timeout'')]
      \<Longrightarrow> \<exists>m. requestJwks sample_jwks_lib sample_jwks_conf reply = Inl m" for reply
    by (simp add: requestJwks_def sample_jwks_lib_def)
qed (rule sample_jwks_headers sample_jwks_check)+

text \<open>A key that appears after a rotation is found by the first token that names it a minute after the last fetch.\<close>

lemma jwks_rotation:
  assumes "jw_inflight s = None" "jw_waiting s = []" "cached_key s kid = None" "cooled now (jw_lastFetch s)"
    and "requestJwks L c reply = Inr keys" "jget keys kid = Some key"
    and "token_header L token = Inr (parts, kid)" "check_token L c now parts key = Inr claims"
  shows "fst (jwks_run L c [Verify i now token, Fetched reply] s) = [Fetch now, Answer i (Some claims)]"
  using assms by (simp add: jwks_verify_def fetchJwks_def jwks_fetched_def store_reply_def settle_token_def cached_key_def)

text \<open>
  The reason of a refusal contains the message of the parser, which may quote the token: it reaches the
  log, and tokens with different messages are each logged and remembered, in one instant and without bound.
\<close>

lemma jwks_log_flood:
  assumes "\<forall>t \<in> set tokens. token_header L (JStr t) = Inl (thrown (m t))" "inj_on (thrown \<circ> m) (set tokens)" "distinct tokens"
  shows "jw_log (snd (jwks_run L c (map (\<lambda>t. Verify 0 now (JStr t)) tokens) jwks_empty))
      = map (\<lambda>t. ''JWKS: token rejected ('' @ thrown (m t) @ '') for '' @ jc_url c) tokens
    \<and> length (jw_rejectAt (snd (jwks_run L c (map (\<lambda>t. Verify 0 now (JStr t)) tokens) jwks_empty))) = length tokens"
proof -
  have "thrown (m t) \<notin> fst ` set (jw_rejectAt s) \<Longrightarrow> token_header L (JStr t) = Inl (thrown (m t)) \<Longrightarrow>
      jwks_step L c (Verify 0 now (JStr t)) s = ([Answer 0 None], s\<lparr>jw_rejectAt := jw_rejectAt s @ [(thrown (m t), now)],
        jw_log := jw_log s @ [''JWKS: token rejected ('' @ thrown (m t) @ '') for '' @ jc_url c]\<rparr>)" for t s
    by (auto simp: jwks_verify_def jwks_reject_def cooled_def jset_fresh split: option.split dest!: jget_in_keys)
  note step = this
  have "\<forall>t \<in> set ts. token_header L (JStr t) = Inl (thrown (m t)) \<Longrightarrow> inj_on (thrown \<circ> m) (set ts) \<Longrightarrow> distinct ts
    \<Longrightarrow> fst ` set (jw_rejectAt s) \<inter> (thrown \<circ> m) ` set ts = {}
    \<Longrightarrow> jw_log (snd (jwks_run L c (map (\<lambda>t. Verify 0 now (JStr t)) ts) s))
         = jw_log s @ map (\<lambda>t. ''JWKS: token rejected ('' @ thrown (m t) @ '') for '' @ jc_url c) ts
      \<and> length (jw_rejectAt (snd (jwks_run L c (map (\<lambda>t. Verify 0 now (JStr t)) ts) s))) = length (jw_rejectAt s) + length ts" for ts s
  proof (induction ts arbitrary: s)
    case (Cons t ts)
    define s1 where "s1 = s\<lparr>jw_rejectAt := jw_rejectAt s @ [(thrown (m t), now)],
        jw_log := jw_log s @ [''JWKS: token rejected ('' @ thrown (m t) @ '') for '' @ jc_url c]\<rparr>"
    have 1: "jwks_step L c (Verify 0 now (JStr t)) s = ([Answer 0 None], s1)"
      unfolding s1_def using Cons.prems by (intro step) auto
    have "fst ` set (jw_rejectAt s1) \<inter> (thrown \<circ> m) ` set ts = {}"
      using Cons.prems by (auto simp: s1_def inj_on_def)
    with Cons.IH [of s1] Cons.prems 1 show ?case by (simp add: split_beta Let_def s1_def)
  qed simp
  from this [of tokens jwks_empty] assms show ?thesis by (simp add: jwks_empty_def)
qed

end
