(* ===== verification/Handshake.thy ===== *)
theory Handshake
  imports Access Jwks
begin

text \<open>
  The AUTHENTICATION handshake (\<open>lib/server.js\<close>): who a socket is after it presents nothing, a realm key
  or a token. Tokens are checked against the keys of their realm, the global secret and the configured
  tokens first; only then an external validator is asked, whose answer is an event of its own. HMAC and
  the decoding of JSON are parameters.
\<close>

section \<open>Tokens with a shared secret\<close>

record auth_result =
  ar_realm :: string
  ar_role :: string
  ar_identity :: "string option"

text \<open>\<open>sl_hmac secret text\<close> is the base64 text of the HMAC; \<open>sl_json\<close> parses base64 text, \<open>sl_parse\<close> plain text.\<close>

record secret_lib =
  sl_hmac :: "string \<Rightarrow> string \<Rightarrow> string"
  sl_json :: "string \<Rightarrow> jsval option"
  sl_parse :: "string \<Rightarrow> jsval option"
  sl_hash :: "string \<Rightarrow> string"

definition jwt_part :: "secret_lib \<Rightarrow> string \<Rightarrow> jsval option" where
  "jwt_part L v = sl_json L (decodeBase64Url v @ replicate ((4 - length v mod 4) mod 4) (CHR ''=''))"

definition encodeBase64Url :: "string \<Rightarrow> string" where
  "encodeBase64Url b64 = map (\<lambda>c. if c = CHR ''+'' then CHR ''-'' else if c = CHR ''/'' then CHR ''_'' else c)
     (filter (\<lambda>c. c \<noteq> CHR ''='') b64)"

definition jwt_parts :: "string \<Rightarrow> (string \<times> string \<times> string) option" where
  "jwt_parts token = (case split_on (CHR ''.'') token of [h, p, sg] \<Rightarrow> Some (h, p, sg) | _ \<Rightarrow> None)"

definition jwt_expired :: "int \<Rightarrow> jsval \<Rightarrow> bool" where
  "jwt_expired now payload \<longleftrightarrow>
     truthy (obj_get payload ''exp'') \<and> num_le (to_number (obj_get payload ''exp'')) (Fin (now_seconds now))
   \<or> truthy (obj_get payload ''nbf'') \<and> num_lt (Fin (now_seconds now)) (to_number (obj_get payload ''nbf''))"

text \<open>\<open>None\<close> when it returns null or throws: its callers go on in both cases.\<close>

definition validateJwtToken :: "secret_lib \<Rightarrow> int \<Rightarrow> string \<Rightarrow> jsval \<Rightarrow> auth_result option" where
  "validateJwtToken L now token secret =
     (case (jwt_parts token, secret) of
        (Some (h, p, sg), JStr key) \<Rightarrow>
          (case (jwt_part L h, jwt_part L p) of
             (Some header, Some payload) \<Rightarrow>
               if obj_get header ''alg'' \<noteq> JStr ''HS256'' \<or> encodeBase64Url (sl_hmac L key (h @ ''.'' @ p)) \<noteq> sg
                 \<or> jwt_expired now payload \<or> \<not> truthy (obj_get payload ''realm'') \<or> \<not> truthy (obj_get payload ''role'')
               then None
               else Some \<lparr>ar_realm = to_string (obj_get payload ''realm''), ar_role = to_string (obj_get payload ''role''), ar_identity = None\<rparr>
           | _ \<Rightarrow> None)
      | _ \<Rightarrow> None)"

definition peekJwtRealm :: "secret_lib \<Rightarrow> bool \<Rightarrow> string \<Rightarrow> string option" where
  "peekJwtRealm L anyAlg token =
     (case jwt_parts token of
        None \<Rightarrow> None
      | Some (h, p, sg) \<Rightarrow>
          (case (jwt_part L h, jwt_part L p) of
             (Some header, Some payload) \<Rightarrow>
               if nullish header \<or> obj_get header ''alg'' \<noteq> JStr ''HS256'' \<and> \<not> anyAlg \<or> \<not> truthy (obj_get payload ''realm'') then None
               else Some (to_string (obj_get payload ''realm''))
           | _ \<Rightarrow> None))"

section \<open>External validators\<close>

text \<open>Texts are empty when they are not configured.\<close>

record external_entry =
  xe_prefix :: string
  xe_auth_url :: string
  xe_secret :: string
  xe_jwks_url :: string
  xe_iss :: string
  xe_aud :: string

record static_token =
  st_token :: string
  st_realm :: string
  st_role :: string

record token_settings =
  ts_custom :: bool
  ts_realm_urls :: "(string, string \<times> string) jsmap"
  ts_external :: "external_entry list"
  ts_auth_url :: string
  ts_auth_secret :: string
  ts_jwt_secret :: jsval
  ts_tokens :: "static_token list"

datatype token_scope = AnyRealm | OneRealm string | RealmPrefix string

datatype token_validator = CustomValidator | CallbackUrl string string | JwksEntry external_entry

definition first_text :: "string \<Rightarrow> string \<Rightarrow> string" where
  "first_text a b = (if a \<noteq> [] then a else b)"

definition entry_applies :: "string \<Rightarrow> external_entry \<Rightarrow> bool" where
  "entry_applies hint e \<longleftrightarrow> xe_prefix e \<noteq> [] \<and> (xe_auth_url e \<noteq> [] \<or> xe_jwks_url e \<noteq> []) \<and> starts_with (xe_prefix e) hint"

definition better_entry :: "string \<Rightarrow> external_entry option \<Rightarrow> external_entry \<Rightarrow> external_entry option" where
  "better_entry hint best e =
     (if \<not> entry_applies hint e then best
      else case best of None \<Rightarrow> Some e | Some b \<Rightarrow> if length (xe_prefix e) > length (xe_prefix b) then Some e else best)"

definition prefix_validator :: "token_settings \<Rightarrow> external_entry \<Rightarrow> token_validator \<times> token_scope" where
  "prefix_validator T b =
     (if xe_jwks_url b \<noteq> [] then (JwksEntry b, RealmPrefix (xe_prefix b))
      else (CallbackUrl (xe_auth_url b) (first_text (xe_secret b) (ts_auth_secret T)), RealmPrefix (xe_prefix b)))"

definition global_validator :: "token_settings \<Rightarrow> (token_validator \<times> token_scope) option" where
  "global_validator T = (if ts_auth_url T \<noteq> [] then Some (CallbackUrl (ts_auth_url T) (ts_auth_secret T), AnyRealm) else None)"

definition realm_callback :: "token_settings \<Rightarrow> string \<Rightarrow> (token_validator \<times> token_scope) option" where
  "realm_callback T realm = (case jget (ts_realm_urls T) realm of None \<Rightarrow> None
     | Some (url, secret) \<Rightarrow> if url = [] then None
         else Some (CallbackUrl url (first_text secret (ts_auth_secret T)), OneRealm realm))"

definition resolveExternalValidator :: "token_settings \<Rightarrow> string option \<Rightarrow> (token_validator \<times> token_scope) option" where
  "resolveExternalValidator T hint =
     (if \<not> str_truthy hint then global_validator T
      else (case realm_callback T (str_or hint []) of
              Some v \<Rightarrow> Some v
            | None \<Rightarrow>
                (case foldl (better_entry (str_or hint [])) None (ts_external T) of
                   Some b \<Rightarrow> Some (prefix_validator T b)
                 | None \<Rightarrow> global_validator T)))"

definition in_scope :: "token_scope \<Rightarrow> string \<Rightarrow> bool" where
  "in_scope sc realm \<longleftrightarrow> (case sc of AnyRealm \<Rightarrow> True | OneRealm r \<Rightarrow> realm = r | RealmPrefix p \<Rightarrow> starts_with p realm)"

text \<open>The answer of a callback: status and parsed body (\<open>None\<close> when it is not JSON).\<close>

definition validateExternalToken :: "nat \<Rightarrow> jsval option \<Rightarrow> auth_result option" where
  "validateExternalToken status body =
     (case body of
        None \<Rightarrow> None
      | Some data \<Rightarrow>
          if status < 200 \<or> 300 \<le> status \<or> obj_get data ''valid'' = JBool False \<or> obj_get data ''ok'' = JBool False
            \<or> \<not> truthy (obj_get data ''realm'') \<or> \<not> truthy (obj_get data ''role'') then None
          else Some \<lparr>ar_realm = to_string (obj_get data ''realm''), ar_role = to_string (obj_get data ''role''), ar_identity = None\<rparr>)"

definition jwks_result :: "jwks_claims \<Rightarrow> auth_result" where
  "jwks_result c = \<lparr>ar_realm = cl_realm c, ar_role = cl_role c, ar_identity = cl_identity c\<rparr>"

text \<open>The identity of a validator instance in \<open>getJwksValidatorFor\<close>.\<close>

definition jwks_instance :: "external_entry \<Rightarrow> string" where
  "jwks_instance e = join_with '' '' [xe_prefix e, xe_jwks_url e, xe_iss e, xe_aud e]"

section \<open>Checking a token\<close>

datatype token_check = Known "auth_result option" | Ask token_validator token_scope

fun first_result :: "('a \<Rightarrow> 'b option) \<Rightarrow> 'a list \<Rightarrow> 'b option" where
  "first_result f [] = None"
| "first_result f (x # xs) = (case f x of Some y \<Rightarrow> Some y | None \<Rightarrow> first_result f xs)"

definition realm_secrets :: "secret_lib \<Rightarrow> int \<Rightarrow> auth_settings \<Rightarrow> string \<Rightarrow> jsval list" where
  "realm_secrets L now A realm = map fst (fst (getRealmManagerSecrets (sl_hash L) now (map_option realm_config.truncate (getRealmConfig A realm))))"

definition token_result :: "string \<Rightarrow> static_token \<Rightarrow> auth_result option" where
  "token_result token t = (if st_token t = token
     then Some \<lparr>ar_realm = first_text (st_realm t) DEFAULT_REALM, ar_role = normalizeRole (Some (st_role t)), ar_identity = None\<rparr> else None)"

text \<open>The credentials the broker holds itself, in the order they are tried.\<close>

definition local_result :: "secret_lib \<Rightarrow> int \<Rightarrow> auth_settings \<Rightarrow> token_settings \<Rightarrow> string \<Rightarrow> auth_result option" where
  "local_result L now A T token =
     (case (case peekJwtRealm L False token of None \<Rightarrow> None
        | Some realm \<Rightarrow> if realm = [] then None else first_result (validateJwtToken L now token) (realm_secrets L now A realm)) of
        Some r \<Rightarrow> Some r
      | None \<Rightarrow>
          (case (if truthy (ts_jwt_secret T) then validateJwtToken L now token (ts_jwt_secret T) else None) of
             Some r \<Rightarrow> Some r
           | None \<Rightarrow> first_result (token_result token) (ts_tokens T)))"

definition validateToken :: "secret_lib \<Rightarrow> int \<Rightarrow> auth_settings \<Rightarrow> token_settings \<Rightarrow> string \<Rightarrow> string option \<Rightarrow> token_check" where
  "validateToken L now A T token desired =
     (if ts_custom T then Ask CustomValidator AnyRealm
      else case local_result L now A T token of
        Some r \<Rightarrow> Known (Some r)
      | None \<Rightarrow>
          (let hint = opt_or (opt_or desired (peekJwtRealm L False token)) (peekJwtRealm L True token) in
           case resolveExternalValidator T hint of
             None \<Rightarrow> Known None
           | Some (v, sc) \<Rightarrow> Ask v sc))"

section \<open>The handshake\<close>

definition CONNECT_ROLES :: "string list" where
  "CONNECT_ROLES = [''producer'', ''consumer'', ''both'']"

text \<open>A socket with the validations that are under way: the number of the request and the scope of its validator.\<close>

record handshake =
  hk_sock :: sock_state
  hk_pending :: "(nat \<times> token_scope) list"

datatype hk_out = AuthOk string string | AuthFail nat | AskValidator nat token_validator string

definition named_text :: "jsval \<Rightarrow> string \<Rightarrow> string option" where
  "named_text m k = (case obj_get m k of JStr s \<Rightarrow> if s = [] then None else Some s | _ \<Rightarrow> None)"

definition connect_role :: "string option \<Rightarrow> string" where
  "connect_role requested = (case requested of Some r \<Rightarrow> if r \<in> set CONNECT_ROLES then r else ''both'' | None \<Rightarrow> ''both'')"

definition enter :: "string \<Rightarrow> string \<Rightarrow> handshake \<Rightarrow> hk_out list \<times> handshake" where
  "enter realm role s = ([AuthOk realm role], s\<lparr>hk_sock := (hk_sock s)\<lparr>sk_auth := Some (grant realm role)\<rparr>\<rparr>)"

text \<open>A connection without a token; \<open>key\<close> is what the client sent as the key of the realm.\<close>

definition connect_tokenless ::
  "secret_lib \<Rightarrow> int \<Rightarrow> auth_settings \<Rightarrow> string option \<Rightarrow> string option \<Rightarrow> jsval \<Rightarrow> handshake \<Rightarrow> hk_out list \<times> handshake" where
  "connect_tokenless L now A desired requested key s =
     (let realm = str_or desired DEFAULT_REALM; role = connect_role requested in
      if requested = Some ''manager'' then ([AuthFail 401], s)
      else if desired \<noteq> None \<and> \<not> isAuthRequiredForRealm A realm then enter realm role s
      else if requested = None \<and> key = JUndef then ([AuthFail 401], s)
      else if role \<in> {''consumer'', ''both''} \<and> isKeyRequiredForRealm (sl_hash L) now A realm
          \<and> \<not> fst (realmKeyAccepted (sl_hash L) now key (map_option realm_config.truncate (getRealmConfig A realm)))
      then ([AuthFail 401], s)
      else if role \<in> {''producer'', ''both''} \<and> isAcceptanceRequiredForRealm A realm then ([AuthFail 403], s)
      else enter realm role s)"

definition token_auth :: "auth_result \<Rightarrow> sock_auth" where
  "token_auth r = \<lparr>sa_authenticated = True, sa_realm = Some (ar_realm r), sa_role = Some (normalizeRole (Some (ar_role r))),
     sa_identity = (if str_truthy (ar_identity r) then ar_identity r else None)\<rparr>"

definition accept_result :: "auth_result option \<Rightarrow> handshake \<Rightarrow> hk_out list \<times> handshake" where
  "accept_result res s =
     (case res of
        None \<Rightarrow> ([AuthFail 401], s)
      | Some r \<Rightarrow> if ar_realm r = [] \<or> ar_role r = [] then ([AuthFail 401], s)
          else ([AuthOk (ar_realm r) (normalizeRole (Some (ar_role r)))],
            s\<lparr>hk_sock := (hk_sock s)\<lparr>sk_auth := Some (token_auth r)\<rparr>\<rparr>))"

definition authenticate ::
  "secret_lib \<Rightarrow> int \<Rightarrow> auth_settings \<Rightarrow> token_settings \<Rightarrow> nat \<Rightarrow> jsval \<Rightarrow> handshake \<Rightarrow> hk_out list \<times> handshake" where
  "authenticate L now A T i m s =
     (if \<not> isAuthEnabled A then enter DEFAULT_REALM ''both'' s
      else if is_authenticated (hk_sock s) then ([AuthFail 403], s)
      else (let desired = named_text m ''realm''; requested = named_text m ''role'';
                s1 = (case desired of None \<Rightarrow> s | Some r \<Rightarrow> s\<lparr>hk_sock := (hk_sock s)\<lparr>sk_pendingRealm := Some r\<rparr>\<rparr>)
            in case named_text m ''token'' of
                 None \<Rightarrow> connect_tokenless L now A desired requested (obj_get m ''key'') s1
               | Some token \<Rightarrow>
                   (case validateToken L now A T token desired of
                      Known res \<Rightarrow> accept_result res s1
                    | Ask v sc \<Rightarrow> ([AskValidator i v token], s1\<lparr>hk_pending := hk_pending s1 @ [(i, sc)]\<rparr>))))"

text \<open>A payload that is a text is parsed first.\<close>

definition message_of :: "secret_lib \<Rightarrow> jsval \<Rightarrow> jsval option" where
  "message_of L m = (case m of JStr text \<Rightarrow> sl_parse L text | _ \<Rightarrow> Some m)"

definition handle_authentication ::
  "secret_lib \<Rightarrow> int \<Rightarrow> auth_settings \<Rightarrow> token_settings \<Rightarrow> nat \<Rightarrow> jsval \<Rightarrow> handshake \<Rightarrow> hk_out list \<times> handshake" where
  "handle_authentication L now A T i m s =
     (case message_of L m of None \<Rightarrow> ([AuthFail 401], s) | Some m' \<Rightarrow> authenticate L now A T i m' s)"

definition validator_answer :: "nat \<Rightarrow> auth_result option \<Rightarrow> handshake \<Rightarrow> hk_out list \<times> handshake" where
  "validator_answer i res s =
     (case jget (hk_pending s) i of
        None \<Rightarrow> ([], s)
      | Some sc \<Rightarrow>
          accept_result (case res of None \<Rightarrow> None | Some r \<Rightarrow> if in_scope sc (ar_realm r) then Some r else None)
            (s\<lparr>hk_pending := jdel i (hk_pending s)\<rparr>))"

datatype hk_event =
    Authenticate int auth_settings token_settings nat jsval
  | ValidatorAnswer nat "auth_result option"
  | ClientEvent int auth_settings "string list"

fun hk_step :: "secret_lib \<Rightarrow> hk_event \<Rightarrow> handshake \<Rightarrow> hk_out list \<times> handshake" where
  "hk_step L (Authenticate now A T i m) s = handle_authentication L now A T i m s"
| "hk_step L (ValidatorAnswer i res) s = validator_answer i res s"
| "hk_step L (ClientEvent now A roles) s = ([], s\<lparr>hk_sock := snd (authorize (sl_hash L) now A roles (hk_sock s))\<rparr>)"

fun hk_run :: "secret_lib \<Rightarrow> hk_event list \<Rightarrow> handshake \<Rightarrow> hk_out list \<times> handshake" where
  "hk_run L [] s = ([], s)"
| "hk_run L (e # es) s = (let (o1, s1) = hk_step L e s; (o2, s2) = hk_run L es s1 in (o1 @ o2, s2))"

definition hk_start :: handshake where
  "hk_start = \<lparr>hk_sock = \<lparr>sk_auth = None, sk_pendingRealm = None, sk_refusal = None\<rparr>, hk_pending = []\<rparr>"

section \<open>Who is authenticated\<close>

text \<open>What a socket may become without a token, given the key it sent.\<close>

definition tokenless_ok :: "secret_lib \<Rightarrow> int \<Rightarrow> auth_settings \<Rightarrow> jsval \<Rightarrow> string \<Rightarrow> string \<Rightarrow> bool" where
  "tokenless_ok L now A key realm role \<longleftrightarrow> role \<in> set CONNECT_ROLES
     \<and> (\<not> isAuthRequiredForRealm A realm
        \<or> (role \<noteq> ''producer'' \<longrightarrow> \<not> isKeyRequiredForRealm (sl_hash L) now A realm
             \<or> fst (realmKeyAccepted (sl_hash L) now key (map_option realm_config.truncate (getRealmConfig A realm))))
          \<and> (role \<noteq> ''consumer'' \<longrightarrow> \<not> isAcceptanceRequiredForRealm A realm))"

text \<open>The socket sent something in a run at that time under those settings, with that key.\<close>

definition offered :: "secret_lib \<Rightarrow> hk_event list \<Rightarrow> int \<Rightarrow> auth_settings \<Rightarrow> jsval \<Rightarrow> bool" where
  "offered L evs now A key \<longleftrightarrow>
     (\<exists>T i m m'. Authenticate now A T i m \<in> set evs \<and> message_of L m = Some m' \<and> key = obj_get m' ''key'')
   \<or> (\<exists>roles. ClientEvent now A roles \<in> set evs \<and> key = JUndef)"

text \<open>A token was presented whose check is the given one.\<close>

definition token_checked :: "secret_lib \<Rightarrow> hk_event list \<Rightarrow> nat \<Rightarrow> token_check \<Rightarrow> bool" where
  "token_checked L evs i c \<longleftrightarrow>
     (\<exists>now A T m m' token. Authenticate now A T i m \<in> set evs \<and> message_of L m = Some m' \<and> named_text m' ''token'' = Some token
        \<and> validateToken L now A T token (named_text m' ''realm'') = c)"

definition token_vouched :: "secret_lib \<Rightarrow> hk_event list \<Rightarrow> sock_auth \<Rightarrow> bool" where
  "token_vouched L evs a \<longleftrightarrow>
     (\<exists>i r. a = token_auth r \<and> (token_checked L evs i (Known (Some r))
        \<or> (\<exists>v sc. token_checked L evs i (Ask v sc) \<and> ValidatorAnswer i (Some r) \<in> set evs \<and> in_scope sc (ar_realm r))))"

definition auth_source :: "secret_lib \<Rightarrow> hk_event list \<Rightarrow> sock_auth \<Rightarrow> bool" where
  "auth_source L evs a \<longleftrightarrow> token_vouched L evs a
     \<or> (\<exists>now A key realm role. offered L evs now A key \<and> tokenless_ok L now A key realm role \<and> a = grant realm role)"

definition hk_inv :: "secret_lib \<Rightarrow> hk_event list \<Rightarrow> handshake \<Rightarrow> bool" where
  "hk_inv L evs s \<longleftrightarrow> (\<forall>a. sk_auth (hk_sock s) = Some a \<longrightarrow> auth_source L evs a)
     \<and> (\<forall>i sc. (i, sc) \<in> set (hk_pending s) \<longrightarrow> (\<exists>v. token_checked L evs i (Ask v sc)))"

lemma tokenless_open: "\<not> isAuthRequiredForRealm A realm \<Longrightarrow> role \<in> set CONNECT_ROLES \<Longrightarrow> tokenless_ok L now A key realm role"
  by (simp add: tokenless_ok_def)

lemma connect_role_in: "connect_role r \<in> set CONNECT_ROLES"
  by (auto simp: connect_role_def CONNECT_ROLES_def split: option.split)

lemma connect_tokenless_cases:
  assumes "connect_tokenless L now A desired requested key s = (os, s')"
  shows "s' = s \<or> (\<exists>realm role. s' = s\<lparr>hk_sock := (hk_sock s)\<lparr>sk_auth := Some (grant realm role)\<rparr>\<rparr> \<and> tokenless_ok L now A key realm role)"
proof -
  define realm where "realm = str_or desired DEFAULT_REALM"
  define role where "role = connect_role requested"
  have role: "role \<in> set CONNECT_ROLES" by (simp add: role_def connect_role_in)
  then have cases: "role = ''producer'' \<or> role = ''consumer'' \<or> role = ''both''" by (auto simp: CONNECT_ROLES_def)
  show ?thesis
  proof (cases "s' = s")
    case False
    then have s': "s' = s\<lparr>hk_sock := (hk_sock s)\<lparr>sk_auth := Some (grant realm role)\<rparr>\<rparr>" and ok: "tokenless_ok L now A key realm role"
      using assms role cases
      by (auto simp: connect_tokenless_def Let_def enter_def tokenless_ok_def simp flip: realm_def role_def split: if_splits)
    then show ?thesis by blast
  qed simp
qed

lemma grant_eq_iff [simp]: "grant realm role = grant realm' role' \<longleftrightarrow> realm = realm' \<and> role = role'"
  by (simp add: grant_def)

lemma authorize_tokenless:
  assumes "authorize H now A roles k = (ok, k')" "H = sl_hash L"
  shows "sk_auth k' = sk_auth k \<or> (\<exists>realm role. sk_auth k' = Some (grant realm role) \<and> tokenless_ok L now A JUndef realm role)"
  using assms by (auto simp: authorize_def admit_unauthenticated_def Let_def tokenless_ok_def CONNECT_ROLES_def
      split: if_splits option.splits)

lemma accept_result_cases:
  "accept_result res s = (os, s') \<Longrightarrow> s' = s \<or> (\<exists>r. res = Some r \<and> s' = s\<lparr>hk_sock := (hk_sock s)\<lparr>sk_auth := Some (token_auth r)\<rparr>\<rparr>)"
  by (auto simp: accept_result_def split: option.splits if_splits)

lemma auth_source_tokenless: "offered L evs now A key \<Longrightarrow> tokenless_ok L now A key realm role \<Longrightarrow> auth_source L evs (grant realm role)"
  unfolding auth_source_def by blast

lemma hk_inv_same:
  "hk_inv L evs s \<Longrightarrow> hk_pending s' = hk_pending s \<Longrightarrow> sk_auth (hk_sock s') = sk_auth (hk_sock s) \<Longrightarrow> hk_inv L evs s'"
  by (simp add: hk_inv_def)

lemma authenticate_inv:
  assumes "authenticate L now A T i m s = (os, s')" "hk_inv L evs s"
    and "Authenticate now A T i m0 \<in> set evs" "message_of L m0 = Some m"
  shows "hk_inv L evs s'"
proof -
  define desired where "desired = named_text m ''realm''"
  define s1 where "s1 = (case desired of None \<Rightarrow> s | Some r \<Rightarrow> s\<lparr>hk_sock := (hk_sock s)\<lparr>sk_pendingRealm := Some r\<rparr>\<rparr>)"
  have s1: "hk_pending s1 = hk_pending s" "sk_auth (hk_sock s1) = sk_auth (hk_sock s)" by (simp_all add: s1_def split: option.split)
  have inv1: "hk_inv L evs s1" using assms(2) s1 by (rule hk_inv_same)
  have offer: "offered L evs now A (obj_get m ''key'')" using assms(3,4) unfolding offered_def by blast
  consider "\<not> isAuthEnabled A" | "isAuthEnabled A" "is_authenticated (hk_sock s)"
    | "isAuthEnabled A" "\<not> is_authenticated (hk_sock s)" "named_text m ''token'' = None"
    | token where "isAuthEnabled A" "\<not> is_authenticated (hk_sock s)" "named_text m ''token'' = Some token" by blast
  then show ?thesis
  proof cases
    case 1
    then have "tokenless_ok L now A (obj_get m ''key'') DEFAULT_REALM ''both''"
      by (intro tokenless_open) (simp_all add: isAuthRequiredForRealm_def CONNECT_ROLES_def)
    with offer have "auth_source L evs (grant DEFAULT_REALM ''both'')" by (rule auth_source_tokenless)
    with 1 assms(1,2) show ?thesis by (auto simp: authenticate_def enter_def hk_inv_def)
  next
    case 2
    with assms(1,2) show ?thesis by (simp add: authenticate_def)
  next
    case 3
    then have "connect_tokenless L now A desired (named_text m ''role'') (obj_get m ''key'') s1 = (os, s')"
      using assms(1) by (simp add: authenticate_def Let_def desired_def s1_def)
    from connect_tokenless_cases [OF this] inv1 auth_source_tokenless [OF offer] show ?thesis by (auto simp: hk_inv_def)
  next
    case 4
    have checked: "token_checked L evs i (validateToken L now A T token desired)"
      using assms(3,4) 4(3) unfolding token_checked_def desired_def by blast
    show ?thesis
    proof (cases "validateToken L now A T token desired")
      case (Known res)
      then have "accept_result res s1 = (os, s')" using assms(1) 4 by (simp add: authenticate_def Let_def desired_def s1_def)
      from accept_result_cases [OF this] inv1 checked show ?thesis
        by (auto simp: Known hk_inv_def auth_source_def token_vouched_def)
    next
      case (Ask v sc)
      then have "s' = s1\<lparr>hk_pending := hk_pending s1 @ [(i, sc)]\<rparr>"
        using assms(1) 4 by (simp add: authenticate_def Let_def desired_def s1_def)
      with inv1 checked show ?thesis by (auto simp: Ask hk_inv_def)
    qed
  qed
qed

lemma hk_step_inv:
  assumes "hk_step L e s = (os, s')" "hk_inv L evs s" "e \<in> set evs"
  shows "hk_inv L evs s'"
proof (cases e)
  case (Authenticate now A T i m)
  with assms authenticate_inv [of L now A T i] show ?thesis
    by (cases "message_of L m") (auto simp: handle_authentication_def)
next
  case (ValidatorAnswer i res)
  show ?thesis
  proof (cases "jget (hk_pending s) i")
    case None
    with assms ValidatorAnswer show ?thesis by (simp add: validator_answer_def)
  next
    case (Some sc)
    then obtain v where v: "token_checked L evs i (Ask v sc)" using assms(2) map_of_SomeD [OF Some] unfolding hk_inv_def by blast
    let ?s1 = "s\<lparr>hk_pending := jdel i (hk_pending s)\<rparr>"
    have inv1: "hk_inv L evs ?s1" using assms(2) by (auto simp: hk_inv_def set_jdel)
    have "accept_result (case res of None \<Rightarrow> None | Some r \<Rightarrow> if in_scope sc (ar_realm r) then Some r else None) ?s1 = (os, s')"
      using assms(1) Some by (simp add: ValidatorAnswer validator_answer_def)
    from accept_result_cases [OF this] inv1 v assms(3) show ?thesis
      by (auto simp: ValidatorAnswer hk_inv_def auth_source_def token_vouched_def split: option.splits if_splits)
  qed
next
  case (ClientEvent now A roles)
  have offer: "offered L evs now A JUndef" using assms(3) by (auto simp: ClientEvent offered_def)
  obtain ok k' where k: "authorize (sl_hash L) now A roles (hk_sock s) = (ok, k')" by fastforce
  from authorize_tokenless [OF k refl] assms(1,2) auth_source_tokenless [OF offer] show ?thesis
    by (auto simp: ClientEvent k hk_inv_def)
qed

lemma hk_run_inv:
  "hk_run L es s = (os, s') \<Longrightarrow> hk_inv L evs s \<Longrightarrow> set es \<subseteq> set evs \<Longrightarrow> hk_inv L evs s'"
proof (induction es arbitrary: s os)
  case (Cons e es)
  obtain o1 s1 o2 s2 where 1: "hk_step L e s = (o1, s1)" and 2: "hk_run L es s1 = (o2, s2)" by (metis surj_pair)
  have "s' = s2" using Cons.prems(1) 1 2 by simp
  with Cons hk_step_inv [OF 1 Cons.prems(2)] 2 show ?case by auto
qed simp

text \<open>
  C17. Authentication is vouched for: in any run of handshakes, answers of validators and other events, the
  realm, role and identity of a socket come from a token, which a credential of the broker or a validator
  whose scope contains that realm vouched for, or they are what the realm lets in without a token: a
  consumer presented the key if the realm requires one, a producer needs no acceptance, and no socket is
  a manager.
\<close>

theorem auth_vouched:
  assumes "sk_auth (hk_sock (snd (hk_run L evs hk_start))) = Some a"
  shows "token_vouched L evs a
    \<or> (\<exists>now A key realm role. offered L evs now A key \<and> a = grant realm role \<and> role \<in> {''producer'', ''consumer'', ''both''}
        \<and> (\<not> isAuthRequiredForRealm A realm
           \<or> (role \<noteq> ''producer'' \<longrightarrow> \<not> isKeyRequiredForRealm (sl_hash L) now A realm
                \<or> fst (realmKeyAccepted (sl_hash L) now key (map_option realm_config.truncate (getRealmConfig A realm))))
             \<and> (role \<noteq> ''consumer'' \<longrightarrow> \<not> isAcceptanceRequiredForRealm A realm)))"
proof -
  have "hk_inv L evs hk_start" by (simp add: hk_inv_def hk_start_def)
  then have "hk_inv L evs (snd (hk_run L evs hk_start))" using hk_run_inv [of L evs hk_start _ _ evs] by (metis order_refl surjective_pairing)
  with assms have "auth_source L evs a" by (simp add: hk_inv_def)
  moreover have "set CONNECT_ROLES = {''producer'', ''consumer'', ''both''}" by (auto simp: CONNECT_ROLES_def)
  ultimately show ?thesis unfolding auth_source_def tokenless_ok_def by blast
qed

definition sample_secret_lib :: secret_lib where
  "sample_secret_lib = \<lparr>sl_hmac = (\<lambda>key text. key @ ''+''), sl_json = (\<lambda>v. None), sl_parse = (\<lambda>t. None), sl_hash = id\<rparr>"

definition sample_entry :: "string \<Rightarrow> string \<Rightarrow> external_entry" where
  "sample_entry prefix url = \<lparr>xe_prefix = prefix, xe_auth_url = url, xe_secret = [], xe_jwks_url = [], xe_iss = [], xe_aud = []\<rparr>"

definition sample_tokens :: token_settings where
  "sample_tokens = \<lparr>ts_custom = False, ts_realm_urls = [], ts_external = [sample_entry ''org-'' ''https://org/auth'', sample_entry ''org-b'' ''https://b/auth''],
     ts_auth_url = [], ts_auth_secret = [], ts_jwt_secret = JUndef, ts_tokens = []\<rparr>"

definition token_message :: "string \<Rightarrow> string \<Rightarrow> jsval" where
  "token_message realm token = JObj [(''realm'', JStr realm), (''token'', JStr token)]"

definition alice_result :: auth_result where
  "alice_result = \<lparr>ar_realm = ''org-a'', ar_role = ''both'', ar_identity = Some ''alice''\<rparr>"

definition bob_result :: auth_result where
  "bob_result = \<lparr>ar_realm = ''org-b1'', ar_role = ''both'', ar_identity = Some ''bob''\<rparr>"

definition one_handshake :: "hk_event list" where
  "one_handshake = [Authenticate 1 sample_auth sample_tokens 1 (token_message ''org-a'' ''t''), ValidatorAnswer 1 (Some alice_result)]"

lemma one_handshake_auth: "sk_auth (hk_sock (snd (hk_run sample_secret_lib one_handshake hk_start))) = Some (token_auth alice_result)"
  by code_simp

theorem auth_vouched_witness:
  "sk_auth (hk_sock (snd (hk_run sample_secret_lib one_handshake hk_start))) = Some (token_auth alice_result)
   \<and> token_vouched sample_secret_lib one_handshake (token_auth alice_result)"
proof -
  have "token_auth alice_result \<noteq> grant realm role" for realm role by (simp add: token_auth_def alice_result_def grant_def)
  with auth_vouched [OF one_handshake_auth] one_handshake_auth show ?thesis by blast
qed

text \<open>A connection under a manager's role has presented a token.\<close>

lemma manager_has_token:
  assumes "sk_auth (hk_sock (snd (hk_run L evs hk_start))) = Some a" "sa_role a \<in> {Some ''manager'', Some ''admin''}"
  shows "token_vouched L evs a"
proof -
  have "hk_inv L evs hk_start" by (simp add: hk_inv_def hk_start_def)
  then have "hk_inv L evs (snd (hk_run L evs hk_start))" using hk_run_inv [of L evs hk_start _ _ evs] by (metis order_refl surjective_pairing)
  with assms show ?thesis by (auto simp: hk_inv_def auth_source_def tokenless_ok_def CONNECT_ROLES_def grant_def)
qed

section \<open>Realm isolation of tokens\<close>

text \<open>A token carries the signature of a secret.\<close>

definition jwt_signed :: "secret_lib \<Rightarrow> string \<Rightarrow> jsval \<Rightarrow> bool" where
  "jwt_signed L token secret \<longleftrightarrow> (\<exists>h p sg key. token = h @ ''.'' @ p @ ''.'' @ sg \<and> secret = JStr key
     \<and> sg = encodeBase64Url (sl_hmac L key (h @ ''.'' @ p)))"

lemma jwt_parts_join: "jwt_parts token = Some (h, p, sg) \<Longrightarrow> token = h @ ''.'' @ p @ ''.'' @ sg"
  using join_split_on [of "CHR ''.''" token] by (auto simp: jwt_parts_def split: list.splits)

lemma validateJwtToken_Some:
  assumes "validateJwtToken L now token secret = Some r"
  shows "jwt_signed L token secret" "peekJwtRealm L False token = Some (ar_realm r)" "ar_identity r = None"
proof -
  from assms obtain h p sg key header payload where 1: "jwt_parts token = Some (h, p, sg)" "secret = JStr key"
      "jwt_part L h = Some header" "jwt_part L p = Some payload" "obj_get header ''alg'' = JStr ''HS256''"
      "encodeBase64Url (sl_hmac L key (h @ ''.'' @ p)) = sg" "truthy (obj_get payload ''realm'')"
      "r = \<lparr>ar_realm = to_string (obj_get payload ''realm''), ar_role = to_string (obj_get payload ''role''), ar_identity = None\<rparr>"
    by (auto simp: validateJwtToken_def split: option.splits jsval.splits if_splits)
  show "jwt_signed L token secret" using 1 jwt_parts_join [OF 1(1)] by (auto simp: jwt_signed_def)
  have "\<not> nullish header" using 1(5) by (auto simp: nullish_def)
  then show "peekJwtRealm L False token = Some (ar_realm r)" using 1 by (simp add: peekJwtRealm_def)
  show "ar_identity r = None" using 1 by simp
qed

lemma first_result_Some: "first_result f xs = Some y \<Longrightarrow> \<exists>x \<in> set xs. f x = Some y"
  by (induction xs) (auto split: option.splits)

text \<open>
  C18. Realms are isolated by their secrets: a token that the broker accepts by itself is signed with a
  manager secret of the very realm it opens, or with the global secret, or is a configured token of that
  realm. No secret of another realm opens it, whatever realm the token claims.
\<close>

theorem realm_tokens_isolated:
  assumes "validateToken L now A T token desired = Known (Some r)"
  shows "(\<exists>secret \<in> set (realm_secrets L now A (ar_realm r)). jwt_signed L token secret)
    \<or> truthy (ts_jwt_secret T) \<and> jwt_signed L token (ts_jwt_secret T)
    \<or> (\<exists>t \<in> set (ts_tokens T). st_token t = token \<and> ar_realm r = first_text (st_realm t) DEFAULT_REALM)"
proof -
  have "local_result L now A T token = Some r"
    using assms by (auto simp: validateToken_def Let_def split: if_splits option.splits)
  then consider realm where "peekJwtRealm L False token = Some realm" "first_result (validateJwtToken L now token) (realm_secrets L now A realm) = Some r"
    | "truthy (ts_jwt_secret T)" "validateJwtToken L now token (ts_jwt_secret T) = Some r"
    | "first_result (token_result token) (ts_tokens T) = Some r"
    by (auto simp: local_result_def split: option.splits if_splits)
  then show ?thesis
  proof cases
    case (1 realm)
    from first_result_Some [OF 1(2)] obtain secret where s: "secret \<in> set (realm_secrets L now A realm)" "validateJwtToken L now token secret = Some r"
      by blast
    with validateJwtToken_Some [OF s(2)] 1(1) show ?thesis by auto
  next
    case 2
    with validateJwtToken_Some show ?thesis by blast
  next
    case 3
    from first_result_Some [OF 3] show ?thesis by (auto simp: token_result_def split: if_splits)
  qed
qed

definition keyed_realm :: "string \<Rightarrow> realm_settings" where
  "keyed_realm key = realm_config.extend (realm_config_empty\<lparr>rc_manager_key := JStr key\<rparr>)
     (realm_settings.fields JUndef JUndef JUndef JUndef JUndef JUndef JUndef JUndef)"

definition two_realms :: auth_settings where
  "two_realms = \<lparr>as_current = Some \<lparr>ab_enabled = JBool True, ab_realms = []\<rparr>,
     as_options = Some \<lparr>ab_enabled = JBool True, ab_realms = [(''a'', keyed_realm ''ka''), (''b'', keyed_realm ''kb'')]\<rparr>\<rparr>"

definition realm_a_lib :: secret_lib where
  "realm_a_lib = sample_secret_lib\<lparr>sl_json := (\<lambda>v. if v = ''head'' then Some (JObj [(''alg'', JStr ''HS256'')])
     else if v = ''body'' then Some (JObj [(''realm'', JStr ''a''), (''role'', JStr ''producer'')]) else None)\<rparr>"

lemma realm_a_token:
  "validateToken realm_a_lib 0 two_realms sample_tokens ''head.body.ka-'' None
     = Known (Some \<lparr>ar_realm = ''a'', ar_role = ''producer'', ar_identity = None\<rparr>)"
  by code_simp

text \<open>The token of realm a opens it; the same claims under the secret of realm b do not.\<close>

theorem realm_tokens_isolated_witness:
  "(\<exists>secret \<in> set (realm_secrets realm_a_lib 0 two_realms ''a''). jwt_signed realm_a_lib ''head.body.ka-'' secret)
   \<and> validateToken realm_a_lib 0 two_realms sample_tokens ''head.body.kb-'' None = Known None"
proof
  have "ts_tokens sample_tokens = []" "\<not> truthy (ts_jwt_secret sample_tokens)" by (simp_all add: sample_tokens_def)
  with realm_tokens_isolated [OF realm_a_token] show "\<exists>secret \<in> set (realm_secrets realm_a_lib 0 two_realms ''a''). jwt_signed realm_a_lib ''head.body.ka-'' secret"
    by auto
  show "validateToken realm_a_lib 0 two_realms sample_tokens ''head.body.kb-'' None = Known None" by code_simp
qed

section \<open>User tokens\<close>

text \<open>
  From a user token to a name: when the offline validator accepts a token for a pending handshake, the
  socket enters the realm of the token, and if the token carries an identity then this is the only name
  under which the socket may register. Realm and identity are those of a payload that verified under a key
  the issuer served.
\<close>

theorem identity_bound_by_token:
  assumes "Answer i (Some claims) \<in> set (fst (jwks_run L c evs jwks_empty))" "cl_identity claims = Some who"
    and "jget (hk_pending s) i = Some sc" "in_scope sc (cl_realm claims)"
  shows "getSocketRealmId (hk_sock (snd (validator_answer i (Some (jwks_result claims)) s))) = cl_realm claims
    \<and> (identityBindingAllows (hk_sock (snd (validator_answer i (Some (jwks_result claims)) s))) name \<longleftrightarrow> name = who)
    \<and> (\<exists>now h p sg kid key payload. Verify i now (JStr (h @ ''.'' @ p @ ''.'' @ sg)) \<in> set evs \<and> served_key L c evs kid key
         \<and> lb_verify L (h @ ''.'' @ p) key (decodeBase64Url sg) \<and> decodeBase64UrlJson L p = Inr payload
         \<and> obj_get payload ''identity'' = JStr who \<and> obj_get payload ''realm'' = JStr (cl_realm claims))"
proof -
  from assms(1) obtain now h p sg kid key payload where t: "Verify i now (JStr (h @ ''.'' @ p @ ''.'' @ sg)) \<in> set evs"
    "token_header L (JStr (h @ ''.'' @ p @ ''.'' @ sg)) = Inr ((h, p, sg), kid)" "served_key L c evs kid key"
    "lb_verify L (h @ ''.'' @ p) key (decodeBase64Url sg)" "decodeBase64UrlJson L p = Inr payload"
    "claim_refusal c now payload = None" "claims = claims_of payload" by (rule jwks_accepted)
  note ck = claims_checked [OF t(6)]
  have who: "who \<noteq> []" using ck(12) assms(2) by (auto simp: t(7))
  have role: "cl_role claims \<noteq> []" using ck(8) by (auto simp: t(7) VALID_ROLES_def)
  have "snd (validator_answer i (Some (jwks_result claims)) s)
      = s\<lparr>hk_pending := jdel i (hk_pending s), hk_sock := (hk_sock s)\<lparr>sk_auth := Some (token_auth (jwks_result claims))\<rparr>\<rparr>"
    using assms(3,4) ck(6) role by (simp add: validator_answer_def accept_result_def jwks_result_def t(7))
  then have "getSocketRealmId (hk_sock (snd (validator_answer i (Some (jwks_result claims)) s))) = cl_realm claims"
    "identityBindingAllows (hk_sock (snd (validator_answer i (Some (jwks_result claims)) s))) name \<longleftrightarrow> name = who"
    using ck(6) who assms(2) by (auto simp: getSocketRealmId_def identityBindingAllows_def token_auth_def jwks_result_def t(7))
  moreover have "obj_get payload ''identity'' = JStr who" "obj_get payload ''realm'' = JStr (cl_realm claims)"
    using ck(5,11) assms(2) by (simp_all add: t(7))
  ultimately show ?thesis using t by blast
qed

theorem identity_bound_by_token_witness:
  "let s = hk_start\<lparr>hk_pending := [(1, RealmPrefix ''ch'')]\<rparr>;
       claims = \<lparr>cl_realm = ''chat'', cl_role = ''both'', cl_sub = ''u1'', cl_identity = Some ''alice''\<rparr>
   in getSocketRealmId (hk_sock (snd (validator_answer 1 (Some (jwks_result claims)) s))) = ''chat''
    \<and> \<not> identityBindingAllows (hk_sock (snd (validator_answer 1 (Some (jwks_result claims)) s))) ''bob''"
proof -
  define claims where "claims = \<lparr>cl_realm = ''chat'', cl_role = ''both'', cl_sub = ''u1'', cl_identity = Some ''alice''\<rparr>"
  define s where "s = hk_start\<lparr>hk_pending := [(1, RealmPrefix ''ch'')]\<rparr>"
  have "Answer 1 (Some claims) \<in> set (fst (jwks_run sample_jwks_lib sample_jwks_conf sample_jwks_events jwks_empty))"
    by (simp add: sample_jwks_run claims_def)
  from identity_bound_by_token [OF this, of "''alice''" s "RealmPrefix ''ch''" "''bob''"] show ?thesis
    unfolding claims_def [symmetric] s_def [symmetric] Let_def by (simp add: claims_def s_def in_scope_def)
qed

section \<open>Scopes\<close>

text \<open>The entry with the longest prefix is asked, the first of them among equals.\<close>

lemma better_entry_longest:
  "(case foldl (better_entry hint) best es of
      None \<Rightarrow> best = None \<and> (\<forall>e \<in> set es. \<not> entry_applies hint e)
    | Some b \<Rightarrow> (best = Some b \<or> b \<in> set es \<and> entry_applies hint b)
        \<and> (\<forall>e \<in> set es. entry_applies hint e \<longrightarrow> length (xe_prefix e) \<le> length (xe_prefix b))
        \<and> (\<forall>b1. best = Some b1 \<longrightarrow> length (xe_prefix b1) \<le> length (xe_prefix b)))"
proof (induction es arbitrary: best)
  case (Cons e es)
  from Cons.IH [of "better_entry hint best e"] show ?case
    by (cases best) (auto simp: better_entry_def split: option.splits if_splits)
qed (auto split: option.split)

lemma resolve_longest:
  assumes "resolveExternalValidator T (Some hint) = Some (v, RealmPrefix p)"
  shows "\<exists>b \<in> set (ts_external T). entry_applies hint b \<and> xe_prefix b = p
    \<and> (\<forall>e \<in> set (ts_external T). entry_applies hint e \<longrightarrow> length (xe_prefix e) \<le> length p)"
  using assms better_entry_longest [where hint = hint and best = None and es = "ts_external T"]
  by (auto simp: resolveExternalValidator_def global_validator_def realm_callback_def prefix_validator_def
      split: if_splits option.splits)

text \<open>
  The scope of a validator is its prefix, not the realms for which it is the one asked: with prefixes
  \<open>org-\<close> and \<open>org-b\<close> the validator of the first, asked for realm \<open>org-a\<close>, opens realm \<open>org-b1\<close>, which
  belongs to the second.
\<close>

lemma outer_prefix_opens_inner_realm:
  "let T = sample_tokens;
       (os, s) = hk_run sample_secret_lib [Authenticate 1 sample_auth T 1 (token_message ''org-a'' ''t''), ValidatorAnswer 1 (Some bob_result)] hk_start
   in resolveExternalValidator T (Some ''org-b1'') = Some (CallbackUrl ''https://b/auth'' [], RealmPrefix ''org-b'')
    \<and> os = [AskValidator 1 (CallbackUrl ''https://org/auth'' []) ''t'', AuthOk ''org-b1'' ''both'']
    \<and> sk_auth (hk_sock s) = Some (token_auth bob_result)"
  by code_simp

text \<open>
  A socket that sends two tokens before the first is validated authenticates twice: the check for a
  socket that is already authenticated is not repeated when a validator answers, and realm and identity
  are replaced.
\<close>

lemma handshake_replaced:
  "let (os, s) = hk_run sample_secret_lib
       [Authenticate 1 sample_auth sample_tokens 1 (token_message ''org-a'' ''t''),
        Authenticate 2 sample_auth sample_tokens 2 (token_message ''org-b1'' ''u''),
        ValidatorAnswer 1 (Some alice_result), Authenticate 3 sample_auth sample_tokens 3 (token_message ''org-b1'' ''u''),
        ValidatorAnswer 2 (Some bob_result)] hk_start
   in drop 2 os = [AuthOk ''org-a'' ''both'', AuthFail 403, AuthOk ''org-b1'' ''both'']
    \<and> sk_auth (hk_sock s) = Some (token_auth bob_result)"
  by code_simp

end
