(* ===== verification/Auth_Store.thy ===== *)
theory Auth_Store
  imports Prelude
begin

text \<open>
  The durable copy of realms, tokens and management tokens (\<open>lib/auth-store.js\<close>): \<open>sync\<close> writes the rows
  that differ from what the store last wrote, in one transaction, and \<open>load\<close> reads them back. The texts
  are values of a type \<open>'t\<close>: \<open>stableStringify\<close> of the protocol package and \<open>JSON.parse\<close> are parameters.
  A table is an association list by its primary key. Whether a transaction commits is an argument.
\<close>

datatype auth_section = Realms | Tokens | ManagementTokens

definition SECTIONS :: "auth_section list" where
  "SECTIONS = [Realms, Tokens, ManagementTokens]"

type_synonym 't tables = "auth_section \<Rightarrow> (string, 't) jsmap"

record 't auth_lib =
  al_stable :: "jsval \<Rightarrow> 't"
  al_parse :: "'t \<Rightarrow> jsval option"

record 't auth_store =
  au_db :: "'t tables"
  au_cache :: "'t tables option"

section \<open>Sections of an auth object\<close>

definition section_realms :: "'t auth_lib \<Rightarrow> jsval \<Rightarrow> (string, 't) jsmap" where
  "section_realms L realms = fold (\<lambda>(name, config) out. jset name (al_stable L (js_or config (JObj []))) out) (obj_fields realms) []"

definition text_of :: "jsval \<Rightarrow> string" where
  "text_of v = (case v of JStr s \<Rightarrow> s | _ \<Rightarrow> [])"

definition token_key :: "jsval \<Rightarrow> string option" where
  "token_key entry =
     (if text_of (obj_get entry ''token'') \<noteq> [] then Some (text_of (obj_get entry ''token''))
      else if text_of (obj_get entry ''token_hash'') \<noteq> [] then Some (text_of (obj_get entry ''token_hash'')) else None)"

definition add_token :: "'t auth_lib \<Rightarrow> jsval \<Rightarrow> (string, 't) jsmap \<Rightarrow> (string, 't) jsmap" where
  "add_token L entry out = (case token_key entry of None \<Rightarrow> out | Some key \<Rightarrow> jset key (al_stable L entry) out)"

definition keyedTokens :: "'t auth_lib \<Rightarrow> jsval \<Rightarrow> (string, 't) jsmap" where
  "keyedTokens L list = fold (add_token L) (case list of JArr es \<Rightarrow> es | _ \<Rightarrow> []) []"

fun sections_of :: "'t auth_lib \<Rightarrow> jsval \<Rightarrow> 't tables" where
  "sections_of L auth Realms = section_realms L (obj_get auth ''realms'')"
| "sections_of L auth Tokens = keyedTokens L (obj_get auth ''tokens'')"
| "sections_of L auth ManagementTokens = keyedTokens L (js_or (obj_get auth ''management_tokens'') (obj_get auth ''managementTokens''))"

section \<open>Loading\<close>

record loaded =
  ld_realms :: "(string, jsval) jsmap"
  ld_tokens :: "jsval list"
  ld_management :: "jsval list"

text \<open>Rows that cannot be parsed are skipped.\<close>

definition readable :: "'t auth_lib \<Rightarrow> (string, 't) jsmap \<Rightarrow> (string, jsval) jsmap" where
  "readable L rows = List.map_filter (\<lambda>(key, text). map_option (Pair key) (al_parse L text)) rows"

definition load_cache :: "'t auth_lib \<Rightarrow> 't tables \<Rightarrow> 't tables" where
  "load_cache L db sec = map (\<lambda>(key, v). (key, al_stable L v)) (readable L (db sec))"

definition load_auth :: "'t auth_lib \<Rightarrow> 't auth_store \<Rightarrow> loaded \<times> 't auth_store" where
  "load_auth L s =
     (\<lparr>ld_realms = readable L (au_db s Realms), ld_tokens = map snd (readable L (au_db s Tokens)),
       ld_management = map snd (readable L (au_db s ManagementTokens))\<rparr>,
      s\<lparr>au_cache := Some (load_cache L (au_db s))\<rparr>)"

section \<open>Synchronising\<close>

datatype 't statement = Upsert auth_section string 't | DeleteRow auth_section string

text \<open>\<open>key in wanted\<close> also finds the members of every object.\<close>

definition has_key :: "string \<Rightarrow> (string, 't) jsmap \<Rightarrow> bool" where
  "has_key k m \<longleftrightarrow> k \<in> fst ` set m \<or> k \<in> set object_members"

definition section_statements :: "'t tables \<Rightarrow> 't tables \<Rightarrow> auth_section \<Rightarrow> 't statement list" where
  "section_statements current wanted sec =
     map (\<lambda>(key, text). Upsert sec key text) (filter (\<lambda>(key, text). jget (current sec) key \<noteq> Some text) (wanted sec))
     @ map (\<lambda>(key, text). DeleteRow sec key) (filter (\<lambda>(key, text). \<not> has_key key (wanted sec)) (current sec))"

definition sync_statements :: "'t tables \<Rightarrow> 't tables \<Rightarrow> 't statement list" where
  "sync_statements current wanted = concat (map (section_statements current wanted) SECTIONS)"

fun run_statement :: "'t statement \<Rightarrow> 't tables \<Rightarrow> 't tables" where
  "run_statement (Upsert sec key text) db = db(sec := jset key text (db sec))"
| "run_statement (DeleteRow sec key) db = db(sec := jdel key (db sec))"

text \<open>The number of statements, or \<open>None\<close> when the transaction is rolled back and the error thrown.\<close>

definition sync_auth :: "'t auth_lib \<Rightarrow> bool \<Rightarrow> jsval \<Rightarrow> 't auth_store \<Rightarrow> nat option \<times> 't auth_store" where
  "sync_auth L commits auth s0 =
     (let s = (case au_cache s0 of None \<Rightarrow> snd (load_auth L s0) | Some _ \<Rightarrow> s0);
          current = (case au_cache s of None \<Rightarrow> (\<lambda>_. []) | Some c \<Rightarrow> c);
          wanted = sections_of L auth;
          stmts = sync_statements current wanted in
      if stmts = [] then (Some 0, s)
      else if \<not> commits then (None, s)
      else (Some (length stmts), \<lparr>au_db = fold run_statement stmts (au_db s), au_cache = Some wanted\<rparr>))"

section \<open>What the statements do\<close>

lemma run_upserts:
  "wf_map ups \<Longrightarrow> jget (fold run_statement (map (\<lambda>(key, text). Upsert sec key text) ups) db sec') k
     = (if sec' = sec \<and> jget ups k \<noteq> None then jget ups k else jget (db sec') k)"
proof (induction ups arbitrary: db)
  case (Cons p ups)
  obtain a t where p: "p = (a, t)" by (cases p)
  have a: "jget ups a = None" and wf: "wf_map ups" using Cons.prems by (simp_all add: wf_map_def map_of_eq_None_iff p)
  note IH = Cons.IH [OF wf]
  show ?case
  proof (cases "k = a")
    case True
    show ?thesis using a unfolding p True [symmetric] by (simp add: IH)
  next
    case False
    then show ?thesis unfolding p by (auto simp: IH)
  qed
qed simp

lemma run_deletes:
  "jget (fold run_statement (map (\<lambda>(key, text). DeleteRow sec key) gone) db sec') k
     = (if sec' = sec \<and> k \<in> fst ` set gone then None else jget (db sec') k)"
  by (induction gone arbitrary: db) auto

lemma run_wf: "\<forall>sec. wf_map (db sec) \<Longrightarrow> wf_map (fold run_statement stmts db sec)"
proof (induction stmts arbitrary: db)
  case (Cons st stmts)
  from Cons.prems have "\<forall>sec. wf_map (run_statement st db sec)" by (cases st) auto
  with Cons.IH show ?case by simp
qed simp

lemma run_section:
  assumes "wf_map (current sec)" "wf_map (wanted sec)"
  shows "jget (fold run_statement (section_statements current wanted sec) db sec') k =
     (if sec' \<noteq> sec then jget (db sec') k
      else case jget (wanted sec) k of
        Some t \<Rightarrow> if jget (current sec) k = Some t then jget (db sec) k else Some t
      | None \<Rightarrow> if jget (current sec) k \<noteq> None \<and> k \<notin> set object_members then None else jget (db sec) k)"
proof -
  define ups where "ups = filter (\<lambda>(key, text). jget (current sec) key \<noteq> Some text) (wanted sec)"
  define gone where "gone = filter (\<lambda>(key, text). \<not> has_key key (wanted sec)) (current sec)"
  have u: "wf_map ups" using assms(2) by (simp add: ups_def)
  have ju: "jget ups k = (case jget (wanted sec) k of None \<Rightarrow> None | Some t \<Rightarrow> if jget (current sec) k = Some t then None else Some t)"
    using assms(2) by (simp add: ups_def jget_filter split: option.split)
  have g: "k \<in> fst ` set gone \<longleftrightarrow> jget (current sec) k \<noteq> None \<and> jget (wanted sec) k = None \<and> k \<notin> set object_members"
    by (force simp: gone_def has_key_def map_of_eq_None_iff)
  have "fold run_statement (section_statements current wanted sec) db
      = fold run_statement (map (\<lambda>(key, text). DeleteRow sec key) gone) (fold run_statement (map (\<lambda>(key, text). Upsert sec key text) ups) db)"
    by (simp add: section_statements_def ups_def gone_def)
  then show ?thesis using run_upserts [OF u, of sec db] by (auto simp: run_deletes g ju split: option.split)
qed

lemma run_sync:
  assumes "\<forall>sec. wf_map (current sec)" "\<forall>sec. wf_map (wanted sec)"
  shows "jget (fold run_statement (sync_statements current wanted) db sec) k =
     (case jget (wanted sec) k of
        Some t \<Rightarrow> if jget (current sec) k = Some t then jget (db sec) k else Some t
      | None \<Rightarrow> if jget (current sec) k \<noteq> None \<and> k \<notin> set object_members then None else jget (db sec) k)"
  using assms by (cases sec; hypsubst; simp add: sync_statements_def SECTIONS_def run_section cong: option.case_cong if_cong)

lemma jget_map_filter:
  "wf_map m \<Longrightarrow> jget (List.map_filter (\<lambda>(k, t). map_option (Pair k) (f t)) m) k = Option.bind (jget m k) f"
proof (induction m)
  case (Cons p m)
  have "jget m (fst p) = None" using Cons.prems by (simp add: wf_map_def map_of_eq_None_iff)
  with Cons show ?case by (cases p; cases "f (snd p)") (auto simp: wf_map_def map_filter_simps)
qed (simp add: map_filter_simps)

lemma map_filter_keys: "fst ` set (List.map_filter (\<lambda>(k, t). map_option (Pair k) (f t)) m) \<subseteq> fst ` set m"
  by (force simp: map_filter_def)

lemma wf_map_map_filter: "wf_map m \<Longrightarrow> wf_map (List.map_filter (\<lambda>(k, t). map_option (Pair k) (f t)) m)"
proof (induction m)
  case (Cons p m)
  with map_filter_keys [of f m] show ?case
    by (cases p; cases "f (snd p)") (auto simp: wf_map_def map_filter_simps)
qed (simp add: map_filter_simps)

lemma jget_readable: "wf_map rows \<Longrightarrow> jget (readable L rows) k = Option.bind (jget rows k) (al_parse L)"
  unfolding readable_def by (rule jget_map_filter)

lemma wf_readable: "wf_map rows \<Longrightarrow> wf_map (readable L rows)"
  unfolding readable_def by (rule wf_map_map_filter)

lemma jget_load_cache:
  "wf_map (db sec) \<Longrightarrow> jget (load_cache L db sec) k = map_option (al_stable L) (Option.bind (jget (db sec) k) (al_parse L))"
  by (simp add: load_cache_def map_of_map jget_readable)

lemma wf_load_cache: "wf_map (db sec) \<Longrightarrow> wf_map (load_cache L db sec)"
  using wf_readable [of "db sec" L] by (simp add: load_cache_def wf_map_def comp_def split_beta)

section \<open>Rows and sections\<close>

lemma wf_fold_jset: "wf_map m \<Longrightarrow> wf_map (fold (\<lambda>(k, v) out. jset (g k v) (f k v) out) xs m)"
  by (induction xs arbitrary: m) auto

lemma wf_keyedTokens: "wf_map (keyedTokens L list)"
proof -
  have "wf_map m \<Longrightarrow> wf_map (fold (add_token L) es m)" for es m
    by (induction es arbitrary: m) (auto simp: add_token_def split: option.split)
  then show ?thesis by (simp add: keyedTokens_def)
qed

lemma wf_sections: "wf_map (sections_of L auth sec)"
proof (cases sec)
  case Realms
  have "wf_map (fold (\<lambda>(name, config) out. jset name (al_stable L (js_or config (JObj []))) out) fs [])" for fs
    by (rule wf_fold_jset [where g = "\<lambda>name config. name"]) simp
  then show ?thesis by (simp add: Realms section_realms_def)
qed (simp_all add: wf_keyedTokens)

lemma realm_text_origin:
  "jget (section_realms L realms) k = Some t \<Longrightarrow> \<exists>config. (k, config) \<in> set (obj_fields realms) \<and> t = al_stable L (js_or config (JObj []))"
proof -
  have "jget (fold (\<lambda>(name, config) out. jset name (al_stable L (js_or config (JObj []))) out) fs m) k = Some t
    \<Longrightarrow> jget m k = Some t \<or> (\<exists>config. (k, config) \<in> set fs \<and> t = al_stable L (js_or config (JObj [])))" for fs m
    by (induction fs arbitrary: m) (fastforce split: if_splits)+
  then show "jget (section_realms L realms) k = Some t \<Longrightarrow> \<exists>config. (k, config) \<in> set (obj_fields realms) \<and> t = al_stable L (js_or config (JObj []))"
    by (fastforce simp: section_realms_def)
qed

lemma token_text_origin:
  "jget (keyedTokens L (JArr es)) k = Some t \<Longrightarrow> \<exists>e \<in> set es. token_key e = Some k \<and> t = al_stable L e"
proof -
  have "jget (fold (add_token L) es m) k = Some t \<Longrightarrow> jget m k = Some t \<or> (\<exists>e \<in> set es. token_key e = Some k \<and> t = al_stable L e)" for m
    by (induction es arbitrary: m) (fastforce simp: add_token_def split: if_splits option.splits)+
  then show "jget (keyedTokens L (JArr es)) k = Some t \<Longrightarrow> \<exists>e \<in> set es. token_key e = Some k \<and> t = al_stable L e"
    by (fastforce simp: keyedTokens_def)
qed

section \<open>The store mirrors the auth object\<close>

text \<open>
  What is relied on of \<open>stableStringify\<close> and \<open>JSON.parse\<close>: the text of a value that JSON represents reads
  back as a value with the same text and the same texts in its fields.
\<close>

definition canonical :: "'t auth_lib \<Rightarrow> bool" where
  "canonical L \<longleftrightarrow> (\<forall>v. json_clean v \<longrightarrow> (\<exists>v'. al_parse L (al_stable L v) = Some v' \<and> al_stable L v' = al_stable L v
     \<and> truthy v' = truthy v \<and> (\<forall>k s. obj_get v' k = JStr s \<longleftrightarrow> obj_get v k = JStr s)))"

definition list_entries :: "jsval \<Rightarrow> jsval list" where
  "list_entries v = (case v of JArr es \<Rightarrow> es | _ \<Rightarrow> [])"

definition auth_clean :: "jsval \<Rightarrow> bool" where
  "auth_clean auth \<longleftrightarrow> (\<forall>(name, config) \<in> set (obj_fields (obj_get auth ''realms'')). json_clean (js_or config (JObj [])))
     \<and> (\<forall>e \<in> set (list_entries (obj_get auth ''tokens'')). json_clean e)
     \<and> (\<forall>e \<in> set (list_entries (js_or (obj_get auth ''management_tokens'') (obj_get auth ''managementTokens''))). json_clean e)"

definition row_ok :: "'t auth_lib \<Rightarrow> auth_section \<Rightarrow> string \<Rightarrow> 't \<Rightarrow> bool" where
  "row_ok L sec k t \<longleftrightarrow> (\<exists>v. al_parse L t = Some v \<and> al_stable L v = t \<and> truthy v \<and> (sec \<noteq> Realms \<longrightarrow> token_key v = Some k))"

definition auth_inv :: "'t auth_lib \<Rightarrow> 't auth_store \<Rightarrow> bool" where
  "auth_inv L s \<longleftrightarrow> (\<forall>sec. wf_map (au_db s sec)) \<and> (\<forall>sec k t. jget (au_db s sec) k = Some t \<longrightarrow> row_ok L sec k t)
     \<and> (\<forall>c. au_cache s = Some c \<longrightarrow> (\<forall>sec. wf_map (c sec)
         \<and> (\<forall>k t. jget (c sec) k = Some t \<longrightarrow> jget (au_db s sec) k = Some t)
         \<and> (\<forall>k. k \<notin> set object_members \<longrightarrow> jget (c sec) k = jget (au_db s sec) k)))"

lemma text_of_other: "\<nexists>s. v = JStr s \<Longrightarrow> text_of v = []"
  by (cases v) (auto simp: text_of_def)

lemma text_of_cong:
  assumes "\<And>s. v' = JStr s \<longleftrightarrow> v = JStr s" shows "text_of v' = text_of v"
proof (cases "\<exists>s. v = JStr s")
  case True
  then obtain s where "v = JStr s" by blast
  with assms [of s] show ?thesis by simp
next
  case False
  with assms have "text_of v' = []" "text_of v = []" by (intro text_of_other; blast)+
  then show ?thesis by simp
qed

lemma token_key_cong: "(\<And>k s. obj_get v' k = JStr s \<longleftrightarrow> obj_get v k = JStr s) \<Longrightarrow> token_key v' = token_key v"
  by (simp add: token_key_def text_of_cong [of "obj_get v' _" "obj_get v _"])

lemma token_key_truthy: "token_key v = Some k \<Longrightarrow> truthy v"
  by (cases v) (auto simp: token_key_def text_of_def)

lemma sections_row_ok:
  assumes "canonical L" "auth_clean auth" "jget (sections_of L auth sec) k = Some t"
  shows "row_ok L sec k t"
proof -
  have row: "row_ok L sec k (al_stable L v)" if "json_clean v" "truthy v" "sec \<noteq> Realms \<longrightarrow> token_key v = Some k" for v
  proof -
    from assms(1) that(1) obtain v' where v': "al_parse L (al_stable L v) = Some v'" "al_stable L v' = al_stable L v" "truthy v' = truthy v"
        "\<And>k s. obj_get v' k = JStr s \<longleftrightarrow> obj_get v k = JStr s" unfolding canonical_def by blast
    with token_key_cong [of v' v] that show ?thesis by (auto simp: row_ok_def)
  qed
  have token: "row_ok L sec k t" if "jget (keyedTokens L list) k = Some t" "\<forall>e \<in> set (list_entries list). json_clean e" for list
  proof -
    have "keyedTokens L list = keyedTokens L (JArr (list_entries list))" by (cases list) (simp_all add: keyedTokens_def list_entries_def)
    with that token_text_origin [of L "list_entries list" k t] row token_key_truthy show ?thesis by auto
  qed
  have "truthy (js_or c (JObj []))" for c by (simp add: js_or_def)
  then show ?thesis
    using assms(2,3) row token realm_text_origin [of L "obj_get auth ''realms''" k t]
    by (cases sec) (fastforce simp: auth_clean_def)+
qed

lemma auth_inv_load:
  assumes "auth_inv L s" shows "auth_inv L (snd (load_auth L s))"
proof -
  have "jget (load_cache L (au_db s) sec) k = jget (au_db s sec) k" for sec k
  proof (cases "jget (au_db s sec) k")
    case (Some t)
    with assms have "row_ok L sec k t" "wf_map (au_db s sec)" by (simp_all add: auth_inv_def)
    with Some show ?thesis by (auto simp: jget_load_cache row_ok_def)
  qed (use assms in \<open>simp add: jget_load_cache auth_inv_def\<close>)
  with assms show ?thesis by (simp add: auth_inv_def load_auth_def wf_load_cache)
qed

text \<open>The store a sync starts from: \<open>load\<close> has run.\<close>

definition primed :: "'t auth_lib \<Rightarrow> 't auth_store \<Rightarrow> 't auth_store" where
  "primed L s = (case au_cache s of None \<Rightarrow> snd (load_auth L s) | Some _ \<Rightarrow> s)"

lemma primed_cache: "\<exists>c. au_cache (primed L s) = Some c" and primed_db: "au_db (primed L s) = au_db s"
  by (auto simp: primed_def load_auth_def split: option.split)

lemma primed_inv: "auth_inv L s \<Longrightarrow> auth_inv L (primed L s)"
  using auth_inv_load [of L s] by (simp add: primed_def split: option.split)

lemma sync_auth_cases:
  assumes "sync_auth L commits auth s = (res, s')" "au_cache (primed L s) = Some c"
  obtains (rolled_back) "\<not> commits" "res = None" "s' = primed L s" "sync_statements c (sections_of L auth) \<noteq> []"
  | (unchanged) "res = Some 0" "s' = primed L s" "sync_statements c (sections_of L auth) = []"
  | (written) "commits" "res = Some (length (sync_statements c (sections_of L auth)))" "sync_statements c (sections_of L auth) \<noteq> []"
      "s' = \<lparr>au_db = fold run_statement (sync_statements c (sections_of L auth)) (au_db s), au_cache = Some (sections_of L auth)\<rparr>"
proof -
  have "(case au_cache s of None \<Rightarrow> snd (load_auth L s) | Some _ \<Rightarrow> s) = primed L s" by (simp add: primed_def)
  with assms that show thesis by (auto simp: sync_auth_def Let_def primed_db split: if_splits)
qed

lemma sync_lookup:
  fixes auth :: jsval
  assumes "auth_inv L s" "au_cache (primed L s) = Some c"
  defines "db \<equiv> fold run_statement (sync_statements c (sections_of L auth)) (au_db s)"
  shows "jget (sections_of L auth sec) k = Some t \<Longrightarrow> jget (db sec) k = Some t"
    "k \<notin> set object_members \<Longrightarrow> jget (db sec) k = jget (sections_of L auth sec) k"
    "jget (db sec) k = Some t \<Longrightarrow> jget (sections_of L auth sec) k = Some t \<or> jget (au_db s sec) k = Some t"
proof -
  have C: "\<forall>sec. wf_map (c sec)" "\<And>sec k t. jget (c sec) k = Some t \<Longrightarrow> jget (au_db s sec) k = Some t"
    "\<And>sec k. k \<notin> set object_members \<Longrightarrow> jget (c sec) k = jget (au_db s sec) k"
    using primed_inv [OF assms(1)] assms(2) unfolding auth_inv_def primed_db by blast+
  have look: "jget (db sec) k = (case jget (sections_of L auth sec) k of
        Some t \<Rightarrow> if jget (c sec) k = Some t then jget (au_db s sec) k else Some t
      | None \<Rightarrow> if jget (c sec) k \<noteq> None \<and> k \<notin> set object_members then None else jget (au_db s sec) k)"
    unfolding db_def using C(1) wf_sections by (intro run_sync) blast+
  show "jget (sections_of L auth sec) k = Some t \<Longrightarrow> jget (db sec) k = Some t" using C(2) by (simp add: look)
  show "k \<notin> set object_members \<Longrightarrow> jget (db sec) k = jget (sections_of L auth sec) k"
    using C(3) [of k sec] by (auto simp: look split: option.split)
  show "jget (db sec) k = Some t \<Longrightarrow> jget (sections_of L auth sec) k = Some t \<or> jget (au_db s sec) k = Some t"
    by (auto simp: look split: option.splits if_splits)
qed

lemma sync_inv:
  assumes "canonical L" "auth_clean auth" "auth_inv L s" "sync_auth L commits auth s = (res, s')"
  shows "auth_inv L s'"
proof -
  obtain c where c: "au_cache (primed L s) = Some c" using primed_cache by blast
  note look = sync_lookup [OF assms(3) c, where auth = auth]
  from assms(4) c show ?thesis
  proof (cases rule: sync_auth_cases)
    case written
    have "row_ok L sec k t" if "jget (au_db s' sec) k = Some t" for sec k t
      using look(3) [of sec k t] that sections_row_ok [OF assms(1,2), of sec k t] assms(3) by (auto simp: written(4) auth_inv_def)
    with look(1,2) assms(3) show ?thesis by (simp add: auth_inv_def written(4) run_wf wf_sections)
  qed (use primed_inv [OF assms(3)] in simp_all)
qed

lemma sync_failed_db: "sync_auth L False auth s = (res, s') \<Longrightarrow> au_db s' = au_db s"
proof -
  assume *: "sync_auth L False auth s = (res, s')"
  obtain c where c: "au_cache (primed L s) = Some c" using primed_cache by blast
  from * c show ?thesis by (cases rule: sync_auth_cases) (simp_all add: primed_db)
qed

text \<open>The object a restarted server makes of what it loads.\<close>

definition auth_object :: "loaded \<Rightarrow> jsval" where
  "auth_object l = JObj [(''realms'', JObj (ld_realms l)), (''tokens'', JArr (ld_tokens l)), (''management_tokens'', JArr (ld_management l))]"

lemma fold_jset_get:
  "wf_map xs \<Longrightarrow> jget (fold (\<lambda>(k, v) m. jset k (f v) m) xs m0) k = (case jget xs k of Some v \<Rightarrow> Some (f v) | None \<Rightarrow> jget m0 k)"
proof (induction xs arbitrary: m0)
  case (Cons p xs)
  obtain a t where p: "p = (a, t)" by (cases p)
  have a: "jget xs a = None" and wf: "wf_map xs" using Cons.prems by (simp_all add: wf_map_def map_of_eq_None_iff p)
  note IH = Cons.IH [OF wf]
  show ?case
  proof (cases "k = a")
    case True
    show ?thesis using a unfolding p True [symmetric] by (simp add: IH)
  next
    case False
    then show ?thesis unfolding p by (simp add: IH split: option.split)
  qed
qed simp

lemma fold_add_token:
  "\<forall>(k, v) \<in> set R. token_key v = Some k \<Longrightarrow> fold (add_token L) (map snd R) m = fold (\<lambda>(k, v) m. jset k (al_stable L v) m) R m"
  by (induction R arbitrary: m) (auto simp: add_token_def)

lemma load_sections:
  assumes "auth_inv L s"
  shows "jget (sections_of L (auth_object (fst (load_auth L s))) sec) k = jget (au_db s sec) k"
proof -
  have wf: "wf_map (au_db s sec)" for sec using assms by (simp add: auth_inv_def)
  have row: "\<exists>t. jget (au_db s sec) k = Some t \<and> al_parse L t = Some v \<and> al_stable L v = t \<and> truthy v \<and> (sec \<noteq> Realms \<longrightarrow> token_key v = Some k)"
    if "jget (readable L (au_db s sec)) k = Some v" for sec k v
  proof -
    from that obtain t where t: "jget (au_db s sec) k = Some t" "al_parse L t = Some v" by (auto simp: jget_readable [OF wf] split: bind_splits)
    with assms have "row_ok L sec k t" by (simp add: auth_inv_def)
    with t show ?thesis by (auto simp: row_ok_def)
  qed
  have texts: "(case jget (readable L (au_db s sec)) k of Some v \<Rightarrow> Some (al_stable L v) | None \<Rightarrow> None) = jget (au_db s sec) k" for sec
  proof (cases "jget (au_db s sec) k")
    case (Some t)
    with assms have "row_ok L sec k t" by (simp add: auth_inv_def)
    with Some show ?thesis by (auto simp: jget_readable [OF wf] row_ok_def)
  qed (simp add: jget_readable [OF wf])
  have tokens: "jget (keyedTokens L (JArr (map snd (readable L (au_db s sec))))) k = jget (au_db s sec) k" if "sec \<noteq> Realms" for sec
  proof -
    have "token_key v = Some k'" if "(k', v) \<in> set (readable L (au_db s sec))" for k' v
      using that row [of sec k' v] \<open>sec \<noteq> Realms\<close> by (simp add: wf_map_in wf_readable [OF wf])
    then have "fold (add_token L) (map snd (readable L (au_db s sec))) [] = fold (\<lambda>(k, v) m. jset k (al_stable L v) m) (readable L (au_db s sec)) []"
      by (intro fold_add_token) auto
    then show ?thesis using texts [of sec] by (simp add: keyedTokens_def fold_jset_get [OF wf_readable [OF wf]] cong: option.case_cong)
  qed
  have realms: "jget (section_realms L (JObj (readable L (au_db s Realms)))) k = jget (au_db s Realms) k"
  proof -
    have "jget (section_realms L (JObj (readable L (au_db s Realms)))) k
        = (case jget (readable L (au_db s Realms)) k of Some v \<Rightarrow> Some (al_stable L (js_or v (JObj []))) | None \<Rightarrow> None)"
      using fold_jset_get [OF wf_readable [OF wf], where f = "\<lambda>config. al_stable L (js_or config (JObj []))"]
      by (simp add: section_realms_def cong: option.case_cong)
    also have "\<dots> = (case jget (readable L (au_db s Realms)) k of Some v \<Rightarrow> Some (al_stable L v) | None \<Rightarrow> None)"
      using row [of Realms k] by (auto simp: js_or_def split: option.split)
    finally show ?thesis using texts [of Realms] by simp
  qed
  show ?thesis using tokens realms by (cases sec) (simp_all add: auth_object_def load_auth_def js_or_def)
qed

fun sync_all :: "'t auth_lib \<Rightarrow> (bool \<times> jsval) list \<Rightarrow> 't auth_store \<Rightarrow> 't auth_store" where
  "sync_all L [] s = s"
| "sync_all L ((commits, auth) # es) s = sync_all L es (snd (sync_auth L commits auth s))"

definition auth_store_new :: "'t auth_store" where
  "auth_store_new = \<lparr>au_db = (\<lambda>sec. []), au_cache = None\<rparr>"

lemma sync_all_append: "sync_all L (es @ es') s = sync_all L es' (sync_all L es s)"
  by (induction es arbitrary: s) auto

lemma sync_all_inv:
  "canonical L \<Longrightarrow> \<forall>p \<in> set es. auth_clean (snd p) \<Longrightarrow> auth_inv L s \<Longrightarrow> auth_inv L (sync_all L es s)"
proof (induction es arbitrary: s)
  case (Cons e es)
  obtain c auth res s' where e: "e = (c, auth)" and step: "sync_auth L c auth s = (res, s')" by (metis surj_pair)
  have "auth_inv L s'" using sync_inv [OF Cons.prems(1) _ Cons.prems(3) step] Cons.prems(2) by (simp add: e)
  with Cons.IH Cons.prems(1,2) show ?case by (simp add: e step)
qed simp

lemma sync_all_failed: "\<forall>p \<in> set es. \<not> fst p \<Longrightarrow> au_db (sync_all L es s) = au_db s"
proof (induction es arbitrary: s)
  case (Cons e es)
  obtain auth where e: "e = (False, auth)" using Cons.prems by (cases e) auto
  obtain res s' where s': "sync_auth L False auth s = (res, s')" by fastforce
  from Cons sync_failed_db [OF s'] show ?case by (simp add: e s')
qed simp

text \<open>
  C21. A restart recovers the auth object: after any sequence of syncs, each of which may fail and roll back,
  loading the store gives, under every key, the realm, token or management token of the last sync that
  succeeded, and nothing else. Names of members of every object are excepted.
\<close>

theorem auth_restart:
  assumes "canonical L" "\<forall>p \<in> set es. auth_clean (snd p)" "auth_clean auth" "\<forall>p \<in> set later. \<not> fst p"
    and "k \<notin> set object_members"
  shows "jget (sections_of L (auth_object (fst (load_auth L (sync_all L (es @ (True, auth) # later) auth_store_new)))) sec) k
    = jget (sections_of L auth sec) k"
proof -
  define s where "s = sync_all L es auth_store_new"
  have "auth_inv L auth_store_new" by (simp add: auth_inv_def auth_store_new_def)
  with assms(1,2) have inv: "auth_inv L s" unfolding s_def by (intro sync_all_inv)
  obtain res s1 where s1: "sync_auth L True auth s = (res, s1)" by fastforce
  have inv1: "auth_inv L s1" using sync_inv [OF assms(1,3) inv s1] .
  obtain c where c: "au_cache (primed L s) = Some c" using primed_cache by blast
  have db1: "jget (au_db s1 sec) k = jget (sections_of L auth sec) k"
    using s1 c sync_lookup(2) [OF inv c assms(5), where auth = auth and sec = sec] by (cases rule: sync_auth_cases) (simp_all add: primed_db)
  have run: "sync_all L (es @ (True, auth) # later) auth_store_new = sync_all L later s1" by (simp add: sync_all_append s_def [symmetric] s1)
  have dbl: "au_db (sync_all L later s1) = au_db s1" using assms(4) by (rule sync_all_failed)
  have "fst (load_auth L (sync_all L later s1)) = fst (load_auth L s1)" by (simp add: load_auth_def dbl)
  with load_sections [OF inv1] db1 show ?thesis by (simp add: run)
qed

definition json_lib :: "json auth_lib" where
  "json_lib = \<lparr>al_stable = (\<lambda>v. case json_stringify v of None \<Rightarrow> NullJ | Some j \<Rightarrow> j), al_parse = (\<lambda>j. Some (json_parse j))\<rparr>"

lemma json_lib_canonical: "canonical json_lib"
proof -
  have "al_parse json_lib (al_stable json_lib v) = Some v" if "json_clean v" for v
    using json_roundtrip [OF that] by (auto simp: json_lib_def)
  then show ?thesis unfolding canonical_def by blast
qed

definition two_realms_auth :: jsval where
  "two_realms_auth = JObj [(''realms'', JObj [(''chat'', JObj [(''e2ee'', JStr ''required'')]), (''constructor'', JObj [])]),
     (''tokens'', JArr [JObj [(''token'', JStr ''t1''), (''realm'', JStr ''chat'')]])]"

definition one_token_auth :: jsval where
  "one_token_auth = JObj [(''tokens'', JArr [JObj [(''token'', JStr ''t2'')]])]"

theorem auth_restart_witness:
  "jget (sections_of json_lib (auth_object (fst (load_auth json_lib (sync_all json_lib ([(True, two_realms_auth)] @ (True, one_token_auth) # [(False, two_realms_auth)]) auth_store_new)))) Realms) ''chat'' = None
   \<and> jget (sections_of json_lib one_token_auth Tokens) ''t2'' \<noteq> None"
proof
  have clean: "auth_clean two_realms_auth" "auth_clean one_token_auth" by code_simp+
  have "jget (sections_of json_lib (auth_object (fst (load_auth json_lib (sync_all json_lib ([(True, two_realms_auth)] @ (True, one_token_auth) # [(False, two_realms_auth)]) auth_store_new)))) Realms) ''chat''
      = jget (sections_of json_lib one_token_auth Realms) ''chat''"
    using clean by (intro auth_restart [OF json_lib_canonical]) (auto simp: object_members_def)
  also have "\<dots> = None" by code_simp
  finally show "jget (sections_of json_lib (auth_object (fst (load_auth json_lib (sync_all json_lib ([(True, two_realms_auth)] @ (True, one_token_auth) # [(False, two_realms_auth)]) auth_store_new)))) Realms) ''chat'' = None" .
  show "jget (sections_of json_lib one_token_auth Tokens) ''t2'' \<noteq> None" by code_simp
qed

text \<open>A second sync of the same object writes nothing.\<close>

lemma sync_statements_same: "(\<And>sec. wf_map (w sec)) \<Longrightarrow> sync_statements w w = []"
  by (auto simp: sync_statements_def section_statements_def has_key_def SECTIONS_def filter_empty_conv wf_map_in image_iff)

lemma sync_twice:
  assumes "sync_auth L commits auth s = (Some n, s')"
  shows "fst (sync_auth L commits' auth s') = Some 0"
proof -
  obtain c where c: "au_cache (primed L s) = Some c" using primed_cache by blast
  from assms c show ?thesis
  proof (cases rule: sync_auth_cases)
    case unchanged
    then show ?thesis using c by (simp add: sync_auth_def Let_def)
  next
    case written
    then show ?thesis by (simp add: sync_auth_def Let_def sync_statements_same wf_sections)
  qed simp
qed

text \<open>
  A removed realm whose name is a member of every object is not deleted from the store: the server that
  restarts has it again.
\<close>

lemma removed_realm_returns:
  "let s = sync_all json_lib [(True, two_realms_auth), (True, one_token_auth)] auth_store_new
   in map fst (ld_realms (fst (load_auth json_lib s))) = [''constructor'']
    \<and> (case au_cache s of None \<Rightarrow> False | Some c \<Rightarrow> c Realms = [])"
  by code_simp

end
