(* ===== verification/Cluster_Settings.thy ===== *)
theory Cluster_Settings
  imports Prelude
begin

text \<open>
  The settings of a cluster (\<open>lib/cluster.js\<close> with \<open>persistSettings\<close>, \<open>applyRemoteSettings\<close> and
  \<open>initCluster\<close> of \<open>lib/server.js\<close>). Every node keeps its own settings, and one Redis holds the shared
  document. A change is written there, counted and announced; a node that hears an announcement of
  another node fetches the document. Each node has two connections: the commands of the first are
  carried out and answered in the order in which they were sent, the announcements on the second arrive
  in the order in which they were published. Between any two of these events every other node may act.
  A command that Redis refuses or never answers is not modelled, nor is a change of the settings by a file,
  and the documents hold an admin token, so that none is generated (\<open>ensureAdminToken\<close>).
\<close>

section \<open>The shared server\<close>

text \<open>The commands \<open>cluster.js\<close> sends; values are JSON documents, and SET NX PX tells whether it set the key.\<close>

record 'r shared_redis =
  sr_set :: "string \<Rightarrow> jsval \<Rightarrow> 'r \<Rightarrow> 'r"
  sr_get :: "string \<Rightarrow> 'r \<Rightarrow> jsval option"
  sr_incr :: "string \<Rightarrow> 'r \<Rightarrow> nat \<times> 'r"

definition keeps_documents :: "'r shared_redis \<Rightarrow> bool" where
  "keeps_documents Q \<longleftrightarrow>
     (\<forall>k k' v r. sr_get Q k (sr_set Q k' v r) = (if k' = k then Some v else sr_get Q k r))
     \<and> (\<forall>k k' r. k' \<noteq> k \<longrightarrow> sr_get Q k (snd (sr_incr Q k' r)) = sr_get Q k r)"

text \<open>\<open>_settingsKey\<close> and \<open>_revisionKey\<close>.\<close>

definition settingsKey :: "string \<Rightarrow> string" where
  "settingsKey prefix = prefix @ '':settings''"

definition revisionKey :: "string \<Rightarrow> string" where
  "revisionKey prefix = prefix @ '':settings:rev''"

lemma keys_differ [simp]: "revisionKey p \<noteq> settingsKey p" "settingsKey p \<noteq> revisionKey p"
  by (simp_all add: settingsKey_def revisionKey_def)

section \<open>Nodes\<close>

datatype fetch_reason = AtStart | AfterChange nat

datatype cl_command = SetDocument jsval | IncrRevision | Announce nat | GetDocument fetch_reason

datatype cl_reply = DocumentSet | Revision nat | Announced | Document fetch_reason "jsval option"

text \<open>\<open>sn_inbox\<close> holds the announcements on their way: the revision and the node that made the change.\<close>

record sync_node =
  sn_settings :: jsval
  sn_commands :: "cl_command list"
  sn_replies :: "cl_reply list"
  sn_subscribed :: bool
  sn_started :: bool
  sn_inbox :: "(nat \<times> string) list"

record 'r cluster =
  cl_redis :: 'r
  cl_node :: "string \<Rightarrow> sync_node"

definition send :: "cl_command \<Rightarrow> sync_node \<Rightarrow> sync_node" where
  "send c n = n\<lparr>sn_commands := sn_commands n @ [c]\<rparr>"

definition settings_document :: "string \<Rightarrow> string \<Rightarrow> jsval \<Rightarrow> jsval" where
  "settings_document me now v =
     JObj [(''settings'', js_or v (JObj [])), (''node_id'', JStr me), (''updated_at'', JStr now)]"

definition publishSettings :: "string \<Rightarrow> string \<Rightarrow> sync_node \<Rightarrow> sync_node" where
  "publishSettings me now n = send (SetDocument (settings_document me now (sn_settings n))) n"

definition fetchSettings :: "fetch_reason \<Rightarrow> sync_node \<Rightarrow> sync_node" where
  "fetchSettings why n = send (GetDocument why) n"

text \<open>The callback of \<open>onSettingsChange\<close>: a node ignores its own announcements.\<close>

definition settingsChanged :: "string \<Rightarrow> nat \<times> string \<Rightarrow> sync_node \<Rightarrow> sync_node" where
  "settingsChanged me a n = (if snd a = me then n else fetchSettings (AfterChange (fst a)) n)"

definition persistSettings :: "string \<Rightarrow> string \<Rightarrow> jsval \<Rightarrow> sync_node \<Rightarrow> sync_node" where
  "persistSettings me now v n = publishSettings me now (n\<lparr>sn_settings := v\<rparr>)"

text \<open>\<open>settings.replace\<close> without publishing again.\<close>

definition applyRemoteSettings :: "jsval \<Rightarrow> sync_node \<Rightarrow> sync_node" where
  "applyRemoteSettings v n = n\<lparr>sn_settings := v\<rparr>"

text \<open>\<open>doc && doc.settings\<close>.\<close>

definition doc_settings :: "jsval option \<Rightarrow> jsval option" where
  "doc_settings d = (case d of None \<Rightarrow> None
     | Some v \<Rightarrow> if truthy (obj_get v ''settings'') then Some (obj_get v ''settings'') else None)"

definition handle_reply :: "string \<Rightarrow> string \<Rightarrow> cl_reply \<Rightarrow> sync_node \<Rightarrow> sync_node" where
  "handle_reply me now a n =
     (case a of
        DocumentSet \<Rightarrow> send IncrRevision n
      | Revision r \<Rightarrow> send (Announce r) n
      | Announced \<Rightarrow> n
      | Document why d \<Rightarrow>
          (case doc_settings d of
             Some v \<Rightarrow> applyRemoteSettings v n
           | None \<Rightarrow> if why = AtStart then publishSettings me now n else n))"

section \<open>Steps\<close>

definition put_node :: "string \<Rightarrow> sync_node \<Rightarrow> 'r cluster \<Rightarrow> 'r cluster" where
  "put_node m n s = s\<lparr>cl_node := (cl_node s)(m := n)\<rparr>"

text \<open>PUBLISH reaches the nodes that have subscribed by then.\<close>

definition announce_to_all :: "nat \<times> string \<Rightarrow> 'r cluster \<Rightarrow> 'r cluster" where
  "announce_to_all a s = s\<lparr>cl_node := (\<lambda>m. let n = cl_node s m
     in if sn_subscribed n then n\<lparr>sn_inbox := sn_inbox n @ [a]\<rparr> else n)\<rparr>"

definition reply_to :: "string \<Rightarrow> cl_reply \<Rightarrow> 'r cluster \<Rightarrow> 'r cluster" where
  "reply_to m a s = (let n = cl_node s m in put_node m (n\<lparr>sn_replies := sn_replies n @ [a]\<rparr>) s)"

definition exec_command :: "'r shared_redis \<Rightarrow> string \<Rightarrow> string \<Rightarrow> cl_command \<Rightarrow> 'r cluster \<Rightarrow> 'r cluster" where
  "exec_command Q prefix m c s =
     (case c of
        SetDocument v \<Rightarrow> reply_to m DocumentSet (s\<lparr>cl_redis := sr_set Q (settingsKey prefix) v (cl_redis s)\<rparr>)
      | IncrRevision \<Rightarrow> (let (r, q) = sr_incr Q (revisionKey prefix) (cl_redis s)
          in reply_to m (Revision r) (s\<lparr>cl_redis := q\<rparr>))
      | Announce r \<Rightarrow> reply_to m Announced (announce_to_all (r, m) s)
      | GetDocument why \<Rightarrow> reply_to m (Document why (sr_get Q (settingsKey prefix) (cl_redis s))) s)"

text \<open>
  The events: a node subscribes and then fetches the document (\<open>initCluster\<close>), its settings change by a
  command (\<open>persistSettings\<close>), Redis carries out its next command, and the node takes its next reply or
  its next announcement. An event that is not possible changes nothing.
\<close>

datatype cl_event =
    Subscribe string
  | Start string
  | ChangeSettings string string jsval
  | Execute string
  | TakeReply string string
  | TakeAnnouncement string

fun cluster_step :: "'r shared_redis \<Rightarrow> string \<Rightarrow> cl_event \<Rightarrow> 'r cluster \<Rightarrow> 'r cluster" where
  "cluster_step Q prefix (Subscribe m) s = put_node m ((cl_node s m)\<lparr>sn_subscribed := True\<rparr>) s"
| "cluster_step Q prefix (Start m) s =
     (let n = cl_node s m in
      if sn_subscribed n \<and> \<not> sn_started n then put_node m (fetchSettings AtStart (n\<lparr>sn_started := True\<rparr>)) s else s)"
| "cluster_step Q prefix (ChangeSettings m now v) s = put_node m (persistSettings m now v (cl_node s m)) s"
| "cluster_step Q prefix (Execute m) s =
     (case sn_commands (cl_node s m) of
        [] \<Rightarrow> s
      | c # cs \<Rightarrow> exec_command Q prefix m c (put_node m ((cl_node s m)\<lparr>sn_commands := cs\<rparr>) s))"
| "cluster_step Q prefix (TakeReply m now) s =
     (case sn_replies (cl_node s m) of
        [] \<Rightarrow> s
      | a # as \<Rightarrow> put_node m (handle_reply m now a ((cl_node s m)\<lparr>sn_replies := as\<rparr>)) s)"
| "cluster_step Q prefix (TakeAnnouncement m) s =
     (case sn_inbox (cl_node s m) of
        [] \<Rightarrow> s
      | a # as \<Rightarrow> put_node m (settingsChanged m a ((cl_node s m)\<lparr>sn_inbox := as\<rparr>)) s)"

definition cluster_run :: "'r shared_redis \<Rightarrow> string \<Rightarrow> cl_event list \<Rightarrow> 'r cluster \<Rightarrow> 'r cluster" where
  "cluster_run Q prefix es s = fold (cluster_step Q prefix) es s"

text \<open>A cluster whose nodes have not spoken yet; Redis may hold a document of an earlier time.\<close>

definition cluster_new :: "(string \<Rightarrow> jsval) \<Rightarrow> 'r \<Rightarrow> 'r cluster" where
  "cluster_new v r = \<lparr>cl_redis = r, cl_node = (\<lambda>m. \<lparr>sn_settings = v m, sn_commands = [], sn_replies = [],
     sn_subscribed = False, sn_started = False, sn_inbox = []\<rparr>)\<rparr>"

text \<open>Nothing is on its way.\<close>

definition node_idle :: "sync_node \<Rightarrow> bool" where
  "node_idle n \<longleftrightarrow> sn_commands n = [] \<and> sn_replies n = [] \<and> sn_inbox n = []"

definition shared_settings :: "'r shared_redis \<Rightarrow> string \<Rightarrow> 'r cluster \<Rightarrow> jsval option" where
  "shared_settings Q prefix s = doc_settings (sr_get Q (settingsKey prefix) (cl_redis s))"

text \<open>The node that wrote the document.\<close>

definition last_writer :: "'r shared_redis \<Rightarrow> string \<Rightarrow> 'r cluster \<Rightarrow> jsval" where
  "last_writer Q prefix s =
     (case sr_get Q (settingsKey prefix) (cl_redis s) of None \<Rightarrow> JUndef | Some d \<Rightarrow> obj_get d ''node_id'')"

section \<open>What a node still has before it\<close>

definition writes :: "sync_node \<Rightarrow> bool" where
  "writes n \<longleftrightarrow> (\<exists>d. SetDocument d \<in> set (sn_commands n))"

definition reads :: "sync_node \<Rightarrow> bool" where
  "reads n \<longleftrightarrow> (\<exists>why. GetDocument why \<in> set (sn_commands n))"

definition announcing :: "sync_node \<Rightarrow> bool" where
  "announcing n \<longleftrightarrow> DocumentSet \<in> set (sn_replies n) \<or> IncrRevision \<in> set (sn_commands n)
     \<or> (\<exists>r. Revision r \<in> set (sn_replies n)) \<or> (\<exists>r. Announce r \<in> set (sn_commands n))"

definition heard :: "string \<Rightarrow> sync_node \<Rightarrow> bool" where
  "heard m n \<longleftrightarrow> (\<exists>a \<in> set (sn_inbox n). snd a \<noteq> m)"

text \<open>The settings a node has once it has taken its replies.\<close>

fun settled :: "cl_reply list \<Rightarrow> jsval \<Rightarrow> jsval" where
  "settled [] v = v"
| "settled (Document why d # as) v = settled as (case doc_settings d of Some v' \<Rightarrow> v' | None \<Rightarrow> v)"
| "settled (_ # as) v = settled as v"

definition up_to_date :: "jsval \<Rightarrow> sync_node \<Rightarrow> bool" where
  "up_to_date v n \<longleftrightarrow> settled (sn_replies n) (sn_settings n) = v"

definition told :: "jsval \<Rightarrow> string \<Rightarrow> sync_node \<Rightarrow> bool" where
  "told v m n \<longleftrightarrow> writes n \<or> reads n \<or> heard m n \<or> up_to_date v n"

lemma settled_append: "settled (as @ bs) v = settled bs (settled as v)"
  by (induction as v rule: settled.induct) simp_all

lemma doc_settings_document [simp]:
  "doc_settings (Some (settings_document me now v)) = Some (js_or v (JObj []))"
  "obj_get (settings_document me now v) ''node_id'' = JStr me"
  by (simp_all add: doc_settings_def settings_document_def js_or_def)

lemmas node_work = writes_def reads_def announcing_def heard_def

lemma send_work [simp]:
  "writes (send c n) \<longleftrightarrow> (\<exists>d. c = SetDocument d) \<or> writes n"
  "reads (send c n) \<longleftrightarrow> (\<exists>why. c = GetDocument why) \<or> reads n"
  "announcing (send c n) \<longleftrightarrow> c = IncrRevision \<or> (\<exists>r. c = Announce r) \<or> announcing n"
  "heard m (send c n) = heard m n" "up_to_date v (send c n) = up_to_date v n"
  "sn_settings (send c n) = sn_settings n" "sn_replies (send c n) = sn_replies n"
  "sn_subscribed (send c n) = sn_subscribed n" "sn_started (send c n) = sn_started n"
  "sn_inbox (send c n) = sn_inbox n" "sn_commands (send c n) = sn_commands n @ [c]"
  by (auto simp: node_work send_def up_to_date_def)

lemma told_send: "told v m n \<Longrightarrow> told v m (send c n)"
  by (auto simp: told_def)

lemma told_reply:
  assumes "told v m n" "sn_replies n = a # as"
  shows "told v m (handle_reply me now a (n\<lparr>sn_replies := as\<rparr>))"
  using assms
  by (cases a) (auto simp: told_def handle_reply_def up_to_date_def publishSettings_def applyRemoteSettings_def
      node_work split: option.splits)

lemma told_announcement:
  assumes "told v m n" "sn_inbox n = a # as"
  shows "told v m (settingsChanged m a (n\<lparr>sn_inbox := as\<rparr>))"
  using assms by (auto simp: told_def settingsChanged_def fetchSettings_def node_work up_to_date_def)

lemma announcing_reply:
  assumes "announcing n" "sn_replies n = a # as"
  shows "announcing (handle_reply me now a (n\<lparr>sn_replies := as\<rparr>))"
  using assms
  by (cases a) (auto simp: handle_reply_def publishSettings_def applyRemoteSettings_def node_work split: option.splits)

section \<open>The invariant\<close>

text \<open>
  Every document on its way to Redis is one of its node's own and has settings; a node that has started
  has subscribed; and a node that has started is told of the document Redis holds, unless it wrote it
  itself or its writer still has to announce it.
\<close>

definition sends_own :: "'r cluster \<Rightarrow> bool" where
  "sends_own s \<longleftrightarrow> (\<forall>m d. SetDocument d \<in> set (sn_commands (cl_node s m))
     \<longrightarrow> (\<exists>now v. d = settings_document m now v))"

definition hears :: "'r cluster \<Rightarrow> bool" where
  "hears s \<longleftrightarrow> (\<forall>m. sn_started (cl_node s m) \<longrightarrow> sn_subscribed (cl_node s m))"

definition all_told :: "'r shared_redis \<Rightarrow> string \<Rightarrow> 'r cluster \<Rightarrow> bool" where
  "all_told Q prefix s \<longleftrightarrow>
     (\<forall>v m. shared_settings Q prefix s = Some v \<longrightarrow> sn_started (cl_node s m) \<longrightarrow> last_writer Q prefix s \<noteq> JStr m
        \<longrightarrow> told v m (cl_node s m) \<or> (\<exists>w. last_writer Q prefix s = JStr w \<and> announcing (cl_node s w)))"

lemma put_node_simps [simp]:
  "cl_node (put_node m n s) = (cl_node s)(m := n)" "cl_redis (put_node m n s) = cl_redis s"
  by (simp_all add: put_node_def)

lemma reply_to_simps [simp]:
  "cl_node (reply_to m a s) = (cl_node s)(m := (cl_node s m)\<lparr>sn_replies := sn_replies (cl_node s m) @ [a]\<rparr>)"
  "cl_redis (reply_to m a s) = cl_redis s"
  by (simp_all add: reply_to_def Let_def)

lemma announce_to_all_simps [simp]:
  "cl_redis (announce_to_all a s) = cl_redis s"
  "sn_commands (cl_node (announce_to_all a s) m) = sn_commands (cl_node s m)"
  "sn_replies (cl_node (announce_to_all a s) m) = sn_replies (cl_node s m)"
  "sn_settings (cl_node (announce_to_all a s) m) = sn_settings (cl_node s m)"
  "sn_subscribed (cl_node (announce_to_all a s) m) = sn_subscribed (cl_node s m)"
  "sn_started (cl_node (announce_to_all a s) m) = sn_started (cl_node s m)"
  "sn_inbox (cl_node (announce_to_all a s) m) = (if sn_subscribed (cl_node s m) then sn_inbox (cl_node s m) @ [a] else sn_inbox (cl_node s m))"
  by (simp_all add: announce_to_all_def Let_def)

lemma shared_cong [simp]:
  "shared_settings Q p (put_node m n s) = shared_settings Q p s" "last_writer Q p (put_node m n s) = last_writer Q p s"
  "shared_settings Q p (reply_to m a s) = shared_settings Q p s" "last_writer Q p (reply_to m a s) = last_writer Q p s"
  "shared_settings Q p (announce_to_all b s) = shared_settings Q p s" "last_writer Q p (announce_to_all b s) = last_writer Q p s"
  by (simp_all add: shared_settings_def last_writer_def)

lemma send_own:
  "SetDocument d \<in> set (sn_commands (handle_reply m now a n)) \<Longrightarrow>
   SetDocument d \<in> set (sn_commands n) \<or> (\<exists>now v. d = settings_document m now v)"
  by (auto simp: handle_reply_def publishSettings_def applyRemoteSettings_def send_def split: cl_reply.splits option.splits if_splits)

lemma settingsChanged_simps [simp]:
  "SetDocument d \<in> set (sn_commands (settingsChanged m a n)) \<longleftrightarrow> SetDocument d \<in> set (sn_commands n)"
  "sn_started (settingsChanged m a n) = sn_started n" "sn_subscribed (settingsChanged m a n) = sn_subscribed n"
  "announcing (settingsChanged m a n) = announcing n" "sn_settings (settingsChanged m a n) = sn_settings n"
  "sn_replies (settingsChanged m a n) = sn_replies n" "sn_inbox (settingsChanged m a n) = sn_inbox n"
  by (auto simp: settingsChanged_def fetchSettings_def send_def node_work)

lemma handle_reply_simps [simp]:
  "sn_started (handle_reply m now a n) = sn_started n" "sn_subscribed (handle_reply m now a n) = sn_subscribed n"
  "sn_replies (handle_reply m now a n) = sn_replies n" "sn_inbox (handle_reply m now a n) = sn_inbox n"
  by (auto simp: handle_reply_def publishSettings_def applyRemoteSettings_def split: cl_reply.splits option.splits)

lemma sends_own_step: "sends_own s \<Longrightarrow> sends_own (cluster_step Q p e s)"
  by (cases e) (auto simp: sends_own_def exec_command_def fetchSettings_def persistSettings_def publishSettings_def
      split_beta send_def Let_def split: list.splits cl_command.splits if_splits dest!: send_own)

lemma hears_step: "hears s \<Longrightarrow> hears (cluster_step Q p e s)"
  by (cases e) (auto simp: hears_def exec_command_def fetchSettings_def persistSettings_def publishSettings_def
      split_beta send_def Let_def split: list.splits cl_command.splits)

text \<open>A step of one node that leaves Redis alone.\<close>

lemma all_told_put:
  assumes inv: "all_told Q p s"
    and told: "\<And>v. sn_started n \<Longrightarrow> (sn_started (cl_node s m) \<Longrightarrow> told v m (cl_node s m)) \<Longrightarrow> told v m n"
    and ann: "announcing (cl_node s m) \<Longrightarrow> announcing n"
  shows "all_told Q p (put_node m n s)"
  unfolding all_told_def
proof (intro allI impI)
  fix v m'
  assume v: "shared_settings Q p (put_node m n s) = Some v" and st: "sn_started (cl_node (put_node m n s) m')"
    and w: "last_writer Q p (put_node m n s) \<noteq> JStr m'"
  have keep: "announcing (cl_node s w) \<Longrightarrow> announcing (cl_node (put_node m n s) w)" for w using ann by auto
  have old: "told v m' (cl_node s m') \<or> (\<exists>w. last_writer Q p s = JStr w \<and> announcing (cl_node s w))"
    if "sn_started (cl_node s m')" using inv v w that by (simp add: all_told_def)
  show "told v m' (cl_node (put_node m n s) m') \<or>
    (\<exists>w. last_writer Q p (put_node m n s) = JStr w \<and> announcing (cl_node (put_node m n s) w))"
  proof (cases "\<exists>w. last_writer Q p s = JStr w \<and> announcing (cl_node s w)")
    case True
    then obtain w' where "last_writer Q p s = JStr w'" "announcing (cl_node s w')" by blast
    with keep [of w'] show ?thesis by (simp del: put_node_simps) 
  next
    case False
    with old told [of v] st show ?thesis by (cases "m' = m") auto
  qed
qed

lemma node_update_work [simp]:
  "writes (n\<lparr>sn_subscribed := b\<rparr>) = writes n" "reads (n\<lparr>sn_subscribed := b\<rparr>) = reads n"
  "heard m (n\<lparr>sn_subscribed := b\<rparr>) = heard m n" "up_to_date v (n\<lparr>sn_subscribed := b\<rparr>) = up_to_date v n"
  "announcing (n\<lparr>sn_subscribed := b\<rparr>) = announcing n"
  "writes (n\<lparr>sn_started := b\<rparr>) = writes n" "reads (n\<lparr>sn_started := b\<rparr>) = reads n"
  "announcing (n\<lparr>sn_started := b\<rparr>) = announcing n" "announcing (n\<lparr>sn_settings := x\<rparr>) = announcing n"
  "announcing (n\<lparr>sn_inbox := i\<rparr>) = announcing n"
  by (simp_all add: node_work up_to_date_def)

text \<open>The command \<open>c\<close> of node \<open>m\<close> is carried out and the rest of its commands is \<open>cs\<close>.\<close>

lemma all_told_exec:
  assumes inv: "all_told Q p s" and own: "sends_own s" and h: "hears s" and Q: "keeps_documents Q"
    and c: "sn_commands (cl_node s m) = c # cs"
  defines "s1 \<equiv> put_node m ((cl_node s m)\<lparr>sn_commands := cs\<rparr>) s"
  shows "all_told Q p (exec_command Q p m c s1)"
proof -
  have sh: "shared_settings Q p s1 = shared_settings Q p s" "last_writer Q p s1 = last_writer Q p s"
    by (simp_all add: s1_def)
  show ?thesis
  proof (cases c)
    case (SetDocument d)
    then obtain now v where d: "d = settings_document m now v"
      using own c by (fastforce simp: sends_own_def)
    have w: "last_writer Q p (exec_command Q p m c s1) = JStr m"
      using Q by (simp add: SetDocument d exec_command_def last_writer_def keeps_documents_def)
    have "announcing (cl_node (exec_command Q p m c s1) m)"
      by (simp add: SetDocument exec_command_def node_work)
    with w show ?thesis by (auto simp: all_told_def)
  next
    case IncrRevision
    have same: "shared_settings Q p (exec_command Q p m c s1) = shared_settings Q p s"
      "last_writer Q p (exec_command Q p m c s1) = last_writer Q p s"
      using Q by (auto simp: IncrRevision exec_command_def split_beta shared_settings_def last_writer_def keeps_documents_def s1_def)
    have told: "told v m' (cl_node s m') \<Longrightarrow> told v m' (cl_node (exec_command Q p m c s1) m')" for v m'
      using c by (auto simp: IncrRevision exec_command_def split_beta s1_def told_def node_work up_to_date_def settled_append)
    have ann: "announcing (cl_node s w) \<Longrightarrow> announcing (cl_node (exec_command Q p m c s1) w)" for w
      using c by (auto simp: IncrRevision exec_command_def split_beta s1_def node_work)
    have "sn_started (cl_node (exec_command Q p m c s1) m') = sn_started (cl_node s m')" for m'
      by (simp add: IncrRevision exec_command_def split_beta s1_def)
    with inv same told ann show ?thesis unfolding all_told_def by metis
  next
    case (Announce r)
    have same: "shared_settings Q p (exec_command Q p m c s1) = shared_settings Q p s"
      "last_writer Q p (exec_command Q p m c s1) = last_writer Q p s"
      by (auto simp: Announce exec_command_def s1_def)
    have told: "told v m' (cl_node s m') \<Longrightarrow> told v m' (cl_node (exec_command Q p m c s1) m')" for v m'
      using c by (auto simp: Announce exec_command_def s1_def told_def node_work up_to_date_def settled_append)
    have st: "sn_started (cl_node (exec_command Q p m c s1) m') = sn_started (cl_node s m')" for m'
      by (simp add: Announce exec_command_def s1_def)
    have ann: "announcing (cl_node s w) \<Longrightarrow> w \<noteq> m \<Longrightarrow> announcing (cl_node (exec_command Q p m c s1) w)" for w
      by (auto simp: Announce exec_command_def s1_def node_work)
    have heard: "told v m' (cl_node (exec_command Q p m c s1) m')" if "m' \<noteq> m" "sn_started (cl_node s m')" for v m'
      using h that by (auto simp: hears_def Announce exec_command_def s1_def told_def heard_def)
    show ?thesis unfolding all_told_def
    proof (intro allI impI)
      fix v m'
      assume v: "shared_settings Q p (exec_command Q p m c s1) = Some v"
        and s': "sn_started (cl_node (exec_command Q p m c s1) m')"
        and w: "last_writer Q p (exec_command Q p m c s1) \<noteq> JStr m'"
      from inv v s' w have "told v m' (cl_node s m') \<or> (\<exists>w. last_writer Q p s = JStr w \<and> announcing (cl_node s w))"
        by (simp add: all_told_def same st)
      then show "told v m' (cl_node (exec_command Q p m c s1) m') \<or>
        (\<exists>w. last_writer Q p (exec_command Q p m c s1) = JStr w \<and> announcing (cl_node (exec_command Q p m c s1) w))"
      proof (elim disjE exE conjE)
        assume "told v m' (cl_node s m')"
        with told show ?thesis by blast
      next
        fix x assume "last_writer Q p s = JStr x" "announcing (cl_node s x)"
        with ann [of x] heard [of m' v] s' w show ?thesis by (cases "x = m") (auto simp: same st)
      qed
    qed
  next
    case (GetDocument why)
    have same: "shared_settings Q p (exec_command Q p m c s1) = shared_settings Q p s"
      "last_writer Q p (exec_command Q p m c s1) = last_writer Q p s"
      by (auto simp: GetDocument exec_command_def s1_def)
    have told: "told v m' (cl_node s m') \<Longrightarrow> told v m' (cl_node (exec_command Q p m c s1) m')"
      if "shared_settings Q p s = Some v" for v m'
      using c that by (auto simp: GetDocument exec_command_def s1_def told_def node_work up_to_date_def settled_append
          shared_settings_def)
    have ann: "announcing (cl_node s w) \<Longrightarrow> announcing (cl_node (exec_command Q p m c s1) w)" for w
      using c by (auto simp: GetDocument exec_command_def s1_def node_work)
    have "sn_started (cl_node (exec_command Q p m c s1) m') = sn_started (cl_node s m')" for m'
      by (simp add: GetDocument exec_command_def s1_def)
    with inv same told ann show ?thesis unfolding all_told_def by metis
  qed
qed

definition sync_invar :: "'r shared_redis \<Rightarrow> string \<Rightarrow> 'r cluster \<Rightarrow> bool" where
  "sync_invar Q p s \<longleftrightarrow> sends_own s \<and> hears s \<and> all_told Q p s"

lemma all_told_step:
  assumes inv: "sync_invar Q p s" and Q: "keeps_documents Q"
  shows "all_told Q p (cluster_step Q p e s)"
proof -
  note inv' = inv [unfolded sync_invar_def]
  show ?thesis
  proof (cases e)
    case (Subscribe m)
    with inv' show ?thesis by (auto intro!: all_told_put simp: told_def)
  next
    case (Start m)
    with inv' show ?thesis by (auto intro!: all_told_put simp: Let_def told_def fetchSettings_def)
  next
    case (ChangeSettings m now v)
    with inv' show ?thesis by (auto intro!: all_told_put simp: told_def persistSettings_def publishSettings_def)
  next
    case (Execute m)
    with inv' Q show ?thesis by (auto split: list.split intro!: all_told_exec)
  next
    case (TakeReply m now)
    with inv' show ?thesis
      by (auto split: list.split intro!: all_told_put intro: told_reply announcing_reply)
  next
    case (TakeAnnouncement m)
    with inv' show ?thesis
      by (auto split: list.split intro!: all_told_put intro: told_announcement)
  qed
qed

lemma sync_invar_run:
  "keeps_documents Q \<Longrightarrow> sync_invar Q p s \<Longrightarrow> sync_invar Q p (cluster_run Q p es s)"
proof (induction es arbitrary: s)
  case (Cons e es)
  then have "sync_invar Q p (cluster_step Q p e s)"
    using all_told_step [of Q p s e] sends_own_step [of s Q p e] hears_step [of s Q p e] by (simp add: sync_invar_def)
  with Cons show ?case by (simp add: cluster_run_def)
qed (simp add: cluster_run_def)

lemma sync_invar_new: "sync_invar Q p (cluster_new v r)"
  by (simp add: sync_invar_def sends_own_def hears_def all_told_def cluster_new_def)

lemma idle_work: "node_idle n \<Longrightarrow> \<not> writes n \<and> \<not> reads n \<and> \<not> announcing n \<and> \<not> heard m n"
  by (simp add: node_idle_def node_work)

lemma idle_told: "node_idle n \<Longrightarrow> told v m n \<Longrightarrow> sn_settings n = v"
  using idle_work [of n m] by (auto simp: told_def up_to_date_def node_idle_def)

section \<open>A node that writes while it reads\<close>

text \<open>
  A node has nothing of Redis on its way that would replace the settings it is about to publish: the
  condition under which its own change is safe.
\<close>

definition calm :: "sync_node \<Rightarrow> bool" where
  "calm n \<longleftrightarrow> \<not> reads n \<and> (\<forall>why d. Document why d \<notin> set (sn_replies n))"

definition well_timed :: "cl_event \<Rightarrow> 'r cluster \<Rightarrow> bool" where
  "well_timed e s =
     (case e of
        ChangeSettings m now v \<Rightarrow> truthy v \<and> calm (cl_node s m)
      | TakeReply m now \<Rightarrow>
          (case sn_replies (cl_node s m) of
             Document AtStart d # as \<Rightarrow> doc_settings d = None \<longrightarrow> calm ((cl_node s m)\<lparr>sn_replies := as\<rparr>)
           | _ \<Rightarrow> True)
      | _ \<Rightarrow> True)"

fun well_timed_run :: "'r shared_redis \<Rightarrow> string \<Rightarrow> cl_event list \<Rightarrow> 'r cluster \<Rightarrow> bool" where
  "well_timed_run Q p [] s = True"
| "well_timed_run Q p (e # es) s = (well_timed e s \<and> well_timed_run Q p es (cluster_step Q p e s))"

text \<open>The document a node sends last.\<close>

fun last_sent :: "cl_command list \<Rightarrow> jsval option \<Rightarrow> jsval option" where
  "last_sent [] d = d"
| "last_sent (SetDocument d' # cs) d = last_sent cs (Some d')"
| "last_sent (GetDocument why # cs) d = last_sent cs None"
| "last_sent (_ # cs) d = last_sent cs d"

text \<open>
  No document is sent after a fetch, and unless a fetch follows, the document sent last holds the settings
  the node will have.
\<close>

fun gets_last :: "cl_command list \<Rightarrow> bool" where
  "gets_last [] = True"
| "gets_last (GetDocument why # cs) = (gets_last cs \<and> (\<forall>d. SetDocument d \<notin> set cs))"
| "gets_last (_ # cs) = gets_last cs"

definition node_careful :: "sync_node \<Rightarrow> bool" where
  "node_careful n \<longleftrightarrow> truthy (sn_settings n) \<and> gets_last (sn_commands n)
     \<and> (\<forall>d. last_sent (sn_commands n) None = Some d \<longrightarrow> doc_settings (Some d) = Some (settled (sn_replies n) (sn_settings n)))"

lemma last_sent_append: "last_sent (cs @ bs) d = last_sent bs (last_sent cs d)"
  by (induction cs d rule: last_sent.induct) simp_all

lemma gets_last_append:
  "gets_last (cs @ bs) \<longleftrightarrow> gets_last cs \<and> gets_last bs \<and>
     ((\<exists>why. GetDocument why \<in> set cs) \<longrightarrow> (\<forall>d. SetDocument d \<notin> set bs))"
  by (induction cs rule: gets_last.induct) auto

lemma last_sent_no_set: "(\<And>d. SetDocument d \<notin> set cs) \<Longrightarrow> last_sent cs None = None"
  by (induction cs "None :: jsval option" rule: last_sent.induct) auto

lemma last_sent_some: "\<not> (\<exists>why. GetDocument why \<in> set cs) \<Longrightarrow> (\<exists>d. SetDocument d \<in> set cs) \<or> d \<noteq> None \<Longrightarrow> last_sent cs d \<noteq> None"
  by (induction cs d rule: last_sent.induct) auto

lemma last_sent_keep: "last_sent cs None = Some d \<Longrightarrow> last_sent cs x = Some d"
  by (induction cs x rule: last_sent.induct) auto

lemma doc_settings_truthy: "doc_settings d = Some v \<Longrightarrow> truthy v"
  by (auto simp: doc_settings_def split: option.splits if_splits)

lemma settled_no_document: "(\<And>why d. Document why d \<notin> set as) \<Longrightarrow> settled as v = v"
  by (induction as v rule: settled.induct) auto

lemma careful_send:
  assumes "node_careful n" "\<And>d. c \<noteq> SetDocument d" shows "node_careful (send c n)"
  using assms by (cases c) (auto simp: node_careful_def last_sent_append gets_last_append)

lemma careful_publish:
  assumes "node_careful n" "calm n"
  shows "node_careful (publishSettings me now n)"
proof -
  have "settled (sn_replies n) (sn_settings n) = sn_settings n"
    using assms(2) by (intro settled_no_document) (simp add: calm_def)
  with assms show ?thesis
    by (auto simp: node_careful_def publishSettings_def last_sent_append gets_last_append js_or_def calm_def reads_def)
qed

lemma careful_change:
  assumes "node_careful n" "calm n" "truthy v"
  shows "node_careful (persistSettings me now v n)"
proof -
  have "settled (sn_replies n) v = v"
    using assms(2) by (intro settled_no_document) (simp add: calm_def)
  with assms show ?thesis
    by (auto simp: node_careful_def persistSettings_def publishSettings_def last_sent_append gets_last_append js_or_def calm_def reads_def)
qed

definition all_careful :: "'r cluster \<Rightarrow> bool" where
  "all_careful s \<longleftrightarrow> (\<forall>m. node_careful (cl_node s m))"

text \<open>The writer of the document is told of it as well.\<close>

definition writer_told :: "'r shared_redis \<Rightarrow> string \<Rightarrow> 'r cluster \<Rightarrow> bool" where
  "writer_told Q p s \<longleftrightarrow>
     (\<forall>v w. shared_settings Q p s = Some v \<longrightarrow> last_writer Q p s = JStr w \<longrightarrow> sn_started (cl_node s w)
        \<longrightarrow> told v w (cl_node s w))"

lemma careful_reply:
  assumes "node_careful n" "sn_replies n = a # as"
    and calm: "\<And>d. a = Document AtStart d \<Longrightarrow> doc_settings d = None \<Longrightarrow> calm (n\<lparr>sn_replies := as\<rparr>)"
  shows "node_careful (handle_reply m now a (n\<lparr>sn_replies := as\<rparr>))"
proof -
  have n: "node_careful (n\<lparr>sn_replies := as\<rparr>)" if "settled [a] (sn_settings n) = sn_settings n"
    using assms(1,2) that settled_append [of "[a]" as] by (auto simp: node_careful_def)
  show ?thesis
  proof (cases a)
    case (Document why d)
    show ?thesis
    proof (cases "doc_settings d")
      case None
      with n Document calm show ?thesis
        by (cases "why = AtStart") (auto simp: handle_reply_def intro!: careful_publish)
    next
      case (Some v)
      with assms Document doc_settings_truthy [OF Some] show ?thesis
        by (auto simp: handle_reply_def node_careful_def applyRemoteSettings_def)
    qed
  qed (use n in \<open>auto simp: handle_reply_def intro!: careful_send\<close>)
qed

lemma careful_exec:
  assumes "node_careful n" "sn_commands n = c # cs" "\<And>why d. a = Document why d \<Longrightarrow> \<exists>why. c = GetDocument why"
  shows "node_careful (n\<lparr>sn_commands := cs, sn_replies := sn_replies n @ [a]\<rparr>)"
proof -
  have last: "last_sent (c # cs) None = Some d" if "last_sent cs None = Some d" for d
    using that by (cases c) (auto dest: last_sent_keep)
  have one: "settled [a] v = v" if "last_sent cs None \<noteq> None" for v
  proof (cases a)
    case (Document why d)
    with assms(3) obtain w where "c = GetDocument w" by blast
    with assms(1,2) have "SetDocument d \<notin> set cs" for d by (simp add: node_careful_def)
    then have "last_sent cs None = None" by (rule last_sent_no_set)
    with that show ?thesis by simp
  qed simp_all
  have "gets_last cs" using assms(1,2) by (cases c) (simp_all add: node_careful_def)
  moreover have "doc_settings (Some d) = Some (settled (sn_replies n @ [a]) (sn_settings n))"
    if d: "last_sent cs None = Some d" for d
    using assms(1,2) last [OF d] one d by (simp add: node_careful_def settled_append)
  ultimately show ?thesis using assms(1) by (simp add: node_careful_def)
qed

lemma careful_inbox: "node_careful (n\<lparr>sn_inbox := i\<rparr>) = node_careful n"
  "node_careful (n\<lparr>sn_subscribed := b\<rparr>) = node_careful n" "node_careful (n\<lparr>sn_started := b\<rparr>) = node_careful n"
  by (simp_all add: node_careful_def)

lemma careful_announce: "node_careful (cl_node (announce_to_all a s) m) = node_careful (cl_node s m)"
  by (simp add: node_careful_def)

lemma all_careful_exec:
  assumes inv: "all_careful s" and c: "sn_commands (cl_node s m) = c # cs"
  shows "all_careful (exec_command Q p m c (put_node m ((cl_node s m)\<lparr>sn_commands := cs\<rparr>) s))"
proof -
  have n: "node_careful (cl_node s m')" for m' using inv by (simp add: all_careful_def)
  note upd = careful_exec [OF n c]
  show ?thesis
  proof (cases c)
    case (Announce r)
    let ?s = "put_node m ((cl_node s m)\<lparr>sn_commands := cs\<rparr>) s"
    have "node_careful (cl_node (announce_to_all (r, m) (reply_to m Announced ?s)) m')" for m'
      using upd [of Announced] n by (simp add: careful_announce)
    moreover have "node_careful (cl_node (reply_to m Announced (announce_to_all (r, m) ?s)) m') =
        node_careful (cl_node (announce_to_all (r, m) (reply_to m Announced ?s)) m')" for m'
      by (simp add: node_careful_def)
    ultimately show ?thesis by (simp add: Announce exec_command_def all_careful_def)
  qed (use n upd in \<open>auto simp: exec_command_def all_careful_def split_beta\<close>)
qed

lemma all_careful_step:
  assumes inv: "all_careful s" and w: "well_timed e s"
  shows "all_careful (cluster_step Q p e s)"
proof (cases e)
  case (Execute m)
  with inv show ?thesis by (auto split: list.split intro!: all_careful_exec)
next
  case (TakeReply m now)
  have "node_careful (handle_reply m now a ((cl_node s m)\<lparr>sn_replies := as\<rparr>))"
    if r: "sn_replies (cl_node s m) = a # as" for a as
    using inv w r by (intro careful_reply) (auto simp: all_careful_def TakeReply well_timed_def)
  with inv TakeReply show ?thesis by (auto simp: all_careful_def split: list.split)
next
  case (ChangeSettings m now v)
  with inv w show ?thesis by (auto simp: all_careful_def well_timed_def intro!: careful_change)
qed (use inv in \<open>auto simp: all_careful_def careful_inbox fetchSettings_def settingsChanged_def Let_def
      split: list.split intro!: careful_send\<close>)

lemma told_exec:
  assumes "told v m' (cl_node s m')" "sn_commands (cl_node s m) = c # cs" "\<And>d. c \<noteq> SetDocument d"
    and "shared_settings Q p s = Some v"
  shows "told v m' (cl_node (exec_command Q p m c (put_node m ((cl_node s m)\<lparr>sn_commands := cs\<rparr>) s)) m')"
  using assms
  by (cases c) (auto simp: exec_command_def split_beta told_def node_work up_to_date_def settled_append shared_settings_def)

lemma started_exec [simp]:
  "sn_started (cl_node (exec_command Q p m c s) m') = sn_started (cl_node s m')"
  by (auto simp: exec_command_def split_beta split: cl_command.split)

lemma shared_exec:
  assumes "keeps_documents Q"
  shows "(\<And>d. c \<noteq> SetDocument d) \<Longrightarrow> shared_settings Q p (exec_command Q p m c s) = shared_settings Q p s"
    "(\<And>d. c \<noteq> SetDocument d) \<Longrightarrow> last_writer Q p (exec_command Q p m c s) = last_writer Q p s"
    "shared_settings Q p (exec_command Q p m (SetDocument d) s) = doc_settings (Some d)"
    "last_writer Q p (exec_command Q p m (SetDocument d) s) = obj_get d ''node_id''"
  using assms
  by (cases c; auto simp: exec_command_def split_beta shared_settings_def last_writer_def keeps_documents_def)+

lemma writer_told_put:
  assumes "writer_told Q p s"
    and "\<And>v. sn_started n \<Longrightarrow> (sn_started (cl_node s m) \<Longrightarrow> told v m (cl_node s m)) \<Longrightarrow> told v m n"
  shows "writer_told Q p (put_node m n s)"
  using assms by (auto simp: writer_told_def)

text \<open>Once its document is written, a careful node has those settings, still reads, or still writes.\<close>

lemma careful_told:
  assumes "node_careful n" "sn_commands n = SetDocument d # cs" "doc_settings (Some d) = Some v"
    and n': "sn_commands n' = cs" "sn_replies n' = sn_replies n @ [DocumentSet]" "sn_settings n' = sn_settings n"
  shows "told v m n'"
proof (cases "(\<exists>d. SetDocument d \<in> set cs) \<or> (\<exists>why. GetDocument why \<in> set cs)")
  case True
  with n' show ?thesis by (auto simp: told_def node_work)
next
  case False
  then have "last_sent cs (Some d) = Some d"
    by (induction cs "Some d" rule: last_sent.induct) auto
  with assms show ?thesis by (simp add: told_def up_to_date_def node_careful_def settled_append)
qed

lemma writer_told_step:
  assumes inv: "writer_told Q p s" "all_careful s" "sends_own s" and Q: "keeps_documents Q"
  shows "writer_told Q p (cluster_step Q p e s)"
proof (cases e)
  case (Execute m)
  have "writer_told Q p (exec_command Q p m c (put_node m ((cl_node s m)\<lparr>sn_commands := cs\<rparr>) s))"
    if c: "sn_commands (cl_node s m) = c # cs" for c cs
  proof (cases "\<exists>d. c = SetDocument d")
    case True
    then obtain d where d: "c = SetDocument d" by blast
    with inv(3) c obtain now x where own: "d = settings_document m now x" by (fastforce simp: sends_own_def)
    have "told v m (cl_node (exec_command Q p m c (put_node m ((cl_node s m)\<lparr>sn_commands := cs\<rparr>) s)) m)"
      if "doc_settings (Some d) = Some v" for v
      using inv(2) c d that by (intro careful_told [of "cl_node s m"]) (auto simp: all_careful_def exec_command_def)
    then show ?thesis by (simp add: writer_told_def d shared_exec [OF Q] own)
  next
    case False
    then have no: "\<And>d. c \<noteq> SetDocument d" by blast
    show ?thesis
      using inv(1) told_exec [OF _ c no] by (auto simp: writer_told_def shared_exec(1,2) [OF Q no])
  qed
  with Execute inv(1) show ?thesis by (simp split: list.split)
qed (use inv(1) in \<open>auto simp: Let_def fetchSettings_def persistSettings_def publishSettings_def told_def [where n = "send _ _"]
      split: list.split intro!: writer_told_put intro: told_reply told_announcement, (auto simp: told_def)?\<close>)

section \<open>Agreement\<close>

definition careful_invar :: "'r shared_redis \<Rightarrow> string \<Rightarrow> 'r cluster \<Rightarrow> bool" where
  "careful_invar Q p s \<longleftrightarrow> sync_invar Q p s \<and> all_careful s \<and> writer_told Q p s"

lemma sync_invar_step:
  "sync_invar Q p s \<Longrightarrow> keeps_documents Q \<Longrightarrow> sync_invar Q p (cluster_step Q p e s)"
  using all_told_step [of Q p s e] sends_own_step [of s Q p e] hears_step [of s Q p e] by (simp add: sync_invar_def)

lemma careful_invar_run:
  "keeps_documents Q \<Longrightarrow> careful_invar Q p s \<Longrightarrow> well_timed_run Q p es s \<Longrightarrow> careful_invar Q p (cluster_run Q p es s)"
proof (induction es arbitrary: s)
  case (Cons e es)
  then have "careful_invar Q p (cluster_step Q p e s)"
    using sync_invar_step [of Q p s e] all_careful_step [of s e Q p] writer_told_step [of Q p s e]
    by (simp add: careful_invar_def sync_invar_def)
  with Cons show ?case by (simp add: cluster_run_def)
qed (simp add: cluster_run_def)

lemma careful_invar_new: "(\<And>m. truthy (v m)) \<Longrightarrow> careful_invar Q p (cluster_new v r)"
  using sync_invar_new [of Q p v r]
  by (simp add: careful_invar_def all_careful_def node_careful_def writer_told_def cluster_new_def)

text \<open>
  A node that is not the last to have written the document, and that has nothing on its way any more, has
  the settings of the document once its writer has nothing on its way either.
\<close>

lemma others_agree:
  assumes "sync_invar Q p s" "shared_settings Q p s = Some v" "last_writer Q p s = JStr w" "m \<noteq> w"
    and "sn_started (cl_node s m)" "node_idle (cl_node s m)" "node_idle (cl_node s w)"
  shows "sn_settings (cl_node s m) = v"
proof -
  have "told v m (cl_node s m) \<or> announcing (cl_node s w)"
    using assms(1-5) by (auto simp: sync_invar_def all_told_def)
  with idle_work [OF assms(7)] idle_told [OF assms(6)] show ?thesis by blast
qed

section \<open>Quiet comes by itself\<close>

text \<open>What is on its way, counted with all it will cause when there are \<open>k\<close> nodes.\<close>

fun command_work :: "nat \<Rightarrow> cl_command \<Rightarrow> nat" where
  "command_work k (SetDocument d) = 6 + 3 * k"
| "command_work k IncrRevision = 4 + 3 * k"
| "command_work k (Announce r) = 2 + 3 * k"
| "command_work k (GetDocument why) = (if why = AtStart then 8 + 3 * k else 2)"

fun reply_work :: "nat \<Rightarrow> cl_reply \<Rightarrow> nat" where
  "reply_work k DocumentSet = 5 + 3 * k"
| "reply_work k (Revision r) = 3 + 3 * k"
| "reply_work k Announced = 1"
| "reply_work k (Document why d) = (if why = AtStart then 7 + 3 * k else 1)"

definition node_load :: "nat \<Rightarrow> sync_node \<Rightarrow> nat" where
  "node_load k n = sum_list (map (command_work k) (sn_commands n)) + sum_list (map (reply_work k) (sn_replies n)) + 3 * length (sn_inbox n)"

definition cluster_load :: "string list \<Rightarrow> 'r cluster \<Rightarrow> nat" where
  "cluster_load ns s = (\<Sum>m \<leftarrow> ns. node_load (length ns) (cl_node s m))"

text \<open>A step in which Redis or a node does what is waiting to be done.\<close>

definition delivers :: "cl_event \<Rightarrow> 'r cluster \<Rightarrow> bool" where
  "delivers e s =
     (case e of
        Execute m \<Rightarrow> sn_commands (cl_node s m) \<noteq> []
      | TakeReply m now \<Rightarrow> sn_replies (cl_node s m) \<noteq> []
      | TakeAnnouncement m \<Rightarrow> sn_inbox (cl_node s m) \<noteq> []
      | _ \<Rightarrow> False)"

fun event_node :: "cl_event \<Rightarrow> string" where
  "event_node (Subscribe m) = m"
| "event_node (Start m) = m"
| "event_node (ChangeSettings m now v) = m"
| "event_node (Execute m) = m"
| "event_node (TakeReply m now) = m"
| "event_node (TakeAnnouncement m) = m"

fun deliveries :: "'r shared_redis \<Rightarrow> string \<Rightarrow> cl_event list \<Rightarrow> 'r cluster \<Rightarrow> bool" where
  "deliveries Q p [] s = True"
| "deliveries Q p (e # es) s = (delivers e s \<and> deliveries Q p es (cluster_step Q p e s))"

definition only_among :: "string list \<Rightarrow> 'r cluster \<Rightarrow> bool" where
  "only_among ns s \<longleftrightarrow> distinct ns \<and> (\<forall>m. m \<notin> set ns \<longrightarrow> \<not> sn_subscribed (cl_node s m) \<and> node_idle (cl_node s m))"

lemma sum_list_change:
  fixes f g :: "'a \<Rightarrow> nat"
  assumes "distinct xs" "x \<in> set xs" "\<And>y. y \<in> set xs \<Longrightarrow> y \<noteq> x \<Longrightarrow> f y \<le> g y + d" "f x + d * length xs < g x + d"
  shows "sum_list (map f xs) < sum_list (map g xs)"
proof -
  obtain ys zs where xs: "xs = ys @ x # zs" using split_list assms(2) by fastforce
  have le: "sum_list (map f us) \<le> sum_list (map g us) + d * length us" if "set us \<subseteq> set xs - {x}" for us
    using that assms(3) by (induction us) fastforce+
  from assms(1) xs have "set ys \<subseteq> set xs - {x}" "set zs \<subseteq> set xs - {x}" by auto
  from le [OF this(1)] le [OF this(2)] assms(4) show ?thesis by (simp add: xs algebra_simps)
qed

lemma load_send [simp]: "node_load k (send c n) = node_load k n + command_work k c"
  by (simp add: node_load_def)

lemma load_put:
  assumes "distinct ns" "m \<in> set ns" "node_load (length ns) n < node_load (length ns) (cl_node s m)"
  shows "cluster_load ns (put_node m n s) < cluster_load ns s"
  unfolding cluster_load_def using assms by (intro sum_list_change [of ns m _ _ 0]) auto

lemma load_reply:
  assumes "sn_replies n = a # as"
  shows "node_load k (handle_reply m now a (n\<lparr>sn_replies := as\<rparr>)) < node_load k n"
  using assms
  by (cases a) (auto simp: handle_reply_def publishSettings_def applyRemoteSettings_def node_load_def send_def split: option.splits)

lemma load_announcement:
  assumes "sn_inbox n = a # as"
  shows "node_load k (settingsChanged m a (n\<lparr>sn_inbox := as\<rparr>)) < node_load k n"
  using assms by (auto simp: settingsChanged_def fetchSettings_def node_load_def send_def)

lemma load_exec:
  assumes ns: "distinct ns" "m \<in> set ns" and c: "sn_commands (cl_node s m) = c # cs"
  shows "cluster_load ns (exec_command Q p m c (put_node m ((cl_node s m)\<lparr>sn_commands := cs\<rparr>) s)) < cluster_load ns s"
proof (cases c)
  case (Announce r)
  show ?thesis unfolding cluster_load_def
    using ns c by (intro sum_list_change [of ns m _ _ 3]) (auto simp: Announce exec_command_def node_load_def)
next
  case (GetDocument why)
  show ?thesis unfolding cluster_load_def
    using ns c by (intro sum_list_change [of ns m _ _ 0]) (auto simp: GetDocument exec_command_def node_load_def)
qed (use ns c in \<open>auto simp: cluster_load_def exec_command_def node_load_def split_beta intro!: sum_list_change [of ns m _ _ 0]\<close>)

lemma only_among_step:
  assumes "only_among ns s" "event_node e \<in> set ns" shows "only_among ns (cluster_step Q p e s)"
  using assms
  by (cases e) (auto simp: only_among_def exec_command_def split_beta Let_def node_idle_def fetchSettings_def persistSettings_def
      publishSettings_def announce_to_all_def split: list.splits cl_command.splits)

lemma delivery_shrinks:
  assumes "only_among ns s" "delivers e s"
  shows "event_node e \<in> set ns \<and> cluster_load ns (cluster_step Q p e s) < cluster_load ns s"
proof -
  have "\<not> node_idle (cl_node s (event_node e))"
    using assms(2) by (cases e) (auto simp: delivers_def node_idle_def)
  then have e: "event_node e \<in> set ns" using assms(1) by (auto simp: only_among_def)
  moreover have "distinct ns" using assms(1) by (simp add: only_among_def)
  ultimately show ?thesis
    using assms(2) load_exec [of ns]
    by (cases e) (auto simp: delivers_def split: list.splits intro!: load_put load_reply load_announcement)
qed

lemma deliveries_bounded:
  "only_among ns s \<Longrightarrow> deliveries Q p es s \<Longrightarrow> length es \<le> cluster_load ns s"
proof (induction es arbitrary: s)
  case (Cons e es)
  then have e: "event_node e \<in> set ns" "cluster_load ns (cluster_step Q p e s) < cluster_load ns s"
    using delivery_shrinks [of ns s e Q p] by auto
  from Cons.IH [of "cluster_step Q p e s"] Cons.prems only_among_step [OF _ e(1)] e(2) show ?case by fastforce
qed simp

lemma can_deliver:
  assumes "\<not> node_idle (cl_node s m)" shows "\<exists>e. delivers e s"
proof -
  from assms have "sn_commands (cl_node s m) \<noteq> [] \<or> sn_replies (cl_node s m) \<noteq> [] \<or> sn_inbox (cl_node s m) \<noteq> []"
    by (simp add: node_idle_def)
  then show ?thesis
  proof (elim disjE)
    assume "sn_commands (cl_node s m) \<noteq> []"
    then show ?thesis by (intro exI [of _ "Execute m"]) (simp add: delivers_def)
  next
    assume "sn_replies (cl_node s m) \<noteq> []"
    then show ?thesis by (intro exI [of _ "TakeReply m []"]) (simp add: delivers_def)
  next
    assume "sn_inbox (cl_node s m) \<noteq> []"
    then show ?thesis by (intro exI [of _ "TakeAnnouncement m"]) (simp add: delivers_def)
  qed
qed

text \<open>Deliveries that go on as long as there is something to deliver end in a quiet cluster.\<close>

lemma quiet_reached:
  "only_among ns s \<Longrightarrow> \<exists>es. deliveries Q p es s \<and> (\<forall>m. node_idle (cl_node (cluster_run Q p es s) m))"
proof (induction "cluster_load ns s" arbitrary: s rule: less_induct)
  case less
  show ?case
  proof (cases "\<forall>m. node_idle (cl_node s m)")
    case True
    then show ?thesis by (intro exI [of _ "[]"]) (simp add: cluster_run_def)
  next
    case False
    then obtain e where e: "delivers e s" using can_deliver by blast
    from delivery_shrinks [OF less.prems e, of Q p] only_among_step [OF less.prems, of e Q p] less.hyps
    obtain es where "deliveries Q p es (cluster_step Q p e s)"
      "\<forall>m. node_idle (cl_node (cluster_run Q p es (cluster_step Q p e s)) m)" by blast
    with e show ?thesis by (intro exI [of _ "e # es"]) (simp add: cluster_run_def)
  qed
qed

lemma only_among_run:
  "only_among ns s \<Longrightarrow> event_node ` set es \<subseteq> set ns \<Longrightarrow> only_among ns (cluster_run Q p es s)"
  by (induction es arbitrary: s) (simp_all add: cluster_run_def only_among_step)

lemma only_among_new: "distinct ns \<Longrightarrow> only_among ns (cluster_new v r)"
  by (simp add: only_among_def cluster_new_def node_idle_def)

lemma cluster_run_append: "cluster_run Q p (es @ fs) s = cluster_run Q p fs (cluster_run Q p es s)"
  by (simp add: cluster_run_def)

lemma started_step: "sn_started (cl_node s m) \<Longrightarrow> sn_started (cl_node (cluster_step Q p e s) m)"
  by (cases e) (auto simp: fetchSettings_def persistSettings_def publishSettings_def Let_def split: list.splits)

lemma started_run: "sn_started (cl_node s m) \<Longrightarrow> sn_started (cl_node (cluster_run Q p es s) m)"
  by (induction es arbitrary: s) (simp_all add: cluster_run_def started_step)

section \<open>Properties\<close>

text \<open>A server for the witnesses: documents and counters in two maps.\<close>

definition toy_redis :: "((string, jsval) jsmap \<times> (string \<Rightarrow> nat)) shared_redis" where
  "toy_redis = \<lparr>sr_set = (\<lambda>k v r. (jset k v (fst r), snd r)), sr_get = (\<lambda>k r. jget (fst r) k),
     sr_incr = (\<lambda>k r. (Suc (snd r k), fst r, (snd r)(k := Suc (snd r k))))\<rparr>"

lemma toy_keeps: "keeps_documents toy_redis"
  by (simp add: keeps_documents_def toy_redis_def)

definition sample_settings :: "string \<Rightarrow> jsval" where
  "sample_settings x = JObj [(''mode'', JStr x)]"

definition two_nodes :: "((string, jsval) jsmap \<times> (string \<Rightarrow> nat)) cluster" where
  "two_nodes = cluster_new (\<lambda>m. sample_settings ''old'') ([], \<lambda>k. 0)"

text \<open>Node a publishes its settings at its start, node b takes them over.\<close>

definition both_started :: "cl_event list" where
  "both_started = [Subscribe ''a'', Start ''a'', Execute ''a'', TakeReply ''a'' ''t1'', Execute ''a'', TakeReply ''a'' ''t2'',
     Execute ''a'', TakeReply ''a'' ''t3'', Execute ''a'', TakeReply ''a'' ''t4'', TakeAnnouncement ''a'',
     Subscribe ''b'', Start ''b'', Execute ''b'', TakeReply ''b'' ''t5'']"

text \<open>A change made on node \<open>m\<close> goes its way, and the other node \<open>o\<close> hears of it.\<close>

definition change_goes_out :: "string \<Rightarrow> cl_event list" where
  "change_goes_out m = [Execute m, TakeReply m ''u1'', Execute m, TakeReply m ''u2'', Execute m, TakeReply m ''u3'']"

definition a_changes :: "cl_event list" where
  "a_changes = both_started @ [ChangeSettings ''a'' ''t6'' (sample_settings ''new'')] @ change_goes_out ''a''
     @ [TakeAnnouncement ''a'', TakeAnnouncement ''b'', Execute ''b'', TakeReply ''b'' ''t7'']"

lemmas two_nodes_simps = two_nodes_def cluster_new_def both_started_def change_goes_out_def a_changes_def cluster_run_def
  toy_redis_def sample_settings_def persistSettings_def publishSettings_def fetchSettings_def send_def exec_command_def
  reply_to_def put_node_def announce_to_all_def handle_reply_def settingsChanged_def applyRemoteSettings_def
  settings_document_def doc_settings_def settingsKey_def revisionKey_def js_or_def Let_def split_beta

text \<open>
  In a cluster, whatever the order of the events, a node with nothing left on its way holds the settings
  of the shared document when another node was the last to write it and has announced it.
\<close>

theorem settings_converge:
  assumes "keeps_documents Q" "s = cluster_run Q p es (cluster_new v r)"
    and "shared_settings Q p s = Some d" "last_writer Q p s = JStr w" "m \<noteq> w"
    and "sn_started (cl_node s m)" "node_idle (cl_node s m)" "node_idle (cl_node s w)"
  shows "sn_settings (cl_node s m) = d"
  using others_agree [OF _ assms(3-8)] sync_invar_run [OF assms(1) sync_invar_new] assms(2) by simp

theorem settings_converge_witness:
  "sn_settings (cl_node (cluster_run toy_redis ''p'' a_changes two_nodes) ''b'') = sample_settings ''new''"
proof -
  define s where "s = cluster_run toy_redis ''p'' a_changes two_nodes"
  have *: "s = cluster_run toy_redis ''p'' a_changes (cluster_new (\<lambda>m. sample_settings ''old'') ([], \<lambda>k. 0))"
    by (simp add: s_def two_nodes_def)
  have "shared_settings toy_redis ''p'' s = Some (sample_settings ''new'')" "last_writer toy_redis ''p'' s = JStr ''a''"
    "sn_started (cl_node s ''b'')" "node_idle (cl_node s ''b'')" "node_idle (cl_node s ''a'')"
    by (simp_all add: s_def two_nodes_simps shared_settings_def last_writer_def node_idle_def)
  from settings_converge [OF toy_keeps * this(1,2) _ this(3-5)] show ?thesis by (simp add: s_def)
qed

text \<open>
  C23. When every node changes its settings, and publishes those it starts with, only while nothing it has asked
  of Redis is on its way, then the writer of the document has its settings as well, so all nodes agree.
\<close>

theorem careful_nodes_agree:
  assumes "keeps_documents Q" "\<And>m. truthy (v m)" "well_timed_run Q p es (cluster_new v r)"
    and "s = cluster_run Q p es (cluster_new v r)"
    and "shared_settings Q p s = Some d" "last_writer Q p s = JStr w"
    and "sn_started (cl_node s m)" "node_idle (cl_node s m)" "node_idle (cl_node s w)"
  shows "sn_settings (cl_node s m) = d"
proof (cases "m = w")
  case True
  from careful_invar_run [OF assms(1) careful_invar_new assms(3)] assms(2,4) have "careful_invar Q p s" by simp
  with assms(5,6,7) True have "told d m (cl_node s m)" by (simp add: careful_invar_def writer_told_def)
  with assms(8) show ?thesis by (rule idle_told)
next
  case False
  with others_agree [OF _ assms(5,6) False assms(7-9)] sync_invar_run [OF assms(1) sync_invar_new] assms(4)
  show ?thesis by simp
qed

theorem careful_nodes_agree_witness:
  "sn_settings (cl_node (cluster_run toy_redis ''p'' a_changes two_nodes) ''a'') = sample_settings ''new''"
proof -
  define s where "s = cluster_run toy_redis ''p'' a_changes two_nodes"
  have *: "s = cluster_run toy_redis ''p'' a_changes (cluster_new (\<lambda>m. sample_settings ''old'') ([], \<lambda>k. 0))"
    by (simp add: s_def two_nodes_def)
  have w: "well_timed_run toy_redis ''p'' a_changes (cluster_new (\<lambda>m. sample_settings ''old'') ([], \<lambda>k. 0))"
    by (simp add: two_nodes_simps well_timed_def calm_def reads_def)
  have "shared_settings toy_redis ''p'' s = Some (sample_settings ''new'')" "last_writer toy_redis ''p'' s = JStr ''a''"
    "sn_started (cl_node s ''a'')" "node_idle (cl_node s ''a'')"
    by (simp_all add: s_def two_nodes_simps shared_settings_def last_writer_def node_idle_def)
  from careful_nodes_agree [OF toy_keeps _ w * this(1-4) this(4)] show ?thesis
    by (simp add: s_def sample_settings_def)
qed

text \<open>
  C22. From any state the nodes \<open>ns\<close> can reach, what is on its way between them and Redis comes to an end after
  a bounded number of deliveries in any order, and then all nodes but the last writer hold the same settings.
\<close>

theorem cluster_settles:
  assumes "keeps_documents Q" "distinct ns" "event_node ` set es \<subseteq> set ns" "s = cluster_run Q p es (cluster_new v r)"
  shows "(\<exists>fs. deliveries Q p fs s \<and> (\<forall>m. node_idle (cl_node (cluster_run Q p fs s) m)))
    \<and> (\<forall>fs. deliveries Q p fs s \<longrightarrow> length fs \<le> cluster_load ns s
        \<and> ((\<forall>m. node_idle (cl_node (cluster_run Q p fs s) m)) \<longrightarrow>
            (\<forall>d w m. shared_settings Q p (cluster_run Q p fs s) = Some d \<longrightarrow> last_writer Q p (cluster_run Q p fs s) = JStr w
               \<longrightarrow> m \<noteq> w \<longrightarrow> sn_started (cl_node s m) \<longrightarrow> sn_settings (cl_node (cluster_run Q p fs s) m) = d)))"
proof -
  have among: "only_among ns s" using only_among_run [OF only_among_new] assms(2-4) by simp
  have run: "cluster_run Q p fs s = cluster_run Q p (es @ fs) (cluster_new v r)" for fs
    by (simp add: assms(4) cluster_run_append)
  have inv: "sync_invar Q p (cluster_run Q p fs s)" for fs
    using sync_invar_run [OF assms(1) sync_invar_new] by (simp add: run)
  have st: "sn_started (cl_node s m) \<Longrightarrow> sn_started (cl_node (cluster_run Q p fs s) m)" for fs m
    by (rule started_run)
  from among inv st show ?thesis by (meson others_agree quiet_reached deliveries_bounded)
qed

theorem cluster_settles_witness:
  "\<exists>fs. deliveries toy_redis ''p'' fs (cluster_run toy_redis ''p'' both_started two_nodes)
     \<and> length fs \<le> cluster_load [''a'', ''b''] (cluster_run toy_redis ''p'' both_started two_nodes)"
proof -
  have e: "event_node ` set both_started \<subseteq> set [''a'', ''b'']" by (simp add: both_started_def)
  from cluster_settles [OF toy_keeps _ e refl, where v = "\<lambda>m. sample_settings ''old''" and r = "([], \<lambda>k. 0)" and p = "''p''"]
  show ?thesis unfolding two_nodes_def by auto
qed

text \<open>
  A change that a node makes while a fetch it has started is on its way is lost on that node: it writes its
  settings and announces them, then takes the older document, and ignores its own announcement.
\<close>

definition overtaken :: "cl_event list" where
  "overtaken = both_started @ [ChangeSettings ''b'' ''t6'' (sample_settings ''one'')] @ change_goes_out ''b''
     @ [TakeAnnouncement ''b'', TakeAnnouncement ''a'', Execute ''a'', ChangeSettings ''a'' ''t7'' (sample_settings ''two''), TakeReply ''a'' ''t8'']
     @ change_goes_out ''a'' @ [TakeAnnouncement ''a'', TakeAnnouncement ''b'', Execute ''b'', TakeReply ''b'' ''t9'']
     @ [TakeReply ''a'' ''t10'', TakeReply ''b'' ''t10'']"

lemma own_change_lost:
  defines "s \<equiv> cluster_run toy_redis ''p'' overtaken two_nodes"
  shows "node_idle (cl_node s ''a'')" "node_idle (cl_node s ''b'')"
    "shared_settings toy_redis ''p'' s = Some (sample_settings ''two'')" "last_writer toy_redis ''p'' s = JStr ''a''"
    "sn_settings (cl_node s ''b'') = sample_settings ''two''" "sn_settings (cl_node s ''a'') = sample_settings ''one''"
  by (simp_all add: s_def overtaken_def two_nodes_simps shared_settings_def last_writer_def node_idle_def)

end
