(* ===== verification/Auth_Documents.thy ===== *)
theory Auth_Documents
  imports Access Nonces Rate_Limits Notify_Boards Jwks
begin

text \<open>
  The authorisation document of the broker (the \<open>auth\<close> block of its settings, \<open>lib/server.js\<close>): realms,
  client tokens, management tokens, external validators. What a manager may see of it
  (\<open>publicAuthSettings\<close>), and the limits that a management token puts on the realms under its prefix.
  Absent properties are undefined. \<open>H\<close> is SHA-256 in hex.
\<close>

section \<open>The document\<close>

record realm_doc = realm_settings +
  rd_ephemeral :: jsval
  rd_temporary :: jsval
  rd_expires_at :: jsval
  rd_auth_url :: jsval
  rd_authUrl :: jsval
  rd_auth_secret :: jsval
  rd_authSecret :: jsval

record client_token =
  tk_token :: jsval
  tk_realm :: jsval
  tk_role :: jsval
  tk_client_id :: jsval
  tk_client_name :: jsval
  tk_approved_at :: jsval

record mgmt_token =
  mt_token :: jsval
  mt_token_hash :: jsval
  mt_realm_prefix :: jsval
  mt_realmPrefix :: jsval
  mt_ephemeral_only :: jsval
  mt_ephemeralOnly :: jsval
  mt_max_ttl :: jsval
  mt_maxTtl :: jsval

record ext_entry =
  ee_realm_prefix :: jsval
  ee_realmPrefix :: jsval
  ee_auth_url :: jsval
  ee_authUrl :: jsval
  ee_auth_secret :: jsval
  ee_authSecret :: jsval
  ee_jwks_url :: jsval
  ee_jwksUrl :: jsval
  ee_iss :: jsval
  ee_aud :: jsval

text \<open>The lists under their two spellings are \<open>None\<close> when absent.\<close>

record auth_doc =
  ad_enabled :: jsval
  ad_realms :: "(string, realm_doc) jsmap"
  ad_tokens :: "client_token list"
  ad_management_tokens :: "mgmt_token list option"
  ad_managementTokens :: "mgmt_token list option"
  ad_external_validators :: "ext_entry list option"
  ad_externalValidators :: "ext_entry list option"
  ad_auth_url :: jsval
  ad_auth_secret :: jsval
  ad_jwt_secret :: jsval
  ad_ephemeral_realm_ttl :: jsval
  ad_ephemeralRealmTtl :: jsval
  ad_temporary_realm_ttl :: jsval
  ad_temporaryRealmTtl :: jsval

definition no_realm :: realm_doc where
  "no_realm = realm_settings.extend
     (realm_config.extend realm_config_empty (realm_settings.fields JUndef JUndef JUndef JUndef JUndef JUndef JUndef JUndef))
     (realm_doc.fields JUndef JUndef JUndef JUndef JUndef JUndef JUndef)"

definition empty_doc :: auth_doc where
  "empty_doc = \<lparr>ad_enabled = JUndef, ad_realms = [], ad_tokens = [], ad_management_tokens = None, ad_managementTokens = None,
     ad_external_validators = None, ad_externalValidators = None, ad_auth_url = JUndef, ad_auth_secret = JUndef,
     ad_jwt_secret = JUndef, ad_ephemeral_realm_ttl = JUndef, ad_ephemeralRealmTtl = JUndef,
     ad_temporary_realm_ttl = JUndef, ad_temporaryRealmTtl = JUndef\<rparr>"

text \<open>
  \<open>auth.realms[r]\<close>: the members that every object inherits answer the lookup with an object of their
  own, which holds no setting and is never saved.
\<close>

definition realm_at :: "(string, realm_doc) jsmap \<Rightarrow> string \<Rightarrow> realm_doc option" where
  "realm_at rs r = (case jget rs r of Some c \<Rightarrow> Some c | None \<Rightarrow> if r \<in> set object_members then Some no_realm else None)"

definition put_realm :: "string \<Rightarrow> realm_doc \<Rightarrow> (string, realm_doc) jsmap \<Rightarrow> (string, realm_doc) jsmap" where
  "put_realm r c rs = (if jget rs r = None \<and> r \<in> set object_members then rs else jset r c rs)"

text \<open>\<open>===\<close> on values that come from different objects.\<close>

definition same_value :: "jsval \<Rightarrow> jsval \<Rightarrow> bool" where
  "same_value a b \<longleftrightarrow> a = b \<and> \<not> is_array a \<and> \<not> is_plain_obj a \<and> a \<noteq> JNum NaN"

definition or_null :: "jsval \<Rightarrow> jsval" where
  "or_null v = js_or v JNull"

definition first_list :: "'a list option \<Rightarrow> 'a list option \<Rightarrow> 'a list" where
  "first_list a b = (case a of Some l \<Rightarrow> l | None \<Rightarrow> (case b of Some l \<Rightarrow> l | None \<Rightarrow> []))"

section \<open>Secrets of a realm and of the broker\<close>

text \<open>A key of a JSON document is a text.\<close>

fun secret_texts :: "jsval list \<Rightarrow> string list" where
  "secret_texts [] = []"
| "secret_texts (v # vs) = (case v of JStr s \<Rightarrow> s # secret_texts vs | _ \<Rightarrow> secret_texts vs)"

definition admin_entry :: "client_token \<Rightarrow> bool" where
  "admin_entry t \<longleftrightarrow> truthy (tk_token t) \<and> tk_realm t = JStr REALM_ALL \<and> tk_role t = JStr ''admin''"

definition getAdminTokens :: "auth_doc \<Rightarrow> string list" where
  "getAdminTokens d = secret_texts (map tk_token (filter admin_entry (ad_tokens d)))"

definition realm_manager_secrets :: "(string \<Rightarrow> string) \<Rightarrow> int \<Rightarrow> auth_doc \<Rightarrow> string \<Rightarrow> string list" where
  "realm_manager_secrets H now d realm =
     secret_texts (map fst (fst (getRealmManagerSecrets H now (map_option realm_config.truncate (realm_at (ad_realms d) realm)))))"

section \<open>Ephemeral realms\<close>

definition EPHEMERAL_REALM_DEFAULT_TTL_MS :: rat where "EPHEMERAL_REALM_DEFAULT_TTL_MS = 24 * 60 * 60 * 1000"

definition getEphemeralRealmDefaultTtlMs :: "auth_doc \<Rightarrow> rat" where
  "getEphemeralRealmDefaultTtlMs d =
     (case parseRealmTtlMs (js_or (js_or (js_or (ad_ephemeral_realm_ttl d) (ad_ephemeralRealmTtl d))
             (ad_temporary_realm_ttl d)) (ad_temporaryRealmTtl d)) of
        Some ms \<Rightarrow> ms | None \<Rightarrow> EPHEMERAL_REALM_DEFAULT_TTL_MS)"

definition wantsEphemeralRealm :: "jsval \<Rightarrow> bool" where
  "wantsEphemeralRealm body \<longleftrightarrow>
     truthy (obj_get body ''ephemeral'') \<or> truthy (obj_get body ''temporary'') \<or> truthy (obj_get body ''disposable'')"

definition isEphemeralRealmConfig :: "realm_doc \<Rightarrow> bool" where
  "isEphemeralRealmConfig c \<longleftrightarrow> truthy (rd_ephemeral c) \<or> truthy (rd_temporary c)"

section \<open>Management tokens\<close>

definition hashToken :: "(string \<Rightarrow> string) \<Rightarrow> jsval \<Rightarrow> jsval" where
  "hashToken H v = JStr (H (to_string v))"

definition normalize_entry :: "(string \<Rightarrow> string) \<Rightarrow> mgmt_token \<Rightarrow> mgmt_token" where
  "normalize_entry H t = (if is_str (mt_token t) \<and> truthy (mt_token t)
     then t\<lparr>mt_token_hash := hashToken H (mt_token t), mt_token := JUndef\<rparr> else t)"

definition normalizeManagementTokens :: "(string \<Rightarrow> string) \<Rightarrow> auth_doc \<Rightarrow> auth_doc" where
  "normalizeManagementTokens H d =
     (case ad_management_tokens d of
        Some l \<Rightarrow> d\<lparr>ad_management_tokens := Some (map (normalize_entry H) l)\<rparr>
      | None \<Rightarrow> d\<lparr>ad_managementTokens := map_option (map (normalize_entry H)) (ad_managementTokens d)\<rparr>)"

definition managementTokens :: "(string \<Rightarrow> string) \<Rightarrow> auth_doc \<Rightarrow> mgmt_token list" where
  "managementTokens H d0 =
     (let d = normalizeManagementTokens H d0 in
      filter (\<lambda>t. truthy (mt_token_hash t) \<and> truthy (mt_realm_prefix t)) (first_list (ad_management_tokens d) (ad_managementTokens d)))"

record mgmt_grant =
  mg_realm_prefix :: jsval
  mg_ephemeral_only :: bool
  mg_max_ttl :: jsval

definition ephemeral_only :: "mgmt_token \<Rightarrow> bool" where
  "ephemeral_only t \<longleftrightarrow> truthy (mt_ephemeral_only t) \<or> truthy (mt_ephemeralOnly t)"

definition max_ttl :: "mgmt_token \<Rightarrow> jsval" where
  "max_ttl t = js_or (mt_max_ttl t) (mt_maxTtl t)"

definition managementTokenForRequest :: "(string \<Rightarrow> string) \<Rightarrow> auth_doc \<Rightarrow> string option \<Rightarrow> mgmt_grant option" where
  "managementTokenForRequest H d header =
     (case bearer_token (str_or header []) of
        None \<Rightarrow> None
      | Some token \<Rightarrow>
          map_option (\<lambda>t. \<lparr>mg_realm_prefix = mt_realm_prefix t, mg_ephemeral_only = ephemeral_only t, mg_max_ttl = or_null (max_ttl t)\<rparr>)
            (find (\<lambda>t. mt_token_hash t = hashToken H (JStr token)) (managementTokens H d)))"

definition realmAllowedForPrefix :: "jsval \<Rightarrow> jsval \<Rightarrow> bool" where
  "realmAllowedForPrefix realm prefix =
     (case (realm, prefix) of
        (JStr r, JStr p) \<Rightarrow> p \<noteq> [] \<and> r \<noteq> REALM_ALL \<and> r \<noteq> DEFAULT_REALM \<and> starts_with p r \<and> length r > length p
      | _ \<Rightarrow> False)"

record realm_cap =
  cap_ephemeral_only :: bool
  cap_max_ttl_ms :: "rat option"

definition add_cap :: "jsval \<Rightarrow> mgmt_token \<Rightarrow> realm_cap \<Rightarrow> realm_cap" where
  "add_cap realm t cap =
     (if \<not> realmAllowedForPrefix realm (mt_realm_prefix t) then cap
      else (let c = (if ephemeral_only t then cap\<lparr>cap_ephemeral_only := True\<rparr> else cap) in
            case parseRealmTtlMs (max_ttl t) of
              None \<Rightarrow> c
            | Some ms \<Rightarrow> c\<lparr>cap_max_ttl_ms := Some (case cap_max_ttl_ms c of Some m \<Rightarrow> min m ms | None \<Rightarrow> ms)\<rparr>))"

definition managementCapForRealm :: "(string \<Rightarrow> string) \<Rightarrow> auth_doc \<Rightarrow> jsval \<Rightarrow> realm_cap" where
  "managementCapForRealm H d realm =
     fold (add_cap realm) (managementTokens H d) \<lparr>cap_ephemeral_only = False, cap_max_ttl_ms = None\<rparr>"

text \<open>\<open>body.k = v\<close> and \<open>delete body.k\<close>.\<close>

definition body_set :: "string \<Rightarrow> jsval \<Rightarrow> jsval \<Rightarrow> jsval" where
  "body_set k v body = (case body of JObj kvs \<Rightarrow> JObj (jset k v kvs) | _ \<Rightarrow> body)"

definition body_del :: "string \<Rightarrow> jsval \<Rightarrow> jsval" where
  "body_del k body = (case body of JObj kvs \<Rightarrow> JObj (jdel k kvs) | _ \<Rightarrow> body)"

text \<open>\<open>Math.ceil(ms / 1000)\<close>\<close>

definition ceil_seconds :: "rat \<Rightarrow> jsval" where
  "ceil_seconds ms = JNum (Fin (of_int \<lceil>ms / 1000\<rceil>))"

definition requested_ttl_ms :: "jsval \<Rightarrow> rat option" where
  "requested_ttl_ms body = (if obj_get body ''ttl'' \<noteq> JUndef then parseRealmTtlMs (obj_get body ''ttl'') else None)"

definition enforceRealmScopedLimits :: "(string \<Rightarrow> string) \<Rightarrow> auth_doc \<Rightarrow> jsval \<Rightarrow> jsval" where
  "enforceRealmScopedLimits H d body =
     (if obj_get body ''command'' \<noteq> JStr ''set_realm_lifetime'' then body
      else (let cap = managementCapForRealm H d (obj_get body ''realm'');
                b1 = (if cap_ephemeral_only cap then body_set ''ephemeral'' (JBool True) (body_del ''temporary'' body) else body)
            in case cap_max_ttl_ms cap of
                 None \<Rightarrow> b1
               | Some m \<Rightarrow>
                   (let req = (case requested_ttl_ms b1 of Some ms \<Rightarrow> ms | None \<Rightarrow> getEphemeralRealmDefaultTtlMs d)
                    in body_set ''ttl'' (ceil_seconds (min req m)) b1)))"

section \<open>What a manager sees\<close>

record public_realm =
  pr_config :: realm_doc
  pr_manager_key_configured :: bool
  pr_previous_manager_key_configured :: bool
  pr_key_configured :: bool
  pr_previous_key_configured :: bool
  pr_auth_secret_configured :: bool

definition hide_manager_key :: "realm_doc \<Rightarrow> bool \<times> realm_doc" where
  "hide_manager_key c = (if truthy (rc_manager_key c) \<or> truthy (rc_managerKey c)
     then (True, c\<lparr>rc_manager_key := JUndef, rc_managerKey := JUndef\<rparr>) else (False, c))"

definition hide_previous_manager_key :: "realm_doc \<Rightarrow> bool \<times> realm_doc" where
  "hide_previous_manager_key c = (if truthy (rc_previous_manager_key c) then (True, c\<lparr>rc_previous_manager_key := JUndef\<rparr>) else (False, c))"

definition hide_key :: "realm_doc \<Rightarrow> bool \<times> realm_doc" where
  "hide_key c = (if truthy (rc_key c) \<or> truthy (rc_preshared_key c) \<or> truthy (rc_presharedKey c) \<or> truthy (rc_key_hash c)
     then (True, c\<lparr>rc_key := JUndef, rc_preshared_key := JUndef, rc_presharedKey := JUndef, rc_key_hash := JUndef\<rparr>) else (False, c))"

definition hide_previous_key :: "realm_doc \<Rightarrow> bool \<times> realm_doc" where
  "hide_previous_key c = (if truthy (rc_previous_key_hash c) then (True, c\<lparr>rc_previous_key_hash := JUndef\<rparr>) else (False, c))"

definition hide_auth_secret :: "realm_doc \<Rightarrow> bool \<times> realm_doc" where
  "hide_auth_secret c = (if truthy (rd_auth_secret c) \<or> truthy (rd_authSecret c)
     then (True, c\<lparr>rd_auth_secret := JUndef, rd_authSecret := JUndef\<rparr>) else (False, c))"

definition public_realm_of :: "realm_doc \<Rightarrow> public_realm" where
  "public_realm_of c0 =
     (let (a, c1) = hide_manager_key c0; (b, c2) = hide_previous_manager_key c1; (k, c3) = hide_key c2;
          (p, c4) = hide_previous_key c3; (s, c5) = hide_auth_secret c4
      in \<lparr>pr_config = c5, pr_manager_key_configured = a, pr_previous_manager_key_configured = b, pr_key_configured = k,
          pr_previous_key_configured = p, pr_auth_secret_configured = s\<rparr>)"

definition public_token :: "(string \<Rightarrow> string) \<Rightarrow> client_token \<Rightarrow> jsval" where
  "public_token H t = JObj [(''realm'', tk_realm t), (''role'', tk_role t), (''client_id'', or_null (tk_client_id t)),
     (''client_name'', or_null (tk_client_name t)), (''token_hash'', if truthy (tk_token t) then hashToken H (tk_token t) else JNull)]"

definition public_validator :: "ext_entry \<Rightarrow> jsval" where
  "public_validator e =
     (let jwks = js_or (ee_jwks_url e) (ee_jwksUrl e) in
      JObj ([(''realm_prefix'', or_null (js_or (ee_realm_prefix e) (ee_realmPrefix e))),
             (''auth_url'', or_null (js_or (ee_auth_url e) (ee_authUrl e))),
             (''auth_secret_configured'', JBool (truthy (ee_auth_secret e) \<or> truthy (ee_authSecret e)))]
            @ (if truthy jwks then [(''jwks_url'', jwks), (''iss'', or_null (ee_iss e)), (''aud'', or_null (ee_aud e))] else [])))"

definition public_mgmt_token :: "(string \<Rightarrow> string) \<Rightarrow> mgmt_token \<Rightarrow> jsval" where
  "public_mgmt_token H t =
     JObj ([(''realm_prefix'', or_null (js_or (mt_realm_prefix t) (mt_realmPrefix t))),
            (''token_hash'', js_or (mt_token_hash t) (if truthy (mt_token t) then hashToken H (mt_token t) else JNull))]
           @ (if ephemeral_only t then [(''ephemeral_only'', JBool True)] else [])
           @ (if truthy (max_ttl t) then [(''max_ttl'', max_ttl t)] else []))"

record public_auth =
  pa_enabled :: jsval
  pa_realms :: "(string, public_realm) jsmap"
  pa_tokens :: "jsval list"
  pa_management_tokens :: "jsval list option"
  pa_external_validators :: "jsval list option"
  pa_auth_url :: jsval
  pa_auth_secret :: jsval
  pa_jwt_secret :: jsval
  pa_ephemeral_ttls :: "jsval list"

definition listed :: "'a list option \<Rightarrow> 'a list option \<Rightarrow> 'a list option" where
  "listed a b = (if a = None then b else a)"

definition configured :: "jsval \<Rightarrow> jsval" where
  "configured v = (if truthy v then JStr ''<configured>'' else v)"

definition publicAuthSettings :: "(string \<Rightarrow> string) \<Rightarrow> auth_doc \<Rightarrow> public_auth" where
  "publicAuthSettings H d =
     \<lparr>pa_enabled = ad_enabled d,
      pa_realms = map (\<lambda>(r, c). (r, public_realm_of c)) (ad_realms d),
      pa_tokens = map (public_token H) (ad_tokens d),
      pa_management_tokens = map_option (map (public_mgmt_token H)) (listed (ad_management_tokens d) (ad_managementTokens d)),
      pa_external_validators = map_option (map public_validator) (listed (ad_external_validators d) (ad_externalValidators d)),
      pa_auth_url = ad_auth_url d,
      pa_auth_secret = configured (ad_auth_secret d),
      pa_jwt_secret = configured (ad_jwt_secret d),
      pa_ephemeral_ttls = [ad_ephemeral_realm_ttl d, ad_ephemeralRealmTtl d, ad_temporary_realm_ttl d, ad_temporaryRealmTtl d]\<rparr>"

section \<open>Lemmas\<close>

lemma realm_at_own: "jget rs r = Some c \<Longrightarrow> realm_at rs r = Some c"
  by (simp add: realm_at_def)

lemma put_realm_own: "jget rs r = Some c \<Longrightarrow> put_realm r c' rs = jset r c' rs"
  by (simp add: put_realm_def)

lemma no_realm_keys [simp]: "realm_config.truncate no_realm = realm_config_empty"
  by (simp add: no_realm_def realm_config.defs realm_settings.defs realm_doc.defs realm_config_empty_def)

lemma empty_config_secrets: "fst (getRealmManagerSecrets H now (Some realm_config_empty)) = []"
  by (simp add: getRealmManagerSecrets_def normalizeRealmConfig_def normalize_key_def drop_previous_key_def
      drop_previous_manager_def raw_key_def realm_config_empty_def js_or_def stillValid_def)

text \<open>Only a realm that is configured has manager secrets.\<close>

lemma secrets_configured: "realm_manager_secrets H now d r \<noteq> [] \<Longrightarrow> \<exists>c. jget (ad_realms d) r = Some c"
  by (cases "jget (ad_realms d) r")
    (auto simp: realm_manager_secrets_def realm_at_def empty_config_secrets getRealmManagerSecrets_def [of _ _ None] split: if_splits)

lemma read_exponent_pos: "read_exponent s = Some e \<Longrightarrow> 0 < e"
  by (auto simp: read_exponent_def split: list.splits if_splits)

lemma unsigned_nonneg: "0 \<le> fin_val (case read_exponent s of None \<Rightarrow> NaN | Some e \<Rightarrow> Fin (of_nat n / 10 ^ m * e))"
  by (cases "read_exponent s") (auto dest: read_exponent_pos)

lemma ttl_amount_nonneg: "0 \<le> ttl_amount t"
  by (simp add: ttl_amount_def read_unsigned_def Let_def unsigned_nonneg)

lemma ttl_positive: "parseRealmTtlMs v = Some ms \<Longrightarrow> 0 < ms"
proof -
  assume v: "parseRealmTtlMs v = Some ms"
  note amount = ttl_amount_nonneg
  have factor: "ttl_unit u = Some f \<Longrightarrow> 0 < f" for u f
    by (auto simp: ttl_unit_def split: if_splits)
  have parsed: "parse_ttl_text s = Some m \<Longrightarrow> 0 < m" for s m
    using amount factor by (fastforce simp: parse_ttl_text_def Let_def less_le split: if_splits option.splits)
  from v parsed show "0 < ms"
    by (auto simp: parseRealmTtlMs_def split: if_splits jsval.splits jsnum.splits)
qed

section \<open>Limits of a realm\<close>

lemma fold_cap:
  "cap_ephemeral_only (fold (add_cap v) ts cap) \<longleftrightarrow>
     cap_ephemeral_only cap \<or> (\<exists>t \<in> set ts. realmAllowedForPrefix v (mt_realm_prefix t) \<and> ephemeral_only t)"
  by (induction ts arbitrary: cap) (auto simp: add_cap_def Let_def split: option.splits)

definition cap_under :: "rat \<Rightarrow> realm_cap \<Rightarrow> bool" where
  "cap_under ms cap \<longleftrightarrow> (case cap_max_ttl_ms cap of Some m \<Rightarrow> m \<le> ms | None \<Rightarrow> False)"

lemma cap_under_step: "cap_under ms cap \<Longrightarrow> cap_under ms (add_cap v t cap)"
  by (auto simp: cap_under_def add_cap_def Let_def split: option.splits)

lemma cap_under_fold: "cap_under ms cap \<Longrightarrow> cap_under ms (fold (add_cap v) ts cap)"
  by (induction ts arbitrary: cap) (auto intro: cap_under_step)

lemma fold_cap_under:
  "t \<in> set ts \<Longrightarrow> realmAllowedForPrefix v (mt_realm_prefix t) \<Longrightarrow> parseRealmTtlMs (max_ttl t) = Some ms \<Longrightarrow>
   cap_under ms (fold (add_cap v) ts cap)"
proof (induction ts arbitrary: cap)
  case (Cons t' ts)
  show ?case
  proof (cases "t = t'")
    case True
    with Cons.prems have "cap_under ms (add_cap v t' cap)"
      by (auto simp: cap_under_def add_cap_def Let_def split: option.splits)
    then show ?thesis by (simp add: cap_under_fold)
  next
    case False
    with Cons show ?thesis by simp
  qed
qed simp

lemma fold_cap_positive:
  "\<forall>m. cap_max_ttl_ms cap = Some m \<longrightarrow> 0 < m \<Longrightarrow> cap_max_ttl_ms (fold (add_cap v) ts cap) = Some m \<Longrightarrow> 0 < m"
proof (induction ts arbitrary: cap)
  case (Cons t ts)
  have "\<forall>m. cap_max_ttl_ms (add_cap v t cap) = Some m \<longrightarrow> 0 < m"
    using Cons.prems(1) ttl_positive [of "max_ttl t"] by (auto simp: add_cap_def Let_def split: option.splits)
  from Cons.IH [OF this] Cons.prems(2) show ?case by simp
qed simp

lemma cap_positive: "cap_max_ttl_ms (managementCapForRealm H d v) = Some m \<Longrightarrow> 0 < m"
  unfolding managementCapForRealm_def by (erule fold_cap_positive [rotated]) simp

lemma default_ttl_positive: "0 < getEphemeralRealmDefaultTtlMs d"
  by (auto simp: getEphemeralRealmDefaultTtlMs_def EPHEMERAL_REALM_DEFAULT_TTL_MS_def split: option.splits dest: ttl_positive)

lemma parse_ceil_seconds: "0 < ms \<Longrightarrow> parseRealmTtlMs (ceil_seconds ms) = Some (1000 * of_int \<lceil>ms / 1000\<rceil>)"
  by (simp add: parseRealmTtlMs_def ceil_seconds_def blank_def nullish_def)

lemma ceil_seconds_mono: "ms \<le> m \<Longrightarrow> 1000 * of_int \<lceil>ms / 1000\<rceil> \<le> (1000 * of_int \<lceil>m / 1000\<rceil> :: rat)"
  by (simp add: ceiling_mono divide_right_mono)

lemma obj_get_set: "obj_get (body_set k v body) k' = (if k' = k \<and> is_plain_obj body then v else obj_get body k')"
  by (cases body) (simp_all add: body_set_def)

lemma obj_get_del: "obj_get (body_del k body) k' = (if k' = k then JUndef else obj_get body k')"
  by (cases body) (simp_all add: body_del_def)

lemma is_plain_obj_body [simp]: "is_plain_obj (body_set k v body) = is_plain_obj body" "is_plain_obj (body_del k body) = is_plain_obj body"
  by (cases body; simp add: body_set_def body_del_def)+

lemma obj_get_plain: "obj_get body k \<noteq> JUndef \<Longrightarrow> is_plain_obj body"
  by (cases body) simp_all

text \<open>Strictest wins: the cap of a realm is at most the limit of every token whose prefix owns it.\<close>

lemma cap_strictest:
  assumes "t \<in> set (managementTokens H d)" "realmAllowedForPrefix v (mt_realm_prefix t)"
  shows "ephemeral_only t \<Longrightarrow> cap_ephemeral_only (managementCapForRealm H d v)"
    and "parseRealmTtlMs (max_ttl t) = Some ms \<Longrightarrow> cap_under ms (managementCapForRealm H d v)"
  using assms by (auto simp: managementCapForRealm_def fold_cap intro: fold_cap_under)

section \<open>Secrets stay inside\<close>

text \<open>Another document that differs in its secrets only: \<open>f\<close> renames the secrets, \<open>g\<close> the bearer tokens.\<close>

definition reseal_realm :: "(jsval \<Rightarrow> jsval) \<Rightarrow> realm_doc \<Rightarrow> realm_doc" where
  "reseal_realm f c = c\<lparr>rc_key := f (rc_key c), rc_preshared_key := f (rc_preshared_key c), rc_presharedKey := f (rc_presharedKey c),
     rc_key_hash := f (rc_key_hash c), rc_previous_key_hash := f (rc_previous_key_hash c), rc_manager_key := f (rc_manager_key c),
     rc_managerKey := f (rc_managerKey c), rc_previous_manager_key := f (rc_previous_manager_key c),
     rd_auth_secret := f (rd_auth_secret c), rd_authSecret := f (rd_authSecret c)\<rparr>"

definition reseal_entry :: "(jsval \<Rightarrow> jsval) \<Rightarrow> ext_entry \<Rightarrow> ext_entry" where
  "reseal_entry f e = e\<lparr>ee_auth_secret := f (ee_auth_secret e), ee_authSecret := f (ee_authSecret e)\<rparr>"

definition reseal_doc :: "(jsval \<Rightarrow> jsval) \<Rightarrow> (jsval \<Rightarrow> jsval) \<Rightarrow> auth_doc \<Rightarrow> auth_doc" where
  "reseal_doc f g d = d\<lparr>ad_realms := map (\<lambda>(r, c). (r, reseal_realm f c)) (ad_realms d),
     ad_tokens := map (\<lambda>t. t\<lparr>tk_token := g (tk_token t)\<rparr>) (ad_tokens d),
     ad_management_tokens := map_option (map (\<lambda>t. t\<lparr>mt_token := g (mt_token t)\<rparr>)) (ad_management_tokens d),
     ad_managementTokens := map_option (map (\<lambda>t. t\<lparr>mt_token := g (mt_token t)\<rparr>)) (ad_managementTokens d),
     ad_external_validators := map_option (map (reseal_entry f)) (ad_external_validators d),
     ad_externalValidators := map_option (map (reseal_entry f)) (ad_externalValidators d),
     ad_auth_secret := f (ad_auth_secret d), ad_jwt_secret := f (ad_jwt_secret d)\<rparr>"

definition keeps_presence :: "(jsval \<Rightarrow> jsval) \<Rightarrow> bool" where
  "keeps_presence f \<longleftrightarrow> (\<forall>v. truthy (f v) = truthy v \<and> (truthy v \<or> f v = v))"

lemma keeps_presenceD: "keeps_presence f \<Longrightarrow> truthy (f v) = truthy v" "keeps_presence f \<Longrightarrow> \<not> truthy v \<Longrightarrow> f v = v"
  by (auto simp: keeps_presence_def)

lemmas hide_defs = hide_manager_key_def hide_previous_manager_key_def hide_key_def hide_previous_key_def hide_auth_secret_def

lemma hide_commutes:
  assumes f: "keeps_presence f"
  shows "hide_manager_key (reseal_realm f c) = apsnd (reseal_realm f) (hide_manager_key c)"
    and "hide_previous_manager_key (reseal_realm f c) = apsnd (reseal_realm f) (hide_previous_manager_key c)"
    and "hide_key (reseal_realm f c) = apsnd (reseal_realm f) (hide_key c)"
    and "hide_previous_key (reseal_realm f c) = apsnd (reseal_realm f) (hide_previous_key c)"
    and "hide_auth_secret (reseal_realm f c) = apsnd (reseal_realm f) (hide_auth_secret c)"
  using keeps_presenceD(1) [OF f] keeps_presenceD(2) [OF f, of JUndef]
  by (simp_all add: hide_defs reseal_realm_def)

definition no_secret :: "realm_doc \<Rightarrow> bool" where
  "no_secret c \<longleftrightarrow> list_all (\<lambda>v. \<not> truthy v) [rc_key c, rc_preshared_key c, rc_presharedKey c, rc_key_hash c, rc_previous_key_hash c,
     rc_manager_key c, rc_managerKey c, rc_previous_manager_key c, rd_auth_secret c, rd_authSecret c]"

lemma reseal_no_secret: "keeps_presence f \<Longrightarrow> no_secret c \<Longrightarrow> reseal_realm f c = c"
  by (simp add: no_secret_def reseal_realm_def keeps_presenceD)

lemma hide_manager_key_simps [simp]:
  "\<not> truthy (rc_manager_key (snd (hide_manager_key c)))" "\<not> truthy (rc_managerKey (snd (hide_manager_key c)))"
  by (simp_all add: hide_manager_key_def)

lemma hide_previous_manager_key_simps [simp]:
  "\<not> truthy (rc_previous_manager_key (snd (hide_previous_manager_key c)))"
  "rc_manager_key (snd (hide_previous_manager_key c)) = rc_manager_key c"
  "rc_managerKey (snd (hide_previous_manager_key c)) = rc_managerKey c"
  by (simp_all add: hide_previous_manager_key_def)

lemma hide_key_simps [simp]:
  "\<not> truthy (rc_key (snd (hide_key c)))" "\<not> truthy (rc_preshared_key (snd (hide_key c)))"
  "\<not> truthy (rc_presharedKey (snd (hide_key c)))" "\<not> truthy (rc_key_hash (snd (hide_key c)))"
  "rc_manager_key (snd (hide_key c)) = rc_manager_key c" "rc_managerKey (snd (hide_key c)) = rc_managerKey c"
  "rc_previous_manager_key (snd (hide_key c)) = rc_previous_manager_key c"
  by (simp_all add: hide_key_def)

lemma hide_previous_key_simps [simp]:
  "\<not> truthy (rc_previous_key_hash (snd (hide_previous_key c)))"
  "rc_key (snd (hide_previous_key c)) = rc_key c" "rc_preshared_key (snd (hide_previous_key c)) = rc_preshared_key c"
  "rc_presharedKey (snd (hide_previous_key c)) = rc_presharedKey c" "rc_key_hash (snd (hide_previous_key c)) = rc_key_hash c"
  "rc_manager_key (snd (hide_previous_key c)) = rc_manager_key c" "rc_managerKey (snd (hide_previous_key c)) = rc_managerKey c"
  "rc_previous_manager_key (snd (hide_previous_key c)) = rc_previous_manager_key c"
  by (simp_all add: hide_previous_key_def)

lemma hide_auth_secret_simps [simp]:
  "\<not> truthy (rd_auth_secret (snd (hide_auth_secret c)))" "\<not> truthy (rd_authSecret (snd (hide_auth_secret c)))"
  "rc_previous_key_hash (snd (hide_auth_secret c)) = rc_previous_key_hash c"
  "rc_key (snd (hide_auth_secret c)) = rc_key c" "rc_preshared_key (snd (hide_auth_secret c)) = rc_preshared_key c"
  "rc_presharedKey (snd (hide_auth_secret c)) = rc_presharedKey c" "rc_key_hash (snd (hide_auth_secret c)) = rc_key_hash c"
  "rc_manager_key (snd (hide_auth_secret c)) = rc_manager_key c" "rc_managerKey (snd (hide_auth_secret c)) = rc_managerKey c"
  "rc_previous_manager_key (snd (hide_auth_secret c)) = rc_previous_manager_key c"
  by (simp_all add: hide_auth_secret_def)

lemma hidden_no_secret: "no_secret (pr_config (public_realm_of c))"
  by (simp add: public_realm_of_def no_secret_def split_beta)

lemma public_realm_reseal:
  assumes f: "keeps_presence f" shows "public_realm_of (reseal_realm f c) = public_realm_of c"
proof -
  have "reseal_realm f (pr_config (public_realm_of c)) = pr_config (public_realm_of c)"
    by (rule reseal_no_secret [OF f hidden_no_secret])
  then show ?thesis
    by (simp add: public_realm_of_def split_beta hide_commutes [OF f])
qed

lemma public_validator_reseal: "keeps_presence f \<Longrightarrow> public_validator (reseal_entry f e) = public_validator e"
  by (simp add: public_validator_def reseal_entry_def keeps_presenceD Let_def)

lemma configured_reseal: "keeps_presence f \<Longrightarrow> configured (f v) = configured v"
  by (simp add: configured_def keeps_presenceD)

lemma listed_map: "listed (map_option f a) (map_option f b) = map_option f (listed a b)"
  by (simp add: listed_def)

text \<open>
  C16. What a manager is shown of the authorisation document does not depend on any secret in it: if
  every realm key, key hash, manager key, previous key, validator secret and global secret is replaced
  by another one, and every bearer token by one with the same hash, the settings shown are the same.
\<close>

theorem settings_hide_secrets:
  assumes f: "keeps_presence f" and g: "\<forall>v. truthy (g v) = truthy v \<and> H (to_string (g v)) = H (to_string v)"
  shows "publicAuthSettings H (reseal_doc f g d) = publicAuthSettings H d"
proof -
  have tok: "public_token H (t\<lparr>tk_token := g (tk_token t)\<rparr>) = public_token H t" for t
    using g by (simp add: public_token_def hashToken_def)
  have mt: "public_mgmt_token H (t\<lparr>mt_token := g (mt_token t)\<rparr>) = public_mgmt_token H t" for t
    using g by (simp add: public_mgmt_token_def hashToken_def ephemeral_only_def max_ttl_def)
  show ?thesis
    by (simp add: publicAuthSettings_def reseal_doc_def listed_map option.map_comp comp_def tok mt split_beta
        public_realm_reseal [OF f] public_validator_reseal [OF f] configured_reseal [OF f])
qed

definition sealed_doc :: "string \<Rightarrow> string \<Rightarrow> auth_doc" where
  "sealed_doc k s = empty_doc\<lparr>ad_realms := [(''a'', no_realm\<lparr>rc_manager_key := JStr k, rd_auth_secret := JStr s\<rparr>)], ad_jwt_secret := JStr s\<rparr>"

theorem settings_hide_secrets_witness:
  "publicAuthSettings pad64 (sealed_doc ''one'' ''two'') = publicAuthSettings pad64 (sealed_doc ''x'' ''x'')"
proof -
  let ?f = "\<lambda>v. if truthy v then JStr ''x'' else v"
  have f: "keeps_presence ?f" by (simp add: keeps_presence_def)
  have "reseal_doc ?f id (sealed_doc ''one'' ''two'') = sealed_doc ''x'' ''x''"
    by (simp add: reseal_doc_def sealed_doc_def reseal_realm_def empty_doc_def no_realm_def realm_config_empty_def
        realm_config.defs realm_settings.defs realm_doc.defs)
  with settings_hide_secrets [OF f, of id pad64 "sealed_doc ''one'' ''two''"] show ?thesis by simp
qed

end
