(* ===== verification/Realm_Admin.thy ===== *)
theory Realm_Admin
  imports Auth_Documents Memory_Store
begin

text \<open>
  Administration of realms (\<open>lib/server.js\<close>): the signed AUTH_MANAGEMENT_COMMAND with its commands,
  the commands that the manager of one realm may sign, the disposal of expired realms, and
  \<open>POST /api/realms\<close>. A command works on a copy of the authorisation document; an error leaves the
  broker as it was.
\<close>

section \<open>State and environment\<close>

record ('r, 's) admin_state =
  am_auth :: auth_doc
  am_runtime :: "(string, 'r) jsmap"
  am_sockets :: "(string, sock_state) jsmap"
  am_store :: 's

text \<open>
  \<open>al_url\<close> parses a URL to its protocol and host name. \<open>al_reload\<close> is the outcome of reading the
  settings file again and \<open>al_persistence\<close> that of choosing a storage backend. \<open>al_purge\<close> is the
  purge operation of the message store.
\<close>

record 's admin_lib =
  al_hash :: "string \<Rightarrow> string"
  al_url :: "string \<Rightarrow> (string \<times> string) option"
  al_reload :: "(nat \<times> string) + auth_doc"
  al_persistence :: "jsval \<Rightarrow> (nat \<times> string) option"
  al_purge :: "jsval \<Rightarrow> 's \<Rightarrow> 's"

type_synonym refusal = "nat \<times> string"

definition REALM_REQUIRED :: "refusal" where "REALM_REQUIRED = (400, ''realm is required'')"
definition REALM_NOT_FOUND :: "refusal" where "REALM_NOT_FOUND = (404, ''realm not found'')"
definition INVALID_TTL :: "refusal" where "INVALID_TTL = (400, ''invalid ttl'')"

abbreviation body_realm :: "jsval \<Rightarrow> jsval" where
  "body_realm body \<equiv> obj_get body ''realm''"

section \<open>Commands on realms\<close>

definition set_lifetime :: "auth_doc \<Rightarrow> int \<Rightarrow> jsval \<Rightarrow> realm_doc \<Rightarrow> realm_doc option" where
  "set_lifetime d now body c =
     map_option (\<lambda>ms. c\<lparr>rd_ephemeral := JBool True, rd_expires_at := JNum (Fin (of_int now + ms))\<rparr>)
       (if obj_get body ''ttl'' \<noteq> JUndef then parseRealmTtlMs (obj_get body ''ttl'') else Some (getEphemeralRealmDefaultTtlMs d))"

definition new_realm :: "(string \<Rightarrow> string) \<Rightarrow> jsval \<Rightarrow> realm_doc" where
  "new_realm H body =
     (let mk = js_or (obj_get body ''manager_key'') (obj_get body ''managerKey'');
          key = js_or (js_or (obj_get body ''key'') (obj_get body ''preshared_key'')) (obj_get body ''presharedKey'');
          acc = obj_get body ''require_acceptance''; e2ee = obj_get body ''e2ee''
      in no_realm\<lparr>rs_required := JBool (obj_get body ''required'' \<noteq> JBool False),
          rc_manager_key := (if truthy mk then mk else JUndef),
          rc_key_hash := (if truthy key then JStr (hashRealmKey H key) else JUndef),
          rs_require_acceptance := (if nullish acc then JUndef else JBool (truthy acc)),
          rs_e2ee := (if e2ee = JStr ''opportunistic'' \<or> e2ee = JStr ''required'' then e2ee else JUndef)\<rparr>)"

definition cmd_add_realm :: "(string \<Rightarrow> string) \<Rightarrow> int \<Rightarrow> jsval \<Rightarrow> auth_doc \<Rightarrow> refusal + auth_doc" where
  "cmd_add_realm H now body d =
     (let r = to_string (body_realm body) in
      if \<not> truthy (body_realm body) then Inl REALM_REQUIRED
      else if realm_at (ad_realms d) r \<noteq> None then Inl (409, ''realm already exists'')
      else if wantsEphemeralRealm body \<or> obj_get body ''ttl'' \<noteq> JUndef
      then (case set_lifetime d now body (new_realm H body) of
              None \<Rightarrow> Inl INVALID_TTL
            | Some c \<Rightarrow> Inr (d\<lparr>ad_realms := jset r c (ad_realms d)\<rparr>))
      else Inr (d\<lparr>ad_realms := jset r (new_realm H body) (ad_realms d)\<rparr>))"

definition retoken :: "jsval \<Rightarrow> jsval \<Rightarrow> client_token \<Rightarrow> client_token" where
  "retoken f t tk = (if same_value (tk_realm tk) f then tk\<lparr>tk_realm := t\<rparr> else tk)"

text \<open>The prototype of objects is the one inherited member that a rename saves, as an empty configuration.\<close>

definition move_realm :: "string \<Rightarrow> string \<Rightarrow> (string, realm_doc) jsmap \<Rightarrow> (string, realm_doc) jsmap" where
  "move_realm f t rs =
     (case jget rs f of
        Some c \<Rightarrow> jdel f (jset t c rs)
      | None \<Rightarrow> if f = ''__proto__'' then jset t no_realm rs else rs)"

definition move_runtime :: "string \<Rightarrow> string \<Rightarrow> (string, 'r) jsmap \<Rightarrow> (string, 'r) jsmap" where
  "move_runtime f t rt =
     (case (jget rt f, jget rt t) of (Some x, None) \<Rightarrow> jdel f (jset t x rt) | _ \<Rightarrow> rt)"

definition cmd_rename_realm ::
  "jsval \<Rightarrow> ('r, 's) admin_state \<Rightarrow> refusal + ('r, 's) admin_state" where
  "cmd_rename_realm body s =
     (let d = am_auth s; vf = obj_get body ''from''; vt = obj_get body ''to''; f = to_string vf; t = to_string vt in
      if \<not> truthy vf \<or> \<not> truthy vt then Inl (400, ''from and to are required'')
      else if realm_at (ad_realms d) f = None then Inl REALM_NOT_FOUND
      else if realm_at (ad_realms d) t \<noteq> None then Inl (409, ''target realm already exists'')
      else Inr (s\<lparr>am_auth := d\<lparr>ad_realms := move_realm f t (ad_realms d), ad_tokens := map (retoken vf vt) (ad_tokens d)\<rparr>,
                  am_runtime := move_runtime f t (am_runtime s)\<rparr>))"

definition in_realm :: "jsval \<Rightarrow> string \<times> sock_state \<Rightarrow> bool" where
  "in_realm v p \<longleftrightarrow> JStr (getSocketRealmId (snd p)) = v"

definition disconnectRealmSockets :: "jsval \<Rightarrow> (string, sock_state) jsmap \<Rightarrow> nat \<times> (string, sock_state) jsmap" where
  "disconnectRealmSockets v ss = (length (filter (in_realm v) ss), filter (\<lambda>p. \<not> in_realm v p) ss)"

text \<open>The counts it reports: tokens removed and sockets disconnected.\<close>

definition cmd_remove_realm ::
  "('s) admin_lib \<Rightarrow> jsval \<Rightarrow> ('r, 's) admin_state \<Rightarrow> refusal + (nat \<times> nat \<times> ('r, 's) admin_state)" where
  "cmd_remove_realm L body s =
     (let d = am_auth s; v = body_realm body; r = to_string v in
      if \<not> truthy v then Inl REALM_REQUIRED
      else if v = JStr DEFAULT_REALM \<or> v = JStr REALM_ALL then Inl (400, ''cannot remove the realm'')
      else if realm_at (ad_realms d) r = None then Inl REALM_NOT_FOUND
      else (let kept = filter (\<lambda>t. \<not> same_value (tk_realm t) v) (ad_tokens d);
                (n, ss) = disconnectRealmSockets v (am_sockets s)
            in Inr (length (ad_tokens d) - length kept, n,
                 s\<lparr>am_auth := d\<lparr>ad_realms := jdel r (ad_realms d), ad_tokens := kept\<rparr>,
                   am_runtime := jdel r (am_runtime s), am_sockets := ss, am_store := al_purge L v (am_store s)\<rparr>)))"

text \<open>\<open>auth.realms[r] = auth.realms[r] || {}\<close>, then a change of that object.\<close>

definition upsert_realm :: "jsval \<Rightarrow> (realm_doc \<Rightarrow> realm_doc) \<Rightarrow> auth_doc \<Rightarrow> auth_doc" where
  "upsert_realm v f d =
     (let r = to_string v; c = (case realm_at (ad_realms d) r of Some c \<Rightarrow> c | None \<Rightarrow> no_realm)
      in d\<lparr>ad_realms := put_realm r (f c) (ad_realms d)\<rparr>)"

definition cmd_set_realm_auth :: "jsval \<Rightarrow> auth_doc \<Rightarrow> refusal + auth_doc" where
  "cmd_set_realm_auth body d =
     (if \<not> truthy (body_realm body) then Inl REALM_REQUIRED
      else Inr (upsert_realm (body_realm body) (rs_required_update (\<lambda>_. JBool (truthy (obj_get body ''required'')))) d))"

definition cmd_set_realm_acceptance :: "jsval \<Rightarrow> auth_doc \<Rightarrow> refusal + auth_doc" where
  "cmd_set_realm_acceptance body d =
     (if \<not> truthy (body_realm body) then Inl REALM_REQUIRED
      else Inr (upsert_realm (body_realm body) (rs_require_acceptance_update (\<lambda>_. JBool (truthy (obj_get body ''required'')))) d))"

definition on_keys :: "(realm_config \<Rightarrow> refusal option \<times> realm_config) \<Rightarrow> realm_doc \<Rightarrow> refusal option \<times> realm_doc" where
  "on_keys f c = (let (e, k) = f (realm_config.truncate c) in (e, realm_config.extend k (realm_config.more c)))"

definition cmd_keys :: "(jsval \<Rightarrow> realm_config \<Rightarrow> refusal option \<times> realm_config) \<Rightarrow> jsval \<Rightarrow> auth_doc \<Rightarrow> refusal + auth_doc" where
  "cmd_keys f body d =
     (let v = body_realm body; r = to_string v in
      if \<not> truthy v then Inl REALM_REQUIRED
      else (case realm_at (ad_realms d) r of
              None \<Rightarrow> Inl REALM_NOT_FOUND
            | Some c \<Rightarrow> (case on_keys (f body) c of
                  (Some e, _) \<Rightarrow> Inl e
                | (None, c') \<Rightarrow> Inr (d\<lparr>ad_realms := put_realm r c' (ad_realms d)\<rparr>))))"

definition cmd_set_realm_manager_key :: "(string \<Rightarrow> string) \<Rightarrow> int \<Rightarrow> jsval \<Rightarrow> auth_doc \<Rightarrow> refusal + auth_doc" where
  "cmd_set_realm_manager_key H now = cmd_keys (set_realm_manager_key H now)"

definition cmd_set_realm_key :: "(string \<Rightarrow> string) \<Rightarrow> int \<Rightarrow> jsval \<Rightarrow> auth_doc \<Rightarrow> refusal + auth_doc" where
  "cmd_set_realm_key H now = cmd_keys (set_realm_key H now)"

definition cmd_set_realm_e2ee :: "jsval \<Rightarrow> auth_doc \<Rightarrow> refusal + auth_doc" where
  "cmd_set_realm_e2ee body d =
     (let p = js_or (obj_get body ''e2ee'') (obj_get body ''policy'') in
      if \<not> truthy (body_realm body) then Inl REALM_REQUIRED
      else if p \<notin> {JStr ''off'', JStr ''opportunistic'', JStr ''required''}
      then Inl (400, ''e2ee must be off, opportunistic, or required'')
      else Inr (upsert_realm (body_realm body) (rs_e2ee_update (\<lambda>_. if p = JStr ''off'' then JUndef else p)) d))"

definition push_block :: "jsval \<Rightarrow> jsval" where
  "push_block body =
     (let cfg = (if obj_get body ''default_wake'' = JStr ''alert'' then [(''default_wake'', JStr ''alert'')] else [])
            @ (if is_plain_obj (obj_get body ''alert'')
               then [(''alert'', alert_obj (normalizeWakeAlert (obj_get body ''alert'') (body_realm body)))] else [])
      in if cfg = [] then JUndef else JObj cfg)"

definition cmd_set_realm_push :: "jsval \<Rightarrow> auth_doc \<Rightarrow> refusal + auth_doc" where
  "cmd_set_realm_push body d =
     (let w = obj_get body ''default_wake'' in
      if \<not> truthy (body_realm body) then Inl REALM_REQUIRED
      else if \<not> nullish w \<and> w \<noteq> JStr ''silent'' \<and> w \<noteq> JStr ''alert'' then Inl (400, ''default_wake must be silent or alert'')
      else Inr (upsert_realm (body_realm body) (rs_push_update (\<lambda>_. push_block body)) d))"

definition cmd_set_realm_lifetime :: "int \<Rightarrow> jsval \<Rightarrow> auth_doc \<Rightarrow> refusal + auth_doc" where
  "cmd_set_realm_lifetime now body d =
     (let v = body_realm body; r = to_string v;
          flagGiven = (obj_get body ''ephemeral'' \<noteq> JUndef \<or> obj_get body ''temporary'' \<noteq> JUndef)
      in if \<not> truthy v then Inl REALM_REQUIRED
         else if v = JStr DEFAULT_REALM \<or> v = JStr REALM_ALL then Inl (400, ''cannot change the lifetime of the realm'')
         else (case realm_at (ad_realms d) r of
                 None \<Rightarrow> Inl REALM_NOT_FOUND
               | Some c \<Rightarrow>
                   if flagGiven \<and> \<not> wantsEphemeralRealm body
                   then Inr (d\<lparr>ad_realms := put_realm r (c\<lparr>rd_ephemeral := JUndef, rd_temporary := JUndef, rd_expires_at := JUndef\<rparr>) (ad_realms d)\<rparr>)
                   else (case set_lifetime d now body (c\<lparr>rd_temporary := JUndef\<rparr>) of
                           None \<Rightarrow> Inl INVALID_TTL
                         | Some c' \<Rightarrow> Inr (d\<lparr>ad_realms := put_realm r c' (ad_realms d)\<rparr>))))"

section \<open>Commands on tokens and validators\<close>

definition no_mgmt_token :: mgmt_token where
  "no_mgmt_token = mgmt_token.fields JUndef JUndef JUndef JUndef JUndef JUndef JUndef JUndef"

definition own_list :: "(string \<Rightarrow> string) \<Rightarrow> auth_doc \<Rightarrow> auth_doc" where
  "own_list H d = normalizeManagementTokens H
     (d\<lparr>ad_management_tokens := Some (first_list (ad_management_tokens d) (ad_managementTokens d)), ad_managementTokens := None\<rparr>)"

definition cmd_add_management_token :: "(string \<Rightarrow> string) \<Rightarrow> jsval \<Rightarrow> auth_doc \<Rightarrow> refusal + auth_doc" where
  "cmd_add_management_token H body d0 =
     (let token = obj_get body ''token''; prefix = obj_get body ''realm_prefix'' in
      if \<not> truthy token \<or> \<not> is_str token then Inl (400, ''token is required'')
      else if \<not> truthy prefix \<or> \<not> is_str prefix then Inl (400, ''realm_prefix is required'')
      else (let d = own_list H d0; l = first_list (ad_management_tokens d) None; h = hashToken H token;
                only = truthy (obj_get body ''ephemeral_only'') \<or> truthy (obj_get body ''ephemeralOnly'');
                ttl = js_or (obj_get body ''max_ttl'') (obj_get body ''maxTtl'')
            in if \<exists>t \<in> set l. mt_token_hash t = h then Inl (409, ''management token already exists'')
               else if truthy ttl \<and> parseRealmTtlMs ttl = None then Inl (400, ''invalid max_ttl'')
               else Inr (d\<lparr>ad_management_tokens := Some (l @ [no_mgmt_token\<lparr>mt_token_hash := h, mt_realm_prefix := prefix,
                      mt_ephemeral_only := (if only then JBool True else JUndef),
                      mt_max_ttl := (if truthy ttl then ttl else JUndef)\<rparr>])\<rparr>)))"

definition cmd_revoke_management_token :: "(string \<Rightarrow> string) \<Rightarrow> jsval \<Rightarrow> auth_doc \<Rightarrow> refusal + auth_doc" where
  "cmd_revoke_management_token H body d0 =
     (let h = obj_get body ''token_hash'' in
      if \<not> truthy h then Inl (400, ''token_hash is required'')
      else (let d = normalizeManagementTokens H d0; l = first_list (ad_management_tokens d) (ad_managementTokens d);
                kept = filter (\<lambda>t. \<not> same_value (mt_token_hash t) h) l
            in if length kept = length l then Inl (404, ''management token not found'')
               else Inr (d\<lparr>ad_management_tokens := Some kept, ad_managementTokens := None\<rparr>)))"

text \<open>What \<open>set_external_auth\<close> checks before it changes anything.\<close>

definition external_refusal :: "(string \<Rightarrow> (string \<times> string) option) \<Rightarrow> jsval \<Rightarrow> refusal option" where
  "external_refusal parse body =
     (let url = obj_get body ''auth_url''; jwks = obj_get body ''jwks_url''; prefix = obj_get body ''realm_prefix'';
          iss = obj_get body ''iss''; aud = obj_get body ''aud''
      in if truthy url \<and> parse (to_string url) = None then Some (400, ''auth_url must be a valid URL'')
         else if truthy (body_realm body) \<and> truthy prefix then Some (400, ''pass either realm or realm_prefix, not both'')
         else if truthy url \<and> truthy jwks then Some (400, ''pass either auth_url or jwks_url, not both'')
         else if \<not> truthy jwks then None
         else if \<not> truthy prefix then Some (400, ''jwks_url requires realm_prefix scope'')
         else (case parse (to_string jwks) of
                 None \<Rightarrow> Some (400, ''jwks_url must be a valid URL'')
               | Some (protocol, host) \<Rightarrow>
                   if protocol \<noteq> ''https:'' \<and> \<not> (protocol = ''http:'' \<and> isLoopbackHost host)
                   then Some (400, ''jwks_url must use https (http allowed for loopback only)'')
                   else if \<not> truthy iss \<or> \<not> is_str iss then Some (400, ''iss is required with jwks_url'')
                   else if \<not> truthy aud \<or> \<not> is_str aud then Some (400, ''aud is required with jwks_url'')
                   else None))"

text \<open>An omitted secret keeps \<open>current\<close>, an empty one clears it.\<close>

definition next_secret :: "jsval \<Rightarrow> jsval \<Rightarrow> jsval" where
  "next_secret body current =
     (let s = obj_get body ''auth_secret'' in
      if nullish s then current else if truthy s then JStr (to_string s) else JUndef)"

definition set_realm_validator :: "jsval \<Rightarrow> realm_doc \<Rightarrow> realm_doc" where
  "set_realm_validator body c =
     (let url = obj_get body ''auth_url'' in
      if truthy url then c\<lparr>rd_auth_url := JStr (to_string url), rd_auth_secret := next_secret body (rd_auth_secret c)\<rparr>
      else c\<lparr>rd_auth_url := JUndef, rd_auth_secret := JUndef\<rparr>)"

definition no_ext_entry :: ext_entry where
  "no_ext_entry = ext_entry.fields JUndef JUndef JUndef JUndef JUndef JUndef JUndef JUndef JUndef JUndef"

definition prefix_entry :: "jsval \<Rightarrow> ext_entry list \<Rightarrow> ext_entry list" where
  "prefix_entry body l =
     (let p = JStr (to_string (obj_get body ''realm_prefix'')); url = obj_get body ''auth_url''; jwks = obj_get body ''jwks_url'';
          previous = (case find (\<lambda>e. ee_realm_prefix e = p) l of Some e \<Rightarrow> ee_auth_secret e | None \<Rightarrow> JUndef)
      in filter (\<lambda>e. ee_realm_prefix e \<noteq> p) l
         @ (if truthy jwks
            then [no_ext_entry\<lparr>ee_realm_prefix := p, ee_jwks_url := JStr (to_string jwks),
                    ee_iss := JStr (to_string (obj_get body ''iss'')), ee_aud := JStr (to_string (obj_get body ''aud''))\<rparr>]
            else if truthy url
            then [no_ext_entry\<lparr>ee_realm_prefix := p, ee_auth_url := JStr (to_string url),
                    ee_auth_secret := next_secret body (if truthy previous then previous else JUndef)\<rparr>]
            else []))"

definition cmd_set_external_auth :: "(string \<Rightarrow> (string \<times> string) option) \<Rightarrow> jsval \<Rightarrow> auth_doc \<Rightarrow> refusal + auth_doc" where
  "cmd_set_external_auth parse body d =
     (let v = body_realm body; r = to_string v; url = obj_get body ''auth_url'' in
      case external_refusal parse body of
        Some e \<Rightarrow> Inl e
      | None \<Rightarrow>
          if truthy v
          then (case realm_at (ad_realms d) r of
                  None \<Rightarrow> Inl REALM_NOT_FOUND
                | Some c \<Rightarrow> Inr (d\<lparr>ad_realms := put_realm r (set_realm_validator body c) (ad_realms d)\<rparr>))
          else if truthy (obj_get body ''realm_prefix'')
          then Inr (d\<lparr>ad_external_validators := Some (prefix_entry body (first_list (ad_external_validators d) (ad_externalValidators d))),
                      ad_externalValidators := None\<rparr>)
          else Inr (d\<lparr>ad_auth_url := (if truthy url then JStr (to_string url) else JUndef),
                      ad_auth_secret := next_secret body (ad_auth_secret d)\<rparr>))"

definition revoke_matches :: "(string \<Rightarrow> string) \<Rightarrow> jsval \<Rightarrow> client_token \<Rightarrow> bool" where
  "revoke_matches H body t \<longleftrightarrow>
     (let token = obj_get body ''token''; h = js_or (obj_get body ''token_hash'') (obj_get body ''tokenHash'');
          realm = body_realm body; client = js_or (obj_get body ''client_id'') (obj_get body ''clientId'')
      in truthy token \<and> same_value (tk_token t) token
         \<or> truthy h \<and> truthy (tk_token t) \<and> hashToken H (tk_token t) = h
         \<or> truthy realm \<and> truthy client \<and> same_value (tk_realm t) realm \<and> same_value (tk_client_id t) client)"

definition revocable :: "(string \<Rightarrow> string) \<Rightarrow> jsval \<Rightarrow> client_token \<Rightarrow> bool" where
  "revocable H body t \<longleftrightarrow> revoke_matches H body t
     \<and> \<not> (tk_realm t = JStr REALM_ALL \<and> tk_role t = JStr ''admin'' \<and> \<not> truthy (obj_get body ''allow_admin''))"

definition revokeAuthTokens :: "(string \<Rightarrow> string) \<Rightarrow> jsval \<Rightarrow> auth_doc \<Rightarrow> refusal + (jsval \<times> auth_doc)" where
  "revokeAuthTokens H body d =
     (let named = truthy (obj_get body ''token'') \<or> truthy (js_or (obj_get body ''token_hash'') (obj_get body ''tokenHash''))
            \<or> truthy (body_realm body) \<and> truthy (js_or (obj_get body ''client_id'') (obj_get body ''clientId''));
          removed = filter (revocable H body) (ad_tokens d)
      in if \<not> named then Inl (400, ''token, token_hash, or realm + client_id is required'')
         else if removed = [] then Inl (404, ''matching revocable token not found'')
         else Inr (JArr (map (public_token H) removed), d\<lparr>ad_tokens := filter (\<lambda>t. \<not> revocable H body t) (ad_tokens d)\<rparr>))"

section \<open>The commands together\<close>

record admin_ok =
  ao_settings :: public_auth
  ao_revoked :: jsval
  ao_removed_tokens :: jsval
  ao_disconnected_sockets :: jsval

type_synonym admin_result = "refusal + admin_ok"

definition count_val :: "nat \<Rightarrow> jsval" where
  "count_val n = JNum (Fin (of_nat n))"

text \<open>
  The extra members of an answer are what the command found, else what the body happened to carry
  under the names the code uses for them.
\<close>

definition answer_of :: "(string \<Rightarrow> string) \<Rightarrow> jsval \<Rightarrow> auth_doc \<Rightarrow> admin_ok" where
  "answer_of H body d = \<lparr>ao_settings = publicAuthSettings H d,
     ao_revoked = (if truthy (obj_get body ''_revoked'') then obj_get body ''_revoked'' else JUndef),
     ao_removed_tokens = obj_get body ''_removed_tokens'', ao_disconnected_sockets = obj_get body ''_disconnected_sockets''\<rparr>"

definition settings_only :: "(string \<Rightarrow> string) \<Rightarrow> auth_doc \<Rightarrow> admin_ok" where
  "settings_only H d = \<lparr>ao_settings = publicAuthSettings H d, ao_revoked = JUndef, ao_removed_tokens = JUndef, ao_disconnected_sockets = JUndef\<rparr>"

definition commit_state ::
  "(string \<Rightarrow> string) \<Rightarrow> jsval \<Rightarrow> ('r, 's) admin_state \<Rightarrow> refusal + ('r, 's) admin_state \<Rightarrow> admin_result \<times> ('r, 's) admin_state" where
  "commit_state H body s out = (case out of Inl e \<Rightarrow> (Inl e, s) | Inr s' \<Rightarrow> (Inr (answer_of H body (am_auth s')), s'))"

definition commit_doc ::
  "(string \<Rightarrow> string) \<Rightarrow> jsval \<Rightarrow> ('r, 's) admin_state \<Rightarrow> refusal + auth_doc \<Rightarrow> admin_result \<times> ('r, 's) admin_state" where
  "commit_doc H body s out = commit_state H body s (map_sum id (\<lambda>d. s\<lparr>am_auth := d\<rparr>) out)"

text \<open>The commands whose whole effect is on the document.\<close>

definition doc_command :: "'s admin_lib \<Rightarrow> int \<Rightarrow> jsval \<Rightarrow> auth_doc \<Rightarrow> (refusal + auth_doc) option" where
  "doc_command L now body d =
     (let c = obj_get body ''command''; H = al_hash L in
      if c = JStr ''set_global_auth'' then Some (Inr (d\<lparr>ad_enabled := JBool (truthy (obj_get body ''enabled''))\<rparr>))
      else if c = JStr ''add_realm'' then Some (cmd_add_realm H now body d)
      else if c = JStr ''set_realm_auth'' then Some (cmd_set_realm_auth body d)
      else if c = JStr ''set_realm_manager_key'' then Some (cmd_set_realm_manager_key H now body d)
      else if c = JStr ''set_realm_key'' then Some (cmd_set_realm_key H now body d)
      else if c = JStr ''set_realm_acceptance'' then Some (cmd_set_realm_acceptance body d)
      else if c = JStr ''set_realm_e2ee'' then Some (cmd_set_realm_e2ee body d)
      else if c = JStr ''set_realm_push'' then Some (cmd_set_realm_push body d)
      else if c = JStr ''set_realm_lifetime'' then Some (cmd_set_realm_lifetime now body d)
      else if c = JStr ''add_management_token'' then Some (cmd_add_management_token H body d)
      else if c = JStr ''revoke_management_token'' then Some (cmd_revoke_management_token H body d)
      else if c = JStr ''set_external_auth'' then Some (cmd_set_external_auth (al_url L) body d)
      else None)"

definition applyAuthManagementCommand ::
  "'s admin_lib \<Rightarrow> int \<Rightarrow> jsval \<Rightarrow> ('r, 's) admin_state \<Rightarrow> admin_result \<times> ('r, 's) admin_state" where
  "applyAuthManagementCommand L now body s =
     (let c = obj_get body ''command''; H = al_hash L; d = am_auth s in
      case doc_command L now body d of
        Some out \<Rightarrow> commit_doc H body s out
      | None \<Rightarrow>
          if c = JStr ''get'' then (Inr (settings_only H d), s)
          else if c = JStr ''reload_settings''
          then (case al_reload L of Inl e \<Rightarrow> (Inl e, s) | Inr d' \<Rightarrow> (Inr (settings_only H d'), s\<lparr>am_auth := d'\<rparr>))
          else if c = JStr ''set_persistence''
          then (case al_persistence L body of Some e \<Rightarrow> (Inl e, s) | None \<Rightarrow> (Inr (settings_only H d), s))
          else if c = JStr ''rename_realm'' then commit_state H body s (cmd_rename_realm body s)
          else if c = JStr ''remove_realm''
          then (case cmd_remove_realm L body s of
                  Inl e \<Rightarrow> (Inl e, s)
                | Inr (t, n, s') \<Rightarrow> (Inr ((answer_of H body (am_auth s'))\<lparr>ao_removed_tokens := count_val t, ao_disconnected_sockets := count_val n\<rparr>), s'))
          else if c = JStr ''revoke_token''
          then (case revokeAuthTokens H body d of
                  Inl e \<Rightarrow> (Inl e, s)
                | Inr (gone, d') \<Rightarrow> (Inr ((answer_of H body d')\<lparr>ao_revoked := gone\<rparr>), s\<lparr>am_auth := d'\<rparr>))
          else (Inl (400, ''unknown management command''), s))"

section \<open>Signed commands\<close>

definition REALM_SCOPED_COMMANDS :: "string list" where
  "REALM_SCOPED_COMMANDS = [''set_realm_lifetime'', ''set_realm_key'', ''set_realm_acceptance'', ''set_realm_e2ee'', ''set_realm_push'']"

text \<open>The table is an object, so the members that every object inherits pass the test as well.\<close>

definition realm_scoped :: "jsval \<Rightarrow> bool" where
  "realm_scoped command \<longleftrightarrow> to_string command \<in> set REALM_SCOPED_COMMANDS \<union> set object_members"

type_synonym proof_check = "string \<Rightarrow> string \<Rightarrow> jsval \<Rightarrow> manager_proof \<Rightarrow> int \<Rightarrow> bool"

definition verifyRealmManagerProof ::
  "proof_check \<Rightarrow> (string \<Rightarrow> string) \<Rightarrow> auth_doc \<Rightarrow> int \<Rightarrow> string \<Rightarrow> jsval \<Rightarrow> manager_proof option \<Rightarrow> nonce_cache
     \<Rightarrow> proof_verdict \<times> nonce_cache" where
  "verifyRealmManagerProof vap H d now action body pf c0 =
     (let (v, c) = validateManagerProofEnvelope now pf c0 in
      if v \<noteq> ProofOk then (v, c)
      else (case (pf, body_realm body) of
          (Some p, JStr realm) \<Rightarrow>
            if realm = [] \<or> realm = REALM_ALL \<or> realm = DEFAULT_REALM then (ProofInvalid, c)
            else if verifyProofWithSecrets vap (realm_manager_secrets H now d realm) action body p now
            then (ProofOk, markManagerProofUsed now p c) else (ProofInvalid, c)
        | _ \<Rightarrow> (ProofInvalid, c)))"

datatype admin_answer =
    Refused nat string
  | Settings admin_ok
  | OwnRealm jsval "public_realm option" jsval jsval jsval
  | ProofRefused proof_verdict
  | OtherCommand

definition full_answer :: "admin_result \<Rightarrow> admin_answer" where
  "full_answer r = (case r of Inl (code, m) \<Rightarrow> Refused code m | Inr a \<Rightarrow> Settings a)"

definition scopeManagementResponseToRealm :: "admin_result \<Rightarrow> string \<Rightarrow> admin_answer" where
  "scopeManagementResponseToRealm r realm =
     (case r of Inl (code, m) \<Rightarrow> Refused code m
      | Inr a \<Rightarrow> OwnRealm (JStr realm) (jget (pa_realms (ao_settings a)) realm) (ao_revoked a) (ao_removed_tokens a) (ao_disconnected_sockets a))"

text \<open>The commands that answer later, all of them on the message store or its statistics.\<close>

definition ASYNC_COMMANDS :: "string list" where
  "ASYNC_COMMANDS = [''stats'', ''dlq_list'', ''dlq_replay'', ''dlq_discard'']"

datatype admin_scope = GlobalScope | RealmScope string

text \<open>The proof is checked first as one of a global administrator, then, for some commands, as one of the realm.\<close>

definition verify_command ::
  "proof_check \<Rightarrow> (string \<Rightarrow> string) \<Rightarrow> auth_doc \<Rightarrow> int \<Rightarrow> jsval \<Rightarrow> manager_proof option \<Rightarrow> nonce_cache
     \<Rightarrow> (proof_verdict + admin_scope) \<times> nonce_cache" where
  "verify_command vap H d now body pf c0 =
     (case verifyGlobalManagerProof vap (getAdminTokens d) now ''AUTH_MANAGEMENT_COMMAND'' body pf c0 of
        (ProofOk, c) \<Rightarrow> (Inr GlobalScope, c)
      | (v, c) \<Rightarrow>
          if realm_scoped (obj_get body ''command'')
          then (case verifyRealmManagerProof vap H d now ''AUTH_MANAGEMENT_COMMAND'' body pf c of
                  (ProofOk, c') \<Rightarrow> (Inr (RealmScope (to_string (body_realm body))), c')
                | (_, c') \<Rightarrow> (Inl v, c'))
          else (Inl v, c))"

text \<open>\<open>claimed\<close> tells whether the cluster let this node use the nonce.\<close>

definition auth_management_command ::
  "proof_check \<Rightarrow> 's admin_lib \<Rightarrow> int \<Rightarrow> bool \<Rightarrow> jsval \<Rightarrow> manager_proof option \<Rightarrow> nonce_cache \<times> ('r, 's) admin_state
     \<Rightarrow> admin_answer \<times> nonce_cache \<times> ('r, 's) admin_state" where
  "auth_management_command vap L now claimed body pf cs =
     (let (c0, s) = cs; d = am_auth s in
      case verify_command vap (al_hash L) d now body pf c0 of
        (Inl v, c) \<Rightarrow> (ProofRefused v, c, s)
      | (Inr scope, c) \<Rightarrow>
          if \<not> claimed then (ProofRefused ProofReplayed, c, s)
          else if obj_get body ''command'' \<in> JStr ` set ASYNC_COMMANDS then (OtherCommand, c, s)
          else (case scope of
              GlobalScope \<Rightarrow> (let (r, s') = applyAuthManagementCommand L now body s in (full_answer r, c, s'))
            | RealmScope realm \<Rightarrow>
                (let (r, s') = applyAuthManagementCommand L now (enforceRealmScopedLimits (al_hash L) d body) s
                 in (scopeManagementResponseToRealm r realm, c, s'))))"

section \<open>Disposal of expired realms\<close>

text \<open>\<open>rc.expires_at > now\<close> compares as numbers.\<close>

definition realm_expired :: "int \<Rightarrow> realm_doc \<Rightarrow> bool" where
  "realm_expired now c \<longleftrightarrow> isEphemeralRealmConfig c \<and> truthy (rd_expires_at c)
     \<and> \<not> num_lt (Fin (of_int now)) (to_number (rd_expires_at c))"

definition remove_body :: "string \<Rightarrow> jsval" where
  "remove_body r = JObj [(''command'', JStr ''remove_realm''), (''realm'', JStr r)]"

text \<open>The loop runs over the realms of the document it started with.\<close>

fun sweep_realms ::
  "'s admin_lib \<Rightarrow> int \<Rightarrow> (string \<times> realm_doc) list \<Rightarrow> ('r, 's) admin_state \<Rightarrow> nat \<times> ('r, 's) admin_state" where
  "sweep_realms L now [] s = (0, s)"
| "sweep_realms L now ((r, c) # rs) s =
     (if \<not> realm_expired now c then sweep_realms L now rs s
      else (let (res, s1) = applyAuthManagementCommand L now (remove_body r) s; (n, s2) = sweep_realms L now rs s1
            in (if isl res then n else Suc n, s2)))"

definition sweepEphemeralRealms :: "'s admin_lib \<Rightarrow> int \<Rightarrow> ('r, 's) admin_state \<Rightarrow> nat \<times> ('r, 's) admin_state" where
  "sweepEphemeralRealms L now s = sweep_realms L now (ad_realms (am_auth s)) s"

section \<open>POST /api/realms\<close>

datatype http_reply = HttpFail nat string | HttpLimited int | RealmReady string bool bool jsval

definition created_body :: "auth_doc \<Rightarrow> mgmt_grant \<Rightarrow> jsval \<Rightarrow> jsval" where
  "created_body d g body =
     (let base = [(''command'', JStr ''add_realm''), (''realm'', body_realm body), (''required'', JBool True),
                  (''manager_key'', js_or (obj_get body ''manager_key'') (obj_get body ''managerKey''))]
             @ (if wantsEphemeralRealm body then [(''ephemeral'', JBool True)] else [])
             @ (if obj_get body ''ttl'' \<noteq> JUndef then [(''ttl'', obj_get body ''ttl'')] else [])
      in if \<not> mg_ephemeral_only g then JObj base
         else (let b1 = jset ''ephemeral'' (JBool True) base in
               case parseRealmTtlMs (mg_max_ttl g) of
                 None \<Rightarrow> JObj b1
               | Some cap \<Rightarrow>
                   (let ms = (case requested_ttl_ms body of Some q \<Rightarrow> min q cap | None \<Rightarrow> min (getEphemeralRealmDefaultTtlMs d) cap)
                    in JObj (jset ''ttl'' (ceil_seconds ms) b1))))"

definition rotated_body :: "jsval \<Rightarrow> jsval" where
  "rotated_body body = JObj ([(''command'', JStr ''set_realm_manager_key''), (''realm'', body_realm body),
     (''manager_key'', js_or (obj_get body ''manager_key'') (obj_get body ''managerKey'')), (''grace'', obj_get body ''grace'')])"

definition provision ::
  "'s admin_lib \<Rightarrow> int \<Rightarrow> mgmt_grant \<Rightarrow> jsval \<Rightarrow> ('r, 's) admin_state \<Rightarrow> http_reply \<times> ('r, 's) admin_state" where
  "provision L now g body s =
     (let d = am_auth s; v = body_realm body; mk = js_or (obj_get body ''manager_key'') (obj_get body ''managerKey'');
          r = to_string v; existed = (realm_at (ad_realms d) r \<noteq> None)
      in if \<not> is_str v \<or> \<not> truthy v then (HttpFail 400 ''realm is required'', s)
         else if \<not> is_str mk \<or> \<not> truthy mk then (HttpFail 400 ''manager_key is required'', s)
         else if \<not> realmAllowedForPrefix v (mg_realm_prefix g) then (HttpFail 403 ''realm outside managed prefix'', s)
         else (case applyAuthManagementCommand L now (if existed then rotated_body body else created_body d g body) s of
                 (Inl (code, m), s') \<Rightarrow> (HttpFail code m, s')
               | (Inr _, s') \<Rightarrow>
                   (let c = (case realm_at (ad_realms (am_auth s')) r of Some c \<Rightarrow> c | None \<Rightarrow> no_realm)
                    in (RealmReady r (\<not> existed) (isEphemeralRealmConfig c) (or_null (rd_expires_at c)), s'))))"

text \<open>
  \<open>body\<close> is \<open>None\<close> when the request is larger than the limit or no JSON; \<open>limits\<close> is the rate-limit
  document and \<open>ip\<close> the address of the caller.
\<close>

definition handleCreateRealmRequest ::
  "'s admin_lib \<Rightarrow> int \<Rightarrow> jsval \<Rightarrow> string option \<Rightarrow> string option \<Rightarrow> jsval option \<Rightarrow> limits \<times> ('r, 's) admin_state
     \<Rightarrow> http_reply \<times> limits \<times> ('r, 's) admin_state" where
  "handleCreateRealmRequest L now limits ip header body ls =
     (let (l, s) = ls; d = am_auth s; H = al_hash L in
      if \<not> truthy (ad_enabled d) \<or> managementTokens H d = [] then (HttpFail 404 ''not found'', l, s)
      else (case managementTokenForRequest H d header of
          None \<Rightarrow> (HttpFail 401 ''management token required'', l, s)
        | Some g \<Rightarrow>
            (case realmCreationAllowed now limits ip l of
               (Refuse _ wait, l') \<Rightarrow> (HttpLimited wait, l', s)
             | (Admit, l') \<Rightarrow>
                 (case body of
                    None \<Rightarrow> (HttpFail 400 ''invalid JSON body'', l', s)
                  | Some b \<Rightarrow> (let (rep, s') = provision L now g (js_or b (JObj [])) s in (rep, l', s'))))))"

section \<open>What one realm may change\<close>

lemma on_keys_fields:
  assumes "on_keys f c = (e, c')"
  shows "realm_config.more c' = realm_config.more c" "realm_config.truncate c' = snd (f (realm_config.truncate c))" "e = fst (f (realm_config.truncate c))"
  using assms by (auto simp: on_keys_def split_beta realm_config.defs)

lemma upsert_own: "jget (ad_realms d) r = Some c \<Longrightarrow> upsert_realm (JStr r) f d = d\<lparr>ad_realms := jset r (f c) (ad_realms d)\<rparr>"
  by (simp add: upsert_realm_def realm_at_own put_realm_own)

lemma normalize_manager [simp]:
  "rc_manager_key (snd (normalizeRealmConfig H now rc)) = rc_manager_key rc"
  "rc_managerKey (snd (normalizeRealmConfig H now rc)) = rc_managerKey rc"
  by (simp_all add: normalizeRealmConfig_def normalize_key_def drop_previous_key_def drop_previous_manager_def Let_def)

lemma set_realm_key_manager:
  "rc_manager_key (snd (set_realm_key H now body rc)) = rc_manager_key rc"
  by (simp add: set_realm_key_def Let_def split: option.splits)

lemma truncate_manager [simp]: "rc_manager_key (realm_config.truncate c) = rc_manager_key c"
  by (simp add: realm_config.defs)

text \<open>The lifetime of a realm within the limits of its management tokens.\<close>

definition within_cap :: "int \<Rightarrow> realm_cap \<Rightarrow> realm_doc \<Rightarrow> bool" where
  "within_cap now cap c \<longleftrightarrow> (cap_ephemeral_only cap \<longrightarrow> isEphemeralRealmConfig c)
     \<and> (case cap_max_ttl_ms cap of None \<Rightarrow> True
        | Some m \<Rightarrow> isEphemeralRealmConfig c \<longrightarrow> (\<exists>e. rd_expires_at c = JNum (Fin e) \<and> e \<le> of_int now + 1000 * of_int \<lceil>m / 1000\<rceil>))"

text \<open>The lifetime of a realm within one grant: whether it must be ephemeral, and its longest lifetime.\<close>

definition within_grant :: "int \<Rightarrow> bool \<Rightarrow> jsval \<Rightarrow> realm_doc \<Rightarrow> bool" where
  "within_grant now only ttl c \<longleftrightarrow> (only \<longrightarrow> isEphemeralRealmConfig c)
     \<and> (case parseRealmTtlMs ttl of None \<Rightarrow> True
        | Some m \<Rightarrow> isEphemeralRealmConfig c \<longrightarrow> (\<exists>e. rd_expires_at c = JNum (Fin e) \<and> e \<le> of_int now + 1000 * of_int \<lceil>m / 1000\<rceil>))"

lemma within_cap_grant:
  assumes cap: "within_cap now (managementCapForRealm H d v) c" and t: "t \<in> set (managementTokens H d)" "realmAllowedForPrefix v (mt_realm_prefix t)"
  shows "within_grant now (ephemeral_only t) (max_ttl t) c"
proof (cases "parseRealmTtlMs (max_ttl t)")
  case None
  with cap cap_strictest(1) [OF t] show ?thesis by (simp add: within_grant_def within_cap_def)
next
  case (Some ms)
  from cap_strictest(2) [OF t Some] obtain m where m: "cap_max_ttl_ms (managementCapForRealm H d v) = Some m" "m \<le> ms"
    by (auto simp: cap_under_def split: option.splits)
  note le = ceil_seconds_mono [OF m(2)]
  from cap m have "isEphemeralRealmConfig c \<Longrightarrow> \<exists>e. rd_expires_at c = JNum (Fin e) \<and> e \<le> of_int now + 1000 * of_int \<lceil>m / 1000\<rceil>"
    by (simp add: within_cap_def)
  with le have "isEphemeralRealmConfig c \<Longrightarrow> \<exists>e. rd_expires_at c = JNum (Fin e) \<and> e \<le> of_int now + 1000 * of_int \<lceil>ms / 1000\<rceil>"
    by force
  with cap cap_strictest(1) [OF t] Some show ?thesis by (simp add: within_grant_def within_cap_def)
qed

lemma set_lifetime_ttl:
  "set_lifetime d now body c = Some c' \<Longrightarrow> isEphemeralRealmConfig c'
     \<and> (\<exists>ms. c' = c\<lparr>rd_ephemeral := JBool True, rd_expires_at := JNum (Fin (of_int now + ms))\<rparr>
            \<and> (obj_get body ''ttl'' \<noteq> JUndef \<longrightarrow> parseRealmTtlMs (obj_get body ''ttl'') = Some ms))"
  by (auto simp: set_lifetime_def isEphemeralRealmConfig_def split: if_splits)

lemma enforce_gets:
  assumes c: "obj_get body ''command'' = JStr ''set_realm_lifetime''"
    and cap: "cap = managementCapForRealm H d (body_realm body)" and b: "b = enforceRealmScopedLimits H d body"
  shows "body_realm b = body_realm body" "obj_get b ''command'' = JStr ''set_realm_lifetime''"
    "cap_ephemeral_only cap \<Longrightarrow> obj_get b ''ephemeral'' = JBool True"
    "cap_max_ttl_ms cap = Some m \<Longrightarrow> \<exists>ms \<le> 1000 * of_int \<lceil>m / 1000\<rceil>. parseRealmTtlMs (obj_get b ''ttl'') = Some ms"
proof -
  have o: "is_plain_obj body" using c obj_get_plain [of body "''command''"] by simp
  show "body_realm b = body_realm body" "obj_get b ''command'' = JStr ''set_realm_lifetime''"
    "cap_ephemeral_only cap \<Longrightarrow> obj_get b ''ephemeral'' = JBool True"
    using o c by (auto simp: b cap enforceRealmScopedLimits_def Let_def obj_get_set obj_get_del split: option.splits)
  assume m: "cap_max_ttl_ms cap = Some m"
  define b1 where "b1 = (if cap_ephemeral_only cap then body_set ''ephemeral'' (JBool True) (body_del ''temporary'' body) else body)"
  define q where "q = (case requested_ttl_ms b1 of Some ms \<Rightarrow> ms | None \<Rightarrow> getEphemeralRealmDefaultTtlMs d)"
  have q: "0 < q"
    by (auto simp: q_def requested_ttl_ms_def default_ttl_positive dest: ttl_positive split: option.splits if_splits)
  have "b = body_set ''ttl'' (ceil_seconds (min q m)) b1"
    using m c by (simp add: b cap enforceRealmScopedLimits_def b1_def q_def Let_def)
  then have "obj_get b ''ttl'' = ceil_seconds (min q m)" using o by (simp add: obj_get_set b1_def)
  moreover have "0 < min q m" using q cap_positive [of H d "body_realm body" m] m cap by simp
  ultimately show "\<exists>ms \<le> 1000 * of_int \<lceil>m / 1000\<rceil>. parseRealmTtlMs (obj_get b ''ttl'') = Some ms"
    using parse_ceil_seconds [of "min q m"] ceil_seconds_mono [of "min q m" m] by auto
qed

lemma lifetime_capped:
  assumes c: "obj_get body ''command'' = JStr ''set_realm_lifetime''" and r: "body_realm body = JStr r" "jget (ad_realms d) r = Some c0"
    and cmd: "cmd_set_realm_lifetime now (enforceRealmScopedLimits H d body) d = Inr d'"
  shows "\<exists>c. d' = d\<lparr>ad_realms := jset r c (ad_realms d)\<rparr> \<and> realm_config.truncate c = realm_config.truncate c0
    \<and> within_cap now (managementCapForRealm H d (JStr r)) c"
proof -
  define b where "b = enforceRealmScopedLimits H d body"
  define cap where "cap = managementCapForRealm H d (JStr r)"
  note g = enforce_gets [OF c refl b_def, unfolded r, folded cap_def]
  note own = realm_at_own [OF r(2)] put_realm_own [OF r(2)]
  show ?thesis
  proof (cases "(obj_get b ''ephemeral'' \<noteq> JUndef \<or> obj_get b ''temporary'' \<noteq> JUndef) \<and> \<not> wantsEphemeralRealm b")
    case True
    then have "\<not> cap_ephemeral_only cap" using g(3) by (auto simp: wantsEphemeralRealm_def)
    with True cmd g(1) own r show ?thesis
      by (auto simp: cmd_set_realm_lifetime_def b_def [symmetric] cap_def [symmetric] Let_def within_cap_def isEphemeralRealmConfig_def
          realm_config.defs split: if_splits option.splits intro!: exI)
  next
    case False
    with cmd g(1) own r obtain c' where c': "set_lifetime d now b (c0\<lparr>rd_temporary := JUndef\<rparr>) = Some c'"
      and d': "d' = d\<lparr>ad_realms := jset r c' (ad_realms d)\<rparr>"
      by (auto simp: cmd_set_realm_lifetime_def b_def [symmetric] Let_def split: if_splits option.splits)
    from set_lifetime_ttl [OF c'] obtain ms where eph: "isEphemeralRealmConfig c'"
      and ms: "c' = c0\<lparr>rd_temporary := JUndef, rd_ephemeral := JBool True, rd_expires_at := JNum (Fin (of_int now + ms))\<rparr>"
      "obj_get b ''ttl'' \<noteq> JUndef \<Longrightarrow> parseRealmTtlMs (obj_get b ''ttl'') = Some ms" by auto
    have "within_cap now cap c'"
      using eph g(4) ms by (cases "cap_max_ttl_ms cap") (fastforce simp: within_cap_def parseRealmTtlMs_def blank_def nullish_def)+
    with d' ms(1) show ?thesis by (auto simp: cap_def realm_config.defs)
  qed
qed

lemma commit_refused: "commit_state H body s out = (Inl e, s') \<Longrightarrow> s' = s" "commit_doc H body s out' = (Inl e, s') \<Longrightarrow> s' = s"
  by (auto simp: commit_doc_def commit_state_def split: sum.splits)

lemma apply_refused: "applyAuthManagementCommand L now body s = (Inl e, s') \<Longrightarrow> s' = s"
  unfolding applyAuthManagementCommand_def Let_def
  by (auto dest: commit_refused split: option.split_asm if_split_asm sum.split_asm)

lemma apply_doc:
  "doc_command L now body (am_auth s) = Some out \<Longrightarrow> applyAuthManagementCommand L now body s =
     (case out of Inl e \<Rightarrow> (Inl e, s) | Inr d \<Rightarrow> (Inr (answer_of (al_hash L) body d), s\<lparr>am_auth := d\<rparr>))"
  by (cases out) (simp_all add: applyAuthManagementCommand_def commit_doc_def commit_state_def)

lemma apply_doc_ok:
  "applyAuthManagementCommand L now body s = (Inr a, s') \<Longrightarrow> doc_command L now body (am_auth s) = Some out \<Longrightarrow>
   \<exists>d. out = Inr d \<and> s' = s\<lparr>am_auth := d\<rparr>"
  by (cases out) (auto simp: apply_doc)

lemma scoped_doc_command:
  assumes "obj_get body ''command'' = JStr c"
  shows "c = ''set_realm_lifetime'' \<Longrightarrow> doc_command L now body d = Some (cmd_set_realm_lifetime now body d)"
    "c = ''set_realm_key'' \<Longrightarrow> doc_command L now body d = Some (cmd_set_realm_key (al_hash L) now body d)"
    "c = ''set_realm_acceptance'' \<Longrightarrow> doc_command L now body d = Some (cmd_set_realm_acceptance body d)"
    "c = ''set_realm_e2ee'' \<Longrightarrow> doc_command L now body d = Some (cmd_set_realm_e2ee body d)"
    "c = ''set_realm_push'' \<Longrightarrow> doc_command L now body d = Some (cmd_set_realm_push body d)"
    "c = ''add_realm'' \<Longrightarrow> doc_command L now body d = Some (cmd_add_realm (al_hash L) now body d)"
    "c = ''set_realm_manager_key'' \<Longrightarrow> doc_command L now body d = Some (cmd_set_realm_manager_key (al_hash L) now body d)"
    "c = ''remove_realm'' \<Longrightarrow> doc_command L now body d = None"
  using assms by (simp_all add: doc_command_def)

lemma unlisted_refused:
  assumes c: "realm_scoped (obj_get body ''command'')" "obj_get body ''command'' \<notin> JStr ` set REALM_SCOPED_COMMANDS"
  shows "applyAuthManagementCommand L now body s = (Inl (400, ''unknown management command''), s)"
proof -
  define known where "known = [''set_global_auth'', ''add_realm'', ''set_realm_auth'', ''set_realm_manager_key'', ''set_realm_key'',
     ''set_realm_acceptance'', ''set_realm_e2ee'', ''set_realm_push'', ''set_realm_lifetime'', ''add_management_token'',
     ''revoke_management_token'', ''set_external_auth'', ''get'', ''reload_settings'', ''set_persistence'', ''rename_realm'',
     ''remove_realm'', ''revoke_token'']"
  have "list_all (\<lambda>k. k \<in> set REALM_SCOPED_COMMANDS \<or> k \<notin> set REALM_SCOPED_COMMANDS \<union> set object_members) known"
    by (simp add: known_def REALM_SCOPED_COMMANDS_def object_members_def)
  then have "list_all (\<lambda>k. obj_get body ''command'' \<noteq> JStr k) known"
    using c by (fastforce simp: realm_scoped_def list_all_iff)
  then show ?thesis by (simp add: known_def applyAuthManagementCommand_def doc_command_def Let_def)
qed

text \<open>A command that rewrites the configuration of the realm \<open>r\<close> and leaves its manager alone.\<close>

definition own_change :: "string \<Rightarrow> realm_doc \<Rightarrow> auth_doc \<Rightarrow> auth_doc \<Rightarrow> bool" where
  "own_change r c0 d d' \<longleftrightarrow> (\<exists>c. d' = d\<lparr>ad_realms := jset r c (ad_realms d)\<rparr> \<and> rc_manager_key c = rc_manager_key c0)"

lemma upsert_own_change:
  "jget (ad_realms d) r = Some c0 \<Longrightarrow> rc_manager_key (f c0) = rc_manager_key c0 \<Longrightarrow> own_change r c0 d (upsert_realm (JStr r) f d)"
  by (auto simp: own_change_def upsert_own)

lemma scoped_own_change:
  assumes r: "body_realm body = JStr r" "r \<noteq> []" "jget (ad_realms d) r = Some c0"
  shows "cmd_set_realm_acceptance body d = Inr d' \<Longrightarrow> own_change r c0 d d'"
    and "cmd_set_realm_e2ee body d = Inr d' \<Longrightarrow> own_change r c0 d d'"
    and "cmd_set_realm_push body d = Inr d' \<Longrightarrow> own_change r c0 d d'"
    and "cmd_set_realm_key H now body d = Inr d' \<Longrightarrow> own_change r c0 d d'"
proof -
  note own = upsert_own_change [OF r(3)]
  show "cmd_set_realm_acceptance body d = Inr d' \<Longrightarrow> own_change r c0 d d'"
    using own [of "rs_require_acceptance_update (\<lambda>_. JBool (truthy (obj_get body ''required'')))"] r
    by (auto simp: cmd_set_realm_acceptance_def)
  show "cmd_set_realm_e2ee body d = Inr d' \<Longrightarrow> own_change r c0 d d'"
    using own [of "rs_e2ee_update (\<lambda>_. v)" for v] r
    by (auto simp: cmd_set_realm_e2ee_def Let_def split: if_splits)
  show "cmd_set_realm_push body d = Inr d' \<Longrightarrow> own_change r c0 d d'"
    using own [of "rs_push_update (\<lambda>_. push_block body)"] r
    by (auto simp: cmd_set_realm_push_def Let_def split: if_splits)
  assume cmd: "cmd_set_realm_key H now body d = Inr d'"
  obtain e c where k: "on_keys (set_realm_key H now body) c0 = (e, c)" by fastforce
  have "rc_manager_key c = rc_manager_key (realm_config.truncate c)" by simp
  also have "\<dots> = rc_manager_key c0" unfolding on_keys_fields(2) [OF k] by (simp add: set_realm_key_manager)
  finally show "own_change r c0 d d'" using cmd r k
    by (auto simp: cmd_set_realm_key_def cmd_keys_def realm_at_own put_realm_own own_change_def split: option.splits)
qed

lemma scoped_command_effect:
  assumes c: "obj_get body ''command'' = JStr c" "c \<in> set REALM_SCOPED_COMMANDS"
    and r: "body_realm body = JStr r" "r \<noteq> []" "jget (ad_realms d) r = Some c0" and d: "d = am_auth s"
    and run: "applyAuthManagementCommand L now (enforceRealmScopedLimits H d body) s = (Inr a, s')"
  shows "\<exists>cf. s' = s\<lparr>am_auth := d\<lparr>ad_realms := jset r cf (ad_realms d)\<rparr>\<rparr> \<and> rc_manager_key cf = rc_manager_key c0
    \<and> (c = ''set_realm_lifetime'' \<longrightarrow> within_cap now (managementCapForRealm H d (JStr r)) cf)"
proof (cases "c = ''set_realm_lifetime''")
  case True
  note cmd = c(1) [unfolded True]
  have "obj_get (enforceRealmScopedLimits H d body) ''command'' = JStr ''set_realm_lifetime''"
    by (rule enforce_gets(2) [OF cmd refl refl])
  note doc = scoped_doc_command(1) [OF this refl, of L now d]
  from run obtain d' where d': "cmd_set_realm_lifetime now (enforceRealmScopedLimits H d body) d = Inr d'" "s' = s\<lparr>am_auth := d'\<rparr>"
    by (auto simp: apply_doc [OF doc [unfolded d]] d split: sum.splits)
  from lifetime_capped [OF cmd r(1,3) d'(1)] obtain cf where cf: "d' = d\<lparr>ad_realms := jset r cf (ad_realms d)\<rparr>"
    "realm_config.truncate cf = realm_config.truncate c0" "within_cap now (managementCapForRealm H d (JStr r)) cf" by blast
  have "rc_manager_key cf = rc_manager_key c0" using cf(2) truncate_manager [of cf] truncate_manager [of c0] by metis
  with cf(1,3) d'(2) show ?thesis by blast
next
  case False
  have b: "enforceRealmScopedLimits H d body = body" using c False by (simp add: enforceRealmScopedLimits_def)
  note doc = scoped_doc_command(2-5) [OF c(1), of L now d]
  from c(2) False have four: "c = ''set_realm_key'' \<or> c = ''set_realm_acceptance'' \<or> c = ''set_realm_e2ee'' \<or> c = ''set_realm_push''"
    by (simp add: REALM_SCOPED_COMMANDS_def)
  then have "\<exists>out. doc_command L now body d = Some out" using doc by blast
  then obtain out where out: "doc_command L now body (am_auth s) = Some out" by (auto simp: d)
  from apply_doc_ok [OF run [unfolded b] out] out obtain d' where d': "doc_command L now body d = Some (Inr d')" "s' = s\<lparr>am_auth := d'\<rparr>"
    by (auto simp: d)
  from four have "own_change r c0 d d'"
    using d'(1) doc scoped_own_change [OF r] by (metis option.inject)
  with d'(2) False show ?thesis by (auto simp: own_change_def)
qed

lemma verify_command_cases:
  assumes v: "verify_command vap H d now body pf c0 = (Inr scope, c)"
    and other: "\<forall>p. pf = Some p \<longrightarrow> \<not> verifyProofWithSecrets vap (getAdminTokens d) ''AUTH_MANAGEMENT_COMMAND'' body p now"
  shows "\<exists>r p. scope = RealmScope r \<and> realm_scoped (obj_get body ''command'') \<and> body_realm body = JStr r
    \<and> r \<notin> {[], REALM_ALL, DEFAULT_REALM} \<and> pf = Some p
    \<and> verifyProofWithSecrets vap (realm_manager_secrets H now d r) ''AUTH_MANAGEMENT_COMMAND'' body p now"
proof -
  have "fst (verifyGlobalManagerProof vap (getAdminTokens d) now ''AUTH_MANAGEMENT_COMMAND'' body pf c0) \<noteq> ProofOk"
    using other by (cases pf) (auto simp: verifyGlobal_cases, simp add: verifyGlobalManagerProof_def validateManagerProofEnvelope_def)
  with v obtain c1 c2 where rv: "verifyRealmManagerProof vap H d now ''AUTH_MANAGEMENT_COMMAND'' body pf c1 = (ProofOk, c2)"
    and sc: "realm_scoped (obj_get body ''command'')" "scope = RealmScope (to_string (body_realm body))"
    by (fastforce simp: verify_command_def split: prod.splits proof_verdict.splits if_splits)
  from rv obtain p r where p: "pf = Some p" "body_realm body = JStr r"
    by (fastforce simp: verifyRealmManagerProof_def split_beta Let_def split: if_splits option.splits jsval.splits)
  with rv have "r \<notin> {[], REALM_ALL, DEFAULT_REALM}"
    "verifyProofWithSecrets vap (realm_manager_secrets H now d r) ''AUTH_MANAGEMENT_COMMAND'' body p now"
    by (auto simp: verifyRealmManagerProof_def split_beta Let_def split: if_splits)
  with sc p show ?thesis by auto
qed


section \<open>Disposal\<close>

definition dispose :: "'s admin_lib \<Rightarrow> string \<Rightarrow> ('r, 's) admin_state \<Rightarrow> ('r, 's) admin_state" where
  "dispose L r s =
     s\<lparr>am_auth := (am_auth s)\<lparr>ad_realms := jdel r (ad_realms (am_auth s)), ad_tokens := filter (\<lambda>t. tk_realm t \<noteq> JStr r) (ad_tokens (am_auth s))\<rparr>,
       am_runtime := jdel r (am_runtime s), am_sockets := filter (\<lambda>p. getSocketRealmId (snd p) \<noteq> r) (am_sockets s),
       am_store := al_purge L (JStr r) (am_store s)\<rparr>"

definition protected_realms :: "string list" where
  "protected_realms = [[], DEFAULT_REALM, REALM_ALL]"

text \<open>The realms a sweep disposes of.\<close>

definition expired_realms :: "int \<Rightarrow> (string \<times> realm_doc) list \<Rightarrow> string list" where
  "expired_realms now rs = filter (\<lambda>r. r \<notin> set protected_realms) (map fst (filter (\<lambda>p. realm_expired now (snd p)) rs))"

lemma in_realm_text: "in_realm (JStr r) = (\<lambda>p. getSocketRealmId (snd p) = r)"
  by (simp add: in_realm_def fun_eq_iff)

lemma same_text: "same_value v (JStr r) \<longleftrightarrow> v = JStr r"
  by (auto simp: same_value_def)

lemma remove_body_apply:
  "applyAuthManagementCommand L now (remove_body r) s =
     (if r \<in> set protected_realms then (Inl (if r = [] then REALM_REQUIRED else (400, ''cannot remove the realm'')), s)
      else if realm_at (ad_realms (am_auth s)) r = None then (Inl REALM_NOT_FOUND, s)
      else (Inr ((answer_of (al_hash L) (remove_body r) (am_auth (dispose L r s)))
              \<lparr>ao_removed_tokens := count_val (length (ad_tokens (am_auth s)) - length (ad_tokens (am_auth (dispose L r s)))),
               ao_disconnected_sockets := count_val (length (filter (\<lambda>p. getSocketRealmId (snd p) = r) (am_sockets s)))\<rparr>), dispose L r s))"
  by (simp add: applyAuthManagementCommand_def doc_command_def remove_body_def cmd_remove_realm_def protected_realms_def
      disconnectRealmSockets_def in_realm_text same_text dispose_def DEFAULT_REALM_def REALM_ALL_def Let_def)

lemma dispose_keys: "fst ` set (ad_realms (am_auth (dispose L r s))) = fst ` set (ad_realms (am_auth s)) - {r}"
  by (simp add: dispose_def jdel_keys)

lemma expired_realms_Cons:
  "expired_realms now ((r, c) # rs) = (if realm_expired now c \<and> r \<notin> set protected_realms then r # expired_realms now rs else expired_realms now rs)"
  by (simp add: expired_realms_def)

lemma sweep_disposes:
  "wf_map rs \<Longrightarrow> fst ` set rs \<subseteq> fst ` set (ad_realms (am_auth s)) \<Longrightarrow>
   sweep_realms L now rs s = (length (expired_realms now rs), fold (dispose L) (expired_realms now rs) s)"
proof (induction rs arbitrary: s)
  case Nil
  show ?case by (simp add: expired_realms_def)
next
  case (Cons p rs)
  obtain r c where p: "p = (r, c)" by (cases p)
  from Cons.prems p have wf: "wf_map rs" "r \<notin> fst ` set rs" "fst ` set rs \<subseteq> fst ` set (ad_realms (am_auth s))"
    by (auto simp: wf_map_def)
  from Cons.prems(2) p have "jget (ad_realms (am_auth s)) r \<noteq> None" by (auto simp: map_of_eq_None_iff)
  then obtain c1 where at: "realm_at (ad_realms (am_auth s)) r = Some c1" by (auto simp: realm_at_def)
  have sub: "fst ` set rs \<subseteq> fst ` set (ad_realms (am_auth (dispose L r s)))" using wf(2,3) by (simp add: dispose_keys subset_Diff_insert)
  show ?case
    using Cons.IH [OF wf(1,3)] Cons.IH [OF wf(1) sub] at
    by (simp add: p expired_realms_Cons remove_body_apply)
qed

lemma fold_dispose:
  "ad_realms (am_auth (fold (dispose L) gs s)) = filter (\<lambda>p. fst p \<notin> set gs) (ad_realms (am_auth s))"
  "ad_tokens (am_auth (fold (dispose L) gs s)) = filter (\<lambda>t. tk_realm t \<notin> JStr ` set gs) (ad_tokens (am_auth s))"
  "am_runtime (fold (dispose L) gs s) = filter (\<lambda>p. fst p \<notin> set gs) (am_runtime s)"
  "am_sockets (fold (dispose L) gs s) = filter (\<lambda>p. getSocketRealmId (snd p) \<notin> set gs) (am_sockets s)"
  "am_store (fold (dispose L) gs s) = fold (\<lambda>r. al_purge L (JStr r)) gs (am_store s)"
  by (induction gs arbitrary: s)
    (auto simp: dispose_def AList.delete_eq split_beta intro!: filter_cong arg_cong2 [where f = filter])

lemma fold_dispose_rest:
  "(am_auth (fold (dispose L) gs s))\<lparr>ad_realms := x, ad_tokens := y\<rparr> = (am_auth s)\<lparr>ad_realms := x, ad_tokens := y\<rparr>"
  by (induction gs arbitrary: s) (auto simp: dispose_def)

text \<open>
  C13. Expired realms are disposed of completely: a sweep removes exactly the ephemeral realms whose
  expiry has passed, apart from the default realm and the wildcard, and with each of them its tokens,
  its runtime state, its connected sockets and its stored messages; every other realm, token and socket
  stays as it was, and the count it returns is the number of realms removed.
\<close>

theorem expired_realms_disposed:
  assumes wf: "wf_map (ad_realms (am_auth s))" and run: "sweepEphemeralRealms L now s = (n, s')"
    and gone: "gone = set (expired_realms now (ad_realms (am_auth s)))"
  shows "n = card gone
    \<and> (\<forall>r. r \<in> gone \<longleftrightarrow> (\<exists>c. jget (ad_realms (am_auth s)) r = Some c \<and> realm_expired now c) \<and> r \<notin> set protected_realms)
    \<and> am_auth s' = (am_auth s)\<lparr>ad_realms := filter (\<lambda>p. fst p \<notin> gone) (ad_realms (am_auth s)),
         ad_tokens := filter (\<lambda>t. tk_realm t \<notin> JStr ` gone) (ad_tokens (am_auth s))\<rparr>
    \<and> am_runtime s' = filter (\<lambda>p. fst p \<notin> gone) (am_runtime s)
    \<and> am_sockets s' = filter (\<lambda>p. getSocketRealmId (snd p) \<notin> gone) (am_sockets s)
    \<and> am_store s' = fold (\<lambda>r. al_purge L (JStr r)) (expired_realms now (ad_realms (am_auth s))) (am_store s)"
proof -
  let ?rs = "ad_realms (am_auth s)" let ?gs = "expired_realms now ?rs"
  from sweep_disposes [OF wf subset_refl, of L now] run
  have n: "n = length ?gs" and s': "s' = fold (dispose L) ?gs s" by (simp_all add: sweepEphemeralRealms_def)
  have "distinct ?gs" using wf by (simp add: expired_realms_def wf_map_def distinct_map_filter)
  then have "n = card gone" by (simp add: n gone distinct_card)
  moreover have "r \<in> gone \<longleftrightarrow> (\<exists>c. jget ?rs r = Some c \<and> realm_expired now c) \<and> r \<notin> set protected_realms" for r
    by (auto simp: gone expired_realms_def wf_map_in [OF wf, symmetric] image_iff)
  moreover have "am_auth s' = (am_auth s)\<lparr>ad_realms := ad_realms (am_auth s'), ad_tokens := ad_tokens (am_auth s')\<rparr>"
    using fold_dispose_rest [where L = L and gs = ?gs and s = s and x = "ad_realms (am_auth s')" and y = "ad_tokens (am_auth s')"] by (simp add: s')
  ultimately show ?thesis by (simp only: s' gone fold_dispose) blast
qed

section \<open>Provisioning\<close>

lemma created_gets:
  assumes b: "b = created_body d g body"
  shows "obj_get b ''command'' = JStr ''add_realm''" "body_realm b = body_realm body"
    "obj_get b ''manager_key'' = js_or (obj_get body ''manager_key'') (obj_get body ''managerKey'')"
    "mg_ephemeral_only g \<Longrightarrow> obj_get b ''ephemeral'' = JBool True"
    "mg_ephemeral_only g \<Longrightarrow> parseRealmTtlMs (mg_max_ttl g) = Some cap \<Longrightarrow>
       \<exists>ms \<le> 1000 * of_int \<lceil>cap / 1000\<rceil>. parseRealmTtlMs (obj_get b ''ttl'') = Some ms"
proof -
  show "obj_get b ''command'' = JStr ''add_realm''" "body_realm b = body_realm body"
    "obj_get b ''manager_key'' = js_or (obj_get body ''manager_key'') (obj_get body ''managerKey'')"
    by (auto simp: b created_body_def Let_def split: option.splits)
  show "mg_ephemeral_only g \<Longrightarrow> obj_get b ''ephemeral'' = JBool True"
    by (auto simp: b created_body_def Let_def split: option.splits)
  assume only: "mg_ephemeral_only g" and cap: "parseRealmTtlMs (mg_max_ttl g) = Some cap"
  define ms where "ms = (case requested_ttl_ms body of Some q \<Rightarrow> min q cap | None \<Rightarrow> min (getEphemeralRealmDefaultTtlMs d) cap)"
  have ttl: "obj_get b ''ttl'' = ceil_seconds ms"
    using only cap by (simp add: b created_body_def ms_def Let_def)
  have ms: "0 < ms" "ms \<le> cap"
    using ttl_positive [OF cap] default_ttl_positive [of d]
    by (auto simp: ms_def requested_ttl_ms_def dest: ttl_positive split: option.splits if_splits)
  show "\<exists>ms \<le> 1000 * of_int \<lceil>cap / 1000\<rceil>. parseRealmTtlMs (obj_get b ''ttl'') = Some ms"
    using parse_ceil_seconds [OF ms(1)] ceil_seconds_mono [OF ms(2)] by (auto simp: ttl)
qed

lemma add_realm_effect:
  assumes cmd: "cmd_add_realm H now body d = Inr d'" and r: "body_realm body = JStr r"
  shows "jget (ad_realms d) r = None \<and> (\<exists>c. d' = d\<lparr>ad_realms := jset r c (ad_realms d)\<rparr>
    \<and> (c = new_realm H body \<and> \<not> wantsEphemeralRealm body \<or> set_lifetime d now body (new_realm H body) = Some c))"
  using cmd r
  by (auto simp: cmd_add_realm_def realm_at_def Let_def split: if_splits option.splits)

lemma created_within:
  assumes life: "set_lifetime d now b c = Some c'" and b: "b = created_body d g body" and only: "mg_ephemeral_only g"
  shows "within_grant now True (mg_max_ttl g) c'"
proof -
  from set_lifetime_ttl [OF life] obtain ms where eph: "isEphemeralRealmConfig c'"
    and ms: "rd_expires_at c' = JNum (Fin (of_int now + ms))" "obj_get b ''ttl'' \<noteq> JUndef \<longrightarrow> parseRealmTtlMs (obj_get b ''ttl'') = Some ms"
    by auto
  show ?thesis
  proof (cases "parseRealmTtlMs (mg_max_ttl g)")
    case (Some cap)
    from created_gets(5) [OF b only Some] ms eph Some show ?thesis
      by (fastforce simp: within_grant_def parseRealmTtlMs_def blank_def nullish_def)
  qed (simp add: within_grant_def eph)
qed

lemma set_manager_key_new:
  "set_realm_manager_key H now body rc = (None, rc') \<Longrightarrow> truthy (obj_get body ''manager_key'') \<Longrightarrow> rc_manager_key rc' = obj_get body ''manager_key''"
  by (auto simp: set_realm_manager_key_def js_or_def Let_def split: if_splits option.splits)

text \<open>What a provisioning call may do to one realm: create it within the grant, or rotate its manager key.\<close>

definition provisioned :: "int \<Rightarrow> mgmt_grant \<Rightarrow> realm_doc option \<Rightarrow> realm_doc \<Rightarrow> bool" where
  "provisioned now g before after \<longleftrightarrow>
     (case before of
        None \<Rightarrow> mg_ephemeral_only g \<longrightarrow> within_grant now True (mg_max_ttl g) after
      | Some c0 \<Rightarrow> realm_config.more after = realm_config.more c0)"

lemma rotate_effect:
  assumes cmd: "cmd_set_realm_manager_key H now (rotated_body body) d = Inr d'" and r: "body_realm body = JStr r" "r \<noteq> []"
    and mk: "js_or (obj_get body ''manager_key'') (obj_get body ''managerKey'') = JStr k" "k \<noteq> []"
  shows "d' = d \<or> (\<exists>c0 c. jget (ad_realms d) r = Some c0 \<and> d' = d\<lparr>ad_realms := jset r c (ad_realms d)\<rparr>
    \<and> rc_manager_key c = JStr k \<and> realm_config.more c = realm_config.more c0)"
proof -
  let ?b = "rotated_body body"
  have b: "body_realm ?b = JStr r" "obj_get ?b ''manager_key'' = JStr k" using r mk by (simp_all add: rotated_body_def)
  from cmd b r obtain c0 c where c0: "realm_at (ad_realms d) r = Some c0" and k: "on_keys (set_realm_manager_key H now ?b) c0 = (None, c)"
    and d': "d' = d\<lparr>ad_realms := put_realm r c (ad_realms d)\<rparr>"
    by (auto simp: cmd_set_realm_manager_key_def cmd_keys_def split: option.splits prod.splits)
  show ?thesis
  proof (cases "jget (ad_realms d) r")
    case None
    with c0 have "put_realm r c (ad_realms d) = ad_realms d" by (auto simp: put_realm_def realm_at_def split: if_splits)
    with d' show ?thesis by simp
  next
    case (Some c1)
    with c0 have c1: "c1 = c0" by (simp add: realm_at_def)
    have "rc_manager_key (realm_config.truncate c) = JStr k"
      using set_manager_key_new [of H now ?b "realm_config.truncate c0" "realm_config.truncate c"] on_keys_fields(2,3) [OF k] b mk
      by (metis prod.collapse truthy.simps(5))
    with Some c1 d' on_keys_fields(1) [OF k] show ?thesis by (auto simp: put_realm_own)
  qed
qed

lemma created_effect:
  assumes cmd: "cmd_add_realm H now (created_body d g body) d = Inr d'" and r: "body_realm body = JStr r"
    and mk: "js_or (obj_get body ''manager_key'') (obj_get body ''managerKey'') = JStr k" "k \<noteq> []"
  shows "\<exists>c. jget (ad_realms d) r = None \<and> d' = d\<lparr>ad_realms := jset r c (ad_realms d)\<rparr> \<and> rc_manager_key c = JStr k
    \<and> provisioned now g None c"
proof -
  let ?b = "created_body d g body"
  note g = created_gets [where d = d and g = g and body = body, OF refl]
  from add_realm_effect [OF cmd] g(2) r obtain c where c: "jget (ad_realms d) r = None" "d' = d\<lparr>ad_realms := jset r c (ad_realms d)\<rparr>"
    "c = new_realm H ?b \<and> \<not> wantsEphemeralRealm ?b \<or> set_lifetime d now ?b (new_realm H ?b) = Some c" by auto
  have new: "rc_manager_key (new_realm H ?b) = JStr k" using g(3) mk by (simp add: new_realm_def js_or_def Let_def)
  have "rc_manager_key c = JStr k" using c(3) new set_lifetime_ttl [of d now ?b "new_realm H ?b" c] by auto
  moreover have "mg_ephemeral_only g \<Longrightarrow> set_lifetime d now ?b (new_realm H ?b) = Some c"
    using c(3) g(4) by (auto simp: wantsEphemeralRealm_def)
  then have "provisioned now g None c" using created_within [OF _ refl] by (auto simp: provisioned_def)
  ultimately show ?thesis using c by blast
qed

lemma provision_effect:
  assumes run: "provision L now g body s = (rep, s')"
  shows "s' = s \<or> (\<exists>r k c. realmAllowedForPrefix (JStr r) (mg_realm_prefix g) \<and> k \<noteq> []
    \<and> s' = s\<lparr>am_auth := (am_auth s)\<lparr>ad_realms := jset r c (ad_realms (am_auth s))\<rparr>\<rparr> \<and> rc_manager_key c = JStr k
    \<and> provisioned now g (jget (ad_realms (am_auth s)) r) c)"
proof (cases "s' = s")
  case False
  let ?d = "am_auth s" and ?mk = "js_or (obj_get body ''manager_key'') (obj_get body ''managerKey'')"
  from run False obtain r k where r: "body_realm body = JStr r" "r \<noteq> []" and k: "?mk = JStr k" "k \<noteq> []"
    and ok: "realmAllowedForPrefix (JStr r) (mg_realm_prefix g)"
    by (cases "body_realm body"; cases ?mk) (auto simp: provision_def Let_def split: if_splits)
  define b where "b = (if realm_at (ad_realms ?d) r \<noteq> None then rotated_body body else created_body ?d g body)"
  obtain res s1 where app: "applyAuthManagementCommand L now b s = (res, s1)" by fastforce
  have s1: "s' = s1" using run app r k ok by (auto simp: provision_def Let_def b_def split: sum.splits prod.splits if_splits)
  with False app obtain a where a: "applyAuthManagementCommand L now b s = (Inr a, s')" by (cases res) (auto dest: apply_refused)
  have "\<exists>c. s' = s\<lparr>am_auth := ?d\<lparr>ad_realms := jset r c (ad_realms ?d)\<rparr>\<rparr> \<and> rc_manager_key c = JStr k
    \<and> provisioned now g (jget (ad_realms ?d) r) c"
  proof (cases "realm_at (ad_realms ?d) r")
    case None
    then have b: "b = created_body ?d g body" by (simp add: b_def)
    from apply_doc_ok [OF a scoped_doc_command(6) [OF created_gets(1) [OF b] refl]]
    obtain d' where "cmd_add_realm (al_hash L) now b ?d = Inr d'" "s' = s\<lparr>am_auth := d'\<rparr>" by blast
    with created_effect [of "al_hash L" now ?d g body d' r k] r k show ?thesis by (auto simp: b)
  next
    case (Some c0)
    then have b: "b = rotated_body body" by (simp add: b_def)
    have c: "obj_get b ''command'' = JStr ''set_realm_manager_key''" by (simp add: b rotated_body_def)
    from apply_doc_ok [OF a scoped_doc_command(7) [OF c refl]]
    obtain d' where d': "cmd_set_realm_manager_key (al_hash L) now b ?d = Inr d'" "s' = s\<lparr>am_auth := d'\<rparr>" by blast
    with False have "d' \<noteq> ?d" by auto
    with rotate_effect [OF d'(1) [unfolded b] r k] d'(2) show ?thesis by (auto simp: provisioned_def)
  qed
  with ok k show ?thesis by blast
qed simp

text \<open>
  C12. A management token stays under its prefix: a provisioning request changes nothing, or it presents
  a bearer token that the broker knows and changes one realm strictly below the prefix of that token,
  never the default realm or the wildcard. A new realm gets the manager key of the request and, under an
  \<open>ephemeral_only\<close> token, expires no later than the limit of the token, rounded up to a second. For a
  realm that exists only its keys are rotated: its lifetime and its policies stay as they are.
\<close>

theorem provisioning_confined:
  assumes run: "handleCreateRealmRequest L now limits ip header body (l, s) = (rep, l', s')"
  shows "s' = s
    \<or> (\<exists>g r k c. managementTokenForRequest (al_hash L) (am_auth s) header = Some g
         \<and> realmAllowedForPrefix (JStr r) (mg_realm_prefix g) \<and> k \<noteq> []
         \<and> s' = s\<lparr>am_auth := (am_auth s)\<lparr>ad_realms := jset r c (ad_realms (am_auth s))\<rparr>\<rparr>
         \<and> rc_manager_key c = JStr k \<and> provisioned now g (jget (ad_realms (am_auth s)) r) c)"
proof (cases "s' = s")
  case False
  with run obtain g b where g: "managementTokenForRequest (al_hash L) (am_auth s) header = Some g"
    and p: "provision L now g b s = (rep, s')"
    by (auto simp: handleCreateRealmRequest_def Let_def split: if_splits option.splits prod.splits verdict.splits)
  from provision_effect [OF p] False g show ?thesis by blast
qed simp

section \<open>Administrators are not locked out\<close>

lemma doc_commands_keep_tokens:
  "cmd_add_realm H now body d = Inr d' \<Longrightarrow> ad_tokens d' = ad_tokens d"
  "cmd_set_realm_auth body d = Inr d' \<Longrightarrow> ad_tokens d' = ad_tokens d"
  "cmd_set_realm_acceptance body d = Inr d' \<Longrightarrow> ad_tokens d' = ad_tokens d"
  "cmd_keys f body d = Inr d' \<Longrightarrow> ad_tokens d' = ad_tokens d"
  "cmd_set_realm_e2ee body d = Inr d' \<Longrightarrow> ad_tokens d' = ad_tokens d"
  "cmd_set_realm_push body d = Inr d' \<Longrightarrow> ad_tokens d' = ad_tokens d"
  "cmd_set_realm_lifetime now body d = Inr d' \<Longrightarrow> ad_tokens d' = ad_tokens d"
  "cmd_add_management_token H body d = Inr d' \<Longrightarrow> ad_tokens d' = ad_tokens d"
  "cmd_revoke_management_token H body d = Inr d' \<Longrightarrow> ad_tokens d' = ad_tokens d"
  "cmd_set_external_auth parse body d = Inr d' \<Longrightarrow> ad_tokens d' = ad_tokens d"
  by (auto simp: cmd_add_realm_def cmd_set_realm_auth_def cmd_set_realm_acceptance_def cmd_keys_def cmd_set_realm_e2ee_def
      cmd_set_realm_push_def cmd_set_realm_lifetime_def cmd_add_management_token_def cmd_revoke_management_token_def
      cmd_set_external_auth_def upsert_realm_def own_list_def normalizeManagementTokens_def Let_def split: if_splits option.splits prod.splits)

lemma doc_command_keeps_tokens:
  assumes "doc_command L now body d = Some (Inr d')" shows "ad_tokens d' = ad_tokens d"
proof -
  have pick: "(if b then Some x else y) = Some z \<longleftrightarrow> (if b then x = z else y = Some z)" for b and x z :: "refusal + auth_doc" and y by simp
  show ?thesis
    using assms unfolding doc_command_def Let_def pick cmd_set_realm_manager_key_def cmd_set_realm_key_def
    by (simp only: split: if_split_asm) (erule doc_commands_keep_tokens | fastforce)+
qed

text \<open>The commands that may take a global administrator's token away.\<close>

definition may_drop_admin :: "jsval \<Rightarrow> bool" where
  "may_drop_admin body \<longleftrightarrow> obj_get body ''command'' = JStr ''reload_settings''
     \<or> obj_get body ''command'' = JStr ''rename_realm'' \<and> obj_get body ''from'' = JStr REALM_ALL
     \<or> obj_get body ''command'' = JStr ''revoke_token'' \<and> truthy (obj_get body ''allow_admin'')"

lemma secret_texts_set: "s \<in> set (secret_texts vs) \<longleftrightarrow> JStr s \<in> set vs"
  by (induction vs) (auto split: jsval.splits)

lemma admin_tokens_mono:
  "\<forall>t \<in> set ts. admin_entry t \<longrightarrow> t \<in> set (ad_tokens d') \<Longrightarrow> ts = ad_tokens d \<Longrightarrow> set (getAdminTokens d) \<subseteq> set (getAdminTokens d')"
  by (auto simp: getAdminTokens_def secret_texts_set)

lemma rename_keeps_admin:
  "cmd_rename_realm body s = Inr s' \<Longrightarrow> obj_get body ''from'' \<noteq> JStr REALM_ALL \<Longrightarrow> t \<in> set (ad_tokens (am_auth s)) \<Longrightarrow> admin_entry t \<Longrightarrow>
   t \<in> set (ad_tokens (am_auth s'))"
  by (force simp: cmd_rename_realm_def retoken_def admin_entry_def same_value_def Let_def image_iff split: if_splits)

lemma remove_keeps_admin:
  "cmd_remove_realm L body s = Inr (n, m, s') \<Longrightarrow> t \<in> set (ad_tokens (am_auth s)) \<Longrightarrow> admin_entry t \<Longrightarrow> t \<in> set (ad_tokens (am_auth s'))"
  by (auto simp: cmd_remove_realm_def disconnectRealmSockets_def admin_entry_def same_value_def Let_def split: if_splits)

lemma revoke_keeps_admin:
  "revokeAuthTokens H body d = Inr (l, d') \<Longrightarrow> \<not> truthy (obj_get body ''allow_admin'') \<Longrightarrow> t \<in> set (ad_tokens d) \<Longrightarrow> admin_entry t \<Longrightarrow>
   t \<in> set (ad_tokens d')"
  by (auto simp: revokeAuthTokens_def revocable_def admin_entry_def Let_def split: if_splits)

text \<open>
  No command locks the administrators out: whatever management command is applied, every global
  admin token is still one afterwards, unless the command reads the settings file again, renames the
  wildcard realm, or revokes a token with \<open>allow_admin\<close>.
\<close>

theorem admin_tokens_kept:
  assumes run: "applyAuthManagementCommand L now body s = (res, s')" and cmd: "\<not> may_drop_admin body"
  shows "set (getAdminTokens (am_auth s)) \<subseteq> set (getAdminTokens (am_auth s'))"
proof (rule admin_tokens_mono [OF ballI refl], rule impI)
  fix t assume t: "t \<in> set (ad_tokens (am_auth s))" "admin_entry t"
  show "t \<in> set (ad_tokens (am_auth s'))"
  proof (cases "doc_command L now body (am_auth s)")
    case (Some out)
    with run t doc_command_keeps_tokens [of L now body "am_auth s"] show ?thesis
      by (cases out) (auto simp: apply_doc)
  next
    case None
    with run t cmd show ?thesis
      by (auto simp: applyAuthManagementCommand_def commit_state_def may_drop_admin_def Let_def
          split: if_splits sum.splits option.splits prod.splits
          dest: rename_keeps_admin remove_keeps_admin revoke_keeps_admin)
  qed
qed

section \<open>With the memory store\<close>

definition memory_purge :: "jsval \<Rightarrow> memory_store \<Rightarrow> memory_store" where
  "memory_purge v m = (case v of JStr r \<Rightarrow> snd (memory_purgeRealm (Some r) m) | _ \<Rightarrow> m)"

lemma fold_memory_purge:
  "messages (fold (\<lambda>r. memory_purge (JStr r)) gs m) = filter (\<lambda>x. e_realm x \<notin> set gs) (messages m)"
  "dlq (fold (\<lambda>r. memory_purge (JStr r)) gs m) = filter (\<lambda>x. e_realm x \<notin> set gs) (dlq m)"
  by (induction gs arbitrary: m)
    (auto simp: memory_purge_def memory_purgeRealm_def str_or_def Let_def intro!: filter_cong)

text \<open>An expired realm leaves no message and no dead letter, and costs no other realm one.\<close>

lemma expired_realms_leave_no_message:
  assumes "wf_map (ad_realms (am_auth s))" "al_purge L = memory_purge" "sweepEphemeralRealms L now s = (n, s')"
  shows "messages (am_store s') = filter (\<lambda>x. e_realm x \<notin> set (expired_realms now (ad_realms (am_auth s)))) (messages (am_store s))"
    and "dlq (am_store s') = filter (\<lambda>x. e_realm x \<notin> set (expired_realms now (ad_realms (am_auth s)))) (dlq (am_store s))"
proof -
  have "s' = fold (dispose L) (expired_realms now (ad_realms (am_auth s))) s"
    using sweep_disposes [OF assms(1) subset_refl, of L now] assms(3) by (simp add: sweepEphemeralRealms_def)
  then have "am_store s' = fold (\<lambda>r. memory_purge (JStr r)) (expired_realms now (ad_realms (am_auth s))) (am_store s)"
    by (simp add: fold_dispose assms(2))
  then show "messages (am_store s') = filter (\<lambda>x. e_realm x \<notin> set (expired_realms now (ad_realms (am_auth s)))) (messages (am_store s))"
    and "dlq (am_store s') = filter (\<lambda>x. e_realm x \<notin> set (expired_realms now (ad_realms (am_auth s)))) (dlq (am_store s))"
    by (simp_all add: fold_memory_purge)
qed

section \<open>Concrete runs\<close>

lemmas no_realm_unfold = no_realm_def realm_config_empty_def realm_config.defs realm_settings.defs realm_doc.defs

definition sample_admin_lib :: "memory_store admin_lib" where
  "sample_admin_lib = \<lparr>al_hash = id, al_url = (\<lambda>_. None), al_reload = Inl (400, ''no file''), al_persistence = (\<lambda>_. None), al_purge = memory_purge\<rparr>"

definition short_lived :: realm_doc where
  "short_lived = no_realm\<lparr>rc_manager_key := JStr ''k'', rd_ephemeral := JBool True, rd_expires_at := JNum (Fin 1000)\<rparr>"

definition sample_mgmt_token :: mgmt_token where
  "sample_mgmt_token = no_mgmt_token\<lparr>mt_token_hash := JStr ''tok'', mt_realm_prefix := JStr ''a:'', mt_ephemeral_only := JBool True, mt_max_ttl := JNum (Fin 60)\<rparr>"

definition sample_client_token :: "string \<Rightarrow> string \<Rightarrow> string \<Rightarrow> client_token" where
  "sample_client_token tok realm role = \<lparr>tk_token = JStr tok, tk_realm = JStr realm, tk_role = JStr role,
     tk_client_id = JUndef, tk_client_name = JUndef, tk_approved_at = JUndef\<rparr>"

definition sample_doc :: auth_doc where
  "sample_doc = empty_doc\<lparr>ad_enabled := JBool True,
     ad_realms := [(''default'', no_realm), (''a:x'', short_lived), (''b'', no_realm\<lparr>rc_manager_key := JStr ''kb''\<rparr>)],
     ad_tokens := [sample_client_token ''t'' ''a:x'' ''both'', sample_client_token ''root'' ''*'' ''admin''],
     ad_management_tokens := Some [sample_mgmt_token]\<rparr>"

definition sample_admin :: "(unit, memory_store) admin_state" where
  "sample_admin = \<lparr>am_auth = sample_doc, am_runtime = [], am_sockets = [], am_store = memory_new JUndef JUndef\<rparr>"

lemma sample_admin_simps [simp]: "am_auth sample_admin = sample_doc" "al_hash sample_admin_lib = id"
  by (simp_all add: sample_admin_def sample_admin_lib_def)

lemma sample_expired: "expired_realms 2000 (ad_realms sample_doc) = [''a:x'']"
  by (simp add: expired_realms_def sample_doc_def realm_expired_def isEphemeralRealmConfig_def short_lived_def
      protected_realms_def DEFAULT_REALM_def REALM_ALL_def no_realm_unfold)

theorem expired_realms_disposed_witness:
  "fst (sweepEphemeralRealms sample_admin_lib 2000 sample_admin) = 1
   \<and> map fst (ad_realms (am_auth (snd (sweepEphemeralRealms sample_admin_lib 2000 sample_admin)))) = [''default'', ''b'']
   \<and> getAdminTokens (am_auth (snd (sweepEphemeralRealms sample_admin_lib 2000 sample_admin))) = [''root'']"
proof -
  have "wf_map (ad_realms (am_auth sample_admin))" by (simp add: sample_doc_def wf_map_def)
  note swept = expired_realms_disposed [OF this prod.collapse [symmetric] refl, of sample_admin_lib 2000, unfolded sample_admin_simps sample_expired]
  have n: "fst (sweepEphemeralRealms sample_admin_lib 2000 sample_admin) = card (set [''a:x''])"
    by (rule conjunct1 [OF swept])
  have d: "am_auth (snd (sweepEphemeralRealms sample_admin_lib 2000 sample_admin)) =
      sample_doc\<lparr>ad_realms := filter (\<lambda>p. fst p \<notin> set [''a:x'']) (ad_realms sample_doc),
        ad_tokens := filter (\<lambda>t. tk_realm t \<notin> JStr ` set [''a:x'']) (ad_tokens sample_doc)\<rparr>"
    using swept by (elim conjE)
  show ?thesis
    unfolding d n by (simp add: sample_doc_def sample_client_token_def getAdminTokens_def admin_entry_def REALM_ALL_def)
qed

lemma sample_management: "managementTokens id sample_doc = [sample_mgmt_token]"
  by (simp add: managementTokens_def normalizeManagementTokens_def normalize_entry_def sample_doc_def sample_mgmt_token_def
      no_mgmt_token_def mgmt_token.defs first_list_def)

definition sample_key_check :: proof_check where
  "sample_key_check secret action body p now \<longleftrightarrow> mp_signature p = secret"

definition go_permanent :: jsval where
  "go_permanent = JObj [(''command'', JStr ''set_realm_lifetime''), (''realm'', JStr ''a:x''), (''ephemeral'', JBool False), (''ttl'', JStr ''7d'')]"

definition signed_k :: manager_proof where
  "signed_k = \<lparr>mp_timestamp = 0, mp_nonce = ''n'', mp_signature = ''k''\<rparr>"


definition provision_request :: jsval where
  "provision_request = JObj [(''realm'', JStr ''a:new''), (''manager_key'', JStr ''mk'')]"

theorem provisioning_confined_witness:
  "jget (ad_realms (am_auth (snd (snd (handleCreateRealmRequest sample_admin_lib 500 JUndef None (Some ''Bearer tok'') (Some provision_request)
     (limits_new 0, sample_admin)))))) ''b'' = jget (ad_realms sample_doc) ''b''"
proof -
  define out where "out = handleCreateRealmRequest sample_admin_lib 500 JUndef None (Some ''Bearer tok'') (Some provision_request) (limits_new 0, sample_admin)"
  have run: "out = (fst out, fst (snd out), snd (snd out))" by simp
  have bearer: "bearer_token ''Bearer tok'' = Some ''tok''" by code_simp
  have g: "managementTokenForRequest id sample_doc (Some ''Bearer tok'') =
      Some \<lparr>mg_realm_prefix = JStr ''a:'', mg_ephemeral_only = True, mg_max_ttl = JNum (Fin 60)\<rparr>"
    by (simp add: managementTokenForRequest_def bearer sample_management hashToken_def)
      (simp add: sample_mgmt_token_def ephemeral_only_def max_ttl_def or_null_def js_or_def no_mgmt_token_def mgmt_token.defs)
  from provisioning_confined [OF run [unfolded out_def], folded out_def, unfolded sample_admin_simps g]
  have "jget (ad_realms (am_auth (snd (snd out)))) ''b'' = jget (ad_realms sample_doc) ''b''"
    by (auto simp: realmAllowedForPrefix_def)
  then show ?thesis by (simp only: out_def)
qed

theorem admin_tokens_kept_witness:
  "''root'' \<in> set (getAdminTokens (am_auth (snd (applyAuthManagementCommand sample_admin_lib 500 (remove_body ''b'') sample_admin))))"
proof -
  have "''root'' \<in> set (getAdminTokens (am_auth sample_admin))"
    by (simp add: getAdminTokens_def sample_doc_def sample_client_token_def admin_entry_def REALM_ALL_def)
  moreover have "\<not> may_drop_admin (remove_body ''b'')" by (simp add: may_drop_admin_def remove_body_def)
  ultimately show ?thesis using admin_tokens_kept [OF prod.collapse [symmetric]] by blast
qed

section \<open>Limits of the commands\<close>

text \<open>Clearing the manager key of a realm that was configured as \<open>managerKey\<close> leaves that key in force.\<close>

lemma manager_key_alias_survives:
  assumes "cmd_set_realm_manager_key H now (JObj [(''realm'', JStr ''a'')])
      (empty_doc\<lparr>ad_realms := [(''a'', no_realm\<lparr>rc_managerKey := JStr ''old''\<rparr>)]\<rparr>) = Inr d"
  shows "realm_manager_secrets H now d ''a'' = [''old'']"
proof -
  have "d = empty_doc\<lparr>ad_realms := [(''a'', no_realm\<lparr>rc_managerKey := JStr ''old''\<rparr>)]\<rparr>"
    using assms by (simp add: cmd_set_realm_manager_key_def cmd_keys_def realm_at_def put_realm_def on_keys_def set_realm_manager_key_def
        empty_doc_def no_realm_unfold js_or_def normalizeRealmConfig_def normalize_key_def drop_previous_key_def drop_previous_manager_def raw_key_def)
  then show ?thesis
    by (simp add: realm_manager_secrets_def realm_at_def empty_doc_def no_realm_unfold getRealmManagerSecrets_def js_or_def
        normalizeRealmConfig_def normalize_key_def drop_previous_key_def drop_previous_manager_def raw_key_def Let_def)
qed

text \<open>A realm named by a one-element array passes the guard that keeps the default realm, and its tokens stay behind.\<close>

lemma default_realm_removed_by_array:
  assumes "cmd_remove_realm L (JObj [(''realm'', JArr [JStr ''default''])]) s = Inr (t, n, s')"
  shows "jget (ad_realms (am_auth s')) ''default'' = None \<and> ad_tokens (am_auth s') = ad_tokens (am_auth s) \<and> n = 0"
  using assms by (auto simp: cmd_remove_realm_def disconnectRealmSockets_def in_realm_def same_value_def nullish_def Let_def
      split: if_splits)

text \<open>Renaming a realm to the wildcard makes its \<open>admin\<close> tokens administrators of the whole broker.\<close>

lemma rename_to_wildcard_promotes:
  assumes "cmd_rename_realm (JObj [(''from'', JStr r), (''to'', JStr REALM_ALL)]) s = Inr s'"
    and "t \<in> set (ad_tokens (am_auth s))" "tk_realm t = JStr r" "tk_role t = JStr ''admin''" "tk_token t = JStr k" "k \<noteq> []"
  shows "k \<in> set (getAdminTokens (am_auth s'))"
proof -
  let ?t = "t\<lparr>tk_realm := JStr REALM_ALL\<rparr>"
  have "retoken (JStr r) (JStr REALM_ALL) t = ?t" using assms(3) by (simp add: retoken_def same_text)
  then have "?t \<in> retoken (JStr r) (JStr REALM_ALL) ` set (ad_tokens (am_auth s))" using assms(2) by force
  moreover have "ad_tokens (am_auth s') = map (retoken (JStr r) (JStr REALM_ALL)) (ad_tokens (am_auth s))"
    using assms(1) by (auto simp: cmd_rename_realm_def Let_def split: if_splits)
  ultimately have "?t \<in> set (ad_tokens (am_auth s'))" by simp
  moreover have "admin_entry ?t" using assms(4-6) by (simp add: admin_entry_def)
  ultimately show ?thesis using assms(5) by (force simp: getAdminTokens_def secret_texts_set)
qed

text \<open>A \<open>max_ttl\<close> without \<open>ephemeral_only\<close> does not limit the realms that the token creates.\<close>

lemma max_ttl_alone_unchecked:
  "\<not> mg_ephemeral_only g \<Longrightarrow> created_body d g body = created_body d (g\<lparr>mg_max_ttl := v\<rparr>) body"
  by (simp add: created_body_def)

end
