(* ===== verification/Auth_Requests.thy ===== *)
theory Auth_Requests
  imports Realm_Admin
begin

text \<open>
  Authorisation requests (\<open>lib/server.js\<close>): a client without credentials submits a token of its own, a
  manager polls for the next pending request and approves or rejects it, and an approval adds the token
  to those the broker accepts. One node: requests are objects in a list that an index by id and one by
  client refer to, so a reference is a position in that list. A decision is checked when it arrives and
  carried out when the claim of its nonce has come back; whatever happens in between is a step of its own.
\<close>

section \<open>State\<close>

datatype request_status = Pending | Approved | Rejected | Superseded

record auth_request =
  rq_id :: string
  rq_status :: request_status
  rq_realm :: string
  rq_role :: jsval
  rq_client_id :: string
  rq_client_name :: string
  rq_client_token :: string
  rq_challenge_response :: jsval
  rq_created_at :: int
  rq_socket :: string
  rq_superseded_at :: "int option"
  rq_decided_at :: "int option"
  rq_decision_reason :: jsval

text \<open>A decision on its way: the request that was looked up, if there was one, and the body of the decision.\<close>

record decision =
  dc_request :: "nat option"
  dc_body :: jsval

record auth_desk =
  dk_auth :: auth_doc
  dk_limits :: limits
  dk_nonces :: nonce_cache
  dk_requests :: "auth_request list"
  dk_by_id :: "(string, nat) jsmap"
  dk_by_client :: "(string, nat) jsmap"
  dk_flight :: "(nat, decision) jsmap"

datatype desk_out =
    RequestOk string
  | RequestFail nat
  | ProofFail proof_verdict
  | NextResult jsval
  | NotPending
  | DecideResult nat jsval
  | ApprovedTo string string string jsval
  | RejectedTo string string jsval
  | SettingsSaved

definition status_val :: "request_status \<Rightarrow> jsval" where
  "status_val st = JStr (case st of Pending \<Rightarrow> ''pending'' | Approved \<Rightarrow> ''approved'' | Rejected \<Rightarrow> ''rejected'' | Superseded \<Rightarrow> ''superseded'')"

definition time_val :: "int option \<Rightarrow> jsval" where
  "time_val t = (case t of None \<Rightarrow> JNull | Some n \<Rightarrow> JNum (Fin (of_int n)))"

text \<open>The token itself is not shown, only its hash.\<close>

definition publicAuthorizationRequest :: "(string \<Rightarrow> string) \<Rightarrow> auth_request option \<Rightarrow> jsval" where
  "publicAuthorizationRequest H q =
     (case q of
        None \<Rightarrow> JNull
      | Some r \<Rightarrow> JObj [(''request_id'', JStr (rq_id r)), (''status'', status_val (rq_status r)), (''realm'', JStr (rq_realm r)),
          (''role'', rq_role r), (''client_id'', JStr (rq_client_id r)), (''client_name'', JStr (rq_client_name r)),
          (''client_token_hash'', hashToken H (JStr (rq_client_token r))), (''challenge_response'', rq_challenge_response r),
          (''created_at'', time_val (Some (rq_created_at r))), (''decided_at'', time_val (rq_decided_at r)),
          (''decision_reason'', or_null (rq_decision_reason r))])"

section \<open>Submitting\<close>

definition authorizationClientKey :: "string \<Rightarrow> string \<Rightarrow> string" where
  "authorizationClientKey realm client = realm @ [char_of (10 :: nat)] @ client"

definition REQUEST_ROLES :: "string list" where
  "REQUEST_ROLES = [''producer'', ''consumer'', ''both'', ''manager'', ''admin'']"

definition request_role :: "jsval \<Rightarrow> jsval" where
  "request_role v = (if v \<in> JStr ` set REQUEST_ROLES then v else JStr ''both'')"

definition pending_requests :: "auth_desk \<Rightarrow> auth_request list" where
  "pending_requests s = filter (\<lambda>r. rq_status r = Pending) (dk_requests s)"

definition supersede :: "int \<Rightarrow> auth_request \<Rightarrow> auth_request" where
  "supersede now r = r\<lparr>rq_status := Superseded, rq_superseded_at := Some now\<rparr>"

definition client_key :: "auth_request \<Rightarrow> string" where
  "client_key q = authorizationClientKey (rq_realm q) (rq_client_id q)"

definition supersede_previous :: "auth_request \<Rightarrow> auth_desk \<Rightarrow> auth_desk" where
  "supersede_previous q s =
     (case jget (dk_by_client s) (client_key q) of
        None \<Rightarrow> s
      | Some i \<Rightarrow>
          if rq_status (dk_requests s ! i) \<noteq> Pending then s
          else s\<lparr>dk_requests := (dk_requests s)[i := supersede (rq_created_at q) (dk_requests s ! i)],
                 dk_by_id := jdel (rq_id (dk_requests s ! i)) (dk_by_id s)\<rparr>)"

definition saveLatestAuthorizationRequest :: "auth_request \<Rightarrow> auth_desk \<Rightarrow> auth_desk" where
  "saveLatestAuthorizationRequest q s =
     (let n = length (dk_requests s); s1 = supersede_previous q s
      in s1\<lparr>dk_by_client := jset (client_key q) n (dk_by_client s1), dk_requests := dk_requests s1 @ [q], dk_by_id := jset (rq_id q) n (dk_by_id s1)\<rparr>)"

definition typed_text :: "jsval \<Rightarrow> string" where
  "typed_text v = (case v of JStr t \<Rightarrow> t | _ \<Rightarrow> [])"

definition well_formed_request :: "jsval \<Rightarrow> bool" where
  "well_formed_request m \<longleftrightarrow> is_str (obj_get m ''realm'') \<and> is_str (obj_get m ''client_id'')
     \<and> is_str (obj_get m ''client_token'') \<and> is_str (obj_get m ''client_name'')"

definition new_request :: "int \<Rightarrow> jsval \<Rightarrow> string \<Rightarrow> string \<Rightarrow> auth_request" where
  "new_request now m i sock =
     \<lparr>rq_id = i, rq_status = Pending, rq_realm = typed_text (obj_get m ''realm''), rq_role = request_role (obj_get m ''role''),
      rq_client_id = typed_text (obj_get m ''client_id''), rq_client_name = typed_text (obj_get m ''client_name''),
      rq_client_token = typed_text (obj_get m ''client_token''),
      rq_challenge_response = or_null (js_or (obj_get m ''challenge_response'') (obj_get m ''challengeResponse'')),
      rq_created_at = now, rq_socket = sock, rq_superseded_at = None, rq_decided_at = None, rq_decision_reason = JUndef\<rparr>"

text \<open>The cap on pending requests; \<open>raw\<close> is the rate-limit document.\<close>

definition too_many_pending :: "int \<Rightarrow> jsval \<Rightarrow> auth_desk \<Rightarrow> bool \<times> limits" where
  "too_many_pending now raw s =
     (let (on, l1) = limits_enabled now raw (dk_limits s) in
      if \<not> on then (False, l1)
      else (let (m, l2) = limits_value now raw None ''max_pending_authorization_requests'' l1
            in (is_finite m \<and> num_le m (Fin (of_nat (length (pending_requests s)))), l2)))"

text \<open>\<open>m\<close> is \<open>None\<close> when a text payload is no JSON; \<open>i\<close> is the fresh id.\<close>

definition authorization_request ::
  "int \<Rightarrow> jsval \<Rightarrow> jsval option \<Rightarrow> string \<Rightarrow> string \<Rightarrow> auth_desk \<Rightarrow> desk_out list \<times> auth_desk" where
  "authorization_request now raw m i sock s =
     (case m of
        None \<Rightarrow> ([RequestFail 400], s)
      | Some b \<Rightarrow>
          if \<not> well_formed_request b then ([RequestFail 400], s)
          else (let (full, l) = too_many_pending now raw s; s1 = s\<lparr>dk_limits := l\<rparr> in
                if full then ([RequestFail 429], s1)
                else ([RequestOk i], saveLatestAuthorizationRequest (new_request now b i sock) s1)))"

section \<open>Polling\<close>

definition nextPendingAuthorizationRequest :: "jsval \<Rightarrow> auth_request list \<Rightarrow> auth_request option" where
  "nextPendingAuthorizationRequest body qs =
     (let realm = obj_get body ''realm'' in
      find (\<lambda>r. rq_status r = Pending \<and> \<not> (truthy realm \<and> JStr (rq_realm r) \<noteq> realm)) qs)"

definition signed_by_realm ::
  "proof_check \<Rightarrow> (string \<Rightarrow> string) \<Rightarrow> auth_doc \<Rightarrow> int \<Rightarrow> string \<Rightarrow> string \<Rightarrow> jsval \<Rightarrow> manager_proof option \<Rightarrow> bool" where
  "signed_by_realm vap H d now realm action body pf \<longleftrightarrow>
     (case pf of None \<Rightarrow> False | Some p \<Rightarrow> verifyProofWithSecrets vap (realm_manager_secrets H now d realm) action body p now)"

definition signed_by_admin :: "proof_check \<Rightarrow> auth_doc \<Rightarrow> int \<Rightarrow> string \<Rightarrow> jsval \<Rightarrow> manager_proof option \<Rightarrow> bool" where
  "signed_by_admin vap d now action body pf \<longleftrightarrow>
     (case pf of None \<Rightarrow> False | Some p \<Rightarrow> verifyProofWithSecrets vap (getAdminTokens d) action body p now)"

definition use_nonce :: "int \<Rightarrow> manager_proof option \<Rightarrow> nonce_cache \<Rightarrow> nonce_cache" where
  "use_nonce now pf c = (case pf of None \<Rightarrow> c | Some p \<Rightarrow> markManagerProofUsed now p c)"

text \<open>\<open>realm\<close> is the realm whose manager may sign, if any.\<close>

definition verify_manager ::
  "proof_check \<Rightarrow> (string \<Rightarrow> string) \<Rightarrow> auth_doc \<Rightarrow> int \<Rightarrow> string \<Rightarrow> string option \<Rightarrow> jsval \<Rightarrow> manager_proof option \<Rightarrow> nonce_cache
     \<Rightarrow> proof_verdict \<times> nonce_cache" where
  "verify_manager vap H d now action realm body pf c0 =
     (let (v, c) = validateManagerProofEnvelope now pf c0 in
      if v \<noteq> ProofOk then (v, c)
      else if signed_by_admin vap d now action body pf then (ProofOk, use_nonce now pf c)
      else (case realm of
              None \<Rightarrow> (ProofInvalid, c)
            | Some r \<Rightarrow> if signed_by_realm vap H d now r action body pf then (ProofOk, use_nonce now pf c) else (ProofInvalid, c)))"

definition verifyAuthorizationNextProof ::
  "proof_check \<Rightarrow> (string \<Rightarrow> string) \<Rightarrow> auth_doc \<Rightarrow> int \<Rightarrow> jsval \<Rightarrow> manager_proof option \<Rightarrow> nonce_cache \<Rightarrow> proof_verdict \<times> nonce_cache" where
  "verifyAuthorizationNextProof vap H d now body =
     verify_manager vap H d now ''AUTHORIZATION_NEXT''
       (if truthy (obj_get body ''realm'') then Some (to_string (obj_get body ''realm'')) else None) body"

definition authorization_next ::
  "proof_check \<Rightarrow> (string \<Rightarrow> string) \<Rightarrow> int \<Rightarrow> bool \<Rightarrow> jsval \<Rightarrow> manager_proof option \<Rightarrow> auth_desk \<Rightarrow> desk_out list \<times> auth_desk" where
  "authorization_next vap H now claimed body pf s =
     (let (v, c) = verifyAuthorizationNextProof vap H (dk_auth s) now body pf (dk_nonces s); s1 = s\<lparr>dk_nonces := c\<rparr> in
      if v \<noteq> ProofOk then ([ProofFail v], s1)
      else if \<not> claimed then ([ProofFail ProofReplayed], s1)
      else ([NextResult (publicAuthorizationRequest H (nextPendingAuthorizationRequest body (dk_requests s)))], s1))"

section \<open>Deciding\<close>

definition looked_up :: "auth_desk \<Rightarrow> jsval \<Rightarrow> nat option" where
  "looked_up s body = jget (dk_by_id s) (to_string (obj_get body ''request_id''))"

definition is_pending :: "auth_desk \<Rightarrow> nat \<Rightarrow> bool" where
  "is_pending s n \<longleftrightarrow> rq_status (dk_requests s ! n) = Pending"

definition verifyAuthorizationDecisionProof ::
  "proof_check \<Rightarrow> (string \<Rightarrow> string) \<Rightarrow> auth_desk \<Rightarrow> int \<Rightarrow> jsval \<Rightarrow> manager_proof option \<Rightarrow> nat option \<Rightarrow> proof_verdict \<times> nonce_cache" where
  "verifyAuthorizationDecisionProof vap H s now body pf request =
     verify_manager vap H (dk_auth s) now ''AUTHORIZATION_DECIDE''
       (case request of None \<Rightarrow> None | Some n \<Rightarrow> if is_pending s n then Some (rq_realm (dk_requests s ! n)) else None) body pf (dk_nonces s)"

text \<open>The first half of AUTHORIZATION_DECIDE; \<open>t\<close> names the claim that is now awaited.\<close>

definition decide_arrives ::
  "proof_check \<Rightarrow> (string \<Rightarrow> string) \<Rightarrow> int \<Rightarrow> nat \<Rightarrow> jsval \<Rightarrow> manager_proof option \<Rightarrow> auth_desk \<Rightarrow> desk_out list \<times> auth_desk" where
  "decide_arrives vap H now t body pf s =
     (let q = looked_up s body; (v, c) = verifyAuthorizationDecisionProof vap H s now body pf q; s1 = s\<lparr>dk_nonces := c\<rparr> in
      if v \<noteq> ProofOk then ([ProofFail v], s1)
      else ([], s1\<lparr>dk_flight := jset t \<lparr>dc_request = q, dc_body = body\<rparr> (dk_flight s1)\<rparr>))"

text \<open>A token that is already there, under whatever realm, is left as it is.\<close>

definition addRuntimeAuthToken :: "client_token \<Rightarrow> auth_doc \<Rightarrow> auth_doc" where
  "addRuntimeAuthToken tk d =
     (if \<exists>x \<in> set (ad_tokens d). tk_token x = tk_token tk then d else d\<lparr>ad_tokens := ad_tokens d @ [tk]\<rparr>)"

definition approved_token :: "auth_request \<Rightarrow> client_token" where
  "approved_token r = \<lparr>tk_token = JStr (rq_client_token r), tk_realm = JStr (rq_realm r), tk_role = js_or (rq_role r) (JStr ''both''),
     tk_client_id = JStr (rq_client_id r), tk_client_name = JStr (rq_client_name r), tk_approved_at = time_val (rq_decided_at r)\<rparr>"

definition decided :: "int \<Rightarrow> jsval \<Rightarrow> auth_request \<Rightarrow> auth_request" where
  "decided now body r =
     (let ok = truthy (obj_get body ''approved'') in
      r\<lparr>rq_status := (if ok then Approved else Rejected), rq_decided_at := Some now, rq_decision_reason := or_null (obj_get body ''reason''),
        rq_role := (if ok then js_or (js_or (obj_get body ''role'') (rq_role r)) (JStr ''both'') else rq_role r)\<rparr>)"

definition carry_out :: "(string \<Rightarrow> string) \<Rightarrow> int \<Rightarrow> nat \<Rightarrow> jsval \<Rightarrow> auth_desk \<Rightarrow> desk_out list \<times> auth_desk" where
  "carry_out H now n body s =
     (let r = decided now body (dk_requests s ! n); s1 = s\<lparr>dk_requests := (dk_requests s)[n := r]\<rparr>;
          result = DecideResult n (publicAuthorizationRequest H (Some r))
      in if truthy (obj_get body ''approved'')
         then ([SettingsSaved, ApprovedTo (rq_socket r) (rq_id r) (rq_realm r) (rq_role r), result],
               s1\<lparr>dk_auth := addRuntimeAuthToken (approved_token r) (dk_auth s1)\<rparr>)
         else ([RejectedTo (rq_socket r) (rq_id r) (rq_decision_reason r), result], s1))"

text \<open>The second half: the claim \<open>t\<close> has come back.\<close>

definition claim_returns :: "(string \<Rightarrow> string) \<Rightarrow> int \<Rightarrow> nat \<Rightarrow> bool \<Rightarrow> auth_desk \<Rightarrow> desk_out list \<times> auth_desk" where
  "claim_returns H now t claimed s =
     (case jget (dk_flight s) t of
        None \<Rightarrow> ([], s)
      | Some dc \<Rightarrow>
          (let s1 = s\<lparr>dk_flight := jdel t (dk_flight s)\<rparr> in
           if \<not> claimed then ([ProofFail ProofReplayed], s1)
           else (case dc_request dc of
                   None \<Rightarrow> ([NotPending], s1)
                 | Some n \<Rightarrow> if is_pending s n then carry_out H now n (dc_body dc) s1 else ([NotPending], s1))))"

section \<open>Runs\<close>

text \<open>\<open>Configure\<close> stands for everything else that changes the authorisation document.\<close>

datatype desk_event =
    Submit int jsval "jsval option" string string
  | Poll int bool jsval "manager_proof option"
  | Decide int nat jsval "manager_proof option"
  | Claimed int nat bool
  | Configure auth_doc

fun desk_step :: "proof_check \<Rightarrow> (string \<Rightarrow> string) \<Rightarrow> desk_event \<Rightarrow> auth_desk \<Rightarrow> desk_out list \<times> auth_desk" where
  "desk_step vap H (Submit now raw m i sock) s = authorization_request now raw m i sock s"
| "desk_step vap H (Poll now claimed body pf) s = authorization_next vap H now claimed body pf s"
| "desk_step vap H (Decide now t body pf) s = decide_arrives vap H now t body pf s"
| "desk_step vap H (Claimed now t claimed) s = claim_returns H now t claimed s"
| "desk_step vap H (Configure d) s = ([], s\<lparr>dk_auth := d\<rparr>)"

fun desk_run :: "proof_check \<Rightarrow> (string \<Rightarrow> string) \<Rightarrow> desk_event list \<Rightarrow> auth_desk \<Rightarrow> desk_out list \<times> auth_desk" where
  "desk_run vap H [] s = ([], s)"
| "desk_run vap H (e # es) s = (let (o1, s1) = desk_step vap H e s; (o2, s2) = desk_run vap H es s1 in (o1 @ o2, s2))"

definition desk_start :: "auth_doc \<Rightarrow> auth_desk" where
  "desk_start d = \<lparr>dk_auth = d, dk_limits = limits_new 0, dk_nonces = nonce_cache_new None 0, dk_requests = [], dk_by_id = [],
     dk_by_client = [], dk_flight = []\<rparr>"

section \<open>References\<close>

text \<open>Every reference points to a request, and the index by id to one with that id.\<close>

definition id_refs :: "(string \<times> nat) list \<Rightarrow> auth_request list \<Rightarrow> bool" where
  "id_refs ids qs \<longleftrightarrow> (\<forall>p \<in> set ids. snd p < length qs \<and> rq_id (qs ! snd p) = fst p)"

definition below :: "nat \<Rightarrow> (string \<times> nat) list \<Rightarrow> bool" where
  "below len m \<longleftrightarrow> (\<forall>p \<in> set m. snd p < len)"

definition flight_in :: "nat \<Rightarrow> (nat \<times> decision) list \<Rightarrow> bool" where
  "flight_in len fl \<longleftrightarrow> (\<forall>p \<in> set fl. \<forall>n. dc_request (snd p) = Some n \<longrightarrow> n < len)"

definition desk_refs :: "auth_desk \<Rightarrow> bool" where
  "desk_refs s \<longleftrightarrow> id_refs (dk_by_id s) (dk_requests s) \<and> below (length (dk_requests s)) (dk_by_client s)
     \<and> flight_in (length (dk_requests s)) (dk_flight s)"

lemma flight_in_update: "flight_in len fl \<Longrightarrow> \<forall>n. dc_request dc = Some n \<longrightarrow> n < len \<Longrightarrow> flight_in len (jset t dc fl)"
  unfolding flight_in_def using set_jset_subset [of t dc fl] by fastforce

lemma flight_in_delete: "flight_in len fl \<Longrightarrow> flight_in len (jdel t fl)"
  by (fastforce simp: flight_in_def set_jdel)

lemma flight_in_more: "flight_in len fl \<Longrightarrow> len \<le> len' \<Longrightarrow> flight_in len' fl"
  unfolding flight_in_def using less_le_trans by blast

lemma below_more: "below len m \<Longrightarrow> len \<le> len' \<Longrightarrow> below len' m"
  unfolding below_def using less_le_trans by blast

lemma below_update: "below len m \<Longrightarrow> below (Suc len) (jset k len m)"
  unfolding below_def using set_jset_subset [of k len m] by fastforce

lemma id_refs_update: "id_refs ids qs \<Longrightarrow> id_refs (jset (rq_id q) (length qs) ids) (qs @ [q])"
  unfolding id_refs_def using set_jset_subset [of "rq_id q" "length qs" ids] by (fastforce simp: nth_append)

text \<open>What never changes in a request.\<close>

definition core :: "auth_request \<Rightarrow> string \<times> string \<times> string \<times> string" where
  "core r = (rq_id r, rq_realm r, rq_client_token r, rq_client_id r)"

lemma core_simps [simp]: "core (supersede now r) = core r" "core (decided now body r) = core r"
  by (simp_all add: core_def supersede_def decided_def Let_def)

lemma core_id: "core r = core r' \<Longrightarrow> rq_id r = rq_id r'"
  by (simp add: core_def)

text \<open>A step from \<open>s\<close> to \<open>s'\<close> keeps every request at its place.\<close>

definition grows :: "auth_desk \<Rightarrow> auth_desk \<Rightarrow> bool" where
  "grows s s' \<longleftrightarrow> length (dk_requests s) \<le> length (dk_requests s')
     \<and> (\<forall>n < length (dk_requests s). core (dk_requests s' ! n) = core (dk_requests s ! n))"

lemma grows_same: "dk_requests s' = dk_requests s \<Longrightarrow> grows s s'"
  by (simp add: grows_def)

lemma grows_update:
  assumes "dk_requests s' = (dk_requests s)[n := r]" "core r = core (dk_requests s ! n)" shows "grows s s'"
  unfolding grows_def
proof (intro conjI allI impI)
  fix m assume "m < length (dk_requests s)"
  with assms show "core (dk_requests s' ! m) = core (dk_requests s ! m)" by (cases "m = n") simp_all
qed (simp add: assms)

lemma grows_append: "grows s s1 \<Longrightarrow> dk_requests s' = dk_requests s1 @ [q] \<Longrightarrow> grows s s'"
  by (auto simp: grows_def nth_append)

lemma supersede_previous_simps:
  "grows s (supersede_previous q s)" "length (dk_requests (supersede_previous q s)) = length (dk_requests s)"
  "dk_flight (supersede_previous q s) = dk_flight s" "dk_auth (supersede_previous q s) = dk_auth s"
  "dk_by_client (supersede_previous q s) = dk_by_client s" "set (dk_by_id (supersede_previous q s)) \<subseteq> set (dk_by_id s)"
proof -
  show "grows s (supersede_previous q s)"
    by (cases "jget (dk_by_client s) (client_key q)") (auto simp: supersede_previous_def grows_same intro: grows_update)
qed (auto simp: supersede_previous_def set_jdel split: option.splits)

lemma save_grows: "grows s (saveLatestAuthorizationRequest q s)"
  by (rule grows_append [OF supersede_previous_simps(1)]) (simp add: saveLatestAuthorizationRequest_def Let_def)

lemma save_simps [simp]:
  "dk_flight (saveLatestAuthorizationRequest q s) = dk_flight s" "dk_auth (saveLatestAuthorizationRequest q s) = dk_auth s"
  "dk_requests (saveLatestAuthorizationRequest q s) = dk_requests (supersede_previous q s) @ [q]"
  by (simp_all add: saveLatestAuthorizationRequest_def supersede_previous_simps Let_def)

lemma nth_id: "grows s s' \<Longrightarrow> n < length (dk_requests s) \<Longrightarrow> n < length (dk_requests s') \<and> rq_id (dk_requests s' ! n) = rq_id (dk_requests s ! n)"
  by (auto simp: grows_def core_def)

lemma id_refs_grow:
  assumes ids: "id_refs (dk_by_id s) (dk_requests s)" and g: "grows s s'" and sub: "set ids' \<subseteq> set (dk_by_id s)"
  shows "id_refs ids' (dk_requests s')"
  unfolding id_refs_def
proof
  fix p assume "p \<in> set ids'"
  with sub ids have "snd p < length (dk_requests s)" "rq_id (dk_requests s ! snd p) = fst p" by (auto simp: id_refs_def)
  with nth_id [OF g] show "snd p < length (dk_requests s') \<and> rq_id (dk_requests s' ! snd p) = fst p" by auto
qed

lemma refs_grow:
  assumes r: "desk_refs s" and g: "grows s s'" and ids: "set (dk_by_id s') \<subseteq> set (dk_by_id s)" and c: "dk_by_client s' = dk_by_client s"
    and fl: "flight_in (length (dk_requests s)) (dk_flight s')"
  shows "desk_refs s'"
proof -
  have len: "length (dk_requests s) \<le> length (dk_requests s')" using g by (simp add: grows_def)
  from r have "id_refs (dk_by_id s') (dk_requests s')" by (intro id_refs_grow [OF _ g ids]) (simp add: desk_refs_def)
  moreover have "below (length (dk_requests s')) (dk_by_client s')" using r by (auto simp: desk_refs_def c intro: below_more [OF _ len])
  moreover have "flight_in (length (dk_requests s')) (dk_flight s')" by (rule flight_in_more [OF fl len])
  ultimately show ?thesis by (simp add: desk_refs_def)
qed

lemma save_refs: assumes r: "desk_refs s" shows "desk_refs (saveLatestAuthorizationRequest q s)"
proof -
  let ?s1 = "supersede_previous q s"
  have "flight_in (length (dk_requests s)) (dk_flight ?s1)" using r by (simp add: desk_refs_def supersede_previous_simps)
  then have s1: "desk_refs ?s1"
    by (rule refs_grow [OF r supersede_previous_simps(1,6,5)])
  have len: "length (dk_requests ?s1) = length (dk_requests s)" by (rule supersede_previous_simps(2))
  from s1 have "id_refs (dk_by_id ?s1) (dk_requests ?s1)" "below (length (dk_requests s)) (dk_by_client ?s1)"
    "flight_in (length (dk_requests s)) (dk_flight ?s1)" by (simp_all add: desk_refs_def len)
  then show ?thesis
    using id_refs_update [of "dk_by_id ?s1" "dk_requests ?s1" q] below_update [of "length (dk_requests s)" "dk_by_client ?s1"]
      flight_in_more [of "length (dk_requests s)" "dk_flight ?s1" "Suc (length (dk_requests s))"]
    by (simp add: desk_refs_def saveLatestAuthorizationRequest_def Let_def len)
qed

lemma jget_refs: "desk_refs s \<Longrightarrow> jget (dk_by_id s) i = Some n \<Longrightarrow> n < length (dk_requests s) \<and> rq_id (dk_requests s ! n) = i"
  by (auto simp: desk_refs_def id_refs_def dest!: map_of_SomeD)

lemma jget_flight: "desk_refs s \<Longrightarrow> jget (dk_flight s) t = Some dc \<Longrightarrow> dc_request dc = Some n \<Longrightarrow> n < length (dk_requests s)"
  unfolding desk_refs_def flight_in_def by (metis map_of_SomeD snd_conv)

lemma carry_out_simps:
  "grows s (snd (carry_out H now n body s))" "dk_by_id (snd (carry_out H now n body s)) = dk_by_id s"
  "dk_by_client (snd (carry_out H now n body s)) = dk_by_client s" "dk_flight (snd (carry_out H now n body s)) = dk_flight s"
  "dk_requests (snd (carry_out H now n body s)) = (dk_requests s)[n := decided now body (dk_requests s ! n)]"
proof -
  show "dk_requests (snd (carry_out H now n body s)) = (dk_requests s)[n := decided now body (dk_requests s ! n)]"
    by (simp add: carry_out_def Let_def)
  then show "grows s (snd (carry_out H now n body s))" by (rule grows_update) simp
qed (simp_all add: carry_out_def Let_def)

lemma step_grows: "grows s (snd (desk_step vap H e s))"
proof (cases e)
  case (Submit now raw m i sock)
  have g: "grows (s\<lparr>dk_limits := l\<rparr>) s' \<Longrightarrow> grows s s'" for l s' by (simp add: grows_def)
  show ?thesis
    by (auto simp: Submit authorization_request_def Let_def grows_same split_beta split: option.splits intro: g [OF save_grows])
next
  case (Claimed now t claimed)
  have g: "grows (s\<lparr>dk_flight := l\<rparr>) s' \<Longrightarrow> grows s s'" for l s' by (simp add: grows_def)
  show ?thesis
    by (auto simp: Claimed claim_returns_def Let_def grows_same split: option.splits intro: g [OF carry_out_simps(1)])
qed (simp_all add: authorization_next_def decide_arrives_def Let_def split_beta grows_same)

lemma step_refs:
  assumes r: "desk_refs s" shows "desk_refs (snd (desk_step vap H e s))"
proof (cases e)
  case (Submit now raw m i sock)
  have l: "desk_refs (s\<lparr>dk_limits := l\<rparr>)" for l using r by (simp add: desk_refs_def)
  show ?thesis
    by (auto simp: Submit authorization_request_def Let_def split_beta r l split: option.splits intro: save_refs)
next
  case (Decide now t body pf)
  have "flight_in (length (dk_requests s)) (jset t \<lparr>dc_request = looked_up s body, dc_body = body\<rparr> (dk_flight s))"
    using r jget_refs [OF r] by (intro flight_in_update) (auto simp: desk_refs_def looked_up_def)
  with r show ?thesis by (auto simp: Decide decide_arrives_def Let_def split_beta desk_refs_def)
next
  case (Claimed now t claimed)
  define s1 where "s1 = s\<lparr>dk_flight := jdel t (dk_flight s)\<rparr>"
  have s1: "desk_refs s1" using r by (simp add: s1_def desk_refs_def flight_in_delete)
  have c: "desk_refs (snd (carry_out H now n body s1))" for n body
  proof (rule refs_grow [OF s1 carry_out_simps(1)])
    show "flight_in (length (dk_requests s1)) (dk_flight (snd (carry_out H now n body s1)))"
      using s1 by (simp add: carry_out_simps desk_refs_def)
  qed (simp_all add: carry_out_simps)
  from r s1 c show ?thesis by (simp add: Claimed claim_returns_def Let_def s1_def [symmetric] split: option.split)
qed (use r in \<open>simp_all add: authorization_next_def Let_def split_beta desk_refs_def\<close>)

section \<open>Where a token comes from\<close>

lemma desk_run_append:
  "snd (desk_run vap H (es @ fs) s) = snd (desk_run vap H fs (snd (desk_run vap H es s)))"
  by (induction es arbitrary: s) (simp_all add: split_beta Let_def)

lemma desk_start_refs: "desk_refs (desk_start d)"
  by (simp add: desk_start_def desk_refs_def id_refs_def below_def flight_in_def)

lemma desk_run_refs: "desk_refs s \<Longrightarrow> desk_refs (snd (desk_run vap H es s))"
  by (induction es arbitrary: s) (simp_all add: split_beta Let_def step_refs)

abbreviation desk_after :: "proof_check \<Rightarrow> (string \<Rightarrow> string) \<Rightarrow> auth_doc \<Rightarrow> desk_event list \<Rightarrow> auth_desk" where
  "desk_after vap H d evs \<equiv> snd (desk_run vap H evs (desk_start d))"

text \<open>A submission with this id, realm, token and client is among the events.\<close>

definition submitted :: "desk_event list \<Rightarrow> string \<times> string \<times> string \<times> string \<Rightarrow> bool" where
  "submitted evs c \<longleftrightarrow> (case c of (i, realm, token, client) \<Rightarrow>
     \<exists>now raw b sock. Submit now raw (Some b) i sock \<in> set evs \<and> obj_get b ''realm'' = JStr realm
       \<and> obj_get b ''client_token'' = JStr token \<and> obj_get b ''client_id'' = JStr client)"

text \<open>
  A decision is among the events that a global administrator signed or the manager of the request's
  realm, with the keys in force when it arrived, on a request that had been submitted before.
\<close>

definition signed_decision ::
  "proof_check \<Rightarrow> (string \<Rightarrow> string) \<Rightarrow> auth_doc \<Rightarrow> desk_event list \<Rightarrow> jsval \<Rightarrow> string \<times> string \<times> string \<times> string \<Rightarrow> bool" where
  "signed_decision vap H d evs body c \<longleftrightarrow>
     (\<exists>pre now t pf post. evs = pre @ Decide now t body pf # post
        \<and> fst c = to_string (obj_get body ''request_id'') \<and> submitted pre c
        \<and> (signed_by_admin vap (dk_auth (desk_after vap H d pre)) now ''AUTHORIZATION_DECIDE'' body pf
           \<or> signed_by_realm vap H (dk_auth (desk_after vap H d pre)) now (fst (snd c)) ''AUTHORIZATION_DECIDE'' body pf))"

lemma submitted_later: "submitted evs c \<Longrightarrow> submitted (evs @ fs) c"
  by (cases c) (auto simp: submitted_def; blast)

lemma signed_later: "signed_decision vap H d evs body c \<Longrightarrow> signed_decision vap H d (evs @ fs) body c"
  unfolding signed_decision_def by (metis append.assoc append_Cons)

definition token_of_core :: "client_token \<Rightarrow> string \<times> string \<times> string \<times> string \<Rightarrow> bool" where
  "token_of_core tk c \<longleftrightarrow> (case c of (i, realm, token, client) \<Rightarrow>
     tk_realm tk = JStr realm \<and> tk_token tk = JStr token \<and> tk_client_id tk = JStr client)"

definition configured_token :: "auth_doc \<Rightarrow> desk_event list \<Rightarrow> client_token \<Rightarrow> bool" where
  "configured_token d evs tk \<longleftrightarrow> tk \<in> set (ad_tokens d) \<or> (\<exists>d'. Configure d' \<in> set evs \<and> tk \<in> set (ad_tokens d'))"

definition approved_by_manager :: "proof_check \<Rightarrow> (string \<Rightarrow> string) \<Rightarrow> auth_doc \<Rightarrow> desk_event list \<Rightarrow> client_token \<Rightarrow> bool" where
  "approved_by_manager vap H d evs tk \<longleftrightarrow>
     (\<exists>body c. signed_decision vap H d evs body c \<and> truthy (obj_get body ''approved'') \<and> token_of_core tk c)"

definition desk_inv :: "proof_check \<Rightarrow> (string \<Rightarrow> string) \<Rightarrow> auth_doc \<Rightarrow> desk_event list \<Rightarrow> auth_desk \<Rightarrow> bool" where
  "desk_inv vap H d evs s \<longleftrightarrow>
     (\<forall>n < length (dk_requests s). submitted evs (core (dk_requests s ! n)))
     \<and> (\<forall>p \<in> set (dk_flight s). \<forall>n. dc_request (snd p) = Some n \<longrightarrow> signed_decision vap H d evs (dc_body (snd p)) (core (dk_requests s ! n)))
     \<and> (\<forall>tk \<in> set (ad_tokens (dk_auth s)). configured_token d evs tk \<or> approved_by_manager vap H d evs tk)"

lemma desk_invD:
  assumes "desk_inv vap H d evs s"
  shows "n < length (dk_requests s) \<Longrightarrow> submitted evs (core (dk_requests s ! n))"
    and "p \<in> set (dk_flight s) \<Longrightarrow> dc_request (snd p) = Some n \<Longrightarrow> signed_decision vap H d evs (dc_body (snd p)) (core (dk_requests s ! n))"
    and "tk \<in> set (ad_tokens (dk_auth s)) \<Longrightarrow> configured_token d evs tk \<or> approved_by_manager vap H d evs tk"
  using assms by (auto simp: desk_inv_def)

lemma later_token:
  "configured_token d evs tk \<or> approved_by_manager vap H d evs tk \<Longrightarrow> configured_token d (evs @ fs) tk \<or> approved_by_manager vap H d (evs @ fs) tk"
  unfolding configured_token_def approved_by_manager_def using signed_later by fastforce

text \<open>How a step may change the parts that the invariant reads.\<close>

lemma desk_inv_step:
  assumes inv: "desk_inv vap H d evs s" and refs: "desk_refs s" and g: "grows s s'"
    and new: "\<forall>n < length (dk_requests s'). length (dk_requests s) \<le> n \<longrightarrow> submitted (evs @ [e]) (core (dk_requests s' ! n))"
    and fl: "\<forall>p \<in> set (dk_flight s'). p \<in> set (dk_flight s) \<or>
      (\<forall>n. dc_request (snd p) = Some n \<longrightarrow> n < length (dk_requests s) \<and> signed_decision vap H d (evs @ [e]) (dc_body (snd p)) (core (dk_requests s ! n)))"
    and tok: "\<forall>tk \<in> set (ad_tokens (dk_auth s')). tk \<in> set (ad_tokens (dk_auth s)) \<or> configured_token d (evs @ [e]) tk \<or> approved_by_manager vap H d (evs @ [e]) tk"
  shows "desk_inv vap H d (evs @ [e]) s'"
proof -
  have same: "n < length (dk_requests s) \<Longrightarrow> core (dk_requests s' ! n) = core (dk_requests s ! n)" for n using g by (simp add: grows_def)
  show ?thesis
    unfolding desk_inv_def
  proof (intro conjI allI impI ballI)
    fix n assume "n < length (dk_requests s')"
    with new show "submitted (evs @ [e]) (core (dk_requests s' ! n))"
      by (cases "n < length (dk_requests s)") (simp_all add: same submitted_later [OF desk_invD(1) [OF inv]])
  next
    fix p n assume p: "p \<in> set (dk_flight s')" "dc_request (snd p) = Some n"
    show "signed_decision vap H d (evs @ [e]) (dc_body (snd p)) (core (dk_requests s' ! n))"
    proof (cases "p \<in> set (dk_flight s)")
      case True
      with refs p have "n < length (dk_requests s)" by (simp add: desk_refs_def flight_in_def)
      with desk_invD(2) [OF inv True p(2)] show ?thesis by (simp add: same signed_later)
    next
      case False
      with fl p show ?thesis by (auto simp: same)
    qed
  next
    fix tk assume "tk \<in> set (ad_tokens (dk_auth s'))"
    with tok show "configured_token d (evs @ [e]) tk \<or> approved_by_manager vap H d (evs @ [e]) tk"
      using later_token [OF desk_invD(3) [OF inv]] by blast
  qed
qed

lemma verify_manager_ok:
  "verify_manager vap H d now action realm body pf c0 = (ProofOk, c) \<Longrightarrow>
   signed_by_admin vap d now action body pf \<or> (\<exists>r. realm = Some r \<and> signed_by_realm vap H d now r action body pf)"
  by (auto simp: verify_manager_def Let_def split_beta split: if_splits option.splits)

lemma submit_inv:
  assumes inv: "desk_inv vap H d evs s" and refs: "desk_refs s" and e: "e = Submit now raw m i sock"
  shows "desk_inv vap H d (evs @ [e]) (snd (desk_step vap H e s))"
proof (rule desk_inv_step [OF inv refs step_grows])
  have req: "dk_requests (snd (desk_step vap H e s)) = dk_requests s
     \<or> (\<exists>b l. m = Some b \<and> well_formed_request b \<and> dk_requests (snd (desk_step vap H e s)) =
          dk_requests (supersede_previous (new_request now b i sock) (s\<lparr>dk_limits := l\<rparr>)) @ [new_request now b i sock])"
    by (auto simp: e authorization_request_def Let_def split_beta split: option.splits)
  have "submitted (evs @ [e]) (core (new_request now b i sock))" if "m = Some b" "well_formed_request b" for b
    using that unfolding submitted_def core_def e
    by (cases "obj_get b ''realm''"; cases "obj_get b ''client_id''"; cases "obj_get b ''client_token''")
      (auto simp: well_formed_request_def new_request_def typed_text_def)
  with req show "\<forall>n < length (dk_requests (snd (desk_step vap H e s))). length (dk_requests s) \<le> n \<longrightarrow>
      submitted (evs @ [e]) (core (dk_requests (snd (desk_step vap H e s)) ! n))"
    by (auto simp: nth_append supersede_previous_simps)
qed (auto simp: e authorization_request_def Let_def split_beta split: option.splits)

lemma decide_inv:
  assumes inv: "desk_inv vap H d evs s" and refs: "desk_refs s" and e: "e = Decide now t body pf" and s: "s = desk_after vap H d evs"
  shows "desk_inv vap H d (evs @ [e]) (snd (desk_step vap H e s))"
proof (rule desk_inv_step [OF inv refs step_grows])
  show "\<forall>p \<in> set (dk_flight (snd (desk_step vap H e s))). p \<in> set (dk_flight s) \<or>
      (\<forall>n. dc_request (snd p) = Some n \<longrightarrow> n < length (dk_requests s) \<and> signed_decision vap H d (evs @ [e]) (dc_body (snd p)) (core (dk_requests s ! n)))"
  proof (intro ballI, rule disjCI [THEN disj_commute [THEN iffD1]], intro allI impI)
    fix p n assume p: "p \<in> set (dk_flight (snd (desk_step vap H e s)))" and new: "p \<notin> set (dk_flight s)" and n: "dc_request (snd p) = Some n"
    from p new obtain c where v: "verifyAuthorizationDecisionProof vap H s now body pf (looked_up s body) = (ProofOk, c)"
      and dc: "p = (t, \<lparr>dc_request = looked_up s body, dc_body = body\<rparr>)"
      using set_jset_subset [of t "\<lparr>dc_request = looked_up s body, dc_body = body\<rparr>" "dk_flight s"]
      by (auto simp: e decide_arrives_def Let_def split_beta prod_eq_iff split: if_splits)
    from n dc have look: "looked_up s body = Some n" by simp
    from jget_refs [OF refs] look have id: "n < length (dk_requests s)" "rq_id (dk_requests s ! n) = to_string (obj_get body ''request_id'')"
      by (auto simp: looked_up_def)
    from v look have "signed_by_admin vap (dk_auth s) now ''AUTHORIZATION_DECIDE'' body pf
        \<or> signed_by_realm vap H (dk_auth s) now (rq_realm (dk_requests s ! n)) ''AUTHORIZATION_DECIDE'' body pf"
      unfolding verifyAuthorizationDecisionProof_def by (auto dest!: verify_manager_ok split: if_splits)
    then have "signed_decision vap H d (evs @ [e]) body (core (dk_requests s ! n))"
      unfolding signed_decision_def e
      by (intro exI [of _ evs] exI [of _ now] exI [of _ t] exI [of _ pf] exI [of _ "[]"])
        (simp add: id desk_invD(1) [OF inv id(1)] s [symmetric], simp add: core_def id)
    with id dc show "n < length (dk_requests s) \<and> signed_decision vap H d (evs @ [e]) (dc_body (snd p)) (core (dk_requests s ! n))" by simp
  qed
qed (auto simp: e decide_arrives_def Let_def split_beta)

lemma claimed_inv:
  assumes inv: "desk_inv vap H d evs s" and refs: "desk_refs s" and e: "e = Claimed now t claimed"
  shows "desk_inv vap H d (evs @ [e]) (snd (desk_step vap H e s))"
proof (rule desk_inv_step [OF inv refs step_grows])
  show "\<forall>n < length (dk_requests (snd (desk_step vap H e s))). length (dk_requests s) \<le> n \<longrightarrow>
      submitted (evs @ [e]) (core (dk_requests (snd (desk_step vap H e s)) ! n))"
    by (auto simp: e claim_returns_def Let_def carry_out_simps split: option.splits)
  show "\<forall>p \<in> set (dk_flight (snd (desk_step vap H e s))). p \<in> set (dk_flight s) \<or>
      (\<forall>n. dc_request (snd p) = Some n \<longrightarrow> n < length (dk_requests s) \<and> signed_decision vap H d (evs @ [e]) (dc_body (snd p)) (core (dk_requests s ! n)))"
    by (auto simp: e claim_returns_def Let_def carry_out_simps set_jdel split: option.splits)
  show "\<forall>tk \<in> set (ad_tokens (dk_auth (snd (desk_step vap H e s)))). tk \<in> set (ad_tokens (dk_auth s))
      \<or> configured_token d (evs @ [e]) tk \<or> approved_by_manager vap H d (evs @ [e]) tk"
  proof (intro ballI disjCI)
    fix tk assume tk: "tk \<in> set (ad_tokens (dk_auth (snd (desk_step vap H e s))))"
      and no: "\<not> (configured_token d (evs @ [e]) tk \<or> approved_by_manager vap H d (evs @ [e]) tk)"
    show "tk \<in> set (ad_tokens (dk_auth s))"
    proof (rule ccontr)
      assume new: "tk \<notin> set (ad_tokens (dk_auth s))"
      with tk obtain dc n where dc: "jget (dk_flight s) t = Some dc" "dc_request dc = Some n" "truthy (obj_get (dc_body dc) ''approved'')"
        and tok: "tk = approved_token (decided now (dc_body dc) (dk_requests s ! n))"
        by (auto simp: e claim_returns_def Let_def carry_out_def addRuntimeAuthToken_def split: option.splits if_splits)
      have "signed_decision vap H d evs (dc_body dc) (core (dk_requests s ! n))"
        using desk_invD(2) [OF inv map_of_SomeD [OF dc(1)]] dc(2) by simp
      then have "signed_decision vap H d (evs @ [e]) (dc_body dc) (core (dk_requests s ! n))" by (rule signed_later)
      moreover have "token_of_core tk (core (dk_requests s ! n))"
        by (simp add: tok token_of_core_def core_def approved_token_def decided_def Let_def)
      ultimately have "approved_by_manager vap H d (evs @ [e]) tk" using dc(3) unfolding approved_by_manager_def by blast
      with no show False by simp
    qed
  qed
qed

lemma desk_inv_run: "desk_inv vap H d evs (desk_after vap H d evs)"
proof (induction evs rule: rev_induct)
  case Nil
  show ?case by (simp add: desk_inv_def desk_start_def configured_token_def)
next
  case (snoc e evs)
  let ?s = "desk_after vap H d evs"
  have refs: "desk_refs ?s" by (rule desk_run_refs [OF desk_start_refs])
  have after: "desk_after vap H d (evs @ [e]) = snd (desk_step vap H e ?s)" by (simp add: desk_run_append split_beta Let_def)
  show ?case
    unfolding after
  proof (cases e)
    case (Poll now claimed body pf)
    show "desk_inv vap H d (evs @ [e]) (snd (desk_step vap H e ?s))"
      by (rule desk_inv_step [OF snoc refs step_grows]) (auto simp: Poll authorization_next_def Let_def split_beta)
  next
    case (Configure d')
    show "desk_inv vap H d (evs @ [e]) (snd (desk_step vap H e ?s))"
      by (rule desk_inv_step [OF snoc refs step_grows]) (auto simp: Configure configured_token_def)
  qed (erule submit_inv [OF snoc refs] decide_inv [OF snoc refs _ refl] claimed_inv [OF snoc refs])+
qed

text \<open>
  C14. A client token has a history: over any sequence of submissions, polls, decisions, claims and
  changes of the settings, every token the broker accepts was configured, or it was approved by a
  decision that a global administrator signed or the manager of the realm the token is for, with the
  keys in force when the decision arrived; and before that the client itself had submitted a request
  with that id, realm and token.
\<close>

theorem tokens_approved:
  assumes "tk \<in> set (ad_tokens (dk_auth (desk_after vap H d evs)))"
  shows "configured_token d evs tk
    \<or> (\<exists>body i realm token client. truthy (obj_get body ''approved'')
         \<and> tk_realm tk = JStr realm \<and> tk_token tk = JStr token \<and> tk_client_id tk = JStr client
         \<and> signed_decision vap H d evs body (i, realm, token, client))"
proof -
  from desk_invD(3) [OF desk_inv_run assms] show ?thesis
    unfolding approved_by_manager_def token_of_core_def by (auto split: prod.splits)
qed

definition bob_request :: jsval where
  "bob_request = JObj [(''realm'', JStr ''a:x''), (''client_id'', JStr ''bob''), (''client_token'', JStr ''secret''), (''client_name'', JStr ''Bob'')]"

definition bob_approval :: jsval where
  "bob_approval = JObj [(''request_id'', JStr ''r1''), (''approved'', JBool True)]"

definition bob_events :: "desk_event list" where
  "bob_events = [Submit 10 JUndef (Some bob_request) ''r1'' ''sock'', Decide 20 0 bob_approval (Some signed_k), Claimed 30 0 True]"

definition bob_token :: client_token where
  "bob_token = \<lparr>tk_token = JStr ''secret'', tk_realm = JStr ''a:x'', tk_role = JStr ''both'', tk_client_id = JStr ''bob'',
     tk_client_name = JStr ''Bob'', tk_approved_at = JNum (Fin 30)\<rparr>"

lemma bob_secrets: "realm_manager_secrets id now sample_doc ''a:x'' = [''k'']"
  by (simp add: realm_manager_secrets_def realm_at_def sample_doc_def short_lived_def no_realm_unfold getRealmManagerSecrets_def js_or_def
      normalizeRealmConfig_def normalize_key_def drop_previous_key_def drop_previous_manager_def raw_key_def Let_def)

lemma bob_submitted:
  "\<exists>l. snd (desk_step sample_key_check id (Submit 10 JUndef (Some bob_request) ''r1'' ''sock'') (desk_start sample_doc)) =
     (desk_start sample_doc)\<lparr>dk_limits := l, dk_requests := [new_request 10 bob_request ''r1'' ''sock''],
       dk_by_id := [(''r1'', 0)], dk_by_client := [(''a:x'' @ [char_of (10 :: nat)] @ ''bob'', 0)]\<rparr>"
  by (rule exI [of _ "(limits_new 0)\<lparr>configCache := Some (JBool False), configCacheAt := 10\<rparr>"])
    (simp add: authorization_request_def well_formed_request_def bob_request_def too_many_pending_def limits_enabled_def limits_config_def
      limits_new_def desk_start_def saveLatestAuthorizationRequest_def supersede_previous_def new_request_def client_key_def
      authorizationClientKey_def typed_text_def Let_def)

lemma bob_gets_token: "bob_token \<in> set (ad_tokens (dk_auth (desk_after sample_key_check id sample_doc bob_events)))"
proof -
  obtain l where l: "snd (desk_step sample_key_check id (Submit 10 JUndef (Some bob_request) ''r1'' ''sock'') (desk_start sample_doc)) =
     (desk_start sample_doc)\<lparr>dk_limits := l, dk_requests := [new_request 10 bob_request ''r1'' ''sock''],
       dk_by_id := [(''r1'', 0)], dk_by_client := [(''a:x'' @ [char_of (10 :: nat)] @ ''bob'', 0)]\<rparr>" (is "_ = ?s1")
    using bob_submitted by blast
  obtain c where "verifyAuthorizationDecisionProof sample_key_check id ?s1 20 bob_approval (Some signed_k) (Some 0) = (ProofOk, c)"
    by (simp add: verifyAuthorizationDecisionProof_def verify_manager_def validateManagerProofEnvelope_def nc_has_def nonce_cache_new_def
        desk_start_def is_pending_def new_request_def signed_k_def signed_by_admin_def signed_by_realm_def bob_request_def typed_text_def
        bob_secrets verifyProofWithSecrets_def sample_key_check_def nc_maybePrune_def nc_prune_def Let_def)
  then have d: "\<exists>c. snd (desk_step sample_key_check id (Decide 20 0 bob_approval (Some signed_k)) ?s1) =
      ?s1\<lparr>dk_nonces := c, dk_flight := [(0, \<lparr>dc_request = Some 0, dc_body = bob_approval\<rparr>)]\<rparr>"
    by (simp add: decide_arrives_def looked_up_def bob_approval_def desk_start_def)
  then obtain c' where d: "snd (desk_step sample_key_check id (Decide 20 0 bob_approval (Some signed_k)) ?s1) =
      ?s1\<lparr>dk_nonces := c', dk_flight := [(0, \<lparr>dc_request = Some 0, dc_body = bob_approval\<rparr>)]\<rparr>" (is "_ = ?s2") by blast
  have "dk_auth (snd (desk_step sample_key_check id (Claimed 30 0 True) ?s2)) = sample_doc\<lparr>ad_tokens := ad_tokens sample_doc @ [bob_token]\<rparr>"
    by (simp add: claim_returns_def is_pending_def new_request_def carry_out_def bob_approval_def bob_request_def addRuntimeAuthToken_def
        approved_token_def decided_def desk_start_def bob_token_def js_or_def time_val_def request_role_def REQUEST_ROLES_def typed_text_def
        sample_doc_def sample_client_token_def Let_def)
  moreover have "desk_after sample_key_check id sample_doc bob_events = snd (desk_step sample_key_check id (Claimed 30 0 True) ?s2)"
    unfolding bob_events_def desk_run.simps split_beta Let_def snd_conv l d by simp
  ultimately show ?thesis by simp
qed

theorem tokens_approved_witness:
  "\<exists>body i realm token client. tk_realm bob_token = JStr realm \<and> tk_token bob_token = JStr token
     \<and> signed_decision sample_key_check id sample_doc bob_events body (i, realm, token, client)"
proof -
  have "\<not> configured_token sample_doc bob_events bob_token"
    by (simp add: configured_token_def bob_events_def bob_token_def sample_doc_def sample_client_token_def)
  with tokens_approved [OF bob_gets_token] show ?thesis by blast
qed

section \<open>One decision for a request\<close>

definition decisions :: "nat \<Rightarrow> desk_out list \<Rightarrow> nat" where
  "decisions n os = length (filter (\<lambda>out. case out of DecideResult m _ \<Rightarrow> m = n | _ \<Rightarrow> False) os)"

definition undecided :: "nat \<Rightarrow> auth_desk \<Rightarrow> nat" where
  "undecided n s = (if n < length (dk_requests s) \<and> \<not> is_pending s n then 0 else 1)"

lemma decisions_append [simp]: "decisions n (os @ ps) = decisions n os + decisions n ps"
  by (simp add: decisions_def)

lemma undecided_le: "undecided n s \<le> 1"
  by (simp add: undecided_def)

lemma supersede_undecided: "undecided n (supersede_previous q s) \<le> undecided n s"
proof (cases "jget (dk_by_client s) (client_key q)")
  case (Some i)
  then show ?thesis
    by (cases "n = i") (auto simp: undecided_def is_pending_def supersede_previous_def supersede_def)
qed (simp add: supersede_previous_def)

lemma save_undecided: "undecided n (saveLatestAuthorizationRequest q s) \<le> undecided n s"
proof (cases "n < length (dk_requests s)")
  case True
  then have "undecided n (saveLatestAuthorizationRequest q s) = undecided n (supersede_previous q s)"
    by (simp add: undecided_def is_pending_def supersede_previous_simps nth_append)
  with supersede_undecided show ?thesis by simp
next
  case False
  then have "undecided n s = 1" by (simp add: undecided_def)
  then show ?thesis using undecided_le by simp
qed

lemma step_decisions:
  assumes refs: "desk_refs s" and step: "desk_step vap H e s = (os, s')"
  shows "decisions n os + undecided n s' \<le> undecided n s"
proof (cases e)
  case (Submit now raw m i sock)
  have same: "undecided n (s\<lparr>dk_limits := l\<rparr>) = undecided n s" for l by (simp add: undecided_def is_pending_def)
  from step show ?thesis
    using save_undecided [of n _ "s\<lparr>dk_limits := l\<rparr>" for l]
    by (auto simp: Submit authorization_request_def Let_def decisions_def same split: option.splits prod.splits if_splits)
next
  case (Claimed now t claimed)
  show ?thesis
  proof (cases "jget (dk_flight s) t")
    case None
    with step show ?thesis by (simp add: Claimed claim_returns_def decisions_def)
  next
    case (Some dc)
    define s1 where "s1 = s\<lparr>dk_flight := jdel t (dk_flight s)\<rparr>"
    have same: "undecided n s1 = undecided n s" by (simp add: s1_def undecided_def is_pending_def)
    consider "os \<in> {[ProofFail ProofReplayed], [NotPending]}" "s' = s1"
      | m where "dc_request dc = Some m" "is_pending s m" "(os, s') = carry_out H now m (dc_body dc) s1"
      using step Some by (auto simp: Claimed claim_returns_def Let_def s1_def split: option.splits if_splits)
    then show ?thesis
    proof cases
      case 1
      with same show ?thesis by (auto simp: decisions_def)
    next
      case 2
      have m: "m < length (dk_requests s)" by (rule jget_flight [OF refs Some 2(1)])
      have s': "dk_requests s' = (dk_requests s)[m := decided now (dc_body dc) (dk_requests s ! m)]"
        using carry_out_simps(5) [of H now m "dc_body dc" s1] 2(3) by (metis s1_def auth_desk.select_convs(4) auth_desk.surjective auth_desk.update_convs(7) snd_conv)
      have os: "decisions n os = (if m = n then 1 else 0)"
        using 2(3) by (auto simp: carry_out_def decisions_def Let_def split: if_splits)
      show ?thesis
        using 2(2) m by (cases "m = n") (auto simp: os s' undecided_def is_pending_def decided_def Let_def)
    qed
  qed
qed (use step in \<open>auto simp: authorization_next_def decide_arrives_def decisions_def undecided_def is_pending_def Let_def split: prod.splits if_splits\<close>)

lemma run_decisions: "desk_refs s \<Longrightarrow> decisions n (fst (desk_run vap H evs s)) \<le> undecided n s"
proof (induction evs arbitrary: s)
  case (Cons e evs)
  obtain os s1 where step: "desk_step vap H e s = (os, s1)" by fastforce
  have "desk_refs s1" using step_refs [OF Cons.prems, of vap H e] step by simp
  from Cons.IH [OF this] step_decisions [OF Cons.prems step, of n] step show ?case
    by (simp add: split_beta Let_def)
qed (simp add: decisions_def)

text \<open>
  C15. A request is decided at most once: however submissions, polls, decisions and their claims
  interleave, at most one decision on it is carried out, and a request that a later one of the same
  client superseded is never decided.
\<close>

theorem decided_at_most_once:
  "decisions n (fst (desk_run vap H evs (desk_start d))) \<le> 1"
  using run_decisions [OF desk_start_refs, of n vap H evs d] undecided_le by (rule order_trans)

section \<open>Requests are never dropped\<close>

text \<open>
  The cap counts the pending requests only. A client that submits again supersedes its own request, so
  under a cap of two it may go on for ever, and every request stays in the list.
\<close>

definition cap_two :: jsval where
  "cap_two = JObj [(''max_pending_authorization_requests'', JNum (Fin 2))]"

definition resubmit :: "nat \<Rightarrow> desk_event" where
  "resubmit k = Submit (int k) cap_two (Some bob_request) (show_nat k) ''sock''"

text \<open>Only the last request is pending, and it is the one the client's key refers to.\<close>

definition one_pending :: "nat \<Rightarrow> auth_desk \<Rightarrow> bool" where
  "one_pending n s \<longleftrightarrow> length (dk_requests s) = n \<and> (\<forall>m. Suc m < n \<longrightarrow> \<not> is_pending s m)
     \<and> jget (dk_by_client s) (client_key (new_request 0 bob_request [] [])) = (if n = 0 then None else Some (n - 1))
     \<and> cached cap_two (dk_limits s)"

lemma one_pending_length: "one_pending n s \<Longrightarrow> length (pending_requests s) \<le> 1"
proof -
  assume one: "one_pending n s"
  have "pending_requests s = map ((!) (dk_requests s)) (filter (is_pending s) [0..<n])"
    using one unfolding pending_requests_def one_pending_def is_pending_def
    by (metis (mono_tags, lifting) comp_def filter_cong filter_map map_nth)
  moreover have "filter (is_pending s) [0..<n] = filter (is_pending s) [n - 1..<n]"
  proof (cases n)
    case (Suc k)
    have "filter (is_pending s) [0..<k] = []" using one Suc by (simp add: one_pending_def)
    then show ?thesis by (simp add: Suc)
  qed simp
  then have "length (filter (is_pending s) [0..<n]) \<le> length [n - 1..<n]" by (simp only: length_filter_le)
  ultimately show ?thesis by (cases n) simp_all
qed

lemma cap_two_open:
  assumes c: "cached cap_two (dk_limits s)" and p: "length (pending_requests s) \<le> 1" and l: "too_many_pending now cap_two s = (full, l)"
  shows "\<not> full \<and> cached cap_two l"
proof -
  have conf: "fst (limits_config now cap_two L) = cap_two \<and> cached cap_two (snd (limits_config now cap_two L))" if "cached cap_two L" for L
  proof -
    have "fst (limits_config 0 cap_two (limits_new 0)) = cap_two" by (simp add: limits_config_def limits_new_def cap_two_def Let_def)
    with limits_config_cached [OF that, of now] show ?thesis by simp
  qed
  have v: "limit_value cap_two None ''max_pending_authorization_requests'' = Fin 2"
    by (simp add: limit_value_def cap_two_def js_or_def)
  have t: "truthy cap_two" by (simp add: cap_two_def)
  obtain L1 where L1: "limits_config now cap_two (dk_limits s) = (cap_two, L1)" "cached cap_two L1" using conf [OF c] by (metis prod.collapse)
  obtain L2 where L2: "limits_config now cap_two L1 = (cap_two, L2)" "cached cap_two L2" using conf [OF L1(2)] by (metis prod.collapse)
  have "\<not> 2 \<le> (of_nat (length (pending_requests s)) :: rat)" using p by simp
  with l L2(2) show ?thesis by (auto simp: too_many_pending_def limits_enabled_def limits_value_def L1(1) L2(1) v t)
qed

lemma resubmit_step:
  assumes one: "one_pending n s" shows "one_pending (Suc n) (snd (desk_step vap H (resubmit k) s))"
proof -
  obtain full l where fl: "too_many_pending (int k) cap_two s = (full, l)" by fastforce
  have c: "cached cap_two (dk_limits s)" using one by (simp add: one_pending_def)
  have open_: "\<not> full" "cached cap_two l" using cap_two_open [OF c one_pending_length [OF one] fl] by simp_all
  define q where "q = new_request (int k) bob_request (show_nat k) ''sock''"
  define s1 where "s1 = s\<lparr>dk_limits := l\<rparr>"
  have key: "client_key q = client_key (new_request 0 bob_request [] [])" by (simp add: q_def client_key_def new_request_def)
  have step: "snd (desk_step vap H (resubmit k) s) = saveLatestAuthorizationRequest q s1"
    using open_(1) by (simp add: resubmit_def authorization_request_def fl q_def s1_def well_formed_request_def bob_request_def)
  have len: "length (dk_requests s1) = n" using one by (simp add: one_pending_def s1_def)
  have settled: "\<not> is_pending (supersede_previous q s1) m" if "m < n" for m
  proof (cases "Suc m < n")
    case True
    then have "\<not> is_pending s1 m" using one by (simp add: one_pending_def s1_def is_pending_def)
    moreover have "undecided m (supersede_previous q s1) \<le> undecided m s1" by (rule supersede_undecided)
    ultimately show ?thesis using that len by (simp add: undecided_def supersede_previous_simps(2) split: if_splits)
  next
    case False
    with that have "jget (dk_by_client s1) (client_key q) = Some m" using one key by (auto simp: one_pending_def s1_def)
    with that len show ?thesis by (simp add: supersede_previous_def is_pending_def supersede_def)
  qed
  have lim: "dk_limits (saveLatestAuthorizationRequest q s1) = l"
    by (simp add: saveLatestAuthorizationRequest_def supersede_previous_def s1_def Let_def split: option.split)
  show ?thesis
    unfolding one_pending_def step
  proof (intro conjI allI impI)
    show "length (dk_requests (saveLatestAuthorizationRequest q s1)) = Suc n" by (simp add: supersede_previous_simps(2) len)
    show "cached cap_two (dk_limits (saveLatestAuthorizationRequest q s1))" using open_(2) by (simp add: lim)
    show "jget (dk_by_client (saveLatestAuthorizationRequest q s1)) (client_key (new_request 0 bob_request [] [])) = (if Suc n = 0 then None else Some (Suc n - 1))"
      by (simp add: saveLatestAuthorizationRequest_def Let_def key len)
    fix m assume "Suc m < Suc n"
    then show "\<not> is_pending (saveLatestAuthorizationRequest q s1) m"
      using settled [of m] by (simp add: is_pending_def nth_append supersede_previous_simps(2) len)
  qed
qed

lemma resubmissions_unbounded:
  "length (dk_requests (desk_after vap H d (map resubmit [0..<n]))) = n"
proof -
  have "one_pending n (desk_after vap H d (map resubmit [0..<n]))"
  proof (induction n)
    case 0
    show ?case by (simp add: one_pending_def desk_start_def limits_new_cached)
  next
    case (Suc n)
    from resubmit_step [OF Suc] show ?case by (simp add: desk_run_append split_beta Let_def)
  qed
  then show ?thesis by (simp add: one_pending_def)
qed

end
