(* ===== verification/Cluster_Shared.thy ===== *)
theory Cluster_Shared
  imports Auth_Requests Client_Directory "HOL-Library.Sublist"
begin

text \<open>
  What the nodes of a cluster share besides their settings (\<open>lib/cluster.js\<close> and its callers in
  \<open>lib/server.js\<close>): the nonces of manager proofs, claimed with SET NX PX; the directory of public keys; and
  the authorisation requests. The two documents are read and written back by separate commands, so two
  nodes may both start from the same document. Names that members of an object literal have are left aside.
\<close>

section \<open>Nonces\<close>

text \<open>SET NX PX at a time, and PEXPIRETIME, which tells until when a key is kept.\<close>

record 'r claim_server =
  cs_setnx :: "int \<Rightarrow> string \<Rightarrow> int \<Rightarrow> 'r \<Rightarrow> bool \<times> 'r"
  cs_until :: "string \<Rightarrow> 'r \<Rightarrow> int option"

definition keeps_claims :: "'r claim_server \<Rightarrow> bool" where
  "keeps_claims Q \<longleftrightarrow>
     (\<forall>t k n r. fst (cs_setnx Q t k n r) \<longrightarrow> cs_until Q k (snd (cs_setnx Q t k n r)) = Some (t + n))
     \<and> (\<forall>t k n r e. cs_until Q k r = Some e \<longrightarrow> t < e \<longrightarrow> \<not> fst (cs_setnx Q t k n r))
     \<and> (\<forall>t k k' n r e. cs_until Q k r = Some e \<longrightarrow> t < e \<longrightarrow> cs_until Q k (snd (cs_setnx Q t k' n r)) = Some e)"

definition NONCE_CLAIM_TTL_MS :: int where "NONCE_CLAIM_TTL_MS = 10 * 60 * 1000"

definition nonceKey :: "string \<Rightarrow> string \<Rightarrow> string" where
  "nonceKey px nonce = px @ '':nonce:'' @ nonce"

definition claimNonce :: "'r claim_server \<Rightarrow> string \<Rightarrow> int \<Rightarrow> string \<Rightarrow> int \<Rightarrow> 'r \<Rightarrow> bool \<times> 'r" where
  "claimNonce Q px now nonce ttl r =
     cs_setnx Q now (nonceKey px nonce) (if ttl = 0 then 10 * 60 * 1000 else ttl) r"

text \<open>Without a cluster, without a nonce and when Redis does not answer, the claim succeeds.\<close>

definition claimClusterNonce ::
  "'r claim_server \<Rightarrow> string \<Rightarrow> bool \<Rightarrow> bool \<Rightarrow> int \<Rightarrow> manager_proof option \<Rightarrow> 'r \<Rightarrow> bool \<times> 'r" where
  "claimClusterNonce Q px clustered answers now pf r =
     (case pf of
        None \<Rightarrow> (True, r)
      | Some p \<Rightarrow> if \<not> clustered \<or> mp_nonce p = [] \<or> \<not> answers then (True, r)
                  else claimNonce Q px now (mp_nonce p) NONCE_CLAIM_TTL_MS r)"

definition claim_guard :: "'r claim_server \<Rightarrow> string \<Rightarrow> int \<Rightarrow> string \<Rightarrow> 'r \<Rightarrow> bool \<times> 'r" where
  "claim_guard Q px t nonce r = claimNonce Q px t nonce NONCE_CLAIM_TTL_MS r"

interpretation claims: replay_guard "claim_guard Q px"
    "\<lambda>r n. map_option (\<lambda>e. e - NONCE_CLAIM_TTL_MS) (cs_until Q (nonceKey px n) r)"
    "\<lambda>_. NONCE_CLAIM_TTL_MS" "\<lambda>_. keeps_claims Q"
  for Q :: "'r claim_server" and px :: string
  by unfold_locales (auto simp: claim_guard_def claimNonce_def keeps_claims_def NONCE_CLAIM_TTL_MS_def)

text \<open>
  Attempts at the nodes of a cluster: each node checks the proof with its own replay cache, then claims the
  nonce, in the same instant.
\<close>

fun cluster_proofs ::
  "'r claim_server \<Rightarrow> string \<Rightarrow> proof_check \<Rightarrow> string list \<Rightarrow> (int \<times> string \<times> manager_attempt) list
     \<Rightarrow> (string \<Rightarrow> nonce_cache) \<Rightarrow> 'r \<Rightarrow> (int \<times> manager_attempt \<times> bool) list" where
  "cluster_proofs Q px vap admins [] caches r = []"
| "cluster_proofs Q px vap admins ((t, m, k) # qs) caches r =
     (let (ok, c) = manager_guard vap admins t k (caches m);
          (won, r') = (if ok then claimClusterNonce Q px True True t (Some (snd (snd k))) r else (False, r))
      in (t, k, won) # cluster_proofs Q px vap admins qs (caches(m := c)) r')"

text \<open>The claims these attempts make.\<close>

fun claims_made :: "proof_check \<Rightarrow> string list \<Rightarrow> (int \<times> string \<times> manager_attempt) list \<Rightarrow> (string \<Rightarrow> nonce_cache) \<Rightarrow> (int \<times> string) list" where
  "claims_made vap admins [] caches = []"
| "claims_made vap admins ((t, m, k) # qs) caches =
     (let (ok, c) = manager_guard vap admins t k (caches m); rest = claims_made vap admins qs (caches(m := c))
      in if ok then (t, mp_nonce (snd (snd k))) # rest else rest)"

lemma manager_guard_nonce: "fst (manager_guard vap admins t k c) \<Longrightarrow> mp_nonce (snd (snd k)) \<noteq> []"
  by (cases k) (auto simp: manager_guard_def verifyGlobal_cases split: if_splits)

lemma claims_made_times: "(t', n) \<in> set (claims_made vap admins qs caches) \<Longrightarrow> t' \<in> fst ` set qs"
proof (induction qs arbitrary: caches)
  case (Cons q qs)
  obtain t m k where q: "q = (t, m, k)" by (cases q)
  define cs where "cs = caches(m := snd (manager_guard vap admins t k (caches m)))"
  from Cons.IH [of cs] Cons.prems show ?case
    by (auto simp: q split_beta Let_def cs_def [symmetric] split: if_splits)
qed simp

lemma claims_made_sorted: "sorted (map fst qs) \<Longrightarrow> sorted (map fst (claims_made vap admins qs caches))"
proof (induction qs arbitrary: caches)
  case (Cons q qs)
  obtain t m k where q: "q = (t, m, k)" by (cases q)
  let ?caches = "caches(m := snd (manager_guard vap admins t k (caches m)))"
  have "t \<le> t'" if "(t', n) \<in> set (claims_made vap admins qs ?caches)" for t' n
    using claims_made_times [OF that] Cons.prems by (auto simp: q)
  with Cons.IH [of ?caches] Cons.prems show ?case by (fastforce simp: q split_beta Let_def)
qed simp

text \<open>The attempts accepted are among the claims that succeed.\<close>

lemma proofs_among_claims:
  "subseq (accepted_at k (cluster_proofs Q px vap admins qs caches r))
     (accepted_at (mp_nonce (snd (snd k))) (run_guard (claim_guard Q px) (claims_made vap admins qs caches) r))"
proof (induction qs arbitrary: caches r)
  case (Cons q qs)
  obtain t m k' where q: "q = (t, m, k')" by (cases q)
  obtain ok c where g: "manager_guard vap admins t k' (caches m) = (ok, c)" by fastforce
  define cs where "cs = caches(m := c)"
  show ?case
  proof (cases ok)
    case True
    with g manager_guard_nonce [of vap admins t k' "caches m"] have "mp_nonce (snd (snd k')) \<noteq> []" by simp
    then have cl: "claimClusterNonce Q px True True t (Some (snd (snd k'))) r = claim_guard Q px t (mp_nonce (snd (snd k'))) r"
      by (simp add: claimClusterNonce_def claim_guard_def)
    obtain won r' where w: "claim_guard Q px t (mp_nonce (snd (snd k'))) r = (won, r')" by fastforce
    from Cons.IH [of cs r'] show ?thesis
      by (auto simp: q g True cl w Let_def cs_def [symmetric] intro: list_emb_Cons)
  next
    case False
    with Cons.IH [of cs r] show ?thesis by (simp add: q g Let_def cs_def [symmetric])
  qed
qed simp

lemma cluster_accepted_verified:
  "t \<in> set (accepted_at (a, b, p) (cluster_proofs Q px vap admins qs caches r)) \<Longrightarrow>
   t \<in> fst ` set qs \<and> verifyProofWithSecrets vap admins a b p t"
proof (induction qs arbitrary: caches r)
  case (Cons q qs)
  obtain t1 m k' where q: "q = (t1, m, k')" by (cases q)
  from Cons show ?case
    using manager_guard_accepts [of vap admins t1 a b p "caches m"] by (auto simp: q split_beta Let_def split: if_splits)
qed simp

lemma subseq_pair: "sorted_wrt P ys \<Longrightarrow> subseq (x # x' # xs) ys \<Longrightarrow> P x x'"
proof (induction ys)
  case (Cons y ys)
  from Cons.prems(2) show ?case
  proof (cases "x = y")
    case True
    with Cons.prems show ?thesis by (auto dest: list_emb_set)
  next
    case False
    with Cons.prems(2) have "subseq (x # x' # xs) ys" by simp
    with Cons show ?thesis by simp
  qed
qed simp


text \<open>A server for the witness: until when each key is kept.\<close>

definition toy_claims :: "(string, int) jsmap claim_server" where
  "toy_claims = \<lparr>cs_setnx = (\<lambda>t k n r. if (case jget r k of None \<Rightarrow> False | Some e \<Rightarrow> t < e) then (False, r) else (True, jset k (t + n) r)),
     cs_until = (\<lambda>k r. jget r k)\<rparr>"

lemma toy_keeps_claims: "keeps_claims toy_claims"
  by (auto simp: keeps_claims_def toy_claims_def split: option.splits)

definition close_check :: proof_check where
  "close_check s a b q now \<longleftrightarrow> \<bar>now - mp_timestamp q\<bar> \<le> 5 * 60 * 1000"

definition sample_proof :: manager_proof where
  "sample_proof = \<lparr>mp_timestamp = 0, mp_nonce = ''n'', mp_signature = ''s''\<rparr>"

definition sample_attempt :: manager_attempt where
  "sample_attempt = (''A'', JNull, sample_proof)"


section \<open>Messages between nodes\<close>

text \<open>
  \<open>publishMessage\<close> and \<open>publishAuthDecision\<close> name the node that sends; \<open>onMessage\<close> and \<open>onAuthDecision\<close> pass on
  what other nodes sent.
\<close>

definition node_message :: "string \<Rightarrow> string \<Rightarrow> jsval \<Rightarrow> jsval" where
  "node_message me member v = JObj [(''node_id'', JStr me), (member, v)]"

definition peer_message :: "string \<Rightarrow> string \<Rightarrow> jsval \<Rightarrow> jsval option" where
  "peer_message me member m =
     (if \<not> truthy m \<or> obj_get m ''node_id'' = JStr me \<or> \<not> truthy (obj_get m member) then None else Some (obj_get m member))"

lemma relayed_to_others:
  assumes "member \<noteq> ''node_id''" "truthy v"
  shows "peer_message you member (node_message me member v) = (if you = me then None else Some v)"
  using assms by (auto simp: peer_message_def node_message_def)

section \<open>Public keys\<close>

type_synonym key_document = "(string, (string, jsval list) jsmap) jsmap"

text \<open>What a node answers a lookup with: the entries as they were sent.\<close>

type_synonym key_shelf = "(account, jsval list) jsmap"

definition entry_val :: "key_entry \<Rightarrow> jsval" where
  "entry_val e = JObj [(''key_id'', JStr (ke_id e)), (''alg'', JStr (ke_alg e)), (''public_key'', JStr (ke_key e)),
     (''updated_at'', JStr (ke_updated e))]"

definition mirrorKeyDirectoryToCluster :: "string \<Rightarrow> string \<Rightarrow> jsval list \<Rightarrow> key_document \<Rightarrow> key_document" where
  "mirrorKeyDirectoryToCluster realm i l doc =
     jset realm (jset i l (case jget doc realm of None \<Rightarrow> [] | Some ids \<Rightarrow> ids)) doc"

definition purgeRealmKeysFromCluster :: "string \<Rightarrow> key_document \<Rightarrow> key_document" where
  "purgeRealmKeysFromCluster realm doc = jdel realm doc"

definition renameRealmKeysInCluster :: "string \<Rightarrow> string \<Rightarrow> key_document \<Rightarrow> key_document" where
  "renameRealmKeysInCluster f t doc =
     (case jget doc f of
        None \<Rightarrow> doc
      | Some ids \<Rightarrow> jdel f (if jget doc t = None then jset t ids doc else doc))"

definition acceptable_entry :: "key_limits \<Rightarrow> jsval \<Rightarrow> bool" where
  "acceptable_entry L e \<longleftrightarrow>
     truthy e \<and> is_str (obj_get e ''public_key'') \<and> length (typed_text (obj_get e ''public_key'')) \<le> kl_max_public L
     \<and> is_str (obj_get e ''key_id'') \<and> length (typed_text (obj_get e ''key_id'')) \<le> kl_max_id L"

definition adopt_list :: "key_limits \<Rightarrow> jsval list \<Rightarrow> jsval list" where
  "adopt_list L l = take (kl_max_keys L) (filter (acceptable_entry L) l)"

definition adopt_realm :: "key_limits \<Rightarrow> string \<Rightarrow> (string, jsval list) jsmap \<Rightarrow> key_shelf \<Rightarrow> key_shelf" where
  "adopt_realm L realm ids shelf = fold (\<lambda>(i, l). jset (realm, i) (adopt_list L l)) ids shelf"

definition adoptClusterKeys :: "key_limits \<Rightarrow> key_document \<Rightarrow> key_shelf \<Rightarrow> key_shelf" where
  "adoptClusterKeys L doc shelf = fold (\<lambda>(realm, ids). adopt_realm L realm ids) doc shelf"

definition document_ok :: "key_document \<Rightarrow> bool" where
  "document_ok doc \<longleftrightarrow> wf_map doc \<and> (\<forall>p \<in> set doc. wf_map (snd p))"

lemma adopt_realm_get:
  "wf_map ids \<Longrightarrow> jget (adopt_realm L realm ids shelf) (r, i) =
     (if r = realm then (case jget ids i of None \<Rightarrow> jget shelf (r, i) | Some l \<Rightarrow> Some (adopt_list L l)) else jget shelf (r, i))"
proof (induction ids arbitrary: shelf)
  case (Cons p ids)
  obtain j l where p: "p = (j, l)" by (cases p)
  from Cons.prems have wf: "wf_map ids" and new: "jget ids j = None"
    by (auto simp: p wf_map_def map_of_eq_None_iff)
  with Cons.IH [OF wf, of "jset (realm, j) (adopt_list L l) shelf"] show ?case
    by (auto simp: p adopt_realm_def split: option.split)
qed (simp add: adopt_realm_def)

lemma adopt_get:
  "document_ok doc \<Longrightarrow> jget (adoptClusterKeys L doc shelf) (r, i) =
     (case jget doc r of
        None \<Rightarrow> jget shelf (r, i)
      | Some ids \<Rightarrow> (case jget ids i of None \<Rightarrow> jget shelf (r, i) | Some l \<Rightarrow> Some (adopt_list L l)))"
proof (induction doc arbitrary: shelf)
  case (Cons p doc)
  obtain realm ids where p: "p = (realm, ids)" by (cases p)
  from Cons.prems have wf: "document_ok doc" "wf_map ids" and new: "jget doc realm = None"
    by (auto simp: p document_ok_def wf_map_def map_of_eq_None_iff)
  with Cons.IH [OF wf(1), of "adopt_realm L realm ids shelf"] show ?case
    by (auto simp: p adoptClusterKeys_def adopt_realm_get split: option.split)
qed (simp add: adoptClusterKeys_def)

lemma document_ok_jset: "document_ok doc \<Longrightarrow> wf_map ids \<Longrightarrow> document_ok (jset realm ids doc)"
  using set_jset_subset [of realm ids doc] by (auto simp: document_ok_def)

lemma document_ok_get: "document_ok doc \<Longrightarrow> jget doc realm = Some ids \<Longrightarrow> wf_map ids"
  by (auto simp: document_ok_def dest!: map_of_SomeD)

lemma document_ok_mirror: "document_ok doc \<Longrightarrow> document_ok (mirrorKeyDirectoryToCluster realm i l doc)"
  unfolding mirrorKeyDirectoryToCluster_def
  by (intro document_ok_jset wf_map_jset) (auto intro: document_ok_get split: option.split)

lemma document_ok_jdel: "document_ok doc \<Longrightarrow> document_ok (jdel realm doc)"
  by (auto simp: document_ok_def set_jdel)

lemma document_ok_rename: "document_ok doc \<Longrightarrow> document_ok (renameRealmKeysInCluster f t doc)"
  by (auto simp: renameRealmKeysInCluster_def split: option.split intro!: document_ok_jdel document_ok_jset
      dest: document_ok_get)

lemma document_ok_purge: "document_ok doc \<Longrightarrow> document_ok (purgeRealmKeysFromCluster realm doc)"
  by (auto simp: document_ok_def purgeRealmKeysFromCluster_def set_jdel)

text \<open>Whatever the document holds, a node takes over no more than could have been published to it.\<close>

lemma adopted_bounded:
  assumes "document_ok doc" "jget (adoptClusterKeys L doc shelf) a = Some l" "jget shelf a \<noteq> Some l"
  shows "length l \<le> kl_max_keys L" "list_all (acceptable_entry L) l"
  using assms adopt_get [of doc L shelf "fst a" "snd a"]
  by (auto simp: adopt_list_def list_all_iff split: option.splits dest: in_set_takeD)

text \<open>Taking over only adds and replaces: the keys of a realm that was purged stay with the other nodes.\<close>

lemma purged_keys_stay:
  "document_ok doc \<Longrightarrow> jget (adoptClusterKeys L (purgeRealmKeysFromCluster realm doc) shelf) (realm, i) = jget shelf (realm, i)"
  by (simp add: adopt_get [OF document_ok_purge]) (simp add: purgeRealmKeysFromCluster_def)

lemma renamed_keys_stay:
  "document_ok doc \<Longrightarrow> f \<noteq> t \<Longrightarrow> jget (adoptClusterKeys L (renameRealmKeysInCluster f t doc) shelf) (f, i) = jget shelf (f, i)"
  by (simp add: adopt_get [OF document_ok_rename]) (auto simp: renameRealmKeysInCluster_def split: option.split)

lemma adopt_own: "list_all (entry_ok L) es \<Longrightarrow> length es \<le> kl_max_keys L \<Longrightarrow> adopt_list L (map entry_val es) = map entry_val es"
proof -
  assume ok: "list_all (entry_ok L) es" and n: "length es \<le> kl_max_keys L"
  have "filter (acceptable_entry L) (map entry_val es) = map entry_val es"
    using ok by (auto simp: filter_id_conv acceptable_entry_def entry_val_def entry_ok_def list_all_iff typed_text_def)
  with n show ?thesis by (simp add: adopt_list_def)
qed


definition sample_key_limits :: key_limits where
  "sample_key_limits = \<lparr>kl_max_public = 10, kl_max_id = 10, kl_max_keys = 2\<rparr>"

definition sample_key_body :: jsval where
  "sample_key_body = JObj [(''identity'', JStr ''ann''), (''public_key'', JStr ''k1''), (''alg'', JStr ''a'')]"


section \<open>Authorisation requests\<close>

record shared_request =
  sq_request :: auth_request
  sq_node :: "string option"

type_synonym request_document = "(string, shared_request) jsmap"

definition sq_pending :: "shared_request \<Rightarrow> bool" where
  "sq_pending q \<longleftrightarrow> rq_status (sq_request q) = Pending"

definition same_client :: "shared_request \<Rightarrow> shared_request \<Rightarrow> bool" where
  "same_client q x \<longleftrightarrow> rq_realm (sq_request x) = rq_realm (sq_request q) \<and> rq_client_id (sq_request x) = rq_client_id (sq_request q)"

definition supersede_shared :: "shared_request \<Rightarrow> shared_request \<Rightarrow> shared_request" where
  "supersede_shared q x =
     (if sq_pending x \<and> same_client q x then x\<lparr>sq_request := supersede (rq_created_at (sq_request q)) (sq_request x)\<rparr> else x)"

definition mirrorAuthRequestToCluster :: "shared_request \<Rightarrow> request_document \<Rightarrow> request_document" where
  "mirrorAuthRequestToCluster q doc = jset (rq_id (sq_request q)) q (map (\<lambda>(i, x). (i, supersede_shared q x)) doc)"

text \<open>The first of the pending requests in the order of their creation.\<close>

definition asked_for :: "jsval \<Rightarrow> shared_request \<Rightarrow> bool" where
  "asked_for body x \<longleftrightarrow> sq_pending x
     \<and> \<not> (truthy (obj_get body ''realm'') \<and> JStr (rq_realm (sq_request x)) \<noteq> obj_get body ''realm'')"

definition sq_created :: "shared_request \<Rightarrow> int" where
  "sq_created x = rq_created_at (sq_request x)"

definition findNextAuthorizationRequest :: "jsval \<Rightarrow> request_document \<Rightarrow> shared_request option" where
  "findNextAuthorizationRequest body doc =
     (case sort_key sq_created (filter (asked_for body) (map snd doc)) of [] \<Rightarrow> None | x # xs \<Rightarrow> Some x)"

definition lookupAuthorizationRequest :: "request_document \<Rightarrow> (string, shared_request) jsmap \<Rightarrow> string \<Rightarrow> shared_request option" where
  "lookupAuthorizationRequest doc local i = (case jget doc i of None \<Rightarrow> jget local i | Some q \<Rightarrow> Some q)"

definition isLocalRequester :: "string \<Rightarrow> shared_request \<Rightarrow> bool" where
  "isLocalRequester me q \<longleftrightarrow> (case sq_node q of None \<Rightarrow> True | Some n \<Rightarrow> n = [] \<or> n = me)"

text \<open>\<open>persistAuthDecisionToCluster\<close>: the document it writes back.\<close>

definition persisted_decision :: "shared_request \<Rightarrow> request_document \<Rightarrow> request_document" where
  "persisted_decision q doc = jset (rq_id (sq_request q)) q doc"

definition syncLocalAuthRequest :: "shared_request \<Rightarrow> (string, shared_request) jsmap \<Rightarrow> (string, shared_request) jsmap" where
  "syncLocalAuthRequest q local =
     (let r = sq_request q in
      case jget local (rq_id r) of
        None \<Rightarrow> local
      | Some x \<Rightarrow> jset (rq_id r) (x\<lparr>sq_request := (sq_request x)\<lparr>rq_status := rq_status r, rq_decided_at := rq_decided_at r,
                    rq_decision_reason := rq_decision_reason r, rq_role := rq_role r\<rparr>\<rparr>) local)"

definition decision_notice :: "shared_request \<Rightarrow> desk_out list" where
  "decision_notice q =
     (let r = sq_request q in
      case rq_status r of
        Approved \<Rightarrow> [ApprovedTo (rq_socket r) (rq_id r) (rq_realm r) (rq_role r)]
      | Rejected \<Rightarrow> [RejectedTo (rq_socket r) (rq_id r) (rq_decision_reason r)]
      | _ \<Rightarrow> [])"

definition handlePeerAuthDecision ::
  "string \<Rightarrow> shared_request \<Rightarrow> (string, shared_request) jsmap \<Rightarrow> desk_out list \<times> (string, shared_request) jsmap" where
  "handlePeerAuthDecision me q local =
     (if sq_node q \<noteq> Some me \<or> rq_socket (sq_request q) = [] then ([], local)
      else (decision_notice q, syncLocalAuthRequest q local))"

text \<open>
  The second half of AUTHORIZATION_DECIDE on node \<open>me\<close>: the claim has come back, and the request is the one
  that was looked up before. The result tells which request is to be written back.
\<close>

definition cluster_decide ::
  "(string \<Rightarrow> string) \<Rightarrow> string \<Rightarrow> int \<Rightarrow> bool \<Rightarrow> jsval \<Rightarrow> shared_request option \<Rightarrow> auth_doc
     \<Rightarrow> desk_out list \<times> shared_request option \<times> auth_doc" where
  "cluster_decide H me now claimed body q d =
     (if \<not> claimed then ([ProofFail ProofReplayed], None, d)
      else case q of
        None \<Rightarrow> ([NotPending], None, d)
      | Some x \<Rightarrow>
          if \<not> sq_pending x then ([NotPending], None, d)
          else let r = decided now body (sq_request x); x' = x\<lparr>sq_request := r\<rparr>;
                   notice = (if isLocalRequester me x' then decision_notice x' else []);
                   result = [DecideResult 0 (publicAuthorizationRequest H (Some r))]
               in if truthy (obj_get body ''approved'')
                  then (SettingsSaved # notice @ result, Some x', addRuntimeAuthToken (approved_token r) d)
                  else (notice @ result, Some x', d))"

subsection \<open>The shared document over time\<close>

text \<open>
  Each node reads the document, and later writes back what it made of it. \<open>rc_flight\<close> holds what is still to be
  written, \<open>rc_looked\<close> the requests that decisions have looked up, \<open>rc_decided\<close> those decided and not yet
  written, \<open>rc_auth\<close> the authorisation document of each node.
\<close>

record request_cluster =
  rc_doc :: request_document
  rc_flight :: "(nat, request_document) jsmap"
  rc_looked :: "(nat, shared_request option) jsmap"
  rc_decided :: "(nat, shared_request) jsmap"
  rc_auth :: "string \<Rightarrow> auth_doc"

datatype request_event =
    MirrorRead nat shared_request
  | LookUp nat string "(string, shared_request) jsmap"
  | DecideNow nat string int bool jsval
  | DecisionRead nat
  | WriteBack nat

fun request_step :: "(string \<Rightarrow> string) \<Rightarrow> request_event \<Rightarrow> request_cluster \<Rightarrow> desk_out list \<times> request_cluster" where
  "request_step H (MirrorRead t q) s = ([], s\<lparr>rc_flight := jset t (mirrorAuthRequestToCluster q (rc_doc s)) (rc_flight s)\<rparr>)"
| "request_step H (LookUp t i local) s = ([], s\<lparr>rc_looked := jset t (lookupAuthorizationRequest (rc_doc s) local i) (rc_looked s)\<rparr>)"
| "request_step H (DecideNow t me now claimed body) s =
     (case jget (rc_looked s) t of
        None \<Rightarrow> ([], s)
      | Some q \<Rightarrow>
          (let (out, w, d) = cluster_decide H me now claimed body q (rc_auth s me); s1 = s\<lparr>rc_looked := jdel t (rc_looked s), rc_auth := (rc_auth s)(me := d)\<rparr>
           in (out, case w of None \<Rightarrow> s1 | Some x \<Rightarrow> s1\<lparr>rc_decided := jset t x (rc_decided s1)\<rparr>)))"
| "request_step H (DecisionRead t) s =
     (case jget (rc_decided s) t of
        None \<Rightarrow> ([], s)
      | Some q \<Rightarrow> ([], s\<lparr>rc_decided := jdel t (rc_decided s), rc_flight := jset t (persisted_decision q (rc_doc s)) (rc_flight s)\<rparr>))"
| "request_step H (WriteBack t) s =
     (case jget (rc_flight s) t of
        None \<Rightarrow> ([], s)
      | Some doc \<Rightarrow> ([], s\<lparr>rc_flight := jdel t (rc_flight s), rc_doc := doc\<rparr>))"

fun request_run :: "(string \<Rightarrow> string) \<Rightarrow> request_event list \<Rightarrow> request_cluster \<Rightarrow> desk_out list \<times> request_cluster" where
  "request_run H [] s = ([], s)"
| "request_run H (e # es) s = (let (o1, s1) = request_step H e s; (o2, s2) = request_run H es s1 in (o1 @ o2, s2))"

definition request_start :: "(string \<Rightarrow> auth_doc) \<Rightarrow> request_cluster" where
  "request_start A = \<lparr>rc_doc = [], rc_flight = [], rc_looked = [], rc_decided = [], rc_auth = A\<rparr>"

subsection \<open>Invariants\<close>

text \<open>At most one request of a client is pending.\<close>

definition single_pending :: "request_document \<Rightarrow> bool" where
  "single_pending doc \<longleftrightarrow> (\<forall>i j x y. jget doc i = Some x \<longrightarrow> jget doc j = Some y \<longrightarrow> sq_pending x \<longrightarrow> sq_pending y
     \<longrightarrow> same_client x y \<longrightarrow> i = j)"

lemma same_client_refl [simp]: "same_client x x"
  by (simp add: same_client_def)

lemma same_client_sym: "same_client x y \<Longrightarrow> same_client y x"
  by (simp add: same_client_def)

lemma supersede_shared_client [simp]:
  "same_client (supersede_shared q x) y = same_client x y" "same_client y (supersede_shared q x) = same_client y x"
  by (simp_all add: supersede_shared_def same_client_def supersede_def)

lemma supersede_shared_pending: "sq_pending (supersede_shared q x) \<longleftrightarrow> sq_pending x \<and> \<not> same_client q x"
  by (auto simp: supersede_shared_def sq_pending_def supersede_def)

lemma mirror_get:
  "jget (mirrorAuthRequestToCluster q doc) i = (if i = rq_id (sq_request q) then Some q else map_option (supersede_shared q) (jget doc i))"
  by (simp add: mirrorAuthRequestToCluster_def map_of_map)

lemma single_pending_mirror: "single_pending doc \<Longrightarrow> single_pending (mirrorAuthRequestToCluster q doc)"
  unfolding single_pending_def mirror_get
  by (auto simp: supersede_shared_pending split: if_splits dest: same_client_sym)

lemma single_pending_decided: "single_pending doc \<Longrightarrow> \<not> sq_pending q \<Longrightarrow> single_pending (persisted_decision q doc)"
  by (auto simp: single_pending_def persisted_decision_def)

definition shared_invar :: "request_cluster \<Rightarrow> bool" where
  "shared_invar s \<longleftrightarrow> single_pending (rc_doc s) \<and> (\<forall>p \<in> set (rc_flight s). single_pending (snd p))
     \<and> (\<forall>p \<in> set (rc_decided s). \<not> sq_pending (snd p))"

lemma jset_all: "\<forall>p \<in> set m. P (snd p) \<Longrightarrow> P v \<Longrightarrow> \<forall>p \<in> set (jset k v m). P (snd p)"
  using set_jset_subset [of k v m] by fastforce

lemma jdel_all: "\<forall>p \<in> set m. P (snd p) \<Longrightarrow> \<forall>p \<in> set (jdel k m). P (snd p)"
  by (simp add: set_jdel)

lemma jget_all: "\<forall>p \<in> set m. P (snd p) \<Longrightarrow> jget m k = Some v \<Longrightarrow> P v"
  by (fastforce dest: map_of_SomeD)

lemma cluster_decide_cases:
  obtains (refused) out where "cluster_decide H me now claimed body q d = (out, None, d)" "out = [ProofFail ProofReplayed] \<or> out = [NotPending]"
  | (decided) x out d' where "q = Some x" "sq_pending x" "claimed"
      "cluster_decide H me now claimed body q d = (out, Some (x\<lparr>sq_request := decided now body (sq_request x)\<rparr>), d')"
      "d' = (if truthy (obj_get body ''approved'') then addRuntimeAuthToken (approved_token (decided now body (sq_request x))) d else d)"
proof (cases "\<exists>x. q = Some x \<and> sq_pending x \<and> claimed")
  case True
  then obtain x where x: "q = Some x" "sq_pending x" "claimed" by blast
  show ?thesis
    by (rule decided [OF x, of "fst (cluster_decide H me now claimed body q d)"]) (simp_all add: x cluster_decide_def Let_def)
next
  case False
  show ?thesis
  proof (cases claimed)
    case True
    with False show ?thesis by (intro refused [of "[NotPending]"]) (auto simp: cluster_decide_def split: option.split)
  next
    case False
    then show ?thesis by (intro refused [of "[ProofFail ProofReplayed]"]) (simp_all add: cluster_decide_def)
  qed
qed

lemma decided_not_pending: "\<not> sq_pending (x\<lparr>sq_request := decided now body r\<rparr>)"
  by (simp add: sq_pending_def decided_def Let_def)

lemma shared_invar_step:
  assumes inv: "shared_invar s" shows "shared_invar (snd (request_step H e s))"
proof (cases e)
  case (MirrorRead t q)
  with inv show ?thesis
    using jset_all [of "rc_flight s" single_pending "mirrorAuthRequestToCluster q (rc_doc s)" t]
    by (simp add: shared_invar_def single_pending_mirror)
next
  case (LookUp t i l)
  with inv show ?thesis by (simp add: shared_invar_def)
next
  case (DecideNow t me now claimed body)
  show ?thesis
  proof (cases "jget (rc_looked s) t")
    case (Some q)
    show ?thesis
    proof (cases rule: cluster_decide_cases [of H me now claimed body q "rc_auth s me"])
      case refused
      with inv Some DecideNow show ?thesis by (simp add: shared_invar_def)
    next
      case (decided x out d')
      have "\<forall>p \<in> set (jset t (x\<lparr>sq_request := decided now body (sq_request x)\<rparr>) (rc_decided s)). \<not> sq_pending (snd p)"
        using inv by (intro jset_all) (simp_all add: shared_invar_def decided_not_pending)
      with inv Some DecideNow decided(4) show ?thesis by (simp add: shared_invar_def)
    qed
  qed (use inv DecideNow in simp)
next
  case (DecisionRead t)
  show ?thesis
  proof (cases "jget (rc_decided s) t")
    case (Some q)
    have "\<not> sq_pending q" using inv Some by (auto simp: shared_invar_def dest: jget_all [where P = "\<lambda>q. \<not> sq_pending q"])
    with inv have "single_pending (persisted_decision q (rc_doc s))" by (simp add: shared_invar_def single_pending_decided)
    with inv Some DecisionRead show ?thesis
      using jset_all [of "rc_flight s" single_pending "persisted_decision q (rc_doc s)" t] jdel_all [of "rc_decided s" "\<lambda>q. \<not> sq_pending q" t]
      by (simp add: shared_invar_def)
  qed (use inv DecisionRead in simp)
next
  case (WriteBack t)
  show ?thesis
  proof (cases "jget (rc_flight s) t")
    case (Some doc)
    with inv WriteBack show ?thesis
      using jget_all [of "rc_flight s" single_pending t doc] jdel_all [of "rc_flight s" single_pending t]
      by (simp add: shared_invar_def)
  qed (use inv WriteBack in simp)
qed

lemma shared_invar_run: "shared_invar s \<Longrightarrow> shared_invar (snd (request_run H es s))"
proof (induction es arbitrary: s)
  case (Cons e es)
  from Cons.IH [OF shared_invar_step [OF Cons.prems, of H e]] show ?case by (simp add: split_beta Let_def)
qed simp

text \<open>
  C26. However the nodes of a cluster interleave their reading and writing of the shared requests, at most one
  request of a client in a realm is pending there.
\<close>

theorem one_open_request:
  "single_pending (rc_doc (snd (request_run H es (request_start A))))"
  using shared_invar_run [of "request_start A" H es] by (simp add: shared_invar_def request_start_def single_pending_def)

text \<open>
  A manager who polls any node of a cluster is given the oldest of the pending requests of the realm asked
  for, and none only when there is none.
\<close>

theorem oldest_request_first:
  "case findNextAuthorizationRequest body doc of
     None \<Rightarrow> {x \<in> snd ` set doc. asked_for body x} = {}
   | Some q \<Rightarrow> q \<in> {x \<in> snd ` set doc. asked_for body x} \<and> sq_created q = Min (sq_created ` {x \<in> snd ` set doc. asked_for body x})"
proof -
  let ?S = "{x \<in> snd ` set doc. asked_for body x}"
  let ?l = "sort_key sq_created (filter (asked_for body) (map snd doc))"
  have set: "set ?l = ?S" by auto
  show ?thesis
  proof (cases ?l)
    case Nil
    with set show ?thesis by (simp add: findNextAuthorizationRequest_def)
  next
    case (Cons q xs)
    have "sorted (map sq_created ?l)" by (rule sorted_sort_key)
    then have "\<And>x. x \<in> set ?l \<Longrightarrow> sq_created q \<le> sq_created x" by (auto simp: Cons)
    moreover have q: "q \<in> set ?l" by (simp add: Cons)
    moreover have "finite ?S" by simp
    ultimately have "Min (sq_created ` ?S) = sq_created q" unfolding set by (intro Min_eqI) auto
    with q show ?thesis unfolding set by (simp add: findNextAuthorizationRequest_def Cons)
  qed
qed

text \<open>
  Two decisions that have both looked the request up before either is written are both carried out: here one
  manager approves on node a and another rejects on node b, and the token is accepted although the request
  ends as rejected.
\<close>

definition shared_sample :: shared_request where
  "shared_sample = \<lparr>sq_request = \<lparr>rq_id = ''q1'', rq_status = Pending, rq_realm = ''r'', rq_role = JStr ''both'', rq_client_id = ''c'',
     rq_client_name = ''n'', rq_client_token = ''tok'', rq_challenge_response = JNull, rq_created_at = 1, rq_socket = ''s'',
     rq_superseded_at = None, rq_decided_at = None, rq_decision_reason = JUndef\<rparr>, sq_node = Some ''a''\<rparr>"

definition two_managers :: "request_event list" where
  "two_managers = [MirrorRead 0 shared_sample, WriteBack 0, LookUp 1 ''q1'' [], LookUp 2 ''q1'' [],
     DecideNow 1 ''a'' 5 True (JObj [(''approved'', JBool True)]), DecisionRead 1, WriteBack 1,
     DecideNow 2 ''b'' 6 True (JObj [(''approved'', JBool False)]), DecisionRead 2, WriteBack 2]"

lemma decided_twice:
  fixes H :: "string \<Rightarrow> string"
  defines "r \<equiv> request_run H two_managers (request_start (\<lambda>m. empty_doc))"
  shows "ApprovedTo ''s'' ''q1'' ''r'' (JStr ''both'') \<in> set (fst r)"
    "map_option (\<lambda>q. rq_status (sq_request q)) (jget (rc_doc (snd r)) ''q1'') = Some Rejected"
    "map tk_token (ad_tokens (rc_auth (snd r) ''a'')) = [JStr ''tok'']"
  by (simp_all add: r_def two_managers_def request_start_def shared_sample_def mirrorAuthRequestToCluster_def
      lookupAuthorizationRequest_def cluster_decide_def sq_pending_def decided_def isLocalRequester_def decision_notice_def
      addRuntimeAuthToken_def approved_token_def persisted_decision_def empty_doc_def js_or_def Let_def)

subsection \<open>Where tokens come from\<close>

text \<open>The requests that clients have submitted: those mirrored and those the nodes hold themselves.\<close>

fun submits :: "request_event \<Rightarrow> (string \<times> string \<times> string \<times> string) set" where
  "submits (MirrorRead t q) = {core (sq_request q)}"
| "submits (LookUp t i l) = (\<lambda>q. core (sq_request q)) ` (snd ` set l)"
| "submits _ = {}"

definition submitted_to :: "request_event list \<Rightarrow> (string \<times> string \<times> string \<times> string) set" where
  "submitted_to es = \<Union> (submits ` set es)"

definition known :: "(string \<times> string \<times> string \<times> string) set \<Rightarrow> shared_request \<Rightarrow> bool" where
  "known C q \<longleftrightarrow> core (sq_request q) \<in> C"

definition looked_known :: "(string \<times> string \<times> string \<times> string) set \<Rightarrow> shared_request option \<Rightarrow> bool" where
  "looked_known C v \<longleftrightarrow> (case v of None \<Rightarrow> True | Some q \<Rightarrow> known C q)"

definition doc_known :: "(string \<times> string \<times> string \<times> string) set \<Rightarrow> request_document \<Rightarrow> bool" where
  "doc_known C doc \<longleftrightarrow> (\<forall>p \<in> set doc. known C (snd p))"

definition approved_in :: "(string \<times> string \<times> string \<times> string) set \<Rightarrow> client_token \<Rightarrow> bool" where
  "approved_in C tk \<longleftrightarrow> (\<exists>(i, realm, token, client) \<in> C. tk_token tk = JStr token \<and> tk_realm tk = JStr realm \<and> tk_client_id tk = JStr client)"

definition tokens_known :: "(string \<times> string \<times> string \<times> string) set \<Rightarrow> (string \<Rightarrow> auth_doc) \<Rightarrow> request_cluster \<Rightarrow> bool" where
  "tokens_known C A s \<longleftrightarrow> doc_known C (rc_doc s) \<and> (\<forall>p \<in> set (rc_flight s). doc_known C (snd p))
     \<and> (\<forall>p \<in> set (rc_looked s). looked_known C (snd p)) \<and> (\<forall>p \<in> set (rc_decided s). known C (snd p))
     \<and> (\<forall>m. \<forall>tk \<in> set (ad_tokens (rc_auth s m)). tk \<in> set (ad_tokens (A m)) \<or> approved_in C tk)"

lemma known_simps [simp]:
  "known C (x\<lparr>sq_request := decided now body (sq_request x)\<rparr>) = known C x" "known C (supersede_shared q x) = known C x"
  by (simp_all add: known_def supersede_shared_def)

lemma doc_known_jset: "doc_known C doc \<Longrightarrow> known C q \<Longrightarrow> doc_known C (jset i q doc)"
  unfolding doc_known_def by (rule jset_all)

lemma doc_known_mirror: "doc_known C doc \<Longrightarrow> known C q \<Longrightarrow> doc_known C (mirrorAuthRequestToCluster q doc)"
  unfolding mirrorAuthRequestToCluster_def by (intro doc_known_jset) (auto simp: doc_known_def)

lemma doc_known_get: "doc_known C doc \<Longrightarrow> jget doc i = Some q \<Longrightarrow> known C q"
  unfolding doc_known_def by (rule jget_all)

lemma approved_token_in: "known C x \<Longrightarrow> approved_in C (approved_token (decided now body (sq_request x)))"
  by (force simp: known_def approved_in_def approved_token_def core_def decided_def Let_def)

lemma addRuntime_tokens: "set (ad_tokens (addRuntimeAuthToken tk d)) \<subseteq> insert tk (set (ad_tokens d))"
  by (auto simp: addRuntimeAuthToken_def)

lemma tokens_known_decide:
  assumes inv: "tokens_known C A s" and q: "jget (rc_looked s) t = Some q"
  shows "tokens_known C A (snd (request_step H (DecideNow t me now claimed body) s))"
proof (cases rule: cluster_decide_cases [of H me now claimed body q "rc_auth s me"])
  case refused
  with inv q jdel_all [of "rc_looked s" "looked_known C" t] show ?thesis by (simp add: tokens_known_def)
next
  case (decided x out d')
  have "looked_known C q" using inv q by (auto simp: tokens_known_def dest: jget_all [where P = "looked_known C"])
  with decided(1) have k: "known C x" by (simp add: looked_known_def)
  have "tk \<in> set (ad_tokens (A me)) \<or> approved_in C tk" if "tk \<in> set (ad_tokens d')" for tk
  proof -
    from that decided(5) addRuntime_tokens [of "approved_token (decided now body (sq_request x))" "rc_auth s me"]
    have "tk = approved_token (decided now body (sq_request x)) \<or> tk \<in> set (ad_tokens (rc_auth s me))"
      by (auto split: if_splits)
    with approved_token_in [OF k, of now body] inv show ?thesis by (auto simp: tokens_known_def)
  qed
  moreover have "\<forall>p \<in> set (jset t (x\<lparr>sq_request := decided now body (sq_request x)\<rparr>) (rc_decided s)). known C (snd p)"
    using inv k by (intro jset_all) (simp_all add: tokens_known_def)
  moreover have "\<forall>p \<in> set (jdel t (rc_looked s)). looked_known C (snd p)"
    using inv by (intro jdel_all) (simp add: tokens_known_def)
  ultimately show ?thesis using inv q decided(4) by (simp add: tokens_known_def)
qed

lemma tokens_known_step:
  assumes inv: "tokens_known C A s" and C: "submits e \<subseteq> C"
  shows "tokens_known C A (snd (request_step H e s))"
proof (cases e)
  case (MirrorRead t q)
  with C have "known C q" by (simp add: known_def)
  with inv have "doc_known C (mirrorAuthRequestToCluster q (rc_doc s))" by (simp add: tokens_known_def doc_known_mirror)
  with inv MirrorRead jset_all [of "rc_flight s" "doc_known C" _ t] show ?thesis by (simp add: tokens_known_def)
next
  case (LookUp t i l)
  have "looked_known C (lookupAuthorizationRequest (rc_doc s) l i)"
  proof (cases "jget (rc_doc s) i")
    case None
    with C LookUp show ?thesis
      by (force simp: lookupAuthorizationRequest_def looked_known_def known_def split: option.split dest: map_of_SomeD)
  next
    case (Some q')
    with inv have "known C q'" by (auto simp: tokens_known_def intro: doc_known_get)
    with Some show ?thesis by (simp add: lookupAuthorizationRequest_def looked_known_def)
  qed
  with inv LookUp jset_all [of "rc_looked s" "looked_known C" _ t] show ?thesis by (simp add: tokens_known_def)
next
  case (DecideNow t me now claimed body)
  with tokens_known_decide [OF inv, of t _ H me now claimed body] inv show ?thesis by (cases "jget (rc_looked s) t") simp_all
next
  case (DecisionRead t)
  show ?thesis
  proof (cases "jget (rc_decided s) t")
    case (Some q)
    with inv have "known C q" by (auto simp: tokens_known_def dest: jget_all [where P = "known C"])
    with inv have "doc_known C (persisted_decision q (rc_doc s))"
      by (simp add: persisted_decision_def tokens_known_def doc_known_jset)
    with inv Some DecisionRead jset_all [of "rc_flight s" "doc_known C" _ t] jdel_all [of "rc_decided s" "known C" t]
    show ?thesis by (simp add: tokens_known_def)
  qed (use inv DecisionRead in simp)
next
  case (WriteBack t)
  show ?thesis
  proof (cases "jget (rc_flight s) t")
    case (Some doc)
    with inv WriteBack jget_all [of "rc_flight s" "doc_known C" t doc] jdel_all [of "rc_flight s" "doc_known C" t]
    show ?thesis by (simp add: tokens_known_def)
  qed (use inv WriteBack in simp)
qed

lemma tokens_known_run: "tokens_known C A s \<Longrightarrow> submitted_to es \<subseteq> C \<Longrightarrow> tokens_known C A (snd (request_run H es s))"
proof (induction es arbitrary: s)
  case (Cons e es)
  from Cons.prems(2) have e: "submits e \<subseteq> C" and es: "submitted_to es \<subseteq> C" by (auto simp: submitted_to_def)
  from Cons.IH [OF tokens_known_step [OF Cons.prems(1) e] es] show ?case by (simp add: split_beta Let_def)
qed simp

text \<open>
  C25. However the nodes of a cluster interleave, a decision makes a node accept only the token of a request that
  was submitted, for the realm and the client it was submitted for.
\<close>

theorem cluster_tokens_submitted:
  "set (ad_tokens (rc_auth (snd (request_run H es (request_start A))) m))
     \<subseteq> set (ad_tokens (A m)) \<union> {tk. approved_in (submitted_to es) tk}"
proof -
  have "tokens_known (submitted_to es) A (request_start A)"
    by (auto simp: tokens_known_def request_start_def doc_known_def)
  from tokens_known_run [OF this subset_refl, of H] show ?thesis by (auto simp: tokens_known_def)
qed

end
