(* ===== verification/Settings_Env.thy ===== *)
theory Settings_Env
  imports Prelude
begin

text \<open>
  The settings store (\<open>lib/settings.js\<close>) and the file of environment variables (\<open>lib/env.js\<close>). The content
  of a file, or the error of reading it, is an argument; the watch on the file, the delay after its
  changes and the signal are events that end in \<open>loadFile\<close>.
\<close>

section \<open>Settings\<close>

text \<open>\<open>_clone\<close>: through JSON text for objects and arrays.\<close>

definition clone :: "jsval \<Rightarrow> jsval" where
  "clone v = (if is_plain_obj v \<or> is_array v
     then (case json_stringify v of None \<Rightarrow> v | Some j \<Rightarrow> json_parse j) else v)"

text \<open>The own members \<open>for (key in source)\<close> goes through.\<close>

definition own_members :: "jsval \<Rightarrow> (string \<times> jsval) list" where
  "own_members v = (case v of JObj kvs \<Rightarrow> kvs | JArr xs \<Rightarrow> zip (map show_nat [0..<length xs]) xs | _ \<Rightarrow> [])"

definition set_member :: "string \<Rightarrow> jsval \<Rightarrow> jsval \<Rightarrow> jsval" where
  "set_member k v ob = (case ob of JObj kvs \<Rightarrow> JObj (jset k v kvs) | _ \<Rightarrow> ob)"

lemma own_members_size: "(k, v) \<in> set (own_members s) \<Longrightarrow> size v < size s"
proof (cases s)
  case (JArr xs)
  assume "(k, v) \<in> set (own_members s)"
  then have "v \<in> set xs" by (auto simp: JArr own_members_def dest: set_zip_rightD)
  then show ?thesis using size_list_estimation' [of v xs "size v" size] by (simp add: JArr)
next
  case (JObj kvs)
  assume "(k, v) \<in> set (own_members s)"
  then have "(k, v) \<in> set kvs" by (simp add: JObj own_members_def)
  then show ?thesis using size_list_estimation' [of "(k, v)" kvs "size v" "size_prod (\<lambda>x. 0) size"]
    by (simp add: JObj)
qed (simp_all add: own_members_def)

text \<open>\<open>_deepMerge\<close>; its target is an object.\<close>

function (sequential) deepMerge :: "jsval \<Rightarrow> jsval \<Rightarrow> jsval" where
  "deepMerge target source =
     foldl (\<lambda>r p. set_member (fst p)
         (if is_plain_obj (snd p) \<and> is_plain_obj (obj_get r (fst p)) then deepMerge (obj_get r (fst p)) (snd p) else clone (snd p)) r)
       (clone target) (own_members source)"
  by pat_completeness auto

termination
  by (relation "measure (\<lambda>(t, s). size s)") (auto dest: own_members_size)

declare deepMerge.simps [simp del]

record settings_store =
  st_data :: jsval
  st_file :: bool
  st_merge_mode :: bool

text \<open>An event \<open>change\<close> with the new and the former settings, or an error.\<close>

datatype settings_out = Changed jsval jsval | ReadFailed | InvalidJson

text \<open>What reading the file gives: nothing, text that is no JSON, or a document.\<close>

datatype file_content = Unreadable | NotJson | Parsed json

definition settings_new :: "jsval \<Rightarrow> settings_store" where
  "settings_new initial = \<lparr>st_data = clone (js_or initial (JObj [])), st_file = False, st_merge_mode = True\<rparr>"

definition settings_get :: "string option \<Rightarrow> settings_store \<Rightarrow> jsval" where
  "settings_get key s = (case key of None \<Rightarrow> clone (st_data s) | Some k \<Rightarrow> obj_get (st_data s) k)"

definition settings_changed :: "jsval \<Rightarrow> settings_store \<Rightarrow> settings_out list \<times> settings_store" where
  "settings_changed d s = ([Changed (clone d) (clone (st_data s))], s\<lparr>st_data := d\<rparr>)"

definition settings_merge :: "jsval \<Rightarrow> settings_store \<Rightarrow> settings_out list \<times> settings_store" where
  "settings_merge part s = settings_changed (deepMerge (st_data s) part) s"

definition settings_replace :: "jsval \<Rightarrow> settings_store \<Rightarrow> settings_out list \<times> settings_store" where
  "settings_replace d s = settings_changed (clone (js_or d (JObj []))) s"

definition loadFile :: "file_content \<Rightarrow> settings_store \<Rightarrow> settings_out list \<times> settings_store" where
  "loadFile c s =
     (case c of
        Unreadable \<Rightarrow> ([ReadFailed], s)
      | NotJson \<Rightarrow> ([InvalidJson], s)
      | Parsed j \<Rightarrow> settings_changed (if st_merge_mode s then deepMerge (st_data s) (json_parse j) else clone (json_parse j)) s)"

definition settings_watch :: "bool option \<Rightarrow> settings_store \<Rightarrow> settings_store" where
  "settings_watch merge_opt s = s\<lparr>st_file := True, st_merge_mode := (case merge_opt of None \<Rightarrow> True | Some b \<Rightarrow> b)\<rparr>"

definition settings_reload :: "file_content \<Rightarrow> settings_store \<Rightarrow> settings_out list \<times> settings_store" where
  "settings_reload c s = (if st_file s then loadFile c s else ([], s))"

text \<open>\<open>reloadSync\<close> throws instead (\<open>None\<close>).\<close>

definition reloadSync :: "file_content \<Rightarrow> settings_store \<Rightarrow> (settings_out list \<times> settings_store) option" where
  "reloadSync c s =
     (if \<not> st_file s then Some ([], s)
      else case c of Parsed j \<Rightarrow> Some (loadFile c s) | _ \<Rightarrow> None)"

section \<open>Environment files\<close>

text \<open>\<open>split(/\r?\n/)\<close>\<close>

abbreviation newline :: char where "newline \<equiv> CHR 0x0A"
abbreviation carriage_return :: char where "carriage_return \<equiv> CHR 0x0D"
abbreviation double_quote :: char where "double_quote \<equiv> CHR 0x22"
abbreviation single_quote :: char where "single_quote \<equiv> CHR 0x27"
abbreviation backslash :: char where "backslash \<equiv> CHR 0x5C"

definition drop_cr :: "string \<Rightarrow> string" where
  "drop_cr l = (if l \<noteq> [] \<and> last l = carriage_return then butlast l else l)"

definition split_lines :: "string \<Rightarrow> string list" where
  "split_lines t = (let ls = split_on newline t in map drop_cr (butlast ls) @ [last ls])"

definition quoted_by :: "char \<Rightarrow> string \<Rightarrow> bool" where
  "quoted_by q v \<longleftrightarrow> v \<noteq> [] \<and> hd v = q \<and> last v = q"

definition unquote :: "string \<Rightarrow> string" where
  "unquote v = (if quoted_by double_quote v \<or> quoted_by single_quote v then butlast (tl v) else v)"

definition parse_line :: "string \<Rightarrow> (string \<times> string) option" where
  "parse_line l =
     (let t = trim l in
      if t = [] \<or> hd t = CHR ''#'' \<or> CHR ''='' \<notin> set t then None
      else let key = trim (takeWhile (\<lambda>c. c \<noteq> CHR ''='') t); value = unquote (trim (tl (dropWhile (\<lambda>c. c \<noteq> CHR ''='') t)))
           in if key = [] then None else Some (key, value))"

definition env_line :: "(string, string) jsmap \<Rightarrow> string \<Rightarrow> (string, string) jsmap" where
  "env_line m l = (case parse_line l of None \<Rightarrow> m | Some (k, v) \<Rightarrow> jset k v m)"

definition parseEnv :: "string \<Rightarrow> (string, string) jsmap" where
  "parseEnv raw = foldl env_line [] (split_lines raw)"

text \<open>Variables that are set already are kept.\<close>

definition loadEnvFile :: "string option \<Rightarrow> (string, string) jsmap \<Rightarrow> (string, string) jsmap \<times> (string, string) jsmap" where
  "loadEnvFile content env =
     (case content of
        None \<Rightarrow> ([], env)
      | Some raw \<Rightarrow> (let parsed = parseEnv raw in
          (parsed, foldl (\<lambda>e p. if jget e (fst p) = None then jset (fst p) (snd p) e else e) env parsed)))"

definition quote_char :: "char \<Rightarrow> string" where
  "quote_char c = (if c = backslash \<or> c = double_quote then [backslash, c] else [c])"

definition quoteEnv :: "string \<Rightarrow> string" where
  "quoteEnv v = [double_quote] @ concat (map quote_char v) @ [double_quote]"

text \<open>\<open>content\<close> is \<open>None\<close> when the file does not exist.\<close>

definition appendEnvValue ::
  "string option \<Rightarrow> string \<Rightarrow> string \<Rightarrow> (string, string) jsmap \<Rightarrow> string \<times> (string, string) jsmap" where
  "appendEnvValue content key value env =
     (let old = (case content of None \<Rightarrow> [] | Some t \<Rightarrow> t);
          sep = (if old \<noteq> [] \<and> last old \<noteq> newline then [newline] else [])
      in (old @ sep @ key @ ''='' @ quoteEnv value @ [newline], jset key value env))"

section \<open>What a merge gives\<close>

text \<open>Documents as JSON text gives them, with distinct names in every object.\<close>

fun tidy :: "jsval \<Rightarrow> bool" where
  "tidy JUndef = False"
| "tidy (JNum n) = is_finite n"
| "tidy (JArr vs) = list_all tidy vs"
| "tidy (JObj kvs) = (distinct (map fst kvs) \<and> list_all (\<lambda>kv. tidy (snd kv)) kvs)"
| "tidy _ = True"

lemma tidy_clean: "tidy v \<Longrightarrow> json_clean v"
  by (induction v rule: json_clean.induct) (auto simp: list_all_iff)

lemma clone_tidy: "tidy v \<Longrightarrow> clone v = v"
  using json_roundtrip [OF tidy_clean, of v] by (auto simp: clone_def)

lemma tidy_member: "tidy (JObj kvs) \<Longrightarrow> (k, v) \<in> set kvs \<Longrightarrow> tidy v"
  by (auto simp: list_all_iff)

fun at_path :: "jsval \<Rightarrow> string list \<Rightarrow> jsval" where
  "at_path v [] = v"
| "at_path v (k # ks) = at_path (obj_get v k) ks"

text \<open>A document decides a path when it has a value there that is no object, and is silent on it when it has none.\<close>

definition decides :: "jsval \<Rightarrow> string list \<Rightarrow> bool" where
  "decides v p \<longleftrightarrow> at_path v p \<noteq> JUndef \<and> \<not> is_plain_obj (at_path v p)"

fun silent_on :: "jsval \<Rightarrow> string list \<Rightarrow> bool" where
  "silent_on v [] = False"
| "silent_on v (k # ks) = (obj_get v k = JUndef \<or> is_plain_obj (obj_get v k) \<and> silent_on (obj_get v k) ks)"

lemma at_path_none [simp]: "at_path JUndef p = JUndef"
  by (induction p) simp_all

lemma at_path_undef: "\<not> is_plain_obj v \<Longrightarrow> p \<noteq> [] \<Longrightarrow> at_path v p = JUndef"
  by (cases p; cases v) simp_all

lemma silent_at_path: "silent_on v p \<Longrightarrow> at_path v p = JUndef"
proof (induction p arbitrary: v)
  case (Cons k ks)
  then show ?case by auto
qed simp

definition merged_member :: "jsval \<Rightarrow> jsval \<Rightarrow> jsval" where
  "merged_member old v = (if is_plain_obj v \<and> is_plain_obj old then deepMerge old v else clone v)"

lemma merge_members:
  assumes "distinct (map fst kvs)" "is_plain_obj r"
  shows "obj_get (foldl (\<lambda>r p. set_member (fst p) (merged_member (obj_get r (fst p)) (snd p)) r) r kvs) k =
    (case map_of kvs k of None \<Rightarrow> obj_get r k | Some v \<Rightarrow> merged_member (obj_get r k) v)"
  using assms
proof (induction kvs arbitrary: r)
  case (Cons p kvs)
  obtain m where r: "r = JObj m" using Cons.prems(2) by (cases r) auto
  obtain k' v where p: "p = (k', v)" by (cases p)
  have new: "k = k' \<Longrightarrow> map_of kvs k = None" using Cons.prems(1) by (simp add: p map_of_eq_None_iff)
  from Cons.IH [of "set_member k' (merged_member (obj_get r k') v) r"] Cons.prems new show ?case
    by (auto simp: p r set_member_def split: option.splits)
qed simp

lemma deepMerge_get:
  assumes "tidy t" "is_plain_obj t" "tidy (JObj kvs)"
  shows "obj_get (deepMerge t (JObj kvs)) k =
    (case map_of kvs k of None \<Rightarrow> obj_get t k
     | Some v \<Rightarrow> if is_plain_obj v \<and> is_plain_obj (obj_get t k) then deepMerge (obj_get t k) v else v)"
proof -
  have "deepMerge t (JObj kvs) = foldl (\<lambda>r p. set_member (fst p) (merged_member (obj_get r (fst p)) (snd p)) r) t kvs"
    by (simp add: deepMerge.simps [of t] merged_member_def own_members_def clone_tidy [OF assms(1)])
  moreover have "clone v = v" if "map_of kvs k = Some v" for v
    using tidy_member [OF assms(3) map_of_SomeD [OF that]] by (rule clone_tidy)
  ultimately show ?thesis
    using merge_members [of kvs t k] assms(2,3) by (auto simp: merged_member_def split: option.split)
qed

lemma merge_path:
  assumes "tidy t" "is_plain_obj t" "tidy s" "is_plain_obj s"
  shows "(decides s p \<longrightarrow> at_path (deepMerge t s) p = at_path s p) \<and> (silent_on s p \<longrightarrow> at_path (deepMerge t s) p = at_path t p)"
  using assms
proof (induction p arbitrary: t s)
  case Nil
  then show ?case by (simp add: decides_def)
next
  case (Cons k ks)
  obtain kvs where s: "s = JObj kvs" using Cons.prems(4) by (cases s) auto
  obtain m where t: "t = JObj m" using Cons.prems(2) by (cases t) auto
  note get = deepMerge_get [OF Cons.prems(1,2) Cons.prems(3) [unfolded s], of k]
  show ?case
  proof (cases "map_of kvs k")
    case None
    with get show ?thesis by (simp add: s decides_def)
  next
    case (Some v)
    have v: "tidy v" "v \<noteq> JUndef" using tidy_member [OF Cons.prems(3) [unfolded s] map_of_SomeD [OF Some]] by auto
    show ?thesis
    proof (cases "is_plain_obj v \<and> is_plain_obj (obj_get t k)")
      case True
      then obtain u where u: "map_of m k = Some u" "is_plain_obj u" by (auto simp: t split: option.splits)
      have "tidy u" using tidy_member [OF Cons.prems(1) [unfolded t] map_of_SomeD [OF u(1)]] .
      with Cons.IH [of u v] True u v get Some show ?thesis by (simp add: s t decides_def)
    next
      case False
      have "at_path v ks = at_path (obj_get t k) ks" if "silent_on s (k # ks)"
      proof -
        from that Some v(2) have sv: "is_plain_obj v" "silent_on v ks" by (simp_all add: s)
        with False have "\<not> is_plain_obj (obj_get t k)" by simp
        moreover from sv(2) have "ks \<noteq> []" by auto
        ultimately have "at_path (obj_get t k) ks = JUndef" by (rule at_path_undef)
        with silent_at_path [OF sv(2)] show ?thesis by simp
      qed
      moreover have "obj_get (deepMerge t s) k = v" using get Some False by (auto simp: s)
      ultimately show ?thesis using Some v(2) by (auto simp: s decides_def)
    qed
  qed
qed

text \<open>
  C39. When the settings file is read again, every path it decides has its value from the file, every path it is
  silent on keeps the value it had, and the change is told once with the new and the former settings.
\<close>

theorem reload_merges:
  assumes "st_file s" "st_merge_mode s" "tidy (st_data s)" "is_plain_obj (st_data s)"
    and "tidy (json_parse j)" "is_plain_obj (json_parse j)"
  shows "(decides (json_parse j) p \<longrightarrow> at_path (st_data (snd (settings_reload (Parsed j) s))) p = at_path (json_parse j) p)
    \<and> (silent_on (json_parse j) p \<longrightarrow> at_path (st_data (snd (settings_reload (Parsed j) s))) p = at_path (st_data s) p)
    \<and> (\<exists>new. fst (settings_reload (Parsed j) s) = [Changed new (st_data s)])
    \<and> reloadSync (Parsed j) s = Some (settings_reload (Parsed j) s)"
  using assms merge_path [OF assms(3-6), of p]
  by (simp add: settings_reload_def reloadSync_def loadFile_def settings_changed_def clone_tidy)

theorem reload_merges_witness:
  "at_path (st_data (snd (settings_reload (Parsed (ObjJ [(''auth'', ObjJ [(''enabled'', BoolJ True)])]))
     \<lparr>st_data = JObj [(''auth'', JObj [(''enabled'', JBool False), (''jwt_secret'', JStr ''x'')])], st_file = True, st_merge_mode = True\<rparr>)))
     [''auth'', ''enabled''] = JBool True
   \<and> at_path (st_data (snd (settings_reload (Parsed (ObjJ [(''auth'', ObjJ [(''enabled'', BoolJ True)])]))
     \<lparr>st_data = JObj [(''auth'', JObj [(''enabled'', JBool False), (''jwt_secret'', JStr ''x'')])], st_file = True, st_merge_mode = True\<rparr>)))
     [''auth'', ''jwt_secret''] = JStr ''x''"
proof -
  let ?j = "ObjJ [(''auth'', ObjJ [(''enabled'', BoolJ True)])]"
  let ?s = "\<lparr>st_data = JObj [(''auth'', JObj [(''enabled'', JBool False), (''jwt_secret'', JStr ''x'')])], st_file = True, st_merge_mode = True\<rparr>"
  have ok: "st_file ?s" "st_merge_mode ?s" "tidy (st_data ?s)" "is_plain_obj (st_data ?s)" "tidy (json_parse ?j)" "is_plain_obj (json_parse ?j)"
    by simp_all
  from reload_merges [OF ok, of "[''auth'', ''enabled'']"] reload_merges [OF ok, of "[''auth'', ''jwt_secret'']"]
  show ?thesis by (simp add: decides_def)
qed

text \<open>A file that cannot be read, or is no JSON, changes nothing; reading it at once throws.\<close>

lemma reload_error:
  "c = Unreadable \<or> c = NotJson \<Longrightarrow> snd (settings_reload c s) = s \<and> (st_file s \<longrightarrow> reloadSync c s = None)"
  by (auto simp: settings_reload_def reloadSync_def loadFile_def)

text \<open>Without the merge, the settings are those of the file.\<close>

lemma reload_replaces:
  "st_file s \<Longrightarrow> \<not> st_merge_mode s \<Longrightarrow> tidy (json_parse j) \<Longrightarrow> st_data (snd (settings_reload (Parsed j) s)) = json_parse j"
  by (simp add: settings_reload_def loadFile_def settings_changed_def clone_tidy)

section \<open>What an appended line gives\<close>

lemma split_on_append: "split_on c (a @ c # b) = split_on c a @ split_on c b"
proof (induction a)
  case (Cons x a)
  then show ?case by (cases "split_on c a") auto
qed simp

lemma split_on_end: "split_on c (a @ [c]) = split_on c a @ [[]]"
  using split_on_append [of c a "[]"] by simp

lemma dropWhile_snoc_drop: "P x \<Longrightarrow> dropWhile P (rev (l @ [x])) = dropWhile P (rev l)"
  by simp

lemma trim_snoc_space: "is_space x \<Longrightarrow> trim (l @ [x]) = trim l"
proof -
  assume x: "is_space x"
  show ?thesis
  proof (cases "\<forall>y \<in> set l. is_space y")
    case True
    with x have "dropWhile is_space (l @ [x]) = []" "dropWhile is_space l = []" by (simp_all add: dropWhile_eq_Nil_conv)
    then show ?thesis by (simp only: trim_def)
  next
    case False
    then have "dropWhile is_space (l @ [x]) = dropWhile is_space l @ [x]" by (auto simp: dropWhile_append)
    with x show ?thesis by (simp add: trim_def)
  qed
qed

lemma is_space_simps [simp]: "is_space newline" "is_space carriage_return" "\<not> is_space double_quote"
  by (simp_all add: is_space_def)

lemma trim_drop_cr: "trim (drop_cr l) = trim l"
proof (cases "l \<noteq> [] \<and> last l = carriage_return")
  case True
  then have "l = butlast l @ [carriage_return]" by (metis append_butlast_last_id)
  with trim_snoc_space [of carriage_return "butlast l"] True show ?thesis by (simp add: drop_cr_def)
qed (auto simp: drop_cr_def)

lemma env_line_drop_cr [simp]: "env_line m (drop_cr l) = env_line m l"
  by (simp add: env_line_def parse_line_def trim_drop_cr)

lemma env_line_blank [simp]: "env_line m [] = m"
  by (simp add: env_line_def parse_line_def trim_def)

lemma foldl_env_line_drop_cr [simp]: "foldl env_line m (map drop_cr ls) = foldl env_line m ls"
  by (induction ls arbitrary: m) simp_all

lemma parseEnv_lines: "parseEnv raw = foldl env_line [] (split_on newline raw)"
proof -
  have "foldl env_line [] (split_on newline raw) = foldl env_line [] (butlast (split_on newline raw) @ [last (split_on newline raw)])"
    by simp
  then show ?thesis by (simp only: parseEnv_def split_lines_def Let_def foldl_append foldl_env_line_drop_cr)
qed

text \<open>The line of \<open>appendEnvValue\<close> stands alone at the end.\<close>

lemma parseEnv_append_line:
  assumes "newline \<notin> set l"
  shows "parseEnv (old @ (if old \<noteq> [] \<and> last old \<noteq> newline then [newline] else []) @ l @ [newline]) = env_line (parseEnv old) l"
proof -
  have one: "split_on newline (l @ [newline]) = [l, []]" using split_on_end [of newline l] split_on_single [OF assms] by simp
  show ?thesis
  proof (cases "old = [] \<or> last old = newline")
    case True
    then consider "old = []" | "old = butlast old @ [newline]" by (metis append_butlast_last_id)
    then show ?thesis
    proof cases
      case 1
      with one show ?thesis by (simp add: parseEnv_lines)
    next
      case 2
      then obtain a where a: "old = a @ [newline]" by blast
      have "split_on newline (a @ [newline] @ l @ [newline]) = split_on newline a @ [l, []]"
        using split_on_append [of newline a "l @ [newline]"] one by simp
      with a split_on_end [of newline a] show ?thesis by (simp add: parseEnv_lines)
    qed
  next
    case False
    have "split_on newline (old @ [newline] @ l @ [newline]) = split_on newline old @ [l, []]"
      using split_on_append [of newline old "l @ [newline]"] one by simp
    with False show ?thesis by (simp add: parseEnv_lines)
  qed
qed

text \<open>A name that can be read back: no spaces, no equals sign, no comment.\<close>

definition env_name :: "string \<Rightarrow> bool" where
  "env_name k \<longleftrightarrow> k \<noteq> [] \<and> hd k \<noteq> CHR ''#'' \<and> list_all (\<lambda>c. \<not> is_space c \<and> c \<noteq> CHR ''='') k"

lemma trim_solid: "l \<noteq> [] \<Longrightarrow> \<not> is_space (hd l) \<Longrightarrow> \<not> is_space (last l) \<Longrightarrow> trim l = l"
proof -
  assume l: "l \<noteq> []" "\<not> is_space (hd l)" "\<not> is_space (last l)"
  then have "dropWhile is_space l = l" by (cases l) simp_all
  moreover have "dropWhile is_space (rev l) = rev l" using l(1,3) by (cases "rev l") (simp_all add: last_rev [symmetric] hd_rev)
  ultimately show ?thesis by (simp add: trim_def)
qed

lemma quoteEnv_ends: "quoteEnv v \<noteq> []" "hd (quoteEnv v) = double_quote" "last (quoteEnv v) = double_quote" "butlast (tl (quoteEnv v)) = concat (map quote_char v)"
  by (simp_all add: quoteEnv_def)

lemma parse_own_line:
  assumes "env_name k"
  shows "parse_line (k @ ''='' @ quoteEnv v) = Some (k, concat (map quote_char v))"
proof -
  have k: "k \<noteq> []" "\<And>c. c \<in> set k \<Longrightarrow> c \<noteq> CHR ''=''" "\<not> is_space (hd k)" "\<not> is_space (last k)" "hd k \<noteq> CHR ''#''"
    using assms by (auto simp: env_name_def list_all_iff)
  have "trim (k @ ''='' @ quoteEnv v) = k @ ''='' @ quoteEnv v"
    using k quoteEnv_ends [of v] by (intro trim_solid) (auto simp: last_append)
  moreover have "takeWhile (\<lambda>c. c \<noteq> CHR ''='') (k @ ''='' @ quoteEnv v) = k" using k(2) by (simp add: takeWhile_append2)
  moreover have "dropWhile (\<lambda>c. c \<noteq> CHR ''='') (k @ ''='' @ quoteEnv v) = ''='' @ quoteEnv v" using k(2) by (simp add: dropWhile_append2)
  moreover have "trim k = k" using k by (intro trim_solid)
  moreover have "trim (quoteEnv v) = quoteEnv v" using quoteEnv_ends [of v] by (intro trim_solid) simp_all
  moreover have "unquote (quoteEnv v) = concat (map quote_char v)" using quoteEnv_ends [of v] by (simp add: unquote_def quoted_by_def)
  ultimately show ?thesis using k(1,5) by (simp add: parse_line_def Let_def)
qed

lemma quote_plain: "list_all (\<lambda>c. c \<noteq> backslash \<and> c \<noteq> double_quote) v \<Longrightarrow> concat (map quote_char v) = v"
  by (induction v) (simp_all add: quote_char_def)

lemma newline_quoteEnv: "newline \<notin> set v \<Longrightarrow> newline \<notin> set (quoteEnv v)"
  by (auto simp: quoteEnv_def quote_char_def)

text \<open>For any value without a line break: what comes back is the escaped value.\<close>

lemma append_parse:
  assumes "env_name k" "newline \<notin> set v"
  shows "parseEnv (fst (appendEnvValue content k v env)) =
    jset k (concat (map quote_char v)) (parseEnv (case content of None \<Rightarrow> [] | Some t \<Rightarrow> t))"
proof -
  have "newline \<notin> set k" using assms(1) is_space_simps(1) unfolding env_name_def list_all_iff by blast
  with newline_quoteEnv [OF assms(2)] have "newline \<notin> set (k @ ''='' @ quoteEnv v)" by simp
  from parseEnv_append_line [OF this] parse_own_line [OF assms(1), of v] show ?thesis
    by (simp add: appendEnvValue_def Let_def env_line_def)
qed

text \<open>
  C40. A value that is added to an environment file is read back from it unchanged, and every other variable of
  the file keeps its value, given that it holds no quote, no backslash and no line break.
\<close>

theorem env_roundtrip:
  assumes "env_name k" "list_all (\<lambda>c. c \<noteq> newline \<and> c \<noteq> backslash \<and> c \<noteq> double_quote) v"
  shows "parseEnv (fst (appendEnvValue content k v env)) = jset k v (parseEnv (case content of None \<Rightarrow> [] | Some t \<Rightarrow> t))"
proof -
  have "newline \<notin> set v" "concat (map quote_char v) = v"
    using assms(2) quote_plain [of v] by (auto simp: list_all_iff)
  with append_parse [OF assms(1), of v content env] show ?thesis by simp
qed

theorem env_roundtrip_witness:
  "parseEnv (fst (appendEnvValue (Some ''A=1'') ''KEY'' ''x y'' [])) = [(''A'', ''1''), (''KEY'', ''x y'')]"
proof -
  have "parseEnv ''A=1'' = [(''A'', ''1'')]"
    by (simp add: parseEnv_def split_lines_def env_line_def parse_line_def trim_def unquote_def quoted_by_def is_space_def)
  moreover have "env_name ''KEY''" by (simp add: env_name_def is_space_def)
  ultimately show ?thesis using env_roundtrip [of "''KEY''" "''x y''" "Some ''A=1''" "[]"] by simp
qed

text \<open>The escapes \<open>quoteEnv\<close> writes are not undone, so such a value comes back longer, and differs from the one in use.\<close>

lemma env_escapes_kept:
  "env_name k \<Longrightarrow> jget (parseEnv (fst (appendEnvValue content k [CHR ''a'', backslash] env))) k = Some [CHR ''a'', backslash, backslash]"
  "jget (snd (appendEnvValue content k [CHR ''a'', backslash] env)) k = Some [CHR ''a'', backslash]"
  by (simp add: append_parse quote_char_def, simp add: appendEnvValue_def Let_def)

end
