(* ===== verification/Spec2Isabelle.thy ===== *)
theory Spec2Isabelle
  imports Store_Equiv Store_Factory Chat_Tickets Nonces Push_Durable Notify_Boards Delivery Chunks Sealed Client_Directory
    Redis_Store Remote_Sessions Handshake Auth_Store Cluster_Settings Cluster_Shared Settings_Env
begin

text \<open>
  A model of the tyo-mq message broker (\<open>lib/\<close>) and the properties that make it correct.

  \<^bold>\<open>The program.\<close> Clients hold a socket to the broker and register on it as consumers and producers
  of a realm. A consumer subscribes to events of producers; a produced message is routed to the
  subscriptions of its event in the realm of its producer and in the realm for all. A subscription may
  be durable (messages wait in a store while its consumer is away), may ask for acknowledgements (a
  message is sent again until it is acknowledged or dead-lettered), may belong to a consumer group
  (one member gets each message) or may be a topic pattern. A consumer that is away may be woken by a
  contentless push. Beside this the broker serves Notify, a public publish and subscribe surface over
  HTTP with private topics and status boards, and directories of the public keys of its clients.

  \<^bold>\<open>Theories.\<close>
  \<^item> \<open>Prelude\<close>: JavaScript values (\<open>jsval\<close>, \<open>jsnum\<close>), objects and Maps, strings, JSON text.
  \<^item> Durable stores. \<open>Store_Spec\<close>: message and entry types and the contract of a store, the
    locale \<open>durable_store\<close>. \<open>Memory_Store\<close> (\<open>lib/storage/memory.js\<close>) and \<open>Sqlite_Store\<close>
    (\<open>lib/storage/sqlite.js\<close>): one definition for each method and an interpretation of the contract.
    \<open>Store_Equiv\<close>: the two backends answer every run of calls alike. \<open>Redis_Keys\<close> and
    \<open>Redis_Store\<close> (\<open>lib/storage/redis.js\<close>): the third backend, over the commands of a Redis server
    whose answers are described through views of its values and sorted sets. \<open>Store_Factory\<close>
    (\<open>lib/storage/index.js\<close>): which store the broker gets.
  \<^item> Guards. \<open>Rate_Limits\<close> (\<open>lib/limits.js\<close>): token buckets, connection counts and quotas.
    \<open>One_Shot\<close> and \<open>Chat_Tickets\<close> (\<open>lib/chat-ticket-store.js\<close>): capability tickets, redeemed at most
    once. \<open>Replay_Guard\<close> and \<open>Nonces\<close> (\<open>lib/nonce-cache.js\<close>, \<open>lib/notify-auth.js\<close>): signed
    proofs and the memory of their nonces.
  \<^item> Push. \<open>Push_Guard\<close>: address parsing and classification and the guard of push URLs;
    \<open>Push_Payload\<close>: wake payloads, APNs frames, verdicts on the answers of providers;
    \<open>Push_Transport\<close>: the transports and their configuration; \<open>Push_Registry\<close>: the token registry,
    wakes and Notify pushes (all \<open>lib/push.js\<close>); \<open>Push_Durable\<close>: the registry with its store
    (\<open>lib/notify-push-store.js\<close>) across restarts.
  \<^item> Notify. \<open>Notify\<close> (\<open>lib/notify.js\<close>): message fields and the topic ring; \<open>Notify_Boards\<close>
    (\<open>lib/notify-store.js\<close>, \<open>lib/notify-boards.js\<close> and the publish handler and watchdog of
    \<open>lib/server.js\<close>).
  \<^item> Access. \<open>Realm_Keys\<close> (\<open>lib/realm-keys.js\<close> and the commands of \<open>lib/server.js\<close> that rotate a
    key); \<open>Access\<close>: the policies of a realm and the guard \<open>authorize\<close> of every client event;
    \<open>Jwks\<close> (\<open>lib/jwks.js\<close>): user tokens verified against a fetched key set; \<open>Handshake\<close>: the
    AUTHENTICATION event of \<open>lib/server.js\<close>, token validation and the choice of an external validator;
    \<open>Auth_Store\<close> (\<open>lib/auth-store.js\<close>): the durable copy of realms and tokens.
  \<^item> Administration (\<open>lib/server.js\<close>). \<open>Auth_Documents\<close>: the authorisation document with its realms,
    client tokens, management tokens and validators, what a manager is shown of it, and the limits that
    management tokens put on realms; \<open>Realm_Admin\<close>: \<open>applyAuthManagementCommand\<close> with one definition
    for each command, AUTH_MANAGEMENT_COMMAND and its two kinds of proofs, the disposal of expired
    realms, \<open>POST /api/realms\<close>; \<open>Auth_Requests\<close>: how a client without credentials asks for access and
    a manager decides, with the claim of a nonce as a step of its own.
  \<^item> Clusters (\<open>lib/cluster.js\<close> and its callers in \<open>lib/server.js\<close>). \<open>Cluster_Settings\<close>: the settings
    of the nodes as an asynchronous protocol with queues of commands, replies and announcements;
    \<open>Cluster_Shared\<close>: claims of nonces, the shared directory of public keys and the shared
    authorisation requests, which nodes read and write in separate steps.
  \<^item> Configuration. \<open>Settings_Env\<close>: the settings store (\<open>lib/settings.js\<close>) and environment files
    (\<open>lib/env.js\<close>).
  \<^item> The broker (\<open>lib/server.js\<close>). \<open>Broker_State\<close>: the routing state of the realms and the
    operations that change it; \<open>Router\<close>: routing of a message to subscriptions, groups, broadcasts
    and the relay of a cluster; \<open>Registration\<close>: the handlers CONSUMER, PRODUCER, SUBSCRIBE,
    UNSUBSCRIBE, the disconnection and the idle sweep; \<open>Delivery\<close>: acknowledgements, timeouts,
    retries, dead-lettering and replay over a store; \<open>Chunks\<close>: large messages; \<open>Prekeys\<close>: the
    directory of prekey bundles and its store (\<open>lib/prekey-store.js\<close>); \<open>Sealed\<close>: sealed-sender
    delivery, whose recipients admit anonymous senders by a key (\<open>lib/sealed-sender.js\<close>);
    \<open>Remote_Sessions\<close> (\<open>lib/remote-namespace.js\<close>): remote sessions admitted by tickets and the relay
    between an agent and its viewers;
    \<open>Client_Directory\<close>: public keys, the registration of push endpoints, and per-minute windows.

  \<^bold>\<open>Conventions.\<close> An object or a Map is an association list in insertion order; keys that look like
  array indices (which JavaScript enumerates first) and the key \<open>__proto__\<close> get no special treatment.
  A number is an exact rational, an infinity or NaN, so rounding is not modelled; bit operations are
  on words. A string is a list of 8-bit characters. The clock, the random draws and the expiry of
  timers are arguments or events of a step. Code outside \<open>lib/\<close> is a parameter: the event names and
  the signature checks of the protocol package, hashes, DNS, the HTTP exchanges. A rejected promise or
  a thrown error is a value. Where the code creates an entry on lookup, the model reads the missing
  entry as the empty one. Refusals that the code only logs are outcomes of the handler. Promises are
  taken to be settled before the next event of a client; in particular the durable writes of one
  message happen in one step.

  \<^bold>\<open>What is shown.\<close> For the stores: a stored message is delivered with its payload until it is
  settled or expires, settled messages stay settled, realms do not mix, and the three backends agree. For the
  guards: bounds on what a bucket, a cap or a ticket admits over any run, and the runs in which a proof
  is accepted twice. For push: no address that the guard accepts is private, wakes carry no content,
  credentials stay with their project, and a restart loses no device. For the administration: the
  manager of a realm and the holder of a management token change nothing outside their realms and
  their limits, expired realms leave nothing behind, no secret shows in the settings, and every token
  was configured or approved by someone entitled to. For a cluster: its nodes come to hold the same
  settings, except for a node that wrote while it read (\<open>own_change_lost\<close>), a proof is accepted by one
  node only, published keys reach every node, and a request may be decided twice (\<open>decided_twice\<close>) but
  never lets in a token that was not submitted. For the broker: the routing state
  is well formed after every sequence of steps (\<open>realm_run_wf\<close>), a message reaches only subscriptions
  it is meant for, groups are served round robin, a message leaves the store only for a reason, and
  retries to a silent consumer end. Several theorems state what the code does where a comment or the
  name of an operation says otherwise (\<open>unsubscribe_inert\<close>, \<open>disconnect_clears_one\<close>,
  \<open>ack_without_store_aborts\<close>, \<open>repeated_chunk_truncates\<close>).

  \<^bold>\<open>Bounds.\<close> No definition runs on fuel: every recursion is structural or has a measure, and timers are
  events, so the only bounds are those of the code (queue caps, rings, pools, attempts). The SCAN loop of
  the Redis store may run forever and is a partial function.

  \<^bold>\<open>Not modelled.\<close> The HTTP transport, streaming connections and the manager user interface; of the
  management commands, reading the settings file and switching the storage backend are parameters, and
  the statistics and the commands on the dead-letter queue (calls of the store) are left out; Redis
  commands that fail in a cluster; \<open>lib/logger.js\<close>; scripts and the command line clients.
\<close>

end
